(* ===== verification/VK_Prelude.thy ===== *)
theory VK_Prelude
  imports Main "HOL-Library.Word"
begin

unbundle bit_operations_syntax

text \<open>
  Shared vocabulary of the development: the C types the sources use, the errno values,
  the byte memory with \<open>memcpy\<close>, and the generic lemmas on words, lists and
  memory that the components rely on.

  \<^item> \<open>size_t\<close> and addresses are 64-bit words (the build targets LP64); a byte is
    an 8-bit word; an \<open>ssize_t\<close> or \<open>int\<close> result is an \<open>int\<close> whose negative value is the C
    error code.
  \<^item> A C function that returns \<open>-1\<close> or \<open>NULL\<close> and sets \<open>errno\<close> returns
    \<open>Inl e\<close> with the value it stores in \<open>errno\<close>; success is \<open>Inr v\<close>.
\<close>

type_synonym size_t = "64 word"
type_synonym addr = "64 word"
type_synonym byte = "8 word"
type_synonym errno = int
type_synonym mem = "addr \<Rightarrow> byte"

named_theorems errno_defs "numeric values of the errno constants"
named_theorems vk_word "word facts used to move size_t arithmetic to nat"

subsection \<open>errno values (Linux numbering)\<close>

definition EPERM :: errno where [errno_defs]: "EPERM = 1"
definition ENOENT :: errno where [errno_defs]: "ENOENT = 2"
definition EINTR :: errno where [errno_defs]: "EINTR = 4"
definition EAGAIN :: errno where [errno_defs]: "EAGAIN = 11"
definition ENOMEM :: errno where [errno_defs]: "ENOMEM = 12"
definition EFAULT :: errno where [errno_defs]: "EFAULT = 14"
definition EEXIST :: errno where [errno_defs]: "EEXIST = 17"
definition EINVAL :: errno where [errno_defs]: "EINVAL = 22"
definition EPIPE :: errno where [errno_defs]: "EPIPE = 32"
definition ERANGE :: errno where [errno_defs]: "ERANGE = 34"
definition EPROTO :: errno where [errno_defs]: "EPROTO = 71"
definition ENOBUFS :: errno where [errno_defs]: "ENOBUFS = 105"

subsection \<open>Word arithmetic as natural numbers\<close>

lemma unat_lt_size [simp]: "unat (x :: size_t) < 18446744073709551616"
proof -
  have "unat x < 2 ^ LENGTH(64)" by (rule unsigned_less)
  then show ?thesis by simp
qed

lemma unat_lt64: "unat (x :: size_t) < 2 ^ 64"
  using unat_lt_size [of x] by simp

lemma unat_add_exact [vk_word]:
  "unat (a :: size_t) + unat b < 2 ^ 64 \<Longrightarrow> unat (a + b) = unat a + unat b"
  by (simp add: unat_word_ariths)

lemma unat_mult_exact [vk_word]:
  "unat (a :: size_t) * unat b < 2 ^ 64 \<Longrightarrow> unat (a * b) = unat a * unat b"
  by (simp add: unat_word_ariths)

lemma unat_sub_exact [vk_word]: "b \<le> (a :: size_t) \<Longrightarrow> unat (a - b) = unat a - unat b"
  by (rule unat_sub)

lemma unat_of_nat_exact [vk_word]: "n < 2 ^ 64 \<Longrightarrow> unat (of_nat n :: size_t) = n"
  by (simp add: unat_of_nat)

lemma word_eq_unat: "(x :: size_t) = y \<longleftrightarrow> unat x = unat y"
  by (simp only: word_unat_eq_iff)

lemma word_of_nat_unat_add: "(a :: size_t) + of_nat (unat b) = a + b"
  by simp

subsection \<open>Byte memory\<close>

text \<open>A little-endian \<open>size_t\<close> object in byte memory, and \<open>memcpy\<close>.\<close>

definition store64 :: "mem \<Rightarrow> addr \<Rightarrow> size_t \<Rightarrow> mem" where
  "store64 m a v =
     (\<lambda>x. if unat (x - a) < 8 then ucast (drop_bit (8 * unat (x - a)) v) else m x)"

fun le_word :: "byte list \<Rightarrow> size_t" where
  "le_word [] = 0"
| "le_word (b # bs) = ucast b OR push_bit 8 (le_word bs)"

definition load64 :: "mem \<Rightarrow> addr \<Rightarrow> size_t" where
  "load64 m a = le_word (map (\<lambda>i. m (a + of_nat i)) [0..<8])"

definition memcpy :: "mem \<Rightarrow> addr \<Rightarrow> addr \<Rightarrow> size_t \<Rightarrow> mem" where
  "memcpy m dst src n =
     (\<lambda>x. if unat (x - dst) < unat n then m (src + (x - dst)) else m x)"

definition bytes_at :: "mem \<Rightarrow> addr \<Rightarrow> nat \<Rightarrow> byte list" where
  "bytes_at m a n = map (\<lambda>i. m (a + of_nat i)) [0..<n]"

text \<open>The half-open address range of \<open>n\<close> bytes from \<open>a\<close>.\<close>

definition in_range :: "addr \<Rightarrow> nat \<Rightarrow> addr \<Rightarrow> bool" where
  "in_range a n x \<longleftrightarrow> unat (x - a) < n"

lemma in_range_add [simp]: "i < n \<Longrightarrow> n \<le> 2 ^ 64 \<Longrightarrow> in_range a n (a + of_nat i)"
  by (simp add: in_range_def unat_of_nat_exact)

lemma bit_le_word:
  "bit (le_word bs) n \<longleftrightarrow> n < 64 \<and> n div 8 < length bs \<and> bit (bs ! (n div 8)) (n mod 8)"
proof (induction bs arbitrary: n)
  case (Cons b bs)
  show ?case
  proof (cases "n < 8")
    case True
    then show ?thesis by (auto simp: bit_simps)
  next
    case False
    then have "n div 8 = Suc ((n - 8) div 8)" "n mod 8 = (n - 8) mod 8"
      by (simp_all add: div_if mod_if [of n])
    moreover have "\<not> bit b n" using False bit_imp_le_length [of b n] by auto
    ultimately show ?thesis using False Cons.IH [of "n - 8"]
      by (auto simp: bit_simps)
  qed
qed simp

lemma load64_bit:
  "bit (load64 m a) n \<longleftrightarrow> n < 64 \<and> bit (m (a + of_nat (n div 8))) (n mod 8)"
proof -
  have "n div 8 < 8" if "n < 64" using that by (simp add: less_mult_imp_div_less)
  then show ?thesis by (auto simp: load64_def bit_le_word simp del: upt_conv_Cons)
qed

lemma load64_store64_same [simp]: "load64 (store64 m a v) a = v"
proof (rule bit_word_eqI)
  fix n :: nat
  assume n: "n < LENGTH(64)"
  then have less: "n div 8 < 8" by (simp add: less_mult_imp_div_less)
  have u: "unat (of_nat (n div 8) :: size_t) = n div 8"
    using less by (intro unat_of_nat_exact) simp
  have "8 * (n div 8) + n mod 8 = n" by simp
  then show "bit (load64 (store64 m a v) a) n = bit v n"
    using n less by (simp add: load64_bit store64_def u bit_simps)
qed

lemma load64_cong:
  "(\<And>i. i < 8 \<Longrightarrow> m (a + of_nat i) = m' (a + of_nat i)) \<Longrightarrow> load64 m a = load64 m' a"
  unfolding load64_def by (rule arg_cong [where f = le_word], rule map_cong) simp_all

lemma load64_store64_other:
  "(\<And>i. i < 8 \<Longrightarrow> \<not> in_range b 8 (a + of_nat i)) \<Longrightarrow> load64 (store64 m b v) a = load64 m a"
  by (rule load64_cong) (simp add: store64_def in_range_def)

lemma length_bytes_at [simp]: "length (bytes_at m a n) = n"
  by (simp add: bytes_at_def)

lemma nth_bytes_at [simp]: "i < n \<Longrightarrow> bytes_at m a n ! i = m (a + of_nat i)"
  by (simp add: bytes_at_def)

lemma bytes_at_cong:
  "(\<And>i. i < n \<Longrightarrow> m (a + of_nat i) = m' (a + of_nat i)) \<Longrightarrow> bytes_at m a n = bytes_at m' a n"
  by (simp add: bytes_at_def)

lemma bytes_at_append: "bytes_at m a (k + n) = bytes_at m a k @ bytes_at m (a + of_nat k) n"
proof (rule nth_equalityI)
  show "bytes_at m a (k + n) ! i = (bytes_at m a k @ bytes_at m (a + of_nat k) n) ! i"
    if "i < length (bytes_at m a (k + n))" for i
    using that by (cases "i < k") (auto simp: nth_append of_nat_diff algebra_simps)
qed simp

lemma memcpy_outside: "\<not> in_range dst (unat n) x \<Longrightarrow> memcpy m dst src n x = m x"
  by (simp add: memcpy_def in_range_def)

lemma memcpy_inside: "i < unat n \<Longrightarrow> memcpy m dst src n (dst + of_nat i) = m (src + of_nat i)"
proof -
  assume i: "i < unat n"
  then have "unat (of_nat i :: size_t) = i"
    using less_trans [OF _ unat_lt_size] by (intro unat_of_nat_exact) simp
  with i show ?thesis by (simp add: memcpy_def)
qed

subsection \<open>Scattered writes\<close>

text \<open>Every copy of the ring buffer is a scatter of a list of bytes over a list of
  distinct addresses.\<close>

definition range_addrs :: "addr \<Rightarrow> nat \<Rightarrow> addr list" where
  "range_addrs a n = map (\<lambda>i. a + of_nat i) [0..<n]"

definition scatter :: "mem \<Rightarrow> addr list \<Rightarrow> byte list \<Rightarrow> mem" where
  "scatter m as bs = (\<lambda>x. case map_of (zip as bs) x of None \<Rightarrow> m x | Some b \<Rightarrow> b)"

lemma length_range_addrs [simp]: "length (range_addrs a n) = n"
  by (simp add: range_addrs_def)

lemma bytes_at_range: "bytes_at m a n = map m (range_addrs a n)"
  by (simp add: bytes_at_def range_addrs_def)

lemma range_addrs_append: "range_addrs a (k + n) = range_addrs a k @ range_addrs (a + of_nat k) n"
  by (intro nth_equalityI) (auto simp: range_addrs_def nth_append of_nat_diff)

lemma take_range_addrs: "take k (range_addrs a n) = range_addrs a (min k n)"
  by (intro nth_equalityI) (simp_all add: range_addrs_def)

lemma distinct_range_addrs: "n \<le> 2 ^ 64 \<Longrightarrow> distinct (range_addrs a n)"
proof -
  assume n: "n \<le> 2 ^ 64"
  have "i = j" if "i < n" "j < n" "(of_nat i :: size_t) = of_nat j" for i j
    using that n by (metis less_le_trans unat_of_nat_exact)
  then show ?thesis by (auto simp: range_addrs_def distinct_map inj_on_def)
qed

lemma mem_range_addrs: "n \<le> 2 ^ 64 \<Longrightarrow> x \<in> set (range_addrs a n) \<longleftrightarrow> in_range a n x"
proof
  assume "n \<le> 2 ^ 64" "x \<in> set (range_addrs a n)"
  then show "in_range a n x" by (auto simp: range_addrs_def)
next
  assume "in_range a n x"
  then have "unat (x - a) < n" "x = a + of_nat (unat (x - a))" by (simp_all add: in_range_def)
  then show "x \<in> set (range_addrs a n)" unfolding range_addrs_def by (metis (no_types, lifting)
    atLeastLessThan_iff image_eqI le0 list.set_map set_upt)
qed

lemma scatter_outside: "x \<notin> set as \<Longrightarrow> scatter m as bs x = m x"
  by (auto simp: scatter_def split: option.split dest: map_of_SomeD set_zip_leftD)

lemma map_scatter_outside: "set xs \<inter> set as = {} \<Longrightarrow> map (scatter m as bs) xs = map m xs"
  by (auto intro!: scatter_outside)

lemma map_scatter_same:
  "distinct as \<Longrightarrow> length bs = length as \<Longrightarrow> map (scatter m as bs) as = bs"
  by (intro nth_equalityI) (simp_all add: scatter_def map_of_zip_nth)

lemma scatter_Nil [simp]: "scatter m [] bs = m"
  by (simp add: scatter_def)

lemma scatter_scatter:
  assumes "set as \<inter> set as' = {}" "length bs = length as"
  shows "scatter (scatter m as bs) as' bs' = scatter m (as @ as') (bs @ bs')"
proof
  fix x
  show "scatter (scatter m as bs) as' bs' x = scatter m (as @ as') (bs @ bs') x"
  proof (cases "x \<in> set as")
    case True
    then have "x \<notin> set as'" using assms(1) by blast
    then have "scatter (scatter m as bs) as' bs' x = scatter m as bs x" by (rule scatter_outside)
    moreover obtain b where "map_of (zip as bs) x = Some b"
      using True assms(2) by (metis map_of_zip_is_Some)
    ultimately show ?thesis using assms(2) by (simp add: scatter_def map_add_def)
  next
    case False
    then have none: "map_of (zip as bs) x = None"
      by (metis (no_types, opaque_lifting) map_of_eq_None_iff image_iff prod.collapse set_zip_leftD)
    show ?thesis
      unfolding scatter_def zip_append [OF assms(2) [symmetric]] map_of_append map_add_def none
      by (simp split: option.split)
  qed
qed

lemma memcpy_scatter:
  "memcpy m a src n = scatter m (range_addrs a (unat n)) (map m (range_addrs src (unat n)))"
proof
  fix x
  have n: "unat n \<le> 2 ^ 64" using unat_lt64 [of n] by (rule less_imp_le)
  show "memcpy m a src n x =
    scatter m (range_addrs a (unat n)) (map m (range_addrs src (unat n))) x"
  proof (cases "unat (x - a) < unat n")
    case True
    let ?k = "unat (x - a)"
    have x: "range_addrs a (unat n) ! ?k = x"
      using True by (simp add: range_addrs_def)
    have "map_of (zip (range_addrs a (unat n)) (map m (range_addrs src (unat n))))
        (range_addrs a (unat n) ! ?k) = Some (map m (range_addrs src (unat n)) ! ?k)"
      using True by (intro map_of_zip_nth distinct_range_addrs n) simp_all
    with True x show ?thesis by (simp add: memcpy_def scatter_def range_addrs_def)
  next
    case False
    then have "x \<notin> set (range_addrs a (unat n))"
      by (simp add: mem_range_addrs [OF n] in_range_def)
    with False show ?thesis by (simp add: memcpy_def scatter_outside)
  qed
qed

end
