(* ===== verification/Wrapguard.thy ===== *)
theory Wrapguard
  imports VK_Prelude
begin

text \<open>
  Overflow-guarded size arithmetic (src/vk_wrapguard.c). The guards compute on
  wrapping 64-bit words exactly as the C does; the lemmas say that each one fails
  precisely when the mathematical result does not fit in a \<open>size_t\<close>. The page size,
  which the code asks from the operating system, is the parameter \<open>pg\<close>.
\<close>

subsection \<open>Guards and guarded operations\<close>

definition MUL_NO_OVERFLOW :: size_t where
  "MUL_NO_OVERFLOW = push_bit (8 * 4) 1"

definition SIZE_MAX :: size_t where
  "SIZE_MAX = - 1"

definition vk_wrapguard_mult :: "size_t \<Rightarrow> size_t \<Rightarrow> errno + unit" where
  "vk_wrapguard_mult a b =
     (if (a \<ge> MUL_NO_OVERFLOW \<or> b \<ge> MUL_NO_OVERFLOW) \<and> a > 0 \<and> SIZE_MAX div a < b
      then Inl ERANGE else Inr ())"

definition vk_wrapguard_add :: "size_t \<Rightarrow> size_t \<Rightarrow> errno + unit" where
  "vk_wrapguard_add a b =
     (if a + b < a \<or> a + b < b then Inl ERANGE else Inr ())"

definition vk_safe_mult :: "size_t \<Rightarrow> size_t \<Rightarrow> errno + size_t" where
  "vk_safe_mult a b =
     (case vk_wrapguard_mult a b of Inl e \<Rightarrow> Inl e | Inr _ \<Rightarrow> Inr (a * b))"

definition vk_safe_add :: "size_t \<Rightarrow> size_t \<Rightarrow> errno + size_t" where
  "vk_safe_add a b =
     (case vk_wrapguard_add a b of Inl e \<Rightarrow> Inl e | Inr _ \<Rightarrow> Inr (a + b))"

definition vk_safe_pagelen :: "size_t \<Rightarrow> size_t \<Rightarrow> size_t \<Rightarrow> errno + size_t" where
  "vk_safe_pagelen pg nmemb count =
     (case vk_safe_mult nmemb count of
        Inl e \<Rightarrow> Inl e
      | Inr len \<Rightarrow>
          (let pagelen = len div pg
           in Inr (if pagelen * pg < len then pagelen + 1 else pagelen)))"

definition vk_hugepagesize :: size_t where
  "vk_hugepagesize = 2 * 1024 * 1024"

definition vk_safe_hugepagelen :: "size_t \<Rightarrow> size_t \<Rightarrow> errno + size_t" where
  "vk_safe_hugepagelen nmemb count =
     (case vk_safe_mult nmemb count of
        Inl e \<Rightarrow> Inl e
      | Inr len \<Rightarrow>
          (let pagelen = len div vk_hugepagesize
           in Inr (if pagelen * vk_hugepagesize < len then pagelen + 1 else pagelen)))"

definition vk_safe_alignedlen :: "size_t \<Rightarrow> size_t \<Rightarrow> size_t \<Rightarrow> errno + size_t" where
  "vk_safe_alignedlen pg nmemb count =
     (case vk_safe_pagelen pg nmemb count of
        Inl e \<Rightarrow> Inl e
      | Inr pagelen \<Rightarrow> vk_safe_mult pagelen pg)"

definition vk_safe_hugealignedlen :: "size_t \<Rightarrow> size_t \<Rightarrow> errno + size_t" where
  "vk_safe_hugealignedlen nmemb count =
     (case vk_safe_hugepagelen nmemb count of
        Inl e \<Rightarrow> Inl e
      | Inr pagelen \<Rightarrow> vk_safe_mult pagelen vk_hugepagesize)"

subsection \<open>The guards decide overflow\<close>

lemma MUL_NO_OVERFLOW_val: "MUL_NO_OVERFLOW = 4294967296"
  by (simp add: MUL_NO_OVERFLOW_def push_bit_eq_mult)

lemma size_max_div_less:
  assumes "0 < (a :: size_t)"
  shows "SIZE_MAX div a < b \<longleftrightarrow> 2 ^ 64 \<le> unat a * unat b"
proof -
  have pos: "0 < unat a" using assms by (simp add: word_less_nat_alt)
  have max: "unat SIZE_MAX = 2 ^ 64 - 1" by (simp add: SIZE_MAX_def unsigned_minus_1_eq_mask mask_eq_exp_minus_1)
  have "SIZE_MAX div a < b \<longleftrightarrow> (2 ^ 64 - 1) div unat a < unat b"
    by (simp only: max word_less_nat_alt unat_div)
  also have "\<dots> \<longleftrightarrow> 2 ^ 64 - 1 < unat b * unat a"
    using pos by (simp add: div_less_iff_less_mult)
  finally show ?thesis by (auto simp: mult.commute)
qed

lemma small_product:
  assumes "(a :: size_t) < MUL_NO_OVERFLOW" "b < MUL_NO_OVERFLOW"
  shows "unat a * unat b < 2 ^ 64"
proof -
  have "unat a < 2 ^ 32" "unat b < 2 ^ 32"
    using assms by (simp_all add: MUL_NO_OVERFLOW_val word_less_nat_alt)
  then have "unat a * unat b < 2 ^ 32 * 2 ^ 32"
    by (intro mult_strict_mono) auto
  then show ?thesis by simp
qed

lemma wrapguard_mult_iff:
  "vk_wrapguard_mult a b = (if 2 ^ 64 \<le> unat a * unat b then Inl ERANGE else Inr ())"
proof (cases "a = 0")
  case True
  then show ?thesis by (simp add: vk_wrapguard_mult_def)
next
  case False
  then have pos: "0 < a" by (simp add: word_gt_0)
  show ?thesis
    using size_max_div_less [OF pos, of b] small_product [of a b] pos
    by (auto simp: vk_wrapguard_mult_def not_le)
qed

lemma wrapguard_add_iff:
  "vk_wrapguard_add a b = (if 2 ^ 64 \<le> unat a + unat b then Inl ERANGE else Inr ())"
  by (auto simp: vk_wrapguard_add_def word_less_nat_alt unat_word_ariths
      mod_if [of "unat a + unat b"] not_le less_diff_conv2)

lemma safe_mult_eq:
  "vk_safe_mult a b = (if 2 ^ 64 \<le> unat a * unat b then Inl ERANGE else Inr (a * b))"
  by (simp add: vk_safe_mult_def wrapguard_mult_iff)

lemma safe_add_eq:
  "vk_safe_add a b = (if 2 ^ 64 \<le> unat a + unat b then Inl ERANGE else Inr (a + b))"
  by (simp add: vk_safe_add_def wrapguard_add_iff)

subsection \<open>Rounding a size up to whole pages\<close>

text \<open>The mathematical contract: the least multiple of the page size that is no smaller.\<close>

definition pages_for :: "nat \<Rightarrow> nat \<Rightarrow> nat" where
  "pages_for page n = (n + page - 1) div page"

definition round_up :: "nat \<Rightarrow> nat \<Rightarrow> nat" where
  "round_up page n = pages_for page n * page"

lemma pages_for_eq:
  assumes "0 < page"
  shows "pages_for page n = n div page + (if n mod page = 0 then 0 else 1)"
proof -
  have eq: "n + page - 1 = (n mod page + page - 1) + n div page * page"
    using assms div_mult_mod_eq [of n page] by linarith
  have "pages_for page n = n div page + (n mod page + page - 1) div page"
    unfolding pages_for_def eq using assms by (subst div_mult_self1) auto
  moreover have "(n mod page + page - 1) div page = (if n mod page = 0 then 0 else 1)"
  proof (cases "n mod page = 0")
    case True
    then show ?thesis using assms by simp
  next
    case False
    moreover have "n mod page < page" using assms by (rule mod_less_divisor)
    moreover have "page * Suc 1 = page + page" by simp
    ultimately have "page * 1 \<le> n mod page + page - 1" "n mod page + page - 1 < page * Suc 1"
      by linarith+
    with False show ?thesis by (simp only: div_nat_eqI if_False)
  qed
  ultimately show ?thesis by simp
qed

lemma round_up_eq:
  "0 < page \<Longrightarrow> round_up page n = n - n mod page + (if n mod page = 0 then 0 else page)"
  by (simp add: round_up_def pages_for_eq minus_mod_eq_div_mult)

lemma round_up_ge: "0 < page \<Longrightarrow> n \<le> round_up page n"
  using mod_less_divisor [of page n] mod_less_eq_dividend [of n page]
  unfolding round_up_eq by (auto simp del: mod_less_divisor mod_less_eq_dividend)

lemma round_up_less: "0 < page \<Longrightarrow> round_up page n < n + page"
  using mod_less_eq_dividend [of n page] by (auto simp: round_up_eq)

lemma round_up_dvd: "page dvd round_up page n"
  by (simp add: round_up_def)

lemma round_up_least:
  assumes "0 < page" "page dvd m" "n \<le> m"
  shows "round_up page n \<le> m"
proof (rule ccontr)
  assume "\<not> ?thesis"
  then have less: "m < round_up page n" by simp
  from assms(2) obtain k where m: "m = k * page" by (metis dvdE mult.commute)
  have "round_up page n < m + page" using round_up_less [OF assms(1), of n] assms(3) by simp
  with less m have "k < pages_for page n" "pages_for page n * page < Suc k * page"
    by (simp_all add: round_up_def)
  then show False by (metis mult_less_cancel2 not_less_eq)
qed

lemma round_up_0 [simp]: "0 < page \<Longrightarrow> round_up page 0 = 0"
  by (simp add: round_up_eq)

lemma ceil_div:
  assumes "0 < (p :: nat)"
  shows "(if n div p * p < n then n div p + 1 else n div p) = pages_for p n"
proof -
  have "n div p * p < n \<longleftrightarrow> n mod p \<noteq> 0"
    using div_mult_mod_eq [of n p] by linarith
  with assms show ?thesis by (simp add: pages_for_eq)
qed

locale page_rounding =
  fixes page :: size_t
    and pagelen :: "size_t \<Rightarrow> size_t \<Rightarrow> errno + size_t"
    and alignedlen :: "size_t \<Rightarrow> size_t \<Rightarrow> errno + size_t"
  assumes page_nonzero: "page \<noteq> 0"
    and pagelen_step: "pagelen nmemb count =
      (case vk_safe_mult nmemb count of
         Inl e \<Rightarrow> Inl e
       | Inr len \<Rightarrow> Inr (if len div page * page < len then len div page + 1 else len div page))"
    and alignedlen_step: "alignedlen nmemb count =
      (case pagelen nmemb count of Inl e \<Rightarrow> Inl e | Inr n \<Rightarrow> vk_safe_mult n page)"
begin

lemma unat_page_pos: "0 < unat page"
  using page_nonzero by (simp add: unat_gt_0)

lemma pagelen_word:
  "unat (if len div page * page < len then len div page + 1 else len div page)
    = pages_for (unat page) (unat len)"
proof -
  have le: "unat (len div page) * unat page \<le> unat len"
    by (simp add: unat_div)
  then have eq: "unat (len div page * page) = unat len div unat page * unat page"
    using le_less_trans [OF le unat_lt_size] by (simp add: unat_mult_exact unat_div)
  have less: "unat len div unat page + 1 < 2 ^ 64" if "unat len div unat page * unat page < unat len"
  proof -
    have "unat len div unat page \<le> unat len div unat page * unat page"
      using unat_page_pos by simp
    with that have "unat len div unat page < unat len" by linarith
    moreover have "unat len < 2 ^ 64" using unat_lt_size [of len] by simp
    ultimately show ?thesis by linarith
  qed
  show ?thesis
    unfolding ceil_div [OF unat_page_pos, symmetric]
    using less by (auto simp: word_less_nat_alt eq unat_div unat_add_exact)
qed

lemma pagelen_ceil:
  "unat nmemb * unat count < 2 ^ 64 \<Longrightarrow>
    \<exists>n. pagelen nmemb count = Inr n \<and> unat n = pages_for (unat page) (unat nmemb * unat count)"
  using pagelen_word [of "nmemb * count"]
  by (simp add: pagelen_step safe_mult_eq unat_mult_exact)

lemma pagelen_overflow:
  "2 ^ 64 \<le> unat nmemb * unat count \<Longrightarrow> pagelen nmemb count = Inl ERANGE"
  by (simp add: pagelen_step safe_mult_eq)

lemma alignedlen_correct:
  "alignedlen nmemb count =
    (let r = round_up (unat page) (unat nmemb * unat count)
     in if r < 2 ^ 64 then Inr (of_nat r) else Inl ERANGE)"
proof (cases "unat nmemb * unat count < 2 ^ 64")
  case True
  then obtain n where "pagelen nmemb count = Inr n"
    and "pages_for (unat page) (unat nmemb * unat count) = unat n"
    using pagelen_ceil by metis
  then show ?thesis
    by (simp add: alignedlen_step safe_mult_eq round_up_def Let_def not_less)
next
  case False
  then have "2 ^ 64 \<le> round_up (unat page) (unat nmemb * unat count)"
    using round_up_ge [OF unat_page_pos, of "unat nmemb * unat count"] by linarith
  with False show ?thesis
    by (simp add: alignedlen_step pagelen_overflow Let_def)
qed

lemma alignedlen_Inr:
  assumes "alignedlen nmemb count = Inr r"
  shows "unat r = round_up (unat page) (unat nmemb * unat count)"
  using assms by (auto simp: alignedlen_correct Let_def unat_of_nat_exact split: if_splits)

end

lemma page_rounding_vk_safe:
  "pg \<noteq> 0 \<Longrightarrow> page_rounding pg (vk_safe_pagelen pg) (vk_safe_alignedlen pg)"
  by unfold_locales
    (simp_all add: vk_safe_pagelen_def vk_safe_alignedlen_def Let_def split: sum.split)

interpretation page4k: page_rounding 4096 "vk_safe_pagelen 4096" "vk_safe_alignedlen 4096"
  by (rule page_rounding_vk_safe) simp

interpretation hugepage: page_rounding vk_hugepagesize vk_safe_hugepagelen vk_safe_hugealignedlen
  by unfold_locales
    (simp_all add: vk_safe_hugepagelen_def vk_safe_hugealignedlen_def Let_def
      vk_hugepagesize_def split: sum.split)

lemmas alignedlen_correct = page_rounding.alignedlen_correct [OF page_rounding_vk_safe]
lemmas alignedlen_Inr = page_rounding.alignedlen_Inr [OF page_rounding_vk_safe]

end
