(* ===== verification/Vectoring.thy ===== *)
theory Vectoring
  imports Wrapguard
begin

text \<open>
  The vector ring buffer (src/vk_vectoring.c, src/vk_vectoring_s.h): a byte ring in
  memory, described by a cursor and a length, and cached as two pairs of \<open>iovec\<close>s: the
  filled part (\<open>vector_tx\<close>) and the empty part (\<open>vector_rx\<close>). Bytes live in the
  explicit memory \<open>m\<close>, so that copies between rings and user buffers are copies between
  addresses. \<open>errno\<close> is passed explicitly as \<open>e\<close>; the outcome of an operating system
  call is an argument of the function that makes it. The C flags (0 or 1) are \<open>bool\<close>s.
\<close>

text \<open>The base of an \<open>iovec\<close> is an address in the buffer, or the empty string literal
  that \<open>vk_iovec_sync\<close> stores for an absent second part.\<close>

datatype iov_base = Base addr | Empty_Literal

record iovec =
  iov_base :: iov_base
  iov_len :: size_t

type_synonym iovecs = "iovec \<times> iovec"

record vk_vectoring =
  buf_start :: addr
  buf_len :: size_t
  tx_cursor :: size_t
  tx_len :: size_t
  vector_tx :: iovecs
  vector_rx :: iovecs
  vec_error :: errno
  vec_eof :: bool
  vec_closed :: bool
  rx_blocked :: bool
  tx_blocked :: bool
  vec_effect :: bool

subsection \<open>Cursors and the cached vectors\<close>

definition vk_vectoring_tx_cursor :: "vk_vectoring \<Rightarrow> size_t" where
  "vk_vectoring_tx_cursor r = tx_cursor r"

definition vk_vectoring_tx_len :: "vk_vectoring \<Rightarrow> size_t" where
  "vk_vectoring_tx_len r = tx_len r"

definition vk_vectoring_rx_cursor :: "vk_vectoring \<Rightarrow> size_t" where
  "vk_vectoring_rx_cursor r = (tx_cursor r + tx_len r) mod buf_len r"

definition vk_vectoring_rx_len :: "vk_vectoring \<Rightarrow> size_t" where
  "vk_vectoring_rx_len r = buf_len r - tx_len r"

definition vk_vectoring_rx_pos :: "mem \<Rightarrow> vk_vectoring \<Rightarrow> size_t \<Rightarrow> byte" where
  "vk_vectoring_rx_pos m r pos =
     m (buf_start r + (vk_vectoring_rx_cursor r + pos) mod buf_len r)"

definition vk_vectoring_tx_pos :: "mem \<Rightarrow> vk_vectoring \<Rightarrow> size_t \<Rightarrow> byte" where
  "vk_vectoring_tx_pos m r pos =
     m (buf_start r + (vk_vectoring_tx_cursor r + pos) mod buf_len r)"

definition vk_iovec_sync :: "addr \<Rightarrow> size_t \<Rightarrow> size_t \<Rightarrow> size_t \<Rightarrow> iovecs" where
  "vk_iovec_sync start blen cursor len =
     (if cursor + len > blen
      then (\<lparr>iov_base = Base (start + cursor), iov_len = blen - cursor\<rparr>,
            \<lparr>iov_base = Base start, iov_len = len - (blen - cursor)\<rparr>)
      else (\<lparr>iov_base = Base (start + cursor), iov_len = len\<rparr>,
            \<lparr>iov_base = Empty_Literal, iov_len = 0\<rparr>))"

definition vk_vectoring_sync_tx :: "vk_vectoring \<Rightarrow> vk_vectoring" where
  "vk_vectoring_sync_tx r =
     r\<lparr>vector_tx := vk_iovec_sync (buf_start r) (buf_len r) (vk_vectoring_tx_cursor r)
                      (vk_vectoring_tx_len r)\<rparr>"

definition vk_vectoring_sync_rx :: "vk_vectoring \<Rightarrow> vk_vectoring" where
  "vk_vectoring_sync_rx r =
     r\<lparr>vector_rx := vk_iovec_sync (buf_start r) (buf_len r) (vk_vectoring_rx_cursor r)
                      (vk_vectoring_rx_len r)\<rparr>"

definition vk_vectoring_sync :: "vk_vectoring \<Rightarrow> vk_vectoring" where
  "vk_vectoring_sync r = vk_vectoring_sync_tx (vk_vectoring_sync_rx r)"

text \<open>Initialisation of a ring in place: \<open>closed\<close> is the one field it does not set.\<close>

definition vk_vectoring_init :: "vk_vectoring \<Rightarrow> addr \<Rightarrow> size_t \<Rightarrow> vk_vectoring" where
  "vk_vectoring_init r start len =
     (vk_vectoring_sync (r\<lparr>buf_start := start, buf_len := len, tx_cursor := 0, tx_len := 0\<rparr>))
       \<lparr>vec_error := 0, vec_eof := False, rx_blocked := False, tx_blocked := False,
        vec_effect := False\<rparr>"

text \<open>\<open>lit\<close> is the address of the empty string literal.\<close>

definition iov_ptr :: "addr \<Rightarrow> iovec \<Rightarrow> addr" where
  "iov_ptr lit v = (case iov_base v of Base a \<Rightarrow> a | Empty_Literal \<Rightarrow> lit)"

definition vk_vectoring_vector_within :: "addr \<Rightarrow> vk_vectoring \<Rightarrow> iovec \<Rightarrow> bool" where
  "vk_vectoring_vector_within lit r v \<longleftrightarrow>
     iov_ptr lit v > buf_start r \<and> iov_ptr lit v + iov_len v \<le> buf_start r + buf_len r"

definition vk_vectoring_vectors_within :: "addr \<Rightarrow> vk_vectoring \<Rightarrow> iovecs \<Rightarrow> bool" where
  "vk_vectoring_vectors_within lit r vs \<longleftrightarrow>
     vk_vectoring_vector_within lit r (fst vs) \<and> vk_vectoring_vector_within lit r (snd vs)"

definition vk_vectoring_validate :: "addr \<Rightarrow> vk_vectoring \<Rightarrow> vk_vectoring" where
  "vk_vectoring_validate lit r =
     (if \<not> vk_vectoring_vectors_within lit r (vector_rx r) \<or>
         \<not> vk_vectoring_vectors_within lit r (vector_tx r)
      then r\<lparr>vec_error := EINVAL\<rparr> else r)"

definition vk_iovec_len :: "iovecs \<Rightarrow> size_t" where
  "vk_iovec_len vs = iov_len (fst vs) + iov_len (snd vs)"

definition vk_vectoring_vector_tx_len :: "vk_vectoring \<Rightarrow> size_t" where
  "vk_vectoring_vector_tx_len r = vk_iovec_len (vector_tx r)"

definition vk_vectoring_vector_rx_len :: "vk_vectoring \<Rightarrow> size_t" where
  "vk_vectoring_vector_rx_len r = vk_iovec_len (vector_rx r)"

subsection \<open>Status flags\<close>

definition vk_vectoring_is_empty :: "vk_vectoring \<Rightarrow> bool" where
  "vk_vectoring_is_empty r \<longleftrightarrow> vk_vectoring_vector_tx_len r = 0"

definition vk_vectoring_has_nodata :: "vk_vectoring \<Rightarrow> bool" where
  "vk_vectoring_has_nodata r \<longleftrightarrow> vec_eof r \<and> vk_vectoring_is_empty r"

definition vk_vectoring_trigger_effect :: "vk_vectoring \<Rightarrow> vk_vectoring" where
  "vk_vectoring_trigger_effect r = r\<lparr>vec_effect := True\<rparr>"

definition vk_vectoring_clear_effect :: "vk_vectoring \<Rightarrow> vk_vectoring" where
  "vk_vectoring_clear_effect r = r\<lparr>vec_effect := False\<rparr>"

definition vk_vectoring_handle_effect :: "vk_vectoring \<Rightarrow> bool \<times> vk_vectoring" where
  "vk_vectoring_handle_effect r =
     (if vec_effect r then (True, r\<lparr>vec_effect := False\<rparr>) else (False, r))"

definition vk_vectoring_clear_error :: "vk_vectoring \<Rightarrow> vk_vectoring" where
  "vk_vectoring_clear_error r =
     (if vec_error r \<noteq> 0 then r\<lparr>vec_error := 0, vec_effect := True\<rparr> else r)"

definition vk_vectoring_clear_eof :: "vk_vectoring \<Rightarrow> vk_vectoring" where
  "vk_vectoring_clear_eof r =
     (if vec_eof r then r\<lparr>vec_eof := False, vec_effect := True\<rparr> else r)"

definition vk_vectoring_set_error :: "errno \<Rightarrow> vk_vectoring \<Rightarrow> vk_vectoring" where
  "vk_vectoring_set_error e r =
     (if vec_error r \<noteq> e then r\<lparr>vec_error := e, vec_effect := True\<rparr> else r)"

definition vk_vectoring_mark_eof :: "vk_vectoring \<Rightarrow> bool \<times> vk_vectoring" where
  "vk_vectoring_mark_eof r =
     (if \<not> vec_eof r then (True, r\<lparr>vec_effect := True, vec_eof := True\<rparr>) else (False, r))"

definition vk_vectoring_mark_closed :: "vk_vectoring \<Rightarrow> bool \<times> vk_vectoring" where
  "vk_vectoring_mark_closed r =
     (if \<not> vec_closed r then (True, r\<lparr>vec_effect := True, vec_closed := True\<rparr>) else (False, r))"

subsection \<open>Accounting for transferred bytes\<close>

definition vk_vectoring_mark_received :: "vk_vectoring \<Rightarrow> size_t \<Rightarrow> vk_vectoring" where
  "vk_vectoring_mark_received r received =
     (if received = 0 then r
      else
        (let r' =
           (if received < vk_vectoring_rx_len r
            then vk_vectoring_sync (r\<lparr>tx_len := (tx_len r + received) mod buf_len r\<rparr>)
            else if received = vk_vectoring_rx_len r
            then vk_vectoring_sync (r\<lparr>tx_len := buf_len r\<rparr>)
            else r\<lparr>vec_error := ENOBUFS\<rparr>)
         in r'\<lparr>vec_effect := True\<rparr>))"

definition vk_vectoring_mark_sent :: "vk_vectoring \<Rightarrow> size_t \<Rightarrow> vk_vectoring" where
  "vk_vectoring_mark_sent r sent =
     (if sent = 0 then r
      else
        (let r' =
           (if sent \<le> vk_vectoring_tx_len r
            then vk_vectoring_sync
                   (r\<lparr>tx_cursor := (tx_cursor r + sent) mod buf_len r, tx_len := tx_len r - sent\<rparr>)
            else r\<lparr>vec_error := ENOBUFS\<rparr>)
         in r'\<lparr>vec_effect := True\<rparr>))"

definition vk_vectoring_signed_received ::
  "errno \<Rightarrow> vk_vectoring \<Rightarrow> int \<Rightarrow> int \<times> errno \<times> vk_vectoring" where
  "vk_vectoring_signed_received e r received =
     (if received < 0 then (received, 0, r\<lparr>vec_error := e\<rparr>)
      else (received, e, vk_vectoring_mark_received r (of_int received)))"

definition vk_vectoring_signed_sent ::
  "errno \<Rightarrow> vk_vectoring \<Rightarrow> int \<Rightarrow> int \<times> errno \<times> vk_vectoring" where
  "vk_vectoring_signed_sent e r sent =
     (if sent < 0 then (sent, 0, r\<lparr>vec_error := e\<rparr>)
      else (sent, e, vk_vectoring_mark_sent r (of_int sent)))"

definition vk_void_return :: "vk_vectoring \<Rightarrow> int" where
  "vk_void_return r = (if vec_error r \<noteq> 0 then - 1 else 0)"

text \<open>The comparison of a \<open>size_t\<close> with its conversion to \<open>ssize_t\<close> converts back.\<close>

definition vk_size_return :: "vk_vectoring \<Rightarrow> size_t \<Rightarrow> int \<times> vk_vectoring" where
  "vk_size_return r sz =
     (if vec_error r = - 1 then (- 1, r)
      else if sz \<noteq> word_of_int (sint sz) then (- 1, r\<lparr>vec_error := EINVAL\<rparr>)
      else (sint sz, r))"

subsection \<open>Copies between a ring and a user buffer\<close>

definition vk_vectoring_request :: "iovecs \<Rightarrow> size_t \<Rightarrow> size_t \<times> size_t" where
  "vk_vectoring_request vs len =
     (if len \<le> iov_len (fst vs) then (len, 0)
      else if len \<le> iov_len (fst vs) + iov_len (snd vs)
      then (iov_len (fst vs), len - iov_len (fst vs))
      else (iov_len (fst vs), iov_len (snd vs)))"

definition copy_out :: "mem \<Rightarrow> addr \<Rightarrow> iovec \<Rightarrow> size_t \<Rightarrow> mem" where
  "copy_out m dst v n =
     (if n > 0 then (case iov_base v of Base a \<Rightarrow> memcpy m dst a n | Empty_Literal \<Rightarrow> m) else m)"

definition copy_in :: "mem \<Rightarrow> iovec \<Rightarrow> addr \<Rightarrow> size_t \<Rightarrow> mem" where
  "copy_in m v src n =
     (if n > 0 then (case iov_base v of Base a \<Rightarrow> memcpy m a src n | Empty_Literal \<Rightarrow> m) else m)"

definition vk_vectoring_recv ::
  "errno \<Rightarrow> mem \<Rightarrow> vk_vectoring \<Rightarrow> addr \<Rightarrow> size_t \<Rightarrow> int \<times> errno \<times> mem \<times> vk_vectoring" where
  "vk_vectoring_recv e m r buf len =
     (let (l0, l1) = vk_vectoring_request (vector_tx r) len;
          m1 = copy_out m buf (fst (vector_tx r)) l0;
          m2 = copy_out m1 (buf + l0) (snd (vector_tx r)) l1
      in case vk_wrapguard_add l0 l1 of
           Inl er \<Rightarrow> (- 1, er, m2, r)
         | Inr _ \<Rightarrow>
             (let sent = l0 + l1;
                  (rc, r') = vk_size_return (vk_vectoring_mark_sent r sent) sent
              in (rc, e, m2, r')))"

definition vk_vectoring_send ::
  "errno \<Rightarrow> mem \<Rightarrow> vk_vectoring \<Rightarrow> addr \<Rightarrow> size_t \<Rightarrow> int \<times> errno \<times> mem \<times> vk_vectoring" where
  "vk_vectoring_send e m r buf len =
     (if len > 0 \<and> vec_eof r then (0, e, m, r)
      else
        (let (l0, l1) = vk_vectoring_request (vector_rx r) len;
             m1 = copy_in m (fst (vector_rx r)) buf l0;
             m2 = copy_in m1 (snd (vector_rx r)) (buf + l0) l1
         in case vk_wrapguard_add l0 l1 of
              Inl er \<Rightarrow> (- 1, er, m2, r)
            | Inr _ \<Rightarrow>
                (let received = l0 + l1;
                     (rc, r') = vk_size_return (vk_vectoring_mark_received r received) received
                 in (rc, e, m2, r'))))"

subsection \<open>Addresses behind the vectors\<close>

definition seg_addrs :: "iovec \<Rightarrow> addr list" where
  "seg_addrs v =
     (case iov_base v of
        Base a \<Rightarrow> map (\<lambda>i. a + of_nat i) [0..<unat (iov_len v)]
      | Empty_Literal \<Rightarrow> [])"

definition vec_addrs :: "iovecs \<Rightarrow> addr list" where
  "vec_addrs vs = seg_addrs (fst vs) @ seg_addrs (snd vs)"

definition ring_addr :: "vk_vectoring \<Rightarrow> nat \<Rightarrow> addr" where
  "ring_addr r i = buf_start r + of_nat (i mod unat (buf_len r))"

definition tx_addrs :: "vk_vectoring \<Rightarrow> addr list" where
  "tx_addrs r = map (\<lambda>i. ring_addr r (unat (tx_cursor r) + i)) [0..<unat (tx_len r)]"

definition rx_addrs :: "vk_vectoring \<Rightarrow> addr list" where
  "rx_addrs r = map (\<lambda>i. ring_addr r (unat (tx_cursor r) + unat (tx_len r) + i))
     [0..<unat (buf_len r) - unat (tx_len r)]"

text \<open>The abstraction: the bytes in the ring, oldest first, and the room left.\<close>

definition ring_data :: "mem \<Rightarrow> vk_vectoring \<Rightarrow> byte list" where
  "ring_data m r = map m (tx_addrs r)"

definition ring_free :: "vk_vectoring \<Rightarrow> nat" where
  "ring_free r = unat (buf_len r) - unat (tx_len r)"

definition ring_wf :: "vk_vectoring \<Rightarrow> bool" where
  "ring_wf r \<longleftrightarrow>
     0 < unat (buf_len r) \<and> unat (buf_len r) < 2 ^ 63 \<and>
     unat (tx_cursor r) < unat (buf_len r) \<and> unat (tx_len r) \<le> unat (buf_len r) \<and>
     vector_tx r = vk_iovec_sync (buf_start r) (buf_len r) (vk_vectoring_tx_cursor r)
                     (vk_vectoring_tx_len r) \<and>
     vector_rx r = vk_iovec_sync (buf_start r) (buf_len r) (vk_vectoring_rx_cursor r)
                     (vk_vectoring_rx_len r)"

lemma ring_wfD:
  assumes "ring_wf r"
  shows "0 < unat (buf_len r)" "unat (buf_len r) < 2 ^ 63"
    "unat (tx_cursor r) < unat (buf_len r)" "unat (tx_len r) \<le> unat (buf_len r)"
    "vector_tx r = vk_iovec_sync (buf_start r) (buf_len r) (tx_cursor r) (tx_len r)"
    "vector_rx r = vk_iovec_sync (buf_start r) (buf_len r) (vk_vectoring_rx_cursor r)
       (vk_vectoring_rx_len r)"
  using assms
  by (simp_all add: ring_wf_def vk_vectoring_tx_cursor_def vk_vectoring_tx_len_def)

lemma seg_addrs_Base:
  "seg_addrs \<lparr>iov_base = Base a, iov_len = n\<rparr> = map (\<lambda>i. a + of_nat i) [0..<unat n]"
  by (simp add: seg_addrs_def)

lemma seg_addrs_Empty [simp]: "seg_addrs \<lparr>iov_base = Empty_Literal, iov_len = n\<rparr> = []"
  by (simp add: seg_addrs_def)

lemma iovec_sync_addrs:
  assumes c: "unat cursor < unat blen" and l: "unat len \<le> unat blen"
    and small: "unat blen < 2 ^ 63"
  shows "vec_addrs (vk_iovec_sync start blen cursor len) =
    map (\<lambda>i. start + of_nat ((unat cursor + i) mod unat blen)) [0..<unat len]"
proof -
  have sum: "unat (cursor + len) = unat cursor + unat len"
    using c l small by (intro unat_add_exact) simp
  have sub: "unat (blen - cursor) = unat blen - unat cursor"
    using c by (intro unat_sub_exact) (simp add: word_le_nat_alt)
  show ?thesis
  proof (cases "cursor + len > blen")
    case True
    then have wrap: "unat blen < unat cursor + unat len" by (simp add: word_less_nat_alt sum)
    let ?k = "unat blen - unat cursor"
    have rest: "unat (len - (blen - cursor)) = unat len - ?k"
      using wrap c sub by (subst unat_sub_exact) (simp_all add: word_le_nat_alt)
    have "vec_addrs (vk_iovec_sync start blen cursor len) =
        map (\<lambda>i. start + cursor + of_nat i) [0..<?k] @ map (\<lambda>i. start + of_nat i) [0..<unat len - ?k]"
      using True by (simp add: vk_iovec_sync_def vec_addrs_def seg_addrs_Base sub rest)
    also have "\<dots> = map (\<lambda>i. start + of_nat ((unat cursor + i) mod unat blen)) [0..<unat len]"
    proof (rule nth_equalityI)
      fix i
      assume i: "i < length (map (\<lambda>i. start + cursor + of_nat i) [0..<?k] @
        map (\<lambda>i. start + of_nat i) [0..<unat len - ?k])"
      show "(map (\<lambda>i. start + cursor + of_nat i) [0..<?k] @
          map (\<lambda>i. start + of_nat i) [0..<unat len - ?k]) ! i =
        map (\<lambda>i. start + of_nat ((unat cursor + i) mod unat blen)) [0..<unat len] ! i"
      proof (cases "i < ?k")
        case True
        then show ?thesis using wrap by (simp add: nth_append)
      next
        case False
        then have "unat cursor + i = unat blen + (i - ?k)" "i - ?k < unat blen"
          using c l i by auto
        then have "(unat cursor + i) mod unat blen = i - ?k"
          by (metis mod_add_self1 mod_less)
        moreover have "i - ?k < unat len - ?k" "i < unat len" using False i wrap by auto
        ultimately show ?thesis using False by (simp add: nth_append del: of_nat_diff)
      qed
    qed (use wrap c in simp)
    finally show ?thesis .
  next
    case False
    then have "unat cursor + unat len \<le> unat blen" by (simp add: word_less_nat_alt sum)
    with False show ?thesis
      by (simp add: vk_iovec_sync_def vec_addrs_def seg_addrs_Base)
  qed
qed

lemma rx_cursor_unat:
  assumes "ring_wf r"
  shows "unat (vk_vectoring_rx_cursor r) = (unat (tx_cursor r) + unat (tx_len r)) mod unat (buf_len r)"
proof -
  have "unat (tx_cursor r + tx_len r) = unat (tx_cursor r) + unat (tx_len r)"
    using ring_wfD [OF assms] by (intro unat_add_exact) simp
  then show ?thesis by (simp add: vk_vectoring_rx_cursor_def unat_mod)
qed

lemma rx_len_unat: "unat (tx_len r) \<le> unat (buf_len r) \<Longrightarrow> unat (vk_vectoring_rx_len r) = ring_free r"
  unfolding vk_vectoring_rx_len_def ring_free_def
  by (rule unat_sub_exact) (simp add: word_le_nat_alt)

lemma vec_addrs_tx: "ring_wf r \<Longrightarrow> vec_addrs (vector_tx r) = tx_addrs r"
  using ring_wfD [of r] by (simp add: iovec_sync_addrs tx_addrs_def ring_addr_def)

lemma vec_addrs_rx:
  assumes "ring_wf r"
  shows "vec_addrs (vector_rx r) = rx_addrs r"
proof -
  note wf = ring_wfD [OF assms]
  have "unat (vk_vectoring_rx_cursor r) < unat (buf_len r)"
    using wf(1) by (simp add: rx_cursor_unat [OF assms])
  moreover have "unat (vk_vectoring_rx_len r) \<le> unat (buf_len r)"
    using wf(4) by (simp add: rx_len_unat ring_free_def)
  ultimately show ?thesis
    using wf(2,4,6)
    by (simp add: iovec_sync_addrs rx_addrs_def ring_addr_def rx_len_unat ring_free_def
        rx_cursor_unat [OF assms] mod_add_left_eq)
qed

lemma length_tx_addrs [simp]: "length (tx_addrs r) = unat (tx_len r)"
  by (simp add: tx_addrs_def)

lemma length_rx_addrs [simp]: "length (rx_addrs r) = ring_free r"
  by (simp add: rx_addrs_def ring_free_def)

lemma length_ring_data [simp]: "length (ring_data m r) = unat (tx_len r)"
  by (simp add: ring_data_def)

lemma mod_shift_inj:
  assumes "i < (n :: nat)" "j < n" "(k + i) mod n = (k + j) mod n"
  shows "i = j"
  using assms
proof (induction i j rule: linorder_wlog)
  case (le a b)
  then have "n dvd (k + b) - (k + a)" by (subst mod_eq_dvd_iff_nat [symmetric]) simp_all
  then have "n dvd b - a" by simp
  then show ?case using le nat_dvd_not_less [of "b - a" n] by fastforce
next
  case (sym a b)
  then show ?case by simp
qed

lemma distinct_ring_addrs:
  assumes small: "unat (buf_len r) < 2 ^ 63" "0 < unat (buf_len r)" and n: "n \<le> unat (buf_len r)"
  shows "distinct (map (\<lambda>i. ring_addr r (k + i)) [0..<n])"
proof -
  have "i = j" if ij: "i < n" "j < n" and eq: "ring_addr r (k + i) = ring_addr r (k + j)" for i j
  proof -
    let ?N = "unat (buf_len r)"
    have "x mod ?N < 2 ^ 64" for x
      using less_trans [OF less_trans [OF mod_less_divisor [OF small(2), of x] small(1)], of "2 ^ 64"]
      by simp
    then have bound: "(k + i) mod ?N < 2 ^ 64" "(k + j) mod ?N < 2 ^ 64" by blast+
    have "(of_nat ((k + i) mod ?N) :: size_t) = of_nat ((k + j) mod ?N)"
      using eq by (simp add: ring_addr_def)
    then have "(k + i) mod ?N = (k + j) mod ?N"
      using bound by (metis unat_of_nat_exact)
    then show "i = j" using ij n by (intro mod_shift_inj [of i ?N j k]) auto
  qed
  then show ?thesis by (auto simp: distinct_map inj_on_def)
qed

lemma ring_addrs_split:
  assumes "ring_wf r"
  shows "tx_addrs r @ rx_addrs r = map (\<lambda>i. ring_addr r (unat (tx_cursor r) + i)) [0..<unat (buf_len r)]"
  using ring_wfD(4) [OF assms]
  by (intro nth_equalityI) (auto simp: tx_addrs_def rx_addrs_def nth_append add.assoc)

lemma distinct_tx_rx: "ring_wf r \<Longrightarrow> distinct (tx_addrs r @ rx_addrs r)"
  using ring_wfD(1,2) [of r] by (simp only: ring_addrs_split distinct_ring_addrs)

lemma ring_addr_in_range:
  assumes "ring_wf r"
  shows "in_range (buf_start r) (unat (buf_len r)) (ring_addr r i)"
  unfolding ring_addr_def
  using ring_wfD(1,2) [OF assms] by (intro in_range_add) simp_all

lemma tx_addrs_in_range:
  "ring_wf r \<Longrightarrow> x \<in> set (tx_addrs r @ rx_addrs r) \<Longrightarrow> in_range (buf_start r) (unat (buf_len r)) x"
  by (auto simp: tx_addrs_def rx_addrs_def ring_addr_in_range)

end
