(* ===== verification/Vectoring_Copy.thy ===== *)
theory Vectoring_Copy
  imports Vectoring
begin

text \<open>
  The ring buffer as a queue of bytes (src/vk_vectoring.c, \<open>vk_vectoring_recv\<close>,
  \<open>vk_vectoring_send\<close> and the accounting below them). The abstraction of a ring is
  \<open>ring_data\<close>; the lemmas show that a send appends to it, that a receive takes from its
  front, that neither writes outside the free part and the user's buffer, and that both
  keep the well-formedness of the cursors and of the cached vectors.
\<close>

subsection \<open>Requests over a pair of vectors\<close>

definition vec_ok :: "iovecs \<Rightarrow> nat \<Rightarrow> bool" where
  "vec_ok vs n \<longleftrightarrow>
     (\<exists>a. iov_base (fst vs) = Base a) \<and> (iov_base (snd vs) = Empty_Literal \<longrightarrow> iov_len (snd vs) = 0) \<and>
     unat (iov_len (fst vs)) + unat (iov_len (snd vs)) = n \<and> n < 2 ^ 63"

lemma vec_ok_sync:
  assumes "unat cursor < unat blen" "unat len \<le> unat blen" "unat blen < 2 ^ 63"
  shows "vec_ok (vk_iovec_sync start blen cursor len) (unat len)"
proof -
  have sum: "unat (cursor + len) = unat cursor + unat len"
    using assms by (intro unat_add_exact) simp
  have sub: "unat (blen - cursor) = unat blen - unat cursor"
    using assms by (intro unat_sub_exact) (simp add: word_le_nat_alt)
  have "unat (len - (blen - cursor)) = unat len - (unat blen - unat cursor)"
    if "cursor + len > blen"
    using that assms(1) sub
    by (subst unat_sub_exact) (simp_all add: word_le_nat_alt word_less_nat_alt sum)
  then show ?thesis
    using assms by (auto simp: vec_ok_def vk_iovec_sync_def sub word_less_nat_alt sum)
qed

lemma vec_ok_tx: "ring_wf r \<Longrightarrow> vec_ok (vector_tx r) (unat (tx_len r))"
  using ring_wfD [of r] by (simp add: vec_ok_sync)

lemma vec_ok_rx:
  assumes "ring_wf r"
  shows "vec_ok (vector_rx r) (ring_free r)"
proof -
  note wf = ring_wfD [OF assms]
  have "unat (vk_vectoring_rx_cursor r) < unat (buf_len r)"
    using wf(1) by (simp add: rx_cursor_unat [OF assms])
  then have "vec_ok (vector_rx r) (unat (vk_vectoring_rx_len r))"
    using wf by (simp only: wf(6), intro vec_ok_sync) (simp_all add: rx_len_unat ring_free_def)
  then show ?thesis using wf(4) by (simp add: rx_len_unat)
qed

lemma vec_ok_total: "vec_ok vs n \<Longrightarrow> unat (vk_iovec_len vs) = n"
  unfolding vec_ok_def vk_iovec_len_def by (subst unat_add_exact) simp_all

lemma request_unat:
  assumes "vec_ok vs n" "vk_vectoring_request vs len = (l0, l1)"
  shows "unat l0 = min (unat len) (unat (iov_len (fst vs)))"
    "unat l1 = min (unat len - unat l0) (unat (iov_len (snd vs)))"
    "unat l0 + unat l1 = min (unat len) n" "unat (l0 + l1) = min (unat len) n"
proof -
  let ?a = "iov_len (fst vs)" and ?b = "iov_len (snd vs)"
  have n: "unat ?a + unat ?b = n" "n < 2 ^ 63" using assms(1) by (auto simp: vec_ok_def)
  have sum: "unat (?a + ?b) = n" using vec_ok_total [OF assms(1)] by (simp add: vk_iovec_len_def)
  have sub: "unat (len - ?a) = unat len - unat ?a" if "\<not> len \<le> ?a"
    using that by (intro unat_sub_exact) simp
  show l0: "unat l0 = min (unat len) (unat ?a)"
    using assms(2) by (auto simp: vk_vectoring_request_def word_le_nat_alt split: if_splits)
  show l1: "unat l1 = min (unat len - unat l0) (unat ?b)"
    using assms(2) sub n
    by (auto simp: vk_vectoring_request_def word_le_nat_alt sum split: if_splits)
  show l: "unat l0 + unat l1 = min (unat len) n" using l0 l1 n(1) by linarith
  show "unat (l0 + l1) = min (unat len) n"
    using l n(2) by (subst unat_add_exact) simp_all
qed

lemma take_seg_addrs:
  "iov_base v = Base a \<Longrightarrow> k \<le> unat (iov_len v) \<Longrightarrow> take k (seg_addrs v) = range_addrs a k"
  by (cases v) (simp add: seg_addrs_def range_addrs_def take_map)

lemma length_seg_addrs:
  "(iov_base v = Empty_Literal \<longrightarrow> iov_len v = 0) \<Longrightarrow> length (seg_addrs v) = unat (iov_len v)"
  by (cases "iov_base v") (auto simp: seg_addrs_def)

subsection \<open>The copies as scattered writes\<close>

lemma copy_out_scatter:
  assumes "iov_base v = Empty_Literal \<longrightarrow> iov_len v = 0" "unat n \<le> unat (iov_len v)"
  shows "copy_out m dst v n =
    scatter m (range_addrs dst (unat n)) (map m (take (unat n) (seg_addrs v)))"
proof (cases "n = 0")
  case True
  then show ?thesis by (simp add: copy_out_def range_addrs_def)
next
  case False
  then obtain a where "iov_base v = Base a"
    using assms by (cases "iov_base v") (auto simp: word_eq_unat)
  then show ?thesis using False assms(2)
    by (simp add: copy_out_def word_neq_0_conv memcpy_scatter take_seg_addrs)
qed

lemma copy_in_scatter:
  assumes "iov_base v = Empty_Literal \<longrightarrow> iov_len v = 0" "unat n \<le> unat (iov_len v)"
  shows "copy_in m v src n =
    scatter m (take (unat n) (seg_addrs v)) (map m (range_addrs src (unat n)))"
proof (cases "n = 0")
  case True
  then show ?thesis by (simp add: copy_in_def range_addrs_def)
next
  case False
  then obtain a where "iov_base v = Base a"
    using assms by (cases "iov_base v") (auto simp: word_eq_unat)
  then show ?thesis using False assms(2)
    by (simp add: copy_in_def word_neq_0_conv memcpy_scatter take_seg_addrs)
qed

lemma take_vec_addrs:
  assumes "vec_ok vs n" "vk_vectoring_request vs len = (l0, l1)"
  shows "take (unat l0) (seg_addrs (fst vs)) @ take (unat l1) (seg_addrs (snd vs)) =
    take (min (unat len) n) (vec_addrs vs)"
proof -
  note u = request_unat [OF assms]
  have len: "length (seg_addrs (fst vs)) = unat (iov_len (fst vs))"
    using assms(1) by (auto simp: vec_ok_def seg_addrs_def)
  show ?thesis
  proof (cases "unat len \<le> unat (iov_len (fst vs))")
    case True
    then show ?thesis using u len by (simp add: vec_addrs_def)
  next
    case False
    then show ?thesis using u len by (simp add: vec_addrs_def flip: u(3))
  qed
qed

lemma copy_out_vec:
  assumes ok: "vec_ok vs n" and req: "vk_vectoring_request vs len = (l0, l1)"
    and disj: "set (range_addrs buf (min (unat len) n)) \<inter> set (vec_addrs vs) = {}"
  shows "copy_out (copy_out m buf (fst vs) l0) (buf + l0) (snd vs) l1 =
    scatter m (range_addrs buf (min (unat len) n)) (map m (take (min (unat len) n) (vec_addrs vs)))"
proof -
  note u = request_unat [OF ok req]
  let ?s0 = "take (unat l0) (seg_addrs (fst vs))" and ?s1 = "take (unat l1) (seg_addrs (snd vs))"
  let ?r0 = "range_addrs buf (unat l0)" and ?r1 = "range_addrs (buf + l0) (unat l1)"
  have lens: "length ?s0 = unat l0" "length ?s1 = unat l1"
    using ok u(1,2) by (auto simp: vec_ok_def seg_addrs_def length_seg_addrs split: iov_base.splits)
  have split: "range_addrs buf (min (unat len) n) = ?r0 @ ?r1"
    using range_addrs_append [of buf "unat l0" "unat l1"] by (simp add: u(3))
  have bound: "min (unat len) n \<le> 2 ^ 64" using ok by (simp add: vec_ok_def min_le_iff_disj)
  have "distinct (?r0 @ ?r1)" using distinct_range_addrs [OF bound, of buf] by (simp only: split)
  then have rr: "set ?r0 \<inter> set ?r1 = {}" by simp
  have "set ?s1 \<subseteq> set (vec_addrs vs)" by (auto simp: vec_addrs_def dest: in_set_takeD)
  then have "set ?s1 \<inter> set ?r0 = {}" using disj by (auto simp: split)
  then have read: "map (scatter m ?r0 bs) ?s1 = map m ?s1" for bs
    by (rule map_scatter_outside)
  have c0: "copy_out m buf (fst vs) l0 = scatter m ?r0 (map m ?s0)"
    using ok u(1) by (intro copy_out_scatter) (auto simp: vec_ok_def)
  have c1: "copy_out m' (buf + l0) (snd vs) l1 = scatter m' ?r1 (map m' ?s1)" for m'
    using ok u(2) by (intro copy_out_scatter) (auto simp: vec_ok_def)
  have "copy_out (copy_out m buf (fst vs) l0) (buf + l0) (snd vs) l1 =
      scatter m (?r0 @ ?r1) (map m ?s0 @ map m ?s1)"
    unfolding c0 c1 read using rr lens by (intro scatter_scatter) simp_all
  then show ?thesis using take_vec_addrs [OF ok req] by (simp add: split flip: map_append)
qed

lemma copy_in_vec:
  assumes ok: "vec_ok vs n" and req: "vk_vectoring_request vs len = (l0, l1)"
    and disj: "set (range_addrs buf (min (unat len) n)) \<inter> set (vec_addrs vs) = {}"
    and dist: "distinct (vec_addrs vs)"
  shows "copy_in (copy_in m (fst vs) buf l0) (snd vs) (buf + l0) l1 =
    scatter m (take (min (unat len) n) (vec_addrs vs)) (map m (range_addrs buf (min (unat len) n)))"
proof -
  note u = request_unat [OF ok req]
  let ?s0 = "take (unat l0) (seg_addrs (fst vs))" and ?s1 = "take (unat l1) (seg_addrs (snd vs))"
  let ?r0 = "range_addrs buf (unat l0)" and ?r1 = "range_addrs (buf + l0) (unat l1)"
  have lens: "length ?s0 = unat l0"
    using ok u(1) by (auto simp: vec_ok_def seg_addrs_def)
  have split: "range_addrs buf (min (unat len) n) = ?r0 @ ?r1"
    using range_addrs_append [of buf "unat l0" "unat l1"] by (simp add: u(3))
  have "set ?s0 \<subseteq> set (vec_addrs vs)" by (auto simp: vec_addrs_def dest: in_set_takeD)
  then have "set ?r1 \<inter> set ?s0 = {}" using disj by (auto simp: split)
  then have read: "map (scatter m ?s0 bs) ?r1 = map m ?r1" for bs by (rule map_scatter_outside)
  have ss: "set ?s0 \<inter> set ?s1 = {}"
    using dist by (auto simp: vec_addrs_def dest: in_set_takeD)
  have c0: "copy_in m (fst vs) buf l0 = scatter m ?s0 (map m ?r0)"
    using ok u(1) by (intro copy_in_scatter) (auto simp: vec_ok_def)
  have c1: "copy_in m' (snd vs) (buf + l0) l1 = scatter m' ?s1 (map m' ?r1)" for m'
    using ok u(2) by (intro copy_in_scatter) (auto simp: vec_ok_def)
  have "copy_in (copy_in m (fst vs) buf l0) (snd vs) (buf + l0) l1 =
      scatter m (?s0 @ ?s1) (map m ?r0 @ map m ?r1)"
    unfolding c0 c1 read using ss lens by (intro scatter_scatter) simp_all
  then show ?thesis using take_vec_addrs [OF ok req] by (simp add: split flip: map_append)
qed

subsection \<open>Accounting\<close>

lemma ring_wf_sync:
  assumes "0 < unat (buf_len r)" "unat (buf_len r) < 2 ^ 63" "unat (tx_cursor r) < unat (buf_len r)"
    "unat (tx_len r) \<le> unat (buf_len r)"
  shows "ring_wf (vk_vectoring_sync r)"
  using assms
  by (simp add: ring_wf_def vk_vectoring_sync_def vk_vectoring_sync_tx_def vk_vectoring_sync_rx_def
      vk_vectoring_tx_cursor_def vk_vectoring_tx_len_def vk_vectoring_rx_cursor_def
      vk_vectoring_rx_len_def)

lemma sync_simps [simp]:
  "tx_cursor (vk_vectoring_sync r) = tx_cursor r" "tx_len (vk_vectoring_sync r) = tx_len r"
  "buf_start (vk_vectoring_sync r) = buf_start r" "buf_len (vk_vectoring_sync r) = buf_len r"
  "vec_error (vk_vectoring_sync r) = vec_error r" "vec_eof (vk_vectoring_sync r) = vec_eof r"
  "vec_closed (vk_vectoring_sync r) = vec_closed r" "vec_effect (vk_vectoring_sync r) = vec_effect r"
  "rx_blocked (vk_vectoring_sync r) = rx_blocked r" "tx_blocked (vk_vectoring_sync r) = tx_blocked r"
  by (simp_all add: vk_vectoring_sync_def vk_vectoring_sync_tx_def vk_vectoring_sync_rx_def)

text \<open>The fields of a ring that its addresses and its well-formedness depend on.\<close>

definition same_ring :: "vk_vectoring \<Rightarrow> vk_vectoring \<Rightarrow> bool" where
  "same_ring r r' \<longleftrightarrow> buf_start r' = buf_start r \<and> buf_len r' = buf_len r \<and>
     tx_cursor r' = tx_cursor r \<and> tx_len r' = tx_len r \<and>
     vector_tx r' = vector_tx r \<and> vector_rx r' = vector_rx r"

lemma same_ringD:
  assumes "same_ring r r'"
  shows "ring_wf r' = ring_wf r" "tx_addrs r' = tx_addrs r" "rx_addrs r' = rx_addrs r"
    "ring_data m r' = ring_data m r" "ring_free r' = ring_free r"
  using assms
  by (simp_all add: same_ring_def ring_wf_def tx_addrs_def rx_addrs_def ring_addr_def ring_data_def
      ring_free_def vk_vectoring_tx_cursor_def vk_vectoring_tx_len_def vk_vectoring_rx_cursor_def
      vk_vectoring_rx_len_def)

lemma same_ring_flags [simp]:
  "same_ring r (r\<lparr>vec_effect := b\<rparr>)" "same_ring r (r\<lparr>vec_eof := b\<rparr>)"
  "same_ring r (r\<lparr>vec_closed := b\<rparr>)" "same_ring r (r\<lparr>rx_blocked := b\<rparr>)"
  "same_ring r (r\<lparr>tx_blocked := b\<rparr>)" "same_ring r (r\<lparr>vec_error := e\<rparr>)"
  by (simp_all add: same_ring_def)

lemma ring_wf_flags [simp]:
  "ring_wf (r\<lparr>vec_effect := b\<rparr>) = ring_wf r" "ring_wf (r\<lparr>vec_eof := b\<rparr>) = ring_wf r"
  "ring_wf (r\<lparr>vec_closed := b\<rparr>) = ring_wf r" "ring_wf (r\<lparr>rx_blocked := b\<rparr>) = ring_wf r"
  "ring_wf (r\<lparr>tx_blocked := b\<rparr>) = ring_wf r" "ring_wf (r\<lparr>vec_error := e\<rparr>) = ring_wf r"
  by (auto intro!: same_ringD(1))

lemma tx_addrs_flags [simp]:
  "tx_addrs (r\<lparr>vec_effect := b\<rparr>) = tx_addrs r" "tx_addrs (r\<lparr>vec_eof := b\<rparr>) = tx_addrs r"
  "tx_addrs (r\<lparr>vec_closed := b\<rparr>) = tx_addrs r" "tx_addrs (r\<lparr>rx_blocked := b\<rparr>) = tx_addrs r"
  "tx_addrs (r\<lparr>tx_blocked := b\<rparr>) = tx_addrs r" "tx_addrs (r\<lparr>vec_error := e\<rparr>) = tx_addrs r"
  by (auto intro!: same_ringD(2))

lemma mark_sent_zero [simp]: "vk_vectoring_mark_sent r 0 = r"
  by (simp add: vk_vectoring_mark_sent_def)

lemma mark_received_zero [simp]: "vk_vectoring_mark_received r 0 = r"
  by (simp add: vk_vectoring_mark_received_def)

lemma mark_sent_ok:
  assumes wf: "ring_wf r" and n: "unat n \<le> unat (tx_len r)"
  shows "ring_wf (vk_vectoring_mark_sent r n)"
    "tx_addrs (vk_vectoring_mark_sent r n) = drop (unat n) (tx_addrs r)"
    "buf_len (vk_vectoring_mark_sent r n) = buf_len r"
    "buf_start (vk_vectoring_mark_sent r n) = buf_start r"
    "unat (tx_len (vk_vectoring_mark_sent r n)) = unat (tx_len r) - unat n"
    "vec_error (vk_vectoring_mark_sent r n) = vec_error r"
    "vec_eof (vk_vectoring_mark_sent r n) = vec_eof r"
proof -
  note w = ring_wfD [OF wf]
  let ?N = "unat (buf_len r)"
  let ?r = "r\<lparr>tx_cursor := (tx_cursor r + n) mod buf_len r, tx_len := tx_len r - n\<rparr>"
  have sum: "unat (tx_cursor r + n) = unat (tx_cursor r) + unat n"
    using w n by (intro unat_add_exact) simp
  have cur: "unat ((tx_cursor r + n) mod buf_len r) = (unat (tx_cursor r) + unat n) mod ?N"
    by (simp add: unat_mod sum)
  have len: "unat (tx_len r - n) = unat (tx_len r) - unat n"
    using n by (intro unat_sub_exact) (simp add: word_le_nat_alt)
  have "ring_wf (vk_vectoring_sync ?r)"
    using w n by (intro ring_wf_sync) (simp_all add: cur len)
  then show "ring_wf (vk_vectoring_mark_sent r n)"
    using wf n by (simp add: vk_vectoring_mark_sent_def vk_vectoring_tx_len_def word_le_nat_alt)
  have "tx_addrs (vk_vectoring_sync ?r) = drop (unat n) (tx_addrs r)"
    unfolding tx_addrs_def drop_map
    by (intro nth_equalityI)
      (simp_all add: ring_addr_def cur len mod_add_left_eq add.assoc)
  then show "tx_addrs (vk_vectoring_mark_sent r n) = drop (unat n) (tx_addrs r)"
    using n by (simp add: vk_vectoring_mark_sent_def vk_vectoring_tx_len_def word_le_nat_alt)
  show "unat (tx_len (vk_vectoring_mark_sent r n)) = unat (tx_len r) - unat n"
    using n len by (simp add: vk_vectoring_mark_sent_def vk_vectoring_tx_len_def word_le_nat_alt)
qed (simp_all add: vk_vectoring_mark_sent_def vk_vectoring_tx_len_def n word_le_nat_alt)

lemma tx_addrs_grow:
  assumes "unat (tx_len r') = unat (tx_len r) + k" "k \<le> ring_free r" "unat (tx_len r) \<le> unat (buf_len r)"
    "buf_start r' = buf_start r" "buf_len r' = buf_len r" "tx_cursor r' = tx_cursor r"
  shows "tx_addrs r' = tx_addrs r @ take k (rx_addrs r)"
  using assms
  by (intro nth_equalityI)
    (auto simp: tx_addrs_def rx_addrs_def ring_addr_def ring_free_def nth_append add.assoc)

lemma mark_received_ok:
  assumes wf: "ring_wf r" and n: "unat n \<le> ring_free r"
  shows "ring_wf (vk_vectoring_mark_received r n)"
    "tx_addrs (vk_vectoring_mark_received r n) = tx_addrs r @ take (unat n) (rx_addrs r)"
    "unat (tx_len (vk_vectoring_mark_received r n)) = unat (tx_len r) + unat n"
    "buf_len (vk_vectoring_mark_received r n) = buf_len r"
    "buf_start (vk_vectoring_mark_received r n) = buf_start r"
    "vec_error (vk_vectoring_mark_received r n) = vec_error r"
    "vec_eof (vk_vectoring_mark_received r n) = vec_eof r"
proof -
  note w = ring_wfD [OF wf]
  let ?r = "vk_vectoring_mark_received r n"
  have free: "unat (vk_vectoring_rx_len r) = ring_free r" using w(4) by (rule rx_len_unat)
  have keep: "buf_len ?r = buf_len r" "buf_start ?r = buf_start r" "tx_cursor ?r = tx_cursor r"
    "vec_error ?r = vec_error r" "vec_eof ?r = vec_eof r"
    using n free
    by (auto simp: vk_vectoring_mark_received_def Let_def word_less_nat_alt word_eq_unat)
  show "buf_len ?r = buf_len r" "buf_start ?r = buf_start r" "vec_error ?r = vec_error r"
    "vec_eof ?r = vec_eof r" by (fact keep)+
  have sum: "unat (tx_len r + n) = unat (tx_len r) + unat n"
    using w n by (intro unat_add_exact) (simp add: ring_free_def)
  have inc: "unat ((tx_len r + n) mod buf_len r) = unat (tx_len r) + unat n"
    if "unat n < ring_free r"
    using that by (simp add: unat_mod sum ring_free_def)
  show len: "unat (tx_len ?r) = unat (tx_len r) + unat n"
    using n free inc w(4)
    by (auto simp: vk_vectoring_mark_received_def Let_def word_less_nat_alt word_eq_unat ring_free_def)
  show "ring_wf ?r"
  proof -
    have "ring_wf (vk_vectoring_sync (r\<lparr>tx_len := (tx_len r + n) mod buf_len r\<rparr>))"
      if "unat n < ring_free r"
      using w that inc by (intro ring_wf_sync) (simp_all add: ring_free_def)
    moreover have "ring_wf (vk_vectoring_sync (r\<lparr>tx_len := buf_len r\<rparr>))"
      using w by (intro ring_wf_sync) simp_all
    ultimately show ?thesis using wf n free
      by (auto simp: vk_vectoring_mark_received_def Let_def word_less_nat_alt word_eq_unat)
  qed
  show "tx_addrs ?r = tx_addrs r @ take (unat n) (rx_addrs r)"
    using len n w(4) keep by (intro tx_addrs_grow)
qed

lemma size_return_ok:
  assumes "vec_error r \<noteq> - 1"
  shows "vk_size_return r sz = (sint sz, r)"
  using assms by (simp add: vk_size_return_def)

lemma sint_small: "unat (sz :: size_t) < 2 ^ 63 \<Longrightarrow> sint sz = int (unat sz)"
proof -
  assume "unat sz < 2 ^ 63"
  then have "int (unat sz) < 2 ^ 63" by (simp only: flip: of_nat_less_iff [where 'a = int]) simp
  moreover have "- (2 ^ 63) \<le> uint sz"
    by (rule order_trans [OF _ uint_nonnegative]) simp
  ultimately show ?thesis
    unfolding sint_uint by (subst signed_take_bit_int_eq_self) simp_all
qed

subsection \<open>Receiving and sending\<close>

definition no_overlap :: "addr \<Rightarrow> nat \<Rightarrow> addr \<Rightarrow> nat \<Rightarrow> bool" where
  "no_overlap a k b n \<longleftrightarrow> set (range_addrs a k) \<inter> set (range_addrs b n) = {}"

lemma ring_addrs_subset:
  assumes "ring_wf r"
  shows "set (tx_addrs r) \<subseteq> set (range_addrs (buf_start r) (unat (buf_len r)))"
    "set (rx_addrs r) \<subseteq> set (range_addrs (buf_start r) (unat (buf_len r)))"
proof -
  have "unat (buf_len r) \<le> 2 ^ 64" using unat_lt64 [of "buf_len r"] by (rule less_imp_le)
  then have "x \<in> set (range_addrs (buf_start r) (unat (buf_len r)))"
    if "x \<in> set (tx_addrs r @ rx_addrs r)" for x
    using tx_addrs_in_range [OF assms that] by (simp add: mem_range_addrs)
  then show "set (tx_addrs r) \<subseteq> set (range_addrs (buf_start r) (unat (buf_len r)))"
    "set (rx_addrs r) \<subseteq> set (range_addrs (buf_start r) (unat (buf_len r)))" by auto
qed

lemma range_addrs_mono: "k \<le> n \<Longrightarrow> set (range_addrs a k) \<subseteq> set (range_addrs a n)"
  by (auto simp: range_addrs_def)

lemma no_overlap_ring:
  assumes "ring_wf r" "no_overlap buf k (buf_start r) (unat (buf_len r))" "j \<le> k"
  shows "set (range_addrs buf j) \<inter> set (tx_addrs r) = {}"
    "set (range_addrs buf j) \<inter> set (rx_addrs r) = {}"
  using ring_addrs_subset [OF assms(1)] range_addrs_mono [OF assms(3), of buf] assms(2)
  unfolding no_overlap_def by blast+

lemma recv_steps:
  assumes wf: "ring_wf r" and err: "0 \<le> vec_error r"
    and sep: "no_overlap buf (unat len) (buf_start r) (unat (buf_len r))"
  shows "\<exists>n. unat n = min (unat len) (unat (tx_len r)) \<and>
    vk_vectoring_recv e m r buf len =
      (int (unat n), e, scatter m (range_addrs buf (unat n)) (map m (take (unat n) (tx_addrs r))),
       vk_vectoring_mark_sent r n)"
proof -
  obtain l0 l1 where req: "vk_vectoring_request (vector_tx r) len = (l0, l1)" by force
  note ok = vec_ok_tx [OF wf]
  note u = request_unat [OF ok req]
  let ?k = "min (unat len) (unat (tx_len r))"
  have small: "?k < 2 ^ 63" using ok by (simp add: vec_ok_def min_less_iff_disj)
  have "set (range_addrs buf ?k) \<inter> set (vec_addrs (vector_tx r)) = {}"
    using no_overlap_ring(1) [OF wf sep, of ?k] by (simp add: vec_addrs_tx [OF wf])
  note cp = copy_out_vec [OF ok req this, of m]
  have g: "\<exists>x. vk_wrapguard_add l0 l1 = Inr x"
    using small by (auto simp: wrapguard_add_iff u(3) not_le intro: less_trans)
  have "vec_error (vk_vectoring_mark_sent r (l0 + l1)) \<noteq> - 1"
    using err mark_sent_ok(6) [OF wf, of "l0 + l1"] by (simp add: u(4))
  then have "vk_vectoring_recv e m r buf len =
      (int (unat (l0 + l1)), e, scatter m (range_addrs buf ?k) (map m (take ?k (tx_addrs r))),
       vk_vectoring_mark_sent r (l0 + l1))"
    using g small u(4) cp
    by (auto simp: vk_vectoring_recv_def req size_return_ok sint_small vec_addrs_tx [OF wf])
  then show ?thesis using u(4) by (intro exI [of _ "l0 + l1"]) simp
qed

lemma send_steps:
  assumes wf: "ring_wf r" and err: "0 \<le> vec_error r"
    and sep: "no_overlap buf (unat len) (buf_start r) (unat (buf_len r))"
    and eof: "len = 0 \<or> \<not> vec_eof r"
  shows "\<exists>n. unat n = min (unat len) (ring_free r) \<and>
    vk_vectoring_send e m r buf len =
      (int (unat n), e, scatter m (take (unat n) (rx_addrs r)) (bytes_at m buf (unat n)),
       vk_vectoring_mark_received r n)"
proof -
  obtain l0 l1 where req: "vk_vectoring_request (vector_rx r) len = (l0, l1)" by force
  note ok = vec_ok_rx [OF wf]
  note u = request_unat [OF ok req]
  let ?k = "min (unat len) (ring_free r)"
  have small: "?k < 2 ^ 63" using ok by (simp add: vec_ok_def min_less_iff_disj)
  have sep': "set (range_addrs buf ?k) \<inter> set (vec_addrs (vector_rx r)) = {}"
    using no_overlap_ring(2) [OF wf sep, of ?k] by (simp add: vec_addrs_rx [OF wf])
  have "distinct (vec_addrs (vector_rx r))"
    using distinct_tx_rx [OF wf] by (simp add: vec_addrs_rx [OF wf])
  note cp = copy_in_vec [OF ok req sep' this, of m]
  have g: "\<exists>x. vk_wrapguard_add l0 l1 = Inr x"
    using small by (auto simp: wrapguard_add_iff u(3) not_le intro: less_trans)
  have "vec_error (vk_vectoring_mark_received r (l0 + l1)) \<noteq> - 1"
    using err mark_received_ok(6) [OF wf, of "l0 + l1"] by (simp add: u(4))
  then have "vk_vectoring_send e m r buf len =
      (int (unat (l0 + l1)), e, scatter m (take ?k (rx_addrs r)) (bytes_at m buf ?k),
       vk_vectoring_mark_received r (l0 + l1))"
    using g small u(4) cp eof
    by (auto simp: vk_vectoring_send_def req size_return_ok sint_small vec_addrs_rx [OF wf]
        bytes_at_range)
  then show ?thesis using u(4) by (intro exI [of _ "l0 + l1"]) simp
qed

lemma recv_queue:
  assumes "ring_wf r" "0 \<le> vec_error r"
    "no_overlap buf (unat len) (buf_start r) (unat (buf_len r))"
    "vk_vectoring_recv e m r buf len = (rc, e', m', r')"
  shows "rc = int (min (unat len) (length (ring_data m r))) \<and> e' = e \<and>
    bytes_at m' buf (nat rc) = take (nat rc) (ring_data m r) \<and>
    ring_data m' r' = drop (nat rc) (ring_data m r) \<and> ring_wf r' \<and>
    ring_free r' = ring_free r + nat rc \<and>
    (\<forall>x. \<not> in_range buf (nat rc) x \<longrightarrow> m' x = m x) \<and>
    buf_start r' = buf_start r \<and> buf_len r' = buf_len r \<and> vec_error r' = vec_error r \<and>
    vec_eof r' = vec_eof r"
proof -
  obtain n where n: "unat n = min (unat len) (unat (tx_len r))"
    and eq: "vk_vectoring_recv e m r buf len =
      (int (unat n), e, scatter m (range_addrs buf (unat n)) (map m (take (unat n) (tx_addrs r))),
       vk_vectoring_mark_sent r n)"
    using recv_steps [OF assms(1,2,3)] by blast
  have res: "rc = int (unat n)" "e' = e" "r' = vk_vectoring_mark_sent r n"
    "m' = scatter m (range_addrs buf (unat n)) (map m (take (unat n) (tx_addrs r)))"
    using assms(4) eq by simp_all
  have le: "unat n \<le> unat (tx_len r)" "unat n \<le> unat len" using n by simp_all
  note sent = mark_sent_ok [OF assms(1) le(1)]
  have bound: "unat n \<le> 2 ^ 64" using unat_lt64 [of n] by (rule less_imp_le)
  have "set (drop (unat n) (tx_addrs r)) \<inter> set (range_addrs buf (unat n)) = {}"
    using no_overlap_ring(1) [OF assms(1,3) le(2)] by (auto dest: in_set_dropD)
  then have data: "ring_data m' r' = drop (unat n) (ring_data m r)"
    by (simp add: ring_data_def res sent(2) map_scatter_outside drop_map)
  have bytes: "bytes_at m' buf (unat n) = take (unat n) (ring_data m r)"
    using bound le(1)
    by (simp add: res bytes_at_range map_scatter_same distinct_range_addrs ring_data_def take_map)
  have frame: "\<forall>x. \<not> in_range buf (unat n) x \<longrightarrow> m' x = m x"
    using bound by (simp add: res scatter_outside mem_range_addrs)
  have "ring_free r' = ring_free r + unat n"
    using le ring_wfD(4) [OF assms(1)] by (simp add: res ring_free_def sent)
  then show ?thesis using n sent data bytes frame by (simp add: res)
qed

text \<open>vk_vectoring_recv is a dequeue: from a well-formed ring, into a user buffer apart from
  it, it returns the number of bytes it can serve (the request, or all that the ring
  holds), puts exactly the oldest bytes there in order, leaves the younger ones in the
  ring in order, keeps the ring well-formed, and writes nowhere else.\<close>

theorem vectoring_recv_dequeues:
  assumes "ring_wf r" "0 \<le> vec_error r"
    "no_overlap buf (unat len) (buf_start r) (unat (buf_len r))"
    "vk_vectoring_recv e m r buf len = (rc, e', m', r')"
  shows "rc = int (min (unat len) (length (ring_data m r))) \<and> e' = e \<and>
    bytes_at m' buf (nat rc) = take (nat rc) (ring_data m r) \<and>
    ring_data m' r' = drop (nat rc) (ring_data m r) \<and> ring_wf r' \<and>
    ring_free r' = ring_free r + nat rc \<and>
    (\<forall>x. \<not> in_range buf (nat rc) x \<longrightarrow> m' x = m x)"
  using recv_queue [OF assms] by blast

text \<open>A ring of four bytes at address 100 whose data wraps around its end.\<close>

definition wrapped_ring :: vk_vectoring where
  "wrapped_ring = vk_vectoring_sync
     \<lparr>buf_start = 100, buf_len = 4, tx_cursor = 2, tx_len = 3,
      vector_tx = vk_iovec_sync 0 0 0 0, vector_rx = vk_iovec_sync 0 0 0 0,
      vec_error = 0, vec_eof = False, vec_closed = False, rx_blocked = False, tx_blocked = False,
      vec_effect = False\<rparr>"

lemma wrapped_ring_wf: "ring_wf wrapped_ring" "vec_error wrapped_ring = 0"
  "buf_start wrapped_ring = 100" "unat (buf_len wrapped_ring) = 4" "\<not> vec_eof wrapped_ring"
  "ring_free wrapped_ring = 1" "ring_data (\<lambda>x. ucast x) wrapped_ring = [102, 103, 100]"
  unfolding wrapped_ring_def
  by (rule ring_wf_sync) (simp_all add: ring_data_def tx_addrs_def ring_addr_def ring_free_def
      upt_rec)

lemma wrapped_ring_apart: "no_overlap 200 2 100 4" "no_overlap 200 3 100 4"
  by (simp_all add: no_overlap_def range_addrs_def upt_rec)

theorem vectoring_recv_dequeues_witness:
  "case vk_vectoring_recv 0 (\<lambda>x. ucast x) wrapped_ring 200 2 of
     (rc, e', m', r') \<Rightarrow> rc = 2 \<and> bytes_at m' 200 2 = [102, 103] \<and> ring_data m' r' = [100] \<and> ring_wf r'"
proof -
  obtain rc e' m' r' where eq: "vk_vectoring_recv 0 (\<lambda>x. ucast x) wrapped_ring 200 2 = (rc, e', m', r')"
    by (metis prod.exhaust)
  note w = wrapped_ring_wf
  have "no_overlap 200 (unat (2 :: size_t)) (buf_start wrapped_ring) (unat (buf_len wrapped_ring))"
    by (simp add: w wrapped_ring_apart)
  from vectoring_recv_dequeues [OF w(1) _ this eq]
  show ?thesis by (auto simp: w eq)
qed

lemma send_queue:
  assumes "ring_wf r" "0 \<le> vec_error r" "\<not> vec_eof r"
    "no_overlap buf (unat len) (buf_start r) (unat (buf_len r))"
    "vk_vectoring_send e m r buf len = (rc, e', m', r')"
  shows "rc = int (min (unat len) (ring_free r)) \<and> e' = e \<and>
    ring_data m' r' = ring_data m r @ bytes_at m buf (nat rc) \<and> ring_wf r' \<and>
    ring_free r' = ring_free r - nat rc \<and>
    (\<forall>x. x \<notin> set (rx_addrs r) \<longrightarrow> m' x = m x) \<and>
    buf_start r' = buf_start r \<and> buf_len r' = buf_len r \<and> vec_error r' = vec_error r \<and>
    vec_eof r' = vec_eof r"
proof -
  obtain n where n: "unat n = min (unat len) (ring_free r)"
    and eq: "vk_vectoring_send e m r buf len =
      (int (unat n), e, scatter m (take (unat n) (rx_addrs r)) (bytes_at m buf (unat n)),
       vk_vectoring_mark_received r n)"
    using send_steps [OF assms(1,2,4)] assms(3) by blast
  have res: "rc = int (unat n)" "e' = e" "r' = vk_vectoring_mark_received r n"
    "m' = scatter m (take (unat n) (rx_addrs r)) (bytes_at m buf (unat n))"
    using assms(5) eq by simp_all
  have le: "unat n \<le> ring_free r" using n by simp
  note recd = mark_received_ok [OF assms(1) le]
  have "distinct (tx_addrs r @ take (unat n) (rx_addrs r))"
    using distinct_tx_rx [OF assms(1)] by (auto dest: in_set_takeD)
  then have "ring_data m' r' = ring_data m r @ bytes_at m buf (unat n)"
    using le by (simp add: ring_data_def res recd(2) map_scatter_outside map_scatter_same)
  moreover have "\<forall>x. x \<notin> set (rx_addrs r) \<longrightarrow> m' x = m x"
    by (auto simp: res intro!: scatter_outside dest: in_set_takeD)
  moreover have "ring_free r' = ring_free r - unat n"
    by (simp add: res ring_free_def recd)
  ultimately show ?thesis using n recd by (simp add: res)
qed

text \<open>vk_vectoring_send is an enqueue: into a well-formed ring without EOF, from a user buffer
  apart from it, it returns the number of bytes it accepts (the request, or the room left),
  appends exactly those bytes to the ring's data, keeps the ring well-formed, and writes
  nowhere but in the empty part of the ring.\<close>

theorem vectoring_send_enqueues:
  assumes "ring_wf r" "0 \<le> vec_error r" "\<not> vec_eof r"
    "no_overlap buf (unat len) (buf_start r) (unat (buf_len r))"
    "vk_vectoring_send e m r buf len = (rc, e', m', r')"
  shows "rc = int (min (unat len) (ring_free r)) \<and> e' = e \<and>
    ring_data m' r' = ring_data m r @ bytes_at m buf (nat rc) \<and> ring_wf r' \<and>
    ring_free r' = ring_free r - nat rc \<and>
    (\<forall>x. x \<notin> set (rx_addrs r) \<longrightarrow> m' x = m x)"
  using send_queue [OF assms] by blast

theorem vectoring_send_enqueues_witness:
  "case vk_vectoring_send 0 (\<lambda>x. ucast x) wrapped_ring 200 3 of
     (rc, e', m', r') \<Rightarrow> rc = 1 \<and> ring_data m' r' = [102, 103, 100, 200] \<and> ring_wf r'"
proof -
  obtain rc e' m' r' where eq: "vk_vectoring_send 0 (\<lambda>x. ucast x) wrapped_ring 200 3 = (rc, e', m', r')"
    by (metis prod.exhaust)
  note w = wrapped_ring_wf
  have "no_overlap 200 (unat (3 :: size_t)) (buf_start wrapped_ring) (unat (buf_len wrapped_ring))"
    by (simp add: w wrapped_ring_apart)
  from vectoring_send_enqueues [OF w(1) _ w(5) this eq]
  show ?thesis by (auto simp: w eq bytes_at_def)
qed

subsection \<open>Sequences of operations\<close>

text \<open>A client of one ring: sends, receives, and writes to its own memory in between. A step
  returns the bytes the ring accepted and the bytes it delivered.\<close>

datatype ring_op =
  Send_Op addr size_t
| Recv_Op addr size_t
| User_Write addr "byte list"

definition ring_step ::
  "mem \<Rightarrow> vk_vectoring \<Rightarrow> ring_op \<Rightarrow> mem \<times> vk_vectoring \<times> byte list \<times> byte list" where
  "ring_step m r c =
     (case c of
        Send_Op buf len \<Rightarrow>
          (case vk_vectoring_send 0 m r buf len of
             (rc, _, m', r') \<Rightarrow> (m', r', bytes_at m buf (nat rc), []))
      | Recv_Op buf len \<Rightarrow>
          (case vk_vectoring_recv 0 m r buf len of
             (rc, _, m', r') \<Rightarrow> (m', r', [], bytes_at m' buf (nat rc)))
      | User_Write buf bs \<Rightarrow> (scatter m (range_addrs buf (length bs)) bs, r, [], []))"

fun ring_run ::
  "mem \<Rightarrow> vk_vectoring \<Rightarrow> ring_op list \<Rightarrow> mem \<times> vk_vectoring \<times> byte list \<times> byte list" where
  "ring_run m r [] = (m, r, [], [])"
| "ring_run m r (c # cs) =
     (let (m1, r1, ins1, outs1) = ring_step m r c;
          (m2, r2, ins2, outs2) = ring_run m1 r1 cs
      in (m2, r2, ins1 @ ins2, outs1 @ outs2))"

definition op_apart :: "addr \<Rightarrow> nat \<Rightarrow> ring_op \<Rightarrow> bool" where
  "op_apart start n c \<longleftrightarrow>
     (case c of
        Send_Op buf len \<Rightarrow> no_overlap buf (unat len) start n
      | Recv_Op buf len \<Rightarrow> no_overlap buf (unat len) start n
      | User_Write buf bs \<Rightarrow> no_overlap buf (length bs) start n)"

definition ring_ready :: "vk_vectoring \<Rightarrow> bool" where
  "ring_ready r \<longleftrightarrow> ring_wf r \<and> 0 \<le> vec_error r \<and> \<not> vec_eof r"

lemma ring_step_fifo:
  assumes "ring_ready r" "op_apart (buf_start r) (unat (buf_len r)) c"
    "ring_step m r c = (m', r', ins, outs)"
  shows "ring_data m r @ ins = outs @ ring_data m' r' \<and> ring_ready r' \<and>
    buf_start r' = buf_start r \<and> buf_len r' = buf_len r"
proof (cases c)
  case (Send_Op buf len)
  obtain rc e' m1 r1 where eq: "vk_vectoring_send 0 m r buf len = (rc, e', m1, r1)"
    by (metis prod.exhaust)
  with assms Send_Op show ?thesis using send_queue [OF _ _ _ _ eq]
    by (auto simp: ring_step_def op_apart_def ring_ready_def)
next
  case (Recv_Op buf len)
  obtain rc e' m1 r1 where eq: "vk_vectoring_recv 0 m r buf len = (rc, e', m1, r1)"
    by (metis prod.exhaust)
  with assms Recv_Op show ?thesis using recv_queue [OF _ _ _ eq]
    by (auto simp: ring_step_def op_apart_def ring_ready_def)
next
  case (User_Write buf bs)
  have "set (tx_addrs r) \<inter> set (range_addrs buf (length bs)) = {}"
    using no_overlap_ring(1) [of r buf "length bs"] assms User_Write
    by (auto simp: op_apart_def ring_ready_def)
  then have "ring_data (scatter m (range_addrs buf (length bs)) bs) r = ring_data m r"
    by (simp add: ring_data_def map_scatter_outside del: map_eq_conv)
  then show ?thesis using assms User_Write by (auto simp: ring_step_def)
qed

text \<open>C3: over any sequence of sends, receives and writes to the client's own buffers, a ring is a
  first-in first-out byte stream: what was in it followed by everything it accepted is
  everything it delivered followed by what is in it now, so no byte is lost, duplicated or
  reordered, across every wrap of the cursors; and the ring stays well-formed.\<close>

theorem vectoring_fifo:
  assumes "ring_ready r" "list_all (op_apart (buf_start r) (unat (buf_len r))) cs"
    "ring_run m r cs = (m', r', ins, outs)"
  shows "ring_data m r @ ins = outs @ ring_data m' r' \<and> ring_ready r'"
  using assms
proof (induction cs arbitrary: m r ins outs)
  case (Cons c cs)
  obtain m1 r1 i1 o1 where step: "ring_step m r c = (m1, r1, i1, o1)" by (metis prod.exhaust)
  obtain m2 r2 i2 o2 where run: "ring_run m1 r1 cs = (m2, r2, i2, o2)" by (metis prod.exhaust)
  have res: "m' = m2" "r' = r2" "ins = i1 @ i2" "outs = o1 @ o2"
    using Cons.prems(3) by (simp_all add: step run)
  have one: "ring_data m r @ i1 = o1 @ ring_data m1 r1" "ring_ready r1"
    "buf_start r1 = buf_start r" "buf_len r1 = buf_len r"
    using ring_step_fifo [OF Cons.prems(1) _ step] Cons.prems(2) by simp_all
  have "ring_data m1 r1 @ i2 = o2 @ ring_data m2 r2 \<and> ring_ready r2"
    using Cons.IH [of r1 m1 i2 o2] one Cons.prems(2) run res by simp
  with one(1) res show ?case by (metis append.assoc)
qed simp

theorem vectoring_fifo_witness:
  "case ring_run (\<lambda>x. ucast x) wrapped_ring [Recv_Op 200 2, Send_Op 200 2] of
     (m', r', ins, outs) \<Rightarrow> [102, 103, 100] @ ins = outs @ ring_data m' r' \<and> ring_ready r'"
proof -
  let ?cs = "[Recv_Op 200 2, Send_Op 200 2]"
  obtain m' r' ins outs where eq: "ring_run (\<lambda>x. ucast x) wrapped_ring ?cs = (m', r', ins, outs)"
    by (metis prod.exhaust)
  note w = wrapped_ring_wf
  have "ring_ready wrapped_ring" by (simp add: ring_ready_def w)
  moreover have "list_all (op_apart (buf_start wrapped_ring) (unat (buf_len wrapped_ring))) ?cs"
    by (simp add: op_apart_def w wrapped_ring_apart)
  ultimately show ?thesis using vectoring_fifo [OF _ _ eq] by (simp only: eq prod.case w)
qed

end
