(* ===== verification/Rfc.thy ===== *)
theory Rfc
  imports VK_Prelude
begin

text \<open>
  The text helpers of the line protocols (src/vk_rfc.c): trimming a line in place, the
  branchless conversions between sizes and hexadecimal or decimal digits, and the chunk
  head of the chunked transfer encoding. A buffer is a function from indices to bytes,
  sizes are 64-bit words, \<open>int\<close> arithmetic is 32-bit words and \<open>ssize_t\<close> is
  \<open>int\<close>.
\<close>

type_synonym buf = "nat \<Rightarrow> byte"

subsection \<open>Trimming\<close>

definition rtrim_one :: "byte \<Rightarrow> buf \<Rightarrow> int \<Rightarrow> buf \<times> int" where
  "rtrim_one c line sz =
     (if sz < 1 then (line, sz)
      else if line (nat (sz - 1)) = c then (line(nat (sz - 1) := 0), sz - 1)
      else (line, sz))"

definition rtrim :: "buf \<Rightarrow> int \<Rightarrow> buf \<times> int" where
  "rtrim line sz = (let (line', sz') = rtrim_one 10 line sz in rtrim_one 13 line' sz')"

text \<open>\<open>ltrim\<close> decrements its pointer to the size instead of the size, so its loop tests
  successive objects below the size: \<open>sizes k\<close> is the \<open>ssize_t\<close> at
  \<open>size_ptr - k\<close>, and the result is the number of bytes by which the returned pointer
  is advanced. The loop stops at the latest after \<open>fuel\<close> spaces; \<open>None\<close> when it
  has not stopped by then.\<close>

fun ltrim_loop :: "nat \<Rightarrow> (nat \<Rightarrow> int) \<Rightarrow> buf \<Rightarrow> nat \<Rightarrow> nat option" where
  "ltrim_loop 0 sizes line k = None"
| "ltrim_loop (Suc fuel) sizes line k =
     (if sizes k > 0 \<and> line k = 32 then ltrim_loop fuel sizes line (Suc k) else Some k)"

definition ltrim :: "nat \<Rightarrow> (nat \<Rightarrow> int) \<Rightarrow> buf \<Rightarrow> nat option" where
  "ltrim fuel sizes line = (if sizes 0 < 0 then Some 0 else ltrim_loop fuel sizes line 0)"

subsection \<open>Hexadecimal and decimal\<close>

lemma unat_half: "unat (drop_bit 1 (mk :: size_t)) = unat mk div 2"
  unfolding unat_drop_bit_eq by (simp add: drop_bit_eq_div)

function flsl_loop :: "size_t \<Rightarrow> nat \<Rightarrow> nat" where
  "flsl_loop mk n = (if mk = 0 \<or> mk = 1 then n else flsl_loop (drop_bit 1 mk) (Suc n))"
  by pat_completeness auto
termination
proof (relation "measure (\<lambda>(mk, n). unat mk)")
  fix mk :: size_t and n :: nat
  assume "\<not> (mk = 0 \<or> mk = 1)"
  then have "unat mk div 2 < unat mk" by (intro div_less_dividend) (auto simp: word_eq_unat)
  then show "((drop_bit 1 mk, Suc n), mk, n) \<in> measure (\<lambda>(mk, n). unat mk)"
    by (simp only: in_measure prod.case unat_half)
qed simp

declare flsl_loop.simps [simp del]

definition flsl :: "size_t \<Rightarrow> nat" where
  "flsl mk = (if mk = 0 then 0 else flsl_loop mk 1)"

definition flsh :: "size_t \<Rightarrow> nat" where
  "flsh sz = drop_bit 2 (flsl (push_bit 3 sz))"

unbundle bit_operations_syntax

definition VALHEX :: "32 word \<Rightarrow> 32 word" where
  "VALHEX v = ((v + 48) AND (- drop_bit 7 ((v - 10) AND 0x80))) OR
              ((v + 55) AND (- drop_bit 7 ((9 - v) AND 0x80)))"

definition HEXVAL :: "byte \<Rightarrow> 32 word" where
  "HEXVAL b = (let w = (scast b :: 32 word) in
     ((w AND 0x1f) + signed_drop_bit 6 w * 0x19 - 0x10) AND 0xF)"

definition hex_digit :: "size_t \<Rightarrow> nat \<Rightarrow> 32 word" where
  "hex_digit sz i = ucast (drop_bit (4 * (15 - i)) sz AND 0xf)"

function size_hex_loop :: "size_t \<Rightarrow> nat \<Rightarrow> buf \<Rightarrow> nat \<Rightarrow> nat \<Rightarrow> buf \<times> nat" where
  "size_hex_loop sz len val i j =
     (if j < len \<and> i < 16
      then (let c = hex_digit sz i;
                val' = val(j := ucast (VALHEX c))
            in size_hex_loop sz len val' (Suc i) (j + of_bool (j > 0 \<or> c > 0)))
      else (val, j))"
  by pat_completeness auto
termination
  by (relation "measure (\<lambda>(sz, len, val, i, j). 16 - i)") auto

declare size_hex_loop.simps [simp del]

definition size_hex :: "buf \<Rightarrow> size_t \<Rightarrow> size_t \<Rightarrow> buf \<times> nat" where
  "size_hex val len sz =
     (let len' = (if len > 16 then 16 else unat len);
          (val', j) = size_hex_loop sz len' val (16 - flsh sz) 0
      in (val', j + of_bool (j = 0)))"

function hex_size_loop :: "buf \<Rightarrow> nat \<Rightarrow> size_t \<Rightarrow> size_t" where
  "hex_size_loop val i sz =
     (if i < 16 \<and> val i \<noteq> 0
      then hex_size_loop val (Suc i) (push_bit 4 sz OR ucast (HEXVAL (val i)))
      else sz)"
  by pat_completeness auto
termination
  by (relation "measure (\<lambda>(val, i, sz). 16 - i)") auto

declare hex_size_loop.simps [simp del]

definition hex_size :: "buf \<Rightarrow> size_t" where
  "hex_size val = hex_size_loop val 0 0"

function dec_size_loop :: "buf \<Rightarrow> nat \<Rightarrow> size_t \<Rightarrow> size_t" where
  "dec_size_loop val i sz =
     (if i < 20 \<and> 0x30 \<le> val i \<and> val i \<le> 0x39
      then dec_size_loop val (Suc i) (sz * 10 + ucast (val i - 0x30))
      else sz)"
  by pat_completeness auto
termination
  by (relation "measure (\<lambda>(val, i, sz). 20 - i)") auto

declare dec_size_loop.simps [simp del]

definition dec_size :: "buf \<Rightarrow> size_t" where
  "dec_size val = dec_size_loop val 0 0"

subsection \<open>Chunk heads\<close>

record vk_rfcchunkhead =
  ch_size :: size_t
  ch_head :: buf
  ch_tail :: buf

text \<open>\<open>head\<close> has 19 bytes: 16 digits, CR, LF and NUL.\<close>

definition vk_rfcchunkhead_update_head :: "vk_rfcchunkhead \<Rightarrow> vk_rfcchunkhead \<times> nat" where
  "vk_rfcchunkhead_update_head c =
     (let (head, rc) = size_hex (ch_head c) 18 (ch_size c)
      in (c\<lparr>ch_head := head(rc := 13, Suc rc := 10, Suc (Suc rc) := 0)\<rparr>, rc + 2))"

definition vk_rfcchunkhead_update_size :: "vk_rfcchunkhead \<Rightarrow> vk_rfcchunkhead" where
  "vk_rfcchunkhead_update_size c = c\<lparr>ch_size := hex_size (ch_head c)\<rparr>"

subsection \<open>Digits round-trip\<close>

lemma flsl_loop_bounds:
  "mk \<noteq> 0 \<Longrightarrow>
    n \<le> flsl_loop mk n \<and> 2 ^ (flsl_loop mk n - n) \<le> unat mk \<and>
    unat mk < 2 ^ (flsl_loop mk n - n + 1)"
proof (induction mk n rule: flsl_loop.induct)
  case (1 mk n)
  show ?case
  proof (cases "mk = 1")
    case True
    then show ?thesis by (subst (1 2 3) flsl_loop.simps) simp
  next
    case False
    let ?h = "drop_bit 1 mk" and ?r = "flsl_loop (drop_bit 1 mk) (Suc n)"
    note u = unat_half [of mk]
    have "2 \<le> unat mk" using False 1(2) by (cases "unat mk" rule: nat.exhaust)
      (auto simp: word_eq_unat)
    then have "?h \<noteq> 0" by (simp only: word_eq_unat u) simp
    then have ih: "Suc n \<le> ?r" "2 ^ (?r - Suc n) \<le> unat ?h" "unat ?h < 2 ^ (?r - Suc n + 1)"
      using 1 False by auto
    have eq: "flsl_loop mk n = ?r" using False 1(2) by (subst flsl_loop.simps) simp
    have "?r - n = Suc (?r - Suc n)" using ih(1) by simp
    then show ?thesis using ih u unfolding eq by simp linarith
  qed
qed

lemma flsl_bounds: "mk \<noteq> 0 \<Longrightarrow> 2 ^ (flsl mk - 1) \<le> unat mk \<and> unat mk < 2 ^ flsl mk \<and> 0 < flsl mk"
  using flsl_loop_bounds [of mk 1] by (cases "flsl_loop mk 1") (auto simp: flsl_def)

lemma flsl_unique:
  assumes "2 ^ k \<le> unat mk" "unat mk < 2 ^ Suc k"
  shows "flsl mk = Suc k"
proof -
  have "0 < unat mk" using assms(1) by (rule less_le_trans [rotated]) simp
  then have "mk \<noteq> 0" by auto
  note b = flsl_bounds [OF this]
  have "(2 :: nat) ^ (flsl mk - 1) < 2 ^ Suc k" "(2 :: nat) ^ k < 2 ^ flsl mk"
    using b assms by linarith+
  then have "flsl mk - 1 < Suc k" "k < flsl mk"
    using power_less_imp_less_exp [of "2 :: nat" "flsl mk - 1" "Suc k"]
      power_less_imp_less_exp [of "2 :: nat" k "flsl mk"] by simp_all
  then show ?thesis by simp
qed

text \<open>The digits that \<open>flsh\<close> counts, below the three bits its shift drops.\<close>

lemma flsh_bounds:
  assumes "0 < unat sz" "unat sz < 2 ^ 61"
  shows "0 < flsh sz" "flsh sz \<le> 16" "2 ^ (4 * (flsh sz - 1)) \<le> unat sz" "unat sz < 2 ^ (4 * flsh sz)"
proof -
  define n where "n = flsl sz"
  have "sz \<noteq> 0" using assms(1) by auto
  then have n: "2 ^ (n - 1) \<le> unat sz" "unat sz < 2 ^ n" "0 < n"
    using flsl_bounds [of sz] by (simp_all add: n_def)
  have "(2 :: nat) ^ (n - 1) < 2 ^ 61" using n(1) assms(2) by (rule le_less_trans)
  then have n61: "n \<le> 61" using power_less_imp_less_exp [of "2 :: nat" "n - 1" 61] by simp
  have sh: "unat (push_bit 3 sz) = 8 * unat sz"
    using assms(2) by (simp add: push_bit_eq_mult unat_mult_exact)
  have "flsl (push_bit 3 sz) = Suc (n + 2)"
  proof (rule flsl_unique)
    have p: "(2 :: nat) ^ (n + 2) = 8 * 2 ^ (n - 1)" using n(3) by (cases n) simp_all
    show "2 ^ (n + 2) \<le> unat (push_bit 3 sz)" unfolding p sh using n(1) by simp
    show "unat (push_bit 3 sz) < 2 ^ Suc (n + 2)" unfolding sh using n(2) by simp
  qed
  then have k: "flsh sz = (n + 3) div 4" by (simp add: flsh_def drop_bit_eq_div add.commute)
  then show "0 < flsh sz" "flsh sz \<le> 16" using n(3) n61 by simp_all
  have "4 * (flsh sz - 1) \<le> n - 1" "n \<le> 4 * flsh sz" unfolding k using n(3) by linarith+
  then have "(2 :: nat) ^ (4 * (flsh sz - 1)) \<le> 2 ^ (n - 1)" "(2 :: nat) ^ n \<le> 2 ^ (4 * flsh sz)"
    by (simp_all only: power_increasing_iff one_less_numeral_iff semiring_norm)
  then show "2 ^ (4 * (flsh sz - 1)) \<le> unat sz" "unat sz < 2 ^ (4 * flsh sz)"
    using n by linarith+
qed

lemma hex_digit_table:
  "\<forall>i\<in>set [0..<16]. HEXVAL (ucast (VALHEX (of_nat i))) = of_nat i \<and> (ucast (VALHEX (of_nat i)) :: byte) \<noteq> 0"
  by code_simp

lemma hex_digit_roundtrip:
  assumes "unat c < 16"
  shows "HEXVAL (ucast (VALHEX c)) = c" "(ucast (VALHEX c) :: byte) \<noteq> 0"
proof -
  have "unat c \<in> set [0..<16]" "of_nat (unat c) = c" using assms by simp_all
  then show "HEXVAL (ucast (VALHEX c)) = c" "(ucast (VALHEX c) :: byte) \<noteq> 0"
    using hex_digit_table by metis+
qed

lemma hex_digit_bit: "bit (hex_digit sz i) n \<longleftrightarrow> n < 4 \<and> bit sz (4 * (15 - i) + n)"
proof -
  have f: "(0xf :: size_t) = mask 4" by (simp add: mask_eq_exp_minus_1)
  show ?thesis unfolding hex_digit_def f by (auto simp: bit_simps dest: bit_imp_le_length)
qed

lemma hex_digit_small: "unat (hex_digit sz i) < 16"
proof -
  have "take_bit 4 (hex_digit sz i) = hex_digit sz i"
    by (rule bit_eqI) (auto simp: bit_take_bit_iff hex_digit_bit)
  then have "unat (hex_digit sz i) = take_bit 4 (unat (hex_digit sz i))"
    by (metis unsigned_take_bit_eq)
  then show ?thesis using take_bit_nat_less_exp [of 4 "unat (hex_digit sz i)"] by simp
qed

lemma hex_digit_lead:
  assumes "0 < k" "k \<le> 16" "2 ^ (4 * (k - 1)) \<le> unat sz" "unat sz < 2 ^ (4 * k)"
  shows "hex_digit sz (16 - k) \<noteq> 0"
proof
  assume zero: "hex_digit sz (16 - k) = 0"
  have p: "15 - (16 - k) = k - 1" "4 * k = 4 * (k - 1) + 4" using assms(1,2) by simp_all
  have "unat (drop_bit (4 * (k - 1)) sz) = unat sz div 2 ^ (4 * (k - 1))"
    unfolding unat_drop_bit_eq by (simp add: drop_bit_eq_div)
  moreover have "0 < unat sz div 2 ^ (4 * (k - 1))" using assms(3) by (simp add: div_greater_zero_iff)
  ultimately have "drop_bit (4 * (k - 1)) sz \<noteq> 0" by auto
  then obtain n where "bit sz (4 * (k - 1) + n)" by (auto simp: bit_eq_iff bit_drop_bit_eq)
  moreover have "n < 4"
  proof (rule ccontr)
    assume "\<not> n < 4"
    then have "4 * k \<le> 4 * (k - 1) + n" using p(2) by simp
    moreover have "take_bit (4 * k) (unat sz) = unat sz" using assms(4) by (rule take_bit_nat_eq_self)
    ultimately have "\<not> bit (unat sz) (4 * (k - 1) + n)" by (metis bit_take_bit_iff not_less)
    with \<open>bit sz (4 * (k - 1) + n)\<close> show False by (simp add: bit_unsigned_iff)
  qed
  ultimately have "bit (hex_digit sz (16 - k)) n" by (simp add: hex_digit_bit p)
  with zero show False by simp
qed

lemma size_hex_loop_digits:
  assumes "k \<le> 16" "k \<le> len" "hex_digit sz (16 - k) \<noteq> 0" "j \<le> k"
  shows "size_hex_loop sz len val (16 - k + j) j =
    ((\<lambda>t. if j \<le> t \<and> t < k then ucast (VALHEX (hex_digit sz (16 - k + t))) else val t), k)"
  using assms
proof (induction "k - j" arbitrary: j val)
  case 0
  then have "j = k" by simp
  then show ?case using "0.prems" by (subst size_hex_loop.simps) (auto simp: fun_eq_iff)
next
  case (Suc x)
  let ?c = "hex_digit sz (16 - k + j)" and ?v = "val(j := ucast (VALHEX (hex_digit sz (16 - k + j))))"
  have go: "j < len" "16 - k + j < 16" using Suc by auto
  have adv: "j > 0 \<or> ?c > 0" using Suc.prems(3) by (cases "j = 0") (simp_all add: word_neq_0_conv)
  have "size_hex_loop sz len val (16 - k + j) j = size_hex_loop sz len ?v (16 - k + Suc j) (Suc j)"
    using go adv by (subst size_hex_loop.simps) (cases "j = 0"; simp add: Let_def)
  also have "\<dots> = ((\<lambda>t. if Suc j \<le> t \<and> t < k then ucast (VALHEX (hex_digit sz (16 - k + t))) else ?v t), k)"
    using Suc by (intro Suc.hyps(1)) auto
  finally show ?case using Suc by (auto simp: fun_eq_iff)
qed

lemma size_hex_digits:
  assumes "0 < unat sz" "unat sz < 2 ^ 61" "16 \<le> unat len"
  shows "size_hex val len sz =
    ((\<lambda>t. if t < flsh sz then ucast (VALHEX (hex_digit sz (16 - flsh sz + t))) else val t), flsh sz)"
proof -
  note b = flsh_bounds [OF assms(1,2)]
  have "(if len > 16 then 16 else unat len) = 16"
    using assms(3) by (auto simp: word_less_nat_alt)
  then show ?thesis
    using size_hex_loop_digits [OF b(2) b(2) hex_digit_lead [OF b], of 0 val] b
    by (simp add: size_hex_def)
qed

lemma hex_size_loop_digits:
  assumes "k \<le> 16" "\<forall>t<k. val t = ucast (VALHEX (hex_digit sz (16 - k + t)))" "k = 16 \<or> val k = 0" "j \<le> k"
  shows "hex_size_loop val j (drop_bit (4 * (k - j)) sz) = sz"
  using assms
proof (induction "k - j" arbitrary: j)
  case 0
  then show ?case by (subst hex_size_loop.simps) auto
next
  case (Suc x)
  let ?c = "hex_digit sz (16 - k + j)"
  have jk: "j < k" "k - j = Suc (k - Suc j)" "15 - (16 - k + j) = k - Suc j" using Suc by simp_all
  have v: "val j \<noteq> 0" "HEXVAL (val j) = ?c"
    using Suc.prems(2) jk(1) hex_digit_roundtrip [OF hex_digit_small] by simp_all
  have "push_bit 4 (drop_bit (4 * (k - j)) sz) OR ucast ?c = drop_bit (4 * (k - Suc j)) sz"
  proof (rule bit_word_eqI)
    fix n
    assume "n < LENGTH(64)"
    moreover have "4 * (k - j) + (n - 4) = 4 * (k - Suc j) + n" if "4 \<le> n" using jk that by simp
    ultimately show "bit (push_bit 4 (drop_bit (4 * (k - j)) sz) OR ucast ?c) n =
        bit (drop_bit (4 * (k - Suc j)) sz) n"
      using jk by (cases "n < 4") (auto simp: bit_simps hex_digit_bit)
  qed
  then have "hex_size_loop val j (drop_bit (4 * (k - j)) sz) =
      hex_size_loop val (Suc j) (drop_bit (4 * (k - Suc j)) sz)"
    using v jk Suc.prems(1) by (subst hex_size_loop.simps) simp
  also have "\<dots> = sz" using Suc jk by (intro Suc.hyps(1)) auto
  finally show ?case .
qed

text \<open>A size written in hexadecimal and read back is the same size, for every size from 1 to
  2^61 - 1: size_hex writes between 1 and 16 digits without leading zeros, leaves the rest
  of the buffer alone, and hex_size of the digits (NUL-terminated, or 16 of them) gives the
  size back.\<close>

theorem size_hex_roundtrip:
  assumes "0 < unat sz" "unat sz < 2 ^ 61" "16 \<le> unat len" "size_hex val len sz = (val', n)"
  shows "hex_size (val'(n := 0)) = sz \<and> 0 < n \<and> n \<le> 16 \<and> (\<forall>t\<ge>n. val' t = val t) \<and>
    HEXVAL (val' 0) \<noteq> 0"
proof -
  note b = flsh_bounds [OF assms(1,2)]
  have res: "n = flsh sz"
    "val' = (\<lambda>t. if t < flsh sz then ucast (VALHEX (hex_digit sz (16 - flsh sz + t))) else val t)"
    using assms(4) unfolding size_hex_digits [OF assms(1-3)] by blast+
  have "take_bit (4 * n) (unat sz) = unat sz" using b(4) unfolding res by (rule take_bit_nat_eq_self)
  then have "drop_bit (4 * n) sz = 0"
    by (simp add: word_eq_unat unat_drop_bit_eq flip: take_bit_eq_self_iff_drop_bit_eq_0)
  moreover have "hex_size_loop (val'(n := 0)) 0 (drop_bit (4 * (n - 0)) sz) = sz"
    using b by (intro hex_size_loop_digits) (simp_all add: res)
  ultimately have "hex_size (val'(n := 0)) = sz" by (simp add: hex_size_def)
  moreover have "HEXVAL (val' 0) \<noteq> 0"
    using hex_digit_lead [OF b] b(1) hex_digit_roundtrip(1) [OF hex_digit_small] by (simp add: res)
  ultimately show ?thesis using b by (simp add: res)
qed

theorem size_hex_roundtrip_witness:
  "snd (size_hex (\<lambda>_. 0) 16 0x1A3) = 3 \<and>
   hex_size ((fst (size_hex (\<lambda>_. 0) 16 0x1A3))(3 := 0)) = 0x1A3"
proof -
  have "snd (size_hex (\<lambda>_. 0) 16 0x1A3) = 3" by code_simp
  moreover obtain val' n where "size_hex (\<lambda>_. 0) 16 0x1A3 = (val', n)" by fastforce
  ultimately show ?thesis using size_hex_roundtrip [of "0x1A3" 16 "\<lambda>_. 0" val' n] by simp
qed

text \<open>size_hex of 0 writes nothing and answers that it wrote one character; so does size_hex
  of every nonzero multiple of 2^61, whose three top bits the shift in flsh drops. The chunk head
  of such a size begins with whatever byte its buffer held.\<close>

theorem size_hex_writes_nothing:
  assumes "unat sz mod 2 ^ 61 = 0"
  shows "size_hex val len sz = (val, 1)"
proof -
  have "push_bit 3 sz = 0"
  proof -
    have "unat (push_bit 3 sz) = 2 ^ 3 * unat sz mod 2 ^ 64"
      by (simp add: push_bit_eq_mult unat_word_ariths mult.commute)
    also have "\<dots> = 2 ^ 3 * (unat sz mod 2 ^ 61)"
      using mult_mod_right [of "2 ^ 3 :: nat" "unat sz" "2 ^ 61"] by simp
    finally show ?thesis using assms by (simp add: word_eq_unat)
  qed
  then have "flsh sz = 0" by (simp add: flsh_def flsl_def)
  moreover have "size_hex_loop sz n val 16 0 = (val, 0)" for n
    by (subst size_hex_loop.simps) simp
  ultimately show ?thesis by (simp add: size_hex_def)
qed

theorem size_hex_writes_nothing_witness:
  "size_hex (\<lambda>_. 65) 18 0 = (\<lambda>_. 65, 1) \<and> size_hex (\<lambda>_. 65) 18 (2 ^ 61) = (\<lambda>_. 65, 1)"
  using size_hex_writes_nothing [of 0 "\<lambda>_. 65" 18] size_hex_writes_nothing [of "2 ^ 61" "\<lambda>_. 65" 18]
  by simp

lemma rtrim_crlf:
  assumes "line n = 13" "line (Suc n) = 10"
  shows "rtrim line (int n + 2) = (line(n := 0, Suc n := 0), int n)"
  using assms by (simp add: rtrim_def rtrim_one_def nat_add_distrib fun_upd_twist numeral_eq_Suc)

text \<open>A chunk head survives the wire: the head that update_head writes for a size below 2^61 is at
  most 18 bytes and ends with CR LF NUL, and trimming it as a line and reading it back with
  update_size restores the size.\<close>

theorem chunkhead_roundtrip:
  assumes "0 < unat (ch_size c)" "unat (ch_size c) < 2 ^ 61"
    "vk_rfcchunkhead_update_head c = (c', rc)" "rtrim (ch_head c') (int rc) = (line, sz)"
  shows "ch_size (vk_rfcchunkhead_update_size (c'\<lparr>ch_head := line(nat sz := 0)\<rparr>)) = ch_size c \<and>
    rc \<le> 18 \<and> sz = int rc - 2 \<and> ch_head c' rc = 0"
proof -
  note b = flsh_bounds [OF assms(1,2)]
  let ?k = "flsh (ch_size c)"
  obtain head n where h: "size_hex (ch_head c) 18 (ch_size c) = (head, n)" by fastforce
  then have hd: "n = ?k"
    "head = (\<lambda>t. if t < ?k then ucast (VALHEX (hex_digit (ch_size c) (16 - ?k + t))) else ch_head c t)"
    by (auto simp: size_hex_digits [OF assms(1,2)] simp del: fun_upd_apply)
  have c': "ch_head c' = head(n := 13, Suc n := 10, Suc (Suc n) := 0)" "rc = n + 2"
    using assms(3) h by (auto simp: vk_rfcchunkhead_update_head_def)
  have "rtrim (ch_head c') (int n + 2) = ((ch_head c')(n := 0, Suc n := 0), int n)"
    by (rule rtrim_crlf) (simp_all add: c')
  then have line: "line = (ch_head c')(n := 0, Suc n := 0)" "sz = int n"
    using assms(4) c'(2) by (simp_all add: add.commute)
  have "take_bit (4 * n) (unat (ch_size c)) = unat (ch_size c)"
    using b(4) unfolding hd(1) by (rule take_bit_nat_eq_self)
  then have "drop_bit (4 * n) (ch_size c) = 0"
    by (simp add: word_eq_unat unat_drop_bit_eq flip: take_bit_eq_self_iff_drop_bit_eq_0)
  moreover have "hex_size_loop (line(nat sz := 0)) 0 (drop_bit (4 * (n - 0)) (ch_size c)) = ch_size c"
    using b by (intro hex_size_loop_digits) (simp_all add: line c' hd)
  ultimately show ?thesis using b
    by (simp add: vk_rfcchunkhead_update_size_def hex_size_def c' line hd(1))
qed

definition chunk_1a3 :: vk_rfcchunkhead where
  "chunk_1a3 = \<lparr>ch_size = 0x1A3, ch_head = (\<lambda>_. 0), ch_tail = (\<lambda>_. 0)\<rparr>"

theorem chunkhead_roundtrip_witness:
  "case vk_rfcchunkhead_update_head chunk_1a3 of (c', rc) \<Rightarrow>
    (case rtrim (ch_head c') (int rc) of (line, sz) \<Rightarrow>
      ch_size (vk_rfcchunkhead_update_size (c'\<lparr>ch_head := line(nat sz := 0)\<rparr>)) = 0x1A3)"
proof -
  obtain c' rc where u: "vk_rfcchunkhead_update_head chunk_1a3 = (c', rc)" by fastforce
  obtain line sz where r: "rtrim (ch_head c') (int rc) = (line, sz)" by fastforce
  have sz: "ch_size chunk_1a3 = 0x1A3" by (simp add: chunk_1a3_def)
  have "0 < unat (ch_size chunk_1a3)" "unat (ch_size chunk_1a3) < 2 ^ 61" by (simp_all add: sz)
  note rt = chunkhead_roundtrip [OF this u r]
  then show ?thesis unfolding u r prod.case sz by (rule conjunct1)
qed

text \<open>ltrim does not bound its loop by the size it is given: it decrements the pointer, so on a line
  of two spaces and a letter the number of spaces it trims is decided by the object that
  happens to lie below the size in memory.\<close>

theorem ltrim_reads_below:
  assumes "line 0 = 32" "line 1 = 32" "line 2 \<noteq> 32" "sizes 0 = 3"
  shows "ltrim 4 sizes line = (if sizes 1 > 0 then Some 2 else Some 1)"
  using assms by (simp add: ltrim_def eval_nat_numeral)

theorem ltrim_reads_below_witness:
  "ltrim 4 (\<lambda>k. if k = 0 then 3 else 0) (\<lambda>i. if i < 2 then 32 else 65) = Some 1"
  using ltrim_reads_below [of "\<lambda>i. if i < 2 then 32 else 65" "\<lambda>k. if k = 0 then 3 else 0"] by simp

end
