(* ===== verification/Stack.thy ===== *)
theory Stack
  imports Wrapguard
begin

text \<open>
  The stack allocator of a micro-heap (src/vk_stack.c, src/vk_stack_s.h). A stack is
  three pointers; every allocation is rounded up to pages and its length is written in
  the \<open>size_t\<close> right below the new cursor, the link that \<open>vk_stack_pop\<close> follows.
  Links live in the byte memory that is threaded through push and pop.
\<close>

record vk_stack =
  addr_start :: addr
  addr_cursor :: addr
  addr_stop :: addr

subsection \<open>Operations\<close>

definition sizeof_size_t :: size_t where
  "sizeof_size_t = 8"

definition vk_stack_pagelen :: "size_t \<Rightarrow> size_t \<Rightarrow> size_t \<Rightarrow> errno + size_t" where
  "vk_stack_pagelen pg nmemb count =
     (case vk_safe_mult nmemb count of
        Inl e \<Rightarrow> Inl e
      | Inr sz \<Rightarrow>
          (case vk_safe_add sz sizeof_size_t of
             Inl e \<Rightarrow> Inl e
           | Inr len \<Rightarrow>
               (let pagelen = len div pg
                in Inr (if pagelen * pg < len then pagelen + 1 else pagelen))))"

definition vk_stack_alignedlen :: "size_t \<Rightarrow> size_t \<Rightarrow> size_t \<Rightarrow> errno + size_t" where
  "vk_stack_alignedlen pg nmemb count =
     (case vk_safe_pagelen pg nmemb count of
        Inl e \<Rightarrow> Inl e
      | Inr pagelen \<Rightarrow> vk_safe_mult pagelen pg)"

definition vk_stack_init :: "addr \<Rightarrow> size_t \<Rightarrow> vk_stack" where
  "vk_stack_init a len = \<lparr>addr_start = a, addr_cursor = a, addr_stop = a + len\<rparr>"

definition vk_stack_push ::
  "size_t \<Rightarrow> mem \<Rightarrow> vk_stack \<Rightarrow> size_t \<Rightarrow> size_t \<Rightarrow> errno + (addr \<times> mem \<times> vk_stack)" where
  "vk_stack_push pg m s nmemb count =
     (case vk_safe_alignedlen pg nmemb count of
        Inl e \<Rightarrow> Inl e
      | Inr len \<Rightarrow>
          if addr_cursor s + len \<le> addr_stop s
          then (let cursor = addr_cursor s + len
                in Inr (addr_cursor s, store64 m (cursor - sizeof_size_t) len,
                        s\<lparr>addr_cursor := cursor\<rparr>))
          else Inl ENOMEM)"

definition vk_stack_pop :: "mem \<Rightarrow> vk_stack \<Rightarrow> errno + vk_stack" where
  "vk_stack_pop m s =
     (if addr_cursor s \<le> addr_start s then Inl ERANGE
      else (let len_ptr = addr_cursor s - sizeof_size_t
            in if len_ptr < addr_start s then Inl ENOENT
               else if len_ptr \<ge> addr_stop s then Inl EINVAL
               else Inr (s\<lparr>addr_cursor := addr_cursor s - load64 m len_ptr\<rparr>)))"

definition vk_stack_get_free :: "vk_stack \<Rightarrow> size_t" where
  "vk_stack_get_free s = addr_stop s - addr_cursor s"

definition vk_stack_get_length :: "vk_stack \<Rightarrow> size_t" where
  "vk_stack_get_length s = addr_stop s - addr_start s"

definition vk_stack_push_stack ::
  "size_t \<Rightarrow> mem \<Rightarrow> vk_stack \<Rightarrow> size_t \<Rightarrow> size_t \<Rightarrow> errno + (mem \<times> vk_stack \<times> vk_stack)" where
  "vk_stack_push_stack pg m s nmemb count =
     (case vk_stack_push pg m s nmemb count of
        Inl e \<Rightarrow> Inl e
      | Inr (a, m', s') \<Rightarrow> Inr (m', s', vk_stack_init a (nmemb * count)))"

definition vk_stack_push_stack_pages ::
  "size_t \<Rightarrow> mem \<Rightarrow> vk_stack \<Rightarrow> size_t \<Rightarrow> errno + (mem \<times> vk_stack \<times> vk_stack)" where
  "vk_stack_push_stack_pages pg m s page_count = vk_stack_push_stack pg m s page_count pg"

subsection \<open>Well-formed stacks and their frames\<close>

definition stack_wf :: "vk_stack \<Rightarrow> bool" where
  "stack_wf s \<longleftrightarrow> addr_start s \<le> addr_cursor s \<and> addr_cursor s \<le> addr_stop s"

text \<open>\<open>frames m a c ls\<close>: going down from \<open>c\<close>, the links stored in \<open>m\<close>
  are \<open>ls\<close> and end exactly at \<open>a\<close>.\<close>

primrec frames :: "mem \<Rightarrow> addr \<Rightarrow> addr \<Rightarrow> size_t list \<Rightarrow> bool" where
  "frames m a c [] \<longleftrightarrow> c = a"
| "frames m a c (l # ls) \<longleftrightarrow>
     8 \<le> unat l \<and> unat a + unat l \<le> unat c \<and> load64 m (c - 8) = l \<and> frames m a (c - l) ls"

definition stack_frames :: "mem \<Rightarrow> vk_stack \<Rightarrow> size_t list \<Rightarrow> bool" where
  "stack_frames m s ls \<longleftrightarrow>
     addr_cursor s \<le> addr_stop s \<and> frames m (addr_start s) (addr_cursor s) ls"

lemma frames_le: "frames m a c ls \<Longrightarrow> a \<le> c"
  by (induction ls arbitrary: c) (auto simp: word_le_nat_alt)

lemma stack_frames_wf: "stack_frames m s ls \<Longrightarrow> stack_wf s"
  by (auto simp: stack_frames_def stack_wf_def dest: frames_le)

text \<open>Memory at and above the cursor does not matter to the frames.\<close>

lemma frames_cong:
  "frames m a c ls \<Longrightarrow> (\<And>x. x < c \<Longrightarrow> m' x = m x) \<Longrightarrow> frames m' a c ls"
proof (induction ls arbitrary: c)
  case (Cons l ls)
  then have l: "8 \<le> unat l" "unat a + unat l \<le> unat c" by simp_all
  have c8: "unat (c - 8) = unat c - 8"
    using l by (intro unat_sub_exact [where b = 8, simplified]) (simp add: word_le_nat_alt)
  have below: "c - 8 + of_nat i < c" if "i < 8" for i
  proof -
    have "unat (of_nat i :: size_t) = i" using that by (intro unat_of_nat_exact) simp
    moreover have "unat c - 8 + i < 2 ^ 64"
      using l that unat_lt64 [of c] by linarith
    ultimately have "unat (c - 8 + of_nat i) = unat c - 8 + i"
      using c8 by (simp add: unat_add_exact)
    then show ?thesis using l that by (simp add: word_less_nat_alt)
  qed
  have "load64 m' (c - 8) = load64 m (c - 8)"
    by (rule load64_cong) (simp add: Cons.prems(2) below)
  moreover have "frames m' a (c - l) ls"
  proof (rule Cons.IH)
    show "frames m a (c - l) ls" using Cons.prems by simp
    have "c - l \<le> c" using l by (simp add: word_le_nat_alt unat_sub_exact)
    then show "m' x = m x" if "x < c - l" for x
      using Cons.prems(2) that by (meson order_less_le_trans)
  qed
  ultimately show ?case using Cons.prems by simp
qed simp

lemma frames_push:
  assumes fr: "frames m a c ls" and l: "8 \<le> unat l" and nowrap: "unat c + unat l < 2 ^ 64"
  shows "frames (store64 m (c + l - 8) l) a (c + l) (l # ls)"
proof -
  have cl: "unat (c + l) = unat c + unat l" using nowrap by (rule unat_add_exact)
  have low: "unat (c + l - 8) = unat c + unat l - 8"
    using l cl by (subst unat_sub_exact) (simp_all add: word_le_nat_alt)
  have "frames (store64 m (c + l - 8) l) a c ls"
  proof (rule frames_cong [OF fr])
    fix x
    assume "x < c"
    then have "unat x < unat (c + l - 8)" using l by (simp add: low word_less_nat_alt)
    then have "\<not> unat (x - (c + l - 8)) < 8"
      using low l nowrap unat_sub_if' [of x "c + l - 8"] unat_lt64 [of "c + l - 8"]
      by (auto simp: word_le_nat_alt)
    then show "store64 m (c + l - 8) l x = m x" by (simp add: store64_def)
  qed
  then show ?thesis
    using l cl frames_le [OF fr] by (simp add: word_le_nat_alt)
qed

subsection \<open>Push and pop are inverse\<close>

lemma push_InrD:
  assumes "vk_stack_push pg m s nmemb count = Inr (a, m', s')"
  obtains len where "vk_safe_alignedlen pg nmemb count = Inr len"
    and "addr_cursor s + len \<le> addr_stop s" and "a = addr_cursor s"
    and "m' = store64 m (addr_cursor s + len - 8) len"
    and "s' = s\<lparr>addr_cursor := addr_cursor s + len\<rparr>"
  using assms
  by (auto simp: vk_stack_push_def sizeof_size_t_def Let_def split: sum.splits if_splits)

text \<open>A push of a positive size from a stack whose addresses do not wrap: the length is
  at least a page, so the link fits below the new cursor.\<close>

definition push_ok :: "size_t \<Rightarrow> vk_stack \<Rightarrow> size_t \<Rightarrow> size_t \<Rightarrow> bool" where
  "push_ok pg s nmemb count \<longleftrightarrow>
     8 \<le> unat pg \<and> 0 < unat nmemb * unat count \<and>
     unat (addr_cursor s) + round_up (unat pg) (unat nmemb * unat count) \<le> unat (addr_stop s)"

lemma push_len_ge_page:
  assumes "8 \<le> unat pg" "0 < unat nmemb * unat count"
  shows "unat pg \<le> round_up (unat pg) (unat nmemb * unat count)"
  using assms round_up_ge [of "unat pg" "unat nmemb * unat count"]
  by (intro dvd_imp_le round_up_dvd) linarith

lemma push_success:
  assumes ok: "push_ok pg s nmemb count"
  defines "len \<equiv> (of_nat (round_up (unat pg) (unat nmemb * unat count)) :: size_t)"
  shows "vk_stack_push pg m s nmemb count =
      Inr (addr_cursor s, store64 m (addr_cursor s + len - 8) len,
           s\<lparr>addr_cursor := addr_cursor s + len\<rparr>)"
    and "unat len = round_up (unat pg) (unat nmemb * unat count)"
    and "unat (addr_cursor s + len) = unat (addr_cursor s) + unat len"
    and "8 \<le> unat len"
proof -
  let ?r = "round_up (unat pg) (unat nmemb * unat count)"
  have r: "?r < 2 ^ 64" "unat (addr_cursor s) + ?r \<le> unat (addr_stop s)"
    using ok less_le_trans [OF _ unat_lt64 [of "addr_stop s", THEN less_imp_le]]
    unfolding push_ok_def by (meson le_add2 le_less_trans unat_lt64 order_trans)+
  then show l: "unat len = ?r" unfolding len_def by (intro unat_of_nat_exact)
  have sum: "unat (addr_cursor s) + unat len < 2 ^ 64"
    using r l unat_lt64 [of "addr_stop s"] by linarith
  then show c: "unat (addr_cursor s + len) = unat (addr_cursor s) + unat len"
    by (rule unat_add_exact)
  show "8 \<le> unat len"
    using push_len_ge_page [of pg nmemb count] ok l by (simp add: push_ok_def)
  have "pg \<noteq> 0" using ok by (auto simp: push_ok_def)
  then have "vk_safe_alignedlen pg nmemb count = Inr len"
    using r by (simp add: alignedlen_correct len_def)
  then show "vk_stack_push pg m s nmemb count =
      Inr (addr_cursor s, store64 m (addr_cursor s + len - 8) len,
           s\<lparr>addr_cursor := addr_cursor s + len\<rparr>)"
    using c l r by (simp add: vk_stack_push_def sizeof_size_t_def Let_def word_le_nat_alt)
qed

lemma push_frames:
  assumes ok: "push_ok pg s nmemb count" and fr: "stack_frames m s ls"
    and push: "vk_stack_push pg m s nmemb count = Inr (a, m', s')"
  shows "stack_frames m' s'
    (of_nat (round_up (unat pg) (unat nmemb * unat count)) # ls)"
proof -
  define len where "len = (of_nat (round_up (unat pg) (unat nmemb * unat count)) :: size_t)"
  note succ = push_success [OF ok, folded len_def]
  have "unat (addr_cursor s) + unat len < 2 ^ 64"
    using succ(3) unat_lt64 by metis
  then have "frames (store64 m (addr_cursor s + len - 8) len) (addr_start s)
      (addr_cursor s + len) (len # ls)"
    using fr by (intro frames_push succ(4)) (simp_all add: stack_frames_def)
  moreover have "m' = store64 m (addr_cursor s + len - 8) len"
      "s' = s\<lparr>addr_cursor := addr_cursor s + len\<rparr>"
    using push succ(1) [of m] by auto
  moreover have "addr_cursor s + len \<le> addr_stop s"
    using succ(2,3) ok by (simp add: push_ok_def word_le_nat_alt)
  ultimately show ?thesis by (simp add: stack_frames_def len_def)
qed

lemma pop_frames:
  assumes "stack_frames m s (l # ls)"
  shows "vk_stack_pop m s = Inr (s\<lparr>addr_cursor := addr_cursor s - l\<rparr>)"
    and "stack_frames m (s\<lparr>addr_cursor := addr_cursor s - l\<rparr>) ls"
proof -
  have l: "8 \<le> unat l" "unat (addr_start s) + unat l \<le> unat (addr_cursor s)"
    and ld: "load64 m (addr_cursor s - 8) = l"
    and stop: "unat (addr_cursor s) \<le> unat (addr_stop s)"
    using assms by (auto simp: stack_frames_def word_le_nat_alt)
  have c8: "unat (addr_cursor s - 8) = unat (addr_cursor s) - 8"
    using l by (intro unat_sub_exact [where b = 8, simplified]) (simp add: word_le_nat_alt)
  show "vk_stack_pop m s = Inr (s\<lparr>addr_cursor := addr_cursor s - l\<rparr>)"
    using l ld c8 stop
    by (auto simp: vk_stack_pop_def sizeof_size_t_def Let_def word_le_nat_alt word_less_nat_alt)
  have "unat (addr_cursor s - l) = unat (addr_cursor s) - unat l"
    using l by (intro unat_sub_exact) (simp add: word_le_nat_alt)
  then show "stack_frames m (s\<lparr>addr_cursor := addr_cursor s - l\<rparr>) ls"
    using assms l stop by (simp add: stack_frames_def word_le_nat_alt)
qed

lemma pop_empty: "stack_frames m s [] \<Longrightarrow> vk_stack_pop m s = Inl ERANGE"
  by (simp add: stack_frames_def vk_stack_pop_def)

text \<open>Writes of the program below the link leave the frames alone.\<close>

lemma frames_user_write:
  assumes "stack_frames m s (l # ls)"
    and "\<And>x. x < addr_cursor s - l \<or> addr_cursor s - 8 \<le> x \<Longrightarrow> m' x = m x"
    and "8 \<le> unat (addr_cursor s)"
  shows "stack_frames m' s (l # ls)"
proof -
  let ?c = "addr_cursor s"
  have c8: "unat (?c - 8) = unat ?c - 8"
    using assms(3) by (intro unat_sub_exact [where b = 8, simplified]) (simp add: word_le_nat_alt)
  have "load64 m' (?c - 8) = load64 m (?c - 8)"
  proof (rule load64_cong)
    fix i :: nat
    assume i: "i < 8"
    have "unat (of_nat i :: size_t) = i" using i by (intro unat_of_nat_exact) simp
    moreover have "unat ?c - 8 + i < 2 ^ 64" using assms(3) i unat_lt64 [of ?c] by linarith
    ultimately have "unat (?c - 8 + of_nat i) = unat (?c - 8) + i"
      using c8 by (simp add: unat_add_exact)
    then show "m' (?c - 8 + of_nat i) = m (?c - 8 + of_nat i)"
      by (intro assms(2)) (simp add: word_le_nat_alt)
  qed
  moreover have "frames m' (addr_start s) (?c - l) ls"
    using assms(1) by (auto simp: stack_frames_def intro!: frames_cong [where m = m] assms(2))
  ultimately show ?thesis using assms(1) by (simp add: stack_frames_def)
qed

subsection \<open>Properties\<close>

text \<open>C40: Popping after a push restores the stack pointer, and the frames below are
  intact, whatever the program wrote into the allocation apart from its last eight
  bytes, where the link lives.\<close>

theorem stack_push_pop_roundtrip:
  assumes "push_ok pg s nmemb count" and "stack_frames m s ls"
    and "vk_stack_push pg m s nmemb count = Inr (a, m1, s1)"
    and "\<And>x. x < a \<or> addr_cursor s1 - 8 \<le> x \<Longrightarrow> m2 x = m1 x"
  shows "vk_stack_pop m2 s1 = Inr s \<and> stack_frames m2 s ls"
proof -
  define len where "len = (of_nat (round_up (unat pg) (unat nmemb * unat count)) :: size_t)"
  note succ = push_success [OF assms(1), folded len_def]
  have eqs: "a = addr_cursor s" "s1 = s\<lparr>addr_cursor := addr_cursor s + len\<rparr>"
    using assms(3) succ(1) [of m] by auto
  have fr1: "stack_frames m1 s1 (len # ls)"
    unfolding len_def using push_frames [OF assms(1,2,3)] .
  have c: "addr_cursor s1 - len = a" "8 \<le> unat (addr_cursor s1)"
    using succ(3,4) by (simp_all add: eqs)
  have fr: "stack_frames m2 s1 (len # ls)"
    by (rule frames_user_write [OF fr1 _ c(2)], rule assms(4)) (simp add: c)
  have "s1\<lparr>addr_cursor := addr_cursor s1 - len\<rparr> = s" by (simp add: eqs)
  then show ?thesis using pop_frames [OF fr] by simp
qed

theorem stack_push_pop_roundtrip_witness:
  "\<exists>s1 m1. vk_stack_push 4096 (\<lambda>_. 0) (vk_stack_init 4096 8192) 10 100 = Inr (4096, m1, s1) \<and>
     vk_stack_pop (m1(5000 := 7)) s1 = Inr (vk_stack_init 4096 8192)"
proof -
  let ?s = "vk_stack_init 4096 8192" and ?m = "(\<lambda>_. 0) :: mem"
  have ok: "push_ok 4096 ?s 10 100"
    by (simp add: push_ok_def vk_stack_init_def round_up_def pages_for_def)
  have fr: "stack_frames ?m ?s []"
    by (simp add: stack_frames_def vk_stack_init_def)
  obtain m1 s1 where push: "vk_stack_push 4096 ?m ?s 10 100 = Inr (4096, m1, s1)"
    and s1: "addr_cursor s1 = 8192"
    using push_success(1) [OF ok, of ?m]
    by (simp add: vk_stack_init_def round_up_def pages_for_def)
  have "vk_stack_pop (m1(5000 := 7)) s1 = Inr ?s \<and> stack_frames (m1(5000 := 7)) ?s []"
  proof (rule stack_push_pop_roundtrip [OF ok fr push])
    fix x :: addr
    assume "x < 4096 \<or> addr_cursor s1 - 8 \<le> x"
    then have "x \<noteq> 5000" using s1 by (auto simp: word_less_nat_alt word_le_nat_alt)
    then show "(m1(5000 := 7)) x = m1 x" by simp
  qed
  with push show ?thesis by blast
qed

text \<open>When the requested size is a whole number of pages, the link lies inside the
  memory handed to the caller: writing its last eight bytes makes the next pop move the
  cursor down by the written value instead of by the allocation's length.\<close>

theorem stack_link_inside_allocation:
  assumes ok: "push_ok pg s nmemb count" and fr: "stack_frames m s ls"
    and whole: "unat pg dvd unat nmemb * unat count"
    and push: "vk_stack_push pg m s nmemb count = Inr (a, m1, s1)"
  shows "vk_stack_pop (store64 m1 (a + nmemb * count - 8) v) s1
      = Inr (s1\<lparr>addr_cursor := addr_cursor s1 - v\<rparr>)"
proof -
  define len where "len = (of_nat (round_up (unat pg) (unat nmemb * unat count)) :: size_t)"
  note succ = push_success [OF ok, folded len_def]
  have "0 < unat pg" using ok by (simp add: push_ok_def)
  then have exact: "round_up (unat pg) (unat nmemb * unat count) = unat nmemb * unat count"
    using whole by (simp add: round_up_eq)
  then have len: "nmemb * count = len" by (simp add: len_def)
  have eqs: "a = addr_cursor s" "s1 = s\<lparr>addr_cursor := addr_cursor s + len\<rparr>"
    using push succ(1) [of m] by auto
  have "addr_cursor s + len \<le> addr_stop s"
    using succ(2,3) ok by (simp add: push_ok_def word_le_nat_alt)
  moreover have "addr_start s \<le> addr_cursor s"
    using fr by (auto simp: stack_frames_def dest: frames_le)
  moreover have "unat (addr_cursor s + len - 8) = unat (addr_cursor s) + unat len - 8"
    using succ(3,4) by (subst unat_sub_exact) (simp_all add: word_le_nat_alt)
  ultimately show ?thesis
    using succ(3,4) unfolding eqs len
    by (auto simp: vk_stack_pop_def sizeof_size_t_def Let_def word_le_nat_alt word_less_nat_alt)
qed

theorem stack_link_inside_allocation_witness:
  "\<exists>m1 s1. vk_stack_push 4096 (\<lambda>_. 0) (vk_stack_init 4096 8192) 1 4096 = Inr (4096, m1, s1) \<and>
     vk_stack_pop (store64 m1 (4096 + 1 * 4096 - 8) 16) s1 = Inr (s1\<lparr>addr_cursor := 8176\<rparr>)"
proof -
  let ?s = "vk_stack_init 4096 8192" and ?m = "(\<lambda>_. 0) :: mem"
  have ok: "push_ok 4096 ?s 1 4096"
    by (simp add: push_ok_def vk_stack_init_def round_up_def pages_for_def)
  have fr: "stack_frames ?m ?s []"
    by (simp add: stack_frames_def vk_stack_init_def)
  obtain m1 s1 where push: "vk_stack_push 4096 ?m ?s 1 4096 = Inr (4096, m1, s1)"
    and s1: "addr_cursor s1 = 8192"
    using push_success(1) [OF ok, of ?m]
    by (simp add: vk_stack_init_def round_up_def pages_for_def)
  show ?thesis
    using push stack_link_inside_allocation [OF ok fr _ push, of 16] s1 by simp
qed

end
