(* ===== verification/Slist.thy ===== *)
theory Slist
  imports VK_Prelude
begin

text \<open>
  The singly-linked lists of the BSD \<open>sys/queue.h\<close> that vk_queue.h pulls in, at two
  levels. At the pointer level a list is a head pointer and the \<open>sle_next\<close> link of
  every element; \<open>None\<close> is \<open>NULL\<close>. At the list level it is the sequence of its
  elements. \<open>slist\<close> relates the two, and the refinement lemmas say that each macro
  does on the links what the list operation does on the sequence. The components whose
  insertions are guarded by a membership flag are modelled at the list level; the
  pool's free list, which has no such guard, at the pointer level.

  The locale \<open>flagged_queue\<close> is the contract of every intrusive queue with a flag
  (\<open>run_qed\<close>, \<open>blocked_qed\<close>, \<open>run_enq\<close>, \<open>blocked_enq\<close>,
  \<open>dirty_qed\<close>, \<open>fresh_qed\<close>).
\<close>

type_synonym 'k link = "'k \<Rightarrow> 'k option"

subsection \<open>Pointer level\<close>

definition slist_insert_head :: "'k option \<Rightarrow> 'k link \<Rightarrow> 'k \<Rightarrow> 'k option \<times> 'k link" where
  "slist_insert_head head nxt e = (Some e, nxt(e := head))"

definition slist_remove_head :: "'k option \<Rightarrow> 'k link \<Rightarrow> 'k option option" where
  "slist_remove_head head nxt = (case head of None \<Rightarrow> None | Some h \<Rightarrow> Some (nxt h))"

text \<open>The macro's walk to the predecessor dereferences every link; it diverges on a
  cycle that misses the element and faults at the end of a list that lacks it.\<close>

partial_function (option) slist_pred :: "'k link \<Rightarrow> 'k \<Rightarrow> 'k \<Rightarrow> 'k option" where
  "slist_pred nxt cur e =
     (if nxt cur = Some e then Some cur
      else (case nxt cur of None \<Rightarrow> None | Some c \<Rightarrow> slist_pred nxt c e))"

definition slist_remove :: "'k option \<Rightarrow> 'k link \<Rightarrow> 'k \<Rightarrow> ('k option \<times> 'k link) option" where
  "slist_remove head nxt e =
     (case head of
        None \<Rightarrow> None
      | Some h \<Rightarrow>
          if h = e then Some (nxt h, nxt)
          else (case slist_pred nxt h e of
                  None \<Rightarrow> None
                | Some c \<Rightarrow> Some (head, nxt(c := nxt e))))"

primrec slist :: "'k link \<Rightarrow> 'k option \<Rightarrow> 'k list \<Rightarrow> bool" where
  "slist nxt head [] \<longleftrightarrow> head = None"
| "slist nxt head (x # xs) \<longleftrightarrow> head = Some x \<and> slist nxt (nxt x) xs"

lemma slist_None [simp]: "slist nxt None xs \<longleftrightarrow> xs = []"
  by (cases xs) auto

lemma slist_upd_notin [simp]: "x \<notin> set xs \<Longrightarrow> slist (nxt(x := y)) head xs = slist nxt head xs"
  by (induction xs arbitrary: head) auto

lemma slist_fun: "slist nxt head xs \<Longrightarrow> slist nxt head ys \<Longrightarrow> xs = ys"
proof (induction xs arbitrary: head ys)
  case Nil
  then show ?case by (cases ys) auto
next
  case (Cons x xs)
  then show ?case by (cases ys) auto
qed

lemma slist_append:
  "slist nxt head (xs @ y # ys) \<Longrightarrow> slist nxt (Some y) (y # ys)"
  by (induction xs arbitrary: head) auto

lemma slist_distinct: "slist nxt head xs \<Longrightarrow> distinct xs"
proof (induction xs arbitrary: head)
  case (Cons x xs)
  have "x \<notin> set xs"
  proof
    assume "x \<in> set xs"
    then obtain us vs where xs: "xs = us @ x # vs" by (meson split_list)
    from Cons.prems have tl: "slist nxt (nxt x) xs" by simp
    then have "slist nxt (Some x) (x # vs)" unfolding xs by (rule slist_append)
    then have "slist nxt (nxt x) vs" by simp
    with tl have "xs = vs" by (rule slist_fun)
    then show False unfolding xs by simp
  qed
  with Cons show ?case by auto
qed simp

lemma slist_insert_refines:
  assumes "slist nxt head xs" "e \<notin> set xs"
  shows "case slist_insert_head head nxt e of (head', nxt') \<Rightarrow> slist nxt' head' (e # xs)"
  using assms by (simp add: slist_insert_head_def)

lemma slist_remove_head_refines:
  "slist nxt head (x # xs) \<Longrightarrow> \<exists>head'. slist_remove_head head nxt = Some head' \<and> slist nxt head' xs"
  by (simp add: slist_remove_head_def)

lemma slist_pred_found:
  "slist nxt (Some x) (x # xs @ e # ys) \<Longrightarrow> e \<notin> set (x # xs) \<Longrightarrow>
    slist_pred nxt x e = Some (last (x # xs))"
proof (induction xs arbitrary: x)
  case Nil
  then show ?case by (simp add: slist_pred.simps [of nxt x e])
next
  case (Cons z zs)
  then have "slist_pred nxt z e = Some (last (z # zs))" by simp
  moreover have "nxt x = Some z" "z \<noteq> e" using Cons.prems by auto
  ultimately show ?case by (simp add: slist_pred.simps [of nxt x e])
qed

lemma slist_splice:
  "slist nxt head (xs @ x # e # ys) \<Longrightarrow> distinct (xs @ x # e # ys) \<Longrightarrow>
    slist (nxt(x := nxt e)) head (xs @ x # ys)"
  by (induction xs arbitrary: head) auto

lemma slist_remove_refines:
  assumes sl: "slist nxt head xs" and mem: "e \<in> set xs"
  shows "\<exists>head' nxt'. slist_remove head nxt e = Some (head', nxt') \<and> slist nxt' head' (remove1 e xs)"
proof -
  have d: "distinct xs" using sl by (rule slist_distinct)
  obtain us ys where xs: "xs = us @ e # ys" and e: "e \<notin> set us"
    using mem by (meson split_list_first)
  show ?thesis
  proof (cases us rule: rev_cases)
    case Nil
    with sl xs show ?thesis by (simp add: slist_remove_def)
  next
    case (snoc vs p)
    obtain x zs where us: "us = x # zs" using snoc by (metis neq_Nil_conv snoc_eq_iff_butlast)
    have head: "head = Some x" "slist nxt (Some x) (x # zs @ e # ys)"
      using sl unfolding xs us by auto
    have "slist_pred nxt x e = Some p"
      using slist_pred_found [OF head(2)] e us snoc by (metis last_snoc)
    moreover have "slist (nxt(p := nxt e)) head (us @ ys)"
      using slist_splice [of nxt head vs p e ys] sl d unfolding xs snoc by simp
    moreover have "remove1 e xs = us @ ys" using e by (simp add: xs remove1_append)
    ultimately show ?thesis using head us e by (auto simp: slist_remove_def)
  qed
qed

subsection \<open>List level, guarded by a membership flag\<close>

text \<open>\<open>SLIST_REMOVE\<close> on the sequence; \<open>None\<close> is the walk off the end of the
  list, a NULL dereference in the code.\<close>

definition q_remove :: "'k \<Rightarrow> 'k list \<Rightarrow> 'k list option" where
  "q_remove x xs = (if x \<in> set xs then Some (remove1 x xs) else None)"

lemma q_remove_Some: "x \<in> set xs \<Longrightarrow> q_remove x xs = Some (remove1 x xs)"
  by (simp add: q_remove_def)

definition flag_inv :: "('k \<Rightarrow> bool) \<Rightarrow> 'k list \<Rightarrow> bool" where
  "flag_inv flag q \<longleftrightarrow> distinct q \<and> (\<forall>k. flag k \<longleftrightarrow> k \<in> set q)"

lemma flag_inv_mem: "flag_inv flag q \<Longrightarrow> flag k \<longleftrightarrow> k \<in> set q"
  by (simp add: flag_inv_def)

lemma flag_inv_empty [simp]: "flag_inv (\<lambda>_. False) []"
  by (simp add: flag_inv_def)

lemma flag_inv_insert: "flag_inv flag q \<Longrightarrow> \<not> flag k \<Longrightarrow> flag_inv (flag(k := True)) (k # q)"
  by (auto simp: flag_inv_def)

lemma flag_inv_remove: "flag_inv flag q \<Longrightarrow> flag_inv (flag(k := False)) (remove1 k q)"
  by (auto simp: flag_inv_def)

lemma flag_inv_hd: "flag_inv flag (k # q) \<Longrightarrow> flag_inv (flag(k := False)) q"
  by (auto simp: flag_inv_def)

locale flagged_queue =
  fixes queue :: "'s \<Rightarrow> 'k list"
    and flag :: "'s \<Rightarrow> 'k \<Rightarrow> bool"
    and admit :: "'s \<Rightarrow> 'k \<Rightarrow> bool"
    and enqueue :: "'s \<Rightarrow> 'k \<Rightarrow> 's"
    and drop :: "'s \<Rightarrow> 'k \<Rightarrow> 's option"
    and dequeue :: "'s \<Rightarrow> ('k \<times> 's) option"
  assumes enqueue_queue:
      "queue (enqueue s k) = (if flag s k \<or> \<not> admit s k then queue s else k # queue s)"
    and enqueue_flag: "flag (enqueue s k) = (if admit s k then (flag s)(k := True) else flag s)"
    and enqueue_admit: "admit (enqueue s k) = admit s"
    and drop_fault: "flag s k \<Longrightarrow> k \<notin> set (queue s) \<Longrightarrow> drop s k = None"
    and drop_flagged: "flag s k \<Longrightarrow> k \<in> set (queue s) \<Longrightarrow>
      \<exists>s'. drop s k = Some s' \<and> queue s' = remove1 k (queue s) \<and> flag s' = (flag s)(k := False)"
    and drop_unflagged: "\<not> flag s k \<Longrightarrow>
      \<exists>s'. drop s k = Some s' \<and> queue s' = queue s \<and> flag s' = flag s"
    and dequeue_empty: "queue s = [] \<Longrightarrow> dequeue s = None"
    and dequeue_step: "queue s = k # q \<Longrightarrow>
      \<exists>s'. dequeue s = Some (k, s') \<and> queue s' = q \<and> flag s' = (flag s)(k := False)"
begin

definition inv :: "'s \<Rightarrow> bool" where
  "inv s \<longleftrightarrow> flag_inv (flag s) (queue s)"

lemma inv_enqueue: "inv s \<Longrightarrow> inv (enqueue s k)"
  by (auto simp: inv_def enqueue_queue enqueue_flag flag_inv_def)

lemma enqueue_mem:
  "inv s \<Longrightarrow> admit s k \<Longrightarrow> set (queue (enqueue s k)) = insert k (set (queue s))"
  by (simp add: inv_def enqueue_queue flag_inv_def insert_absorb)

lemma enqueue_mono: "set (queue s) \<subseteq> set (queue (enqueue s k))"
  by (simp add: enqueue_queue subset_insertI)

lemma enqueue_idem: "queue (enqueue (enqueue s k) k) = queue (enqueue s k)"
  by (simp add: enqueue_queue enqueue_flag enqueue_admit)

lemma drop_safe:
  assumes "inv s"
  shows "\<exists>s'. drop s k = Some s' \<and> inv s' \<and> queue s' = remove1 k (queue s) \<and> \<not> flag s' k"
proof (cases "flag s k")
  case True
  with assms have "k \<in> set (queue s)" by (simp add: inv_def flag_inv_def)
  with drop_flagged [OF True this] assms flag_inv_remove [of "flag s" "queue s" k] show ?thesis
    by (auto simp: inv_def)
next
  case False
  with assms have "k \<notin> set (queue s)" by (simp add: inv_def flag_inv_def)
  with drop_unflagged [OF False] assms False show ?thesis
    by (auto simp: inv_def remove1_idem)
qed

lemma dequeue_safe:
  assumes "inv s"
  shows "case dequeue s of
      None \<Rightarrow> queue s = []
    | Some (k, s') \<Rightarrow> queue s = k # queue s' \<and> inv s' \<and> \<not> flag s' k"
proof (cases "queue s")
  case Nil
  then show ?thesis by (simp add: dequeue_empty)
next
  case (Cons k q)
  with dequeue_step [OF Cons] assms flag_inv_hd [of "flag s" k q] show ?thesis
    by (auto simp: inv_def)
qed

end

text \<open>A queue whose owner carries a mark that it is not empty.\<close>

locale marked_queue = flagged_queue +
  fixes mark :: "'a \<Rightarrow> bool"
  assumes mark_enqueue:
      "mark (enqueue s k) \<longleftrightarrow> mark s \<or> queue s = [] \<and> \<not> flag s k \<and> admit s k"
    and mark_drop: "drop s k = Some s' \<Longrightarrow> mark s' \<longleftrightarrow> mark s \<and> queue s' \<noteq> []"
    and mark_dequeue: "dequeue s = Some (k, s') \<Longrightarrow> mark s' \<longleftrightarrow> mark s \<and> queue s' \<noteq> []"
begin

definition minv :: "'a \<Rightarrow> bool" where
  "minv s \<longleftrightarrow> inv s \<and> (mark s \<longleftrightarrow> queue s \<noteq> [])"

lemma minv_enqueue: "minv s \<Longrightarrow> minv (enqueue s k)"
  using enqueue_queue [of s k] by (auto simp: minv_def inv_enqueue mark_enqueue)

lemma minv_drop: "minv s \<Longrightarrow> \<exists>s'. drop s k = Some s' \<and> minv s' \<and> queue s' = remove1 k (queue s)"
  using drop_safe [of s k] mark_drop [of s k] unfolding minv_def by force

lemma minv_dequeue: "minv s \<Longrightarrow> dequeue s = Some (k, s') \<Longrightarrow> minv s' \<and> queue s = k # queue s'"
  using dequeue_safe [of s] mark_dequeue [of s k s'] unfolding minv_def by auto

lemma minv_dequeue_None: "minv s \<Longrightarrow> dequeue s = None \<longleftrightarrow> \<not> mark s"
  using dequeue_safe [of s] dequeue_empty [of s] by (auto simp: minv_def split: option.splits)

end

end
