(* ===== verification/Vectoring_IO.thy ===== *)
theory Vectoring_IO
  imports Vectoring_Copy
begin

text \<open>
  The ring buffer against the operating system and against other rings
  (src/vk_vectoring.c): reading from and writing to a file descriptor, accepting,
  closing, splicing one ring into another, and passing EOF along. The outcome of each
  system call is an argument: for \<open>readv\<close> an errno or the bytes that the descriptor has
  to give, for \<open>writev\<close> an errno or the number of bytes it has room for, for
  \<open>close\<close> and \<open>shutdown\<close> the returned value with the errno it left.
\<close>

subsection \<open>File descriptors\<close>

type_synonym syscall = "int \<times> errno"

text \<open>A successful \<open>readv\<close> scatters the bytes over the two vectors in order, as many as they
  hold; a successful \<open>writev\<close> takes no more than they hold.\<close>

definition iovs_room :: "iovecs \<Rightarrow> nat" where
  "iovs_room vs = unat (iov_len (fst vs)) + unat (iov_len (snd vs))"

definition readv :: "mem \<Rightarrow> iovecs \<Rightarrow> errno + byte list \<Rightarrow> int \<times> mem" where
  "readv m vs out =
     (case out of
        Inl er \<Rightarrow> (- 1, m)
      | Inr avail \<Rightarrow>
          (let bs = take (iovs_room vs) avail
           in (int (length bs), scatter m (take (length bs) (vec_addrs vs)) bs)))"

definition readv_errno :: "errno \<Rightarrow> errno + 'a \<Rightarrow> errno" where
  "readv_errno e out = (case out of Inl er \<Rightarrow> er | Inr _ \<Rightarrow> e)"

definition vk_vectoring_read ::
  "errno \<Rightarrow> mem \<Rightarrow> vk_vectoring \<Rightarrow> errno + byte list \<Rightarrow> int \<times> errno \<times> mem \<times> vk_vectoring" where
  "vk_vectoring_read e m r out =
     (let r1 = (if rx_blocked r then r\<lparr>rx_blocked := False\<rparr> else r);
          (received, m') = readv m (vector_rx r1) out;
          e' = readv_errno e out;
          r2 = (if received = - 1
                then (if e' = EAGAIN then r1\<lparr>rx_blocked := True, vec_effect := False\<rparr> else r1)
                else if of_int received < vk_vectoring_vector_rx_len r1
                then r1\<lparr>rx_blocked := True\<rparr>
                else r1\<lparr>rx_blocked := False\<rparr>);
          r3 = (if received = 0 then r2\<lparr>vec_eof := True\<rparr>
                else if received > 0 then r2\<lparr>vec_eof := False\<rparr>
                else r2);
          (rc, e'', r4) = vk_vectoring_signed_received e' r3 received
      in (rc, e'', m', r4))"

text \<open>\<open>writev\<close> hands the operating system the first \<open>n\<close> bytes of the filled
  part: the last component of the result.\<close>

definition vk_vectoring_write ::
  "errno \<Rightarrow> mem \<Rightarrow> vk_vectoring \<Rightarrow> errno + nat \<Rightarrow> int \<times> errno \<times> vk_vectoring \<times> byte list" where
  "vk_vectoring_write e m r out =
     (if tx_blocked r then (0, e, r, [])
      else
        (let sent = (case out of Inl _ \<Rightarrow> - 1 | Inr n \<Rightarrow> int (min n (iovs_room (vector_tx r))));
             wire = (case out of Inl _ \<Rightarrow> [] | Inr n \<Rightarrow> map m (take n (vec_addrs (vector_tx r))));
             e' = readv_errno e out;
             r1 = (if sent = - 1
                   then (if e' = EAGAIN then r\<lparr>tx_blocked := True, vec_effect := False\<rparr> else r)
                   else if of_int sent < vk_vectoring_vector_tx_len r
                   then r\<lparr>tx_blocked := True\<rparr>
                   else r\<lparr>tx_blocked := False\<rparr>);
             (rc, e'', r2) = vk_vectoring_signed_sent e' r1 sent
         in (rc, e'', r2, wire)))"

text \<open>\<open>acc\<close> is the address of the local \<open>struct vk_accepted\<close>, \<open>asz\<close> its
  size; the outcome of \<open>vk_accepted_accept\<close> is an errno, or the bytes of the filled
  struct with the errno it leaves.\<close>

definition vk_vectoring_accept ::
  "size_t \<Rightarrow> addr \<Rightarrow> errno \<Rightarrow> mem \<Rightarrow> vk_vectoring \<Rightarrow> errno + byte list \<times> errno
    \<Rightarrow> int \<times> errno \<times> mem \<times> vk_vectoring" where
  "vk_vectoring_accept asz acc e m r out =
     (let r1 = (if rx_blocked r then r\<lparr>rx_blocked := False\<rparr> else r)
      in if vk_vectoring_rx_len r1 < asz then (0, e, m, r1)
         else
           (case out of
              Inl er \<Rightarrow>
                (let r2 = (if er = EAGAIN then r1\<lparr>rx_blocked := True, vec_effect := False\<rparr> else r1);
                     (rc, e', r3) = vk_vectoring_signed_received er r2 (- 1)
                 in (rc, e', m, r3))
            | Inr (bs, e') \<Rightarrow>
                vk_vectoring_send e' (scatter m (range_addrs acc (length bs)) bs)
                  (r1\<lparr>rx_blocked := False\<rparr>) acc asz))"

text \<open>The three closing operations share their shape: the call, a retry when the returned
  value is \<open>EINTR\<close>, the errno of a failure, and the closed mark.\<close>

definition vk_vectoring_close ::
  "vk_vectoring \<Rightarrow> syscall \<Rightarrow> syscall \<Rightarrow> int \<times> errno \<times> vk_vectoring" where
  "vk_vectoring_close r close1 close2 =
     (let (rc, e1) = (if fst close1 = EINTR then close2 else close1);
          r1 = (if rc = - 1 then r\<lparr>vec_error := e1\<rparr> else r)
      in vk_vectoring_signed_sent e1 (r1\<lparr>vec_closed := True, vec_effect := True\<rparr>) rc)"

definition vk_vectoring_rx_shutdown ::
  "vk_vectoring \<Rightarrow> syscall \<Rightarrow> syscall \<Rightarrow> int \<times> errno \<times> vk_vectoring" where
  "vk_vectoring_rx_shutdown r shut1 shut2 =
     (let (rc, e1) = (if fst shut1 = EINTR then shut2 else shut1);
          r1 = (if rc = - 1 then r\<lparr>vec_error := e1\<rparr> else r)
      in vk_vectoring_signed_sent e1 (r1\<lparr>vec_closed := True, vec_effect := True\<rparr>) rc)"

definition vk_vectoring_tx_shutdown ::
  "vk_vectoring \<Rightarrow> syscall \<Rightarrow> syscall \<Rightarrow> int \<times> errno \<times> vk_vectoring" where
  "vk_vectoring_tx_shutdown r shut1 shut2 =
     (let (rc, e1) = (if fst shut1 = EINTR then shut2 else shut1);
          r1 = (if rc = - 1 then r\<lparr>vec_error := e1\<rparr> else r)
      in vk_vectoring_signed_sent e1 (r1\<lparr>vec_closed := True, vec_effect := True\<rparr>) rc)"

subsection \<open>Splicing and hanging up\<close>

text \<open>\<open>rx\<close> receives, \<open>tx\<close> gives; the two rings are distinct objects. Each of the
  two receives into a vector of \<open>rx\<close> must be complete.\<close>

definition splice_step ::
  "errno \<Rightarrow> mem \<Rightarrow> vk_vectoring \<Rightarrow> addr \<Rightarrow> iovec \<Rightarrow> size_t \<Rightarrow> bool \<times> errno \<times> mem \<times> vk_vectoring" where
  "splice_step e m tx lit v n =
     (if n > 0
      then (let (rc, e', m', tx') = vk_vectoring_recv e m tx (iov_ptr lit v) n
            in (of_int rc = n, e', m', tx'))
      else (True, e, m, tx))"

definition vk_vectoring_recv_splice ::
  "addr \<Rightarrow> errno \<Rightarrow> mem \<Rightarrow> vk_vectoring \<Rightarrow> vk_vectoring \<Rightarrow> int
    \<Rightarrow> int \<times> errno \<times> mem \<times> vk_vectoring \<times> vk_vectoring" where
  "vk_vectoring_recv_splice lit e m rx tx len =
     (let len_rx = vk_vectoring_vector_rx_len rx;
          len_tx = vk_vectoring_vector_tx_len tx;
          len_min = (if len_rx < len_tx then len_rx else len_tx);
          len_final = (if len \<ge> 0 \<and> of_int len < len_min then of_int len else len_min);
          (l0, l1) = vk_vectoring_request (vector_rx rx) len_final;
          (ok1, e1, m1, tx1) = splice_step e m tx lit (fst (vector_rx rx)) l0
      in if \<not> ok1 then (- 1, EINVAL, m1, rx, tx1)
         else
           (let (ok2, e2, m2, tx2) = splice_step e1 m1 tx1 lit (snd (vector_rx rx)) l1
            in if \<not> ok2 then (- 1, EINVAL, m2, rx, tx2)
               else
                 (let received = l0 + l1;
                      (rc, rx') = vk_size_return (vk_vectoring_mark_received rx received) received
                  in (rc, e2, m2, rx', tx2))))"

text \<open>The returned \<open>ssize_t\<close> is converted to \<open>size_t\<close> in both comparisons.\<close>

definition vk_vectoring_splice ::
  "addr \<Rightarrow> errno \<Rightarrow> mem \<Rightarrow> vk_vectoring \<Rightarrow> vk_vectoring \<Rightarrow> int
    \<Rightarrow> int \<times> errno \<times> mem \<times> vk_vectoring \<times> vk_vectoring" where
  "vk_vectoring_splice lit e m rx tx len =
     (let (received, e', m', rx', tx') = vk_vectoring_recv_splice lit e m rx tx len
      in (received, e', m',
          rx'\<lparr>rx_blocked := of_int received < vk_vectoring_vector_rx_len rx'\<rparr>,
          tx'\<lparr>tx_blocked := of_int received < vk_vectoring_vector_tx_len tx'\<rparr>))"

definition vk_vectoring_hup :: "errno \<Rightarrow> vk_vectoring \<Rightarrow> int \<times> errno \<times> vk_vectoring" where
  "vk_vectoring_hup e r =
     (if vec_eof r then (- 1, EINVAL, r) else (1, e, snd (vk_vectoring_mark_eof r)))"

definition vk_vectoring_readhup :: "errno \<Rightarrow> vk_vectoring \<Rightarrow> int \<times> errno \<times> vk_vectoring" where
  "vk_vectoring_readhup e r =
     (if vec_eof r then (1, e, vk_vectoring_clear_eof r) else (- 1, EINVAL, r))"

text \<open>Returns the giving ring, then the receiving ring.\<close>

definition vk_vectoring_forwardhup ::
  "vk_vectoring \<Rightarrow> vk_vectoring \<Rightarrow> int \<times> vk_vectoring \<times> vk_vectoring" where
  "vk_vectoring_forwardhup tx rx =
     (if vec_eof tx then (1, vk_vectoring_clear_eof tx, snd (vk_vectoring_mark_eof rx))
      else (0, tx, rx))"

subsection \<open>Reading and writing keep the queue\<close>

lemma vec_len_rx: "ring_wf r \<Longrightarrow> unat (vk_vectoring_vector_rx_len r) = ring_free r"
  unfolding vk_vectoring_vector_rx_len_def by (rule vec_ok_total [OF vec_ok_rx])

lemma vec_len_tx: "ring_wf r \<Longrightarrow> unat (vk_vectoring_vector_tx_len r) = unat (tx_len r)"
  unfolding vk_vectoring_vector_tx_len_def by (rule vec_ok_total [OF vec_ok_tx])

lemma ring_free_small: "ring_wf r \<Longrightarrow> ring_free r < 2 ^ 63"
  using ring_wfD(2) [of r] by (simp add: ring_free_def)

lemma of_int_length: "k < 2 ^ 63 \<Longrightarrow> unat (of_int (int k) :: size_t) = k"
  by (simp add: unat_of_nat_exact)

lemma ring_free_flags [simp]:
  "ring_free (r\<lparr>vec_effect := b\<rparr>) = ring_free r" "ring_free (r\<lparr>vec_eof := b\<rparr>) = ring_free r"
  "ring_free (r\<lparr>vec_closed := b\<rparr>) = ring_free r" "ring_free (r\<lparr>rx_blocked := b\<rparr>) = ring_free r"
  "ring_free (r\<lparr>tx_blocked := b\<rparr>) = ring_free r" "ring_free (r\<lparr>vec_error := e\<rparr>) = ring_free r"
  by (simp_all add: ring_free_def)

lemma rx_addrs_flags [simp]:
  "rx_addrs (r\<lparr>vec_effect := b\<rparr>) = rx_addrs r" "rx_addrs (r\<lparr>vec_eof := b\<rparr>) = rx_addrs r"
  "rx_addrs (r\<lparr>vec_closed := b\<rparr>) = rx_addrs r" "rx_addrs (r\<lparr>rx_blocked := b\<rparr>) = rx_addrs r"
  "rx_addrs (r\<lparr>tx_blocked := b\<rparr>) = rx_addrs r" "rx_addrs (r\<lparr>vec_error := e\<rparr>) = rx_addrs r"
  by (auto intro!: same_ringD(3))

lemma ring_data_flags [simp]:
  "ring_data m (r\<lparr>vec_effect := b\<rparr>) = ring_data m r" "ring_data m (r\<lparr>vec_eof := b\<rparr>) = ring_data m r"
  "ring_data m (r\<lparr>vec_closed := b\<rparr>) = ring_data m r" "ring_data m (r\<lparr>rx_blocked := b\<rparr>) = ring_data m r"
  "ring_data m (r\<lparr>tx_blocked := b\<rparr>) = ring_data m r" "ring_data m (r\<lparr>vec_error := e\<rparr>) = ring_data m r"
  by (auto intro!: same_ringD(4))

lemma mark_received_data:
  assumes wf: "ring_wf r" and n: "unat n \<le> ring_free r" "length bs = unat n"
  shows "ring_data (scatter m (take (unat n) (rx_addrs r)) bs) (vk_vectoring_mark_received r n) =
    ring_data m r @ bs"
proof -
  have "distinct (tx_addrs r @ take (unat n) (rx_addrs r))"
    using distinct_tx_rx [OF wf] by (auto dest: in_set_takeD)
  then show ?thesis using n
    by (simp add: ring_data_def mark_received_ok(2) [OF wf n(1)] map_scatter_outside map_scatter_same)
qed

lemma mark_sent_data:
  assumes "ring_wf r" "unat n \<le> unat (tx_len r)"
  shows "ring_data m (vk_vectoring_mark_sent r n) = drop (unat n) (ring_data m r)"
  by (simp add: ring_data_def mark_sent_ok(2) [OF assms] drop_map)

lemma mark_received_flags [simp]:
  "rx_blocked (vk_vectoring_mark_received r n) = rx_blocked r"
  "tx_blocked (vk_vectoring_mark_received r n) = tx_blocked r"
  "vec_closed (vk_vectoring_mark_received r n) = vec_closed r"
  "vec_eof (vk_vectoring_mark_received r n) = vec_eof r"
  by (simp_all add: vk_vectoring_mark_received_def Let_def)

lemma mark_sent_flags [simp]:
  "rx_blocked (vk_vectoring_mark_sent r n) = rx_blocked r"
  "tx_blocked (vk_vectoring_mark_sent r n) = tx_blocked r"
  "vec_closed (vk_vectoring_mark_sent r n) = vec_closed r"
  "vec_eof (vk_vectoring_mark_sent r n) = vec_eof r"
  by (simp_all add: vk_vectoring_mark_sent_def Let_def)

lemma iovs_room_ok: "vec_ok vs n \<Longrightarrow> iovs_room vs = n"
  by (simp add: vec_ok_def iovs_room_def)

text \<open>A successful read from a file descriptor appends what the descriptor has to give to the ring,
  as far as there is room and whatever the position of the cursors; EOF is then set exactly when no byte arrived, and the ring
  is marked read-blocked exactly when the read left room. (With a full ring \<open>readv\<close>
  is asked for no byte at all and returns none: EOF is marked although the peer has not
  closed.)\<close>

theorem vectoring_read_appends:
  assumes "ring_wf r" "vk_vectoring_read e m r (Inr avail) = (rc, e', m', r')"
  shows "rc = int (min (length avail) (ring_free r)) \<and> e' = e \<and>
    ring_data m' r' = ring_data m r @ take (ring_free r) avail \<and> ring_wf r' \<and>
    (vec_eof r' \<longleftrightarrow> avail = [] \<or> ring_free r = 0) \<and>
    (rx_blocked r' \<longleftrightarrow> length avail < ring_free r) \<and> vec_error r' = vec_error r"
proof -
  define bs where "bs = take (ring_free r) avail"
  have room: "iovs_room (vector_rx r) = ring_free r" by (rule iovs_room_ok [OF vec_ok_rx [OF assms(1)]])
  have rd: "readv m (vector_rx r) (Inr avail) =
      (int (length bs), scatter m (take (length bs) (rx_addrs r)) bs)"
    unfolding readv_def bs_def by (simp only: sum.case Let_def room vec_addrs_rx [OF assms(1)])
  have fit: "length bs \<le> ring_free r" by (simp add: bs_def)
  let ?n = "of_nat (length bs) :: size_t"
  let ?b = "length bs < ring_free r"
  let ?r = "r\<lparr>rx_blocked := ?b, vec_eof := (bs = [])\<rparr>"
  have k: "length bs < 2 ^ 63" using fit ring_free_small [OF assms(1)] by simp
  then have n: "unat ?n = length bs" by (simp add: unat_of_nat_exact)
  have lt: "?n < vk_vectoring_vector_rx_len r \<longleftrightarrow> ?b"
    by (simp only: word_less_nat_alt n vec_len_rx [OF assms(1)])
  have vrx: "vk_vectoring_vector_rx_len (r\<lparr>rx_blocked := b\<rparr>) = vk_vectoring_vector_rx_len r" for b
    by (simp add: vk_vectoring_vector_rx_len_def)
  have "r' = vk_vectoring_mark_received ?r ?n" "rc = int (length bs)" "e' = e"
    "m' = scatter m (take (length bs) (rx_addrs r)) bs"
    using assms(2) lt vrx
    by (auto simp: vk_vectoring_read_def rd readv_errno_def vk_vectoring_signed_received_def
        Let_def split: if_splits)
  moreover have "ring_wf ?r" "unat ?n \<le> ring_free ?r" using assms fit n by simp_all
  note rec = mark_received_ok [OF this]
  note mark_received_data [OF \<open>ring_wf ?r\<close> \<open>unat ?n \<le> ring_free ?r\<close>, of bs m]
  ultimately show ?thesis using rec n by (auto simp: bs_def)
qed

theorem vectoring_read_appends_witness:
  "case vk_vectoring_read 0 (\<lambda>x. ucast x) wrapped_ring (Inr [7, 8]) of
     (rc, e', m', r') \<Rightarrow> ring_data m' r' = [102, 103, 100, 7] \<and> \<not> rx_blocked r' \<and> \<not> vec_eof r'"
proof -
  obtain rc e' m' r' where
    eq: "vk_vectoring_read 0 (\<lambda>x. ucast x) wrapped_ring (Inr [7, 8]) = (rc, e', m', r')"
    by (metis prod.exhaust)
  from vectoring_read_appends [OF wrapped_ring_wf(1) eq]
  show ?thesis by (simp add: eq wrapped_ring_wf)
qed

text \<open>C19: A successful write to a file descriptor hands over exactly the oldest bytes of the ring, as many
  as the operating system took, keeps the others in order, and marks the ring
  write-blocked exactly when bytes are left; a write-blocked ring is not written at all.\<close>

theorem vectoring_write_sends_prefix:
  assumes "ring_wf r" "vk_vectoring_write e m r (Inr k) = (rc, e', r', wire)"
  shows "if tx_blocked r then rc = 0 \<and> r' = r \<and> wire = []
    else rc = int (min k (length (ring_data m r))) \<and> e' = e \<and> wire = take k (ring_data m r) \<and>
      ring_data m r' = drop k (ring_data m r) \<and> ring_wf r' \<and>
      (tx_blocked r' \<longleftrightarrow> ring_data m r' \<noteq> [])"
proof (cases "tx_blocked r")
  case True
  then show ?thesis using assms(2) by (simp add: vk_vectoring_write_def)
next
  case False
  let ?j = "min k (unat (tx_len r))"
  let ?n = "of_nat ?j :: size_t"
  let ?b = "?j < unat (tx_len r)"
  let ?r = "r\<lparr>tx_blocked := ?b\<rparr>"
  have room: "iovs_room (vector_tx r) = unat (tx_len r)"
    by (rule iovs_room_ok [OF vec_ok_tx [OF assms(1)]])
  have "?j < 2 ^ 63" using ring_wfD(2,4) [OF assms(1)] by linarith
  then have n: "unat ?n = ?j" using less_trans [of ?j "2 ^ 63" "2 ^ 64"] by (intro unat_of_nat_exact) simp
  have lt: "?n < vk_vectoring_vector_tx_len r \<longleftrightarrow> ?b"
    by (simp only: word_less_nat_alt n vec_len_tx [OF assms(1)])
  have "of_int (int ?j) = ?n" by (rule of_int_of_nat_eq)
  then have "r' = vk_vectoring_mark_sent ?r ?n" "rc = int ?j" "e' = e"
    "wire = take k (ring_data m r)"
    using assms(2) lt False
    by (auto simp: vk_vectoring_write_def readv_errno_def vk_vectoring_signed_sent_def take_map
        vec_addrs_tx [OF assms(1)] ring_data_def Let_def room split: if_splits)
  moreover have ok: "ring_wf ?r" "unat ?n \<le> unat (tx_len ?r)" using assms n by simp_all
  ultimately show ?thesis
    using mark_sent_ok(1) [OF ok] mark_sent_data [OF ok, of m] n False
    by (auto simp: drop_eq_Nil min_def)
qed

theorem vectoring_write_sends_prefix_witness:
  "case vk_vectoring_write 0 (\<lambda>x. ucast x) wrapped_ring (Inr 2) of
     (rc, e', r', wire) \<Rightarrow> wire = [102, 103] \<and> ring_data (\<lambda>x. ucast x) r' = [100] \<and> tx_blocked r'"
proof -
  obtain rc e' r' wire where
    eq: "vk_vectoring_write 0 (\<lambda>x. ucast x) wrapped_ring (Inr 2) = (rc, e', r', wire)"
    by (metis prod.exhaust)
  have "\<not> tx_blocked wrapped_ring" by (simp add: wrapped_ring_def)
  with vectoring_write_sends_prefix [OF wrapped_ring_wf(1) eq]
  show ?thesis by (simp add: eq wrapped_ring_wf)
qed

subsection \<open>Splicing moves a prefix\<close>

lemma splice_step_ok:
  assumes wf: "ring_wf tx" "0 \<le> vec_error tx"
    and v: "iov_base v = Empty_Literal \<longrightarrow> iov_len v = 0"
    and n: "unat n \<le> unat (iov_len v)" "unat n \<le> unat (tx_len tx)"
    and sep: "set (seg_addrs v) \<inter> set (range_addrs (buf_start tx) (unat (buf_len tx))) = {}"
  shows "splice_step e m tx lit v n =
    (True, e, scatter m (take (unat n) (seg_addrs v)) (map m (take (unat n) (tx_addrs tx))),
     vk_vectoring_mark_sent tx n)"
proof (cases "n = 0")
  case True
  then show ?thesis by (simp add: splice_step_def)
next
  case False
  then obtain a where a: "iov_base v = Base a"
    using v n by (cases "iov_base v") (auto simp: word_eq_unat)
  have seg: "take (unat n) (seg_addrs v) = range_addrs a (unat n)"
    using a n by (simp add: take_seg_addrs)
  have "set (range_addrs a (unat n)) \<subseteq> set (seg_addrs v)"
    by (simp only: set_take_subset flip: seg)
  then have "no_overlap a (unat n) (buf_start tx) (unat (buf_len tx))"
    using sep by (auto simp: no_overlap_def)
  from recv_steps [OF wf this, of e m] obtain k where
    k: "unat k = min (unat n) (unat (tx_len tx))" and
    eq: "vk_vectoring_recv e m tx a n =
      (int (unat k), e, scatter m (range_addrs a (unat k)) (map m (take (unat k) (tx_addrs tx))),
       vk_vectoring_mark_sent tx k)"
    by blast
  have "k = n" using k n by (simp add: word_eq_unat)
  with eq False a seg show ?thesis
    by (simp add: splice_step_def iov_ptr_def word_neq_0_conv)
qed

lemma vec_addrs_parts:
  "set (seg_addrs (fst vs)) \<subseteq> set (vec_addrs vs)" "set (seg_addrs (snd vs)) \<subseteq> set (vec_addrs vs)"
  by (simp_all add: vec_addrs_def)

lemma splice_copies:
  assumes rx: "ring_wf rx" and tx: "ring_wf tx" "0 \<le> vec_error tx"
    and sep: "no_overlap (buf_start rx) (unat (buf_len rx)) (buf_start tx) (unat (buf_len tx))"
    and req: "vk_vectoring_request (vector_rx rx) n = (l0, l1)"
    and n: "unat n \<le> ring_free rx" "unat n \<le> unat (tx_len tx)"
  shows "\<exists>m1 tx1. splice_step e m tx lit (fst (vector_rx rx)) l0 = (True, e, m1, tx1) \<and>
    splice_step e m1 tx1 lit (snd (vector_rx rx)) l1 =
      (True, e, scatter m (take (unat n) (rx_addrs rx)) (map m (take (unat n) (tx_addrs tx))),
       vk_vectoring_mark_sent tx1 l1) \<and>
    tx1 = vk_vectoring_mark_sent tx l0"
proof -
  let ?v = "vector_rx rx" and ?tx1 = "vk_vectoring_mark_sent tx l0"
  note ok = vec_ok_rx [OF rx]
  note u = request_unat [OF ok req]
  let ?s0 = "take (unat l0) (seg_addrs (fst ?v))" and ?s1 = "take (unat l1) (seg_addrs (snd ?v))"
  have l: "unat l0 \<le> unat (tx_len tx)" "unat l0 + unat l1 = unat n" using u(3) n by simp_all
  note one = mark_sent_ok [OF tx(1) l(1)]
  have sub: "set (vec_addrs ?v) \<inter> set (range_addrs (buf_start tx) (unat (buf_len tx))) = {}"
    using sep ring_addrs_subset(2) [OF rx] by (auto simp: no_overlap_def vec_addrs_rx [OF rx])
  have e0: "splice_step e m tx lit (fst ?v) l0 =
      (True, e, scatter m ?s0 (map m (take (unat l0) (tx_addrs tx))), ?tx1)"
    using ok u(1) l sub vec_addrs_parts(1) [of ?v]
    by (intro splice_step_ok tx) (auto simp: vec_ok_def)
  let ?m1 = "scatter m ?s0 (map m (take (unat l0) (tx_addrs tx)))"
  have e1: "splice_step e ?m1 ?tx1 lit (snd ?v) l1 =
      (True, e, scatter ?m1 ?s1 (map ?m1 (take (unat l1) (tx_addrs ?tx1))), vk_vectoring_mark_sent ?tx1 l1)"
    using ok u(2) l n sub one tx vec_addrs_parts(2) [of ?v]
    by (intro splice_step_ok) (auto simp: vec_ok_def)
  have "set (take (unat l1) (drop (unat l0) (tx_addrs tx))) \<inter> set ?s0 = {}"
    using sub ring_addrs_subset(1) [OF tx(1)] vec_addrs_parts(1) [of ?v]
    by (auto dest!: in_set_takeD in_set_dropD)
  then have rd: "map ?m1 (take (unat l1) (tx_addrs ?tx1)) =
      map m (take (unat l1) (drop (unat l0) (tx_addrs tx)))"
    by (simp only: one(2) map_scatter_outside)
  have "set ?s0 \<inter> set ?s1 = {}"
    using distinct_tx_rx [OF rx] by (auto simp: vec_addrs_def dest: in_set_takeD simp flip: vec_addrs_rx [OF rx])
  moreover have "length (take (unat l0) (tx_addrs tx)) = length ?s0"
    using ok u(1) l by (auto simp: vec_ok_def seg_addrs_def)
  moreover have parts: "?s0 @ ?s1 = take (unat n) (rx_addrs rx)"
    using take_vec_addrs [OF ok req] n(1) by (simp only: vec_addrs_rx [OF rx] min_absorb1)
  moreover have tx_part: "take (unat n) (tx_addrs tx) =
      take (unat l0) (tx_addrs tx) @ take (unat l1) (drop (unat l0) (tx_addrs tx))"
    by (simp only: take_add flip: l(2))
  ultimately have "scatter ?m1 ?s1 (map m (take (unat l1) (drop (unat l0) (tx_addrs tx)))) =
      scatter m (?s0 @ ?s1) (map m (take (unat l0) (tx_addrs tx)) @
        map m (take (unat l1) (drop (unat l0) (tx_addrs tx))))"
    by (intro scatter_scatter) simp_all
  also have "\<dots> = scatter m (take (unat n) (rx_addrs rx)) (map m (take (unat n) (tx_addrs tx)))"
    by (simp only: parts tx_part map_append)
  finally show ?thesis using e0 e1 rd by (intro exI conjI) simp_all
qed

definition splice_amount :: "vk_vectoring \<Rightarrow> vk_vectoring \<Rightarrow> int \<Rightarrow> nat" where
  "splice_amount rx tx len =
     (let n = min (ring_free rx) (unat (tx_len tx)) in if len < 0 then n else min (nat len) n)"

lemma splice_request:
  assumes rx: "ring_wf rx" and tx: "ring_wf tx" and len: "len < 2 ^ 63"
  defines "a \<equiv> vk_vectoring_vector_rx_len rx" and "b \<equiv> vk_vectoring_vector_tx_len tx"
  shows "unat (if len \<ge> 0 \<and> of_int len < (if a < b then a else b) then of_int len
      else if a < b then a else b) = splice_amount rx tx len"
proof -
  have ab: "unat (if a < b then a else b) = min (ring_free rx) (unat (tx_len tx))"
    unfolding a_def b_def by (auto simp: word_less_nat_alt vec_len_rx [OF rx] vec_len_tx [OF tx])
  have "unat (of_int len :: size_t) = nat len" if "0 \<le> len"
    using that len of_int_length [of "nat len"] by (simp add: nat_less_iff)
  with ab show ?thesis
    by (auto simp: splice_amount_def Let_def word_less_nat_alt split: if_split_asm)
qed

lemma mark_effect:
  "vec_effect (vk_vectoring_mark_sent r n) \<longleftrightarrow> vec_effect r \<or> n \<noteq> 0"
  "vec_effect (vk_vectoring_mark_received r n) \<longleftrightarrow> vec_effect r \<or> n \<noteq> 0"
  by (auto simp: vk_vectoring_mark_sent_def vk_vectoring_mark_received_def Let_def)

lemma splice_queue:
  assumes rx: "ring_wf rx" "0 \<le> vec_error rx" and tx: "ring_wf tx" "0 \<le> vec_error tx"
    and sep: "no_overlap (buf_start rx) (unat (buf_len rx)) (buf_start tx) (unat (buf_len tx))"
    and len: "len < 2 ^ 63"
    and res: "vk_vectoring_recv_splice lit e m rx tx len = (rc, e', m', rx', tx')"
  shows "rc = int (splice_amount rx tx len) \<and> e' = e \<and>
    ring_data m' rx' = ring_data m rx @ take (nat rc) (ring_data m tx) \<and>
    ring_data m' tx' = drop (nat rc) (ring_data m tx) \<and> ring_wf rx' \<and> ring_wf tx' \<and>
    vec_error rx' = vec_error rx \<and> vec_error tx' = vec_error tx \<and>
    vec_eof rx' = vec_eof rx \<and> vec_eof tx' = vec_eof tx \<and>
    (\<forall>x. x \<notin> set (rx_addrs rx) \<longrightarrow> m' x = m x) \<and>
    (0 < rc \<longrightarrow> vec_effect rx' \<and> vec_effect tx')"
proof -
  let ?n = "splice_amount rx tx len"
  define k :: size_t where "k =
    (let a = vk_vectoring_vector_rx_len rx; b = vk_vectoring_vector_tx_len tx; c = if a < b then a else b
     in if len \<ge> 0 \<and> of_int len < c then of_int len else c)"
  have k: "unat k = ?n" unfolding k_def Let_def by (rule splice_request [OF rx(1) tx(1) len])
  have le: "?n \<le> ring_free rx" "?n \<le> unat (tx_len tx)"
    by (auto simp: splice_amount_def Let_def)
  obtain l0 l1 where req: "vk_vectoring_request (vector_rx rx) k = (l0, l1)" by force
  note u = request_unat [OF vec_ok_rx [OF rx(1)] req]
  have l: "unat l0 + unat l1 = ?n" "unat (l0 + l1) = ?n" using u(3,4) k le by simp_all
  let ?tx1 = "vk_vectoring_mark_sent tx l0" and ?tx2 = "vk_vectoring_mark_sent (vk_vectoring_mark_sent tx l0) l1"
  let ?rx' = "vk_vectoring_mark_received rx (l0 + l1)"
  let ?m' = "scatter m (take ?n (rx_addrs rx)) (map m (take ?n (tx_addrs tx)))"
  have s1: "unat l0 \<le> unat (tx_len tx)" using l le by simp
  note one = mark_sent_ok [OF tx(1) s1]
  have s2: "unat l1 \<le> unat (tx_len ?tx1)" using l le one(5) by simp
  note two = mark_sent_ok [OF one(1) s2]
  have r1: "unat (l0 + l1) \<le> ring_free rx" using l le by simp
  note rec = mark_received_ok [OF rx(1) r1]
  obtain m1 where
    "splice_step e m tx lit (fst (vector_rx rx)) l0 = (True, e, m1, ?tx1)"
    "splice_step e m1 ?tx1 lit (snd (vector_rx rx)) l1 = (True, e, ?m', ?tx2)"
    using splice_copies [OF rx(1) tx sep req, of e m lit] le k by auto
  then have "vk_vectoring_recv_splice lit e m rx tx len =
      (let (rc, rx') = vk_size_return ?rx' (l0 + l1) in (rc, e, ?m', rx', ?tx2))"
    using req unfolding vk_vectoring_recv_splice_def by (simp add: k_def Let_def)
  moreover have "vk_size_return ?rx' (l0 + l1) = (int ?n, ?rx')"
    using rec(6) rx(2) l(2) le(1) ring_free_small [OF rx(1)] by (simp add: size_return_ok sint_small)
  ultimately have res': "rc = int ?n" "e' = e" "m' = ?m'" "rx' = ?rx'" "tx' = ?tx2"
    using res by simp_all
  have "ring_data ?m' ?rx' = ring_data m rx @ take ?n (ring_data m tx)"
    using mark_received_data [OF rx(1) r1, of "map m (take ?n (tx_addrs tx))" m] l(2) le(2)
    by (simp add: ring_data_def take_map)
  moreover have "ring_data ?m' ?tx2 = drop ?n (ring_data m tx)"
  proof -
    have "set (drop ?n (tx_addrs tx)) \<inter> set (take ?n (rx_addrs rx)) = {}"
      using ring_addrs_subset(1) [OF tx(1)] ring_addrs_subset(2) [OF rx(1)] sep
      by (auto simp: no_overlap_def dest!: in_set_takeD in_set_dropD)
    moreover have "tx_addrs ?tx2 = drop ?n (tx_addrs tx)"
      using l(1) by (simp add: two(2) one(2) add.commute)
    ultimately show ?thesis by (simp add: ring_data_def map_scatter_outside drop_map del: map_eq_conv)
  qed
  moreover have "\<forall>x. x \<notin> set (rx_addrs rx) \<longrightarrow> ?m' x = m x"
    by (auto intro!: scatter_outside dest: in_set_takeD)
  moreover have "vec_effect ?rx' \<and> vec_effect ?tx2" if "0 < ?n"
  proof -
    have "l0 + l1 \<noteq> 0" "l0 \<noteq> 0 \<or> l1 \<noteq> 0" using that l by auto
    then show ?thesis by (auto simp: mark_effect)
  qed
  ultimately show ?thesis using rec two one by (simp add: res')
qed

text \<open>C34: Splicing moves bytes between two rings without loss: as many as asked, available and
  fitting, the oldest bytes of the giver, appended in order to the receiver; both rings
  stay well-formed. The blocked marks compare that amount with what is left after the
  transfer (not with what was asked for).\<close>

theorem vectoring_splice_moves_prefix:
  assumes "ring_wf rx" "0 \<le> vec_error rx" "ring_wf tx" "0 \<le> vec_error tx" "len < 2 ^ 63"
    "no_overlap (buf_start rx) (unat (buf_len rx)) (buf_start tx) (unat (buf_len tx))"
    "vk_vectoring_splice lit e m rx tx len = (rc, e', m', rx', tx')"
  shows "nat rc = splice_amount rx tx len \<and>
    ring_data m' rx' = ring_data m rx @ take (nat rc) (ring_data m tx) \<and>
    ring_data m' tx' = drop (nat rc) (ring_data m tx) \<and> ring_wf rx' \<and> ring_wf tx' \<and>
    (rx_blocked rx' \<longleftrightarrow> nat rc < ring_free rx') \<and>
    (tx_blocked tx' \<longleftrightarrow> nat rc < length (ring_data m' tx'))"
proof -
  obtain rc0 e0 m0 rx0 tx0 where
    eq: "vk_vectoring_recv_splice lit e m rx tx len = (rc0, e0, m0, rx0, tx0)" by (metis prod.exhaust)
  note q = splice_queue [OF assms(1-4,6,5) eq]
  have rc: "rc0 = int (splice_amount rx tx len)" using q by blast
  have "splice_amount rx tx len \<le> ring_free rx" by (auto simp: splice_amount_def Let_def)
  then have "splice_amount rx tx len < 2 ^ 63" using ring_free_small [OF assms(1)] by linarith
  then have n: "unat (of_int rc0 :: size_t) = nat rc0" by (simp only: rc nat_int of_int_length)
  have res: "rc = rc0" "m' = m0"
    "rx' = rx0\<lparr>rx_blocked := of_int rc0 < vk_vectoring_vector_rx_len rx0\<rparr>"
    "tx' = tx0\<lparr>tx_blocked := of_int rc0 < vk_vectoring_vector_tx_len tx0\<rparr>"
    using assms(7) by (auto simp: vk_vectoring_splice_def eq)
  have wf: "ring_wf rx0" "ring_wf tx0" using q by blast+
  have "of_int rc0 < vk_vectoring_vector_rx_len rx0 \<longleftrightarrow> nat rc0 < ring_free rx0"
    "of_int rc0 < vk_vectoring_vector_tx_len tx0 \<longleftrightarrow> nat rc0 < unat (tx_len tx0)"
    by (simp_all only: word_less_nat_alt n vec_len_rx [OF wf(1)] vec_len_tx [OF wf(2)])
  moreover have "unat (tx_len tx0) = length (ring_data m' tx')" by (simp add: res)
  ultimately show ?thesis using q by (simp add: res rc del: length_ring_data)
qed

text \<open>An empty ring of four bytes at address 500, beside \<open>wrapped_ring\<close>.\<close>

definition empty_ring :: vk_vectoring where
  "empty_ring = vk_vectoring_init wrapped_ring 500 4"

lemma init_ring_wf:
  assumes "0 < unat len" "unat len < 2 ^ 63"
  shows "ring_wf (vk_vectoring_init r start len)"
proof -
  have "ring_wf (vk_vectoring_sync (r\<lparr>buf_start := start, buf_len := len, tx_cursor := 0, tx_len := 0\<rparr>))"
    using assms by (intro ring_wf_sync) simp_all
  then show ?thesis by (simp add: vk_vectoring_init_def)
qed

lemma init_ring_data [simp]: "ring_data m (vk_vectoring_init r start len) = []"
  by (simp add: ring_data_def tx_addrs_def vk_vectoring_init_def)

lemma empty_ring_wf: "ring_wf empty_ring" "vec_error empty_ring = 0" "ring_data m empty_ring = []"
  "buf_start empty_ring = 500" "unat (buf_len empty_ring) = 4" "ring_free empty_ring = 4"
  by (simp_all add: empty_ring_def init_ring_wf del: ring_data_flags)
    (simp_all add: vk_vectoring_init_def ring_free_def)

theorem vectoring_splice_moves_prefix_witness:
  "case vk_vectoring_splice 0 0 (\<lambda>x. ucast x) empty_ring wrapped_ring (- 1) of
     (rc, e', m', rx', tx') \<Rightarrow> ring_data m' rx' = [102, 103, 100] \<and> ring_data m' tx' = [] \<and> \<not> tx_blocked tx'"
proof -
  obtain rc e' m' rx' tx' where
    eq: "vk_vectoring_splice 0 0 (\<lambda>x. ucast x) empty_ring wrapped_ring (- 1) = (rc, e', m', rx', tx')"
    by (metis prod.exhaust)
  note w = wrapped_ring_wf empty_ring_wf
  have sep: "no_overlap (buf_start empty_ring) (unat (buf_len empty_ring)) (buf_start wrapped_ring)
      (unat (buf_len wrapped_ring))"
    by (simp add: w no_overlap_def range_addrs_def upt_rec)
  have len: "unat (tx_len wrapped_ring) = 3" by (simp add: wrapped_ring_def)
  have amount: "splice_amount empty_ring wrapped_ring (- 1) = 3"
    by (simp add: splice_amount_def w len)
  have "ring_wf rx'" "nat rc = 3" "ring_data m' rx' = [102, 103, 100]" "ring_data m' tx' = []"
    "tx_blocked tx' \<longleftrightarrow> nat rc < length (ring_data m' tx')"
    using vectoring_splice_moves_prefix [OF empty_ring_wf(1) _ wrapped_ring_wf(1) _ _ sep eq]
    by (simp_all add: w amount del: length_ring_data)
  then show ?thesis by (simp add: eq del: length_ring_data)
qed

text \<open>The EOF handshake: a hangup on a ring without EOF succeeds and leaves it pending, forwarding
  moves it to the other ring, and the reader consumes it exactly once; a second hangup
  before that, and a second consumption, fail with EINVAL. Each step that changes a ring
  triggers its effect, so the coroutine that waits on it is woken.\<close>

theorem vectoring_eof_handshake:
  assumes "\<not> vec_eof w" "\<not> vec_eof d"
  shows "let w1 = snd (snd (vk_vectoring_hup e w)); f = vk_vectoring_forwardhup w1 d;
      h = vk_vectoring_readhup e (snd (snd f)) in
    fst (vk_vectoring_hup e w) = 1 \<and> vec_eof w1 \<and> vec_effect w1 \<and>
    vk_vectoring_hup e w1 = (- 1, EINVAL, w1) \<and>
    fst f = 1 \<and> \<not> vec_eof (fst (snd f)) \<and> vec_effect (fst (snd f)) \<and>
    vec_eof (snd (snd f)) \<and> vec_effect (snd (snd f)) \<and>
    fst h = 1 \<and> \<not> vec_eof (snd (snd h)) \<and>
    vk_vectoring_readhup e (snd (snd h)) = (- 1, EINVAL, snd (snd h)) \<and>
    fst (vk_vectoring_forwardhup (fst (snd f)) d) = 0"
  using assms(1,2)
  by (simp add: vk_vectoring_hup_def vk_vectoring_forwardhup_def
      vk_vectoring_readhup_def vk_vectoring_mark_eof_def vk_vectoring_clear_eof_def)

theorem vectoring_eof_handshake_witness:
  "fst (vk_vectoring_hup 0 wrapped_ring) = 1 \<and>
   vec_eof (snd (snd (vk_vectoring_hup 0 wrapped_ring)))"
proof -
  have "\<not> vec_eof empty_ring" by (simp add: empty_ring_def vk_vectoring_init_def)
  from vectoring_eof_handshake [OF wrapped_ring_wf(5) this, of 0] show ?thesis by (simp add: Let_def)
qed

end
