(* ===== verification/Ring_Inv.thy ===== *)
theory Ring_Inv
  imports Vectoring_IO
begin

text \<open>
  Every operation of src/vk_vectoring.c keeps a ring well-formed, whatever the system
  calls answer and wherever the user's buffer lies: the invariant that the socket and
  process theories carry through their handlers.
\<close>

lemma size_return_wf: "vk_size_return r sz = (rc, r') \<Longrightarrow> ring_wf r' = ring_wf r"
  by (auto simp: vk_size_return_def split: if_splits)

lemma mark_received_wf:
  assumes "ring_wf r"
  shows "ring_wf (vk_vectoring_mark_received r n)"
proof (cases "unat n \<le> ring_free r")
  case True
  with assms show ?thesis by (rule mark_received_ok(1))
next
  case False
  then have "vk_vectoring_rx_len r < n"
    using rx_len_unat [OF ring_wfD(4) [OF assms]] by (simp add: word_less_nat_alt)
  with assms show ?thesis by (auto simp: vk_vectoring_mark_received_def)
qed

lemma mark_sent_wf:
  assumes "ring_wf r"
  shows "ring_wf (vk_vectoring_mark_sent r n)"
proof (cases "unat n \<le> unat (tx_len r)")
  case True
  with assms show ?thesis by (rule mark_sent_ok(1))
next
  case False
  with assms show ?thesis
    by (auto simp: vk_vectoring_mark_sent_def vk_vectoring_tx_len_def word_le_nat_alt)
qed

lemma signed_received_wf:
  "ring_wf r \<Longrightarrow> vk_vectoring_signed_received e r n = (rc, e', r') \<Longrightarrow> ring_wf r'"
  by (auto simp: vk_vectoring_signed_received_def mark_received_wf split: if_splits)

lemma signed_sent_wf: "ring_wf r \<Longrightarrow> vk_vectoring_signed_sent e r n = (rc, e', r') \<Longrightarrow> ring_wf r'"
  by (auto simp: vk_vectoring_signed_sent_def mark_sent_wf split: if_splits)

lemma recv_wf: "ring_wf r \<Longrightarrow> vk_vectoring_recv e m r buf len = (rc, e', m', r') \<Longrightarrow> ring_wf r'"
  by (auto simp: vk_vectoring_recv_def Let_def mark_sent_wf dest: size_return_wf
      split: prod.splits sum.splits)

lemma send_wf: "ring_wf r \<Longrightarrow> vk_vectoring_send e m r buf len = (rc, e', m', r') \<Longrightarrow> ring_wf r'"
  by (auto simp: vk_vectoring_send_def Let_def mark_received_wf dest: size_return_wf
      split: prod.splits sum.splits if_splits)

lemma read_wf: "ring_wf r \<Longrightarrow> vk_vectoring_read e m r out = (rc, e', m', r') \<Longrightarrow> ring_wf r'"
  unfolding vk_vectoring_read_def Let_def
  by (auto split: prod.splits if_splits elim!: signed_received_wf [rotated])

lemma write_wf: "ring_wf r \<Longrightarrow> vk_vectoring_write e m r out = (rc, e', r', wire) \<Longrightarrow> ring_wf r'"
  unfolding vk_vectoring_write_def Let_def
  by (auto split: prod.splits if_splits elim!: signed_sent_wf [rotated])

lemma accept_wf: "ring_wf r \<Longrightarrow> vk_vectoring_accept asz acc e m r out = (rc, e', m', r') \<Longrightarrow> ring_wf r'"
  unfolding vk_vectoring_accept_def Let_def
  by (auto split: prod.splits sum.splits if_splits elim!: signed_received_wf [rotated] send_wf [rotated])

lemma close_wf: "ring_wf r \<Longrightarrow> vk_vectoring_close r c1 c2 = (rc, e', r') \<Longrightarrow> ring_wf r'"
  unfolding vk_vectoring_close_def Let_def
  by (auto split: prod.splits if_splits elim!: signed_sent_wf [rotated])

lemma rx_shutdown_wf: "ring_wf r \<Longrightarrow> vk_vectoring_rx_shutdown r c1 c2 = (rc, e', r') \<Longrightarrow> ring_wf r'"
  unfolding vk_vectoring_rx_shutdown_def Let_def
  by (auto split: prod.splits if_splits elim!: signed_sent_wf [rotated])

lemma tx_shutdown_wf: "ring_wf r \<Longrightarrow> vk_vectoring_tx_shutdown r c1 c2 = (rc, e', r') \<Longrightarrow> ring_wf r'"
  unfolding vk_vectoring_tx_shutdown_def Let_def
  by (auto split: prod.splits if_splits elim!: signed_sent_wf [rotated])

lemma splice_step_wf: "ring_wf tx \<Longrightarrow> splice_step e m tx lit v n = (ok, e', m', tx') \<Longrightarrow> ring_wf tx'"
  by (auto simp: splice_step_def Let_def split: prod.splits if_splits elim!: recv_wf [rotated])

lemma recv_splice_wf:
  assumes "ring_wf rx" "ring_wf tx"
    "vk_vectoring_recv_splice lit e m rx tx len = (rc, e', m', rx', tx')"
  shows "ring_wf rx' \<and> ring_wf tx'"
  using assms unfolding vk_vectoring_recv_splice_def Let_def
  by (auto split: prod.splits if_splits simp del: split_paired_All
      dest!: splice_step_wf [rotated] size_return_wf simp: mark_received_wf)

lemma splice_wf:
  assumes "ring_wf rx" "ring_wf tx" "vk_vectoring_splice lit e m rx tx len = (rc, e', m', rx', tx')"
  shows "ring_wf rx' \<and> ring_wf tx'"
  using assms by (auto simp: vk_vectoring_splice_def split: prod.splits dest!: recv_splice_wf [rotated 2])

lemma hup_flags_wf [simp]:
  "ring_wf (vk_vectoring_clear_eof r) = ring_wf r"
  "ring_wf (snd (vk_vectoring_mark_eof r)) = ring_wf r"
  "ring_wf (snd (vk_vectoring_mark_closed r)) = ring_wf r"
  "ring_wf (snd (vk_vectoring_handle_effect r)) = ring_wf r"
  by (simp_all add: vk_vectoring_clear_eof_def vk_vectoring_mark_eof_def vk_vectoring_mark_closed_def
      vk_vectoring_handle_effect_def)

lemma forwardhup_wf:
  "ring_wf tx \<Longrightarrow> ring_wf rx \<Longrightarrow> vk_vectoring_forwardhup tx rx = (rc, tx', rx') \<Longrightarrow>
    ring_wf tx' \<and> ring_wf rx'"
  by (auto simp: vk_vectoring_forwardhup_def split: if_splits)

end
