(* ===== verification/VK_State.thy ===== *)
theory VK_State
  imports Stack Slist Ring_Inv
begin

text \<open>
  The objects of one process (src/vk_thread_s.h, vk_socket_s.h, vk_pipe_s.h,
  vk_io_future_s.h, vk_proc_local_s.h) and the heap they live in. Pointers are
  addresses, \<open>0\<close> is \<open>NULL\<close>; a \<open>vk_world\<close> holds the objects of one process by
  address, the byte memory and \<open>errno\<close>. An operation that would dereference
  \<open>NULL\<close> or corrupt a list has the result \<open>None\<close>.
\<close>

subsection \<open>Enumerations\<close>

datatype VK_PROC_STAT =
  VK_PROC_RUN | VK_PROC_YIELD | VK_PROC_LISTEN | VK_PROC_WAIT | VK_PROC_ERR | VK_PROC_END

datatype vk_op_type =
  VK_OP_NONE | VK_OP_READ | VK_OP_WRITE | VK_OP_FORWARD | VK_OP_FLUSH | VK_OP_HUP | VK_OP_READHUP
| VK_OP_TX_CLOSE | VK_OP_RX_CLOSE | VK_OP_RX_SHUTDOWN | VK_OP_TX_SHUTDOWN | VK_OP_READABLE
| VK_OP_WRITABLE

datatype vk_fd_type =
  VK_FD_TYPE_UNKNOWN | VK_FD_TYPE_PIPE | VK_FD_TYPE_SOCKET_STREAM | VK_FD_TYPE_SOCKET_DATAGRAM
| VK_FD_TYPE_SOCKET_LISTEN | VK_FD_TYPE_FILE | VK_FD_TYPE_FILE_HEAP | VK_FD_TYPE_KQUEUE
| VK_FD_TYPE_EPOLL | VK_FD_TYPE_INOTIFY | VK_FD_TYPE_EVENT | VK_FD_TYPE_TIMER | VK_FD_TYPE_SIGNAL

subsection \<open>Pipes\<close>

text \<open>The tag and the union of \<open>struct vk_pipe\<close> are one tagged value: every initialiser sets
  both, and no caller of the sources changes the tag alone.\<close>

datatype vk_pipe_ref = VK_PIPE_OS_FD int | VK_PIPE_VK_RX addr | VK_PIPE_VK_TX addr

record vk_pipe =
  pipe_ref :: vk_pipe_ref
  pipe_fd_type :: vk_fd_type
  pipe_closed :: bool

definition vk_pipe_init_fd :: "vk_pipe \<Rightarrow> int \<Rightarrow> vk_fd_type \<Rightarrow> vk_pipe" where
  "vk_pipe_init_fd p fd ty = p\<lparr>pipe_ref := VK_PIPE_OS_FD fd, pipe_fd_type := ty, pipe_closed := False\<rparr>"

definition vk_pipe_init_rx :: "vk_pipe \<Rightarrow> addr \<Rightarrow> vk_pipe" where
  "vk_pipe_init_rx p s = p\<lparr>pipe_ref := VK_PIPE_VK_RX s, pipe_closed := False\<rparr>"

definition vk_pipe_init_tx :: "vk_pipe \<Rightarrow> addr \<Rightarrow> vk_pipe" where
  "vk_pipe_init_tx p s = p\<lparr>pipe_ref := VK_PIPE_VK_TX s, pipe_closed := False\<rparr>"

definition vk_pipe_get_fd :: "vk_pipe \<Rightarrow> int" where
  "vk_pipe_get_fd p = (case pipe_ref p of VK_PIPE_OS_FD fd \<Rightarrow> fd | _ \<Rightarrow> - 1)"

text \<open>The socket whose ring the getters return; \<open>0\<close> for \<open>NULL\<close>.\<close>

definition vk_pipe_get_rx :: "vk_pipe \<Rightarrow> addr" where
  "vk_pipe_get_rx p = (case pipe_ref p of VK_PIPE_VK_RX s \<Rightarrow> s | _ \<Rightarrow> 0)"

definition vk_pipe_get_tx :: "vk_pipe \<Rightarrow> addr" where
  "vk_pipe_get_tx p = (case pipe_ref p of VK_PIPE_VK_TX s \<Rightarrow> s | _ \<Rightarrow> 0)"

definition vk_pipe_get_socket :: "vk_pipe \<Rightarrow> addr" where
  "vk_pipe_get_socket p =
     (case pipe_ref p of VK_PIPE_VK_RX s \<Rightarrow> s | VK_PIPE_VK_TX s \<Rightarrow> s | VK_PIPE_OS_FD _ \<Rightarrow> 0)"

subsection \<open>Poll events and IO futures\<close>

type_synonym events = "16 word"

definition POLLIN :: events where "POLLIN = 0x1"
definition POLLOUT :: events where "POLLOUT = 0x4"
definition POLLERR :: events where "POLLERR = 0x8"
definition POLLHUP :: events where "POLLHUP = 0x10"
definition POLLRDHUP :: events where "POLLRDHUP = 0x2000"

lemmas poll_defs = POLLIN_def POLLOUT_def POLLERR_def POLLHUP_def POLLRDHUP_def

record pollfd =
  ev_fd :: int
  ev_events :: events
  ev_revents :: events

record vk_io_future =
  ioft_socket :: addr
  ioft_event :: pollfd
  ioft_readable :: size_t
  ioft_writable :: size_t
  ioft_rx_closed :: bool
  ioft_tx_closed :: bool

definition vk_io_future_init :: "addr \<Rightarrow> vk_io_future" where
  "vk_io_future_init s =
     \<lparr>ioft_socket = s, ioft_event = \<lparr>ev_fd = - 1, ev_events = 0, ev_revents = 0\<rparr>,
      ioft_readable = 0, ioft_writable = 0, ioft_rx_closed = False, ioft_tx_closed = False\<rparr>"

subsection \<open>Sockets, threads, the process\<close>

record vk_block =
  blk_op :: vk_op_type
  blk_buf :: addr
  blk_len :: size_t
  blk_copied :: size_t
  blk_rc :: int
  ioft_rx_pre :: vk_io_future
  ioft_tx_pre :: vk_io_future
  ioft_rx_ret :: vk_io_future
  ioft_tx_ret :: vk_io_future
  blocked_vk :: addr

record vk_socket =
  so_rx :: vk_vectoring
  so_tx :: vk_vectoring
  so_block :: vk_block
  so_rx_fd :: vk_pipe
  so_tx_fd :: vk_pipe
  so_error :: errno
  blocked_enq :: bool

text \<open>\<open>th_func\<close> identifies the coroutine's function; \<open>ft_q\<close> is the queue of futures.\<close>

record vk_thread =
  th_func :: nat
  th_line :: size_t
  th_counter :: int
  th_status :: VK_PROC_STAT
  th_error :: errno
  th_error_counter :: int
  th_error_line :: size_t
  th_self :: addr
  th_socket :: addr
  th_waiting_socket :: addr
  ft_q :: "addr list"
  th_rx_fd :: vk_pipe
  th_tx_fd :: vk_pipe
  run_enq :: bool

record vk_proc_local =
  pl_proc_id :: size_t
  pl_run :: bool
  pl_blocked :: bool
  run_q :: "addr list"
  blocked_q :: "addr list"
  running_cr :: addr
  supervisor_cr :: addr
  si_signo :: int
  pl_stack :: vk_stack

record vk_world =
  w_local :: vk_proc_local
  w_thread :: "addr \<Rightarrow> vk_thread"
  w_socket :: "addr \<Rightarrow> vk_socket"
  w_mem :: mem
  w_errno :: errno

definition upd_socket :: "addr \<Rightarrow> (vk_socket \<Rightarrow> vk_socket) \<Rightarrow> vk_world \<Rightarrow> vk_world" where
  "upd_socket s f w = w\<lparr>w_socket := (w_socket w)(s := f (w_socket w s))\<rparr>"

definition upd_thread :: "addr \<Rightarrow> (vk_thread \<Rightarrow> vk_thread) \<Rightarrow> vk_world \<Rightarrow> vk_world" where
  "upd_thread t f w = w\<lparr>w_thread := (w_thread w)(t := f (w_thread w t))\<rparr>"

definition upd_local :: "(vk_proc_local \<Rightarrow> vk_proc_local) \<Rightarrow> vk_world \<Rightarrow> vk_world" where
  "upd_local f w = w\<lparr>w_local := f (w_local w)\<rparr>"

definition upd_block :: "addr \<Rightarrow> (vk_block \<Rightarrow> vk_block) \<Rightarrow> vk_world \<Rightarrow> vk_world" where
  "upd_block s f = upd_socket s (so_block_update f)"

lemma upd_socket_sel [simp]:
  "w_socket (upd_socket s f w) = (w_socket w)(s := f (w_socket w s))"
  "w_thread (upd_socket s f w) = w_thread w" "w_local (upd_socket s f w) = w_local w"
  "w_mem (upd_socket s f w) = w_mem w" "w_errno (upd_socket s f w) = w_errno w"
  by (simp_all add: upd_socket_def)

lemma upd_thread_sel [simp]:
  "w_thread (upd_thread t g w) = (w_thread w)(t := g (w_thread w t))"
  "w_socket (upd_thread t g w) = w_socket w" "w_local (upd_thread t g w) = w_local w"
  "w_mem (upd_thread t g w) = w_mem w" "w_errno (upd_thread t g w) = w_errno w"
  by (simp_all add: upd_thread_def)

lemma upd_local_sel [simp]:
  "w_local (upd_local h w) = h (w_local w)" "w_thread (upd_local h w) = w_thread w"
  "w_socket (upd_local h w) = w_socket w" "w_mem (upd_local h w) = w_mem w"
  "w_errno (upd_local h w) = w_errno w"
  by (simp_all add: upd_local_def)

end
