(* ===== verification/Proc_Local.thy ===== *)
theory Proc_Local
  imports VK_State
begin

text \<open>
  Scheduling inside a process (src/vk_proc_local.c, src/vk_thread.c): the status of a
  coroutine, the run queue of coroutines and the queue of blocked sockets with their
  membership flags, and the raising of signals. Both queues are interpretations of
  \<open>marked_queue\<close>, the mark being the field by which the kernel learns of them.
\<close>

subsection \<open>Coroutine status\<close>

definition vk_is_completed :: "vk_thread \<Rightarrow> bool" where
  "vk_is_completed th \<longleftrightarrow> th_status th = VK_PROC_END"

definition vk_is_ready :: "vk_thread \<Rightarrow> bool" where
  "vk_is_ready th \<longleftrightarrow> th_status th = VK_PROC_RUN \<or> th_status th = VK_PROC_ERR"

definition vk_is_yielding :: "vk_thread \<Rightarrow> bool" where
  "vk_is_yielding th \<longleftrightarrow> th_status th = VK_PROC_YIELD"

definition vk_ready :: "vk_thread \<Rightarrow> vk_thread" where
  "vk_ready th =
     (if th_status th = VK_PROC_END then th
      else if th_status th = VK_PROC_ERR then th
      else th\<lparr>th_status := VK_PROC_RUN\<rparr>)"

definition vk_lower_error_ctx :: "vk_thread \<Rightarrow> vk_thread" where
  "vk_lower_error_ctx th =
     th\<lparr>th_error := 0, th_counter := th_error_counter th, th_line := th_error_line th\<rparr>"

subsection \<open>Queues\<close>

definition vk_proc_local_init :: "vk_proc_local \<Rightarrow> vk_proc_local" where
  "vk_proc_local_init l = l\<lparr>pl_run := False, pl_blocked := False, run_q := [], blocked_q := []\<rparr>"

definition vk_proc_local_is_zombie :: "vk_proc_local \<Rightarrow> bool" where
  "vk_proc_local_is_zombie l \<longleftrightarrow> run_q l = [] \<and> blocked_q l = []"

definition vk_proc_local_enqueue_run :: "addr \<Rightarrow> vk_world \<Rightarrow> vk_world" where
  "vk_proc_local_enqueue_run t w =
     (let w1 = upd_thread t vk_ready w
      in if vk_is_ready (w_thread w1 t) \<and> \<not> run_enq (w_thread w1 t)
         then upd_thread t (run_enq_update (\<lambda>_. True))
                (upd_local (\<lambda>l. l\<lparr>pl_run := pl_run l \<or> run_q l = [], run_q := t # run_q l\<rparr>) w1)
         else w1)"

definition vk_proc_local_enqueue_blocked :: "addr \<Rightarrow> vk_world \<Rightarrow> vk_world" where
  "vk_proc_local_enqueue_blocked s w =
     (if \<not> blocked_enq (w_socket w s)
      then upd_socket s (blocked_enq_update (\<lambda>_. True))
             (upd_local (\<lambda>l. l\<lparr>pl_blocked := pl_blocked l \<or> blocked_q l = [],
                               blocked_q := s # blocked_q l\<rparr>) w)
      else w)"

definition vk_proc_local_drop_run :: "addr \<Rightarrow> vk_world \<Rightarrow> vk_world option" where
  "vk_proc_local_drop_run t w =
     (case (if run_enq (w_thread w t)
            then (case q_remove t (run_q (w_local w)) of
                    None \<Rightarrow> None
                  | Some q \<Rightarrow> Some (upd_thread t (run_enq_update (\<lambda>_. False))
                                      (upd_local (run_q_update (\<lambda>_. q)) w)))
            else Some w) of
        None \<Rightarrow> None
      | Some w' \<Rightarrow>
          Some (if run_q (w_local w') = [] then upd_local (pl_run_update (\<lambda>_. False)) w' else w'))"

definition vk_proc_local_drop_blocked :: "addr \<Rightarrow> vk_world \<Rightarrow> vk_world option" where
  "vk_proc_local_drop_blocked s w =
     (case (if blocked_enq (w_socket w s)
            then (case q_remove s (blocked_q (w_local w)) of
                    None \<Rightarrow> None
                  | Some q \<Rightarrow> Some (upd_socket s (blocked_enq_update (\<lambda>_. False))
                                      (upd_local (blocked_q_update (\<lambda>_. q)) w)))
            else Some w) of
        None \<Rightarrow> None
      | Some w' \<Rightarrow>
          Some (if blocked_q (w_local w') = [] then upd_local (pl_blocked_update (\<lambda>_. False)) w'
                else w'))"

text \<open>\<open>SLIST_FOREACH_SAFE\<close> fixes the successor before the body runs.\<close>

fun drop_blocked_loop :: "addr \<Rightarrow> addr list \<Rightarrow> vk_world \<Rightarrow> vk_world option" where
  "drop_blocked_loop t [] w = Some w"
| "drop_blocked_loop t (s # ss) w =
     (if blocked_vk (so_block (w_socket w s)) = t
      then (case vk_proc_local_drop_blocked s w of
              None \<Rightarrow> None | Some w' \<Rightarrow> drop_blocked_loop t ss w')
      else drop_blocked_loop t ss w)"

definition vk_proc_local_drop_blocked_for :: "addr \<Rightarrow> vk_world \<Rightarrow> vk_world option" where
  "vk_proc_local_drop_blocked_for t w = drop_blocked_loop t (blocked_q (w_local w)) w"

definition vk_proc_local_dequeue_run :: "vk_world \<Rightarrow> (addr \<times> vk_world) option" where
  "vk_proc_local_dequeue_run w =
     (case run_q (w_local w) of
        [] \<Rightarrow> None
      | t # q \<Rightarrow>
          (let w1 = upd_thread t (run_enq_update (\<lambda>_. False)) (upd_local (run_q_update (\<lambda>_. q)) w)
           in Some (t, if q = [] then upd_local (pl_run_update (\<lambda>_. False)) w1 else w1)))"

definition vk_proc_local_dequeue_blocked :: "vk_world \<Rightarrow> (addr \<times> vk_world) option" where
  "vk_proc_local_dequeue_blocked w =
     (case blocked_q (w_local w) of
        [] \<Rightarrow> None
      | s # q \<Rightarrow>
          (let w1 = upd_socket s (blocked_enq_update (\<lambda>_. False))
                      (upd_local (blocked_q_update (\<lambda>_. q)) w)
           in Some (s, if q = [] then upd_local (pl_blocked_update (\<lambda>_. False)) w1 else w1)))"

subsection \<open>Signals\<close>

text \<open>\<open>line\<close> and \<open>counter\<close> are the \<open>__LINE__\<close> and \<open>__COUNTER__ + 1\<close> of the
  place where the macro is expanded.\<close>

definition vk_raise_at :: "size_t \<Rightarrow> int \<Rightarrow> addr \<Rightarrow> errno \<Rightarrow> vk_world \<Rightarrow> vk_world" where
  "vk_raise_at line counter t e w =
     upd_thread t (th_status_update (\<lambda>_. VK_PROC_ERR))
       (vk_proc_local_enqueue_run t
          (upd_thread t (\<lambda>th. th\<lparr>th_error := e, th_error_line := line, th_error_counter := counter\<rparr>) w))"

definition vk_proc_local_raise_signal :: "size_t \<Rightarrow> int \<Rightarrow> vk_world \<Rightarrow> bool \<times> vk_world" where
  "vk_proc_local_raise_signal line counter w =
     (if running_cr (w_local w) \<noteq> 0
      then (let that = (if supervisor_cr (w_local w) \<noteq> 0 then supervisor_cr (w_local w)
                        else running_cr (w_local w))
            in (True, vk_raise_at line counter that EFAULT (vk_proc_local_enqueue_run that w)))
      else (False, w))"

subsection \<open>The queues keep their contract\<close>

lemma vk_ready_simps [simp]:
  "run_enq (vk_ready th) = run_enq th"
  "th_status (vk_ready th) = VK_PROC_END \<longleftrightarrow> th_status th = VK_PROC_END"
  "vk_is_ready (vk_ready th) \<longleftrightarrow> th_status th \<noteq> VK_PROC_END"
  by (auto simp: vk_ready_def vk_is_ready_def)

interpretation run: marked_queue "\<lambda>w. run_q (w_local w)" "\<lambda>w t. run_enq (w_thread w t)"
    "\<lambda>w t. th_status (w_thread w t) \<noteq> VK_PROC_END" "\<lambda>w t. vk_proc_local_enqueue_run t w"
    "\<lambda>w t. vk_proc_local_drop_run t w" vk_proc_local_dequeue_run "\<lambda>w. pl_run (w_local w)"
  by unfold_locales
    (auto simp: vk_proc_local_enqueue_run_def vk_proc_local_drop_run_def q_remove_def fun_eq_iff
      vk_proc_local_dequeue_run_def Let_def split: if_splits list.splits)

interpretation blk: marked_queue "\<lambda>w. blocked_q (w_local w)" "\<lambda>w s. blocked_enq (w_socket w s)"
    "\<lambda>_ _. True" "\<lambda>w s. vk_proc_local_enqueue_blocked s w"
    "\<lambda>w s. vk_proc_local_drop_blocked s w" vk_proc_local_dequeue_blocked "\<lambda>w. pl_blocked (w_local w)"
  by unfold_locales
    (auto simp: vk_proc_local_enqueue_blocked_def vk_proc_local_drop_blocked_def q_remove_def
      fun_eq_iff vk_proc_local_dequeue_blocked_def Let_def split: if_splits list.splits)

subsection \<open>One invariant for both queues\<close>

definition run_inv :: "vk_world \<Rightarrow> bool" where
  "run_inv w \<longleftrightarrow> flag_inv (\<lambda>t. run_enq (w_thread w t)) (run_q (w_local w)) \<and>
     (pl_run (w_local w) \<longleftrightarrow> run_q (w_local w) \<noteq> [])"

definition blk_inv :: "vk_world \<Rightarrow> bool" where
  "blk_inv w \<longleftrightarrow> flag_inv (\<lambda>s. blocked_enq (w_socket w s)) (blocked_q (w_local w)) \<and>
     (pl_blocked (w_local w) \<longleftrightarrow> blocked_q (w_local w) \<noteq> [])"

definition queues_inv :: "vk_world \<Rightarrow> bool" where
  "queues_inv w \<longleftrightarrow> run_inv w \<and> blk_inv w"

lemma run_minv: "run.minv w \<longleftrightarrow> run_inv w"
  by (simp add: run.minv_def run.inv_def run_inv_def)

lemma blk_minv: "blk.minv w \<longleftrightarrow> blk_inv w"
  by (simp add: blk.minv_def blk.inv_def blk_inv_def)

lemma run_inv_cong:
  "(\<And>t. run_enq (w_thread w' t) = run_enq (w_thread w t)) \<Longrightarrow>
    run_q (w_local w') = run_q (w_local w) \<Longrightarrow> pl_run (w_local w') = pl_run (w_local w) \<Longrightarrow>
    run_inv w' = run_inv w"
  by (simp add: run_inv_def)

lemma blk_inv_cong:
  "(\<And>t. blocked_enq (w_socket w' t) = blocked_enq (w_socket w t)) \<Longrightarrow>
    blocked_q (w_local w') = blocked_q (w_local w) \<Longrightarrow>
    pl_blocked (w_local w') = pl_blocked (w_local w) \<Longrightarrow> blk_inv w' = blk_inv w"
  by (simp add: blk_inv_def)

text \<open>What the operations of one queue leave alone.\<close>

lemma enqueue_run_keeps [simp]:
  "w_socket (vk_proc_local_enqueue_run t w) = w_socket w"
  "blocked_q (w_local (vk_proc_local_enqueue_run t w)) = blocked_q (w_local w)"
  "pl_blocked (w_local (vk_proc_local_enqueue_run t w)) = pl_blocked (w_local w)"
  "w_mem (vk_proc_local_enqueue_run t w) = w_mem w"
  "w_errno (vk_proc_local_enqueue_run t w) = w_errno w"
  "supervisor_cr (w_local (vk_proc_local_enqueue_run t w)) = supervisor_cr (w_local w)"
  "running_cr (w_local (vk_proc_local_enqueue_run t w)) = running_cr (w_local w)"
  by (simp_all add: vk_proc_local_enqueue_run_def Let_def)

lemma drop_run_keeps:
  "vk_proc_local_drop_run t w = Some w' \<Longrightarrow> w_socket w' = w_socket w \<and>
    blocked_q (w_local w') = blocked_q (w_local w) \<and> pl_blocked (w_local w') = pl_blocked (w_local w)"
  by (auto simp: vk_proc_local_drop_run_def split: if_splits option.splits)

lemma dequeue_run_keeps:
  "vk_proc_local_dequeue_run w = Some (t, w') \<Longrightarrow> w_socket w' = w_socket w \<and>
    blocked_q (w_local w') = blocked_q (w_local w) \<and> pl_blocked (w_local w') = pl_blocked (w_local w)"
  by (auto simp: vk_proc_local_dequeue_run_def Let_def split: list.splits if_splits)

lemma enqueue_blocked_keeps [simp]:
  "w_thread (vk_proc_local_enqueue_blocked s w) = w_thread w"
  "run_q (w_local (vk_proc_local_enqueue_blocked s w)) = run_q (w_local w)"
  "pl_run (w_local (vk_proc_local_enqueue_blocked s w)) = pl_run (w_local w)"
  "w_mem (vk_proc_local_enqueue_blocked s w) = w_mem w"
  "w_errno (vk_proc_local_enqueue_blocked s w) = w_errno w"
  by (simp_all add: vk_proc_local_enqueue_blocked_def)

lemma drop_blocked_keeps:
  "vk_proc_local_drop_blocked s w = Some w' \<Longrightarrow> w_thread w' = w_thread w \<and>
    run_q (w_local w') = run_q (w_local w) \<and> pl_run (w_local w') = pl_run (w_local w) \<and>
    (\<forall>x. so_block (w_socket w' x) = so_block (w_socket w x))"
  by (auto simp: vk_proc_local_drop_blocked_def split: if_splits option.splits)

lemma dequeue_blocked_keeps:
  "vk_proc_local_dequeue_blocked w = Some (s, w') \<Longrightarrow> w_thread w' = w_thread w \<and>
    run_q (w_local w') = run_q (w_local w) \<and> pl_run (w_local w') = pl_run (w_local w)"
  by (auto simp: vk_proc_local_dequeue_blocked_def Let_def split: list.splits if_splits)

lemma queues_inv_enqueue_run [intro]: "queues_inv w \<Longrightarrow> queues_inv (vk_proc_local_enqueue_run t w)"
  using run.minv_enqueue [of w t]
  by (simp add: queues_inv_def run_minv blk_inv_cong [of "vk_proc_local_enqueue_run t w" w])

lemma queues_inv_enqueue_blocked [intro]:
  "queues_inv w \<Longrightarrow> queues_inv (vk_proc_local_enqueue_blocked s w)"
  using blk.minv_enqueue [of w s]
  by (simp add: queues_inv_def blk_minv run_inv_cong [of "vk_proc_local_enqueue_blocked s w" w])

lemma queues_inv_drop_run:
  "queues_inv w \<Longrightarrow> \<exists>w'. vk_proc_local_drop_run t w = Some w' \<and> queues_inv w' \<and>
    run_q (w_local w') = remove1 t (run_q (w_local w))"
  using run.minv_drop [of w t] drop_run_keeps [of t w]
  by (auto simp: queues_inv_def run_minv blk_inv_def)

lemma queues_inv_drop_blocked:
  "queues_inv w \<Longrightarrow> \<exists>w'. vk_proc_local_drop_blocked s w = Some w' \<and> queues_inv w' \<and>
    blocked_q (w_local w') = remove1 s (blocked_q (w_local w))"
  using blk.minv_drop [of w s] drop_blocked_keeps [of s w]
  by (auto simp: queues_inv_def blk_minv run_inv_def)

lemma queues_inv_dequeue_run:
  "queues_inv w \<Longrightarrow> vk_proc_local_dequeue_run w = Some (t, w') \<Longrightarrow>
    queues_inv w' \<and> run_q (w_local w) = t # run_q (w_local w')"
  using run.minv_dequeue [of w t w'] dequeue_run_keeps [of w t w']
  by (auto simp: queues_inv_def run_minv blk_inv_def)

lemma queues_inv_dequeue_blocked:
  "queues_inv w \<Longrightarrow> vk_proc_local_dequeue_blocked w = Some (s, w') \<Longrightarrow>
    queues_inv w' \<and> blocked_q (w_local w) = s # blocked_q (w_local w')"
  using blk.minv_dequeue [of w s w'] dequeue_blocked_keeps [of w s w']
  by (auto simp: queues_inv_def blk_minv run_inv_def)

text \<open>Updates of threads and sockets that touch neither flag.\<close>

lemma queues_inv_upd_thread:
  "(\<And>th. run_enq (f th) = run_enq th) \<Longrightarrow> queues_inv (upd_thread t f w) = queues_inv w"
  by (simp add: queues_inv_def run_inv_cong [of "upd_thread t f w" w]
      blk_inv_cong [of "upd_thread t f w" w])

lemma queues_inv_upd_socket:
  "(\<And>so. blocked_enq (f so) = blocked_enq so) \<Longrightarrow> queues_inv (upd_socket t f w) = queues_inv w"
  by (simp add: queues_inv_def run_inv_cong [of "upd_socket t f w" w]
      blk_inv_cong [of "upd_socket t f w" w])

lemma queues_inv_raise_at: "queues_inv w \<Longrightarrow> queues_inv (vk_raise_at line counter t e w)"
  by (auto simp: vk_raise_at_def queues_inv_upd_thread)

lemma queues_inv_raise_signal:
  "queues_inv w \<Longrightarrow> queues_inv (snd (vk_proc_local_raise_signal line counter w))"
  by (auto simp: vk_proc_local_raise_signal_def Let_def intro: queues_inv_raise_at)

lemma drop_blocked_loop_filter:
  "queues_inv w \<Longrightarrow> distinct ss \<Longrightarrow> set ss \<subseteq> set (blocked_q (w_local w)) \<Longrightarrow>
    \<exists>w'. drop_blocked_loop t ss w = Some w' \<and> queues_inv w' \<and>
      blocked_q (w_local w') =
        filter (\<lambda>s. \<not> (s \<in> set ss \<and> blocked_vk (so_block (w_socket w s)) = t)) (blocked_q (w_local w))"
proof (induction ss arbitrary: w)
  case (Cons s ss)
  show ?case
  proof (cases "blocked_vk (so_block (w_socket w s)) = t")
    case True
    obtain w1 where w1: "vk_proc_local_drop_blocked s w = Some w1" "queues_inv w1"
      "blocked_q (w_local w1) = remove1 s (blocked_q (w_local w))"
      using queues_inv_drop_blocked [OF Cons.prems(1)] by blast
    have dist: "distinct (blocked_q (w_local w))"
      using Cons.prems(1) by (simp add: queues_inv_def blk_inv_def flag_inv_def)
    have blk: "so_block (w_socket w1 x) = so_block (w_socket w x)" for x
      using drop_blocked_keeps [OF w1(1)] by blast
    have "set ss \<subseteq> set (blocked_q (w_local w1))"
      using Cons.prems(2,3) dist by (auto simp: w1(3))
    then obtain w2 where w2: "drop_blocked_loop t ss w1 = Some w2" "queues_inv w2"
      "blocked_q (w_local w2) =
        filter (\<lambda>s. \<not> (s \<in> set ss \<and> blocked_vk (so_block (w_socket w1 s)) = t)) (blocked_q (w_local w1))"
      using Cons.IH [OF w1(2)] Cons.prems(2) by auto
    have "blocked_q (w_local w2) = filter (\<lambda>x. \<not> (x \<in> set (s # ss) \<and>
        blocked_vk (so_block (w_socket w x)) = t)) (blocked_q (w_local w))"
      using True by (simp add: w2(3) w1(3) blk distinct_remove1_removeAll [OF dist] removeAll_filter_not_eq
          conj_comms) (rule filter_cong, auto)
    with w1(1) w2 True show ?thesis by (auto simp del: set_simps)
  next
    case False
    with Cons.IH [OF Cons.prems(1)] Cons.prems show ?thesis by (auto intro!: filter_cong)
  qed
qed simp

subsection \<open>Scheduling as a step relation\<close>

text \<open>Every operation of a process on its queues. A removal is a step when it does not fault.\<close>

inductive pl_step :: "vk_world \<Rightarrow> vk_world \<Rightarrow> bool" where
  "pl_step w (vk_proc_local_enqueue_run t w)"
| "pl_step w (vk_proc_local_enqueue_blocked s w)"
| "vk_proc_local_drop_run t w = Some w' \<Longrightarrow> pl_step w w'"
| "vk_proc_local_drop_blocked s w = Some w' \<Longrightarrow> pl_step w w'"
| "vk_proc_local_drop_blocked_for t w = Some w' \<Longrightarrow> pl_step w w'"
| "vk_proc_local_dequeue_run w = Some (t, w') \<Longrightarrow> pl_step w w'"
| "vk_proc_local_dequeue_blocked w = Some (s, w') \<Longrightarrow> pl_step w w'"
| "pl_step w (vk_raise_at line counter t e w)"
| "pl_step w (snd (vk_proc_local_raise_signal line counter w))"

inductive_cases pl_stepE: "pl_step w w'"

lemma queues_inv_drop_blocked_for:
  assumes "queues_inv w"
  shows "\<exists>w'. vk_proc_local_drop_blocked_for t w = Some w' \<and> queues_inv w' \<and>
    blocked_q (w_local w') =
      filter (\<lambda>s. blocked_vk (so_block (w_socket w s)) \<noteq> t) (blocked_q (w_local w))"
proof -
  have "distinct (blocked_q (w_local w))"
    using assms by (simp add: queues_inv_def blk_inv_def flag_inv_def)
  from drop_blocked_loop_filter [OF assms this subset_refl, of t] show ?thesis
    unfolding vk_proc_local_drop_blocked_for_def by (auto cong: filter_cong)
qed

lemma pl_step_inv: "pl_step w w' \<Longrightarrow> queues_inv w \<Longrightarrow> queues_inv w'"
proof (induction rule: pl_step.induct)
  case 3
  then show ?case by (metis queues_inv_drop_run option.inject)
next
  case 4
  then show ?case by (metis queues_inv_drop_blocked option.inject)
next
  case 5
  then show ?case by (metis queues_inv_drop_blocked_for option.inject)
qed (auto intro: queues_inv_raise_at queues_inv_raise_signal dest: queues_inv_dequeue_run
    queues_inv_dequeue_blocked)

text \<open>C31: From a process with consistent queues, after any sequence of scheduling operations, both
  queues are still consistent (no entry twice, every membership flag right, the run and
  blocked marks set exactly when the queues are not empty), and no removal from a queue
  walks off the end of the list, whichever coroutine or socket it is given.\<close>

theorem proc_queues_safe:
  assumes "rtranclp pl_step w w'" "queues_inv w"
  shows "queues_inv w' \<and> vk_proc_local_drop_run t w' \<noteq> None \<and>
    vk_proc_local_drop_blocked s w' \<noteq> None \<and> vk_proc_local_drop_blocked_for t w' \<noteq> None \<and>
    (vk_proc_local_is_zombie (w_local w') \<longleftrightarrow> \<not> pl_run (w_local w') \<and> \<not> pl_blocked (w_local w'))"
proof -
  from assms have "queues_inv w'"
    by (induction rule: rtranclp_induct) (auto intro: pl_step_inv)
  moreover from this have "vk_proc_local_is_zombie (w_local w') \<longleftrightarrow>
      \<not> pl_run (w_local w') \<and> \<not> pl_blocked (w_local w')"
    by (auto simp: vk_proc_local_is_zombie_def queues_inv_def run_inv_def blk_inv_def)
  ultimately show ?thesis
    using queues_inv_drop_run [of w' t] queues_inv_drop_blocked [of w' s]
      queues_inv_drop_blocked_for [of w' t] by auto
qed

text \<open>A process with one coroutine, at 64, and its socket, at 128.\<close>

definition os_pipe :: "int \<Rightarrow> vk_pipe" where
  "os_pipe fd = \<lparr>pipe_ref = VK_PIPE_OS_FD fd, pipe_fd_type = VK_FD_TYPE_SOCKET_STREAM, pipe_closed = False\<rparr>"

definition idle_thread :: vk_thread where
  "idle_thread = \<lparr>th_func = 0, th_line = 0, th_counter = - 1, th_status = VK_PROC_RUN, th_error = 0,
     th_error_counter = - 2, th_error_line = 0, th_self = 0, th_socket = 128, th_waiting_socket = 0,
     ft_q = [], th_rx_fd = os_pipe 3, th_tx_fd = os_pipe 3, run_enq = False\<rparr>"

definition idle_socket :: vk_socket where
  "idle_socket = \<lparr>so_rx = empty_ring, so_tx = wrapped_ring,
     so_block = \<lparr>blk_op = VK_OP_NONE, blk_buf = 0, blk_len = 0, blk_copied = 0, blk_rc = 0,
       ioft_rx_pre = vk_io_future_init 128, ioft_tx_pre = vk_io_future_init 128,
       ioft_rx_ret = vk_io_future_init 128, ioft_tx_ret = vk_io_future_init 128, blocked_vk = 64\<rparr>,
     so_rx_fd = os_pipe 3, so_tx_fd = os_pipe 3, so_error = 0, blocked_enq = False\<rparr>"

definition idle_world :: vk_world where
  "idle_world = \<lparr>w_local = \<lparr>pl_proc_id = 1, pl_run = False, pl_blocked = False, run_q = [],
       blocked_q = [], running_cr = 0, supervisor_cr = 0, si_signo = 0,
       pl_stack = vk_stack_init 4096 8192\<rparr>,
     w_thread = (\<lambda>_. idle_thread), w_socket = (\<lambda>_. idle_socket), w_mem = (\<lambda>x. ucast x), w_errno = 0\<rparr>"

lemma idle_world_inv: "queues_inv idle_world"
  by (simp add: queues_inv_def run_inv_def blk_inv_def idle_world_def idle_thread_def idle_socket_def)

theorem proc_queues_safe_witness:
  "vk_proc_local_drop_run 64 (vk_proc_local_enqueue_run 64 (vk_proc_local_enqueue_run 64 idle_world)) \<noteq> None"
proof -
  have "rtranclp pl_step idle_world (vk_proc_local_enqueue_run 64 (vk_proc_local_enqueue_run 64 idle_world))"
    by (blast intro: rtranclp.rtrancl_into_rtrancl pl_step.intros)
  from proc_queues_safe [OF this idle_world_inv] show ?thesis by blast
qed

text \<open>The run queue is last-in first-out: a coroutine enqueued to run is the next one dispatched,
  ahead of every coroutine that was waiting. So a coroutine that plays itself and yields is
  dispatched again at once, although the sources describe a yielding coroutine as one at the
  end of its run queue.\<close>

theorem run_queue_lifo:
  assumes "th_status (w_thread w t) \<noteq> VK_PROC_END" "\<not> run_enq (w_thread w t)"
  shows "\<exists>w'. vk_proc_local_dequeue_run (vk_proc_local_enqueue_run t w) = Some (t, w') \<and>
    run_q (w_local w') = run_q (w_local w)"
  using run.dequeue_step [of "vk_proc_local_enqueue_run t w" t "run_q (w_local w)"] assms
    run.enqueue_queue [of t w] by auto

theorem run_queue_lifo_witness:
  "\<exists>w'. vk_proc_local_dequeue_run (vk_proc_local_enqueue_run 64
      (vk_proc_local_enqueue_run 80 idle_world)) = Some (64, w') \<and> run_q (w_local w') = [80]"
proof -
  let ?w = "vk_proc_local_enqueue_run 80 idle_world"
  have "th_status (w_thread ?w 64) \<noteq> VK_PROC_END" "\<not> run_enq (w_thread ?w 64)"
    "run_q (w_local ?w) = [80]"
    by (simp_all add: vk_proc_local_enqueue_run_def Let_def idle_world_def idle_thread_def)
  with run_queue_lifo [of ?w 64] show ?thesis by simp
qed

text \<open>When a coroutine ends, dropping its blocked sockets removes from the blocked queue exactly the
  sockets that block that coroutine, and keeps the order of the others.\<close>

theorem drop_blocked_for_exact:
  assumes "queues_inv w"
  shows "\<exists>w'. vk_proc_local_drop_blocked_for t w = Some w' \<and> queues_inv w' \<and>
    blocked_q (w_local w') =
      filter (\<lambda>s. blocked_vk (so_block (w_socket w s)) \<noteq> t) (blocked_q (w_local w))"
  using queues_inv_drop_blocked_for [OF assms] .

theorem drop_blocked_for_exact_witness:
  "\<exists>w'. vk_proc_local_drop_blocked_for 64 (vk_proc_local_enqueue_blocked 128 idle_world) = Some w' \<and>
    blocked_q (w_local w') = []"
proof -
  let ?w = "vk_proc_local_enqueue_blocked 128 idle_world"
  have "queues_inv ?w" using idle_world_inv by blast
  moreover have "filter (\<lambda>s. blocked_vk (so_block (w_socket ?w s)) \<noteq> 64) (blocked_q (w_local ?w)) = []"
    by (simp add: vk_proc_local_enqueue_blocked_def idle_world_def idle_socket_def)
  ultimately show ?thesis using drop_blocked_for_exact [of ?w 64] by auto
qed

end
