(* ===== verification/Socket.thy ===== *)
theory Socket
  imports Proc_Local "HOL-Library.Monad_Syntax"
begin

text \<open>
  The socket operations (src/vk_socket.c): the handler of each blocking operation, which
  moves bytes between the socket's rings and a file descriptor or another socket's rings,
  wakes the coroutines concerned, and registers what is left to wait for. The outcomes of
  the system calls of one handler, and what the linker decides (the size and the address
  of the accepted record, the address of the empty literal), are in \<open>os_calls\<close>.
\<close>

record os_calls =
  os_readv :: "errno + byte list"
  os_writev :: "errno + nat"
  os_accept :: "errno + byte list \<times> errno"
  os_close :: syscall
  os_close2 :: syscall
  os_shutdown :: syscall
  os_shutdown2 :: syscall
  accepted_size :: size_t
  accepted_addr :: addr
  lit_addr :: addr

text \<open>A pointer about to be dereferenced.\<close>

definition deref :: "addr \<Rightarrow> addr option" where
  "deref p = (if p = 0 then None else Some p)"

lemma deref_simps [simp]: "p \<noteq> 0 \<Longrightarrow> deref p = Some p" "deref 0 = None"
  by (simp_all add: deref_def)

subsection \<open>Effects and wake-ups\<close>

definition vk_socket_handle_error :: "addr \<Rightarrow> vk_world \<Rightarrow> vk_world" where
  "vk_socket_handle_error s w = upd_socket s (so_error_update (\<lambda>_. w_errno w)) w"

definition vk_socket_handle_rx_effect :: "addr \<Rightarrow> vk_world \<Rightarrow> bool \<times> vk_world" where
  "vk_socket_handle_rx_effect s w =
     (let (b, r) = vk_vectoring_handle_effect (so_rx (w_socket w s))
      in (b, upd_socket s (so_rx_update (\<lambda>_. r)) w))"

definition vk_socket_handle_tx_effect :: "addr \<Rightarrow> vk_world \<Rightarrow> bool \<times> vk_world" where
  "vk_socket_handle_tx_effect s w =
     (let (b, r) = vk_vectoring_handle_effect (so_tx (w_socket w s))
      in (b, upd_socket s (so_tx_update (\<lambda>_. r)) w))"

definition vk_socket_enqueue_self :: "addr \<Rightarrow> vk_world \<Rightarrow> vk_world option" where
  "vk_socket_enqueue_self s w =
     do { t \<leftarrow> deref (blocked_vk (so_block (w_socket w s))); Some (upd_thread t vk_ready w) }"

definition enqueue_other :: "addr \<Rightarrow> vk_world \<Rightarrow> vk_world option" where
  "enqueue_other other w =
     do { o' \<leftarrow> deref other;
          t \<leftarrow> deref (blocked_vk (so_block (w_socket w o')));
          Some (upd_thread t vk_ready (vk_proc_local_enqueue_run t w)) }"

definition vk_socket_enqueue_otherwriter :: "addr \<Rightarrow> vk_world \<Rightarrow> vk_world option" where
  "vk_socket_enqueue_otherwriter s w = enqueue_other (vk_pipe_get_socket (so_rx_fd (w_socket w s))) w"

definition vk_socket_enqueue_otherreader :: "addr \<Rightarrow> vk_world \<Rightarrow> vk_world option" where
  "vk_socket_enqueue_otherreader s w = enqueue_other (vk_pipe_get_socket (so_tx_fd (w_socket w s))) w"

definition vk_socket_enqueue_read :: "addr \<Rightarrow> vk_world \<Rightarrow> vk_world option" where
  "vk_socket_enqueue_read s w =
     (let (b, w1) = vk_socket_handle_rx_effect s w in if b then vk_socket_enqueue_self s w1 else Some w1)"

definition vk_socket_enqueue_write :: "addr \<Rightarrow> vk_world \<Rightarrow> vk_world option" where
  "vk_socket_enqueue_write s w =
     (let (b, w1) = vk_socket_handle_tx_effect s w in if b then vk_socket_enqueue_self s w1 else Some w1)"

definition vk_socket_enqueue_readwriter :: "addr \<Rightarrow> vk_world \<Rightarrow> vk_world option" where
  "vk_socket_enqueue_readwriter s w =
     do { o' \<leftarrow> deref (vk_pipe_get_socket (so_rx_fd (w_socket w s)));
          let (b, w1) = vk_socket_handle_tx_effect o' w;
          if b then do { w2 \<leftarrow> vk_socket_enqueue_otherwriter s w1; vk_socket_enqueue_self s w2 }
          else Some w1 }"

definition vk_socket_enqueue_writereader :: "addr \<Rightarrow> vk_world \<Rightarrow> vk_world option" where
  "vk_socket_enqueue_writereader s w =
     do { o' \<leftarrow> deref (vk_pipe_get_socket (so_tx_fd (w_socket w s)));
          let (b, w1) = vk_socket_handle_rx_effect o' w;
          if b then do { w2 \<leftarrow> vk_socket_enqueue_otherreader s w1; vk_socket_enqueue_self s w2 }
          else Some w1 }"

subsection \<open>Blocking\<close>

abbreviation upd_rx_pre :: "addr \<Rightarrow> (vk_io_future \<Rightarrow> vk_io_future) \<Rightarrow> vk_world \<Rightarrow> vk_world" where
  "upd_rx_pre s f \<equiv> upd_block s (ioft_rx_pre_update f)"

abbreviation upd_tx_pre :: "addr \<Rightarrow> (vk_io_future \<Rightarrow> vk_io_future) \<Rightarrow> vk_world \<Rightarrow> vk_world" where
  "upd_tx_pre s f \<equiv> upd_block s (ioft_tx_pre_update f)"

definition vk_socket_mark_read_block :: "addr \<Rightarrow> vk_world \<Rightarrow> vk_world" where
  "vk_socket_mark_read_block s = upd_rx_pre s (ioft_event_update (ev_events_update (\<lambda>_. POLLIN)))"

definition vk_socket_clear_read_block :: "addr \<Rightarrow> vk_world \<Rightarrow> vk_world" where
  "vk_socket_clear_read_block s = upd_rx_pre s (ioft_event_update (ev_events_update (\<lambda>_. 0)))"

definition vk_socket_mark_write_block :: "addr \<Rightarrow> vk_world \<Rightarrow> vk_world" where
  "vk_socket_mark_write_block s = upd_tx_pre s (ioft_event_update (ev_events_update (\<lambda>_. POLLOUT)))"

definition vk_socket_clear_write_block :: "addr \<Rightarrow> vk_world \<Rightarrow> vk_world" where
  "vk_socket_clear_write_block s = upd_tx_pre s (ioft_event_update (ev_events_update (\<lambda>_. 0)))"

text \<open>The process of the socket is found through its blocked coroutine.\<close>

definition vk_socket_enqueue_blocked :: "addr \<Rightarrow> vk_world \<Rightarrow> vk_world option" where
  "vk_socket_enqueue_blocked s w =
     do { _ \<leftarrow> deref (blocked_vk (so_block (w_socket w s))); Some (vk_proc_local_enqueue_blocked s w) }"

definition block_fds :: "addr \<Rightarrow> vk_world \<Rightarrow> vk_world" where
  "block_fds s w =
     (let so = w_socket w s;
          w1 = upd_rx_pre s (ioft_event_update (ev_fd_update (\<lambda>_. vk_pipe_get_fd (so_rx_fd so)))) w
      in upd_tx_pre s (ioft_event_update (ev_fd_update (\<lambda>_. vk_pipe_get_fd (so_tx_fd so)))) w1)"

definition forward_closed :: "addr \<Rightarrow> vk_world \<Rightarrow> vk_world" where
  "forward_closed s w =
     (let rxc = vec_closed (so_rx (w_socket w s)); txc = vec_closed (so_tx (w_socket w s));
          w1 = upd_socket s (so_rx_fd_update (pipe_closed_update (\<lambda>_. rxc))) w;
          w2 = (if vk_pipe_get_fd (so_rx_fd (w_socket w1 s)) \<ge> 0 \<and> rxc
                then upd_rx_pre s (ioft_rx_closed_update (\<lambda>_. rxc)) w1 else w1);
          w3 = upd_socket s (so_tx_fd_update (pipe_closed_update (\<lambda>_. txc))) w2
      in if vk_pipe_get_fd (so_tx_fd (w_socket w3 s)) \<ge> 0 \<and> txc
         then upd_tx_pre s (ioft_tx_closed_update (\<lambda>_. txc)) w3 else w3)"

definition vk_socket_handle_block :: "addr \<Rightarrow> vk_world \<Rightarrow> vk_world option" where
  "vk_socket_handle_block s w =
     (let w1 = forward_closed s (block_fds s w)
      in do {
        w2 \<leftarrow> (if vk_pipe_get_fd (so_rx_fd (w_socket w1 s)) \<ge> 0 \<and> rx_blocked (so_rx (w_socket w1 s))
               then vk_socket_enqueue_blocked s (vk_socket_mark_read_block s w1)
               else Some (vk_socket_clear_read_block s w1));
        if vk_pipe_get_fd (so_tx_fd (w_socket w2 s)) \<ge> 0 \<and> tx_blocked (so_tx (w_socket w2 s))
        then vk_socket_enqueue_blocked s (vk_socket_mark_write_block s w2)
        else Some (vk_socket_clear_write_block s w2)
      })"

definition vk_socket_handle_readable :: "addr \<Rightarrow> vk_world \<Rightarrow> int \<times> vk_world" where
  "vk_socket_handle_readable s w = (0, vk_socket_clear_write_block s (vk_socket_mark_read_block s w))"

definition vk_socket_handle_writable :: "addr \<Rightarrow> vk_world \<Rightarrow> int \<times> vk_world" where
  "vk_socket_handle_writable s w = (0, vk_socket_clear_read_block s (vk_socket_mark_write_block s w))"

subsection \<open>Ring operations on a socket\<close>

definition put_rx :: "addr \<Rightarrow> int \<times> errno \<times> mem \<times> vk_vectoring \<Rightarrow> vk_world \<Rightarrow> int \<times> vk_world" where
  "put_rx s res w =
     (case res of (rc, e, m, r) \<Rightarrow>
        (rc, upd_socket s (so_rx_update (\<lambda>_. r)) (w\<lparr>w_errno := e, w_mem := m\<rparr>)))"

definition put_tx :: "addr \<Rightarrow> int \<times> errno \<times> vk_vectoring \<Rightarrow> vk_world \<Rightarrow> int \<times> vk_world" where
  "put_tx s res w =
     (case res of (rc, e, r) \<Rightarrow> (rc, upd_socket s (so_tx_update (\<lambda>_. r)) (w\<lparr>w_errno := e\<rparr>)))"

definition sock_accept :: "os_calls \<Rightarrow> addr \<Rightarrow> vk_world \<Rightarrow> int \<times> vk_world" where
  "sock_accept os s w =
     put_rx s (vk_vectoring_accept (accepted_size os) (accepted_addr os) (w_errno w) (w_mem w)
                 (so_rx (w_socket w s)) (os_accept os)) w"

definition sock_readv :: "os_calls \<Rightarrow> addr \<Rightarrow> vk_world \<Rightarrow> int \<times> vk_world" where
  "sock_readv os s w =
     put_rx s (vk_vectoring_read (w_errno w) (w_mem w) (so_rx (w_socket w s)) (os_readv os)) w"

definition sock_writev :: "os_calls \<Rightarrow> addr \<Rightarrow> vk_world \<Rightarrow> int \<times> vk_world" where
  "sock_writev os s w =
     (let (rc, e, r, _) = vk_vectoring_write (w_errno w) (w_mem w) (so_tx (w_socket w s)) (os_writev os)
      in put_tx s (rc, e, r) w)"

text \<open>From the sending ring of \<open>tx\<close> to the receiving ring of \<open>rx\<close>, all that is there.\<close>

definition sock_splice :: "os_calls \<Rightarrow> addr \<Rightarrow> addr \<Rightarrow> vk_world \<Rightarrow> int \<times> vk_world" where
  "sock_splice os rx tx w =
     (let (rc, e, m, r, t) = vk_vectoring_splice (lit_addr os) (w_errno w) (w_mem w)
            (so_rx (w_socket w rx)) (so_tx (w_socket w tx)) (- 1)
      in (rc, upd_socket tx (so_tx_update (\<lambda>_. t)) (upd_socket rx (so_rx_update (\<lambda>_. r))
                (w\<lparr>w_errno := e, w_mem := m\<rparr>))))"

definition note_error :: "addr \<Rightarrow> int \<times> vk_world \<Rightarrow> vk_world" where
  "note_error s res = (case res of (rc, w) \<Rightarrow> if rc = - 1 then vk_socket_handle_error s w else w)"

definition set_errno :: "errno \<Rightarrow> vk_world \<Rightarrow> vk_world" where
  "set_errno e w = w\<lparr>w_errno := e\<rparr>"

definition mark_rx_closed :: "addr \<Rightarrow> vk_world \<Rightarrow> vk_world" where
  "mark_rx_closed s = upd_socket s (so_rx_update (\<lambda>r. snd (vk_vectoring_mark_closed r)))"

definition mark_tx_closed :: "addr \<Rightarrow> vk_world \<Rightarrow> vk_world" where
  "mark_tx_closed s = upd_socket s (so_tx_update (\<lambda>r. snd (vk_vectoring_mark_closed r)))"

definition block_and :: "addr \<Rightarrow> int \<Rightarrow> vk_world \<Rightarrow> (int \<times> vk_world) option" where
  "block_and s rc w = do { w' \<leftarrow> vk_socket_handle_block s w; Some (rc, w') }"

subsection \<open>Handlers\<close>

definition vk_socket_handle_read :: "os_calls \<Rightarrow> addr \<Rightarrow> vk_world \<Rightarrow> (int \<times> vk_world) option" where
  "vk_socket_handle_read os s w =
     (case pipe_ref (so_rx_fd (w_socket w s)) of
        VK_PIPE_OS_FD _ \<Rightarrow>
          do { w1 \<leftarrow> vk_socket_enqueue_read s
                 (note_error s
                   (if pipe_fd_type (so_rx_fd (w_socket w s)) = VK_FD_TYPE_SOCKET_LISTEN
                    then sock_accept os s w else sock_readv os s w));
               block_and s 0 w1 }
      | VK_PIPE_VK_TX o' \<Rightarrow>
          do { tx \<leftarrow> deref o';
               w1 \<leftarrow> vk_socket_enqueue_read s (note_error s (sock_splice os s tx w));
               w2 \<leftarrow> vk_socket_enqueue_readwriter s w1;
               block_and s 0 w2 }
      | VK_PIPE_VK_RX _ \<Rightarrow> block_and s (- 1) (set_errno EINVAL w))"

definition vk_socket_handle_write :: "os_calls \<Rightarrow> addr \<Rightarrow> vk_world \<Rightarrow> (int \<times> vk_world) option" where
  "vk_socket_handle_write os s w =
     (case pipe_ref (so_tx_fd (w_socket w s)) of
        VK_PIPE_OS_FD _ \<Rightarrow>
          do { w1 \<leftarrow> vk_socket_enqueue_write s (note_error s (sock_writev os s w));
               block_and s 0 w1 }
      | VK_PIPE_VK_RX o' \<Rightarrow>
          do { rx \<leftarrow> deref o';
               w1 \<leftarrow> vk_socket_enqueue_write s (note_error s (sock_splice os rx s w));
               w2 \<leftarrow> vk_socket_enqueue_writereader s w1;
               block_and s 0 w2 }
      | VK_PIPE_VK_TX _ \<Rightarrow> block_and s (- 1) (set_errno EINVAL w))"

text \<open>The sending half of a forward; \<open>guard\<close> is the test that only the branch for a
  descriptor-backed reader makes before it wakes the other side.\<close>

definition forward_write ::
  "bool \<Rightarrow> os_calls \<Rightarrow> addr \<Rightarrow> vk_world \<Rightarrow> (int \<times> vk_world) option" where
  "forward_write guard os s w =
     (case pipe_ref (so_tx_fd (w_socket w s)) of
        VK_PIPE_OS_FD _ \<Rightarrow>
          do { w1 \<leftarrow> vk_socket_enqueue_write s (note_error s (sock_writev os s w)); block_and s 0 w1 }
      | VK_PIPE_VK_RX o' \<Rightarrow>
          do { rx \<leftarrow> deref o';
               w1 \<leftarrow> vk_socket_enqueue_write s (note_error s (sock_splice os rx s w));
               w2 \<leftarrow> (if guard
                      then (if rx_blocked (so_rx (w_socket w1 rx))
                            then do { w' \<leftarrow> vk_socket_enqueue_writereader s w1;
                                      t \<leftarrow> deref (blocked_vk (so_block (w_socket w' rx)));
                                      Some (vk_proc_local_enqueue_run t w') }
                            else Some w1)
                      else vk_socket_enqueue_writereader s w1);
               block_and s 0 w2 }
      | VK_PIPE_VK_TX _ \<Rightarrow> Some (- 1, set_errno EINVAL w))"

definition vk_socket_handle_forward :: "os_calls \<Rightarrow> addr \<Rightarrow> vk_world \<Rightarrow> (int \<times> vk_world) option" where
  "vk_socket_handle_forward os s w =
     (case pipe_ref (so_rx_fd (w_socket w s)) of
        VK_PIPE_OS_FD _ \<Rightarrow>
          do { w1 \<leftarrow> vk_socket_enqueue_read s (note_error s (sock_readv os s w));
               forward_write True os s w1 }
      | VK_PIPE_VK_TX o' \<Rightarrow>
          do { tx \<leftarrow> deref o';
               w1 \<leftarrow> vk_socket_enqueue_read s (note_error s (sock_splice os s tx w));
               w2 \<leftarrow> vk_socket_enqueue_readwriter s w1;
               forward_write False os s w2 }
      | VK_PIPE_VK_RX _ \<Rightarrow> Some (- 1, set_errno EINVAL w))"

definition vk_socket_handle_readhup :: "addr \<Rightarrow> vk_world \<Rightarrow> (int \<times> vk_world) option" where
  "vk_socket_handle_readhup s w =
     (case pipe_ref (so_rx_fd (w_socket w s)) of
        VK_PIPE_OS_FD _ \<Rightarrow> do { w1 \<leftarrow> vk_socket_enqueue_read s w; block_and s 0 w1 }
      | VK_PIPE_VK_TX o' \<Rightarrow>
          do { tx \<leftarrow> deref o';
               let (rc, t, r) = vk_vectoring_forwardhup (so_tx (w_socket w tx)) (so_rx (w_socket w s));
               let w1 = upd_socket s (so_rx_update (\<lambda>_. r)) (upd_socket tx (so_tx_update (\<lambda>_. t)) w);
               w2 \<leftarrow> (if rc \<noteq> 0
                      then do { w' \<leftarrow> vk_socket_enqueue_read s w1; vk_socket_enqueue_readwriter s w' }
                      else Some w1);
               block_and s 0 w2 }
      | VK_PIPE_VK_RX _ \<Rightarrow> Some (- 1, set_errno EINVAL w))"

definition vk_socket_handle_hup :: "addr \<Rightarrow> vk_world \<Rightarrow> (int \<times> vk_world) option" where
  "vk_socket_handle_hup s w =
     (case pipe_ref (so_tx_fd (w_socket w s)) of
        VK_PIPE_OS_FD _ \<Rightarrow> do { w1 \<leftarrow> vk_socket_enqueue_write s w; block_and s 0 w1 }
      | VK_PIPE_VK_RX _ \<Rightarrow>
          do { w1 \<leftarrow> (if \<not> vec_eof (so_tx (w_socket w s))
                      then do { w' \<leftarrow> vk_socket_enqueue_write s w; vk_socket_enqueue_writereader s w' }
                      else Some w);
               block_and s 0 w1 }
      | VK_PIPE_VK_TX _ \<Rightarrow> Some (- 1, set_errno EINVAL w))"

text \<open>The closing operations end by marking the blocked coroutine ready.\<close>

definition close_end :: "addr \<Rightarrow> vk_world \<Rightarrow> (int \<times> vk_world) option" where
  "close_end s w =
     do { w1 \<leftarrow> vk_socket_handle_block s w; w2 \<leftarrow> vk_socket_enqueue_self s w1; Some (0, w2) }"

definition vk_socket_handle_tx_close :: "os_calls \<Rightarrow> addr \<Rightarrow> vk_world \<Rightarrow> (int \<times> vk_world) option" where
  "vk_socket_handle_tx_close os s w =
     (case pipe_ref (so_tx_fd (w_socket w s)) of
        VK_PIPE_OS_FD _ \<Rightarrow>
          do { w1 \<leftarrow> vk_socket_enqueue_write s (mark_tx_closed s (note_error s
                 (put_tx s (vk_vectoring_close (so_tx (w_socket w s)) (os_close os) (os_close2 os)) w)));
               close_end s w1 }
      | _ \<Rightarrow>
          do { w1 \<leftarrow> vk_socket_enqueue_write s
                 (upd_socket s (so_tx_update (\<lambda>r. snd (vk_vectoring_mark_eof r))) w);
               w2 \<leftarrow> vk_socket_enqueue_writereader s w1;
               close_end s w2 })"

definition put_rx_ring :: "addr \<Rightarrow> int \<times> errno \<times> vk_vectoring \<Rightarrow> vk_world \<Rightarrow> int \<times> vk_world" where
  "put_rx_ring s res w = (case res of (rc, e, r) \<Rightarrow> put_rx s (rc, e, w_mem w, r) w)"

definition vk_socket_handle_rx_close :: "os_calls \<Rightarrow> addr \<Rightarrow> vk_world \<Rightarrow> (int \<times> vk_world) option" where
  "vk_socket_handle_rx_close os s w =
     (case pipe_ref (so_rx_fd (w_socket w s)) of
        VK_PIPE_OS_FD _ \<Rightarrow>
          do { w1 \<leftarrow> vk_socket_enqueue_read s (mark_rx_closed s (note_error s
                 (put_rx_ring s (vk_vectoring_close (so_rx (w_socket w s)) (os_close os) (os_close2 os)) w)));
               close_end s w1 }
      | _ \<Rightarrow> do { w1 \<leftarrow> vk_socket_enqueue_read s w; close_end s w1 })"

definition vk_socket_handle_tx_shutdown :: "os_calls \<Rightarrow> addr \<Rightarrow> vk_world \<Rightarrow> (int \<times> vk_world) option" where
  "vk_socket_handle_tx_shutdown os s w =
     (case pipe_ref (so_tx_fd (w_socket w s)) of
        VK_PIPE_OS_FD _ \<Rightarrow>
          do { w1 \<leftarrow> vk_socket_enqueue_write s (mark_tx_closed s (note_error s
                 (put_tx s (vk_vectoring_tx_shutdown (so_tx (w_socket w s)) (os_shutdown os) (os_shutdown2 os)) w)));
               close_end s w1 }
      | _ \<Rightarrow> do { w1 \<leftarrow> vk_socket_enqueue_write s w; close_end s w1 })"

definition vk_socket_handle_rx_shutdown :: "os_calls \<Rightarrow> addr \<Rightarrow> vk_world \<Rightarrow> (int \<times> vk_world) option" where
  "vk_socket_handle_rx_shutdown os s w =
     (case pipe_ref (so_rx_fd (w_socket w s)) of
        VK_PIPE_OS_FD _ \<Rightarrow>
          do { w1 \<leftarrow> vk_socket_enqueue_read s (mark_rx_closed s (note_error s
                 (put_rx_ring s (vk_vectoring_rx_shutdown (so_rx (w_socket w s)) (os_shutdown os) (os_shutdown2 os)) w)));
               close_end s w1 }
      | _ \<Rightarrow> do { w1 \<leftarrow> vk_socket_enqueue_read s w; close_end s w1 })"

definition vk_socket_empty_tx :: "vk_socket \<Rightarrow> bool" where
  "vk_socket_empty_tx so = vk_vectoring_is_empty (so_tx so)"

text \<open>A read that blocks flushes what is waiting to be sent, unless sending is blocked too.\<close>

definition vk_socket_handler :: "os_calls \<Rightarrow> addr \<Rightarrow> vk_world \<Rightarrow> (int \<times> vk_world) option" where
  "vk_socket_handler os s w =
     (case blk_op (so_block (w_socket w s)) of
        VK_OP_NONE \<Rightarrow> Some (0, w)
      | VK_OP_FLUSH \<Rightarrow> vk_socket_handle_write os s w
      | VK_OP_WRITE \<Rightarrow> vk_socket_handle_write os s w
      | VK_OP_READ \<Rightarrow>
          do { (rc, w1) \<leftarrow> vk_socket_handle_read os s w;
               if rc = - 1 then Some (- 1, w1)
               else if rx_blocked (so_rx (w_socket w1 s)) \<and> \<not> tx_blocked (so_tx (w_socket w1 s)) \<and>
                       \<not> vk_socket_empty_tx (w_socket w1 s)
               then vk_socket_handle_write os s w1
               else Some (rc, w1) }
      | VK_OP_FORWARD \<Rightarrow> vk_socket_handle_forward os s w
      | VK_OP_HUP \<Rightarrow> vk_socket_handle_hup s w
      | VK_OP_READHUP \<Rightarrow> vk_socket_handle_readhup s w
      | VK_OP_TX_CLOSE \<Rightarrow> vk_socket_handle_tx_close os s w
      | VK_OP_RX_CLOSE \<Rightarrow> vk_socket_handle_rx_close os s w
      | VK_OP_TX_SHUTDOWN \<Rightarrow> vk_socket_handle_tx_shutdown os s w
      | VK_OP_RX_SHUTDOWN \<Rightarrow> vk_socket_handle_rx_shutdown os s w
      | VK_OP_READABLE \<Rightarrow> Some (vk_socket_handle_readable s w)
      | VK_OP_WRITABLE \<Rightarrow> Some (vk_socket_handle_writable s w))"

subsection \<open>Queries and the block\<close>

definition vk_socket_eof :: "vk_socket \<Rightarrow> bool" where
  "vk_socket_eof so = vec_eof (so_rx so)"

definition vk_socket_empty :: "vk_socket \<Rightarrow> bool" where
  "vk_socket_empty so = vk_vectoring_is_empty (so_rx so)"

definition vk_socket_nodata :: "vk_socket \<Rightarrow> bool" where
  "vk_socket_nodata so = vk_vectoring_has_nodata (so_rx so)"

definition vk_socket_eof_tx :: "vk_socket \<Rightarrow> bool" where
  "vk_socket_eof_tx so = vec_eof (so_tx so)"

definition vk_socket_nodata_tx :: "vk_socket \<Rightarrow> bool" where
  "vk_socket_nodata_tx so = vk_vectoring_has_nodata (so_tx so)"

definition vk_socket_get_reader_nodata :: "addr \<Rightarrow> vk_world \<Rightarrow> bool" where
  "vk_socket_get_reader_nodata s w =
     (let so = w_socket w s; reader = vk_pipe_get_socket (so_rx_fd so)
      in if reader = 0
         then vk_socket_nodata so \<or>
              ioft_rx_closed (ioft_rx_ret (so_block so)) \<and> ioft_readable (ioft_rx_ret (so_block so)) = 0
         else vk_socket_nodata_tx (w_socket w reader))"

definition vk_socket_pollhup :: "addr \<Rightarrow> vk_world \<Rightarrow> bool" where
  "vk_socket_pollhup s w =
     (if \<not> vk_socket_empty (w_socket w s) then False else vk_socket_get_reader_nodata s w)"

definition vk_block_init :: "vk_block \<Rightarrow> addr \<Rightarrow> size_t \<Rightarrow> vk_op_type \<Rightarrow> vk_block" where
  "vk_block_init b buf len oper = b\<lparr>blk_buf := buf, blk_len := len, blk_op := oper, blk_copied := 0\<rparr>"

definition vk_block_commit :: "vk_block \<Rightarrow> int \<Rightarrow> int \<times> vk_block" where
  "vk_block_commit b rc =
     (rc, b\<lparr>blk_rc := rc, blk_len := blk_len b - of_int rc, blk_buf := blk_buf b + of_int rc,
            blk_copied := blk_copied b + of_int rc\<rparr>)"

end
