(* ===== verification/Socket_Inv.thy ===== *)
theory Socket_Inv
  imports Socket
begin

text \<open>
  What every socket handler guarantees: it returns (no null pointer is followed and no
  list corrupted) when the pipes and blocks of the socket are linked to coroutines, it
  keeps the queues of the process consistent and all rings well-formed, and it leaves the
  links alone. The handlers are composed of small steps; \<open>yields\<close> is the total
  correctness of one step and has a rule for sequencing.
\<close>

definition rings_ok :: "vk_world \<Rightarrow> bool" where
  "rings_ok w \<longleftrightarrow> (\<forall>s. ring_wf (so_rx (w_socket w s)) \<and> ring_wf (so_tx (w_socket w s)))"

definition sound :: "vk_world \<Rightarrow> bool" where
  "sound w \<longleftrightarrow> queues_inv w \<and> rings_ok w"

definition same_links :: "vk_world \<Rightarrow> vk_world \<Rightarrow> bool" where
  "same_links w w' \<longleftrightarrow>
     (\<forall>t. th_counter (w_thread w' t) = th_counter (w_thread w t) \<and>
          (th_status (w_thread w' t) = VK_PROC_END \<longleftrightarrow> th_status (w_thread w t) = VK_PROC_END)) \<and>
     (\<forall>s. blocked_vk (so_block (w_socket w' s)) = blocked_vk (so_block (w_socket w s)) \<and>
          blk_op (so_block (w_socket w' s)) = blk_op (so_block (w_socket w s)) \<and>
          pipe_ref (so_rx_fd (w_socket w' s)) = pipe_ref (so_rx_fd (w_socket w s)) \<and>
          pipe_ref (so_tx_fd (w_socket w' s)) = pipe_ref (so_tx_fd (w_socket w s)))"

definition has_vk :: "vk_world \<Rightarrow> addr \<Rightarrow> bool" where
  "has_vk w s \<longleftrightarrow> s \<noteq> 0 \<and> blocked_vk (so_block (w_socket w s)) \<noteq> 0"

definition pipe_linked :: "vk_world \<Rightarrow> vk_pipe \<Rightarrow> bool" where
  "pipe_linked w p \<longleftrightarrow>
     (case pipe_ref p of VK_PIPE_OS_FD _ \<Rightarrow> True | VK_PIPE_VK_RX s \<Rightarrow> has_vk w s | VK_PIPE_VK_TX s \<Rightarrow> has_vk w s)"

definition linked :: "vk_world \<Rightarrow> addr \<Rightarrow> bool" where
  "linked w s \<longleftrightarrow> has_vk w s \<and> pipe_linked w (so_rx_fd (w_socket w s)) \<and>
     pipe_linked w (so_tx_fd (w_socket w s))"

definition frame_ok :: "vk_world \<Rightarrow> vk_world \<Rightarrow> bool" where
  "frame_ok w w' \<longleftrightarrow> (sound w \<longrightarrow> sound w') \<and> same_links w w'"

definition yields :: "vk_world \<Rightarrow> vk_world option \<Rightarrow> bool" where
  "yields w r \<longleftrightarrow> (\<exists>w'. r = Some w' \<and> frame_ok w w')"

definition yields_rc :: "vk_world \<Rightarrow> (int \<times> vk_world) option \<Rightarrow> bool" where
  "yields_rc w r \<longleftrightarrow> (\<exists>rc w'. r = Some (rc, w') \<and> frame_ok w w')"

lemma same_links_refl [simp]: "same_links w w"
  by (simp add: same_links_def)

lemma frame_ok_refl [simp, intro]: "frame_ok w w"
  by (simp add: frame_ok_def)

lemma frame_ok_trans [trans]: "frame_ok w1 w2 \<Longrightarrow> frame_ok w2 w3 \<Longrightarrow> frame_ok w1 w3"
  by (simp add: frame_ok_def same_links_def)

lemma has_vk_frame: "frame_ok w w' \<Longrightarrow> has_vk w' s = has_vk w s"
  by (simp add: frame_ok_def same_links_def has_vk_def)

lemma pipe_linked_frame: "frame_ok w w' \<Longrightarrow> pipe_linked w' p = pipe_linked w p"
  by (simp add: pipe_linked_def has_vk_frame split: vk_pipe_ref.split)

lemma pipe_linked_cong: "pipe_ref p = pipe_ref q \<Longrightarrow> pipe_linked w p = pipe_linked w q"
  by (simp add: pipe_linked_def)

lemma linked_frame: "frame_ok w w' \<Longrightarrow> linked w' s = linked w s"
  using pipe_linked_cong [of "so_rx_fd (w_socket w' s)" "so_rx_fd (w_socket w s)" w]
    pipe_linked_cong [of "so_tx_fd (w_socket w' s)" "so_tx_fd (w_socket w s)" w]
  by (auto simp: linked_def has_vk_frame pipe_linked_frame) (auto simp: frame_ok_def same_links_def)

lemma pipe_ref_frame:
  "frame_ok w w' \<Longrightarrow> pipe_ref (so_rx_fd (w_socket w' s)) = pipe_ref (so_rx_fd (w_socket w s))"
  "frame_ok w w' \<Longrightarrow> pipe_ref (so_tx_fd (w_socket w' s)) = pipe_ref (so_tx_fd (w_socket w s))"
  by (simp_all add: frame_ok_def same_links_def)

lemma yields_Some [intro]: "frame_ok w w' \<Longrightarrow> yields w (Some w')"
  by (simp add: yields_def)

lemma yields_frame: "frame_ok w w1 \<Longrightarrow> yields w1 r \<Longrightarrow> yields w r"
  by (auto simp: yields_def intro: frame_ok_trans)

lemma yields_rc_frame: "frame_ok w w1 \<Longrightarrow> yields_rc w1 r \<Longrightarrow> yields_rc w r"
  by (auto simp: yields_rc_def intro: frame_ok_trans)

lemma yields_bind:
  assumes "yields w r" "\<And>w'. frame_ok w w' \<Longrightarrow> yields w' (f w')"
  shows "yields w (r \<bind> f)"
  using assms by (fastforce simp: yields_def intro: frame_ok_trans)

lemma yields_rc_bind:
  assumes "yields w r" "\<And>w'. frame_ok w w' \<Longrightarrow> yields_rc w' (f w')"
  shows "yields_rc w (r \<bind> f)"
  using assms by (fastforce simp: yields_def yields_rc_def intro: frame_ok_trans)

subsection \<open>Steps on one object\<close>

lemma frame_upd_socket:
  assumes "\<And>so. blocked_enq (f so) = blocked_enq so" "\<And>so. blocked_vk (so_block (f so)) = blocked_vk (so_block so)"
    "\<And>so. blk_op (so_block (f so)) = blk_op (so_block so)"
    "\<And>so. pipe_ref (so_rx_fd (f so)) = pipe_ref (so_rx_fd so)"
    "\<And>so. pipe_ref (so_tx_fd (f so)) = pipe_ref (so_tx_fd so)"
    "rings_ok w \<Longrightarrow> ring_wf (so_rx (f (w_socket w s))) \<and> ring_wf (so_tx (f (w_socket w s)))"
  shows "frame_ok w (upd_socket s f w)"
  using assms by (auto simp: frame_ok_def sound_def same_links_def queues_inv_upd_socket rings_ok_def)

lemma frame_upd_block:
  assumes "\<And>b. blocked_vk (f b) = blocked_vk b" "\<And>b. blk_op (f b) = blk_op b"
  shows "frame_ok w (upd_block s f w)"
  unfolding upd_block_def using assms by (intro frame_upd_socket) (auto simp: rings_ok_def)

lemma frame_upd_thread:
  "(\<And>th. run_enq (f th) = run_enq th) \<Longrightarrow> (\<And>th. th_counter (f th) = th_counter th) \<Longrightarrow>
    (\<And>th. th_status (f th) = VK_PROC_END \<longleftrightarrow> th_status th = VK_PROC_END) \<Longrightarrow>
    frame_ok w (upd_thread t f w)"
  by (simp add: frame_ok_def sound_def same_links_def queues_inv_upd_thread rings_ok_def)

lemma ready_counter [simp]: "th_counter (vk_ready th) = th_counter th"
  by (simp add: vk_ready_def)

lemma enqueue_run_counter [simp]:
  "th_counter (w_thread (vk_proc_local_enqueue_run t w) x) = th_counter (w_thread w x)"
  "th_status (w_thread (vk_proc_local_enqueue_run t w) x) = VK_PROC_END \<longleftrightarrow>
    th_status (w_thread w x) = VK_PROC_END"
  by (simp_all add: vk_proc_local_enqueue_run_def Let_def)

lemma frame_enqueue_run: "frame_ok w (vk_proc_local_enqueue_run t w)"
  by (auto simp: frame_ok_def sound_def same_links_def rings_ok_def)

lemma frame_enqueue_blocked: "frame_ok w (vk_proc_local_enqueue_blocked s w)"
  by (auto simp: frame_ok_def sound_def same_links_def rings_ok_def vk_proc_local_enqueue_blocked_def
      dest: queues_inv_enqueue_blocked [of w s, unfolded vk_proc_local_enqueue_blocked_def])

lemma frame_errno_mem: "frame_ok w (w\<lparr>w_errno := e, w_mem := m\<rparr>)" "frame_ok w (w\<lparr>w_errno := e\<rparr>)"
  by (simp_all add: frame_ok_def sound_def same_links_def rings_ok_def queues_inv_def run_inv_def
      blk_inv_def)

lemma frame_handle_error: "frame_ok w (vk_socket_handle_error s w)"
  unfolding vk_socket_handle_error_def by (rule frame_upd_socket) (auto simp: rings_ok_def)

lemma frame_note_error: "frame_ok w (snd res) \<Longrightarrow> frame_ok w (note_error s res)"
  by (cases res) (auto simp: note_error_def intro: frame_ok_trans frame_handle_error)

lemma frame_rx_effect: "frame_ok w (snd (vk_socket_handle_rx_effect s w))"
  unfolding vk_socket_handle_rx_effect_def
  by (auto simp: rings_ok_def split: prod.split intro!: frame_upd_socket) (metis hup_flags_wf(4) snd_conv)

lemma frame_tx_effect: "frame_ok w (snd (vk_socket_handle_tx_effect s w))"
  unfolding vk_socket_handle_tx_effect_def
  by (auto simp: rings_ok_def split: prod.split intro!: frame_upd_socket) (metis hup_flags_wf(4) snd_conv)

lemma frame_block_fds: "frame_ok w (block_fds s w)"
  unfolding block_fds_def Let_def
  by (rule frame_ok_trans [OF frame_upd_block frame_upd_block]) simp_all

lemma frame_set_closed:
  "frame_ok w (upd_socket s (so_rx_fd_update (pipe_closed_update f)) w)"
  "frame_ok w (upd_socket s (so_tx_fd_update (pipe_closed_update f)) w)"
  by (rule frame_upd_socket; simp add: rings_ok_def)+

lemma frame_forward_closed: "frame_ok w (forward_closed s w)"
  unfolding forward_closed_def Let_def
  by (auto intro!: frame_ok_trans [OF _ frame_upd_block] frame_ok_trans [OF _ frame_set_closed(2)]
      frame_set_closed(1) frame_upd_block)

lemma frame_block_marks:
  "frame_ok w (vk_socket_mark_read_block s w)" "frame_ok w (vk_socket_clear_read_block s w)"
  "frame_ok w (vk_socket_mark_write_block s w)" "frame_ok w (vk_socket_clear_write_block s w)"
  unfolding vk_socket_mark_read_block_def vk_socket_clear_read_block_def
    vk_socket_mark_write_block_def vk_socket_clear_write_block_def
  by (rule frame_upd_block; simp)+

subsection \<open>Wake-ups and blocking\<close>

lemma yields_enqueue_self: "has_vk w s \<Longrightarrow> yields w (vk_socket_enqueue_self s w)"
  by (auto simp: vk_socket_enqueue_self_def has_vk_def vk_ready_simps intro!: frame_upd_thread)

lemma yields_enqueue_other: "has_vk w s \<Longrightarrow> yields w (enqueue_other s w)"
  unfolding enqueue_other_def has_vk_def
  by (auto intro!: frame_ok_trans [OF frame_enqueue_run frame_upd_thread])

lemma yields_enqueue_read: "has_vk w s \<Longrightarrow> yields w (vk_socket_enqueue_read s w)"
proof -
  assume vk: "has_vk w s"
  obtain b w1 where e: "vk_socket_handle_rx_effect s w = (b, w1)" by fastforce
  have f: "frame_ok w w1" using frame_rx_effect [of w s] by (simp add: e)
  with vk have "yields w1 (vk_socket_enqueue_self s w1)"
    by (simp add: yields_enqueue_self has_vk_frame)
  with f show ?thesis by (auto simp: vk_socket_enqueue_read_def e intro: yields_frame)
qed

lemma yields_enqueue_write: "has_vk w s \<Longrightarrow> yields w (vk_socket_enqueue_write s w)"
proof -
  assume vk: "has_vk w s"
  obtain b w1 where e: "vk_socket_handle_tx_effect s w = (b, w1)" by fastforce
  have f: "frame_ok w w1" using frame_tx_effect [of w s] by (simp add: e)
  with vk have "yields w1 (vk_socket_enqueue_self s w1)"
    by (simp add: yields_enqueue_self has_vk_frame)
  with f show ?thesis by (auto simp: vk_socket_enqueue_write_def e intro: yields_frame)
qed

lemma linked_peer:
  "linked w s \<Longrightarrow> pipe_ref (so_rx_fd (w_socket w s)) = VK_PIPE_VK_TX p \<Longrightarrow> has_vk w p"
  "linked w s \<Longrightarrow> pipe_ref (so_tx_fd (w_socket w s)) = VK_PIPE_VK_RX p \<Longrightarrow> has_vk w p"
  "linked w s \<Longrightarrow> pipe_ref (so_tx_fd (w_socket w s)) = VK_PIPE_VK_TX p \<Longrightarrow> has_vk w p"
  "linked w s \<Longrightarrow> has_vk w s"
  by (auto simp: linked_def pipe_linked_def)

lemma yields_enqueue_readwriter:
  assumes "linked w s" "pipe_ref (so_rx_fd (w_socket w s)) = VK_PIPE_VK_TX p"
  shows "yields w (vk_socket_enqueue_readwriter s w)"
proof -
  have peer: "vk_pipe_get_socket (so_rx_fd (w_socket w s)) = p"
    using assms(2) by (simp add: vk_pipe_get_socket_def)
  obtain b w1 where e: "vk_socket_handle_tx_effect p w = (b, w1)" by fastforce
  have f: "frame_ok w w1" using frame_tx_effect [of w p] by (simp add: e)
  have vk: "has_vk w1 p" "has_vk w1 s"
    using assms linked_peer(1,4) by (auto simp: has_vk_frame [OF f])
  have peer1: "vk_pipe_get_socket (so_rx_fd (w_socket w1 s)) = p"
    using assms(2) pipe_ref_frame(1) [OF f, of s] by (simp add: vk_pipe_get_socket_def)
  have "yields w1 (vk_socket_enqueue_otherwriter s w1 \<bind> vk_socket_enqueue_self s)"
    using vk unfolding vk_socket_enqueue_otherwriter_def peer1
    by (intro yields_bind yields_enqueue_other yields_enqueue_self) (simp_all add: has_vk_frame)
  moreover have "deref p = Some p" using vk(1) by (simp add: has_vk_def)
  ultimately show ?thesis
    using f by (auto simp: vk_socket_enqueue_readwriter_def peer e intro: yields_frame)
qed

lemma yields_enqueue_writereader:
  assumes "linked w s"
    "pipe_ref (so_tx_fd (w_socket w s)) = VK_PIPE_VK_RX p \<or> pipe_ref (so_tx_fd (w_socket w s)) = VK_PIPE_VK_TX p"
  shows "yields w (vk_socket_enqueue_writereader s w)"
proof -
  have peer: "vk_pipe_get_socket (so_tx_fd (w_socket w s)) = p"
    using assms(2) by (auto simp: vk_pipe_get_socket_def)
  obtain b w1 where e: "vk_socket_handle_rx_effect p w = (b, w1)" by fastforce
  have f: "frame_ok w w1" using frame_rx_effect [of w p] by (simp add: e)
  have vk: "has_vk w1 p" "has_vk w1 s"
    using assms linked_peer(2,3,4) by (auto simp: has_vk_frame [OF f])
  have peer1: "vk_pipe_get_socket (so_tx_fd (w_socket w1 s)) = p"
    using assms(2) pipe_ref_frame(2) [OF f, of s] by (auto simp: vk_pipe_get_socket_def)
  have "yields w1 (vk_socket_enqueue_otherreader s w1 \<bind> vk_socket_enqueue_self s)"
    using vk unfolding vk_socket_enqueue_otherreader_def peer1
    by (intro yields_bind yields_enqueue_other yields_enqueue_self) (simp_all add: has_vk_frame)
  moreover have "deref p = Some p" using vk(1) by (simp add: has_vk_def)
  ultimately show ?thesis
    using f by (auto simp: vk_socket_enqueue_writereader_def peer e intro: yields_frame)
qed

lemma yields_enqueue_blocked: "has_vk w s \<Longrightarrow> yields w (vk_socket_enqueue_blocked s w)"
  by (auto simp: vk_socket_enqueue_blocked_def has_vk_def intro!: frame_enqueue_blocked)

lemma yields_handle_block:
  assumes "has_vk w s"
  shows "yields w (vk_socket_handle_block s w)"
proof -
  have f: "frame_ok w (forward_closed s (block_fds s w))"
    by (rule frame_ok_trans [OF frame_block_fds frame_forward_closed])
  have marked: "yields w' (vk_socket_enqueue_blocked s (g w'))"
    if "has_vk w' s" "\<And>v. frame_ok v (g v)" for w' g
    by (rule yields_frame [OF that(2)], rule yields_enqueue_blocked)
      (simp add: has_vk_frame [OF that(2)] that(1))
  let ?w1 = "forward_closed s (block_fds s w)"
  have vk: "has_vk ?w1 s" using assms by (simp add: has_vk_frame [OF f])
  have one: "yields v (if c then vk_socket_enqueue_blocked s (vk_socket_mark_read_block s v)
      else Some (vk_socket_clear_read_block s v))" if "has_vk v s" for v c
    using that by (auto intro: marked frame_block_marks)
  have two: "yields v (if c then vk_socket_enqueue_blocked s (vk_socket_mark_write_block s v)
      else Some (vk_socket_clear_write_block s v))" if "has_vk v s" for v c
    using that by (auto intro: marked frame_block_marks)
  show ?thesis
    unfolding vk_socket_handle_block_def Let_def
    by (rule yields_frame [OF f], rule yields_bind, rule one [OF vk], rule two)
      (simp add: has_vk_frame vk)
qed

lemma yields_rc_block_and: "has_vk w s \<Longrightarrow> yields_rc w (block_and s rc w)"
  unfolding block_and_def
  by (rule yields_rc_bind) (auto intro: yields_handle_block simp: yields_rc_def)

lemma yields_rc_close_end: "has_vk w s \<Longrightarrow> yields_rc w (close_end s w)"
  unfolding close_end_def
  by (intro yields_rc_bind yields_handle_block yields_enqueue_self)
    (auto simp: yields_rc_def has_vk_frame)

subsection \<open>Ring operations\<close>

lemma frame_put_rx:
  "(rings_ok w \<Longrightarrow> ring_wf r) \<Longrightarrow> frame_ok w (snd (put_rx s (rc, e, m, r) w))"
  unfolding put_rx_def prod.case snd_conv
  by (rule frame_ok_trans [OF frame_errno_mem(1) frame_upd_socket]) (auto simp: rings_ok_def)

lemma frame_put_tx:
  "(rings_ok w \<Longrightarrow> ring_wf r) \<Longrightarrow> frame_ok w (snd (put_tx s (rc, e, r) w))"
  unfolding put_tx_def prod.case snd_conv
  by (rule frame_ok_trans [OF frame_errno_mem(2) frame_upd_socket]) (auto simp: rings_ok_def)

lemma rings_okD: "rings_ok w \<Longrightarrow> ring_wf (so_rx (w_socket w s))" "rings_ok w \<Longrightarrow> ring_wf (so_tx (w_socket w s))"
  by (simp_all add: rings_ok_def)

lemma frame_sock_readv: "frame_ok w (snd (sock_readv os s w))"
proof -
  obtain rc e m r where
    eq: "vk_vectoring_read (w_errno w) (w_mem w) (so_rx (w_socket w s)) (os_readv os) = (rc, e, m, r)"
    by (metis prod.exhaust)
  then show ?thesis
    unfolding sock_readv_def eq by (intro frame_put_rx) (rule read_wf [OF rings_okD(1) eq])
qed

lemma frame_sock_accept: "frame_ok w (snd (sock_accept os s w))"
proof -
  obtain rc e m r where
    eq: "vk_vectoring_accept (accepted_size os) (accepted_addr os) (w_errno w) (w_mem w)
      (so_rx (w_socket w s)) (os_accept os) = (rc, e, m, r)"
    by (metis prod.exhaust)
  then show ?thesis
    unfolding sock_accept_def eq by (intro frame_put_rx) (rule accept_wf [OF rings_okD(1) eq])
qed

lemma frame_sock_writev: "frame_ok w (snd (sock_writev os s w))"
proof -
  obtain rc e r wire where
    eq: "vk_vectoring_write (w_errno w) (w_mem w) (so_tx (w_socket w s)) (os_writev os) = (rc, e, r, wire)"
    by (metis prod.exhaust)
  then show ?thesis
    unfolding sock_writev_def eq Let_def prod.case
    by (intro frame_put_tx) (rule write_wf [OF rings_okD(2) eq])
qed

lemma frame_sock_splice: "frame_ok w (snd (sock_splice os rx tx w))"
proof -
  obtain rc e m r t where
    eq: "vk_vectoring_splice (lit_addr os) (w_errno w) (w_mem w) (so_rx (w_socket w rx))
      (so_tx (w_socket w tx)) (- 1) = (rc, e, m, r, t)"
    by (metis prod.exhaust)
  have wf: "ring_wf r \<and> ring_wf t" if "rings_ok w"
    using splice_wf [OF rings_okD(1) [OF that] rings_okD(2) [OF that] eq] .
  let ?w1 = "w\<lparr>w_errno := e, w_mem := m\<rparr>"
  let ?w2 = "upd_socket rx (so_rx_update (\<lambda>_. r)) ?w1"
  have "sound w \<longrightarrow> sound (upd_socket tx (so_tx_update (\<lambda>_. t)) ?w2)"
  proof
    assume s: "sound w"
    then have "queues_inv ?w1" using frame_errno_mem(1) [of w m e] by (simp add: frame_ok_def sound_def)
    moreover have "ring_wf r" "ring_wf t" using s wf by (simp_all add: sound_def)
    ultimately show "sound (upd_socket tx (so_tx_update (\<lambda>_. t)) ?w2)"
      using s by (simp add: sound_def queues_inv_upd_socket rings_ok_def)
  qed
  moreover have "same_links w (upd_socket tx (so_tx_update (\<lambda>_. t)) ?w2)"
    by (simp add: same_links_def)
  ultimately show ?thesis by (simp add: sock_splice_def eq frame_ok_def)
qed

lemma frame_mark_closed: "frame_ok w (mark_rx_closed s w)" "frame_ok w (mark_tx_closed s w)"
  unfolding mark_rx_closed_def mark_tx_closed_def
  by (rule frame_upd_socket; simp add: rings_ok_def)+

lemma frame_set_errno: "frame_ok w (set_errno e w)"
  unfolding set_errno_def by (rule frame_errno_mem)

subsection \<open>Handlers\<close>

lemma yields_enqueue_read': "frame_ok w v \<Longrightarrow> linked w s \<Longrightarrow> yields w (vk_socket_enqueue_read s v)"
  by (rule yields_frame, assumption) (simp add: yields_enqueue_read has_vk_frame linked_peer(4))

lemma yields_enqueue_write': "frame_ok w v \<Longrightarrow> linked w s \<Longrightarrow> yields w (vk_socket_enqueue_write s v)"
  by (rule yields_frame, assumption) (simp add: yields_enqueue_write has_vk_frame linked_peer(4))

lemma yields_readwriter':
  "frame_ok w v \<Longrightarrow> linked w s \<Longrightarrow> pipe_ref (so_rx_fd (w_socket w s)) = VK_PIPE_VK_TX p \<Longrightarrow>
    yields v (vk_socket_enqueue_readwriter s v)"
  by (rule yields_enqueue_readwriter) (simp_all add: linked_frame pipe_ref_frame(1))

lemma yields_writereader':
  "frame_ok w v \<Longrightarrow> linked w s \<Longrightarrow> pipe_ref (so_tx_fd (w_socket w s)) = VK_PIPE_VK_RX p \<or>
    pipe_ref (so_tx_fd (w_socket w s)) = VK_PIPE_VK_TX p \<Longrightarrow> yields v (vk_socket_enqueue_writereader s v)"
  by (rule yields_enqueue_writereader) (simp_all add: linked_frame pipe_ref_frame(2))

lemma yields_block_and': "frame_ok w v \<Longrightarrow> linked w s \<Longrightarrow> yields_rc v (block_and s rc v)"
  by (rule yields_rc_block_and) (simp add: has_vk_frame linked_peer(4))

lemma yields_close_end': "frame_ok w v \<Longrightarrow> linked w s \<Longrightarrow> yields_rc v (close_end s v)"
  by (rule yields_rc_close_end) (simp add: has_vk_frame linked_peer(4))

lemma deref_vk: "has_vk w p \<Longrightarrow> deref p = Some p"
  by (simp add: has_vk_def)

lemmas frame_steps = frame_note_error frame_sock_readv frame_sock_accept frame_sock_writev
  frame_sock_splice frame_ok_refl

lemma yields_rc_Some: "frame_ok w v \<Longrightarrow> yields_rc w (Some (rc, v))"
  by (simp add: yields_rc_def)

lemma handle_read_yields:
  assumes "linked w s"
  shows "yields_rc w (vk_socket_handle_read os s w)"
proof (cases "pipe_ref (so_rx_fd (w_socket w s))")
  case (VK_PIPE_OS_FD fd)
  then show ?thesis
    unfolding vk_socket_handle_read_def using assms
    by (auto intro!: yields_rc_bind [OF yields_enqueue_read'] yields_block_and' frame_steps)
next
  case (VK_PIPE_VK_TX p)
  note d = deref_vk [OF linked_peer(1) [OF assms VK_PIPE_VK_TX]]
  have "yields_rc w (vk_socket_enqueue_read s (note_error s (sock_splice os s p w)) \<bind>
      (\<lambda>w1. vk_socket_enqueue_readwriter s w1 \<bind> block_and s 0))"
    by (rule yields_rc_bind [OF yields_enqueue_read'], intro frame_steps, rule assms,
        rule yields_rc_bind [OF yields_readwriter'], assumption, rule assms, rule VK_PIPE_VK_TX,
        rule yields_block_and' [OF frame_ok_trans], assumption, assumption, rule assms)
  then show ?thesis by (simp add: vk_socket_handle_read_def VK_PIPE_VK_TX d)
next
  case (VK_PIPE_VK_RX p)
  have "yields_rc (set_errno EINVAL w) (block_and s (- 1) (set_errno EINVAL w))"
    by (rule yields_block_and' [OF frame_set_errno assms])
  then show ?thesis
    by (simp add: vk_socket_handle_read_def VK_PIPE_VK_RX yields_rc_frame [OF frame_set_errno])
qed

lemma handle_write_yields:
  assumes "linked w s"
  shows "yields_rc w (vk_socket_handle_write os s w)"
proof (cases "pipe_ref (so_tx_fd (w_socket w s))")
  case (VK_PIPE_OS_FD fd)
  then show ?thesis
    unfolding vk_socket_handle_write_def using assms
    by (auto intro!: yields_rc_bind [OF yields_enqueue_write'] yields_block_and' frame_steps)
next
  case (VK_PIPE_VK_RX p)
  note d = deref_vk [OF linked_peer(2) [OF assms VK_PIPE_VK_RX]]
  have "yields_rc w (vk_socket_enqueue_write s (note_error s (sock_splice os p s w)) \<bind>
      (\<lambda>w1. vk_socket_enqueue_writereader s w1 \<bind> block_and s 0))"
    by (rule yields_rc_bind [OF yields_enqueue_write'], intro frame_steps, rule assms,
        rule yields_rc_bind [OF yields_writereader'], assumption, rule assms,
        rule disjI1 [OF VK_PIPE_VK_RX],
        rule yields_block_and' [OF frame_ok_trans], assumption, assumption, rule assms)
  then show ?thesis by (simp add: vk_socket_handle_write_def VK_PIPE_VK_RX d)
next
  case (VK_PIPE_VK_TX p)
  have "yields_rc (set_errno EINVAL w) (block_and s (- 1) (set_errno EINVAL w))"
    by (rule yields_block_and' [OF frame_set_errno assms])
  then show ?thesis
    by (simp add: vk_socket_handle_write_def VK_PIPE_VK_TX yields_rc_frame [OF frame_set_errno])
qed

lemma forward_write_yields:
  assumes "linked w s"
  shows "yields_rc w (forward_write guard os s w)"
proof (cases "pipe_ref (so_tx_fd (w_socket w s))")
  case (VK_PIPE_OS_FD fd)
  then show ?thesis
    unfolding forward_write_def using assms
    by (auto intro!: yields_rc_bind [OF yields_enqueue_write'] yields_block_and' frame_steps)
next
  case (VK_PIPE_VK_RX p)
  note vk = linked_peer(2) [OF assms VK_PIPE_VK_RX]
  let ?wake = "\<lambda>w1. if guard
      then (if rx_blocked (so_rx (w_socket w1 p))
            then vk_socket_enqueue_writereader s w1 \<bind> (\<lambda>w'. deref (blocked_vk (so_block (w_socket w' p))) \<bind>
                   (\<lambda>t. Some (vk_proc_local_enqueue_run t w')))
            else Some w1)
      else vk_socket_enqueue_writereader s w1"
  have run: "yields w' (deref (blocked_vk (so_block (w_socket w' p))) \<bind>
      (\<lambda>t. Some (vk_proc_local_enqueue_run t w')))" if "frame_ok w w'" for w'
    using has_vk_frame [OF that, of p] vk by (auto simp: has_vk_def intro: frame_enqueue_run)
  have wr: "yields w1 (vk_socket_enqueue_writereader s w1)" if "frame_ok w w1" for w1
    by (rule yields_writereader' [OF that assms disjI1 [OF VK_PIPE_VK_RX]])
  have wake: "yields w1 (?wake w1)" if "frame_ok w w1" for w1
    using wr [OF that] yields_bind [OF wr [OF that] run [OF frame_ok_trans [OF that]]] by auto
  have "yields_rc w (vk_socket_enqueue_write s (note_error s (sock_splice os p s w)) \<bind>
      (\<lambda>w1. ?wake w1 \<bind> block_and s 0))"
    by (rule yields_rc_bind [OF yields_enqueue_write'], intro frame_steps, rule assms,
        rule yields_rc_bind [OF wake], assumption,
        rule yields_block_and' [OF frame_ok_trans], assumption, assumption, rule assms)
  then show ?thesis by (simp add: forward_write_def VK_PIPE_VK_RX deref_vk [OF vk])
next
  case (VK_PIPE_VK_TX p)
  then show ?thesis by (simp add: forward_write_def yields_rc_Some [OF frame_set_errno])
qed

lemma handle_forward_yields:
  assumes "linked w s"
  shows "yields_rc w (vk_socket_handle_forward os s w)"
proof (cases "pipe_ref (so_rx_fd (w_socket w s))")
  case (VK_PIPE_OS_FD fd)
  have "yields_rc w (vk_socket_enqueue_read s (note_error s (sock_readv os s w)) \<bind> forward_write True os s)"
    by (rule yields_rc_bind [OF yields_enqueue_read'], intro frame_steps, rule assms,
        rule forward_write_yields) (simp add: linked_frame assms)
  then show ?thesis by (simp add: vk_socket_handle_forward_def VK_PIPE_OS_FD)
next
  case (VK_PIPE_VK_TX p)
  note d = deref_vk [OF linked_peer(1) [OF assms VK_PIPE_VK_TX]]
  have "yields_rc w (vk_socket_enqueue_read s (note_error s (sock_splice os s p w)) \<bind>
      (\<lambda>w1. vk_socket_enqueue_readwriter s w1 \<bind> forward_write False os s))"
    by (rule yields_rc_bind [OF yields_enqueue_read'], intro frame_steps, rule assms,
        rule yields_rc_bind [OF yields_readwriter'], assumption, rule assms, rule VK_PIPE_VK_TX,
        rule forward_write_yields) (simp add: linked_frame assms)
  then show ?thesis by (simp add: vk_socket_handle_forward_def VK_PIPE_VK_TX d)
next
  case (VK_PIPE_VK_RX p)
  then show ?thesis by (simp add: vk_socket_handle_forward_def yields_rc_Some [OF frame_set_errno])
qed

lemma frame_put_hup:
  assumes "vk_vectoring_forwardhup (so_tx (w_socket w p)) (so_rx (w_socket w s)) = (rc, t, r)"
  shows "frame_ok w (upd_socket s (so_rx_update (\<lambda>_. r)) (upd_socket p (so_tx_update (\<lambda>_. t)) w))"
proof -
  have wf: "ring_wf t \<and> ring_wf r" if "rings_ok w"
    using forwardhup_wf [OF rings_okD(2) [OF that] rings_okD(1) [OF that] assms] .
  let ?w = "upd_socket s (so_rx_update (\<lambda>_. r)) (upd_socket p (so_tx_update (\<lambda>_. t)) w)"
  have "sound w \<longrightarrow> sound ?w"
    using wf by (auto simp: sound_def queues_inv_upd_socket rings_ok_def)
  moreover have "same_links w ?w" by (simp add: same_links_def)
  ultimately show ?thesis by (simp add: frame_ok_def)
qed

lemma handle_readhup_yields:
  assumes "linked w s"
  shows "yields_rc w (vk_socket_handle_readhup s w)"
proof (cases "pipe_ref (so_rx_fd (w_socket w s))")
  case (VK_PIPE_OS_FD fd)
  then show ?thesis
    unfolding vk_socket_handle_readhup_def using assms
    by (auto intro!: yields_rc_bind [OF yields_enqueue_read'] yields_block_and')
next
  case (VK_PIPE_VK_TX p)
  note d = deref_vk [OF linked_peer(1) [OF assms VK_PIPE_VK_TX]]
  obtain rc t r where h: "vk_vectoring_forwardhup (so_tx (w_socket w p)) (so_rx (w_socket w s)) = (rc, t, r)"
    by (metis prod.exhaust)
  note f = frame_put_hup [OF h]
  let ?w1 = "upd_socket s (so_rx_update (\<lambda>_. r)) (upd_socket p (so_tx_update (\<lambda>_. t)) w)"
  have "yields w (if rc \<noteq> 0 then vk_socket_enqueue_read s ?w1 \<bind> vk_socket_enqueue_readwriter s
      else Some ?w1)"
    using f assms VK_PIPE_VK_TX
    by (auto intro!: yields_bind [OF yields_enqueue_read' [OF f]] yields_readwriter')
  then have "yields_rc w ((if rc \<noteq> 0 then vk_socket_enqueue_read s ?w1 \<bind> vk_socket_enqueue_readwriter s
      else Some ?w1) \<bind> block_and s 0)"
    by (rule yields_rc_bind) (rule yields_block_and', assumption, rule assms)
  then show ?thesis by (simp add: vk_socket_handle_readhup_def VK_PIPE_VK_TX d h Let_def)
next
  case (VK_PIPE_VK_RX p)
  then show ?thesis by (simp add: vk_socket_handle_readhup_def yields_rc_Some [OF frame_set_errno])
qed

lemma handle_hup_yields:
  assumes "linked w s"
  shows "yields_rc w (vk_socket_handle_hup s w)"
proof (cases "pipe_ref (so_tx_fd (w_socket w s))")
  case (VK_PIPE_OS_FD fd)
  then show ?thesis
    unfolding vk_socket_handle_hup_def using assms
    by (auto intro!: yields_rc_bind [OF yields_enqueue_write'] yields_block_and')
next
  case (VK_PIPE_VK_RX p)
  have "yields w (if \<not> vec_eof (so_tx (w_socket w s))
      then vk_socket_enqueue_write s w \<bind> vk_socket_enqueue_writereader s else Some w)"
    using assms VK_PIPE_VK_RX
    by (auto intro!: yields_bind [OF yields_enqueue_write' [OF frame_ok_refl]] yields_writereader')
  then have "yields_rc w ((if \<not> vec_eof (so_tx (w_socket w s))
      then vk_socket_enqueue_write s w \<bind> vk_socket_enqueue_writereader s else Some w) \<bind> block_and s 0)"
    by (rule yields_rc_bind) (rule yields_block_and', assumption, rule assms)
  then show ?thesis by (simp add: vk_socket_handle_hup_def VK_PIPE_VK_RX)
next
  case (VK_PIPE_VK_TX p)
  then show ?thesis by (simp add: vk_socket_handle_hup_def yields_rc_Some [OF frame_set_errno])
qed

lemma frame_put_rx_ring:
  "(rings_ok w \<Longrightarrow> ring_wf (snd (snd res))) \<Longrightarrow> frame_ok w (snd (put_rx_ring s res w))"
  by (cases res) (auto simp: put_rx_ring_def intro: frame_put_rx)

lemma frame_put_tx_ring:
  "(rings_ok w \<Longrightarrow> ring_wf (snd (snd res))) \<Longrightarrow> frame_ok w (snd (put_tx s res w))"
  by (cases res) (auto intro: frame_put_tx)

lemma close_rings_wf:
  "ring_wf r \<Longrightarrow> ring_wf (snd (snd (vk_vectoring_close r c1 c2)))"
  "ring_wf r \<Longrightarrow> ring_wf (snd (snd (vk_vectoring_rx_shutdown r c1 c2)))"
  "ring_wf r \<Longrightarrow> ring_wf (snd (snd (vk_vectoring_tx_shutdown r c1 c2)))"
  by (metis close_wf rx_shutdown_wf tx_shutdown_wf prod.collapse)+

lemma frame_tx_finish:
  "(\<And>r. ring_wf r \<Longrightarrow> ring_wf (snd (snd (f r)))) \<Longrightarrow>
    frame_ok w (mark_tx_closed s (note_error s (put_tx s (f (so_tx (w_socket w s))) w)))"
  by (rule frame_ok_trans [OF frame_note_error frame_mark_closed(2)], rule frame_put_tx_ring)
    (simp add: rings_okD)

lemma frame_rx_finish:
  "(\<And>r. ring_wf r \<Longrightarrow> ring_wf (snd (snd (f r)))) \<Longrightarrow>
    frame_ok w (mark_rx_closed s (note_error s (put_rx_ring s (f (so_rx (w_socket w s))) w)))"
  by (rule frame_ok_trans [OF frame_note_error frame_mark_closed(1)], rule frame_put_rx_ring)
    (simp add: rings_okD)

lemma frame_mark_eof: "frame_ok w (upd_socket s (so_tx_update (\<lambda>r. snd (vk_vectoring_mark_eof r))) w)"
  by (rule frame_upd_socket) (auto simp: rings_ok_def)

lemma write_then_close:
  "frame_ok w v \<Longrightarrow> linked w s \<Longrightarrow> yields_rc w (vk_socket_enqueue_write s v \<bind> close_end s)"
  by (rule yields_rc_bind [OF yields_enqueue_write'], assumption, assumption, rule yields_close_end')

lemma read_then_close:
  "frame_ok w v \<Longrightarrow> linked w s \<Longrightarrow> yields_rc w (vk_socket_enqueue_read s v \<bind> close_end s)"
  by (rule yields_rc_bind [OF yields_enqueue_read'], assumption, assumption, rule yields_close_end')

lemma handle_tx_close_yields:
  assumes "linked w s"
  shows "yields_rc w (vk_socket_handle_tx_close os s w)"
proof -
  have virtual: "yields_rc w (vk_socket_enqueue_write s
        (upd_socket s (so_tx_update (\<lambda>r. snd (vk_vectoring_mark_eof r))) w) \<bind>
      (\<lambda>w1. vk_socket_enqueue_writereader s w1 \<bind> close_end s))"
    if "pipe_ref (so_tx_fd (w_socket w s)) = VK_PIPE_VK_RX p \<or>
      pipe_ref (so_tx_fd (w_socket w s)) = VK_PIPE_VK_TX p" for p
    by (rule yields_rc_bind [OF yields_enqueue_write'], rule frame_mark_eof, rule assms,
        rule yields_rc_bind [OF yields_writereader'], assumption, rule assms, rule that,
        rule yields_close_end' [OF frame_ok_trans], assumption, assumption, rule assms)
  show ?thesis
    using virtual write_then_close [OF frame_tx_finish assms, OF close_rings_wf(1)]
    by (cases "pipe_ref (so_tx_fd (w_socket w s))") (simp_all add: vk_socket_handle_tx_close_def)
qed

lemma handle_rx_close_yields:
  assumes "linked w s"
  shows "yields_rc w (vk_socket_handle_rx_close os s w)"
  using read_then_close [OF frame_rx_finish assms, OF close_rings_wf(1)]
    read_then_close [OF frame_ok_refl assms]
  by (cases "pipe_ref (so_rx_fd (w_socket w s))") (simp_all add: vk_socket_handle_rx_close_def)

lemma handle_tx_shutdown_yields:
  assumes "linked w s"
  shows "yields_rc w (vk_socket_handle_tx_shutdown os s w)"
  using write_then_close [OF frame_tx_finish assms, OF close_rings_wf(3)]
    write_then_close [OF frame_ok_refl assms]
  by (cases "pipe_ref (so_tx_fd (w_socket w s))") (simp_all add: vk_socket_handle_tx_shutdown_def)

lemma handle_rx_shutdown_yields:
  assumes "linked w s"
  shows "yields_rc w (vk_socket_handle_rx_shutdown os s w)"
  using read_then_close [OF frame_rx_finish assms, OF close_rings_wf(2)]
    read_then_close [OF frame_ok_refl assms]
  by (cases "pipe_ref (so_rx_fd (w_socket w s))") (simp_all add: vk_socket_handle_rx_shutdown_def)

lemma handle_able_frames:
  "frame_ok w (snd (vk_socket_handle_readable s w))" "frame_ok w (snd (vk_socket_handle_writable s w))"
  by (simp_all add: vk_socket_handle_readable_def vk_socket_handle_writable_def
      frame_ok_trans [OF frame_block_marks(1) frame_block_marks(4)]
      frame_ok_trans [OF frame_block_marks(3) frame_block_marks(2)])

lemma yields_rc_lift: "frame_ok w (snd p) \<Longrightarrow> yields_rc w (Some p)"
  by (cases p) (simp add: yields_rc_def)

lemma handler_yields:
  assumes "linked w s"
  shows "yields_rc w (vk_socket_handler os s w)"
proof (cases "blk_op (so_block (w_socket w s)) = VK_OP_READ")
  case True
  obtain rc w1 where r: "vk_socket_handle_read os s w = Some (rc, w1)" "frame_ok w w1"
    using handle_read_yields [OF assms, of os] by (auto simp: yields_rc_def)
  have "yields_rc w1 (vk_socket_handle_write os s w1)"
    using assms r(2) by (simp add: handle_write_yields linked_frame)
  then have "yields_rc w (vk_socket_handle_write os s w1)" by (rule yields_rc_frame [OF r(2)])
  with r True show ?thesis by (simp add: vk_socket_handler_def yields_rc_Some)
next
  case False
  then show ?thesis
    unfolding vk_socket_handler_def
    by (cases "blk_op (so_block (w_socket w s))")
      (simp_all add: handle_write_yields handle_forward_yields handle_hup_yields handle_readhup_yields
        handle_tx_close_yields handle_rx_close_yields handle_tx_shutdown_yields
        handle_rx_shutdown_yields assms yields_rc_lift handle_able_frames)
qed

text \<open>An operation is only refused on a pipe of the wrong direction: one that reads from a receiving
  ring or writes to a sending one.\<close>

definition well_piped :: "vk_socket \<Rightarrow> bool" where
  "well_piped so \<longleftrightarrow>
     (case pipe_ref (so_rx_fd so) of VK_PIPE_VK_RX _ \<Rightarrow> False | _ \<Rightarrow> True) \<and>
     (case pipe_ref (so_tx_fd so) of VK_PIPE_VK_TX _ \<Rightarrow> False | _ \<Rightarrow> True)"

lemma well_piped_frame: "frame_ok w w' \<Longrightarrow> well_piped (w_socket w' s) = well_piped (w_socket w s)"
  by (simp add: well_piped_def frame_ok_def same_links_def)

lemma block_and_rc: "block_and s rc w = Some (rc', w') \<Longrightarrow> rc' = rc"
  by (auto simp: block_and_def bind_eq_Some_conv)

lemma close_end_rc: "close_end s w = Some (rc, w') \<Longrightarrow> rc = 0"
  by (auto simp: close_end_def bind_eq_Some_conv)

lemmas handler_rcs = bind_eq_Some_conv well_piped_def Let_def split_beta

lemma handle_write_rc:
  "well_piped (w_socket w s) \<Longrightarrow> vk_socket_handle_write os s w = Some (rc, w') \<Longrightarrow> rc = 0"
  by (auto simp: vk_socket_handle_write_def handler_rcs dest: block_and_rc split: vk_pipe_ref.splits)

lemma handle_read_rc:
  "well_piped (w_socket w s) \<Longrightarrow> vk_socket_handle_read os s w = Some (rc, w') \<Longrightarrow> rc = 0"
  by (auto simp: vk_socket_handle_read_def handler_rcs dest: block_and_rc split: vk_pipe_ref.splits)

lemma forward_write_rc:
  "well_piped (w_socket w s) \<Longrightarrow> forward_write guard os s w = Some (rc, w') \<Longrightarrow> rc = 0"
  by (auto simp: forward_write_def handler_rcs dest: block_and_rc split: vk_pipe_ref.splits)

lemma enqueue_read_frame:
  "linked w s \<Longrightarrow> frame_ok w v \<Longrightarrow> vk_socket_enqueue_read s v = Some w' \<Longrightarrow> frame_ok w w'"
  using yields_enqueue_read' [of w v s] by (auto simp: yields_def)

lemma enqueue_readwriter_frame:
  "linked w s \<Longrightarrow> frame_ok w v \<Longrightarrow> pipe_ref (so_rx_fd (w_socket w s)) = VK_PIPE_VK_TX p \<Longrightarrow>
    vk_socket_enqueue_readwriter s v = Some w' \<Longrightarrow> frame_ok w w'"
  using yields_readwriter' [of w v s p] by (auto simp: yields_def intro: frame_ok_trans)

lemma handle_forward_rc:
  assumes "linked w s" "well_piped (w_socket w s)" "vk_socket_handle_forward os s w = Some (rc, w')"
  shows "rc = 0"
proof (cases "pipe_ref (so_rx_fd (w_socket w s))")
  case (VK_PIPE_OS_FD fd)
  then obtain w1 where w1: "vk_socket_enqueue_read s (note_error s (sock_readv os s w)) = Some w1"
    "forward_write True os s w1 = Some (rc, w')"
    using assms(3) by (auto simp: vk_socket_handle_forward_def bind_eq_Some_conv)
  have "frame_ok w w1" by (rule enqueue_read_frame [OF assms(1) _ w1(1)]) (intro frame_steps)
  then show ?thesis using forward_write_rc [OF _ w1(2)] assms(2) by (simp add: well_piped_frame)
next
  case (VK_PIPE_VK_TX p)
  then obtain w1 w2 where w1: "vk_socket_enqueue_read s (note_error s (sock_splice os s p w)) = Some w1"
    "vk_socket_enqueue_readwriter s w1 = Some w2" "forward_write False os s w2 = Some (rc, w')"
    using assms(3) by (auto simp: vk_socket_handle_forward_def bind_eq_Some_conv deref_def split: if_splits)
  have "frame_ok w w1" by (rule enqueue_read_frame [OF assms(1) _ w1(1)]) (intro frame_steps)
  from enqueue_readwriter_frame [OF assms(1) this VK_PIPE_VK_TX w1(2)]
  show ?thesis using forward_write_rc [OF _ w1(3)] assms(2) by (simp add: well_piped_frame)
qed (use assms(2) in \<open>simp add: well_piped_def\<close>)

lemma handle_hup_rcs:
  "well_piped (w_socket w s) \<Longrightarrow> vk_socket_handle_hup s w = Some (rc, w') \<Longrightarrow> rc = 0"
  "well_piped (w_socket w s) \<Longrightarrow> vk_socket_handle_readhup s w = Some (rc, w') \<Longrightarrow> rc = 0"
  by (auto simp: vk_socket_handle_hup_def vk_socket_handle_readhup_def handler_rcs
      dest: block_and_rc split: vk_pipe_ref.splits)

lemma handle_close_rcs:
  "vk_socket_handle_tx_close os s w = Some (rc, w') \<Longrightarrow> rc = 0"
  "vk_socket_handle_rx_close os s w = Some (rc, w') \<Longrightarrow> rc = 0"
  "vk_socket_handle_tx_shutdown os s w = Some (rc, w') \<Longrightarrow> rc = 0"
  "vk_socket_handle_rx_shutdown os s w = Some (rc, w') \<Longrightarrow> rc = 0"
  by (auto simp: vk_socket_handle_tx_close_def vk_socket_handle_rx_close_def vk_socket_handle_tx_shutdown_def
      vk_socket_handle_rx_shutdown_def bind_eq_Some_conv dest: close_end_rc split: vk_pipe_ref.splits)

lemma handler_rc:
  assumes "linked w s" "well_piped (w_socket w s)" "vk_socket_handler os s w = Some (rc, w')"
  shows "rc = 0"
proof (cases "blk_op (so_block (w_socket w s)) = VK_OP_READ")
  case True
  obtain r w1 where r: "vk_socket_handle_read os s w = Some (r, w1)" "frame_ok w w1"
    using handle_read_yields [OF assms(1), of os] by (auto simp: yields_rc_def)
  then have "well_piped (w_socket w1 s)" using assms(2) by (simp add: well_piped_frame)
  then show ?thesis
    using True assms(3) r(1) handle_read_rc [OF assms(2) r(1)] handle_write_rc [of w1 s os]
    by (auto simp: vk_socket_handler_def split: if_splits)
next
  case False
  then show ?thesis
    using assms handle_forward_rc [OF assms(1,2)] handle_write_rc [OF assms(2)] handle_hup_rcs [OF assms(2)]
    by (cases "blk_op (so_block (w_socket w s))")
      (auto simp: vk_socket_handler_def vk_socket_handle_readable_def vk_socket_handle_writable_def
        dest: handle_close_rcs)
qed

text \<open>C18: Every blocking operation of a socket is handled to the end: if the socket, and the sockets its
  pipes lead to, are attached to coroutines, the handler of whatever operation is pending
  returns without following a null pointer, for every answer of the system calls; it keeps
  the run and blocked queues consistent and every ring of the process well-formed, and it
  leaves every socket attached where it was.\<close>

theorem socket_handler_total:
  assumes "linked w s" "queues_inv w" "rings_ok w"
  shows "\<exists>rc w'. vk_socket_handler os s w = Some (rc, w') \<and> queues_inv w' \<and> rings_ok w' \<and> linked w' s"
  using handler_yields [OF assms(1), of os] assms linked_frame
  by (auto simp: yields_rc_def frame_ok_def sound_def)

definition quiet_os :: os_calls where
  "quiet_os = \<lparr>os_readv = Inl EAGAIN, os_writev = Inr 100, os_accept = Inl EAGAIN, os_close = (0, 0),
     os_close2 = (0, 0), os_shutdown = (0, 0), os_shutdown2 = (0, 0), accepted_size = 64,
     accepted_addr = 65536, lit_addr = 1\<rparr>"

lemma idle_world_linked: "linked idle_world 128" "rings_ok idle_world"
  by (simp_all add: linked_def has_vk_def pipe_linked_def rings_ok_def idle_world_def idle_socket_def
      os_pipe_def wrapped_ring_wf empty_ring_wf)

theorem socket_handler_total_witness:
  "\<exists>rc w'. vk_socket_handler quiet_os 128 idle_world = Some (rc, w') \<and> queues_inv w'"
  using socket_handler_total [OF idle_world_linked(1) idle_world_inv idle_world_linked(2), of quiet_os]
  by blast

end
