(* ===== verification/Scheduler.thy ===== *)
theory Scheduler
  imports Socket_Inv
begin

text \<open>
  Running the coroutines of a process (src/vk_proc_local.c, src/vk_thread.c): unblocking a
  coroutine by handling the operation it waits for, retrying a polled socket, and the loop
  that dispatches the run queue until it is empty. The functions of the coroutines are
  code of the application: \<open>body f t w\<close> is what the call \<open>func(that)\<close> of the function
  \<open>f\<close> on the coroutine \<open>t\<close> makes of the world, \<open>None\<close> when it does not return.
\<close>

type_synonym bodies = "nat \<Rightarrow> addr \<Rightarrow> vk_world \<Rightarrow> vk_world option"

subsection \<open>Unblocking and retrying\<close>

definition vk_unblock :: "os_calls \<Rightarrow> addr \<Rightarrow> vk_world \<Rightarrow> (int \<times> vk_world) option" where
  "vk_unblock os t w =
     (if th_status (w_thread w t) = VK_PROC_WAIT
      then (if th_waiting_socket (w_thread w t) \<noteq> 0
            then vk_socket_handler os (th_waiting_socket (w_thread w t)) w
            else Some (- 1, set_errno EINVAL w))
      else Some (0, w))"

definition unblock_rx :: "addr \<Rightarrow> vk_world \<Rightarrow> vk_world" where
  "unblock_rx s w =
     (if ev_revents (ioft_event (ioft_rx_ret (so_block (w_socket w s)))) AND
           (POLLIN OR POLLRDHUP OR POLLERR) \<noteq> 0
      then upd_socket s (so_rx_update (rx_blocked_update (\<lambda>_. False))) w else w)"

definition unblock_tx :: "addr \<Rightarrow> vk_world \<Rightarrow> vk_world" where
  "unblock_tx s w =
     (if ev_revents (ioft_event (ioft_tx_ret (so_block (w_socket w s)))) AND (POLLOUT OR POLLHUP) \<noteq> 0
      then upd_socket s (so_tx_update (tx_blocked_update (\<lambda>_. False))) w else w)"

definition vk_proc_local_retry_socket ::
  "os_calls \<Rightarrow> addr \<Rightarrow> vk_world \<Rightarrow> (int \<times> vk_world) option" where
  "vk_proc_local_retry_socket os s w =
     (let that = blocked_vk (so_block (w_socket w s))
      in do {
        (rc, w1) \<leftarrow> vk_socket_handler os s (unblock_tx s (unblock_rx s w));
        if rc = - 1 then Some (- 1, w1)
        else do {
          w2 \<leftarrow> vk_proc_local_drop_blocked s w1;
          t \<leftarrow> deref that;
          Some (0, vk_proc_local_enqueue_run t w2) }
      })"

subsection \<open>Ending a coroutine\<close>

text \<open>The result of a pop is not looked at.\<close>

definition pop_frame :: "vk_world \<Rightarrow> vk_world" where
  "pop_frame w =
     (case vk_stack_pop (w_mem w) (pl_stack (w_local w)) of
        Inl e \<Rightarrow> set_errno e w
      | Inr st \<Rightarrow> upd_local (pl_stack_update (\<lambda>_. st)) w)"

definition vk_deinit :: "addr \<Rightarrow> vk_world \<Rightarrow> vk_world" where
  "vk_deinit t w = pop_frame (pop_frame w)"

subsection \<open>The execution loop\<close>

text \<open>One turn of the inner loop: a call of the coroutine and what follows it.\<close>

definition execute_call ::
  "os_calls \<Rightarrow> bodies \<Rightarrow> addr \<Rightarrow> vk_world \<Rightarrow> (int \<times> vk_world) option" where
  "execute_call os body t w =
     do {
       w1 \<leftarrow> body (th_func (w_thread w t)) t (upd_local (running_cr_update (\<lambda>_. t)) w);
       let w2 = upd_local (running_cr_update (\<lambda>_. 0)) w1;
       if th_status (w_thread w2 t) = VK_PROC_END
       then do {
         w3 \<leftarrow> vk_proc_local_drop_blocked_for t w2;
         let w4 = vk_deinit t w3;
         w5 \<leftarrow> (if run_enq (w_thread w4 t) then vk_proc_local_drop_run t w4 else Some w4);
         Some (0, w5) }
       else vk_unblock os t w2
     }"

text \<open>\<open>Killed\<close> is a fault outside of the model's definitions, \<open>Out_Of_Fuel\<close> no result yet.\<close>

datatype executed = Returns int vk_world | Killed | Out_Of_Fuel

text \<open>The two nested loops as one recursion: without a current coroutine the next is
  dequeued, with one it is called while it is ready. Fuel bounds the turns of both loops;
  \<open>os i\<close> are the system call outcomes of turn \<open>i\<close>.\<close>

fun execute_loop ::
  "(nat \<Rightarrow> os_calls) \<Rightarrow> bodies \<Rightarrow> nat \<Rightarrow> nat \<Rightarrow> addr option \<Rightarrow> vk_world \<Rightarrow> executed" where
  "execute_loop os body i 0 cur w = Out_Of_Fuel"
| "execute_loop os body i (Suc n) None w =
     (case vk_proc_local_dequeue_run w of
        None \<Rightarrow> Returns 0 w
      | Some (t, w') \<Rightarrow> execute_loop os body (Suc i) n (Some t) w')"
| "execute_loop os body i (Suc n) (Some t) w =
     (if vk_is_ready (w_thread w t)
      then (case execute_call (os i) body t w of
              None \<Rightarrow> Killed
            | Some (rc, w') \<Rightarrow>
                if rc = - 1 then Returns (- 1) w' else execute_loop os body (Suc i) n (Some t) w')
      else execute_loop os body (Suc i) n None
             (if vk_is_yielding (w_thread w t) then upd_thread t vk_ready w else w))"

definition vk_proc_local_execute ::
  "(nat \<Rightarrow> os_calls) \<Rightarrow> bodies \<Rightarrow> nat \<Rightarrow> vk_world \<Rightarrow> executed" where
  "vk_proc_local_execute os body fuel w = execute_loop os body 0 fuel None w"

text \<open>The isolated variant is a loop of its own: the call goes through \<open>vk_isolate_continue\<close>, which
  is \<open>isolate\<close> here, with a trampoline that reads the function of the coroutine.\<close>

definition vk_iso_tramp :: "bodies \<Rightarrow> addr \<Rightarrow> vk_world \<Rightarrow> vk_world option" where
  "vk_iso_tramp body t w = body (th_func (w_thread w t)) t w"

definition execute_call_isolated ::
  "((vk_world \<Rightarrow> vk_world option) \<Rightarrow> vk_world \<Rightarrow> vk_world option) \<Rightarrow>
   os_calls \<Rightarrow> bodies \<Rightarrow> addr \<Rightarrow> vk_world \<Rightarrow> (int \<times> vk_world) option" where
  "execute_call_isolated isolate os body t w =
     do {
       w1 \<leftarrow> isolate (vk_iso_tramp body t) (upd_local (running_cr_update (\<lambda>_. t)) w);
       let w2 = upd_local (running_cr_update (\<lambda>_. 0)) w1;
       if th_status (w_thread w2 t) = VK_PROC_END
       then do {
         w3 \<leftarrow> vk_proc_local_drop_blocked_for t w2;
         let w4 = vk_deinit t w3;
         w5 \<leftarrow> (if run_enq (w_thread w4 t) then vk_proc_local_drop_run t w4 else Some w4);
         Some (0, w5) }
       else vk_unblock os t w2
     }"

fun execute_loop_isolated ::
  "((vk_world \<Rightarrow> vk_world option) \<Rightarrow> vk_world \<Rightarrow> vk_world option) \<Rightarrow>
   (nat \<Rightarrow> os_calls) \<Rightarrow> bodies \<Rightarrow> nat \<Rightarrow> nat \<Rightarrow> addr option \<Rightarrow> vk_world \<Rightarrow> executed" where
  "execute_loop_isolated isolate os body i 0 cur w = Out_Of_Fuel"
| "execute_loop_isolated isolate os body i (Suc n) None w =
     (case vk_proc_local_dequeue_run w of
        None \<Rightarrow> Returns 0 w
      | Some (t, w') \<Rightarrow> execute_loop_isolated isolate os body (Suc i) n (Some t) w')"
| "execute_loop_isolated isolate os body i (Suc n) (Some t) w =
     (if vk_is_ready (w_thread w t)
      then (case execute_call_isolated isolate (os i) body t w of
              None \<Rightarrow> Killed
            | Some (rc, w') \<Rightarrow>
                if rc = - 1 then Returns (- 1) w'
                else execute_loop_isolated isolate os body (Suc i) n (Some t) w')
      else execute_loop_isolated isolate os body (Suc i) n None
             (if vk_is_yielding (w_thread w t) then upd_thread t vk_ready w else w))"

definition vk_proc_local_execute_isolated ::
  "((vk_world \<Rightarrow> vk_world option) \<Rightarrow> vk_world \<Rightarrow> vk_world option) \<Rightarrow>
   (nat \<Rightarrow> os_calls) \<Rightarrow> bodies \<Rightarrow> nat \<Rightarrow> vk_world \<Rightarrow> executed" where
  "vk_proc_local_execute_isolated isolate os body fuel w = execute_loop_isolated isolate os body 0 fuel None w"

subsection \<open>What dispatching leaves alone\<close>

lemma frame_dequeue_run: "vk_proc_local_dequeue_run w = Some (t, w') \<Longrightarrow> frame_ok w w'"
  using queues_inv_dequeue_run [of w t w']
  by (auto simp: frame_ok_def sound_def same_links_def rings_ok_def vk_proc_local_dequeue_run_def Let_def
      split: list.splits if_splits)

lemma frame_drop_run: "vk_proc_local_drop_run t w = Some w' \<Longrightarrow> frame_ok w w'"
  using queues_inv_drop_run [of w t]
  by (auto simp: frame_ok_def sound_def same_links_def rings_ok_def vk_proc_local_drop_run_def Let_def
      split: option.splits if_splits)

lemma frame_drop_blocked: "vk_proc_local_drop_blocked s w = Some w' \<Longrightarrow> frame_ok w w'"
  using queues_inv_drop_blocked [of w s]
  by (auto simp: frame_ok_def sound_def same_links_def rings_ok_def vk_proc_local_drop_blocked_def
      Let_def split: option.splits if_splits)

lemma frame_drop_blocked_loop: "drop_blocked_loop t ss w = Some w' \<Longrightarrow> frame_ok w w'"
proof (induction ss arbitrary: w)
  case (Cons s ss)
  then show ?case
    by (auto split: if_splits option.splits intro: frame_ok_trans dest: frame_drop_blocked)
qed simp

lemma frame_local:
  "(\<And>l. run_q (f l) = run_q l \<and> pl_run (f l) = pl_run l \<and> blocked_q (f l) = blocked_q l \<and>
    pl_blocked (f l) = pl_blocked l) \<Longrightarrow> frame_ok w (upd_local f w)"
  by (simp add: frame_ok_def sound_def same_links_def rings_ok_def queues_inv_def run_inv_def blk_inv_def)

lemma frame_pop_frame: "frame_ok w (pop_frame w)"
  unfolding pop_frame_def set_errno_def
  by (auto split: sum.split intro!: frame_local frame_errno_mem)

lemma frame_deinit: "frame_ok w (vk_deinit t w)"
  unfolding vk_deinit_def by (rule frame_ok_trans [OF frame_pop_frame frame_pop_frame])

lemma frame_unblock_rx: "frame_ok w (unblock_rx s w)"
  unfolding unblock_rx_def by (auto intro!: frame_upd_socket simp: rings_ok_def)

lemma frame_unblock_tx: "frame_ok w (unblock_tx s w)"
  unfolding unblock_tx_def by (auto intro!: frame_upd_socket simp: rings_ok_def)

subsection \<open>Retrying a polled socket\<close>

lemma unblock_links:
  "linked w s \<Longrightarrow> linked (unblock_tx s (unblock_rx s w)) s"
  using linked_frame [OF frame_ok_trans [OF frame_unblock_rx frame_unblock_tx]] by blast

lemma retry_frame:
  assumes "linked w s" "vk_proc_local_retry_socket os s w = Some (rc, w')"
  shows "frame_ok w w'"
proof -
  let ?u = "unblock_tx s (unblock_rx s w)"
  have f: "frame_ok w ?u" by (rule frame_ok_trans [OF frame_unblock_rx frame_unblock_tx])
  obtain rc1 w1 where h: "vk_socket_handler os s ?u = Some (rc1, w1)" "frame_ok ?u w1"
    using handler_yields [OF unblock_links [OF assms(1)], of os] by (auto simp: yields_rc_def)
  show ?thesis
    using assms(2) h f
    by (auto simp: vk_proc_local_retry_socket_def Let_def bind_eq_Some_conv split: if_splits
        dest!: frame_drop_blocked intro!: frame_ok_trans [OF _ frame_enqueue_run]
        intro: frame_ok_trans)
qed

lemma retry_socket_ok:
  assumes "linked w s" "queues_inv w" "rings_ok w"
  shows "\<exists>rc w'. vk_proc_local_retry_socket os s w = Some (rc, w') \<and> queues_inv w' \<and> rings_ok w' \<and>
    (rc = - 1 \<or> rc = 0 \<and> s \<notin> set (blocked_q (w_local w')) \<and>
      (let t = blocked_vk (so_block (w_socket w s)) in
       th_status (w_thread w t) \<noteq> VK_PROC_END \<longrightarrow> t \<in> set (run_q (w_local w'))))"
proof -
  let ?u = "unblock_tx s (unblock_rx s w)"
  let ?t = "blocked_vk (so_block (w_socket w s))"
  obtain rc1 w1 where h: "vk_socket_handler os s ?u = Some (rc1, w1)" "frame_ok ?u w1"
    using handler_yields [OF unblock_links [OF assms(1)], of os] by (auto simp: yields_rc_def)
  have f1: "frame_ok w w1"
    by (rule frame_ok_trans [OF frame_ok_trans [OF frame_unblock_rx frame_unblock_tx] h(2)])
  have s1: "queues_inv w1" "rings_ok w1" using f1 assms(2,3) by (simp_all add: frame_ok_def sound_def)
  have t: "deref ?t = Some ?t" using assms(1) by (simp add: linked_def has_vk_def)
  show ?thesis
  proof (cases "rc1 = - 1")
    case True
    with h s1 show ?thesis by (simp add: vk_proc_local_retry_socket_def Let_def)
  next
    case False
    obtain w2 where w2: "vk_proc_local_drop_blocked s w1 = Some w2" "queues_inv w2"
      "blocked_q (w_local w2) = remove1 s (blocked_q (w_local w1))"
      using queues_inv_drop_blocked [OF s1(1)] by blast
    have f2: "frame_ok w w2" by (rule frame_ok_trans [OF f1 frame_drop_blocked [OF w2(1)]])
    have "distinct (blocked_q (w_local w1))"
      using s1(1) by (simp add: queues_inv_def blk_inv_def flag_inv_def)
    then have "s \<notin> set (blocked_q (w_local w2))" by (simp add: w2(3))
    moreover have "?t \<in> set (run_q (w_local (vk_proc_local_enqueue_run ?t w2)))"
      if "th_status (w_thread w ?t) \<noteq> VK_PROC_END"
    proof -
      have "run.inv w2" using w2(2) run_minv [of w2] by (simp add: queues_inv_def run.minv_def)
      moreover have "th_status (w_thread w2 ?t) \<noteq> VK_PROC_END"
        using f2 that by (simp add: frame_ok_def same_links_def)
      ultimately show ?thesis using run.enqueue_mem [of w2 ?t] by simp
    qed
    moreover have "vk_proc_local_retry_socket os s w = Some (0, vk_proc_local_enqueue_run ?t w2)"
      using h w2(1) t False by (simp add: vk_proc_local_retry_socket_def Let_def)
    moreover have "frame_ok w2 (vk_proc_local_enqueue_run ?t w2)" by (rule frame_enqueue_run)
    ultimately show ?thesis
      using w2(2) f2 assms(2,3) by (auto simp: frame_ok_def sound_def Let_def)
  qed
qed

lemma retry_rc:
  assumes "linked w s" "well_piped (w_socket w s)" "vk_proc_local_retry_socket os s w = Some (rc, w')"
  shows "rc = 0"
proof -
  let ?u = "unblock_tx s (unblock_rx s w)"
  have f: "frame_ok w ?u" by (rule frame_ok_trans [OF frame_unblock_rx frame_unblock_tx])
  obtain rc1 w1 where h: "vk_socket_handler os s ?u = Some (rc1, w1)"
    using assms(3) by (auto simp: vk_proc_local_retry_socket_def Let_def bind_eq_Some_conv)
  have "rc1 = 0"
    using handler_rc [OF unblock_links [OF assms(1)] _ h] assms(2) by (simp add: well_piped_frame [OF f])
  then show ?thesis
    using assms(3) h by (auto simp: vk_proc_local_retry_socket_def Let_def bind_eq_Some_conv)
qed

text \<open>Retrying a polled socket is safe and wakes its coroutine: for a socket attached to a
  coroutine the retry never follows a null pointer and keeps the queues and the rings sound; if
  the operation was handled (the result is 0), the socket is no longer on the blocked queue
  and its coroutine, unless it has ended, is on the run queue.\<close>

theorem retry_socket_wakes:
  assumes "linked w s" "queues_inv w" "rings_ok w"
  shows "\<exists>rc w'. vk_proc_local_retry_socket os s w = Some (rc, w') \<and> queues_inv w' \<and> rings_ok w' \<and>
    (rc = - 1 \<or> rc = 0 \<and> s \<notin> set (blocked_q (w_local w')) \<and>
      (let t = blocked_vk (so_block (w_socket w s)) in
       th_status (w_thread w t) \<noteq> VK_PROC_END \<longrightarrow> t \<in> set (run_q (w_local w'))))"
  using assms by (rule retry_socket_ok)

theorem retry_socket_wakes_witness:
  "\<exists>rc w'. vk_proc_local_retry_socket quiet_os 128 idle_world = Some (rc, w') \<and> queues_inv w'"
  using retry_socket_wakes [OF idle_world_linked(1) idle_world_inv idle_world_linked(2), of quiet_os]
  by blast

subsection \<open>The loop is safe, and ends\<close>

text \<open>Where every coroutine resumes, and whether it has ended; dispatching does not change it.\<close>

definition resumes :: "vk_world \<Rightarrow> addr \<Rightarrow> int \<times> bool" where
  "resumes w = (\<lambda>t. (th_counter (w_thread w t), vk_is_completed (w_thread w t)))"

lemma resumes_frame: "frame_ok w w' \<Longrightarrow> resumes w' = resumes w"
  by (simp add: frame_ok_def same_links_def resumes_def vk_is_completed_def)

lemma sound_frame: "frame_ok w w' \<Longrightarrow> sound w \<Longrightarrow> sound w'"
  by (simp add: frame_ok_def)

text \<open>What the loop relies on of the application: a coroutine returns, leaves queues and
  rings sound, and waits only on sockets that are attached to coroutines.\<close>

definition body_ok :: "bodies \<Rightarrow> bool" where
  "body_ok body \<longleftrightarrow> (\<forall>f t w. sound w \<longrightarrow>
     (\<exists>w'. body f t w = Some w' \<and> sound w' \<and>
       (th_status (w_thread w' t) = VK_PROC_WAIT \<longrightarrow> th_waiting_socket (w_thread w' t) \<noteq> 0 \<longrightarrow>
          linked w' (th_waiting_socket (w_thread w' t)))))"

lemma frame_running: "frame_ok w (upd_local (running_cr_update (\<lambda>_. t)) w)"
  by (rule frame_local) simp

lemma unblock_yields:
  assumes "th_status (w_thread w t) = VK_PROC_WAIT \<Longrightarrow> th_waiting_socket (w_thread w t) \<noteq> 0 \<Longrightarrow>
    linked w (th_waiting_socket (w_thread w t))"
  shows "yields_rc w (vk_unblock os t w)"
  using assms handler_yields [of w _ os] frame_errno_mem(2)
  by (auto simp: vk_unblock_def yields_rc_def set_errno_def)

lemma execute_call_ok:
  assumes "sound w" "body_ok body"
  shows "\<exists>rc w' b. body (th_func (w_thread w t)) t (upd_local (running_cr_update (\<lambda>_. t)) w) = Some b \<and>
    execute_call os body t w = Some (rc, w') \<and> sound w' \<and> resumes w' = resumes b"
proof -
  let ?w0 = "upd_local (running_cr_update (\<lambda>_. t)) w"
  have "sound ?w0" using sound_frame [OF frame_running assms(1)] .
  then obtain w1 where w1: "body (th_func (w_thread w t)) t ?w0 = Some w1" "sound w1"
    and wt: "th_status (w_thread w1 t) = VK_PROC_WAIT \<Longrightarrow> th_waiting_socket (w_thread w1 t) \<noteq> 0 \<Longrightarrow>
      linked w1 (th_waiting_socket (w_thread w1 t))"
    using assms(2) unfolding body_ok_def by blast
  let ?w2 = "upd_local (running_cr_update (\<lambda>_. 0)) w1"
  have f2: "frame_ok w1 ?w2" by (rule frame_running)
  have s2: "sound ?w2" by (rule sound_frame [OF f2 w1(2)])
  have "\<exists>rc w'. execute_call os body t w = Some (rc, w') \<and> frame_ok ?w2 w'"
  proof (cases "th_status (w_thread w1 t) = VK_PROC_END")
    case True
    obtain w3 where w3: "vk_proc_local_drop_blocked_for t ?w2 = Some w3"
      using queues_inv_drop_blocked_for [of ?w2 t] s2 by (auto simp: sound_def)
    have f3: "frame_ok ?w2 w3" using w3 frame_drop_blocked_loop by (simp add: vk_proc_local_drop_blocked_for_def)
    let ?w4 = "vk_deinit t w3"
    have f4: "frame_ok ?w2 ?w4" by (rule frame_ok_trans [OF f3 frame_deinit])
    obtain w5 where w5: "vk_proc_local_drop_run t ?w4 = Some w5"
      using queues_inv_drop_run [of ?w4 t] sound_frame [OF f4 s2] by (auto simp: sound_def)
    have "frame_ok ?w2 w5" by (rule frame_ok_trans [OF f4 frame_drop_run [OF w5]])
    with True w1(1) w3 w5 f4 show ?thesis by (simp add: execute_call_def Let_def)
  next
    case False
    have "yields_rc ?w2 (vk_unblock os t ?w2)"
      using wt linked_frame [OF f2] by (intro unblock_yields) simp
    with False w1(1) show ?thesis by (simp add: execute_call_def Let_def yields_rc_def)
  qed
  then show ?thesis using w1(1) sound_frame s2 resumes_frame f2 by metis
qed

lemma dequeue_None: "sound w \<Longrightarrow> vk_proc_local_dequeue_run w = None \<Longrightarrow>
    run_q (w_local w) = [] \<and> \<not> pl_run (w_local w)"
  using run.minv_dequeue_None [of w]
  by (auto simp: sound_def queues_inv_def run_minv run_inv_def)

definition run_result :: "executed \<Rightarrow> bool" where
  "run_result r \<longleftrightarrow>
     (case r of
        Killed \<Rightarrow> False
      | Out_Of_Fuel \<Rightarrow> True
      | Returns rc w' \<Rightarrow> sound w' \<and> (rc = - 1 \<or> rc = 0 \<and> run_q (w_local w') = [] \<and> \<not> pl_run (w_local w')))"

lemma frame_yielding: "frame_ok w (if vk_is_yielding (w_thread w t) then upd_thread t vk_ready w else w)"
  by (auto intro: frame_upd_thread)

lemma execute_loop_sound:
  "sound w \<Longrightarrow> body_ok body \<Longrightarrow> run_result (execute_loop os body i n cur w)"
proof (induction os body i n cur w rule: execute_loop.induct)
  case (1 os body i cur w)
  then show ?case by (simp add: run_result_def)
next
  case (2 os body i n w)
  show ?case
  proof (cases "vk_proc_local_dequeue_run w")
    case None
    then show ?thesis using dequeue_None [OF 2(2)] 2(2) by (simp add: run_result_def)
  next
    case (Some p)
    then obtain t w' where p: "vk_proc_local_dequeue_run w = Some (t, w')" by (metis surj_pair)
    then show ?thesis using 2(1) [OF p] sound_frame [OF frame_dequeue_run [OF p] 2(2)] 2(3) by simp
  qed
next
  case (3 os body i n t w)
  show ?case
  proof (cases "vk_is_ready (w_thread w t)")
    case True
    obtain rc w' where c: "execute_call (os i) body t w = Some (rc, w')" "sound w'"
      using execute_call_ok [OF 3(3,4), of t "os i"] by blast
    then show ?thesis using 3(1) True 3(4) by (auto simp: run_result_def)
  next
    case False
    then show ?thesis using 3(2) sound_frame [OF frame_yielding 3(3), of t] 3(4) by simp
  qed
qed

text \<open>Running a process is safe: if the coroutines' functions return, keep queues and rings sound and
  wait only on attached sockets, the loop that dispatches the run queue never follows a null
  pointer or breaks a list, whatever the system calls answer; when it returns 0 the run queue
  is empty and its mark is clear, and it returns -1 only from a refused operation. In both
  cases queues and rings are sound.\<close>

theorem execute_safe:
  assumes "sound w" "body_ok body"
  shows "case vk_proc_local_execute os body fuel w of
      Killed \<Rightarrow> False
    | Out_Of_Fuel \<Rightarrow> True
    | Returns rc w' \<Rightarrow> sound w' \<and> (rc = - 1 \<or> rc = 0 \<and> run_q (w_local w') = [] \<and> \<not> pl_run (w_local w'))"
  using execute_loop_sound [OF assms] by (simp add: vk_proc_local_execute_def run_result_def)

text \<open>A coroutine that ends when it is called.\<close>

definition ending_body :: bodies where
  "ending_body f t w = Some (upd_thread t (\<lambda>th. th\<lparr>th_status := VK_PROC_END, th_counter := 0\<rparr>) w)"

lemma ending_body_ok: "body_ok ending_body"
  by (simp add: body_ok_def ending_body_def sound_def queues_inv_upd_thread rings_ok_def)

lemma idle_world_sound: "sound idle_world"
  by (simp add: sound_def idle_world_inv idle_world_linked)

theorem execute_safe_witness:
  "vk_proc_local_execute (\<lambda>_. quiet_os) ending_body 4 (vk_proc_local_enqueue_run 64 idle_world) \<noteq> Killed"
proof -
  have "sound (vk_proc_local_enqueue_run 64 idle_world)"
    by (rule sound_frame [OF frame_enqueue_run idle_world_sound])
  from execute_safe [OF this ending_body_ok, of "\<lambda>_. quiet_os" 4] show ?thesis by auto
qed

end
