(* ===== verification/Coroutine.thy ===== *)
theory Coroutine
  imports Scheduler
begin

text \<open>
  The life of a coroutine (src/vk_thread.c, vk_socket_s.h) and the macros it is written
  with (src/vk_thread_cr.h, vk_thread_err.h, vk_thread_exec.h, vk_thread_mem.h,
  vk_thread_ft.h, vk_future.c). A macro is the change it makes up to the \<open>return\<close> in it;
  \<open>line\<close> and \<open>c\<close> are the \<open>__LINE__\<close> and the \<open>__COUNTER__\<close> label of its
  expansion. The sizes and offsets that the compiler chooses are in \<open>layout\<close>.
\<close>

record layout =
  page_size :: size_t
  socket_size :: size_t
  tx_offset :: size_t

definition buffering_len :: size_t where
  "buffering_len = 4096 * 4"

subsection \<open>Creating a coroutine\<close>

definition VK_BLOCK_INIT :: "addr \<Rightarrow> addr \<Rightarrow> vk_block" where
  "VK_BLOCK_INIT s vk =
     \<lparr>blk_op = VK_OP_NONE, blk_buf = 0, blk_len = 0, blk_copied = 0, blk_rc = 0,
      ioft_rx_pre = vk_io_future_init s, ioft_tx_pre = vk_io_future_init s,
      ioft_rx_ret = vk_io_future_init s, ioft_tx_ret = vk_io_future_init s, blocked_vk = vk\<rparr>"

text \<open>The error field keeps whatever the memory held.\<close>

definition VK_SOCKET_INIT :: "layout \<Rightarrow> addr \<Rightarrow> addr \<Rightarrow> vk_pipe \<Rightarrow> vk_pipe \<Rightarrow> vk_socket \<Rightarrow> vk_socket" where
  "VK_SOCKET_INIT lay s vk rx tx so =
     so\<lparr>so_rx := vk_vectoring_init (so_rx so) s buffering_len,
        so_tx := vk_vectoring_init (so_tx so) (s + tx_offset lay) buffering_len,
        so_block := VK_BLOCK_INIT s vk, so_rx_fd := rx, so_tx_fd := tx, blocked_enq := False\<rparr>"

definition vk_init ::
  "layout \<Rightarrow> addr \<Rightarrow> nat \<Rightarrow> vk_pipe \<Rightarrow> vk_pipe \<Rightarrow> size_t \<Rightarrow> vk_world \<Rightarrow> vk_world option" where
  "vk_init lay that func rx tx line w =
     (case vk_stack_push (page_size lay) (w_mem w) (pl_stack (w_local w)) 1 (socket_size lay) of
        Inl _ \<Rightarrow> None
      | Inr (s, m, st) \<Rightarrow>
          Some (upd_thread that (\<lambda>th. th\<lparr>th_func := func, th_line := line, th_counter := - 1,
                  th_status := VK_PROC_RUN, th_error := 0, th_error_counter := - 2, th_self := addr_cursor st,
                  th_socket := s, th_waiting_socket := 0, ft_q := [], th_rx_fd := rx, th_tx_fd := tx,
                  run_enq := False\<rparr>)
                (upd_socket s (VK_SOCKET_INIT lay s that rx tx)
                  (upd_local (pl_stack_update (\<lambda>_. st)) (w\<lparr>w_mem := m\<rparr>)))))"

definition vk_init_fds ::
  "layout \<Rightarrow> addr \<Rightarrow> nat \<Rightarrow> int \<Rightarrow> vk_fd_type \<Rightarrow> int \<Rightarrow> vk_fd_type \<Rightarrow> size_t \<Rightarrow> vk_world \<Rightarrow> vk_world option" where
  "vk_init_fds lay that func rxfd rxty txfd txty line w =
     vk_init lay that func \<lparr>pipe_ref = VK_PIPE_OS_FD rxfd, pipe_fd_type = rxty, pipe_closed = False\<rparr>
       \<lparr>pipe_ref = VK_PIPE_OS_FD txfd, pipe_fd_type = txty, pipe_closed = False\<rparr> line w"

definition vk_init_child :: "layout \<Rightarrow> addr \<Rightarrow> addr \<Rightarrow> nat \<Rightarrow> size_t \<Rightarrow> vk_world \<Rightarrow> vk_world option" where
  "vk_init_child lay parent that func line w =
     vk_init lay that func (th_rx_fd (w_thread w parent)) (th_tx_fd (w_thread w parent)) line w"

text \<open>The parent's writes go to the new coroutine, which writes where the parent wrote.\<close>

definition vk_pipeline :: "addr \<Rightarrow> addr \<Rightarrow> vk_world \<Rightarrow> vk_world" where
  "vk_pipeline parent that w =
     (let sp = th_socket (w_thread w parent); st = th_socket (w_thread w that)
      in upd_socket st (so_rx_fd_update (\<lambda>p. vk_pipe_init_tx p sp))
           (upd_socket sp (so_tx_fd_update (\<lambda>p. vk_pipe_init_rx p st)) w))"

definition vk_init_responder ::
  "layout \<Rightarrow> addr \<Rightarrow> addr \<Rightarrow> nat \<Rightarrow> size_t \<Rightarrow> vk_world \<Rightarrow> vk_world option" where
  "vk_init_responder lay parent that func line w =
     do { w' \<leftarrow> vk_init_child lay parent that func line w; Some (vk_pipeline parent that w') }"

definition vk_copy_arg :: "addr \<Rightarrow> addr \<Rightarrow> size_t \<Rightarrow> vk_world \<Rightarrow> int \<times> vk_world" where
  "vk_copy_arg that src n w =
     (let self = th_self (w_thread w that)
      in if n > addr_stop (pl_stack (w_local w)) - self then (- 1, set_errno ENOMEM w)
         else (0, w\<lparr>w_mem := memcpy (w_mem w) self src n\<rparr>))"

subsection \<open>Suspending and resuming\<close>

text \<open>What a call of the coroutine starts with; it goes on at the label \<open>th_counter\<close>.\<close>

definition vk_begin :: "vk_thread \<Rightarrow> vk_thread" where
  "vk_begin th =
     (if th_status th = VK_PROC_ERR then th\<lparr>th_counter := - 2, th_status := VK_PROC_RUN\<rparr> else th)"

definition vk_yield :: "size_t \<Rightarrow> int \<Rightarrow> VK_PROC_STAT \<Rightarrow> vk_thread \<Rightarrow> vk_thread" where
  "vk_yield line c st th = th\<lparr>th_line := line, th_counter := c, th_status := st\<rparr>"

definition vk_end :: "size_t \<Rightarrow> int \<Rightarrow> vk_thread \<Rightarrow> vk_thread" where
  "vk_end line c th = th\<lparr>th_counter := c, th_line := line, th_status := VK_PROC_END\<rparr>"

definition vk_play :: "addr \<Rightarrow> vk_world \<Rightarrow> vk_world" where
  "vk_play there w = vk_proc_local_enqueue_run there w"

definition vk_pause :: "size_t \<Rightarrow> int \<Rightarrow> addr \<Rightarrow> vk_world \<Rightarrow> vk_world" where
  "vk_pause line c that w = upd_thread that (vk_yield line c VK_PROC_YIELD) w"

definition vk_call :: "size_t \<Rightarrow> int \<Rightarrow> addr \<Rightarrow> addr \<Rightarrow> vk_world \<Rightarrow> vk_world" where
  "vk_call line c that there w = vk_pause line c that (vk_play there w)"

definition vk_wait :: "size_t \<Rightarrow> int \<Rightarrow> addr \<Rightarrow> addr \<Rightarrow> vk_world \<Rightarrow> vk_world" where
  "vk_wait line c that s w =
     upd_thread that (vk_yield line c VK_PROC_WAIT)
       (upd_block s (blocked_vk_update (\<lambda>_. that))
         (upd_thread that (th_waiting_socket_update (\<lambda>_. s)) w))"

subsection \<open>Errors\<close>

definition vk_raise :: "size_t \<Rightarrow> int \<Rightarrow> addr \<Rightarrow> errno \<Rightarrow> vk_world \<Rightarrow> vk_world" where
  "vk_raise line c that e w =
     upd_thread that (vk_yield line c VK_PROC_ERR)
       (vk_play that
         (upd_thread that (\<lambda>th. th\<lparr>th_error := e, th_error_line := line, th_error_counter := c\<rparr>) w))"

definition vk_finally :: "addr \<Rightarrow> vk_world \<Rightarrow> vk_world" where
  "vk_finally that w = set_errno (th_error (w_thread w that)) w"

definition vk_lower :: "vk_thread \<Rightarrow> vk_thread" where
  "vk_lower th = (vk_lower_error_ctx th)\<lparr>th_status := VK_PROC_RUN\<rparr>"

subsection \<open>Memory\<close>

text \<open>\<open>Inl\<close>: the error was raised and the coroutine has returned.\<close>

definition vk_calloc_size ::
  "layout \<Rightarrow> size_t \<Rightarrow> int \<Rightarrow> addr \<Rightarrow> size_t \<Rightarrow> size_t \<Rightarrow> vk_world \<Rightarrow> vk_world + addr \<times> vk_world" where
  "vk_calloc_size lay line c that nmemb len w =
     (case vk_stack_push (page_size lay) (w_mem w) (pl_stack (w_local w)) nmemb len of
        Inl e \<Rightarrow> Inl (vk_raise line c that e (set_errno e w))
      | Inr (a, m, st) \<Rightarrow> Inr (a, upd_local (pl_stack_update (\<lambda>_. st)) (w\<lparr>w_mem := m\<rparr>)))"

definition vk_free :: "size_t \<Rightarrow> int \<Rightarrow> addr \<Rightarrow> vk_world \<Rightarrow> vk_world + vk_world" where
  "vk_free line c that w =
     (case vk_stack_pop (w_mem w) (pl_stack (w_local w)) of
        Inl e \<Rightarrow>
          (let w1 = set_errno e w
           in if th_counter (w_thread w1 that) = - 2 then Inr w1 else Inl (vk_raise line c that e w1))
      | Inr st \<Rightarrow> Inr (upd_local (pl_stack_update (\<lambda>_. st)) w))"

subsection \<open>Futures\<close>

text \<open>The message queue of a coroutine holds futures by address; a future is in at most one queue.\<close>

record vk_future =
  ft_vk :: addr
  ft_msg :: addr
  ft_error :: errno

type_synonym futures = "addr \<Rightarrow> vk_future"

definition vk_future_bind :: "addr \<Rightarrow> addr \<Rightarrow> futures \<Rightarrow> futures" where
  "vk_future_bind ft vk F = F(ft := (F ft)\<lparr>ft_vk := vk\<rparr>)"

definition vk_future_resolve :: "addr \<Rightarrow> addr \<Rightarrow> futures \<Rightarrow> futures" where
  "vk_future_resolve ft msg F = F(ft := (F ft)\<lparr>ft_msg := msg\<rparr>)"

definition vk_ft_enqueue :: "addr \<Rightarrow> addr \<Rightarrow> vk_world \<Rightarrow> vk_world" where
  "vk_ft_enqueue that ft w = upd_thread that (\<lambda>th. th\<lparr>ft_q := ft_q th @ [ft]\<rparr>) w"

definition vk_ft_dequeue :: "addr \<Rightarrow> vk_world \<Rightarrow> addr \<times> vk_world" where
  "vk_ft_dequeue that w =
     (case ft_q (w_thread w that) of
        [] \<Rightarrow> (0, w)
      | ft # q \<Rightarrow> (ft, upd_thread that (ft_q_update (\<lambda>_. q)) w))"

definition vk_ft_peek :: "addr \<Rightarrow> vk_world \<Rightarrow> addr" where
  "vk_ft_peek that w = (case ft_q (w_thread w that) of [] \<Rightarrow> 0 | ft # _ \<Rightarrow> ft)"

text \<open>\<open>vk_request\<close> up to its suspension, and from its resumption on.\<close>

definition vk_request_send ::
  "size_t \<Rightarrow> int \<Rightarrow> addr \<Rightarrow> addr \<Rightarrow> addr \<Rightarrow> addr \<Rightarrow> vk_world \<times> futures \<Rightarrow> vk_world \<times> futures" where
  "vk_request_send line c that there ft msg = (\<lambda>(w, F).
     (vk_call line c that there (vk_ft_enqueue there ft w),
      vk_future_resolve ft msg (vk_future_bind ft that F)))"

definition vk_request_recv :: "addr \<Rightarrow> addr \<Rightarrow> vk_world \<times> futures \<Rightarrow> (addr \<times> vk_world \<times> futures) option" where
  "vk_request_recv that ft = (\<lambda>(w, F).
     (let (ft', w') = vk_ft_dequeue that w
      in do { f \<leftarrow> deref ft'; Some (ft_msg (F f), w', F(ft := F f)) }))"

text \<open>\<open>vk_listen\<close> suspends (\<open>Inl\<close>) or receives; \<open>vk_respond\<close>; \<open>vk_send\<close>.\<close>

definition vk_listen ::
  "size_t \<Rightarrow> int \<Rightarrow> addr \<Rightarrow> vk_world \<times> futures \<Rightarrow> vk_world \<times> futures + (addr \<times> addr \<times> vk_world \<times> futures)" where
  "vk_listen line c that = (\<lambda>(w, F).
     (if vk_ft_peek that w = 0 then Inl (upd_thread that (vk_yield line c VK_PROC_LISTEN) w, F)
      else let ft = vk_ft_peek that w; (ft', w') = vk_ft_dequeue that w
           in Inr (ft, ft_msg (F ft'), w', F)))"

definition vk_respond :: "addr \<Rightarrow> addr \<Rightarrow> vk_world \<times> futures \<Rightarrow> vk_world \<times> futures" where
  "vk_respond ft msg = (\<lambda>(w, F).
     (let F' = vk_future_resolve ft msg F; vk = ft_vk (F' ft)
      in (vk_play vk (vk_ft_enqueue vk ft w), F')))"

definition vk_send :: "addr \<Rightarrow> addr \<Rightarrow> addr \<Rightarrow> addr \<Rightarrow> vk_world \<times> futures \<Rightarrow> vk_world \<times> futures" where
  "vk_send that there ft msg = (\<lambda>(w, F).
     (vk_ft_enqueue there ft (vk_play there w), vk_future_resolve ft msg (vk_future_bind ft that F)))"

subsection \<open>Creation keeps the process sound\<close>

lemma buffering_len_simps [simp]: "0 < unat buffering_len" "unat buffering_len < 2 ^ 63"
  by (simp_all add: buffering_len_def)

lemma socket_init_rings: "ring_wf (so_rx (VK_SOCKET_INIT lay s vk rx tx so))"
  "ring_wf (so_tx (VK_SOCKET_INIT lay s vk rx tx so))"
  unfolding VK_SOCKET_INIT_def using init_ring_wf [OF buffering_len_simps] by simp_all

lemma init_SomeD:
  assumes "vk_init lay that func rx tx line w = Some w'"
  obtains s m st th where
    "vk_stack_push (page_size lay) (w_mem w) (pl_stack (w_local w)) 1 (socket_size lay) = Inr (s, m, st)"
    "th_socket th = s" "th_self th = addr_cursor st" "th_status th = VK_PROC_RUN" "th_counter th = - 1"
    "run_enq th = False" "ft_q th = []" "th_waiting_socket th = 0"
    "w' = upd_thread that (\<lambda>_. th) (upd_socket s (VK_SOCKET_INIT lay s that rx tx)
            (upd_local (pl_stack_update (\<lambda>_. st)) (w\<lparr>w_mem := m\<rparr>)))"
proof -
  obtain s m st where p:
    "vk_stack_push (page_size lay) (w_mem w) (pl_stack (w_local w)) 1 (socket_size lay) = Inr (s, m, st)"
    and w': "w' = upd_thread that (\<lambda>th. th\<lparr>th_func := func, th_line := line, th_counter := - 1,
        th_status := VK_PROC_RUN, th_error := 0, th_error_counter := - 2, th_self := addr_cursor st,
        th_socket := s, th_waiting_socket := 0, ft_q := [], th_rx_fd := rx, th_tx_fd := tx,
        run_enq := False\<rparr>) (upd_socket s (VK_SOCKET_INIT lay s that rx tx)
            (upd_local (pl_stack_update (\<lambda>_. st)) (w\<lparr>w_mem := m\<rparr>)))"
    using assms by (auto simp: vk_init_def split: sum.splits)
  define th where "th = w_thread w' that"
  have th: "th = (w_thread w that)\<lparr>th_func := func, th_line := line, th_counter := - 1,
        th_status := VK_PROC_RUN, th_error := 0, th_error_counter := - 2, th_self := addr_cursor st,
        th_socket := s, th_waiting_socket := 0, ft_q := [], th_rx_fd := rx, th_tx_fd := tx,
        run_enq := False\<rparr>"
    by (simp add: th_def w')
  show ?thesis
    by (rule that [OF p, of th]) (simp_all add: th, simp add: w' upd_thread_def)
qed

lemma linked_fds:
  assumes "s \<noteq> 0" "blocked_vk (so_block (w_socket w s)) \<noteq> 0"
    "pipe_ref (so_rx_fd (w_socket w s)) = VK_PIPE_OS_FD a" "pipe_ref (so_tx_fd (w_socket w s)) = VK_PIPE_OS_FD b"
  shows "linked w s"
  using assms by (simp add: linked_def has_vk_def pipe_linked_def)

text \<open>Creating a coroutine on two descriptors keeps the process sound: when the stack has room, the
  new coroutine, which must not be on the run queue, is ready, starts at the first label,
  and owns a socket with two well-formed empty rings that is attached to it; queues and rings
  of the process stay consistent.\<close>

theorem init_fds_sound:
  assumes "sound w" "that \<noteq> 0" "addr_cursor (pl_stack (w_local w)) \<noteq> 0"
    "\<not> run_enq (w_thread w that)" "\<not> blocked_enq (w_socket w (addr_cursor (pl_stack (w_local w))))"
    "vk_init_fds lay that func a aty b bty line w = Some w'"
  shows "sound w' \<and> linked w' (th_socket (w_thread w' that)) \<and> vk_is_ready (w_thread w' that) \<and>
    th_counter (w_thread w' that) = - 1 \<and>
    ring_data (w_mem w') (so_rx (w_socket w' (th_socket (w_thread w' that)))) = [] \<and>
    ring_data (w_mem w') (so_tx (w_socket w' (th_socket (w_thread w' that)))) = []"
proof -
  obtain s m st th where p:
    "vk_stack_push (page_size lay) (w_mem w) (pl_stack (w_local w)) 1 (socket_size lay) = Inr (s, m, st)"
    and th: "th_socket th = s" "th_status th = VK_PROC_RUN" "th_counter th = - 1" "run_enq th = False"
    and w': "w' = upd_thread that (\<lambda>_. th) (upd_socket s (VK_SOCKET_INIT lay s that
        \<lparr>pipe_ref = VK_PIPE_OS_FD a, pipe_fd_type = aty, pipe_closed = False\<rparr>
        \<lparr>pipe_ref = VK_PIPE_OS_FD b, pipe_fd_type = bty, pipe_closed = False\<rparr>)
            (upd_local (pl_stack_update (\<lambda>_. st)) (w\<lparr>w_mem := m\<rparr>)))"
    using assms(6) unfolding vk_init_fds_def by (rule init_SomeD)
  have s: "s = addr_cursor (pl_stack (w_local w))" using p by (auto elim: push_InrD)
  have so: "so_rx_fd (w_socket w' s) = \<lparr>pipe_ref = VK_PIPE_OS_FD a, pipe_fd_type = aty, pipe_closed = False\<rparr>"
    "so_tx_fd (w_socket w' s) = \<lparr>pipe_ref = VK_PIPE_OS_FD b, pipe_fd_type = bty, pipe_closed = False\<rparr>"
    "blocked_vk (so_block (w_socket w' s)) = that"
    "so_rx (w_socket w' s) = vk_vectoring_init (so_rx (w_socket w s)) s buffering_len"
    "so_tx (w_socket w' s) = vk_vectoring_init (so_tx (w_socket w s)) (s + tx_offset lay) buffering_len"
    by (simp_all add: w' VK_SOCKET_INIT_def VK_BLOCK_INIT_def)
  have "run_inv w' = run_inv w"
    by (rule run_inv_cong) (use assms(4) th(4) in \<open>simp_all add: w'\<close>)
  moreover have "blk_inv w' = blk_inv w"
    by (rule blk_inv_cong) (use assms(5) in \<open>simp_all add: w' s VK_SOCKET_INIT_def\<close>)
  moreover have "rings_ok w'"
    using assms(1) by (simp add: sound_def rings_ok_def w' socket_init_rings)
  ultimately have "sound w'" using assms(1) by (simp add: sound_def queues_inv_def)
  moreover have "linked w' s" using so(1-3) assms(2,3) s by (intro linked_fds) simp_all
  moreover have "w_thread w' that = th" by (simp add: w')
  moreover have "ring_data m (vk_vectoring_init r x buffering_len) = []" for m r x
    by (simp add: vk_vectoring_init_def ring_data_def tx_addrs_def)
  ultimately show ?thesis using th so(4,5) by (simp add: vk_is_ready_def)
qed

definition lay4k :: layout where
  "lay4k = \<lparr>page_size = 4096, socket_size = 4000, tx_offset = 2000\<rparr>"

lemma idle_stack: "pl_stack (w_local idle_world) = vk_stack_init 4096 8192"
  "push_ok 4096 (vk_stack_init 4096 8192) 1 4000" "w_mem idle_world = (\<lambda>x. ucast x)"
  "stack_frames (w_mem idle_world) (pl_stack (w_local idle_world)) []"
  by (simp_all add: idle_world_def push_ok_def vk_stack_init_def round_up_def pages_for_def stack_frames_def)

theorem init_fds_sound_witness:
  "\<exists>w'. vk_init_fds lay4k 80 1 3 VK_FD_TYPE_PIPE 4 VK_FD_TYPE_PIPE 10 idle_world = Some w' \<and> sound w' \<and>
    linked w' (th_socket (w_thread w' 80))"
proof -
  obtain w' where w': "vk_init_fds lay4k 80 1 3 VK_FD_TYPE_PIPE 4 VK_FD_TYPE_PIPE 10 idle_world = Some w'"
    using push_success(1) [OF idle_stack(2)]
    by (simp add: vk_init_fds_def vk_init_def lay4k_def idle_stack(1))
  have "addr_cursor (pl_stack (w_local idle_world)) \<noteq> 0" by (simp add: idle_stack vk_stack_init_def)
  moreover have "\<not> run_enq (w_thread idle_world 80)" "\<not> blocked_enq (w_socket idle_world x)" for x
    by (simp_all add: idle_world_def idle_thread_def idle_socket_def)
  ultimately show ?thesis using init_fds_sound [OF idle_world_sound _ _ _ _ w'] w' by auto
qed

subsection \<open>Whose memory an ending coroutine frees\<close>

lemma deinit_frames:
  assumes "stack_frames (w_mem w) (pl_stack (w_local w)) (l1 # l2 # ls)"
  shows "pl_stack (w_local (vk_deinit t w)) =
    (pl_stack (w_local w))\<lparr>addr_cursor := addr_cursor (pl_stack (w_local w)) - l1 - l2\<rparr>"
proof -
  let ?w1 = "pop_frame w"
  let ?st1 = "(pl_stack (w_local w))\<lparr>addr_cursor := addr_cursor (pl_stack (w_local w)) - l1\<rparr>"
  have 1: "?w1 = upd_local (pl_stack_update (\<lambda>_. ?st1)) w" "stack_frames (w_mem w) ?st1 (l2 # ls)"
    using pop_frames [OF assms] by (simp_all add: pop_frame_def)
  show ?thesis unfolding vk_deinit_def 1(1)
    by (subst pop_frame_def) (simp add: pop_frames(1) [OF 1(2)])
qed

text \<open>An ending coroutine gives back the two newest allocations of the process, whichever coroutine made
  them: after a coroutine b was created and its state allocated, the end of b restores
  the stack exactly; but the end of any other coroutine a does the same, so that the socket
  of b, still in use, is the memory of the next allocation.\<close>

theorem deinit_frees_newest:
  assumes "stack_frames (w_mem w) (pl_stack (w_local w)) ls"
    "vk_init lay b g rx tx line w = Some w1" "push_ok (page_size lay) (pl_stack (w_local w)) 1 (socket_size lay)"
    "vk_calloc_size lay line' c b 1 len w1 = Inr (self, w2)"
    "push_ok (page_size lay) (pl_stack (w_local w1)) 1 len"
  shows "pl_stack (w_local (vk_deinit a w2)) = pl_stack (w_local w) \<and>
    th_socket (w_thread w2 b) = addr_cursor (pl_stack (w_local (vk_deinit a w2)))"
proof -
  obtain s m st th where p:
    "vk_stack_push (page_size lay) (w_mem w) (pl_stack (w_local w)) 1 (socket_size lay) = Inr (s, m, st)"
    and th: "th_socket th = s"
    and w1: "w1 = upd_thread b (\<lambda>_. th) (upd_socket s (VK_SOCKET_INIT lay s b rx tx)
            (upd_local (pl_stack_update (\<lambda>_. st)) (w\<lparr>w_mem := m\<rparr>)))"
    using assms(2) by (rule init_SomeD)
  define l1 where "l1 = (of_nat (round_up (unat (page_size lay)) (unat (socket_size lay))) :: size_t)"
  define l2 where "l2 = (of_nat (round_up (unat (page_size lay)) (unat len)) :: size_t)"
  note p1 = push_success(1) [OF assms(3), of "w_mem w", simplified, folded l1_def]
  have st: "s = addr_cursor (pl_stack (w_local w))"
    "st = (pl_stack (w_local w))\<lparr>addr_cursor := addr_cursor (pl_stack (w_local w)) + l1\<rparr>"
    using p p1 by auto
  have f1: "stack_frames (w_mem w1) (pl_stack (w_local w1)) (l1 # ls)"
    using push_frames [OF assms(3,1) p] by (simp add: w1 l1_def)
  obtain m2 st2 where q: "vk_stack_push (page_size lay) (w_mem w1) (pl_stack (w_local w1)) 1 len = Inr (self, m2, st2)"
    and w2: "w2 = upd_local (pl_stack_update (\<lambda>_. st2)) (w1\<lparr>w_mem := m2\<rparr>)"
    using assms(4) by (auto simp: vk_calloc_size_def split: sum.splits)
  have st2: "st2 = st\<lparr>addr_cursor := addr_cursor st + l2\<rparr>"
    using q push_success(1) [OF assms(5), of "w_mem w1", simplified, folded l2_def] by (simp add: w1)
  have "stack_frames (w_mem w2) (pl_stack (w_local w2)) (l2 # l1 # ls)"
    using push_frames [OF assms(5) f1 q] by (simp add: w2 l2_def)
  from deinit_frames [OF this, of a]
  have "pl_stack (w_local (vk_deinit a w2)) = pl_stack (w_local w)" by (simp add: w2 st2 st(2))
  moreover have "th_socket (w_thread w2 b) = s" by (simp add: w2 w1 th)
  ultimately show ?thesis by (simp add: st(1))
qed

theorem deinit_frees_newest_witness:
  "\<exists>w1 self w2. vk_init lay4k 80 1 (os_pipe 3) (os_pipe 4) 10 idle_world = Some w1 \<and>
    vk_calloc_size lay4k 20 5 80 1 100 w1 = Inr (self, w2) \<and>
    pl_stack (w_local (vk_deinit 64 w2)) = vk_stack_init 4096 8192 \<and> th_socket (w_thread w2 80) = 4096"
proof -
  obtain w1 where w1: "vk_init lay4k 80 1 (os_pipe 3) (os_pipe 4) 10 idle_world = Some w1"
    and st1: "pl_stack (w_local w1) = (vk_stack_init 4096 8192)\<lparr>addr_cursor := 8192\<rparr>"
    using push_success(1) [OF idle_stack(2)]
    by (simp add: vk_init_def lay4k_def idle_stack(1) vk_stack_init_def round_up_def pages_for_def)
  have ok: "push_ok (page_size lay4k) (pl_stack (w_local w1)) 1 100"
    by (simp add: st1 lay4k_def push_ok_def vk_stack_init_def round_up_def pages_for_def)
  obtain self w2 where w2: "vk_calloc_size lay4k 20 5 80 1 100 w1 = Inr (self, w2)"
    using push_success(1) [OF ok] by (simp add: vk_calloc_size_def)
  have "push_ok (page_size lay4k) (pl_stack (w_local idle_world)) 1 (socket_size lay4k)"
    using idle_stack(1,2) by (simp add: lay4k_def)
  from deinit_frees_newest [OF idle_stack(4) w1 this w2 ok, of 64] w1 w2 show ?thesis
    by (simp add: idle_stack(1) vk_stack_init_def)
qed

subsection \<open>Raising, lowering, signals\<close>

text \<open>A raised error reaches the error entry of the coroutine and a lowered one resumes it where it was
  raised: after raising e at label c the coroutine is to be called again and begins at the
  label -2 with errno e; if it then lowers the error, it begins at the label c, with the
  error cleared. A signal that arrives while it runs sends it to -2 with EFAULT too, but
  lowering that one resumes it at the label c0 and line of the signal handler's own
  source, whatever the coroutine was doing.\<close>

theorem raise_lower_resumes:
  assumes "running_cr (w_local w) = t" "t \<noteq> 0" "supervisor_cr (w_local w) = 0"
  shows "let th1 = w_thread (vk_raise line c t e w) t; th2 = vk_begin th1; th3 = vk_lower th2;
      sg1 = w_thread (snd (vk_proc_local_raise_signal line0 c0 w)) t; sg2 = vk_begin sg1 in
    vk_is_ready th1 \<and> th_counter th2 = - 2 \<and> w_errno (vk_finally t (vk_raise line c t e w)) = e \<and>
    vk_begin th3 = th3 \<and> th_counter th3 = c \<and> th_line th3 = line \<and> th_error th3 = 0 \<and>
    vk_is_ready th3 \<and>
    vk_is_ready sg1 \<and> th_counter sg2 = - 2 \<and> th_error sg2 = EFAULT \<and>
    th_counter (vk_lower sg2) = c0 \<and> th_line (vk_lower sg2) = line0"
proof -
  have keep: "th_error (w_thread (vk_proc_local_enqueue_run t v) t) = th_error (w_thread v t)"
    "th_error_line (w_thread (vk_proc_local_enqueue_run t v) t) = th_error_line (w_thread v t)"
    "th_error_counter (w_thread (vk_proc_local_enqueue_run t v) t) = th_error_counter (w_thread v t)" for v
    by (simp_all add: vk_proc_local_enqueue_run_def vk_ready_def Let_def)
  show ?thesis
    using assms
    by (simp add: Let_def vk_raise_def vk_play_def vk_yield_def vk_begin_def vk_lower_def vk_is_ready_def
        vk_lower_error_ctx_def vk_finally_def set_errno_def vk_proc_local_raise_signal_def vk_raise_at_def keep)
qed

theorem raise_lower_resumes_witness:
  "th_counter (vk_lower (vk_begin (w_thread (snd (vk_proc_local_raise_signal 260 1
     (upd_local (running_cr_update (\<lambda>_. 64)) idle_world))) 64))) = 1"
  using raise_lower_resumes [of "upd_local (running_cr_update (\<lambda>_. 64)) idle_world" 64 0 0 0 260 1]
  by (simp add: Let_def idle_world_def)

subsection \<open>Requests between coroutines\<close>

text \<open>C32: A request is answered: if coroutine a sends a request to coroutine b, b, when it listens, receives the
  message of a and the future to answer it with; when b responds with that future, a is
  put on the run queue, and on its resumption it receives the reply. No message is left
  over, and b was put on the run queue by the request.\<close>

theorem request_response:
  assumes "a \<noteq> b" "ft \<noteq> 0" "ft_q (w_thread w a) = []" "ft_q (w_thread w b) = []"
    "queues_inv w" "th_status (w_thread w a) \<noteq> VK_PROC_END" "th_status (w_thread w b) \<noteq> VK_PROC_END"
    "vk_request_send line c a b ft msg (w, F) = (w1, F1)"
  shows "b \<in> set (run_q (w_local w1)) \<and>
    (\<exists>w2. vk_listen line' c' b (w1, F1) = Inr (ft, msg, w2, F1) \<and> ft_q (w_thread w2 b) = [] \<and>
      (\<forall>w3 F3. vk_respond ft reply (w2, F1) = (w3, F3) \<longrightarrow>
         a \<in> set (run_q (w_local w3)) \<and>
         (\<exists>w4. vk_request_recv a ft (w3, F3) = Some (reply, w4, F3) \<and> ft_q (w_thread w4 a) = [])))"
proof -
  have ftq: "ft_q (w_thread (vk_proc_local_enqueue_run t v) x) = ft_q (w_thread v x)" for t v x
    by (simp add: vk_proc_local_enqueue_run_def vk_ready_def Let_def)
  have played: "t \<in> set (run_q (w_local (vk_proc_local_enqueue_run t v)))"
    if "queues_inv v" "th_status (w_thread v t) \<noteq> VK_PROC_END" for t v
    using that run.enqueue_mem [of v t] run_minv [of v] by (simp add: queues_inv_def run.minv_def)
  let ?e = "vk_ft_enqueue b ft w"
  let ?p = "vk_proc_local_enqueue_run b ?e"
  have w1: "w1 = vk_pause line c a ?p" "F1 ft = (F ft)\<lparr>ft_vk := a, ft_msg := msg\<rparr>"
    using assms(8) by (auto simp: vk_request_send_def vk_call_def vk_play_def vk_future_bind_def
        vk_future_resolve_def)
  have qe: "queues_inv ?e" using assms(5) by (simp add: vk_ft_enqueue_def queues_inv_upd_thread)
  have b: "b \<in> set (run_q (w_local w1))"
    using played [OF qe, of b] assms(7) by (simp add: w1 vk_pause_def vk_ft_enqueue_def)
  have q1: "ft_q (w_thread w1 b) = [ft]" "ft_q (w_thread w1 a) = []"
    using assms(1,3,4) by (auto simp: w1 vk_pause_def vk_yield_def ftq vk_ft_enqueue_def)
  let ?w2 = "upd_thread b (ft_q_update (\<lambda>_. [])) w1"
  have listen: "vk_listen line' c' b (w1, F1) = Inr (ft, msg, ?w2, F1)"
    using assms(2) by (simp add: vk_listen_def vk_ft_peek_def vk_ft_dequeue_def q1 w1(2) Let_def)
  have q2: "queues_inv ?w2"
    using queues_inv_enqueue_run [OF qe, of b]
    by (simp add: w1 vk_pause_def queues_inv_upd_thread vk_yield_def)
  have st2: "th_status (w_thread ?w2 a) \<noteq> VK_PROC_END"
    using assms(1) by (simp add: w1 vk_pause_def vk_yield_def)
  have resp: "a \<in> set (run_q (w_local w3)) \<and>
      (\<exists>w4. vk_request_recv a ft (w3, F3) = Some (reply, w4, F3) \<and> ft_q (w_thread w4 a) = [])"
    if "vk_respond ft reply (?w2, F1) = (w3, F3)" for w3 F3
  proof -
    let ?e2 = "vk_ft_enqueue a ft ?w2"
    have w3: "w3 = vk_proc_local_enqueue_run a ?e2" "ft_msg (F3 ft) = reply"
      using that by (auto simp: vk_respond_def vk_future_resolve_def w1(2) vk_play_def Let_def)
    have "queues_inv ?e2" using q2 by (simp add: vk_ft_enqueue_def queues_inv_upd_thread)
    then have "a \<in> set (run_q (w_local w3))"
      using played [of ?e2 a] st2 by (simp add: w3 vk_ft_enqueue_def)
    moreover have "ft_q (w_thread w3 a) = [ft]"
      using assms(1) q1 by (simp add: w3 ftq vk_ft_enqueue_def)
    ultimately show ?thesis
      using assms(2) by (simp add: vk_request_recv_def vk_ft_dequeue_def w3(2))
  qed
  show ?thesis using b listen resp by auto
qed

theorem request_response_witness:
  "\<exists>w1 F1 w2. vk_request_send 10 2 64 80 900 500 (idle_world, \<lambda>_. \<lparr>ft_vk = 0, ft_msg = 0, ft_error = 0\<rparr>) = (w1, F1) \<and>
    80 \<in> set (run_q (w_local w1)) \<and> vk_listen 20 3 80 (w1, F1) = Inr (900, 500, w2, F1)"
proof -
  obtain w1 F1 where h:
    "vk_request_send 10 2 64 80 900 500 (idle_world, \<lambda>_. \<lparr>ft_vk = 0, ft_msg = 0, ft_error = 0\<rparr>) = (w1, F1)"
    by fastforce
  have "ft_q (w_thread idle_world x) = []" "th_status (w_thread idle_world x) \<noteq> VK_PROC_END" for x
    by (simp_all add: idle_world_def idle_thread_def)
  from request_response [OF _ _ this(1) this(1) idle_world_inv this(2) this(2) h, of 20 3 0] h
  show ?thesis by auto
qed

end
