(* ===== verification/Newline.thy ===== *)
theory Newline
  imports Vectoring_IO
begin

text \<open>
  Line requests (src/vk_vectoring.c, \<open>vk_vectoring_find_newline\<close>,
  \<open>vk_vectoring_tx_line_len\<close>, \<open>vk_vectoring_tx_line_request\<close>): the search for
  a newline with its vectorised loops, chosen at build time, and the scalar loop that
  finishes; and the request that a line read makes of a ring.
\<close>

subsection \<open>The vector instructions used\<close>

definition cmpeq_epi8 :: "byte list \<Rightarrow> byte \<Rightarrow> byte list" where
  "cmpeq_epi8 chunk c = map (\<lambda>b. if b = c then 255 else 0) chunk"

definition movemask_epi8 :: "byte list \<Rightarrow> 32 word" where
  "movemask_epi8 chunk = horner_sum of_bool 2 (map (\<lambda>b. bit b 7) chunk)"

definition ctz :: "32 word \<Rightarrow> nat" where
  "ctz w = length (takeWhile (\<lambda>i. \<not> bit w i) [0..<32])"

abbreviation newline :: byte where
  "newline \<equiv> 10"

subsection \<open>The search\<close>

text \<open>A loop over chunks of \<open>k\<close> bytes returns the address found, or the position and
  the length at which the next loop starts.\<close>

function simd_loop :: "nat \<Rightarrow> mem \<Rightarrow> addr \<Rightarrow> size_t \<Rightarrow> addr + addr \<times> size_t" where
  "simd_loop k m buf len =
     (if k = 0 \<or> unat len < k then Inr (buf, len)
      else
        (let mask = movemask_epi8 (cmpeq_epi8 (bytes_at m buf k) newline)
         in if mask \<noteq> 0 then Inl (buf + of_nat (ctz mask))
            else simd_loop k m (buf + of_nat k) (len - of_nat k)))"
  by pat_completeness auto
termination
proof (relation "measure (\<lambda>(k, m, buf, len). unat len)")
  fix k :: nat and m :: mem and buf :: addr and len :: size_t and mask :: "32 word"
  assume "\<not> (k = 0 \<or> unat len < k)"
  then have "k > 0" "k \<le> unat len" "unat (of_nat k :: size_t) = k"
    using le_less_trans [OF _ unat_lt64 [of len]] by (auto intro!: unat_of_nat_exact)
  then show "((k, m, buf + of_nat k, len - of_nat k), k, m, buf, len) \<in>
      measure (\<lambda>(k, m, buf, len). unat len)"
    by (simp add: unat_sub_exact word_le_nat_alt)
qed simp

text \<open>The NEON loop stores the comparison and scans it byte by byte.\<close>

definition neon_hit :: "byte list \<Rightarrow> nat option" where
  "neon_hit cmp = find (\<lambda>i. cmp ! i \<noteq> 0) [0..<16]"

function neon_loop :: "mem \<Rightarrow> addr \<Rightarrow> size_t \<Rightarrow> addr + addr \<times> size_t" where
  "neon_loop m buf len =
     (if unat len < 16 then Inr (buf, len)
      else
        (case neon_hit (cmpeq_epi8 (bytes_at m buf 16) newline) of
           Some i \<Rightarrow> Inl (buf + of_nat i)
         | None \<Rightarrow> neon_loop m (buf + 16) (len - 16)))"
  by pat_completeness auto
termination
  by (relation "measure (\<lambda>(m, buf, len). unat len)")
    (auto simp: unat_sub_exact word_le_nat_alt)

function scalar_loop :: "mem \<Rightarrow> addr \<Rightarrow> size_t \<Rightarrow> addr option" where
  "scalar_loop m buf len =
     (if len = 0 then None
      else if m buf = newline then Some buf
      else scalar_loop m (buf + 1) (len - 1))"
  by pat_completeness auto
termination
  by (relation "measure (\<lambda>(m, buf, len). unat len)") (auto simp: unat_minus_one unat_gt_0)

declare simd_loop.simps [simp del] neon_loop.simps [simp del] scalar_loop.simps [simp del]

text \<open>The build selects the loops: AVX2 implies SSE2.\<close>

datatype simd = No_Simd | Sse2 | Avx2 | Neon

definition vk_vectoring_find_newline :: "simd \<Rightarrow> mem \<Rightarrow> addr \<Rightarrow> size_t \<Rightarrow> addr option" where
  "vk_vectoring_find_newline cfg m buf len =
     (let next = (\<lambda>loop r. case r of Inl a \<Rightarrow> Inl a | Inr (b, n) \<Rightarrow> loop b n);
          r32 = (if cfg = Avx2 then simd_loop 32 m buf len else Inr (buf, len));
          r16 = (if cfg = Avx2 \<or> cfg = Sse2 then next (simd_loop 16 m) r32 else r32);
          rn = (if cfg = Neon then next (neon_loop m) r16 else r16)
      in case rn of Inl a \<Rightarrow> Some a | Inr (b, n) \<Rightarrow> scalar_loop m b n)"

definition iov_find :: "simd \<Rightarrow> mem \<Rightarrow> iovec \<Rightarrow> (addr \<times> addr) option" where
  "iov_find cfg m v =
     (case iov_base v of
        Base a \<Rightarrow> (case vk_vectoring_find_newline cfg m a (iov_len v) of
                     None \<Rightarrow> None | Some res \<Rightarrow> Some (res, a))
      | Empty_Literal \<Rightarrow> None)"

definition vk_vectoring_tx_line_len :: "simd \<Rightarrow> mem \<Rightarrow> vk_vectoring \<Rightarrow> size_t option" where
  "vk_vectoring_tx_line_len cfg m r =
     (case iov_find cfg m (fst (vector_tx r)) of
        Some (res, buf) \<Rightarrow> Some (res - buf + 1)
      | None \<Rightarrow>
          (case iov_find cfg m (snd (vector_tx r)) of
             Some (res, buf) \<Rightarrow> Some (iov_len (fst (vector_tx r)) + (res - buf) + 1)
           | None \<Rightarrow> None))"

definition vk_vectoring_tx_line_request :: "simd \<Rightarrow> mem \<Rightarrow> vk_vectoring \<Rightarrow> size_t \<Rightarrow> size_t" where
  "vk_vectoring_tx_line_request cfg m r len =
     (case vk_vectoring_tx_line_len cfg m r of Some line_len \<Rightarrow> line_len | None \<Rightarrow> len)"

subsection \<open>All loops find the first newline\<close>

definition first_newline :: "byte list \<Rightarrow> nat option" where
  "first_newline bs = find (\<lambda>i. bs ! i = newline) [0..<length bs]"

lemma find_upt_Some:
  "find P [0..<n] = Some i \<longleftrightarrow> i < n \<and> P i \<and> (\<forall>j<i. \<not> P j)"
proof -
  have "find P [0..<n] = Some i \<longleftrightarrow> (\<exists>k<n. P k \<and> i = k \<and> (\<forall>j<k. \<not> P j))"
    by (auto simp: find_Some_iff)
  then show ?thesis by auto
qed

lemma find_upt_None: "find P [0..<n] = None \<longleftrightarrow> (\<forall>j<n. \<not> P j)"
  by (auto simp: find_None_iff)

lemma first_newline_Some:
  "first_newline bs = Some i \<longleftrightarrow> i < length bs \<and> bs ! i = newline \<and> (\<forall>j<i. bs ! j \<noteq> newline)"
  by (simp add: first_newline_def find_upt_Some)

lemma first_newline_None: "first_newline bs = None \<longleftrightarrow> newline \<notin> set bs"
  by (auto simp: first_newline_def find_upt_None in_set_conv_nth)

lemma first_newline_append:
  "first_newline (xs @ ys) =
    (case first_newline xs of
       Some i \<Rightarrow> Some i
     | None \<Rightarrow> map_option (\<lambda>i. length xs + i) (first_newline ys))"
proof (cases "first_newline xs")
  case None
  show ?thesis
  proof (cases "first_newline ys")
    case (Some i)
    have "(xs @ ys) ! j \<noteq> newline" if "j < length xs + i" for j
      using that None Some by (auto simp: first_newline_Some first_newline_None nth_append)
        (metis add.commute less_diff_conv2 nth_mem not_less)
    then have "first_newline (xs @ ys) = Some (length xs + i)"
      using Some by (simp add: first_newline_Some)
    then show ?thesis by (simp only: None Some option.case option.map)
  next
    case None': None
    have "first_newline (xs @ ys) = None" using None None' by (simp add: first_newline_None)
    then show ?thesis by (simp only: None None' option.case option.map)
  qed
next
  case (Some i)
  then have "first_newline (xs @ ys) = Some i" by (simp add: first_newline_Some nth_append)
  then show ?thesis by (simp only: Some option.case)
qed

lemma movemask_bit:
  "bit (movemask_epi8 (cmpeq_epi8 chunk c)) i \<longleftrightarrow> i < 32 \<and> i < length chunk \<and> chunk ! i = c"
  by (auto simp: movemask_epi8_def cmpeq_epi8_def bit_horner_sum_bit_word_iff split: if_splits)

lemma ctz_Some:
  assumes "length chunk \<le> 32" "movemask_epi8 (cmpeq_epi8 chunk newline) \<noteq> 0"
  shows "first_newline chunk = Some (ctz (movemask_epi8 (cmpeq_epi8 chunk newline)))"
proof -
  let ?w = "movemask_epi8 (cmpeq_epi8 chunk newline)"
  obtain i where i: "bit ?w i" using assms(2) by (auto simp: bit_eq_iff)
  then have "i < 32" by (simp add: movemask_bit)
  let ?t = "takeWhile (\<lambda>i. \<not> bit ?w i) [0..<32]"
  have lt: "length ?t < 32"
  proof (rule ccontr)
    assume "\<not> length ?t < 32"
    then have "length ?t = length [0..<32]" using length_takeWhile_le [of "\<lambda>i. \<not> bit ?w i" "[0..<32]"] by simp
    then have "\<forall>x\<in>set [0..<32]. \<not> bit ?w x"
      by (metis takeWhile_eq_all_conv length_takeWhile_le order_refl take_all takeWhile_eq_take)
    with i \<open>i < 32\<close> show False by simp
  qed
  have "bit ?w (length ?t)"
    using nth_length_takeWhile [of "\<lambda>i. \<not> bit ?w i" "[0..<32]"] lt by simp
  moreover have "\<not> bit ?w j" if "j < length ?t" for j
  proof -
    have "?t ! j \<in> set ?t" using that by simp
    then have "\<not> bit ?w (?t ! j)" by (metis set_takeWhileD)
    then show ?thesis using that lt by (simp add: takeWhile_nth)
  qed
  ultimately show ?thesis
    using assms(1) by (auto simp: first_newline_Some ctz_def movemask_bit)
qed

lemma movemask_zero:
  "length chunk \<le> 32 \<Longrightarrow> movemask_epi8 (cmpeq_epi8 chunk c) = 0 \<longleftrightarrow> c \<notin> set chunk"
  by (auto simp: bit_eq_iff movemask_bit in_set_conv_nth)

lemma neon_hit_first:
  "length chunk = 16 \<Longrightarrow> neon_hit (cmpeq_epi8 chunk newline) = first_newline chunk"
proof -
  assume "length chunk = 16"
  then have "\<forall>i\<in>set [0..<16]. (cmpeq_epi8 chunk newline ! i \<noteq> 0) = (chunk ! i = newline)"
    by (simp add: cmpeq_epi8_def)
  then show ?thesis using \<open>length chunk = 16\<close>
    unfolding neon_hit_def first_newline_def by (intro find_cong) simp_all
qed

definition find_addr :: "mem \<Rightarrow> addr \<Rightarrow> nat \<Rightarrow> addr option" where
  "find_addr m buf n = map_option (\<lambda>i. buf + of_nat i) (first_newline (bytes_at m buf n))"

lemma find_addr_split:
  "find_addr m buf (k + n) =
    (case first_newline (bytes_at m buf k) of
       Some i \<Rightarrow> Some (buf + of_nat i)
     | None \<Rightarrow> find_addr m (buf + of_nat k) n)"
  by (simp add: find_addr_def bytes_at_append first_newline_append option.map_comp comp_def
      add.assoc split: option.split)

text \<open>What a loop leaves to the next one.\<close>

definition finish :: "mem \<Rightarrow> addr + addr \<times> size_t \<Rightarrow> addr option" where
  "finish m r = (case r of Inl a \<Rightarrow> Some a | Inr (b, n) \<Rightarrow> find_addr m b (unat n))"

lemma unat_rest: "k \<le> unat (len :: size_t) \<Longrightarrow> unat len = k + unat (len - of_nat k)"
proof -
  assume k: "k \<le> unat len"
  then have u: "unat (of_nat k :: size_t) = k"
    using le_less_trans [OF _ unat_lt64 [of len]] by (intro unat_of_nat_exact)
  then have "unat (len - of_nat k) = unat len - k"
    using k by (subst unat_sub_exact) (simp_all add: word_le_nat_alt)
  with k show ?thesis by simp
qed

lemma simd_loop_finish: "k \<le> 32 \<Longrightarrow> finish m (simd_loop k m buf len) = find_addr m buf (unat len)"
proof (induction k m buf len rule: simd_loop.induct)
  case (1 k m buf len)
  let ?chunk = "bytes_at m buf k" and ?mask = "movemask_epi8 (cmpeq_epi8 (bytes_at m buf k) newline)"
  consider (stop) "k = 0 \<or> unat len < k"
    | (hit) "\<not> (k = 0 \<or> unat len < k)" "?mask \<noteq> 0"
    | (miss) "\<not> (k = 0 \<or> unat len < k)" "?mask = 0" by blast
  then show ?case
  proof cases
    case stop
    then show ?thesis by (subst simd_loop.simps) (auto simp: finish_def)
  next
    case hit
    then have "simd_loop k m buf len = Inl (buf + of_nat (ctz ?mask))"
      by (subst simd_loop.simps) (simp add: Let_def)
    moreover have "unat len = k + unat (len - of_nat k)" using hit by (intro unat_rest) simp
    moreover have "first_newline ?chunk = Some (ctz ?mask)" using hit 1 by (intro ctz_Some) simp_all
    ultimately show ?thesis
      using find_addr_split [of m buf k "unat (len - of_nat k)"] by (simp add: finish_def)
  next
    case miss
    then have "simd_loop k m buf len = simd_loop k m (buf + of_nat k) (len - of_nat k)"
      by (subst simd_loop.simps) (simp add: Let_def)
    moreover have len: "unat len = k + unat (len - of_nat k)" using miss by (intro unat_rest) simp
    moreover have "first_newline ?chunk = None"
      using miss "1.prems" by (simp add: first_newline_None movemask_zero)
    moreover have "finish m (simd_loop k m (buf + of_nat k) (len - of_nat k)) =
        find_addr m (buf + of_nat k) (unat (len - of_nat k))"
      using 1 miss by blast
    ultimately show ?thesis
      using find_addr_split [of m buf k "unat (len - of_nat k)"] by simp
  qed
qed

lemma neon_loop_finish: "finish m (neon_loop m buf len) = find_addr m buf (unat len)"
proof (induction m buf len rule: neon_loop.induct)
  case (1 m buf len)
  show ?case
  proof (cases "unat len < 16")
    case True
    then show ?thesis by (subst neon_loop.simps) (simp add: finish_def)
  next
    case False
    then have len: "unat len = 16 + unat (len - 16)" using unat_rest [of 16 len] by simp
    note split = find_addr_split [of m buf 16 "unat (len - 16)", folded len]
    have hit: "neon_hit (cmpeq_epi8 (bytes_at m buf 16) newline) = first_newline (bytes_at m buf 16)"
      by (simp add: neon_hit_first)
    show ?thesis
    proof (cases "first_newline (bytes_at m buf 16)")
      case None
      then have "finish m (neon_loop m (buf + 16) (len - 16)) = find_addr m (buf + 16) (unat (len - 16))"
        using 1 False hit by simp
      moreover have "neon_loop m buf len = neon_loop m (buf + 16) (len - 16)"
        using False hit None by (subst neon_loop.simps) simp
      ultimately show ?thesis using split None by simp
    next
      case (Some i)
      then have "neon_loop m buf len = Inl (buf + of_nat i)"
        using False hit by (subst neon_loop.simps) simp
      then show ?thesis using split Some by (simp add: finish_def)
    qed
  qed
qed

lemma scalar_loop_find: "scalar_loop m buf len = find_addr m buf (unat len)"
proof (induction m buf len rule: scalar_loop.induct)
  case (1 m buf len)
  show ?case
  proof (cases "len = 0")
    case True
    then show ?thesis by (subst scalar_loop.simps) (simp add: find_addr_def first_newline_def)
  next
    case False
    then have len: "unat len = 1 + unat (len - 1)"
      using unat_rest [of 1 len] by (simp add: word_eq_unat)
    note split = find_addr_split [of m buf 1 "unat (len - 1)", folded len]
    have one: "first_newline (bytes_at m buf 1) = (if m buf = newline then Some 0 else None)"
      by (simp add: bytes_at_def first_newline_def)
    show ?thesis
    proof (cases "m buf = newline")
      case True
      then show ?thesis using False split one by (subst scalar_loop.simps) simp
    next
      case False': False
      then show ?thesis using False split one 1 by (subst scalar_loop.simps) simp
    qed
  qed
qed

lemma find_newline_addr:
  "vk_vectoring_find_newline cfg m buf len = find_addr m buf (unat len)"
proof -
  have fin: "(case r of Inl a \<Rightarrow> Some a | Inr (b, n) \<Rightarrow> scalar_loop m b n) = finish m r" for r
    by (cases r) (auto simp: finish_def scalar_loop_find)
  have next16: "finish m (case r of Inl a \<Rightarrow> Inl a | Inr (b, n) \<Rightarrow> simd_loop 16 m b n) = finish m r" for r
    by (cases r) (auto simp: finish_def [of _ "Inl _"] finish_def [of _ "Inr _"] simd_loop_finish)
  have nextn: "finish m (case r of Inl a \<Rightarrow> Inl a | Inr (b, n) \<Rightarrow> neon_loop m b n) = finish m r" for r
    by (cases r) (auto simp: finish_def [of _ "Inl _"] finish_def [of _ "Inr _"] neon_loop_finish)
  have start: "finish m (Inr (buf, len)) = find_addr m buf (unat len)" by (simp add: finish_def)
  show ?thesis
    by (cases cfg) (simp_all add: vk_vectoring_find_newline_def Let_def fin next16 nextn start
        simd_loop_finish neon_loop_finish)
qed

text \<open>C39: The vectorised newline searches of every build (none, SSE2, AVX2, NEON) are equivalent to the
  scalar loop: over any memory and length they return the address of the first newline, or
  none when there is none.\<close>

theorem find_newline_simd_equiv:
  "vk_vectoring_find_newline cfg m buf len = scalar_loop m buf len \<and>
   vk_vectoring_find_newline cfg m buf len =
     map_option (\<lambda>i. buf + of_nat i) (first_newline (bytes_at m buf (unat len)))"
  by (simp add: find_newline_addr scalar_loop_find find_addr_def)

subsection \<open>Lines of a ring\<close>

lemma iov_find_Base:
  "iov_base v = Base a \<Longrightarrow>
    iov_find cfg m v =
      map_option (\<lambda>i. (a + of_nat i, a)) (first_newline (map m (seg_addrs v)))"
  by (simp add: iov_find_def find_newline_addr find_addr_def seg_addrs_def bytes_at_def comp_def
      split: option.split)

lemma iov_find_Empty: "iov_base v = Empty_Literal \<Longrightarrow> iov_find cfg m v = None"
  by (simp add: iov_find_def)

lemma tx_line_len_first:
  assumes "ring_wf r"
  shows "vk_vectoring_tx_line_len cfg m r =
    map_option (\<lambda>i. of_nat (Suc i)) (first_newline (ring_data m r))"
proof -
  let ?v = "vector_tx r"
  note ok = vec_ok_tx [OF assms]
  obtain a where a: "iov_base (fst ?v) = Base a" using ok by (auto simp: vec_ok_def)
  have data: "ring_data m r = map m (seg_addrs (fst ?v)) @ map m (seg_addrs (snd ?v))"
    by (simp add: ring_data_def vec_addrs_def flip: vec_addrs_tx [OF assms])
  have len: "length (seg_addrs (fst ?v)) = unat (iov_len (fst ?v))"
    using a by (simp add: seg_addrs_def)
  show ?thesis
  proof (cases "first_newline (map m (seg_addrs (fst ?v)))")
    case (Some i)
    then show ?thesis
      by (simp add: vk_vectoring_tx_line_len_def iov_find_Base [OF a] data first_newline_append
          add.commute)
  next
    case None
    show ?thesis
    proof (cases "iov_base (snd ?v)")
      case (Base b)
      with None show ?thesis
        by (cases "first_newline (map m (seg_addrs (snd ?v)))")
          (simp_all add: vk_vectoring_tx_line_len_def iov_find_Base [OF a] iov_find_Base [OF Base]
            data first_newline_append len add.commute add.left_commute)
    next
      case Empty_Literal
      then have "seg_addrs (snd ?v) = []" by (simp add: seg_addrs_def)
      with None Empty_Literal show ?thesis
        by (simp add: vk_vectoring_tx_line_len_def iov_find_Base [OF a] iov_find_Empty data
            first_newline_append first_newline_def [of "[]"])
    qed
  qed
qed

lemma line_request_unat:
  assumes "ring_wf r"
  shows "unat (vk_vectoring_tx_line_request cfg m r len) =
    (case first_newline (ring_data m r) of Some i \<Rightarrow> Suc i | None \<Rightarrow> unat len)"
proof (cases "first_newline (ring_data m r)")
  case (Some i)
  then have "i < unat (tx_len r)" by (simp add: first_newline_Some)
  then have "Suc i < 2 ^ 64" using ring_wfD(2,4) [OF assms] by simp
  then have "unat (of_nat (Suc i) :: size_t) = Suc i" by (rule unat_of_nat_exact)
  with Some show ?thesis
    by (simp add: vk_vectoring_tx_line_request_def tx_line_len_first [OF assms] del: of_nat_Suc)
qed (simp add: vk_vectoring_tx_line_request_def tx_line_len_first [OF assms])

text \<open>A line request followed by a receive delivers exactly the ring's first line, newline
  included, wherever the line wraps in the ring, and leaves what follows it. The request
  ignores the length the caller gave as soon as a line is complete, so a line longer than
  that length is copied whole, past the end of the caller's buffer.\<close>

theorem line_request_delivers_line:
  assumes "ring_wf r" "0 \<le> vec_error r" "first_newline (ring_data m r) = Some i"
    "no_overlap buf (Suc i) (buf_start r) (unat (buf_len r))"
    "vk_vectoring_recv e m r buf (vk_vectoring_tx_line_request cfg m r len) = (rc, e', m', r')"
  shows "rc = int (Suc i) \<and> bytes_at m' buf (Suc i) = take (Suc i) (ring_data m r) \<and>
    last (bytes_at m' buf (Suc i)) = newline \<and> newline \<notin> set (butlast (bytes_at m' buf (Suc i))) \<and>
    ring_data m' r' = drop (Suc i) (ring_data m r) \<and>
    (unat len \<le> i \<longrightarrow> rc > int (unat len))"
proof -
  have req: "unat (vk_vectoring_tx_line_request cfg m r len) = Suc i"
    using line_request_unat [OF assms(1)] assms(3) by simp
  have i: "i < length (ring_data m r)" "ring_data m r ! i = newline"
    "\<forall>j<i. ring_data m r ! j \<noteq> newline"
    using assms(3) by (simp_all only: first_newline_Some) auto
  have sep: "no_overlap buf (unat (vk_vectoring_tx_line_request cfg m r len)) (buf_start r)
      (unat (buf_len r))"
    using assms(4) req by simp
  note q = recv_queue [OF assms(1,2) sep assms(5)]
  have n: "min (Suc i) (length (ring_data m r)) = Suc i" using i(1) by simp
  have "rc = int (Suc i)" using q unfolding req n by blast
  then have rc: "rc = int (Suc i)" "nat rc = Suc i" by simp_all
  have rd: "bytes_at m' buf (Suc i) = take (Suc i) (ring_data m r)"
    "ring_data m' r' = drop (Suc i) (ring_data m r)"
    using q unfolding rc(2) by blast+
  have "take (Suc i) (ring_data m r) = take i (ring_data m r) @ [newline]"
    using i by (simp add: take_Suc_conv_app_nth)
  moreover have "newline \<notin> set (take i (ring_data m r))"
    using i by (auto simp: in_set_conv_nth)
  moreover have "unat len \<le> i \<longrightarrow> rc > int (unat len)" by (simp only: rc(1) of_nat_less_iff) simp
  ultimately show ?thesis using rd rc(1) by (metis last_snoc butlast_snoc)
qed

theorem line_request_delivers_line_witness:
  "case vk_vectoring_recv 0 (\<lambda>x. if x = 100 then 10 else 65) wrapped_ring 200
      (vk_vectoring_tx_line_request Avx2 (\<lambda>x. if x = 100 then 10 else 65) wrapped_ring 2) of
    (rc, e', m', r') \<Rightarrow> rc = 3 \<and> bytes_at m' 200 3 = [65, 65, 10]"
proof -
  let ?m = "\<lambda>x :: addr. if x = 100 then 10 else (65 :: byte)"
  let ?req = "vk_vectoring_tx_line_request Avx2 ?m wrapped_ring 2"
  obtain rc e' m' r' where eq: "vk_vectoring_recv 0 ?m wrapped_ring 200 ?req = (rc, e', m', r')"
    by (metis prod.exhaust)
  have data: "ring_data ?m wrapped_ring = [65, 65, 10]"
    by (simp add: wrapped_ring_def ring_data_def tx_addrs_def ring_addr_def upt_rec)
  have fn: "first_newline (ring_data ?m wrapped_ring) = Some 2"
    unfolding data by (simp add: first_newline_def upt_rec)
  have "no_overlap 200 (Suc 2) (buf_start wrapped_ring) (unat (buf_len wrapped_ring))"
    using wrapped_ring_apart(2) by (simp add: wrapped_ring_wf)
  from line_request_delivers_line [OF wrapped_ring_wf(1) _ fn this eq]
  have "rc = 3" "bytes_at m' 200 (Suc 2) = take (Suc 2) (ring_data ?m wrapped_ring)"
    by (simp_all add: wrapped_ring_wf)
  then show ?thesis unfolding data by (simp add: eq)
qed

end
