(* ===== verification/Thread_IO.thy ===== *)
theory Thread_IO
  imports Coroutine Newline
begin

text \<open>
  The blocking operations a coroutine is written with (src/vk_thread_io.h). Each is a loop
  around \<open>vk_wait\<close>: a \<open>start\<close> initialises the block of the socket, and a \<open>turn\<close> is one
  evaluation of the loop's condition and body, up to its end, a suspension, the next
  evaluation, or an error. The coroutine re-enters the same turn when it is resumed;
  \<open>io_run\<close> alternates turns with what the rest of the world does meanwhile.
\<close>

datatype io_outcome = Io_Done int | Io_Wait | Io_Again | Io_Error errno

type_synonym io_turn = "vk_world \<Rightarrow> io_outcome \<times> vk_world"

abbreviation blk :: "addr \<Rightarrow> vk_world \<Rightarrow> vk_block" where
  "blk s w \<equiv> so_block (w_socket w s)"

definition io_start :: "addr \<Rightarrow> addr \<Rightarrow> size_t \<Rightarrow> vk_op_type \<Rightarrow> vk_world \<Rightarrow> vk_world" where
  "io_start s buf len oper = upd_block s (\<lambda>b. vk_block_init b buf len oper)"

definition io_commit :: "addr \<Rightarrow> int \<times> vk_world \<Rightarrow> int \<times> vk_world" where
  "io_commit s res =
     (case res of (rc, w) \<Rightarrow> (rc, upd_block s (\<lambda>b. snd (vk_block_commit b rc)) w))"

definition io_committed :: "addr \<Rightarrow> vk_world \<Rightarrow> io_outcome \<times> vk_world" where
  "io_committed s w = (Io_Done (sint (blk_copied (blk s w))), w)"

subsection \<open>Reading\<close>

definition sock_recv :: "addr \<Rightarrow> vk_world \<Rightarrow> int \<times> vk_world" where
  "sock_recv s w =
     put_rx s (vk_vectoring_recv (w_errno w) (w_mem w) (so_rx (w_socket w s))
                 (blk_buf (blk s w)) (blk_len (blk s w))) w"

definition vk_socket_read :: "addr \<Rightarrow> io_turn" where
  "vk_socket_read s w =
     (if \<not> vk_socket_pollhup s w \<and> blk_len (blk s w) > 0
      then (case io_commit s (sock_recv s w) of (rc, w1) \<Rightarrow>
              if rc = - 1 then (Io_Error (w_errno w1), w1)
              else if vk_socket_pollhup s w1 then io_committed s w1
              else if blk_len (blk s w1) > 0 then (Io_Wait, w1) else (Io_Again, w1))
      else io_committed s w)"

text \<open>The byte \<open>buf[committed - 1]\<close>, where \<open>buf\<close> has moved past what was committed.\<close>

definition last_committed :: "addr \<Rightarrow> vk_world \<Rightarrow> byte" where
  "last_committed s w = w_mem w (blk_buf (blk s w) + (blk_copied (blk s w) - 1))"

definition vk_socket_readline :: "simd \<Rightarrow> addr \<Rightarrow> io_turn" where
  "vk_socket_readline cfg s w =
     (if \<not> vk_socket_pollhup s w \<and> blk_len (blk s w) > 0 \<and>
         (blk_copied (blk s w) = 0 \<or> last_committed s w \<noteq> newline)
      then (let req = vk_vectoring_tx_line_request cfg (w_mem w) (so_rx (w_socket w s)) (blk_len (blk s w));
                w0 = upd_block s (blk_len_update (\<lambda>_. req)) w
            in case io_commit s (sock_recv s w0) of (rc, w1) \<Rightarrow>
              if rc = - 1 then (Io_Error (w_errno w1), w1)
              else if vk_socket_pollhup s w1 then io_committed s w1
              else if blk_len (blk s w1) > 0 \<and> last_committed s w1 \<noteq> newline then (Io_Wait, w1)
              else (Io_Again, w1))
      else io_committed s w)"

definition vk_socket_pollread :: "addr \<Rightarrow> io_turn" where
  "vk_socket_pollread s w =
     (let done = (\<lambda>w. (Io_Done (uint (vk_vectoring_vector_tx_len (so_rx (w_socket w s)))), w))
      in if \<not> vk_socket_pollhup s w \<and> blk_len (blk s w) > 0
         then (case io_commit s (if vk_vectoring_is_empty (so_rx (w_socket w s)) then 0 else 1, w) of (rc, w1) \<Rightarrow>
                 if vk_socket_pollhup s w1 then done w1
                 else if blk_len (blk s w1) > 0 then (Io_Wait, w1) else (Io_Again, w1))
         else done w)"

definition vk_socket_readhup :: "addr \<Rightarrow> vk_world \<Rightarrow> (io_outcome \<times> vk_world) option" where
  "vk_socket_readhup s w =
     (if \<not> vk_socket_pollhup s w then Some (Io_Error EAGAIN, w)
      else do {
        (_, w1) \<leftarrow> vk_socket_handle_readhup s w;
        let (rc, w2) = put_rx_ring s (vk_vectoring_readhup (w_errno w1) (so_rx (w_socket w1 s))) w1;
        Some (if rc = - 1 then Io_Error (w_errno w2) else Io_Done 0, w2) })"

subsection \<open>Writing\<close>

definition sock_send :: "addr \<Rightarrow> vk_world \<Rightarrow> int \<times> vk_world" where
  "sock_send s w =
     (case vk_vectoring_send (w_errno w) (w_mem w) (so_tx (w_socket w s))
             (blk_buf (blk s w)) (blk_len (blk s w)) of
        (rc, e, m, r) \<Rightarrow> put_tx s (rc, e, r) (w\<lparr>w_mem := m\<rparr>))"

definition vk_socket_write_start :: "addr \<Rightarrow> addr \<Rightarrow> size_t \<Rightarrow> vk_world \<Rightarrow> io_outcome \<times> vk_world" where
  "vk_socket_write_start s buf len w =
     (let w1 = io_start s buf len VK_OP_WRITE w
      in if vk_socket_eof_tx (w_socket w1 s) then (Io_Error EPIPE, w1) else (Io_Again, w1))"

definition vk_socket_write :: "addr \<Rightarrow> io_turn" where
  "vk_socket_write s w =
     (if blk_len (blk s w) > 0
      then (case io_commit s (sock_send s w) of (rc, w1) \<Rightarrow>
              if rc = - 1 then (Io_Error (w_errno w1), w1)
              else if blk_len (blk s w1) > 0 then (Io_Wait, w1) else (Io_Again, w1))
      else (Io_Done 0, w))"

definition vk_socket_flush :: "addr \<Rightarrow> io_turn" where
  "vk_socket_flush s w =
     (if vk_vectoring_tx_len (so_tx (w_socket w s)) > 0 then (Io_Wait, w) else (Io_Done 0, w))"

text \<open>After the flush.\<close>

definition vk_socket_hup_start :: "addr \<Rightarrow> vk_world \<Rightarrow> io_outcome \<times> vk_world" where
  "vk_socket_hup_start s w =
     (let (rc, w1) = put_tx s (vk_vectoring_hup (w_errno w) (so_tx (w_socket w s))) w
      in if rc = - 1 then (Io_Error (w_errno w1), w1) else (Io_Again, io_start s 0 1 VK_OP_HUP w1))"

definition vk_socket_hup :: "addr \<Rightarrow> io_turn" where
  "vk_socket_hup s w =
     (if blk_len (blk s w) > 0
      then (case io_commit s (if vk_socket_eof_tx (w_socket w s) then 0 else 1, w) of (rc, w1) \<Rightarrow>
              if blk_len (blk s w1) > 0 then (Io_Wait, w1) else (Io_Again, w1))
      else (Io_Done 0, w))"

definition sock_forward :: "addr \<Rightarrow> addr \<Rightarrow> vk_world \<Rightarrow> int \<times> vk_world" where
  "sock_forward lit s w =
     (case vk_vectoring_splice lit (w_errno w) (w_mem w) (so_tx (w_socket w s)) (so_rx (w_socket w s))
             (sint (blk_len (blk s w))) of
        (rc, e, m, r, t) \<Rightarrow>
          (rc, upd_socket s (\<lambda>so. so\<lparr>so_tx := r, so_rx := t\<rparr>) (w\<lparr>w_errno := e, w_mem := m\<rparr>)))"

definition vk_socket_forward :: "addr \<Rightarrow> addr \<Rightarrow> io_turn" where
  "vk_socket_forward lit s w =
     (if \<not> vk_socket_pollhup s w \<and> blk_len (blk s w) > 0
      then (case io_commit s (sock_forward lit s w) of (rc, w1) \<Rightarrow>
              if rc = - 1 then (Io_Error (w_errno w1), w1)
              else if \<not> vk_socket_pollhup s w1 \<or> blk_len (blk s w1) > 0 then (Io_Wait, w1)
              else (Io_Again, w1))
      else io_committed s w)"

text \<open>Closing, shutting down and direct polling wait once; polling first registers the socket.\<close>

definition vk_socket_once :: "addr \<Rightarrow> io_turn" where
  "vk_socket_once s w =
     (if blk_len (blk s w) > 0 then (Io_Wait, upd_block s (blk_len_update (\<lambda>_. 0)) w) else (Io_Done 0, w))"

definition vk_socket_poll_start :: "addr \<Rightarrow> vk_op_type \<Rightarrow> vk_world \<Rightarrow> vk_world option" where
  "vk_socket_poll_start s oper w =
     do { w1 \<leftarrow> vk_socket_enqueue_blocked s w; Some (io_start s 0 1 oper w1) }"

text \<open>Accepting reads the accepted structure like bytes; \<open>get_fd\<close> is the field \<open>fd\<close> of the
  structure at an address, which lies where the compiler put it.\<close>

definition vk_socket_accept :: "((addr \<Rightarrow> byte) \<Rightarrow> addr \<Rightarrow> int) \<Rightarrow> addr \<Rightarrow> addr \<Rightarrow> io_turn" where
  "vk_socket_accept get_fd ptr s w =
     (case vk_socket_read s w of
        (Io_Done rc, w1) \<Rightarrow> (Io_Done (if rc = - 1 then - 1 else get_fd (w_mem w1) ptr), w1)
      | res \<Rightarrow> res)"

subsection \<open>Turns and the rest of the world\<close>

text \<open>Turns up to a suspension or the end; fuel bounds the turns without suspension.\<close>

fun io_turns :: "io_turn \<Rightarrow> nat \<Rightarrow> io_turn" where
  "io_turns turn 0 w = (Io_Again, w)"
| "io_turns turn (Suc n) w =
     (case turn w of (Io_Again, w') \<Rightarrow> io_turns turn n w' | res \<Rightarrow> res)"

fun io_run :: "io_turn \<Rightarrow> (vk_world \<Rightarrow> vk_world) list \<Rightarrow> io_turn" where
  "io_run turns [] w = turns w"
| "io_run turns (e # es) w =
     (case turns w of (Io_Wait, w') \<Rightarrow> io_run turns es (e w') | res \<Rightarrow> res)"

subsection \<open>Reading takes the bytes of the ring in order\<close>

text \<open>A read of \<open>n\<close> bytes into \<open>buf\<close> under way, and the bytes it has and is about to get.\<close>

definition reading :: "addr \<Rightarrow> addr \<Rightarrow> nat \<Rightarrow> vk_world \<Rightarrow> bool" where
  "reading s buf n w \<longleftrightarrow>
     ring_wf (so_rx (w_socket w s)) \<and> 0 \<le> vec_error (so_rx (w_socket w s)) \<and>
     blk_buf (blk s w) = buf + blk_copied (blk s w) \<and>
     unat (blk_copied (blk s w)) + unat (blk_len (blk s w)) = n \<and> n < 2 ^ 63 \<and>
     no_overlap buf n (buf_start (so_rx (w_socket w s))) (unat (buf_len (so_rx (w_socket w s))))"

definition copied_bytes :: "addr \<Rightarrow> addr \<Rightarrow> vk_world \<Rightarrow> byte list" where
  "copied_bytes s buf w = bytes_at (w_mem w) buf (unat (blk_copied (blk s w)))"

definition rx_data :: "addr \<Rightarrow> vk_world \<Rightarrow> byte list" where
  "rx_data s w = ring_data (w_mem w) (so_rx (w_socket w s))"

definition read_stream :: "addr \<Rightarrow> addr \<Rightarrow> vk_world \<Rightarrow> byte list" where
  "read_stream s buf w = copied_bytes s buf w @ rx_data s w"

lemma no_overlap_sub:
  assumes "no_overlap a n b m" "i + k \<le> n"
  shows "no_overlap (a + of_nat i) k b m"
proof -
  have "range_addrs a n = range_addrs a i @ range_addrs (a + of_nat i) k @ range_addrs (a + of_nat (i + k)) (n - (i + k))"
    using range_addrs_append [of a i "n - i"] range_addrs_append [of "a + of_nat i" k "n - i - k"] assms(2)
    by (simp add: add.assoc)
  then show ?thesis using assms(1) by (auto simp: no_overlap_def)
qed

lemma bytes_at_before:
  assumes "\<And>x. \<not> in_range (a + of_nat i) k x \<Longrightarrow> m' x = m x" "i + k \<le> 2 ^ 63"
  shows "bytes_at m' a i = bytes_at m a i"
proof (rule bytes_at_cong)
  fix j assume j: "j < i"
  let ?x = "a + of_nat j - (a + of_nat i) :: addr"
  have u: "unat (of_nat (i - j) :: addr) = i - j" using assms(2) by (intro unat_of_nat_exact) simp
  have zero: "?x + of_nat (i - j) = 0" using j by (simp add: of_nat_diff)
  have "\<not> unat ?x < k"
  proof
    assume "unat ?x < k"
    then have "unat (?x + of_nat (i - j)) = unat ?x + (i - j)"
      using assms(2) u by (subst unat_add_exact) simp_all
    then show False using zero j by simp
  qed
  then have "\<not> in_range (a + of_nat i) k (a + of_nat j)" by (simp add: in_range_def)
  then show "m' (a + of_nat j) = m (a + of_nat j)" by (rule assms(1))
qed

lemma recv_step:
  assumes rd: "reading s buf n w" and rec: "io_commit s (sock_recv s w) = (rc, w1)"
  shows "let k = min (unat (blk_len (blk s w))) (length (rx_data s w)) in
    rc = int k \<and> reading s buf n w1 \<and> read_stream s buf w1 = read_stream s buf w \<and>
    unat (blk_copied (blk s w1)) = unat (blk_copied (blk s w)) + k \<and> rx_data s w1 = drop k (rx_data s w) \<and>
    (\<forall>x. \<not> in_range (blk_buf (blk s w)) k x \<longrightarrow> w_mem w1 x = w_mem w x) \<and>
    vec_eof (so_rx (w_socket w1 s)) = vec_eof (so_rx (w_socket w s)) \<and>
    so_rx_fd (w_socket w1 s) = so_rx_fd (w_socket w s) \<and> ioft_rx_ret (blk s w1) = ioft_rx_ret (blk s w) \<and>
    buf_len (so_rx (w_socket w1 s)) = buf_len (so_rx (w_socket w s))"
proof -
  let ?r = "so_rx (w_socket w s)" and ?c = "blk_copied (blk s w)" and ?l = "blk_len (blk s w)"
  obtain rc' e' m' r' where v: "vk_vectoring_recv (w_errno w) (w_mem w) ?r (blk_buf (blk s w)) ?l = (rc', e', m', r')"
    by (metis prod.exhaust)
  have bb: "blk_buf (blk s w) = buf + ?c" and n: "unat ?c + unat ?l = n" "n < 2 ^ 63"
    and r: "ring_wf ?r" "0 \<le> vec_error ?r"
    and ov: "no_overlap buf n (buf_start ?r) (unat (buf_len ?r))"
    using rd by (simp_all add: reading_def)
  have ov': "no_overlap (blk_buf (blk s w)) (unat ?l) (buf_start ?r) (unat (buf_len ?r))"
    using no_overlap_sub [OF ov, of "unat ?c" "unat ?l"] n by (simp add: bb)
  note q = recv_queue [OF r ov' v]
  define k where "k = min (unat ?l) (length (rx_data s w))"
  have k: "rc' = int k" "k \<le> unat ?l" using q by (simp_all add: k_def rx_data_def)
  have kn: "nat rc' = k" using k(1) by simp
  have kw: "unat (of_nat k :: size_t) = k" using k(2) n by (intro unat_of_nat_exact) simp
  have w1: "rc = rc'" "w_mem w1 = m'" "so_rx (w_socket w1 s) = r'"
    "blk_copied (blk s w1) = ?c + of_nat k" "blk_len (blk s w1) = ?l - of_nat k"
    "blk_buf (blk s w1) = blk_buf (blk s w) + of_nat k" "so_rx_fd (w_socket w1 s) = so_rx_fd (w_socket w s)"
    "ioft_rx_ret (blk s w1) = ioft_rx_ret (blk s w)"
    using rec k(1) by (auto simp: io_commit_def sock_recv_def v put_rx_def upd_block_def vk_block_commit_def)
  have c1: "unat (blk_copied (blk s w1)) = unat ?c + k"
    unfolding w1(4) using n k(2) kw by (subst unat_add_exact) simp_all
  have l1: "unat (blk_len (blk s w1)) = unat ?l - k"
    unfolding w1(5) using k(2) kw by (subst unat_sub_exact) (simp_all add: word_le_nat_alt)
  have "bytes_at m' buf (unat ?c) = bytes_at (w_mem w) buf (unat ?c)"
    using q n k(2) unfolding kn by (intro bytes_at_before [of _ _ k]) (simp_all add: bb)
  moreover have "bytes_at m' (buf + ?c) k = take k (rx_data s w)" "ring_data m' r' = drop k (rx_data s w)"
    using q unfolding kn bb rx_data_def by blast+
  ultimately have "read_stream s buf w1 = read_stream s buf w"
    by (simp add: read_stream_def copied_bytes_def c1 bytes_at_append w1(2,3) rx_data_def)
  moreover have "reading s buf n w1"
    using q n k(2) ov r(2) by (simp add: reading_def w1 bb c1 l1 [unfolded w1(5)] c1 [unfolded w1(4)])
  ultimately show ?thesis
    using q c1 k(1) unfolding kn Let_def k_def [symmetric] by (simp add: w1 rx_data_def)
qed

text \<open>A read that is suspended has taken everything from the ring, of \<open>c\<close> bytes, and needs more. What
  the rest of the world may do then: deliver \<open>d\<close>, which fits into the ring.\<close>

definition waiting_read :: "addr \<Rightarrow> addr \<Rightarrow> nat \<Rightarrow> nat \<Rightarrow> vk_world \<Rightarrow> bool" where
  "waiting_read s buf n c w \<longleftrightarrow> reading s buf n w \<and> rx_data s w = [] \<and> unat (blk_copied (blk s w)) < n \<and>
     unat (buf_len (so_rx (w_socket w s))) = c"

definition feeds :: "addr \<Rightarrow> addr \<Rightarrow> nat \<Rightarrow> nat \<Rightarrow> byte list \<Rightarrow> (vk_world \<Rightarrow> vk_world) \<Rightarrow> bool" where
  "feeds s buf n c d e \<longleftrightarrow> length d \<le> c \<and> (\<forall>w. waiting_read s buf n c w \<longrightarrow>
     reading s buf n (e w) \<and> read_stream s buf (e w) = read_stream s buf w @ d \<and>
     unat (buf_len (so_rx (w_socket (e w) s))) = c)"

text \<open>The system delivers like this when the retried socket reads its descriptor.\<close>

lemma mark_received_buf:
  "buf_start (vk_vectoring_mark_received r n) = buf_start r" "buf_len (vk_vectoring_mark_received r n) = buf_len r"
  by (auto simp: vk_vectoring_mark_received_def Let_def)

lemma signed_received_buf:
  "buf_start (snd (snd (vk_vectoring_signed_received e r k))) = buf_start r"
  "buf_len (snd (snd (vk_vectoring_signed_received e r k))) = buf_len r"
  by (simp_all add: vk_vectoring_signed_received_def mark_received_buf)

lemma read_into_ring:
  assumes "ring_wf r" "vk_vectoring_read e m r (Inr avail) = (rc, e', m', r')"
  shows "buf_start r' = buf_start r" "buf_len r' = buf_len r" "x \<notin> set (rx_addrs r) \<Longrightarrow> m' x = m x"
proof -
  have "m' = scatter m (take (min (length avail) (ring_free r)) (rx_addrs r)) (take (ring_free r) avail)"
    using assms(2) by (auto simp: vk_vectoring_read_def readv_def vec_addrs_rx [OF assms(1)]
        iovs_room_ok [OF vec_ok_rx [OF assms(1)]] Let_def split: prod.splits)
  then show "x \<notin> set (rx_addrs r) \<Longrightarrow> m' x = m x" by (auto intro: scatter_outside dest: in_set_takeD)
  show "buf_start r' = buf_start r" "buf_len r' = buf_len r"
    using assms(2)
    by (auto simp: vk_vectoring_read_def signed_received_buf Let_def split_beta)
qed

lemma readv_feeds:
  assumes "length d \<le> c" "os_readv os = Inr d"
  shows "feeds s buf n c d (\<lambda>w. snd (sock_readv os s w))"
  unfolding feeds_def
proof (intro conjI allI impI assms(1))
  fix w :: vk_world
  let ?r = "so_rx (w_socket w s)" let ?e = "snd (sock_readv os s w)"
  assume w: "waiting_read s buf n c w"
  have rd: "ring_wf ?r" "0 \<le> vec_error ?r" "n < 2 ^ 63" "unat (blk_copied (blk s w)) \<le> n"
    "no_overlap buf n (buf_start ?r) (unat (buf_len ?r))"
    and empty: "ring_data (w_mem w) ?r = []" and c: "unat (buf_len ?r) = c"
    using w by (auto simp: waiting_read_def reading_def rx_data_def)
  obtain rc e' m' r' where v: "vk_vectoring_read (w_errno w) (w_mem w) ?r (Inr d) = (rc, e', m', r')"
    by (metis prod.exhaust)
  note v1 = vectoring_read_appends [OF rd(1) v] and v2 = read_into_ring [OF rd(1) v]
  have free: "ring_free ?r = c" using empty c length_ring_data [of "w_mem w" ?r] by (simp add: ring_free_def)
  have sel: "so_rx (w_socket ?e s) = r'" "w_mem ?e = m'" "blk s ?e = blk s w"
    by (simp_all add: sock_readv_def assms(2) v put_rx_def)
  have "m' x = w_mem w x" if "x \<in> set (range_addrs buf n)" for x
  proof (rule v2(3))
    have "x \<notin> set (range_addrs (buf_start ?r) (unat (buf_len ?r)))" using that rd(5) by (auto simp: no_overlap_def)
    then have "\<not> in_range (buf_start ?r) (unat (buf_len ?r)) x"
      using mem_range_addrs [OF less_imp_le [OF unat_lt64]] by blast
    then show "x \<notin> set (rx_addrs ?r)" using tx_addrs_in_range [OF rd(1), of x] by auto
  qed
  then have "bytes_at m' buf (unat (blk_copied (blk s w))) = bytes_at (w_mem w) buf (unat (blk_copied (blk s w)))"
    using rd(4) by (intro bytes_at_cong) (auto simp: range_addrs_def)
  then show "read_stream s buf ?e = read_stream s buf w @ d"
    using v1 empty free assms(1) by (simp add: read_stream_def copied_bytes_def rx_data_def sel)
  show "reading s buf n ?e"
    using w v1 v2(1,2) rd by (simp add: waiting_read_def reading_def sel)
  show "unat (buf_len (so_rx (w_socket ?e s))) = c" using v2(2) c by (simp add: sel)
qed

lemma committed_result:
  assumes "reading s buf n w" "io_committed s w = (out, w')"
  shows "w' = w \<and> out = Io_Done (int (unat (blk_copied (blk s w))))"
proof -
  have "unat (blk_copied (blk s w)) < 2 ^ 63" using assms(1) by (simp add: reading_def)
  then have "sint (blk_copied (blk s w)) = int (unat (blk_copied (blk s w)))" by (rule sint_small)
  then show ?thesis using assms(2) by (auto simp: io_committed_def)
qed

text \<open>What is known of a read after each turn: where the bytes are, and with which outcome.\<close>

definition read_outcome :: "addr \<Rightarrow> addr \<Rightarrow> nat \<Rightarrow> nat \<Rightarrow> io_outcome \<Rightarrow> vk_world \<Rightarrow> bool" where
  "read_outcome s buf n c out w \<longleftrightarrow> reading s buf n w \<and> unat (buf_len (so_rx (w_socket w s))) = c \<and>
     (case out of
        Io_Done rc \<Rightarrow> rc = int (unat (blk_copied (blk s w))) \<and>
          (unat (blk_copied (blk s w)) = n \<or> vk_socket_pollhup s w)
      | Io_Error e \<Rightarrow> False
      | Io_Wait \<Rightarrow> waiting_read s buf n c w
      | Io_Again \<Rightarrow> unat (blk_copied (blk s w)) = n)"

lemma read_turn:
  assumes "reading s buf n w" "vk_socket_read s w = (out, w')" "unat (buf_len (so_rx (w_socket w s))) = c"
  shows "read_stream s buf w' = read_stream s buf w \<and> read_outcome s buf n c out w'"
proof (cases "\<not> vk_socket_pollhup s w \<and> blk_len (blk s w) > 0")
  case False
  then have "io_committed s w = (out, w')" using assms(2) by (simp add: vk_socket_read_def split: if_splits)
  from committed_result [OF assms(1) this] False show ?thesis
    using assms(1,3) by (auto simp: read_outcome_def reading_def word_less_nat_alt)
next
  case True
  obtain rc w1 where c: "io_commit s (sock_recv s w) = (rc, w1)" by fastforce
  define k where "k = min (unat (blk_len (blk s w))) (length (rx_data s w))"
  have st: "reading s buf n w1" "read_stream s buf w1 = read_stream s buf w" "rc \<noteq> - 1"
    "unat (buf_len (so_rx (w_socket w1 s))) = c" "rx_data s w1 = drop k (rx_data s w)"
    "unat (blk_copied (blk s w1)) = unat (blk_copied (blk s w)) + k"
    using recv_step [OF assms(1) c] assms(3) by (auto simp: Let_def k_def)
  show ?thesis
  proof (cases "vk_socket_pollhup s w1")
    case h: True
    then have "io_committed s w1 = (out, w')" using assms(2) True c st(3) by (simp add: vk_socket_read_def)
    from committed_result [OF st(1) this] h st show ?thesis by (simp add: read_outcome_def)
  next
    case False
    then have r: "w' = w1 \<and> out = (if blk_len (blk s w1) > 0 then Io_Wait else Io_Again)"
      using assms(2) True c st(3) by (simp add: vk_socket_read_def split: if_splits)
    have "unat (blk_copied (blk s w1)) + unat (blk_len (blk s w1)) = n"
      "unat (blk_copied (blk s w)) + unat (blk_len (blk s w)) = n"
      using st(1) assms(1) by (simp_all add: reading_def)
    then have "rx_data s w1 = []" if "blk_len (blk s w1) > 0"
      using that st(5,6) by (auto simp: k_def word_less_nat_alt)
    then show ?thesis using r st by (auto simp: read_outcome_def waiting_read_def reading_def word_less_nat_alt)
  qed
qed

lemma read_turns:
  assumes "reading s buf n w" "io_turns (vk_socket_read s) (Suc (Suc k)) w = (out, w')"
    "unat (buf_len (so_rx (w_socket w s))) = c"
  shows "read_stream s buf w' = read_stream s buf w \<and> read_outcome s buf n c out w' \<and> out \<noteq> Io_Again"
proof -
  obtain o1 w1 where t1: "vk_socket_read s w = (o1, w1)" by fastforce
  note r1 = read_turn [OF assms(1) t1 assms(3)]
  show ?thesis
  proof (cases "o1 = Io_Again")
    case False
    then have "(out, w') = (o1, w1)" using assms(2) t1 by (cases o1) simp_all
    then show ?thesis using r1 False by simp
  next
    case True
    then have len: "blk_len (blk s w1) = 0" and rd: "reading s buf n w1"
      using r1 by (auto simp: read_outcome_def reading_def unat_eq_0)
    then have t2: "vk_socket_read s w1 = io_committed s w1" by (simp add: vk_socket_read_def)
    obtain o2 w2 where c: "io_committed s w1 = (o2, w2)" by fastforce
    note cr = committed_result [OF rd c]
    then have eq: "(out, w') = (o2, w2)" using assms(2) t1 True t2 c by auto
    then have "out = Io_Done (int (unat (blk_copied (blk s w1))))" "w' = w1" using cr by auto
    moreover have n: "unat (blk_copied (blk s w1)) = n" using r1 True by (simp add: read_outcome_def)
    moreover have "uint (blk_copied (blk s w1)) = int n" unfolding n [symmetric] by simp
    ultimately show ?thesis using r1 True by (simp add: read_outcome_def)
  qed
qed

text \<open>C20: A blocking read delivers exactly the bytes of the stream, in order and across any number of
  suspensions. It is suspended only when it has taken every byte that arrived and its buffer
  is not full; whatever the rest of the world then delivers into the ring, up to its capacity,
  the bytes copied so far, followed by those in the ring, are the bytes that were there
  followed by those delivered. The read never fails, and when it returns, it returns the
  number of bytes copied, which is the whole buffer unless the stream has hung up.\<close>

theorem read_delivers_stream:
  assumes "reading s buf n w" "list_all2 (feeds s buf n (unat (buf_len (so_rx (w_socket w s))))) ds es"
    "io_run (io_turns (vk_socket_read s) 2) es w = (out, w')"
  shows "\<exists>k \<le> length ds.
    copied_bytes s buf w' @ rx_data s w' = copied_bytes s buf w @ rx_data s w @ concat (take k ds) \<and>
    (case out of
       Io_Done rc \<Rightarrow> rc = int (length (copied_bytes s buf w')) \<and> (rc = int n \<or> vk_socket_pollhup s w')
     | Io_Wait \<Rightarrow> k = length ds \<and> rx_data s w' = [] \<and> length (copied_bytes s buf w') < n
     | _ \<Rightarrow> False)"
proof -
  have main: "list_all2 (feeds s buf n c) ds es \<Longrightarrow> reading s buf n w \<Longrightarrow>
      unat (buf_len (so_rx (w_socket w s))) = c \<Longrightarrow>
      io_run (io_turns (vk_socket_read s) 2) es w = (out, w') \<Longrightarrow>
      \<exists>k \<le> length ds. read_stream s buf w' = read_stream s buf w @ concat (take k ds) \<and>
        read_outcome s buf n c out w' \<and> out \<noteq> Io_Again \<and> (out = Io_Wait \<longrightarrow> k = length ds)" for w c
  proof (induction ds es arbitrary: w rule: list_all2_induct)
    case Nil
    from read_turns [OF Nil(1), of 0, folded numeral_2_eq_2, OF _ Nil(2)] Nil(3) show ?case by simp
  next
    case (Cons d ds e es)
    obtain o1 w1 where t: "io_turns (vk_socket_read s) 2 w = (o1, w1)" by fastforce
    note r1 = read_turns [OF Cons.prems(1), of 0, folded numeral_2_eq_2, OF t Cons.prems(2)]
    show ?case
    proof (cases "o1 = Io_Wait")
      case False
      then have "(out, w') = (o1, w1)" using Cons.prems(3) t by (cases o1) simp_all
      with r1 False show ?thesis by (intro exI [of _ 0]) simp
    next
      case True
      then have f: "reading s buf n (e w1)" "read_stream s buf (e w1) = read_stream s buf w1 @ d"
        "unat (buf_len (so_rx (w_socket (e w1) s))) = c"
        using Cons.hyps(1) r1 by (auto simp: feeds_def read_outcome_def)
      from Cons.IH [OF f(1,3)] Cons.prems(3) t True obtain k where
        "k \<le> length ds" "read_stream s buf w' = read_stream s buf (e w1) @ concat (take k ds)"
        "read_outcome s buf n c out w'" "out \<noteq> Io_Again" "out = Io_Wait \<longrightarrow> k = length ds"
        by auto
      with f(2) r1 show ?thesis by (intro exI [of _ "Suc k"]) auto
    qed
  qed
  have len: "length (copied_bytes s buf w') = unat (blk_copied (blk s w'))" by (simp add: copied_bytes_def)
  from main [OF assms(2,1) refl assms(3)] obtain k where "k \<le> length ds"
    "read_stream s buf w' = read_stream s buf w @ concat (take k ds)"
    "read_outcome s buf n (unat (buf_len (so_rx (w_socket w s)))) out w'" "out \<noteq> Io_Again"
    "out = Io_Wait \<longrightarrow> k = length ds"
    by blast
  then show ?thesis
    by (intro exI [of _ k])
      (auto simp: read_stream_def read_outcome_def waiting_read_def len split: io_outcome.splits)
qed

definition full_world :: vk_world where
  "full_world = upd_socket 128 (so_rx_update (\<lambda>_. wrapped_ring)) idle_world"

lemma full_world_rx: "so_rx (w_socket full_world 128) = wrapped_ring" "w_mem full_world = (\<lambda>x. ucast x)"
  by (simp_all add: full_world_def idle_world_def)

lemma start_reading:
  assumes "ring_wf (so_rx (w_socket w s))" "0 \<le> vec_error (so_rx (w_socket w s))" "unat len < 2 ^ 63"
    "no_overlap buf (unat len) (buf_start (so_rx (w_socket w s))) (unat (buf_len (so_rx (w_socket w s))))"
  shows "reading s buf (unat len) (io_start s buf len oper w)"
  using assms by (simp add: reading_def io_start_def upd_block_def vk_block_init_def)

text \<open>The ring holds three of the five bytes wanted; the other two arrive while the read is suspended.\<close>

definition two_bytes :: os_calls where
  "two_bytes = quiet_os\<lparr>os_readv := Inr [7, 8]\<rparr>"

lemma two_bytes_arrive:
  "case io_run (io_turns (vk_socket_read 128) 2) [\<lambda>w. snd (sock_readv two_bytes 128 w)]
     (io_start 128 200 5 VK_OP_READ full_world) of (out, _) \<Rightarrow> out = Io_Done 5"
  by code_simp

theorem read_delivers_stream_witness:
  "case io_run (io_turns (vk_socket_read 128) 2) [\<lambda>w. snd (sock_readv two_bytes 128 w)]
     (io_start 128 200 5 VK_OP_READ full_world) of
     (out, w') \<Rightarrow> out = Io_Done 5 \<and> copied_bytes 128 200 w' @ rx_data 128 w' = [102, 103, 100, 7, 8]"
proof -
  let ?w = "io_start 128 200 5 VK_OP_READ full_world"
  have "no_overlap 200 5 100 4" by (simp add: no_overlap_def range_addrs_def upt_rec)
  then have "reading 128 200 (unat (5 :: size_t)) ?w"
    by (intro start_reading) (simp_all add: full_world_rx wrapped_ring_wf)
  then have rd: "reading 128 200 5 ?w" by simp
  obtain out w' where h: "io_run (io_turns (vk_socket_read 128) 2) [\<lambda>w. snd (sock_readv two_bytes 128 w)] ?w = (out, w')"
    by fastforce
  have out: "out = Io_Done 5" using two_bytes_arrive by (simp only: h prod.case)
  have c: "unat (buf_len (so_rx (w_socket ?w 128))) = 4"
    by (simp add: io_start_def upd_block_def full_world_rx wrapped_ring_wf)
  have feed: "list_all2 (feeds 128 200 5 (unat (buf_len (so_rx (w_socket ?w 128))))) [[7, 8]]
      [\<lambda>w. snd (sock_readv two_bytes 128 w)]"
    unfolding c by (simp add: readv_feeds two_bytes_def)
  have start: "copied_bytes 128 200 ?w = []" "rx_data 128 ?w = [102, 103, 100]"
    using wrapped_ring_wf(7)
    by (simp_all add: copied_bytes_def rx_data_def io_start_def upd_block_def vk_block_init_def full_world_rx
        bytes_at_def)
  from read_delivers_stream [OF rd feed h] obtain k where k: "k \<le> 1"
    "copied_bytes 128 200 w' @ rx_data 128 w' = [102, 103, 100] @ concat (take k [[7, 8]])"
    "5 = int (length (copied_bytes 128 200 w'))"
    unfolding start out by auto
  have "5 \<le> length (copied_bytes 128 200 w' @ rx_data 128 w')" unfolding length_append using k(3) by linarith
  then have "k = 1" using k(1) unfolding k(2) by (cases k) simp_all
  then show ?thesis unfolding h prod.case using out k(2) by simp
qed

lemma pollhup_io_start: "vk_socket_pollhup s (io_start s buf len oper w) = vk_socket_pollhup s w"
proof -
  have same: "so_rx (w_socket (io_start s buf len oper w) x) = so_rx (w_socket w x)"
    "so_tx (w_socket (io_start s buf len oper w) x) = so_tx (w_socket w x)"
    "so_rx_fd (w_socket (io_start s buf len oper w) x) = so_rx_fd (w_socket w x)"
    "ioft_rx_ret (blk x (io_start s buf len oper w)) = ioft_rx_ret (blk x w)" for x
    by (simp_all add: io_start_def upd_block_def vk_block_init_def)
  show ?thesis
    by (simp add: vk_socket_pollhup_def vk_socket_get_reader_nodata_def vk_socket_empty_def vk_socket_nodata_def
        vk_socket_nodata_tx_def same Let_def)
qed

text \<open>A listener that has hung up is not an error to the macro: nothing is read and the descriptor
  is whatever the structure held before, that of the connection accepted last.\<close>

theorem accept_after_hup_stale:
  assumes "vk_socket_pollhup s w"
  shows "vk_socket_accept get_fd ptr s (io_start s ptr len VK_OP_READ w) =
    (Io_Done (get_fd (w_mem w) ptr), io_start s ptr len VK_OP_READ w)"
proof -
  have "vk_socket_pollhup s (io_start s ptr len VK_OP_READ w)" using assms by (simp add: pollhup_io_start)
  moreover have "w_mem (io_start s ptr len VK_OP_READ w) = w_mem w"
    "blk_copied (blk s (io_start s ptr len VK_OP_READ w)) = 0"
    by (simp_all add: io_start_def upd_block_def vk_block_init_def)
  ultimately show ?thesis
    by (simp add: vk_socket_accept_def vk_socket_read_def io_committed_def)
qed

definition hung_up_world :: vk_world where
  "hung_up_world = upd_block 128 (ioft_rx_ret_update (ioft_rx_closed_update (\<lambda>_. True))) idle_world"

lemma hung_up: "vk_socket_pollhup 128 hung_up_world" "w_mem hung_up_world = (\<lambda>x. ucast x)"
  subgoal by code_simp
  subgoal by (simp add: hung_up_world_def upd_block_def idle_world_def)
  done

lemma accept_after_hup_stale_witness:
  "fst (vk_socket_accept (\<lambda>m a. uint (m a)) 200 128 (io_start 128 200 3 VK_OP_READ hung_up_world)) = Io_Done 200"
  by (simp add: accept_after_hup_stale [OF hung_up(1)] hung_up(2))

subsection \<open>Reading a line\<close>

lemma same_len: "upd_block s (blk_len_update (\<lambda>_. blk_len (blk s w))) w = w"
proof -
  obtain f g h where w: "w_socket w = h" "h s = f" "so_block f = g" by simp
  have "blk_len_update (\<lambda>_. blk_len g) g = g" by (cases g) simp
  then have "so_block_update (blk_len_update (\<lambda>_. blk_len g)) f = f"
    using w(3) by (cases f) simp
  then have "h(s := so_block_update (blk_len_update (\<lambda>_. blk_len g)) f) = h"
    using w(2) by (simp add: fun_upd_idem_iff)
  then show ?thesis by (cases w) (use w in \<open>simp add: upd_block_def upd_socket_def\<close>)
qed

text \<open>Reading a line may return before the line is complete: when the ring holds k bytes without a
  newline, fewer than the buffer takes, and the byte of the caller's buffer at index 2 k - 1,
  which the read has not written, happens to be a newline, the loop takes it for the last
  byte read and returns the k bytes, although the stream has not hung up; with any other
  byte there it waits for the rest of the line.\<close>

theorem readline_stale_newline:
  assumes "ring_wf (so_rx (w_socket w s))" "0 \<le> vec_error (so_rx (w_socket w s))" "unat len < 2 ^ 63"
    "no_overlap buf (unat len) (buf_start (so_rx (w_socket w s))) (unat (buf_len (so_rx (w_socket w s))))"
    "first_newline (rx_data s w) = None" "0 < length (rx_data s w)" "length (rx_data s w) < unat len"
    "io_turns (vk_socket_readline cfg s) 2 (io_start s buf len VK_OP_READ w) = (out, w')"
    "pipe_ref (so_rx_fd (w_socket w s)) = VK_PIPE_OS_FD fd" "\<not> vec_eof (so_rx (w_socket w s))"
    "\<not> ioft_rx_closed (ioft_rx_ret (blk s w))"
  shows "out = (if w_mem w (buf + of_nat (2 * length (rx_data s w) - 1)) = newline
      then Io_Done (int (length (rx_data s w))) else Io_Wait) \<and>
    copied_bytes s buf w' = rx_data s w"
proof -
  let ?w0 = "io_start s buf len VK_OP_READ w"
  define k where "k = length (rx_data s w)"
  have rd: "reading s buf (unat len) ?w0" by (rule start_reading) (use assms in auto)
  have b0: "blk_len (blk s ?w0) = len" "blk_copied (blk s ?w0) = 0" "blk_buf (blk s ?w0) = buf"
    "so_rx (w_socket ?w0 s) = so_rx (w_socket w s)" "w_mem ?w0 = w_mem w" "rx_data s ?w0 = rx_data s w"
    "so_rx_fd (w_socket ?w0 s) = so_rx_fd (w_socket w s)" "ioft_rx_ret (blk s ?w0) = ioft_rx_ret (blk s w)"
    by (simp_all add: io_start_def upd_block_def vk_block_init_def rx_data_def)
  have "\<not> vk_socket_empty (w_socket ?w0 s)"
    using assms(6) vec_len_tx [OF assms(1)]
    by (auto simp: vk_socket_empty_def vk_vectoring_is_empty_def b0 rx_data_def)
  then have hup: "\<not> vk_socket_pollhup s ?w0" by (simp add: vk_socket_pollhup_def)
  have "unat (vk_vectoring_tx_line_request cfg (w_mem w) (so_rx (w_socket w s)) len) = unat len"
    using line_request_unat [OF assms(1)] assms(5) by (simp add: rx_data_def)
  then have "vk_vectoring_tx_line_request cfg (w_mem ?w0) (so_rx (w_socket ?w0 s)) (blk_len (blk s ?w0)) =
      blk_len (blk s ?w0)"
    by (simp add: b0 word_eq_unat)
  then have req: "upd_block s (blk_len_update (\<lambda>_. vk_vectoring_tx_line_request cfg (w_mem ?w0)
      (so_rx (w_socket ?w0 s)) (blk_len (blk s ?w0)))) ?w0 = ?w0"
    by (simp only:) (rule same_len)
  obtain rc w1 where c: "io_commit s (sock_recv s ?w0) = (rc, w1)" by fastforce
  have st: "rc = int k" "reading s buf (unat len) w1" "read_stream s buf w1 = read_stream s buf ?w0"
    "unat (blk_copied (blk s w1)) = k" "rx_data s w1 = []"
    "\<And>x. \<not> in_range buf k x \<Longrightarrow> w_mem w1 x = w_mem w x"
    "vec_eof (so_rx (w_socket w1 s)) = vec_eof (so_rx (w_socket w s))"
    "so_rx_fd (w_socket w1 s) = so_rx_fd (w_socket w s)" "ioft_rx_ret (blk s w1) = ioft_rx_ret (blk s w)"
    using recv_step [OF rd c] assms(7) by (simp_all add: b0 k_def Let_def)
  have k: "0 < k" "k < unat len" using assms(6,7) by (simp_all add: k_def)
  have more: "blk_len (blk s w1) > 0" using st(2,4) k by (auto simp: reading_def word_less_nat_alt)
  have cw: "blk_copied (blk s w1) = of_nat k" unfolding st(4) [symmetric] by simp
  have last: "last_committed s w1 = w_mem w (buf + of_nat (2 * k - 1))"
  proof -
    have "blk_buf (blk s w1) + (blk_copied (blk s w1) - 1) = buf + of_nat (2 * k - 1)"
      using st(2) k(1) by (simp add: reading_def cw of_nat_diff algebra_simps)
    moreover have "\<not> in_range buf k (buf + of_nat (2 * k - 1))"
    proof -
      have "unat (of_nat (2 * k - 1) :: size_t) = 2 * k - 1"
        using k assms(3) by (intro unat_of_nat_exact) simp
      then show ?thesis using k(1) unfolding in_range_def by simp
    qed
    ultimately show ?thesis using st(6) by (simp add: last_committed_def)
  qed
  have t1: "vk_socket_readline cfg s ?w0 =
      (if vk_socket_pollhup s w1 then io_committed s w1
       else if last_committed s w1 \<noteq> newline then (Io_Wait, w1) else (Io_Again, w1))"
    unfolding vk_socket_readline_def Let_def req c
    using hup more st(1) k(1) assms(7) by (simp add: b0(1,2) word_less_nat_alt)
  obtain o2 w2 where c2: "io_committed s w1 = (o2, w2)" by fastforce
  note cr = committed_result [OF st(2) c2, unfolded st(4)]
  have nh: "\<not> vk_socket_pollhup s w1"
    using assms(9-11) st(7-9)
    by (simp add: vk_socket_pollhup_def vk_socket_get_reader_nodata_def vk_socket_nodata_def
        vk_vectoring_has_nodata_def vk_pipe_get_socket_def Let_def)
  have t2: "vk_socket_readline cfg s w1 = io_committed s w1" if "last_committed s w1 = newline"
    using that st(4) k(1) by (auto simp: vk_socket_readline_def)
  have "out = (if last_committed s w1 = newline then Io_Done (int k) else Io_Wait) \<and> w' = w1"
    using assms(8) t1 nh t2 c2 cr by (auto simp: numeral_2_eq_2 split: if_splits)
  moreover have "copied_bytes s buf w1 = rx_data s w"
    using st(3,5) b0 by (simp add: read_stream_def copied_bytes_def bytes_at_def)
  ultimately show ?thesis by (simp add: last k_def)
qed

theorem readline_stale_newline_witness:
  "case io_turns (vk_socket_readline No_Simd 128) 2
      (io_start 128 200 10 VK_OP_READ (full_world\<lparr>w_mem := (\<lambda>x. ucast x)(205 := 10)\<rparr>)) of
     (out, w') \<Rightarrow> out = Io_Done 3 \<and> copied_bytes 128 200 w' = [102, 103, 100]"
proof -
  let ?w = "full_world\<lparr>w_mem := (\<lambda>x. ucast x)(205 := 10)\<rparr>"
  obtain out w' where h: "io_turns (vk_socket_readline No_Simd 128) 2 (io_start 128 200 10 VK_OP_READ ?w) = (out, w')"
    by fastforce
  have so: "w_socket full_world 128 = idle_socket\<lparr>so_rx := wrapped_ring\<rparr>" by (simp add: full_world_def idle_world_def)
  have data: "rx_data 128 ?w = [102, 103, 100]"
    unfolding rx_data_def by (simp add: full_world_rx) (simp add: wrapped_ring_def ring_data_def tx_addrs_def
        ring_addr_def upt_rec)
  have fn: "first_newline (rx_data 128 ?w) = None" unfolding data by (simp add: first_newline_def upt_rec)
  have ov: "no_overlap 200 10 100 4" by (simp add: no_overlap_def range_addrs_def upt_rec)
  have "out = (if w_mem ?w (200 + of_nat (2 * length (rx_data 128 ?w) - 1)) = newline
      then Io_Done (int (length (rx_data 128 ?w))) else Io_Wait) \<and> copied_bytes 128 200 w' = rx_data 128 ?w"
  proof (rule readline_stale_newline [OF _ _ _ _ fn _ _ h, of 3])
    show "0 < length (rx_data 128 ?w)" "length (rx_data 128 ?w) < unat (10 :: size_t)"
      unfolding data by simp_all
  qed (simp_all add: full_world_rx wrapped_ring_wf ov so idle_socket_def os_pipe_def vk_io_future_init_def)
  then show ?thesis unfolding data by (simp add: h)
qed

end
