(* ===== verification/Heap.thy ===== *)
theory Heap
  imports Stack
begin

text \<open>
  The micro-heap mapping (src/vk_heap.c, src/vk_heap_s.h): a mapping, the protection
  bits it has inside and outside, and the stack allocator over it. The operating
  system is the parameter of the calls that use it: an \<open>mmap\<close>, \<open>munmap\<close> or
  \<open>mprotect\<close> outcome is \<open>Inl errno\<close> or \<open>Inr\<close> of what the call returns. The page
  protection the OS really holds for the mapping is the separate value
  \<open>os_prot\<close>, so that the theorems can compare it with the protection the heap
  believes it has.
\<close>

type_synonym prot = "32 word"

definition PROT_NONE :: prot where "PROT_NONE = 0"
definition PROT_READ :: prot where "PROT_READ = 1"
definition PROT_WRITE :: prot where "PROT_WRITE = 2"

record mmapping =
  map_retval :: addr
  map_addr :: addr
  map_len :: size_t
  map_prot :: prot
  map_flags :: "32 word"
  map_fd :: int
  map_offset :: int

record vk_heap =
  mapping :: mmapping
  owned :: bool
  prot_inside :: prot
  prot_outside :: prot
  heap_stack :: vk_stack

subsection \<open>Operations\<close>

text \<open>The C functions return \<open>(int)hd->mapping.len\<close>: the low 32 bits, signed.\<close>

definition int_of_size :: "size_t \<Rightarrow> int" where
  "int_of_size len = sint (ucast len :: 32 word)"

definition vk_heap_map ::
  "vk_heap \<Rightarrow> addr \<Rightarrow> size_t \<Rightarrow> prot \<Rightarrow> 32 word \<Rightarrow> int \<Rightarrow> int \<Rightarrow> bool \<Rightarrow>
   (errno + addr) \<Rightarrow> (errno + int) \<times> vk_heap" where
  "vk_heap_map hp a len prot flags fd off entered mmap_ret =
     (let inside = prot OR PROT_READ OR PROT_WRITE;
          mp = \<lparr>map_retval = (case mmap_ret of Inl _ \<Rightarrow> - 1 | Inr r \<Rightarrow> r), map_addr = a,
                map_len = len, map_prot = (if entered then inside else prot),
                map_flags = flags, map_fd = fd, map_offset = off\<rparr>;
          hp' = hp\<lparr>owned := True, prot_inside := inside, prot_outside := prot, mapping := mp\<rparr>
      in case mmap_ret of
           Inl e \<Rightarrow> (Inl e, hp')
         | Inr r \<Rightarrow> (Inr (int_of_size len), hp'\<lparr>heap_stack := vk_stack_init r len\<rparr>))"

definition vk_heap_buf ::
  "vk_heap \<Rightarrow> addr \<Rightarrow> size_t \<Rightarrow> prot \<Rightarrow> 32 word \<Rightarrow> int \<Rightarrow> int \<Rightarrow> bool \<Rightarrow> int \<times> vk_heap" where
  "vk_heap_buf hp a len prot flags fd off entered =
     (let inside = prot OR PROT_READ OR PROT_WRITE
      in (int_of_size len,
          hp\<lparr>owned := False, prot_inside := inside, prot_outside := prot,
             mapping := \<lparr>map_retval = a, map_addr = a, map_len = len,
                         map_prot = (if entered then inside else prot),
                         map_flags = flags, map_fd = fd, map_offset = off\<rparr>,
             heap_stack := vk_stack_init a len\<rparr>))"

definition vk_heap_unmap :: "vk_heap \<Rightarrow> (errno + unit) \<Rightarrow> errno + unit" where
  "vk_heap_unmap hp munmap_ret = (if owned hp then munmap_ret else Inr ())"

definition vk_heap_entered :: "vk_heap \<Rightarrow> bool" where
  "vk_heap_entered hp \<longleftrightarrow> map_prot (mapping hp) = prot_inside hp"

text \<open>\<open>mprotect\<close> takes effect when it succeeds; the heap records the wanted
  protection before the call and keeps it when the call fails.\<close>

definition vk_heap_set_prot ::
  "prot \<Rightarrow> vk_heap \<Rightarrow> prot \<Rightarrow> (errno + unit) \<Rightarrow> (errno + unit) \<times> prot \<times> vk_heap" where
  "vk_heap_set_prot want hp os_prot mprotect_ret =
     (if map_prot (mapping hp) \<noteq> want
      then (let hp' = hp\<lparr>mapping := (mapping hp)\<lparr>map_prot := want\<rparr>\<rparr>
            in case mprotect_ret of
                 Inl e \<Rightarrow> (Inl e, os_prot, hp')
               | Inr _ \<Rightarrow> (Inr (), want, hp'))
      else (Inr (), os_prot, hp))"

definition vk_heap_enter ::
  "vk_heap \<Rightarrow> prot \<Rightarrow> (errno + unit) \<Rightarrow> (errno + unit) \<times> prot \<times> vk_heap" where
  "vk_heap_enter hp = vk_heap_set_prot (prot_inside hp) hp"

definition vk_heap_exit ::
  "vk_heap \<Rightarrow> prot \<Rightarrow> (errno + unit) \<Rightarrow> (errno + unit) \<times> prot \<times> vk_heap" where
  "vk_heap_exit hp = vk_heap_set_prot (prot_outside hp) hp"

definition vk_heap_addr_in_heap :: "vk_heap \<Rightarrow> addr \<Rightarrow> bool" where
  "vk_heap_addr_in_heap hp a \<longleftrightarrow>
     a \<ge> map_retval (mapping hp) \<and> a < map_retval (mapping hp) + map_len (mapping hp)"

subsection \<open>Protection follows the gates\<close>

definition heap_synced :: "vk_heap \<Rightarrow> prot \<Rightarrow> bool" where
  "heap_synced hp os_prot \<longleftrightarrow> os_prot = map_prot (mapping hp)"

lemma set_prot_cases:
  "vk_heap_set_prot want hp p r =
     (if map_prot (mapping hp) = want then (Inr (), p, hp)
      else (r, (case r of Inl _ \<Rightarrow> p | Inr _ \<Rightarrow> want),
            hp\<lparr>mapping := (mapping hp)\<lparr>map_prot := want\<rparr>\<rparr>))"
  by (auto simp: vk_heap_set_prot_def Let_def split: sum.split)

lemma prot_inside_rw:
  "(prot OR PROT_READ OR PROT_WRITE) AND PROT_READ = PROT_READ"
  "(prot OR PROT_READ OR PROT_WRITE) AND PROT_WRITE = PROT_WRITE"
  by (rule bit_word_eqI; auto simp: PROT_READ_def PROT_WRITE_def bit_simps)+

lemma heap_buf_fields [simp]:
  "mapping (snd (vk_heap_buf hp a len prot flags fd off entered)) =
     \<lparr>map_retval = a, map_addr = a, map_len = len,
      map_prot = (if entered then prot OR PROT_READ OR PROT_WRITE else prot),
      map_flags = flags, map_fd = fd, map_offset = off\<rparr>"
  "heap_stack (snd (vk_heap_buf hp a len prot flags fd off entered)) = vk_stack_init a len"
  "owned (snd (vk_heap_buf hp a len prot flags fd off entered)) = False"
  by (simp_all add: vk_heap_buf_def Let_def)

text \<open>From a heap whose recorded protection is the real one, entering and then
  exiting (both \<open>mprotect\<close> calls succeeding, when made) first opens the pages with the
  inside protection and then closes them with the outside one; nothing else of the heap
  changes, and each gate is idempotent.\<close>

theorem heap_gate_roundtrip:
  assumes "heap_synced hp p"
    and enter: "vk_heap_enter hp p (Inr ()) = (rc1, p1, hp1)"
    and exit: "vk_heap_exit hp1 p1 (Inr ()) = (rc2, p2, hp2)"
  shows "rc1 = Inr () \<and> p1 = prot_inside hp \<and> vk_heap_entered hp1 \<and> heap_synced hp1 p1 \<and>
    rc2 = Inr () \<and> p2 = prot_outside hp \<and> heap_synced hp2 p2 \<and>
    vk_heap_enter hp1 p1 r = (Inr (), p1, hp1) \<and>
    vk_heap_exit hp2 p2 r = (Inr (), p2, hp2) \<and>
    heap_stack hp2 = heap_stack hp \<and> map_retval (mapping hp2) = map_retval (mapping hp)"
proof -
  have h1: "hp1 = hp\<lparr>mapping := (mapping hp)\<lparr>map_prot := prot_inside hp\<rparr>\<rparr>"
    and p1: "p1 = prot_inside hp" and rc1: "rc1 = Inr ()"
    using enter assms(1) by (auto simp: vk_heap_enter_def set_prot_cases heap_synced_def split: if_splits)
  have h2: "hp2 = hp1\<lparr>mapping := (mapping hp1)\<lparr>map_prot := prot_outside hp\<rparr>\<rparr>"
    and p2: "p2 = prot_outside hp" and rc2: "rc2 = Inr ()"
    using exit by (auto simp: vk_heap_exit_def set_prot_cases h1 p1 split: if_splits)
  show ?thesis
    by (simp add: h1 h2 p1 p2 rc1 rc2 vk_heap_enter_def vk_heap_exit_def set_prot_cases
        heap_synced_def vk_heap_entered_def)
qed

text \<open>A failed \<open>mprotect\<close> in \<open>vk_heap_enter\<close> leaves the heap believing it is
  open: the next \<open>vk_heap_enter\<close> reports success without calling \<open>mprotect\<close>, while
  the pages still have the old protection.\<close>

theorem heap_enter_failure_sticks:
  assumes "map_prot (mapping hp) \<noteq> prot_inside hp" "heap_synced hp p"
    and "vk_heap_enter hp p (Inl e) = (rc1, p1, hp1)"
  shows "rc1 = Inl e \<and> vk_heap_entered hp1 \<and> \<not> heap_synced hp1 p1 \<and>
    vk_heap_enter hp1 p1 r = (Inr (), p, hp1)"
  using assms
  by (auto simp: vk_heap_enter_def set_prot_cases heap_synced_def vk_heap_entered_def)

definition closed_heap :: vk_heap where
  "closed_heap =
     \<lparr>mapping = \<lparr>map_retval = 4096, map_addr = 0, map_len = 8192, map_prot = PROT_NONE,
                 map_flags = 34, map_fd = - 1, map_offset = 0\<rparr>,
      owned = True, prot_inside = PROT_READ OR PROT_WRITE, prot_outside = PROT_NONE,
      heap_stack = vk_stack_init 4096 8192\<rparr>"

theorem heap_gate_roundtrip_witness:
  "fst (snd (vk_heap_enter closed_heap PROT_NONE (Inr ()))) = 3 \<and>
   fst (snd (vk_heap_exit (snd (snd (vk_heap_enter closed_heap PROT_NONE (Inr ()))))
       3 (Inr ()))) = PROT_NONE"
proof -
  obtain rc1 p1 hp1 where e: "vk_heap_enter closed_heap PROT_NONE (Inr ()) = (rc1, p1, hp1)"
    by (metis prod_cases3)
  obtain rc2 p2 hp2 where x: "vk_heap_exit hp1 p1 (Inr ()) = (rc2, p2, hp2)"
    by (metis prod_cases3)
  have "heap_synced closed_heap PROT_NONE" by (simp add: heap_synced_def closed_heap_def)
  from heap_gate_roundtrip [OF this e x] e x show ?thesis
    by (simp add: closed_heap_def PROT_READ_def PROT_WRITE_def)
qed

theorem heap_enter_failure_sticks_witness:
  "fst (vk_heap_enter (snd (snd (vk_heap_enter closed_heap PROT_NONE (Inl ENOMEM))))
      PROT_NONE (Inl ENOMEM)) = Inr ()"
proof -
  obtain rc1 p1 hp1 where e: "vk_heap_enter closed_heap PROT_NONE (Inl ENOMEM) = (rc1, p1, hp1)"
    by (metis prod_cases3)
  have "heap_synced closed_heap PROT_NONE"
    and ne: "map_prot (mapping closed_heap) \<noteq> prot_inside closed_heap"
    by (simp_all add: heap_synced_def closed_heap_def PROT_NONE_def PROT_READ_def PROT_WRITE_def)
  moreover have "p1 = PROT_NONE"
    using e by (auto simp: vk_heap_enter_def set_prot_cases split: if_splits)
  ultimately show ?thesis
    using heap_enter_failure_sticks [OF ne _ e, of "Inl ENOMEM"] e by simp
qed

subsection \<open>The returned length is an error code only on failure\<close>

text \<open>The truncation \<open>(int)len\<close> of a page-aligned length is never \<open>-1\<close>, so the
  callers' test \<open>rc == -1\<close> sees failures only.\<close>

lemma int_of_size_aligned:
  assumes "4096 dvd unat len"
  shows "int_of_size len \<noteq> - 1"
proof
  assume "int_of_size len = - 1"
  then have "of_int (sint (ucast len :: 32 word)) = (- 1 :: 32 word)"
    by (simp add: int_of_size_def)
  then have "(ucast len :: 32 word) = - 1" by simp
  then have "bit (ucast len :: 32 word) 0" by simp
  then have "bit len 0" unfolding bit_unsigned_iff by blast
  then have "bit (unat len) 0" by (simp add: bit_unsigned_iff)
  then have "odd (unat len)" by (simp add: bit_0)
  moreover from assms have "even (unat len)" by (meson dvd_trans dvd_numeral_simp even_numeral)
  ultimately show False by simp
qed

lemma int_of_size_small:
  assumes "unat len < 2 ^ 31"
  shows "int_of_size len = int (unat len)"
proof -
  have u: "uint len = int (unat len)" by simp
  have "int (unat len) < int (2 ^ 31)" using assms by (simp only: of_nat_less_iff)
  then have "uint len < 2 ^ 31" unfolding u [symmetric] by simp
  moreover have "- (2 ^ 31) \<le> uint len" by (rule order_trans [of _ 0]) simp_all
  ultimately have "signed_take_bit 31 (uint len) = uint len" "take_bit 32 (uint len) = uint len"
    by (simp_all only: signed_take_bit_int_eq_self, simp add: take_bit_int_eq_self)
  with u show ?thesis by (simp add: int_of_size_def sint_uint unsigned_ucast_eq)
qed

end
