(* ===== verification/Pool.thy ===== *)
theory Pool
  imports Heap Slist
begin

text \<open>
  The object pool (src/vk_pool.c, src/vk_pool_s.h): an array of entries, each with a
  heap of its own, and a free list threaded through the entries by pointers. An entry
  pointer is the entry's index in the array; \<open>NULL\<close> is \<open>None\<close>. The free list is kept
  at the pointer level (head and links), because \<open>vk_pool_free_entry\<close> inserts
  without checking membership. The callbacks act on a caller state \<open>'u\<close> and return
  \<open>Inl errno\<close> for \<open>-1\<close>; \<open>esz\<close> is \<open>sizeof(struct vk_pool_entry)\<close>.
\<close>

record vk_pool_entry =
  entry_id :: size_t
  entry_heap :: vk_heap

record vk_pool =
  pool_heap :: vk_heap
  free_head :: "nat option"
  free_link :: "nat link"
  pool_entries :: "nat \<Rightarrow> vk_pool_entry"
  object_size :: size_t
  object_count :: size_t
  pool_buf :: "addr option"
  pool_buf_len :: size_t

type_synonym 'u entry_func = "nat \<Rightarrow> 'u \<Rightarrow> (errno + unit) \<times> 'u"

definition call_func :: "'u entry_func option \<Rightarrow> 'u entry_func" where
  "call_func f e u = (case f of None \<Rightarrow> (Inr (), u) | Some g \<Rightarrow> g e u)"

subsection \<open>Operations\<close>

definition vk_pool_get_entry :: "vk_pool \<Rightarrow> size_t \<Rightarrow> nat option" where
  "vk_pool_get_entry p i = (if i \<ge> object_count p then None else Some (unat i))"

definition vk_pool_next_entry :: "vk_pool \<Rightarrow> nat option \<Rightarrow> nat option" where
  "vk_pool_next_entry p e =
     vk_pool_get_entry p (case e of None \<Rightarrow> 0 | Some k \<Rightarrow> entry_id (pool_entries p k) + 1)"

definition vk_pool_alloc_entry :: "vk_pool \<Rightarrow> errno + (nat \<times> vk_pool)" where
  "vk_pool_alloc_entry p =
     (case free_head p of
        None \<Rightarrow> Inl ENOMEM
      | Some e \<Rightarrow> Inr (e, p\<lparr>free_head := free_link p e\<rparr>))"

definition vk_pool_free_entry ::
  "'u entry_func option \<Rightarrow> vk_pool \<Rightarrow> 'u \<Rightarrow> nat option \<Rightarrow> (errno + unit) \<times> vk_pool \<times> 'u" where
  "vk_pool_free_entry free_func p u entry =
     (case entry of
        None \<Rightarrow> (Inl ENOENT, p, u)
      | Some e \<Rightarrow>
          (let (head', link') = slist_insert_head (free_head p) (free_link p) e;
               p' = p\<lparr>free_head := head', free_link := link'\<rparr>;
               (rc, u') = call_func free_func e u
           in (rc, p', u')))"

definition vk_pool_needed_buffer_size ::
  "size_t \<Rightarrow> size_t \<Rightarrow> size_t \<Rightarrow> size_t \<Rightarrow> errno + (size_t \<times> size_t)" where
  "vk_pool_needed_buffer_size pg esz obj_size obj_count =
     (case vk_safe_alignedlen pg obj_count esz of
        Inl e \<Rightarrow> Inl e
      | Inr entry_buffer_size \<Rightarrow>
          (case vk_safe_alignedlen pg 1 obj_size of
             Inl e \<Rightarrow> Inl e
           | Inr alignedlen \<Rightarrow>
               (case vk_safe_mult alignedlen obj_count of
                  Inl e \<Rightarrow> Inl e
                | Inr object_buffer_size \<Rightarrow> Inr (entry_buffer_size, object_buffer_size))))"

text \<open>\<open>MAP_ANON | MAP_PRIVATE\<close>.\<close>

definition pool_map_flags :: "32 word" where
  "pool_map_flags = 0x20 OR 0x02"

text \<open>One round of the initialisation loop for entry \<open>i\<close>. \<open>mm\<close> is the
  \<open>mmap\<close> outcome per mapping: \<open>None\<close> the entry table, \<open>Some i\<close> object \<open>i\<close>. A
  \<open>vk_heap_buf\<close> whose length truncates to \<open>-1\<close> fails without setting \<open>errno\<close>
  (0 here).\<close>

definition vk_pool_init_entry ::
  "size_t \<Rightarrow> size_t \<Rightarrow> (nat option \<Rightarrow> errno + addr) \<Rightarrow> bool \<Rightarrow>
   'u entry_func option \<Rightarrow> 'u entry_func option \<Rightarrow> nat \<Rightarrow> vk_pool \<Rightarrow> 'u \<Rightarrow>
   (errno + unit) \<times> vk_pool \<times> 'u" where
  "vk_pool_init_entry entry_buffer_size alignedlen mm entered init_func free_func i p u =
     (let ent = (pool_entries p i)\<lparr>entry_id := of_nat i\<rparr>;
          (rc, hp) =
            (case pool_buf p of
               Some buf \<Rightarrow>
                 (let (len, hp) = vk_heap_buf (entry_heap ent)
                        (buf + entry_buffer_size + alignedlen * of_nat i) alignedlen
                        PROT_NONE pool_map_flags (- 1) 0 entered
                  in (if len = - 1 then Inl 0 else Inr len, hp))
             | None \<Rightarrow> vk_heap_map (entry_heap ent) 0 alignedlen PROT_NONE pool_map_flags (- 1) 0
                        entered (mm (Some i)));
          p1 = p\<lparr>pool_entries := (pool_entries p)(i := ent\<lparr>entry_heap := hp\<rparr>)\<rparr>
      in case rc of
           Inl e \<Rightarrow> (Inl e, p1, u)
         | Inr _ \<Rightarrow>
             (case vk_pool_free_entry free_func p1 u (vk_pool_get_entry p1 (of_nat i)) of
                (Inl e, p2, u2) \<Rightarrow> (Inl e, p2, u2)
              | (Inr _, p2, u2) \<Rightarrow>
                  (let (rc3, u3) = call_func init_func i u2 in (rc3, p2, u3))))"

fun vk_pool_init_loop ::
  "size_t \<Rightarrow> size_t \<Rightarrow> (nat option \<Rightarrow> errno + addr) \<Rightarrow> bool \<Rightarrow>
   'u entry_func option \<Rightarrow> 'u entry_func option \<Rightarrow> nat \<Rightarrow> vk_pool \<Rightarrow> 'u \<Rightarrow>
   (errno + unit) \<times> vk_pool \<times> 'u" where
  "vk_pool_init_loop ebs al mm entered init_func free_func 0 p u = (Inr (), p, u)"
| "vk_pool_init_loop ebs al mm entered init_func free_func (Suc i) p u =
     (case vk_pool_init_entry ebs al mm entered init_func free_func i p u of
        (Inl e, p1, u1) \<Rightarrow> (Inl e, p1, u1)
      | (Inr _, p1, u1) \<Rightarrow> vk_pool_init_loop ebs al mm entered init_func free_func i p1 u1)"

definition vk_pool_init ::
  "size_t \<Rightarrow> size_t \<Rightarrow> vk_pool \<Rightarrow> size_t \<Rightarrow> size_t \<Rightarrow> addr option \<Rightarrow> size_t \<Rightarrow>
   (nat option \<Rightarrow> errno + addr) \<Rightarrow> bool \<Rightarrow>
   'u entry_func option \<Rightarrow> 'u entry_func option \<Rightarrow> 'u \<Rightarrow> (errno + unit) \<times> vk_pool \<times> 'u" where
  "vk_pool_init pg esz p obj_size obj_count buf buf_len mm entered init_func free_func u =
     (case vk_safe_alignedlen pg 1 obj_size of
        Inl e \<Rightarrow> (Inl e, p, u)
      | Inr alignedlen \<Rightarrow>
          (case vk_pool_needed_buffer_size pg esz obj_size obj_count of
             Inl e \<Rightarrow> (Inl e, p, u)
           | Inr (ebs, obs) \<Rightarrow>
               if buf \<noteq> None \<and> buf_len \<noteq> ebs + obs then (Inl ERANGE, p, u)
               else
                 (let p0 = p\<lparr>object_size := obj_size, object_count := obj_count, pool_buf := buf,
                             pool_buf_len := buf_len, free_head := None\<rparr>;
                      (rc, hp) =
                        (case buf of
                           Some b \<Rightarrow>
                             (let (len, hp) = vk_heap_buf (pool_heap p0) b ebs 0 pool_map_flags
                                    (- 1) 0 True
                              in (if len = - 1 then Inl 0 else Inr len, hp))
                         | None \<Rightarrow> vk_heap_map (pool_heap p0) 0 ebs 0 pool_map_flags (- 1) 0 True
                                    (mm None));
                      p1 = p0\<lparr>pool_heap := hp\<rparr>
                  in case rc of
                       Inl e \<Rightarrow> (Inl e, p1, u)
                     | Inr _ \<Rightarrow> vk_pool_init_loop ebs alignedlen mm entered init_func free_func
                                 (nat (int_of_size obj_count)) p1 u)))"

fun vk_pool_deinit_loop ::
  "(nat \<Rightarrow> errno + unit) \<Rightarrow> 'u entry_func option \<Rightarrow> vk_pool \<Rightarrow> nat list \<Rightarrow> 'u \<Rightarrow>
   (errno + unit) \<times> 'u" where
  "vk_pool_deinit_loop munmap deinit_func p [] u = (Inr (), u)"
| "vk_pool_deinit_loop munmap deinit_func p (i # is) u =
     (let (_, u') = call_func deinit_func i u
      in case vk_heap_unmap (entry_heap (pool_entries p i)) (munmap i) of
           Inl e \<Rightarrow> (Inl e, u')
         | Inr _ \<Rightarrow> vk_pool_deinit_loop munmap deinit_func p is u')"

definition vk_pool_deinit ::
  "(nat \<Rightarrow> errno + unit) \<Rightarrow> (errno + unit) \<Rightarrow> 'u entry_func option \<Rightarrow> vk_pool \<Rightarrow> 'u \<Rightarrow>
   (errno + unit) \<times> 'u" where
  "vk_pool_deinit munmap munmap_table deinit_func p u =
     (case vk_pool_deinit_loop munmap deinit_func p [0..<unat (object_count p)] u of
        (Inl e, u') \<Rightarrow> (Inl e, u')
      | (Inr _, u') \<Rightarrow> (vk_heap_unmap (pool_heap p) munmap_table, u'))"

subsection \<open>The free list\<close>

definition pool_free :: "vk_pool \<Rightarrow> nat list \<Rightarrow> bool" where
  "pool_free p fs \<longleftrightarrow>
     slist (free_link p) (free_head p) fs \<and> set fs \<subseteq> {..<unat (object_count p)}"

lemma pool_free_distinct: "pool_free p fs \<Longrightarrow> distinct fs"
  by (auto simp: pool_free_def dest: slist_distinct)

lemma pool_alloc_empty: "pool_free p [] \<Longrightarrow> vk_pool_alloc_entry p = Inl ENOMEM"
  by (simp add: pool_free_def vk_pool_alloc_entry_def)

lemma pool_alloc_cons:
  "pool_free p (e # fs) \<Longrightarrow>
    \<exists>p'. vk_pool_alloc_entry p = Inr (e, p') \<and> pool_free p' fs \<and>
      pool_entries p' = pool_entries p \<and> object_count p' = object_count p"
  by (auto simp: pool_free_def vk_pool_alloc_entry_def)

lemma pool_free_push:
  assumes "pool_free p fs" "e \<notin> set fs" "e < unat (object_count p)"
    and "vk_pool_free_entry f p u (Some e) = (rc, p', u')"
  shows "pool_free p' (e # fs) \<and> pool_entries p' = pool_entries p \<and>
    object_count p' = object_count p \<and> pool_buf p' = pool_buf p \<and> (rc, u') = call_func f e u"
  using assms
  by (auto simp: pool_free_def vk_pool_free_entry_def slist_insert_head_def split: prod.splits)

text \<open>Freeing an entry and allocating again hands out that entry and restores the
  free list; on an empty pool allocation fails with \<open>ENOMEM\<close>.\<close>

theorem pool_free_then_alloc:
  assumes "pool_free p fs" "e \<notin> set fs" "e < unat (object_count p)"
    and "vk_pool_free_entry f p u (Some e) = (rc, p1, u1)"
  shows "\<exists>p2. vk_pool_alloc_entry p1 = Inr (e, p2) \<and> pool_free p2 fs \<and>
    pool_entries p2 = pool_entries p \<and>
    (fs = [] \<longrightarrow> vk_pool_alloc_entry p2 = Inl ENOMEM)"
proof -
  have "pool_free p1 (e # fs)" "pool_entries p1 = pool_entries p"
    using pool_free_push [OF assms] by simp_all
  then show ?thesis using pool_alloc_cons pool_alloc_empty by fastforce
qed

text \<open>Freeing the same entry twice in a row ties the free list into a loop on it:
  every later allocation hands out that one entry again and again.\<close>

theorem pool_double_free_cycle:
  assumes "vk_pool_free_entry f p u (Some e) = (rc1, p1, u1)"
    and "vk_pool_free_entry f p1 u1 (Some e) = (rc2, p2, u2)"
  shows "vk_pool_alloc_entry p2 = Inr (e, p2) \<and> \<not> pool_free p2 fs"
proof -
  have h: "free_head p2 = Some e" "free_link p2 e = Some e"
    using assms by (auto simp: vk_pool_free_entry_def slist_insert_head_def split: prod.splits)
  have "\<not> slist (free_link p2) (Some e) fs"
  proof
    assume sl: "slist (free_link p2) (Some e) fs"
    then obtain gs where fs: "fs = e # gs" by (cases fs) auto
    with sl h have "slist (free_link p2) (Some e) gs" by simp
    with sl fs show False using slist_fun by (metis not_Cons_self2)
  qed
  with h show ?thesis by (simp add: vk_pool_alloc_entry_def pool_free_def)
qed

subsection \<open>Initialisation\<close>

text \<open>What initialisation establishes for the entries from \<open>i\<close> on.\<close>

definition entry_ready :: "size_t \<Rightarrow> size_t \<Rightarrow> addr \<Rightarrow> vk_pool \<Rightarrow> nat \<Rightarrow> bool" where
  "entry_ready ebs al buf p k \<longleftrightarrow>
     entry_id (pool_entries p k) = of_nat k \<and>
     map_len (mapping (entry_heap (pool_entries p k))) = al \<and>
     heap_stack (entry_heap (pool_entries p k)) = vk_stack_init (buf + ebs + al * of_nat k) al"

lemma pool_init_entry_step:
  assumes buf: "pool_buf p = Some buf" and len: "int_of_size al \<noteq> - 1"
    and cbs: "\<And>e u. fst (call_func free_func e u) = Inr ()" "\<And>e u. fst (call_func init_func e u) = Inr ()"
    and i: "i < unat (object_count p)"
    and fr: "pool_free p fs" "i \<notin> set fs"
  shows "\<exists>p' u'. vk_pool_init_entry ebs al mm entered init_func free_func i p u = (Inr (), p', u') \<and>
    pool_free p' (i # fs) \<and> entry_ready ebs al buf p' i \<and> pool_buf p' = Some buf \<and>
    object_count p' = object_count p \<and>
    (\<forall>k. k \<noteq> i \<longrightarrow> pool_entries p' k = pool_entries p k)"
proof -
  define ent where "ent = (pool_entries p i)\<lparr>entry_id := of_nat i\<rparr>"
  define hp where "hp = snd (vk_heap_buf (entry_heap ent) (buf + ebs + al * of_nat i) al
    PROT_NONE pool_map_flags (- 1) 0 entered)"
  define p1 where "p1 = p\<lparr>pool_entries := (pool_entries p)(i := ent\<lparr>entry_heap := hp\<rparr>)\<rparr>"
  have un: "unat (of_nat i :: size_t) = i"
    using i unat_lt64 [of "object_count p"] by (intro unat_of_nat_exact) linarith
  then have get: "vk_pool_get_entry p1 (of_nat i) = Some i"
    using i by (simp add: vk_pool_get_entry_def p1_def word_le_nat_alt)
  have fr1: "pool_free p1 fs" using fr by (simp add: pool_free_def p1_def)
  obtain rc p2 u2 where step: "vk_pool_free_entry free_func p1 u (Some i) = (rc, p2, u2)"
    by (metis prod_cases3)
  have i1: "i < unat (object_count p1)" using i by (simp add: p1_def)
  note push = pool_free_push [OF fr1 fr(2) i1 step]
  then have rc: "rc = Inr ()" using cbs(1) [of i u] by (metis fst_conv)
  obtain u3 where init: "call_func init_func i u2 = (Inr (), u3)"
    using cbs(2) [of i u2] by (metis prod.collapse)
  have "vk_pool_init_entry ebs al mm entered init_func free_func i p u = (Inr (), p2, u3)"
    using len buf get step rc init
    by (simp add: vk_pool_init_entry_def Let_def vk_heap_buf_def p1_def hp_def ent_def)
  moreover have "entry_ready ebs al buf p2 i"
    using push by (simp add: entry_ready_def p1_def hp_def ent_def)
  ultimately show ?thesis
    using push buf by (auto simp: p1_def)
qed

lemma pool_init_loop_inv:
  assumes buf: "pool_buf p = Some buf" and len: "int_of_size al \<noteq> - 1"
    and cbs: "\<And>e u. fst (call_func free_func e u) = Inr ()" "\<And>e u. fst (call_func init_func e u) = Inr ()"
    and n: "i \<le> n" "n \<le> unat (object_count p)"
    and fr: "pool_free p [i..<n]"
    and ready: "\<forall>k. i \<le> k \<and> k < n \<longrightarrow> entry_ready ebs al buf p k"
  shows "\<exists>p' u'. vk_pool_init_loop ebs al mm entered init_func free_func i p u = (Inr (), p', u') \<and>
    pool_free p' [0..<n] \<and> (\<forall>k < n. entry_ready ebs al buf p' k) \<and>
    object_count p' = object_count p"
  using assms
proof (induction i arbitrary: p u)
  case 0
  then show ?case by simp
next
  case (Suc i)
  have i: "i < unat (object_count p)" using Suc.prems(5,6) by simp
  have notin: "i \<notin> set [Suc i..<n]" by simp
  obtain p1 u1 where step: "vk_pool_init_entry ebs al mm entered init_func free_func i p u = (Inr (), p1, u1)"
    and p1: "pool_free p1 (i # [Suc i..<n])" "entry_ready ebs al buf p1 i" "pool_buf p1 = Some buf"
      "object_count p1 = object_count p" "\<forall>k. k \<noteq> i \<longrightarrow> pool_entries p1 k = pool_entries p k"
    using pool_init_entry_step [OF Suc.prems(1-4) i Suc.prems(7) notin, where u = u and ebs = ebs
        and mm = mm and entered = entered] by blast
  have "\<forall>k. i \<le> k \<and> k < n \<longrightarrow> entry_ready ebs al buf p1 k"
  proof (intro allI impI)
    fix k
    assume k: "i \<le> k \<and> k < n"
    show "entry_ready ebs al buf p1 k"
    proof (cases "k = i")
      case False
      then have "entry_ready ebs al buf p k" using k Suc.prems(8) by simp
      with False p1(5) show ?thesis by (simp add: entry_ready_def)
    qed (simp add: p1(2))
  qed
  moreover have "pool_free p1 [i..<n]" using p1(1) Suc.prems(5) by (simp add: upt_conv_Cons)
  ultimately have "\<exists>p' u'. vk_pool_init_loop ebs al mm entered init_func free_func i p1 u1 = (Inr (), p', u') \<and>
      pool_free p' [0..<n] \<and> (\<forall>k < n. entry_ready ebs al buf p' k) \<and> object_count p' = object_count p1"
    using Suc.prems(2-6) p1(3,4) by (intro Suc.IH) auto
  with step p1(4) show ?case by simp
qed

text \<open>Initialising a pool over a buffer of the needed size succeeds when the callbacks
  do. Every entry is then free, in ascending order, so that the first allocations are
  entries 0, 1, 2 and so on; entry \<open>k\<close> carries its index, and its heap is an empty stack
  over the \<open>k\<close>-th slice of the buffer behind the entry table. The slices follow each
  other without overlap and end within the buffer.\<close>

theorem pool_init_ready:
  assumes pg: "pg \<noteq> 0" "4096 dvd unat pg"
    and needed: "vk_pool_needed_buffer_size pg esz osz cnt = Inr (ebs, obs)"
    and room: "unat buf + unat ebs + unat obs < 2 ^ 64" and small: "unat cnt < 2 ^ 31"
    and cbs: "\<And>e u. fst (call_func free_func e u) = Inr ()"
      "\<And>e u. fst (call_func init_func e u) = Inr ()"
  shows "\<exists>p' u' al.
    vk_pool_init pg esz p osz cnt (Some buf) (ebs + obs) mm entered init_func free_func u
      = (Inr (), p', u') \<and>
    vk_safe_alignedlen pg 1 osz = Inr al \<and>
    pool_free p' [0..<unat cnt] \<and> object_count p' = cnt \<and>
    (\<forall>k < unat cnt. entry_ready ebs al buf p' k \<and>
       unat (addr_start (heap_stack (entry_heap (pool_entries p' k)))) =
         unat buf + unat ebs + unat al * k \<and>
       unat buf + unat ebs + unat al * (k + 1) \<le> unat buf + unat (ebs + obs))"
proof -
  obtain al where al: "vk_safe_alignedlen pg 1 osz = Inr al"
    and ebs: "vk_safe_alignedlen pg cnt esz = Inr ebs" and obs: "vk_safe_mult al cnt = Inr obs"
    using needed by (auto simp: vk_pool_needed_buffer_size_def split: sum.splits)
  have obs_val: "unat al * unat cnt < 2 ^ 64" "obs = al * cnt"
    using obs by (auto simp: safe_mult_eq not_le split: if_splits)
  have aligned: "4096 dvd unat al" "4096 dvd unat ebs"
    using pg alignedlen_Inr [OF pg(1) al] alignedlen_Inr [OF pg(1) ebs]
    by (auto intro: dvd_trans round_up_dvd)
  define p1 where "p1 = p\<lparr>object_size := osz, object_count := cnt, pool_buf := Some buf,
    pool_buf_len := ebs + obs, free_head := None,
    pool_heap := snd (vk_heap_buf (pool_heap p) buf ebs 0 pool_map_flags (- 1) 0 True)\<rparr>"
  have n: "nat (int_of_size cnt) = unat cnt"
    using small by (simp add: int_of_size_small)
  have "vk_pool_init pg esz p osz cnt (Some buf) (ebs + obs) mm entered init_func free_func u
      = vk_pool_init_loop ebs al mm entered init_func free_func (unat cnt) p1 u"
    using int_of_size_aligned [OF aligned(2)] n al needed
    by (simp add: vk_pool_init_def p1_def Let_def vk_heap_buf_def)
  moreover have "\<exists>p' u'. vk_pool_init_loop ebs al mm entered init_func free_func (unat cnt) p1 u
        = (Inr (), p', u') \<and> pool_free p' [0..<unat cnt] \<and>
        (\<forall>k < unat cnt. entry_ready ebs al buf p' k) \<and> object_count p' = object_count p1"
    by (rule pool_init_loop_inv) (auto simp: p1_def cbs int_of_size_aligned [OF aligned(1)] pool_free_def)
  moreover have "unat (buf + ebs + al * of_nat k) = unat buf + unat ebs + unat al * k \<and>
      unat buf + unat ebs + unat al * (k + 1) \<le> unat buf + unat (ebs + obs)"
    if k: "k < unat cnt" for k
  proof -
    have "unat al * (k + 1) \<le> unat al * unat cnt" using k by (intro mult_le_mono2) simp
    moreover have "unat obs = unat al * unat cnt"
      using obs_val by (simp add: unat_mult_exact)
    moreover have "unat (of_nat k :: size_t) = k"
      using k unat_lt64 [of cnt] by (intro unat_of_nat_exact) linarith
    moreover have "unat al * k \<le> unat al * (k + 1)" by simp
    ultimately show ?thesis
      using room obs_val(1) by (simp only: unat_add_exact unat_mult_exact) linarith
  qed
  moreover have "object_count p1 = cnt" by (simp add: p1_def)
  ultimately show ?thesis using al by (auto simp: entry_ready_def vk_stack_init_def)
qed

subsection \<open>Concrete pools\<close>

definition blank_pool :: vk_pool where
  "blank_pool =
     \<lparr>pool_heap = closed_heap, free_head = None, free_link = (\<lambda>_. None),
      pool_entries = (\<lambda>_. \<lparr>entry_id = 0, entry_heap = closed_heap\<rparr>),
      object_size = 100, object_count = 3, pool_buf = None, pool_buf_len = 0\<rparr>"

theorem pool_free_then_alloc_witness:
  "\<exists>p1 p2. vk_pool_free_entry None blank_pool () (Some 2) = (Inr (), p1, ()) \<and>
    vk_pool_alloc_entry p1 = Inr (2, p2) \<and> vk_pool_alloc_entry p2 = Inl ENOMEM"
proof -
  obtain rc p1 u where f: "vk_pool_free_entry None blank_pool () (Some 2) = (rc, p1, u)"
    by (metis prod_cases3)
  then have rc: "rc = Inr ()"
    by (auto simp: vk_pool_free_entry_def call_func_def slist_insert_head_def)
  have "pool_free blank_pool []" "(2::nat) \<notin> set []" "2 < unat (object_count blank_pool)"
    by (simp_all add: pool_free_def blank_pool_def)
  from pool_free_then_alloc [OF this f] f rc show ?thesis by auto
qed

theorem pool_double_free_cycle_witness:
  "\<exists>p1 p2. vk_pool_free_entry None blank_pool () (Some 2) = (Inr (), p1, ()) \<and>
    vk_pool_free_entry None p1 () (Some 2) = (Inr (), p2, ()) \<and>
    vk_pool_alloc_entry p2 = Inr (2, p2)"
proof -
  have ok: "\<exists>p'. vk_pool_free_entry None p () (Some 2) = (Inr (), p', ())" for p
    by (simp add: vk_pool_free_entry_def call_func_def slist_insert_head_def)
  obtain p1 where f1: "vk_pool_free_entry None blank_pool () (Some 2) = (Inr (), p1, ())"
    using ok by blast
  obtain p2 where f2: "vk_pool_free_entry None p1 () (Some 2) = (Inr (), p2, ())"
    using ok by blast
  from pool_double_free_cycle [OF f1 f2] f1 f2 show ?thesis by blast
qed

lemma needed_example: "vk_pool_needed_buffer_size 4096 160 100 3 = Inr (4096, 12288)"
  by (simp add: vk_pool_needed_buffer_size_def alignedlen_correct safe_mult_eq round_up_def
      pages_for_def Let_def)

theorem pool_init_ready_witness:
  "\<exists>p' u'. vk_pool_init 4096 160 blank_pool 100 3 (Some 65536) (4096 + 12288) (\<lambda>_. Inl ENOMEM)
      False None None () = (Inr (), p', u') \<and>
    pool_free p' [0, 1, 2] \<and>
    unat (addr_start (heap_stack (entry_heap (pool_entries p' 2)))) = 77824"
proof -
  have al: "vk_safe_alignedlen 4096 1 100 = Inr 4096"
    by (simp add: alignedlen_correct round_up_def pages_for_def Let_def)
  have cb: "fst (call_func None e u) = Inr ()" for e and u :: unit
    by (simp add: call_func_def)
  have "[0..<unat (3 :: size_t)] = [0, 1, 2]" by (simp add: upt_rec)
  moreover have "2 < unat (3 :: size_t)" by simp
  moreover have "(4096 :: size_t) \<noteq> 0" "4096 dvd unat (4096 :: size_t)" by simp_all
  ultimately show ?thesis
    using pool_init_ready [OF _ _ needed_example, of 65536 None None blank_pool
        "\<lambda>_. Inl ENOMEM" False "()"] cb al
    by fastforce
qed

end
