(* ===== verification/Kern_State.thy ===== *)
theory Kern_State
  imports Scheduler Pool
begin

text \<open>
  The objects of the virtual kernel (src/vk_fd_s.h, vk_fd_table_s.h, vk_proc_s.h,
  vk_kern_s.h). A descriptor slot is named by its index in the table, a process by its
  index in the kernel's pool; the lists of both are the sequences of their elements. The
  world of each process (\<open>vk_world\<close>) is found by the process. \<open>k_pool\<close> is the pool that
  pooled processes take their heaps from; \<open>k_prot\<close> and \<open>k_kern_prot\<close> are the page protections the
  system holds for the heaps of the processes and of the kernel. The socket embedded in a slot is
  not used by the code and not modelled.
\<close>

record vk_fd =
  fd_num :: int
  fd_proc_id :: size_t
  fd_closed :: bool
  fd_zombie :: bool
  fd_added :: bool
  fd_allocated :: bool
  dirty_qed :: bool
  fresh_qed :: bool
  ioft_post :: vk_io_future
  ioft_pre :: vk_io_future
  ioft_ret :: vk_io_future

datatype vk_poll_driver = VK_POLL_DRIVER_POLL | VK_POLL_DRIVER_OS

datatype vk_poll_method = VK_POLL_METHOD_LEVEL_TRIGGERED_ONESHOT | VK_POLL_METHOD_EDGE_TRIGGERED

record vk_fd_table =
  table_size :: size_t
  dirty_fds :: "size_t list"
  fresh_fds :: "size_t list"
  poll_driver :: vk_poll_driver
  poll_method :: vk_poll_method
  table_fds :: "size_t \<Rightarrow> vk_fd"
  poll_fds :: "pollfd list"
  epoll_fd :: "int option"

record vk_proc =
  proc_id :: size_t
  proc_pool_entry_id :: size_t
  proc_pooled :: bool
  run_qed :: bool
  blocked_qed :: bool
  allocated_fds :: "size_t list"
  has_local :: bool
  proc_heap :: vk_heap
  privileged :: bool
  isolated :: bool

record vk_kern =
  kern_hd :: vk_heap
  run_procs :: "size_t list"
  blocked_procs :: "size_t list"
  kern_rc :: int
  shutdown_requested :: bool
  proc_pool :: vk_pool
  kern_iso :: bool

record kern_world =
  k_table :: vk_fd_table
  k_proc :: "size_t \<Rightarrow> vk_proc"
  k_kern :: vk_kern
  k_local :: "size_t \<Rightarrow> vk_world"
  k_pool :: vk_pool
  k_prot :: "size_t \<Rightarrow> prot"
  k_kern_prot :: prot
  k_errno :: errno

definition SIGTERM :: nat where "SIGTERM = 15"

definition upd_table :: "(vk_fd_table \<Rightarrow> vk_fd_table) \<Rightarrow> kern_world \<Rightarrow> kern_world" where
  "upd_table f k = k\<lparr>k_table := f (k_table k)\<rparr>"

definition upd_fd :: "size_t \<Rightarrow> (vk_fd \<Rightarrow> vk_fd) \<Rightarrow> kern_world \<Rightarrow> kern_world" where
  "upd_fd i f = upd_table (\<lambda>t. t\<lparr>table_fds := (table_fds t)(i := f (table_fds t i))\<rparr>)"

definition upd_proc :: "size_t \<Rightarrow> (vk_proc \<Rightarrow> vk_proc) \<Rightarrow> kern_world \<Rightarrow> kern_world" where
  "upd_proc p f k = k\<lparr>k_proc := (k_proc k)(p := f (k_proc k p))\<rparr>"

definition upd_kern :: "(vk_kern \<Rightarrow> vk_kern) \<Rightarrow> kern_world \<Rightarrow> kern_world" where
  "upd_kern f k = k\<lparr>k_kern := f (k_kern k)\<rparr>"

definition set_local :: "size_t \<Rightarrow> vk_world \<Rightarrow> kern_world \<Rightarrow> kern_world" where
  "set_local p w k = k\<lparr>k_local := (k_local k)(p := w)\<rparr>"

definition k_fd :: "kern_world \<Rightarrow> size_t \<Rightarrow> vk_fd" where
  "k_fd k i = table_fds (k_table k) i"

definition vk_kern_pending :: "kern_world \<Rightarrow> bool" where
  "vk_kern_pending k \<longleftrightarrow> \<not> (run_procs (k_kern k) = [] \<and> blocked_procs (k_kern k) = [])"

text \<open>A signal taken from the signal queue: only \<open>SIGTERM\<close> changes the state, \<open>SIGUSR1\<close> dumps it.\<close>

definition vk_kern_sync_signal_handler :: "nat \<Rightarrow> kern_world \<Rightarrow> kern_world" where
  "vk_kern_sync_signal_handler signo k =
     (if signo = SIGTERM then upd_kern (shutdown_requested_update (\<lambda>_. True)) k else k)"

definition vk_kern_receive_signal :: "nat \<Rightarrow> kern_world \<Rightarrow> kern_world" where
  "vk_kern_receive_signal signo k = (if signo \<noteq> 0 then vk_kern_sync_signal_handler signo k else k)"

lemma upd_table_sel [simp]:
  "k_table (upd_table f k) = f (k_table k)" "k_proc (upd_table f k) = k_proc k"
  "k_kern (upd_table f k) = k_kern k" "k_local (upd_table f k) = k_local k"
  "k_errno (upd_table f k) = k_errno k"
  by (simp_all add: upd_table_def)

lemma upd_fd_sel [simp]:
  "k_fd (upd_fd i f k) = (k_fd k)(i := f (k_fd k i))" "k_proc (upd_fd i f k) = k_proc k"
  "k_kern (upd_fd i f k) = k_kern k" "k_local (upd_fd i f k) = k_local k"
  "dirty_fds (k_table (upd_fd i f k)) = dirty_fds (k_table k)"
  "fresh_fds (k_table (upd_fd i f k)) = fresh_fds (k_table k)"
  "table_size (k_table (upd_fd i f k)) = table_size (k_table k)"
  "poll_method (k_table (upd_fd i f k)) = poll_method (k_table k)"
  "k_errno (upd_fd i f k) = k_errno k"
  by (simp_all add: upd_fd_def k_fd_def fun_eq_iff)

lemma k_fd_table [simp]:
  "k_fd (upd_table (dirty_fds_update f) k) = k_fd k" "k_fd (upd_table (fresh_fds_update f) k) = k_fd k"
  "k_fd (upd_table (poll_fds_update g) k) = k_fd k"
  by (simp_all add: k_fd_def fun_eq_iff)

lemma upd_proc_sel [simp]:
  "k_proc (upd_proc p f k) = (k_proc k)(p := f (k_proc k p))" "k_table (upd_proc p f k) = k_table k"
  "k_kern (upd_proc p f k) = k_kern k" "k_local (upd_proc p f k) = k_local k"
  "k_errno (upd_proc p f k) = k_errno k" "k_fd (upd_proc p f k) = k_fd k"
  by (simp_all add: upd_proc_def k_fd_def fun_eq_iff)

lemma upd_kern_sel [simp]:
  "k_kern (upd_kern f k) = f (k_kern k)" "k_proc (upd_kern f k) = k_proc k"
  "k_table (upd_kern f k) = k_table k" "k_local (upd_kern f k) = k_local k"
  "k_errno (upd_kern f k) = k_errno k" "k_fd (upd_kern f k) = k_fd k"
  by (simp_all add: upd_kern_def k_fd_def fun_eq_iff)

lemma set_local_sel [simp]:
  "k_local (set_local p w k) = (k_local k)(p := w)" "k_proc (set_local p w k) = k_proc k"
  "k_table (set_local p w k) = k_table k" "k_kern (set_local p w k) = k_kern k"
  "k_fd (set_local p w k) = k_fd k"
  by (simp_all add: set_local_def k_fd_def fun_eq_iff)

lemma upd_pages_sel [simp]:
  "k_prot (upd_table f k) = k_prot k" "k_kern_prot (upd_table f k) = k_kern_prot k" "k_pool (upd_table f k) = k_pool k"
  "k_prot (upd_fd i g k) = k_prot k" "k_kern_prot (upd_fd i g k) = k_kern_prot k" "k_pool (upd_fd i g k) = k_pool k"
  "k_prot (upd_proc p h k) = k_prot k" "k_kern_prot (upd_proc p h k) = k_kern_prot k" "k_pool (upd_proc p h k) = k_pool k"
  "k_prot (upd_kern j k) = k_prot k" "k_kern_prot (upd_kern j k) = k_kern_prot k" "k_pool (upd_kern j k) = k_pool k"
  "k_prot (set_local p w k) = k_prot k" "k_kern_prot (set_local p w k) = k_kern_prot k"
  by (simp_all add: upd_table_def upd_fd_def upd_proc_def upd_kern_def set_local_def)

lemma k_fd_pages [simp]:
  "k_fd (k\<lparr>k_prot := pr\<rparr>) = k_fd k" "k_fd (k\<lparr>k_kern_prot := pk\<rparr>) = k_fd k" "k_fd (k\<lparr>k_pool := po\<rparr>) = k_fd k"
  "k_fd (k\<lparr>k_proc := ps\<rparr>) = k_fd k"
  by (simp_all add: k_fd_def fun_eq_iff)

lemma receive_signal_sel [simp]:
  "k_table (vk_kern_receive_signal n k) = k_table k" "k_proc (vk_kern_receive_signal n k) = k_proc k"
  "k_local (vk_kern_receive_signal n k) = k_local k" "k_fd (vk_kern_receive_signal n k) = k_fd k"
  "run_procs (k_kern (vk_kern_receive_signal n k)) = run_procs (k_kern k)"
  "blocked_procs (k_kern (vk_kern_receive_signal n k)) = blocked_procs (k_kern k)"
  by (simp_all add: vk_kern_receive_signal_def vk_kern_sync_signal_handler_def)

end
