(* ===== verification/Fd_Table.thy ===== *)
theory Fd_Table
  imports Kern_State
begin

text \<open>
  The table of file descriptors (src/vk_fd.c, src/vk_fd_table.c) and what ties a slot to
  its process (src/vk_proc.c): allocation, the queue of slots to register with the
  poller (dirty) and of slots that have events to dispatch (fresh), the registration of
  blocked sockets, the interpretation of poll results, and the poll and epoll drivers. The
  results of the system calls are arguments.
\<close>

subsection \<open>Slots\<close>

definition vk_fd_allocate :: "int \<Rightarrow> size_t \<Rightarrow> vk_fd \<Rightarrow> errno + vk_fd" where
  "vk_fd_allocate fd p slot =
     (if fd_allocated slot then Inl ENOENT
      else Inr (slot\<lparr>fd_num := fd, fd_proc_id := p, fd_allocated := True, fd_closed := False,
                     fd_added := False, fd_zombie := False\<rparr>))"

definition vk_fd_free :: "vk_fd \<Rightarrow> vk_fd" where
  "vk_fd_free slot =
     slot\<lparr>fd_allocated := False, fd_closed := False, fd_added := False, fd_zombie := False\<rparr>"

definition vk_fd_table_get :: "kern_world \<Rightarrow> int \<Rightarrow> size_t option" where
  "vk_fd_table_get k fd =
     (if (of_int fd :: size_t) \<ge> table_size (k_table k) then None else Some (of_int fd))"

definition vk_proc_allocate_fd :: "size_t \<Rightarrow> size_t \<Rightarrow> int \<Rightarrow> kern_world \<Rightarrow> int \<times> kern_world" where
  "vk_proc_allocate_fd p i fd k =
     (if \<not> fd_allocated (k_fd k i)
      then (let k1 = (case vk_fd_allocate fd (proc_id (k_proc k p)) (k_fd k i) of
                        Inl e \<Rightarrow> k\<lparr>k_errno := e\<rparr> | Inr slot \<Rightarrow> upd_fd i (\<lambda>_. slot) k)
            in (0, upd_proc p (\<lambda>pr. pr\<lparr>allocated_fds := i # allocated_fds pr\<rparr>) k1))
      else if fd_proc_id (k_fd k i) \<noteq> proc_id (k_proc k p) then (- 1, k\<lparr>k_errno := EEXIST\<rparr>)
      else (0, k))"

definition vk_proc_deallocate_fd :: "size_t \<Rightarrow> size_t \<Rightarrow> kern_world \<Rightarrow> kern_world option" where
  "vk_proc_deallocate_fd p i k =
     (if fd_allocated (k_fd k i)
      then (case q_remove i (allocated_fds (k_proc k p)) of
              None \<Rightarrow> None
            | Some q \<Rightarrow> Some (upd_proc p (allocated_fds_update (\<lambda>_. q))
                                (upd_fd i (fd_allocated_update (\<lambda>_. False)) k)))
      else Some k)"

subsection \<open>Queues\<close>

definition vk_fd_table_enqueue_dirty :: "size_t \<Rightarrow> kern_world \<Rightarrow> kern_world" where
  "vk_fd_table_enqueue_dirty i k =
     (if \<not> dirty_qed (k_fd k i)
      then upd_table (dirty_fds_update (\<lambda>q. i # q)) (upd_fd i (dirty_qed_update (\<lambda>_. True)) k)
      else k)"

definition vk_fd_table_enqueue_fresh :: "size_t \<Rightarrow> kern_world \<Rightarrow> kern_world" where
  "vk_fd_table_enqueue_fresh i k =
     (if \<not> fresh_qed (k_fd k i)
      then upd_table (fresh_fds_update (\<lambda>q. i # q)) (upd_fd i (fresh_qed_update (\<lambda>_. True)) k)
      else k)"

definition vk_fd_table_drop_dirty :: "size_t \<Rightarrow> kern_world \<Rightarrow> kern_world option" where
  "vk_fd_table_drop_dirty i k =
     (if dirty_qed (k_fd k i)
      then (case q_remove i (dirty_fds (k_table k)) of
              None \<Rightarrow> None
            | Some q \<Rightarrow> Some (upd_table (dirty_fds_update (\<lambda>_. q)) (upd_fd i (dirty_qed_update (\<lambda>_. False)) k)))
      else Some k)"

definition vk_fd_table_drop_fresh :: "size_t \<Rightarrow> kern_world \<Rightarrow> kern_world option" where
  "vk_fd_table_drop_fresh i k =
     (if fresh_qed (k_fd k i)
      then (case q_remove i (fresh_fds (k_table k)) of
              None \<Rightarrow> None
            | Some q \<Rightarrow> Some (upd_table (fresh_fds_update (\<lambda>_. q)) (upd_fd i (fresh_qed_update (\<lambda>_. False)) k)))
      else Some k)"

definition vk_fd_table_dequeue_dirty :: "kern_world \<Rightarrow> (size_t \<times> kern_world) option" where
  "vk_fd_table_dequeue_dirty k =
     (case dirty_fds (k_table k) of
        [] \<Rightarrow> None
      | i # q \<Rightarrow> Some (i, upd_fd i (dirty_qed_update (\<lambda>_. False)) (upd_table (dirty_fds_update (\<lambda>_. q)) k)))"

definition vk_fd_table_dequeue_fresh :: "kern_world \<Rightarrow> (size_t \<times> kern_world) option" where
  "vk_fd_table_dequeue_fresh k =
     (case fresh_fds (k_table k) of
        [] \<Rightarrow> None
      | i # q \<Rightarrow> Some (i, upd_fd i (fresh_qed_update (\<lambda>_. False)) (upd_table (fresh_fds_update (\<lambda>_. q)) k)))"

interpretation dirty: flagged_queue "\<lambda>k. dirty_fds (k_table k)" "\<lambda>k i. dirty_qed (k_fd k i)" "\<lambda>_ _. True"
    "\<lambda>k i. vk_fd_table_enqueue_dirty i k" "\<lambda>k i. vk_fd_table_drop_dirty i k" vk_fd_table_dequeue_dirty
  by unfold_locales
    (auto simp: vk_fd_table_enqueue_dirty_def vk_fd_table_drop_dirty_def vk_fd_table_dequeue_dirty_def
      q_remove_def fun_eq_iff split: list.splits)

interpretation fresh: flagged_queue "\<lambda>k. fresh_fds (k_table k)" "\<lambda>k i. fresh_qed (k_fd k i)" "\<lambda>_ _. True"
    "\<lambda>k i. vk_fd_table_enqueue_fresh i k" "\<lambda>k i. vk_fd_table_drop_fresh i k" vk_fd_table_dequeue_fresh
  by unfold_locales
    (auto simp: vk_fd_table_enqueue_fresh_def vk_fd_table_drop_fresh_def vk_fd_table_dequeue_fresh_def
      q_remove_def fun_eq_iff split: list.splits)

subsection \<open>Registering blocked sockets\<close>

text \<open>The failure of the allocation is only logged.\<close>

definition vk_fd_table_prepoll_blocked_fd ::
  "addr \<Rightarrow> vk_io_future \<Rightarrow> size_t \<Rightarrow> kern_world \<Rightarrow> kern_world" where
  "vk_fd_table_prepoll_blocked_fd s ioft p k =
     (case vk_fd_table_get k (ev_fd (ioft_event ioft)) of
        None \<Rightarrow> k
      | Some i \<Rightarrow>
          (let k1 = (if \<not> fd_allocated (k_fd k i)
                     then snd (vk_proc_allocate_fd p i (ev_fd (ioft_event ioft)) k) else k);
               pre = (vk_io_future_init s)\<lparr>ioft_event :=
                        \<lparr>ev_fd = ev_fd (ioft_event ioft), ev_events = ev_events (ioft_event ioft),
                         ev_revents = 0\<rparr>\<rparr>;
               k2 = upd_fd i (ioft_pre_update (\<lambda>_. pre)) k1
           in if ev_events (ioft_event pre) \<noteq> 0 \<or> ioft_rx_closed pre \<and> ioft_tx_closed pre
              then vk_fd_table_enqueue_dirty i k2 else k2))"

definition vk_fd_table_prepoll_blocked_socket ::
  "addr \<Rightarrow> vk_socket \<Rightarrow> size_t \<Rightarrow> kern_world \<Rightarrow> kern_world" where
  "vk_fd_table_prepoll_blocked_socket s so p k =
     (let rx = ioft_rx_pre (so_block so); tx = ioft_tx_pre (so_block so);
          rx_fd = ev_fd (ioft_event rx); tx_fd = ev_fd (ioft_event tx);
          k1 = (if rx_fd \<noteq> - 1 then vk_fd_table_prepoll_blocked_fd s rx p k else k)
      in if tx_fd \<noteq> - 1 \<and> tx_fd \<noteq> rx_fd then vk_fd_table_prepoll_blocked_fd s tx p k1 else k1)"

text \<open>The link to the next slot is read before the slot is deallocated.\<close>

fun prepoll_zombie_loop :: "size_t \<Rightarrow> size_t list \<Rightarrow> kern_world \<Rightarrow> kern_world option" where
  "prepoll_zombie_loop p [] k = Some k"
| "prepoll_zombie_loop p (i # is) k =
     (case vk_proc_deallocate_fd p i
        (vk_fd_table_enqueue_dirty i
          (upd_fd i (\<lambda>slot. slot\<lparr>ioft_pre := (ioft_pre slot)\<lparr>ioft_rx_closed := True, ioft_tx_closed := True\<rparr>,
                                fd_zombie := True\<rparr>) k)) of
        None \<Rightarrow> None
      | Some k' \<Rightarrow> prepoll_zombie_loop p is k')"

definition vk_fd_table_prepoll_zombie :: "size_t \<Rightarrow> kern_world \<Rightarrow> kern_world option" where
  "vk_fd_table_prepoll_zombie p k = prepoll_zombie_loop p (allocated_fds (k_proc k p)) k"

subsection \<open>Interpreting what the poller reports\<close>

definition vk_fd_table_process_fd :: "size_t \<Rightarrow> kern_world \<Rightarrow> kern_world option" where
  "vk_fd_table_process_fd i k =
     (let post = ioft_post (k_fd k i);
          rev = ev_revents (ioft_event post);
          post' = post\<lparr>ioft_readable := (if rev AND POLLIN \<noteq> 0 then 1 else ioft_readable post),
                       ioft_writable := (if rev AND POLLOUT \<noteq> 0 then 1 else ioft_writable post),
                       ioft_rx_closed := (rev AND POLLHUP \<noteq> 0 \<or> rev AND POLLERR \<noteq> 0 \<or> ioft_rx_closed post),
                       ioft_tx_closed := (rev AND POLLRDHUP \<noteq> 0 \<or> ioft_tx_closed post)\<rparr>;
          k1 = upd_fd i (\<lambda>slot. slot\<lparr>ioft_post := post', ioft_ret := post'\<rparr>) k;
          k2 = (if rev \<noteq> 0 then vk_fd_table_enqueue_fresh i k1 else k1);
          pre = ioft_pre (k_fd k i);
          want = ev_events (ioft_event pre);
          left = want XOR (rev AND ev_events (ioft_event post))
      in if want AND rev = want
         then (let k3 = upd_fd i (ioft_pre_update (\<lambda>_. pre\<lparr>ioft_event := (ioft_event pre)\<lparr>ev_events := left\<rparr>\<rparr>)) k2
               in if left = 0 then vk_fd_table_drop_dirty i k3 else Some k3)
         else Some k2)"

definition mark_closed :: "vk_io_future \<Rightarrow> vk_io_future" where
  "mark_closed ft = ft\<lparr>ioft_rx_closed := True, ioft_tx_closed := True\<rparr>"

definition vk_fd_table_clean_fd :: "size_t \<Rightarrow> kern_world \<Rightarrow> kern_world option" where
  "vk_fd_table_clean_fd i k =
     do { k1 \<leftarrow> (if fd_zombie (k_fd k i)
                then do { k' \<leftarrow> vk_fd_table_drop_dirty i k; vk_fd_table_drop_fresh i k' }
                else Some k);
          let slot = k_fd k1 i;
          if \<not> fd_closed slot \<and>
             (fd_zombie slot \<or> ioft_rx_closed (ioft_pre slot) \<and> ioft_tx_closed (ioft_pre slot))
          then do {
            k2 \<leftarrow> vk_fd_table_drop_dirty i
                    (upd_fd i (\<lambda>sl. sl\<lparr>fd_closed := True, ioft_post := mark_closed (ioft_post sl),
                                      ioft_ret := mark_closed (ioft_ret sl)\<rparr>) k1);
            Some (if \<not> fd_zombie slot then vk_fd_table_enqueue_fresh i k2 else k2) }
          else Some k1 }"

subsection \<open>Waiting for events\<close>

text \<open>
  A call that waits for events, with the signals received before and after it. The drivers
  repeat it until it reports events or fails for good. A list gives the outcomes of the
  calls; it may run out before that, and the kernel is then still waiting.
\<close>

type_synonym 'e wait_call = "nat \<times> (errno + 'e list) \<times> nat"

datatype 'e waited = Wait_Events "'e list" | Wait_Error errno | Still_Waiting

fun wait_loop :: "('e list \<Rightarrow> bool) \<Rightarrow> 'e wait_call list \<Rightarrow> kern_world \<Rightarrow> 'e waited \<times> kern_world" where
  "wait_loop nothing [] k = (Still_Waiting, k)"
| "wait_loop nothing ((s1, res, s2) # calls) k =
     (let k' = vk_kern_receive_signal s2 (vk_kern_receive_signal s1 k)
      in case res of
           Inr es \<Rightarrow> if nothing es then wait_loop nothing calls k' else (Wait_Events es, k')
         | Inl e \<Rightarrow> if e = EINTR \<or> e = EAGAIN then wait_loop nothing calls k'
                    else (Wait_Error e, k'\<lparr>k_errno := e\<rparr>))"

text \<open>What a driver ends with: its result, or nothing yet.\<close>

type_synonym driven = "(int option \<times> kern_world) option"

subsection \<open>The poll driver\<close>

definition VK_FD_MAX :: nat where "VK_FD_MAX = 16384"

text \<open>The list is walked by its links; cleaning a slot may remove it and keeps its own link.\<close>

definition poll_register_fd :: "size_t \<Rightarrow> kern_world \<Rightarrow> kern_world option" where
  "poll_register_fd i k =
     do { k1 \<leftarrow> vk_fd_table_clean_fd i k;
          let slot = k_fd k1 i;
          Some (if length (poll_fds (k_table k1)) < VK_FD_MAX \<and> \<not> fd_closed slot \<and>
                   ev_events (ioft_event (ioft_pre slot)) \<noteq> 0
                then upd_table (poll_fds_update (\<lambda>ps. ps @ [ioft_event (ioft_pre slot)]))
                       (upd_fd i (ioft_post_update (\<lambda>_. ioft_pre slot)) k1)
                else k1) }"

fun poll_register :: "size_t list \<Rightarrow> kern_world \<Rightarrow> kern_world option" where
  "poll_register [] k = Some k"
| "poll_register (i # is) k = do { k1 \<leftarrow> poll_register_fd i k; poll_register is k1 }"

fun poll_process :: "pollfd list \<Rightarrow> kern_world \<Rightarrow> (int \<times> kern_world) option" where
  "poll_process [] k = Some (0, k)"
| "poll_process (p # ps) k =
     (case vk_fd_table_get k (ev_fd p) of
        None \<Rightarrow> Some (- 1, k)
      | Some i \<Rightarrow>
          do { k1 \<leftarrow> vk_fd_table_process_fd i
                      (upd_fd i (ioft_post_update (ioft_event_update (\<lambda>_. p))) k);
               poll_process ps k1 })"

definition vk_fd_table_poll :: "events wait_call list \<Rightarrow> kern_world \<Rightarrow> driven" where
  "vk_fd_table_poll calls k =
     do { k1 \<leftarrow> poll_register (dirty_fds (k_table k)) (upd_table (poll_fds_update (\<lambda>_. [])) k);
          if \<not> vk_kern_pending k1 then Some (Some 0, k1)
          else case wait_loop (list_all (\<lambda>r. r = 0)) calls k1 of
            (Still_Waiting, k2) \<Rightarrow> Some (None, k2)
          | (Wait_Error e, k2) \<Rightarrow> Some (Some (- 1), k2)
          | (Wait_Events rs, k2) \<Rightarrow>
              (let ps = map2 (\<lambda>p r. p\<lparr>ev_revents := r\<rparr>) (poll_fds (k_table k2)) rs
               in do { (rc, k3) \<leftarrow> poll_process ps (upd_table (poll_fds_update (\<lambda>_. ps)) k2);
                       Some (Some rc, k3) }) }"

subsection \<open>The epoll driver\<close>

definition EPOLLIN :: "32 word" where "EPOLLIN = 0x1"
definition EPOLLOUT :: "32 word" where "EPOLLOUT = 0x4"
definition EPOLLERR :: "32 word" where "EPOLLERR = 0x8"
definition EPOLLHUP :: "32 word" where "EPOLLHUP = 0x10"
definition EPOLLRDHUP :: "32 word" where "EPOLLRDHUP = 0x2000"
definition EPOLLONESHOT :: "32 word" where "EPOLLONESHOT = 0x40000000"
definition EPOLLET :: "32 word" where "EPOLLET = 0x80000000"

datatype ep_op = EPOLL_CTL_ADD | EPOLL_CTL_MOD

record epoll_call =
  ep_op :: ep_op
  ep_fd :: int
  ep_events :: "32 word"

text \<open>What \<open>epoll_ctl\<close> answers may depend on the calls made before it.\<close>

type_synonym epoll_ctl = "epoll_call list \<Rightarrow> epoll_call \<Rightarrow> errno option"

definition register_edge_fd ::
  "epoll_ctl \<Rightarrow> epoll_call list \<Rightarrow> size_t \<Rightarrow> kern_world \<Rightarrow> int \<times> epoll_call list \<times> kern_world" where
  "register_edge_fd ctl log i k =
     (let slot = k_fd k i;
          call = \<lparr>ep_op = EPOLL_CTL_ADD, ep_fd = fd_num slot,
                  ep_events = EPOLLIN OR EPOLLOUT OR EPOLLRDHUP OR EPOLLET\<rparr>
      in if fd_closed slot
         then (0, log, upd_fd i (ioft_post_update (ioft_event_update (ev_events_update (\<lambda>_. 0)))) k)
         else if \<not> fd_added slot
         then (case ctl log call of
                 Some e \<Rightarrow> (- 1, log @ [call], k\<lparr>k_errno := e\<rparr>)
               | None \<Rightarrow> (0, log @ [call], upd_fd i (\<lambda>sl. sl\<lparr>ioft_post := ioft_pre sl, fd_added := True\<rparr>) k))
         else (0, log, k))"

definition register_oneshot_fd ::
  "epoll_ctl \<Rightarrow> epoll_call list \<Rightarrow> size_t \<Rightarrow> kern_world \<Rightarrow> int \<times> epoll_call list \<times> kern_world" where
  "register_oneshot_fd ctl log i k =
     (let slot = k_fd k i;
          want = ev_events (ioft_event (ioft_pre slot));
          ev1 = (if want AND POLLOUT \<noteq> 0 then EPOLLOUT OR EPOLLONESHOT else 0);
          ev2 = (if want AND POLLIN \<noteq> 0 then EPOLLIN OR EPOLLONESHOT else ev1);
          call = \<lparr>ep_op = (if fd_added slot then EPOLL_CTL_MOD else EPOLL_CTL_ADD), ep_fd = fd_num slot,
                  ep_events = ev2\<rparr>
      in if fd_closed slot
         then (0, log, upd_fd i (ioft_post_update (ioft_event_update (ev_events_update (\<lambda>_. 0)))) k)
         else (let k1 = upd_fd i (fd_added_update (\<lambda>_. True)) k
               in case ctl log call of
                    Some e \<Rightarrow> (- 1, log @ [call], k1\<lparr>k_errno := e\<rparr>)
                  | None \<Rightarrow> (0, log @ [call], upd_fd i (\<lambda>sl. sl\<lparr>ioft_post := ioft_pre sl\<rparr>) k1)))"

definition register_fd ::
  "epoll_ctl \<Rightarrow> epoll_call list \<Rightarrow> size_t \<Rightarrow> kern_world \<Rightarrow> int \<times> epoll_call list \<times> kern_world" where
  "register_fd ctl log i k =
     (if poll_method (k_table k) = VK_POLL_METHOD_EDGE_TRIGGERED then register_edge_fd ctl log i k
      else register_oneshot_fd ctl log i k)"

lemma register_fd_queue:
  "register_fd ctl log i k = (rc, log', k') \<Longrightarrow> dirty_fds (k_table k') = dirty_fds (k_table k)"
  by (auto simp: register_fd_def register_edge_fd_def register_oneshot_fd_def Let_def
      split: if_splits option.splits)

function epoll_register ::
  "epoll_ctl \<Rightarrow> epoll_call list \<Rightarrow> kern_world \<Rightarrow> int \<times> epoll_call list \<times> kern_world" where
  "epoll_register ctl log k =
     (case vk_fd_table_dequeue_dirty k of
        None \<Rightarrow> (0, log, k)
      | Some (i, k1) \<Rightarrow>
          (case register_fd ctl log i k1 of (rc, log', k2) \<Rightarrow>
             if rc = - 1 then (- 1, log', k2) else epoll_register ctl log' k2))"
  by pat_completeness auto
termination
  by (relation "measure (\<lambda>(ctl, log, k). length (dirty_fds (k_table k)))")
    (auto simp: vk_fd_table_dequeue_dirty_def split: list.splits dest!: register_fd_queue [OF sym])

declare epoll_register.simps [simp del]

definition poll_revents :: "32 word \<Rightarrow> events" where
  "poll_revents ev =
     (if ev AND EPOLLIN \<noteq> 0 then POLLIN else 0) OR (if ev AND EPOLLOUT \<noteq> 0 then POLLOUT else 0) OR
     (if ev AND EPOLLHUP \<noteq> 0 then POLLHUP else 0) OR (if ev AND EPOLLRDHUP \<noteq> 0 then POLLRDHUP else 0) OR
     (if ev AND EPOLLERR \<noteq> 0 then POLLERR else 0)"

fun epoll_process :: "(int \<times> 32 word) list \<Rightarrow> kern_world \<Rightarrow> (int \<times> kern_world) option" where
  "epoll_process [] k = Some (0, k)"
| "epoll_process ((fd, ev) # evs) k =
     (case vk_fd_table_get k fd of
        None \<Rightarrow> Some (- 1, k)
      | Some i \<Rightarrow>
          do { k1 \<leftarrow> vk_fd_table_process_fd i
                 (upd_fd i (ioft_post_update (ioft_event_update (ev_revents_update (\<lambda>_. poll_revents ev)))) k);
               k2 \<leftarrow> vk_fd_table_clean_fd i k1;
               epoll_process evs k2 })"

definition vk_fd_table_epoll ::
  "errno + int \<Rightarrow> epoll_ctl \<Rightarrow> (int \<times> 32 word) wait_call list \<Rightarrow> kern_world \<Rightarrow> driven" where
  "vk_fd_table_epoll create ctl calls k =
     (let (rc0, k0) = (case epoll_fd (k_table k) of
                         Some _ \<Rightarrow> (0 :: int, k)
                       | None \<Rightarrow> (case create of Inl e \<Rightarrow> (- 1, k\<lparr>k_errno := e\<rparr>)
                                  | Inr fd \<Rightarrow> (0, upd_table (epoll_fd_update (\<lambda>_. Some fd)) k)))
      in if rc0 = - 1 then Some (Some (- 1), k0)
         else case epoll_register ctl [] k0 of (rc, log, k1) \<Rightarrow>
           if rc = - 1 then Some (Some (- 1), k1)
           else case wait_loop (\<lambda>es. es = []) calls k1 of
             (Still_Waiting, k2) \<Rightarrow> Some (None, k2)
           | (Wait_Error e, k2) \<Rightarrow> Some (Some (- 1), k2)
           | (Wait_Events es, k2) \<Rightarrow> do { (rc, k3) \<leftarrow> epoll_process es k2; Some (Some rc, k3) })"

text \<open>The Linux build, whose system driver is epoll.\<close>

record poller =
  p_create :: "errno + int"
  p_ctl :: epoll_ctl
  p_epoll :: "(int \<times> 32 word) wait_call list"
  p_poll :: "events wait_call list"

definition vk_fd_table_wait :: "poller \<Rightarrow> kern_world \<Rightarrow> driven" where
  "vk_fd_table_wait p k =
     (if poll_driver (k_table k) = VK_POLL_DRIVER_POLL then vk_fd_table_poll (p_poll p) k
      else vk_fd_table_epoll (p_create p) (p_ctl p) (p_epoll p) k)"

end
