(* ===== verification/Fd_Props.thy ===== *)
theory Fd_Props
  imports Fd_Table
begin

text \<open>
  What the poll and epoll drivers guarantee: the queues of slots are never corrupted, no
  reported event is lost and no unanswered registration is forgotten.
\<close>

subsection \<open>The queues of a table\<close>

definition fds_ok :: "kern_world \<Rightarrow> bool" where
  "fds_ok k \<longleftrightarrow> dirty.inv k \<and> fresh.inv k"

lemma dirty_inv_iff: "dirty.inv k \<longleftrightarrow> flag_inv (\<lambda>i. dirty_qed (k_fd k i)) (dirty_fds (k_table k))"
  by (simp add: dirty.inv_def)

lemma fresh_inv_iff: "fresh.inv k \<longleftrightarrow> flag_inv (\<lambda>i. fresh_qed (k_fd k i)) (fresh_fds (k_table k))"
  by (simp add: fresh.inv_def)

lemmas fds_ok_iff = fds_ok_def dirty_inv_iff fresh_inv_iff flag_inv_def

lemma k_fd_errno [simp]: "k_fd (k\<lparr>k_errno := e\<rparr>) = k_fd k"
  by (simp add: k_fd_def fun_eq_iff)

text \<open>Writing what a slot already has.\<close>

lemma upd_fd_idem: "f (k_fd k i) = k_fd k i \<Longrightarrow> upd_fd i f k = k"
  by (cases k; cases "k_table k") (simp add: upd_fd_def upd_table_def k_fd_def fun_upd_idem)

lemma upd_table_idem: "f (k_table k) = k_table k \<Longrightarrow> upd_table f k = k"
  by (cases k) (simp add: upd_table_def)

lemma fds_ok_upd_fd:
  "(\<And>s. dirty_qed (f s) = dirty_qed s \<and> fresh_qed (f s) = fresh_qed s) \<Longrightarrow>
   fds_ok (upd_fd i f k) = fds_ok k"
proof -
  assume "\<And>s. dirty_qed (f s) = dirty_qed s \<and> fresh_qed (f s) = fresh_qed s"
  then have "(\<lambda>j. dirty_qed (k_fd (upd_fd i f k) j)) = (\<lambda>j. dirty_qed (k_fd k j))"
    "(\<lambda>j. fresh_qed (k_fd (upd_fd i f k) j)) = (\<lambda>j. fresh_qed (k_fd k j))"
    by (simp_all add: fun_eq_iff)
  then show ?thesis by (simp only: fds_ok_def dirty_inv_iff fresh_inv_iff) simp
qed

lemma fds_ok_dirty_flag: "fds_ok k \<Longrightarrow> dirty_qed (k_fd k i) \<longleftrightarrow> i \<in> set (dirty_fds (k_table k))"
  by (simp add: fds_ok_iff)

lemma fds_ok_fresh_flag: "fds_ok k \<Longrightarrow> fresh_qed (k_fd k i) \<longleftrightarrow> i \<in> set (fresh_fds (k_table k))"
  by (simp add: fds_ok_iff)

lemma drop_dirty_ok:
  assumes "fds_ok k"
  shows "vk_fd_table_drop_dirty i k =
    Some (upd_table (dirty_fds_update (\<lambda>_. remove1 i (dirty_fds (k_table k))))
           (upd_fd i (dirty_qed_update (\<lambda>_. False)) k))"
  using assms
  by (auto simp: vk_fd_table_drop_dirty_def q_remove_def fds_ok_iff remove1_idem upd_fd_idem upd_table_idem)

lemma drop_fresh_ok:
  assumes "fds_ok k"
  shows "vk_fd_table_drop_fresh i k =
    Some (upd_table (fresh_fds_update (\<lambda>_. remove1 i (fresh_fds (k_table k))))
           (upd_fd i (fresh_qed_update (\<lambda>_. False)) k))"
  using assms
  by (auto simp: vk_fd_table_drop_fresh_def q_remove_def fds_ok_iff remove1_idem upd_fd_idem upd_table_idem)

text \<open>What an operation on slot \<open>i\<close> leaves alone.\<close>

definition other_fds :: "size_t \<Rightarrow> kern_world \<Rightarrow> kern_world \<Rightarrow> bool" where
  "other_fds i k k' \<longleftrightarrow>
     (\<forall>j. j \<noteq> i \<longrightarrow> k_fd k' j = k_fd k j \<and>
        (j \<in> set (dirty_fds (k_table k')) \<longleftrightarrow> j \<in> set (dirty_fds (k_table k))) \<and>
        (j \<in> set (fresh_fds (k_table k')) \<longleftrightarrow> j \<in> set (fresh_fds (k_table k)))) \<and>
     table_size (k_table k') = table_size (k_table k) \<and> poll_fds (k_table k') = poll_fds (k_table k) \<and>
     poll_method (k_table k') = poll_method (k_table k) \<and>
     k_kern k' = k_kern k \<and> k_proc k' = k_proc k \<and> k_local k' = k_local k"

lemma poll_fds_upd_fd [simp]: "poll_fds (k_table (upd_fd i f k)) = poll_fds (k_table k)"
  by (simp add: upd_fd_def)

lemma other_fds_trans: "other_fds i k k1 \<Longrightarrow> other_fds i k1 k2 \<Longrightarrow> other_fds i k k2"
  by (simp add: other_fds_def)

lemma other_fds_refl [simp]: "other_fds i k k"
  by (simp add: other_fds_def)

lemma other_fds_upd [simp]: "other_fds i k (upd_fd i f k)"
  by (simp add: other_fds_def)

lemma enqueue_fresh_ok:
  assumes "fds_ok k"
  shows "fds_ok (vk_fd_table_enqueue_fresh i k)" "other_fds i k (vk_fd_table_enqueue_fresh i k)"
    "i \<in> set (fresh_fds (k_table (vk_fd_table_enqueue_fresh i k)))"
    "dirty_fds (k_table (vk_fd_table_enqueue_fresh i k)) = dirty_fds (k_table k)"
    "\<exists>b. k_fd (vk_fd_table_enqueue_fresh i k) i = (k_fd k i)\<lparr>fresh_qed := b\<rparr>"
  using assms
  by (auto simp: vk_fd_table_enqueue_fresh_def fds_ok_iff other_fds_def intro: exI [of _ "fresh_qed (k_fd k i)"])

lemma enqueue_dirty_ok:
  assumes "fds_ok k"
  shows "fds_ok (vk_fd_table_enqueue_dirty i k)" "other_fds i k (vk_fd_table_enqueue_dirty i k)"
    "i \<in> set (dirty_fds (k_table (vk_fd_table_enqueue_dirty i k)))"
    "fresh_fds (k_table (vk_fd_table_enqueue_dirty i k)) = fresh_fds (k_table k)"
    "\<exists>b. k_fd (vk_fd_table_enqueue_dirty i k) i = (k_fd k i)\<lparr>dirty_qed := b\<rparr>"
  using assms
  by (auto simp: vk_fd_table_enqueue_dirty_def fds_ok_iff other_fds_def intro: exI [of _ "dirty_qed (k_fd k i)"])

lemma drop_dirty_props:
  assumes "fds_ok k"
  shows "\<exists>k'. vk_fd_table_drop_dirty i k = Some k' \<and> fds_ok k' \<and> other_fds i k k' \<and>
    dirty_fds (k_table k') = remove1 i (dirty_fds (k_table k)) \<and> fresh_fds (k_table k') = fresh_fds (k_table k) \<and>
    k_fd k' i = (k_fd k i)\<lparr>dirty_qed := False\<rparr>"
  using assms unfolding drop_dirty_ok [OF assms] by (auto simp: fds_ok_iff other_fds_def)

lemma drop_fresh_props:
  assumes "fds_ok k"
  shows "\<exists>k'. vk_fd_table_drop_fresh i k = Some k' \<and> fds_ok k' \<and> other_fds i k k' \<and>
    fresh_fds (k_table k') = remove1 i (fresh_fds (k_table k)) \<and> dirty_fds (k_table k') = dirty_fds (k_table k) \<and>
    k_fd k' i = (k_fd k i)\<lparr>fresh_qed := False\<rparr>"
  using assms unfolding drop_fresh_ok [OF assms] by (auto simp: fds_ok_iff other_fds_def)

subsection \<open>One slot\<close>

lemma process_fd_ok:
  assumes ok: "fds_ok k"
  shows "\<exists>k'. vk_fd_table_process_fd i k = Some k' \<and> fds_ok k' \<and> other_fds i k k' \<and>
    (ev_revents (ioft_event (ioft_post (k_fd k i))) \<noteq> 0 \<longrightarrow> i \<in> set (fresh_fds (k_table k'))) \<and>
    ioft_event (ioft_ret (k_fd k' i)) = ioft_event (ioft_post (k_fd k i)) \<and>
    (ev_events (ioft_event (ioft_pre (k_fd k i))) AND ev_revents (ioft_event (ioft_post (k_fd k i)))
        \<noteq> ev_events (ioft_event (ioft_pre (k_fd k i))) \<longrightarrow>
      dirty_fds (k_table k') = dirty_fds (k_table k) \<and> ioft_pre (k_fd k' i) = ioft_pre (k_fd k i)) \<and>
    fd_zombie (k_fd k' i) = fd_zombie (k_fd k i) \<and> fd_closed (k_fd k' i) = fd_closed (k_fd k i)"
proof -
  let ?rev = "ev_revents (ioft_event (ioft_post (k_fd k i)))"
    and ?want = "ev_events (ioft_event (ioft_pre (k_fd k i)))"
  define post where "post = (ioft_post (k_fd k i))\<lparr>
    ioft_readable := (if ?rev AND POLLIN \<noteq> 0 then 1 else ioft_readable (ioft_post (k_fd k i))),
    ioft_writable := (if ?rev AND POLLOUT \<noteq> 0 then 1 else ioft_writable (ioft_post (k_fd k i))),
    ioft_rx_closed := (?rev AND POLLHUP \<noteq> 0 \<or> ?rev AND POLLERR \<noteq> 0 \<or> ioft_rx_closed (ioft_post (k_fd k i))),
    ioft_tx_closed := (?rev AND POLLRDHUP \<noteq> 0 \<or> ioft_tx_closed (ioft_post (k_fd k i)))\<rparr>"
  define k1 where "k1 = upd_fd i (\<lambda>slot. slot\<lparr>ioft_post := post, ioft_ret := post\<rparr>) k"
  define k2 where "k2 = (if ?rev \<noteq> 0 then vk_fd_table_enqueue_fresh i k1 else k1)"
  define pre where "pre = (ioft_pre (k_fd k i))\<lparr>ioft_event := (ioft_event (ioft_pre (k_fd k i)))\<lparr>ev_events :=
    ?want XOR (?rev AND ev_events (ioft_event (ioft_post (k_fd k i))))\<rparr>\<rparr>"
  define k3 where "k3 = upd_fd i (ioft_pre_update (\<lambda>_. pre)) k2"
  have ok1: "fds_ok k1" using ok by (simp add: k1_def fds_ok_upd_fd)
  have ok2: "fds_ok k2" using ok1 enqueue_fresh_ok(1) by (simp add: k2_def)
  have ok3: "fds_ok k3" using ok2 by (simp add: k3_def fds_ok_upd_fd)
  have k1: "other_fds i k k1" by (simp add: k1_def)
  have k2: "other_fds i k k2" "?rev \<noteq> 0 \<Longrightarrow> i \<in> set (fresh_fds (k_table k2))"
    "dirty_fds (k_table k2) = dirty_fds (k_table k)" "\<exists>b. k_fd k2 i = (k_fd k1 i)\<lparr>fresh_qed := b\<rparr>"
    using other_fds_trans [OF k1] enqueue_fresh_ok [OF ok1, of i] k1
    by (auto simp: k2_def k1_def intro: exI [of _ "fresh_qed (k_fd k i)"])
  then have k2': "ioft_ret (k_fd k2 i) = post" "ioft_pre (k_fd k2 i) = ioft_pre (k_fd k i)"
    "fd_zombie (k_fd k2 i) = fd_zombie (k_fd k i)" "fd_closed (k_fd k2 i) = fd_closed (k_fd k i)"
    by (auto simp: k1_def)
  have post: "ioft_event post = ioft_event (ioft_post (k_fd k i))" by (simp add: post_def)
  have step: "vk_fd_table_process_fd i k =
      (if ?want AND ?rev = ?want
       then (if ev_events (ioft_event pre) = 0 then vk_fd_table_drop_dirty i k3 else Some k3) else Some k2)"
    unfolding vk_fd_table_process_fd_def Let_def post_def [symmetric] k1_def [symmetric] k2_def [symmetric]
      pre_def [symmetric] k3_def [symmetric] by (simp add: pre_def)
  have k3: "other_fds i k k3" "?rev \<noteq> 0 \<Longrightarrow> i \<in> set (fresh_fds (k_table k3))" "ioft_ret (k_fd k3 i) = post"
    "fd_zombie (k_fd k3 i) = fd_zombie (k_fd k i)" "fd_closed (k_fd k3 i) = fd_closed (k_fd k i)"
    using k2 k2' other_fds_trans [OF k2(1)] by (simp_all add: k3_def)
  obtain k4 where k4: "vk_fd_table_drop_dirty i k3 = Some k4" "fds_ok k4" "other_fds i k3 k4"
    "fresh_fds (k_table k4) = fresh_fds (k_table k3)" "k_fd k4 i = (k_fd k3 i)\<lparr>dirty_qed := False\<rparr>"
    using drop_dirty_props [OF ok3] by blast
  have k4o: "other_fds i k k4" using k3(1) k4(3) by (rule other_fds_trans)
  show ?thesis
    unfolding step using ok2 ok3 k2 k2' k3 k4 k4o post by auto
qed

definition keeps_slot :: "vk_fd \<Rightarrow> bool" where
  "keeps_slot slot \<longleftrightarrow> \<not> fd_zombie slot \<and>
     (fd_closed slot \<or> \<not> (ioft_rx_closed (ioft_pre slot) \<and> ioft_tx_closed (ioft_pre slot)))"

lemma clean_fd_keeps: "keeps_slot (k_fd k i) \<Longrightarrow> vk_fd_table_clean_fd i k = Some k"
  by (auto simp: vk_fd_table_clean_fd_def keeps_slot_def)

text \<open>What cleaning asks for, if anything, is to have the slot closed and forgotten.\<close>

lemma clean_fd_ok:
  assumes ok: "fds_ok k"
  shows "\<exists>k'. vk_fd_table_clean_fd i k = Some k' \<and> fds_ok k' \<and> other_fds i k k' \<and>
    (\<not> keeps_slot (k_fd k i) \<longrightarrow> fd_closed (k_fd k' i) \<and> i \<notin> set (dirty_fds (k_table k')))"
proof (cases "keeps_slot (k_fd k i)")
  case True
  then show ?thesis using ok by (simp add: clean_fd_keeps)
next
  case False
  define k1 where "k1 = (if fd_zombie (k_fd k i)
    then upd_table (fresh_fds_update (\<lambda>_. remove1 i (fresh_fds (k_table k)))) (upd_fd i (fresh_qed_update (\<lambda>_. False))
      (upd_table (dirty_fds_update (\<lambda>_. remove1 i (dirty_fds (k_table k)))) (upd_fd i (dirty_qed_update (\<lambda>_. False)) k)))
    else k)"
  have zom: "(if fd_zombie (k_fd k i) then do { k' \<leftarrow> vk_fd_table_drop_dirty i k; vk_fd_table_drop_fresh i k' }
      else Some k) = Some k1"
    using drop_dirty_props [OF ok, of i] ok
    by (auto simp: drop_dirty_ok [OF ok] drop_fresh_ok k1_def)
  have ok1: "fds_ok k1" and o1: "other_fds i k k1" using ok by (auto simp: k1_def fds_ok_iff other_fds_def)
  have s1: "fd_zombie (k_fd k1 i) = fd_zombie (k_fd k i)" "fd_closed (k_fd k1 i) = fd_closed (k_fd k i)"
    "ioft_pre (k_fd k1 i) = ioft_pre (k_fd k i)"
    "fd_zombie (k_fd k i) \<Longrightarrow> i \<notin> set (dirty_fds (k_table k1))"
    using ok by (auto simp: k1_def fds_ok_iff)
  show ?thesis
  proof (cases "fd_closed (k_fd k i)")
    case True
    then have "vk_fd_table_clean_fd i k = Some k1" using zom s1 by (simp add: vk_fd_table_clean_fd_def Let_def)
    then show ?thesis using ok1 o1 s1 True False by (auto simp: keeps_slot_def)
  next
    case opened: False
    define k2 where "k2 = upd_fd i (\<lambda>sl. sl\<lparr>fd_closed := True, ioft_post := mark_closed (ioft_post sl),
                                      ioft_ret := mark_closed (ioft_ret sl)\<rparr>) k1"
    have ok2: "fds_ok k2" and o2: "other_fds i k k2"
      using ok1 other_fds_trans [OF o1] by (simp_all add: k2_def fds_ok_upd_fd)
    obtain k3 where k3: "vk_fd_table_drop_dirty i k2 = Some k3" "fds_ok k3" "other_fds i k2 k3"
      "dirty_fds (k_table k3) = remove1 i (dirty_fds (k_table k2))" "k_fd k3 i = (k_fd k2 i)\<lparr>dirty_qed := False\<rparr>"
      using drop_dirty_props [OF ok2] by blast
    have gone: "i \<notin> set (dirty_fds (k_table k3))" using k3(2,5) fds_ok_dirty_flag [of k3 i] by simp
    have step: "vk_fd_table_clean_fd i k =
        Some (if \<not> fd_zombie (k_fd k i) then vk_fd_table_enqueue_fresh i k3 else k3)"
      using zom s1 opened False k3(1) by (auto simp: vk_fd_table_clean_fd_def Let_def keeps_slot_def k2_def)
    note e = enqueue_fresh_ok [OF k3(2), of i]
    have o3: "other_fds i k k3" using o2 k3(3) by (rule other_fds_trans)
    have "fd_closed (k_fd k3 i)" using k3(5) by (simp add: k2_def)
    then show ?thesis unfolding step using k3(2) o3 e gone other_fds_trans [OF o3] by auto
  qed
qed

lemma fds_ok_table:
  assumes "k_table k' = k_table k"
  shows "fds_ok k' = fds_ok k"
proof -
  have "k_fd k' = k_fd k" using assms by (simp add: k_fd_def fun_eq_iff)
  then show ?thesis using assms by (simp add: fds_ok_iff)
qed

subsection \<open>The poll driver loses no event\<close>

definition to_poll :: "vk_fd \<Rightarrow> bool" where
  "to_poll slot \<longleftrightarrow> keeps_slot slot \<and> \<not> fd_closed slot \<and> ev_events (ioft_event (ioft_pre slot)) \<noteq> 0"

abbreviation asks :: "kern_world \<Rightarrow> size_t \<Rightarrow> pollfd" where
  "asks k i \<equiv> ioft_event (ioft_pre (k_fd k i))"

lemma register_fd_ok:
  assumes ok: "fds_ok k" and room: "length (poll_fds (k_table k)) < VK_FD_MAX"
  shows "\<exists>k'. poll_register_fd i k = Some k' \<and> fds_ok k' \<and> k_kern k' = k_kern k \<and>
    table_size (k_table k') = table_size (k_table k) \<and>
    poll_fds (k_table k') = poll_fds (k_table k) @ (if to_poll (k_fd k i) then [asks k i] else []) \<and>
    (to_poll (k_fd k i) \<longrightarrow> ioft_pre (k_fd k' i) = ioft_pre (k_fd k i) \<and>
      dirty_fds (k_table k') = dirty_fds (k_table k)) \<and>
    (\<forall>j. j \<noteq> i \<longrightarrow> k_fd k' j = k_fd k j \<and>
      (j \<in> set (dirty_fds (k_table k')) \<longleftrightarrow> j \<in> set (dirty_fds (k_table k))))"
proof -
  obtain k1 where k1: "vk_fd_table_clean_fd i k = Some k1" "fds_ok k1" "other_fds i k k1"
    "\<not> keeps_slot (k_fd k i) \<Longrightarrow> fd_closed (k_fd k1 i)"
    using clean_fd_ok [OF ok, of i] by blast
  have same: "keeps_slot (k_fd k i) \<Longrightarrow> k1 = k" using clean_fd_keeps [of k i] k1(1) by simp
  have cond: "(length (poll_fds (k_table k1)) < VK_FD_MAX \<and> \<not> fd_closed (k_fd k1 i) \<and>
      ev_events (ioft_event (ioft_pre (k_fd k1 i))) \<noteq> 0) = to_poll (k_fd k i)"
    using room k1 same by (cases "keeps_slot (k_fd k i)") (simp_all add: to_poll_def)
  show ?thesis
  proof (cases "to_poll (k_fd k i)")
    case True
    then have k1k: "k1 = k" using same by (simp add: to_poll_def)
    define k2 where "k2 = upd_fd i (ioft_post_update (\<lambda>_. ioft_pre (k_fd k i))) k"
    define k' where "k' = upd_table (poll_fds_update (\<lambda>ps. ps @ [asks k i])) k2"
    have step: "poll_register_fd i k = Some k'"
      using k1(1) cond True unfolding k1k k'_def k2_def by (simp add: poll_register_fd_def Let_def)
    have ok2: "fds_ok k2" using ok by (simp add: k2_def fds_ok_upd_fd)
    have same': "k_fd k' = k_fd k2" "dirty_fds (k_table k') = dirty_fds (k_table k2)"
      "fresh_fds (k_table k') = fresh_fds (k_table k2)" by (simp_all add: k'_def)
    have "fds_ok k'" using ok2 unfolding fds_ok_iff same' .
    then show ?thesis unfolding step using True by (auto simp: k'_def k2_def)
  next
    case False
    then have "poll_register_fd i k = Some k1" using k1(1) cond by (auto simp: poll_register_fd_def Let_def)
    then show ?thesis using False k1 by (simp add: other_fds_def)
  qed
qed

lemma poll_register_ok:
  assumes "fds_ok k" "distinct is" "length (poll_fds (k_table k)) + length is \<le> VK_FD_MAX"
  shows "\<exists>k'. poll_register is k = Some k' \<and> fds_ok k' \<and> k_kern k' = k_kern k \<and>
    table_size (k_table k') = table_size (k_table k) \<and>
    poll_fds (k_table k') = poll_fds (k_table k) @ map (asks k) (filter (\<lambda>i. to_poll (k_fd k i)) is) \<and>
    (\<forall>i. i \<notin> set is \<or> to_poll (k_fd k i) \<longrightarrow> ioft_pre (k_fd k' i) = ioft_pre (k_fd k i) \<and>
      (i \<in> set (dirty_fds (k_table k')) \<longleftrightarrow> i \<in> set (dirty_fds (k_table k))))"
  using assms
proof (induction "is" arbitrary: k)
  case Nil
  then show ?case by simp
next
  case (Cons i "is")
  obtain k1 where k1: "poll_register_fd i k = Some k1" "fds_ok k1" "k_kern k1 = k_kern k"
    "table_size (k_table k1) = table_size (k_table k)"
    "poll_fds (k_table k1) = poll_fds (k_table k) @ (if to_poll (k_fd k i) then [asks k i] else [])"
    "to_poll (k_fd k i) \<Longrightarrow> ioft_pre (k_fd k1 i) = ioft_pre (k_fd k i) \<and>
      dirty_fds (k_table k1) = dirty_fds (k_table k)"
    "\<And>j. j \<noteq> i \<Longrightarrow> k_fd k1 j = k_fd k j \<and>
      (j \<in> set (dirty_fds (k_table k1)) \<longleftrightarrow> j \<in> set (dirty_fds (k_table k)))"
    using register_fd_ok [OF Cons.prems(1), of i] Cons.prems(3) by auto
  have rest: "\<And>j. j \<in> set is \<Longrightarrow> k_fd k1 j = k_fd k j" using k1(7) Cons.prems(2) by fastforce
  have flt: "map (asks k1) (filter (\<lambda>i. to_poll (k_fd k1 i)) is) = map (asks k) (filter (\<lambda>i. to_poll (k_fd k i)) is)"
    using rest by (auto intro!: map_cong filter_cong)
  have len: "length (poll_fds (k_table k1)) + length is \<le> VK_FD_MAX" using k1(5) Cons.prems(3) by simp
  from Cons.IH [OF k1(2) _ len] Cons.prems(2) obtain k' where k': "poll_register is k1 = Some k'" "fds_ok k'"
    "k_kern k' = k_kern k1" "table_size (k_table k') = table_size (k_table k1)"
    "poll_fds (k_table k') = poll_fds (k_table k1) @ map (asks k1) (filter (\<lambda>i. to_poll (k_fd k1 i)) is)"
    "\<And>j. j \<notin> set is \<or> to_poll (k_fd k1 j) \<Longrightarrow> ioft_pre (k_fd k' j) = ioft_pre (k_fd k1 j) \<and>
      (j \<in> set (dirty_fds (k_table k')) \<longleftrightarrow> j \<in> set (dirty_fds (k_table k1)))"
    by auto
  have "ioft_pre (k_fd k' j) = ioft_pre (k_fd k j) \<and>
      (j \<in> set (dirty_fds (k_table k')) \<longleftrightarrow> j \<in> set (dirty_fds (k_table k)))"
    if "j \<notin> set (i # is) \<or> to_poll (k_fd k j)" for j
    using that k'(6) [of j] k1(6) k1(7) [of j] Cons.prems(2) by (cases "j = i") auto
  then show ?case using k1 k'(1-5) flt by auto
qed

definition slot_of :: "pollfd \<Rightarrow> size_t" where
  "slot_of p = of_int (ev_fd p)"

lemma poll_process_ok:
  assumes "fds_ok k" "distinct (map slot_of ps)" "\<forall>p \<in> set ps. vk_fd_table_get k (ev_fd p) \<noteq> None"
  shows "\<exists>k'. poll_process ps k = Some (0, k') \<and> fds_ok k' \<and> poll_fds (k_table k') = poll_fds (k_table k) \<and>
    k_kern k' = k_kern k \<and>
    (\<forall>p \<in> set ps. (ev_revents p \<noteq> 0 \<longrightarrow> slot_of p \<in> set (fresh_fds (k_table k'))) \<and>
      ioft_event (ioft_ret (k_fd k' (slot_of p))) = p \<and>
      (ev_events (asks k (slot_of p)) AND ev_revents p \<noteq> ev_events (asks k (slot_of p)) \<longrightarrow>
        slot_of p \<in> set (dirty_fds (k_table k)) \<longrightarrow> slot_of p \<in> set (dirty_fds (k_table k')))) \<and>
    (\<forall>j. j \<notin> slot_of ` set ps \<longrightarrow> k_fd k' j = k_fd k j \<and>
      (j \<in> set (fresh_fds (k_table k')) \<longleftrightarrow> j \<in> set (fresh_fds (k_table k))) \<and>
      (j \<in> set (dirty_fds (k_table k')) \<longleftrightarrow> j \<in> set (dirty_fds (k_table k))))"
  using assms
proof (induction ps arbitrary: k)
  case Nil
  then show ?case by simp
next
  case (Cons p ps)
  let ?i = "slot_of p"
  define k0 where "k0 = upd_fd ?i (ioft_post_update (ioft_event_update (\<lambda>_. p))) k"
  have ok0: "fds_ok k0" using Cons.prems(1) by (simp add: k0_def fds_ok_upd_fd)
  have slot: "vk_fd_table_get k (ev_fd p) = Some ?i"
    using Cons.prems(3) by (auto simp: vk_fd_table_get_def slot_of_def split: if_splits)
  obtain k1 where k1: "vk_fd_table_process_fd ?i k0 = Some k1" "fds_ok k1" "other_fds ?i k0 k1"
    "ev_revents p \<noteq> 0 \<Longrightarrow> ?i \<in> set (fresh_fds (k_table k1))" "ioft_event (ioft_ret (k_fd k1 ?i)) = p"
    "ev_events (asks k ?i) AND ev_revents p \<noteq> ev_events (asks k ?i) \<Longrightarrow>
      dirty_fds (k_table k1) = dirty_fds (k_table k)"
    using process_fd_ok [OF ok0, of ?i] by (auto simp: k0_def)
  have o1: "other_fds ?i k k1" using k1(3) by (simp add: k0_def other_fds_def)
  have get: "\<forall>p \<in> set ps. vk_fd_table_get k1 (ev_fd p) \<noteq> None"
    using Cons.prems(3) o1 by (auto simp: vk_fd_table_get_def other_fds_def)
  have notin: "?i \<notin> slot_of ` set ps" using Cons.prems(2) by simp
  from Cons.IH [OF k1(2) _ get] Cons.prems(2) obtain k' where k': "poll_process ps k1 = Some (0, k')" "fds_ok k'"
    "poll_fds (k_table k') = poll_fds (k_table k1)" "k_kern k' = k_kern k1"
    "\<And>q. q \<in> set ps \<Longrightarrow> (ev_revents q \<noteq> 0 \<longrightarrow> slot_of q \<in> set (fresh_fds (k_table k'))) \<and>
      ioft_event (ioft_ret (k_fd k' (slot_of q))) = q \<and>
      (ev_events (asks k1 (slot_of q)) AND ev_revents q \<noteq> ev_events (asks k1 (slot_of q)) \<longrightarrow>
        slot_of q \<in> set (dirty_fds (k_table k1)) \<longrightarrow> slot_of q \<in> set (dirty_fds (k_table k')))"
    "\<And>j. j \<notin> slot_of ` set ps \<Longrightarrow> k_fd k' j = k_fd k1 j \<and>
      (j \<in> set (fresh_fds (k_table k')) \<longleftrightarrow> j \<in> set (fresh_fds (k_table k1))) \<and>
      (j \<in> set (dirty_fds (k_table k')) \<longleftrightarrow> j \<in> set (dirty_fds (k_table k1)))"
    by auto
  have step: "poll_process (p # ps) k = Some (0, k')"
    using slot k1(1) k'(1) by (simp add: k0_def [symmetric])
  have old: "slot_of q \<noteq> ?i" if "q \<in> set ps" for q using notin that by (metis imageI)
  show ?case
    unfolding step using k'(2-4) k'(5,6) o1 k1(4-6) notin old
    by (simp add: other_fds_def)
qed

lemma wait_loop_ok:
  "wait_loop nothing calls k = (w, k') \<Longrightarrow> k_table k' = k_table k \<and>
   (\<forall>es. w = Wait_Events es \<longrightarrow> \<not> nothing es \<and> (\<exists>s1 s2. (s1, Inr es, s2) \<in> set calls))"
proof (induction calls arbitrary: k)
  case Nil
  then show ?case by auto
next
  case (Cons c calls)
  obtain s1 res s2 where c: "c = (s1, res, s2)" by (cases c)
  let ?k = "vk_kern_receive_signal s2 (vk_kern_receive_signal s1 k)"
  have "wait_loop nothing (c # calls) k = wait_loop nothing calls ?k \<or>
      (\<exists>es. res = Inr es \<and> \<not> nothing es \<and> wait_loop nothing (c # calls) k = (Wait_Events es, ?k)) \<or>
      (\<exists>e. wait_loop nothing (c # calls) k = (Wait_Error e, ?k\<lparr>k_errno := e\<rparr>))"
    by (simp add: c Let_def split: sum.split)
  then show ?case
  proof (elim disjE exE conjE)
    assume "wait_loop nothing (c # calls) k = wait_loop nothing calls ?k"
    with Cons.IH [of ?k] Cons.prems show ?thesis by (auto intro: exI [of _ s1]) blast+
  next
    fix es
    assume "res = Inr es" "\<not> nothing es" "wait_loop nothing (c # calls) k = (Wait_Events es, ?k)"
    then show ?thesis using Cons.prems by (auto simp: c)
  next
    fix e
    assume "wait_loop nothing (c # calls) k = (Wait_Error e, ?k\<lparr>k_errno := e\<rparr>)"
    then show ?thesis using Cons.prems by auto
  qed
qed

definition named_slots :: "kern_world \<Rightarrow> bool" where
  "named_slots k \<longleftrightarrow> (\<forall>i \<in> set (dirty_fds (k_table k)). vk_fd_table_get k (ev_fd (asks k i)) = Some i)"

definition polled_count :: "kern_world \<Rightarrow> nat" where
  "polled_count k = length (filter (\<lambda>i. to_poll (k_fd k i)) (dirty_fds (k_table k)))"

definition answers :: "nat \<Rightarrow> 'e wait_call list \<Rightarrow> bool" where
  "answers n calls \<longleftrightarrow> (\<forall>s1 es s2. (s1, Inr es, s2) \<in> set calls \<longrightarrow> length es = n)"

definition reported :: "kern_world \<Rightarrow> size_t \<Rightarrow> kern_world \<Rightarrow> pollfd \<Rightarrow> bool" where
  "reported k i k' p \<longleftrightarrow>
     ev_fd p = ev_fd (asks k i) \<and> ev_events p = ev_events (asks k i) \<and>
     ioft_event (ioft_ret (k_fd k' i)) = p \<and>
     (ev_revents p \<noteq> 0 \<longrightarrow> i \<in> set (fresh_fds (k_table k'))) \<and>
     (ev_events p AND ev_revents p \<noteq> ev_events p \<longrightarrow> i \<in> set (dirty_fds (k_table k')))"

lemma poll_process_reports:
  assumes ok: "fds_ok k" and nm: "named_slots k0" and sub: "set is \<subseteq> set (dirty_fds (k_table k0))" "distinct is"
    and same: "\<And>i. i \<in> set is \<Longrightarrow> ioft_pre (k_fd k i) = ioft_pre (k_fd k0 i) \<and> i \<in> set (dirty_fds (k_table k))"
      "table_size (k_table k) = table_size (k_table k0)"
    and len: "length rs = length is"
    and ps: "ps = map2 (\<lambda>p r. p\<lparr>ev_revents := r\<rparr>) (map (asks k0) is) rs"
  shows "\<exists>k'. poll_process ps k = Some (0, k') \<and> fds_ok k' \<and> poll_fds (k_table k') = poll_fds (k_table k) \<and>
    (\<forall>i \<in> set is. \<exists>p \<in> set ps. reported k0 i k' p)"
proof -
  have nth: "ps ! n = (asks k0 (is ! n))\<lparr>ev_revents := rs ! n\<rparr>" if "n < length is" for n
    using that len by (simp add: ps)
  have lps: "length ps = length is" using len by (simp add: ps)
  have get: "vk_fd_table_get k0 (ev_fd (asks k0 i)) = Some i" if "i \<in> set is" for i
    using nm sub that by (auto simp: named_slots_def)
  have slot: "slot_of (ps ! n) = is ! n" if "n < length is" for n
    using get [of "is ! n"] that by (simp add: nth slot_of_def vk_fd_table_get_def split: if_splits)
  have slots: "map slot_of ps = is" using slot lps by (simp add: list_eq_iff_nth_eq)
  have ex: "\<forall>p \<in> set ps. vk_fd_table_get k (ev_fd p) \<noteq> None"
  proof
    fix p assume "p \<in> set ps"
    then obtain n where n: "n < length is" "p = ps ! n" using lps by (metis in_set_conv_nth)
    show "vk_fd_table_get k (ev_fd p) \<noteq> None"
      using get [of "is ! n"] n same(2) by (simp add: nth vk_fd_table_get_def split: if_splits)
  qed
  obtain k' where k': "poll_process ps k = Some (0, k')" "fds_ok k'" "poll_fds (k_table k') = poll_fds (k_table k)"
    "\<And>p. p \<in> set ps \<Longrightarrow> (ev_revents p \<noteq> 0 \<longrightarrow> slot_of p \<in> set (fresh_fds (k_table k'))) \<and>
      ioft_event (ioft_ret (k_fd k' (slot_of p))) = p \<and>
      (ev_events (asks k (slot_of p)) AND ev_revents p \<noteq> ev_events (asks k (slot_of p)) \<longrightarrow>
        slot_of p \<in> set (dirty_fds (k_table k)) \<longrightarrow> slot_of p \<in> set (dirty_fds (k_table k')))"
    using poll_process_ok [OF ok _ ex] slots sub(2) by auto
  have "\<exists>p \<in> set ps. reported k0 i k' p" if i: "i \<in> set is" for i
  proof -
    obtain n where n: "n < length is" "i = is ! n" using i by (metis in_set_conv_nth)
    have p: "ps ! n \<in> set ps" using n lps by simp
    have pn: "ps ! n = (asks k0 i)\<lparr>ev_revents := rs ! n\<rparr>" using nth n by simp
    have "reported k0 i k' (ps ! n)"
      using k'(4) [OF p] same(1) [OF i] unfolding slot [OF n(1)] n(2) [symmetric]
      by (simp add: reported_def pn)
    then show ?thesis using p by blast
  qed
  then show ?thesis using k'(1-3) by blast
qed

text \<open>C17: The poll driver never corrupts the queues of slots and never loses an event: every
  slot that asked for events is polled for them, what \<open>poll\<close> reported for it is what the slot
  hands on, it is queued for dispatch if anything was reported, and it stays registered unless
  all that it asked for was reported. A call that reports events ends the wait.\<close>

theorem poll_driver_delivers:
  assumes "fds_ok k" "named_slots k" "length (dirty_fds (k_table k)) \<le> VK_FD_MAX"
    "answers (polled_count k) calls"
  shows "\<exists>rc k'. vk_fd_table_poll calls k = Some (rc, k') \<and> fds_ok k' \<and>
    (\<forall>s1 rs s2 cs. calls = (s1, Inr rs, s2) # cs \<longrightarrow> \<not> list_all (\<lambda>r. r = 0) rs \<longrightarrow> rc = Some 0) \<and>
    (vk_kern_pending k \<longrightarrow> rc = Some 0 \<longrightarrow>
      (\<forall>i \<in> set (dirty_fds (k_table k)). to_poll (k_fd k i) \<longrightarrow>
        (\<exists>p \<in> set (poll_fds (k_table k')). reported k i k' p)))"
proof -
  let ?k0 = "upd_table (poll_fds_update (\<lambda>_. [])) k"
  let ?is = "filter (\<lambda>i. to_poll (k_fd k i)) (dirty_fds (k_table k))"
  have ok0: "fds_ok ?k0" using assms(1) by (simp add: fds_ok_iff)
  have dist: "distinct (dirty_fds (k_table k))" using assms(1) by (simp add: fds_ok_iff)
  obtain k1 where k1: "poll_register (dirty_fds (k_table k)) ?k0 = Some k1" "fds_ok k1" "k_kern k1 = k_kern k"
    "table_size (k_table k1) = table_size (k_table k)" "poll_fds (k_table k1) = map (asks k) ?is"
    "\<And>i. to_poll (k_fd k i) \<Longrightarrow> ioft_pre (k_fd k1 i) = ioft_pre (k_fd k i) \<and>
      (i \<in> set (dirty_fds (k_table k1)) \<longleftrightarrow> i \<in> set (dirty_fds (k_table k)))"
    using poll_register_ok [OF ok0 dist] assms(3) by auto
  have pend: "vk_kern_pending k1 = vk_kern_pending k" using k1(3) by (simp add: vk_kern_pending_def)
  obtain w k2 where w: "wait_loop (list_all (\<lambda>r. r = 0)) calls k1 = (w, k2)" by fastforce
  note wl = wait_loop_ok [OF w]
  have ok2: "fds_ok k2" using wl k1(2) fds_ok_table [of k2 k1] by simp
  show ?thesis
  proof (cases "vk_kern_pending k \<and> (\<exists>rs. w = Wait_Events rs)")
    case False
    then show ?thesis using k1 pend w ok2 by (cases w) (auto simp: vk_fd_table_poll_def Let_def split: if_splits)
  next
    case True
    then obtain rs where rs: "w = Wait_Events rs" by blast
    let ?ps = "map2 (\<lambda>p r. p\<lparr>ev_revents := r\<rparr>) (map (asks k) ?is) rs"
    let ?k3 = "upd_table (poll_fds_update (\<lambda>_. ?ps)) k2"
    have tb: "k_table k2 = k_table k1" "k_fd k2 = k_fd k1" using wl by (simp_all add: k_fd_def fun_eq_iff)
    have len: "length rs = length ?is"
      using wl assms(4) rs by (auto simp: answers_def polled_count_def)
    have ok3: "fds_ok ?k3" using ok2 by (simp add: fds_ok_iff)
    obtain k' where k': "poll_process ?ps ?k3 = Some (0, k')" "fds_ok k'" "poll_fds (k_table k') = ?ps"
      "\<forall>i \<in> set ?is. \<exists>p \<in> set ?ps. reported k i k' p"
      using poll_process_reports [OF ok3 assms(2) _ _ _ _ len refl] dist k1(4,6) tb by auto
    have "vk_fd_table_poll calls k = Some (Some 0, k')"
      using True k1(1) pend w rs k'(1) k1(5) tb by (simp add: vk_fd_table_poll_def)
    then show ?thesis using k' by auto
  qed
qed

definition idle_fd :: vk_fd where
  "idle_fd = \<lparr>fd_num = 0, fd_proc_id = 0, fd_closed = False, fd_zombie = False, fd_added = False,
     fd_allocated = False, dirty_qed = False, fresh_qed = False, ioft_post = vk_io_future_init 0,
     ioft_pre = vk_io_future_init 0, ioft_ret = vk_io_future_init 0\<rparr>"

definition idle_proc :: vk_proc where
  "idle_proc = \<lparr>proc_id = 0, proc_pool_entry_id = 0, proc_pooled = False, run_qed = False,
     blocked_qed = False, allocated_fds = [], has_local = True, proc_heap = closed_heap,
     privileged = True, isolated = False\<rparr>"

text \<open>Process \<open>7\<close> waits to read descriptor \<open>3\<close>.\<close>

definition waiting_kern :: kern_world where
  "waiting_kern =
     \<lparr>k_table = \<lparr>table_size = 16384, dirty_fds = [3], fresh_fds = [], poll_driver = VK_POLL_DRIVER_POLL,
        poll_method = VK_POLL_METHOD_LEVEL_TRIGGERED_ONESHOT,
        table_fds = (\<lambda>_. idle_fd)(3 := idle_fd\<lparr>fd_num := 3, fd_proc_id := 7, fd_allocated := True,
          dirty_qed := True, ioft_pre := (vk_io_future_init 0)\<lparr>ioft_event :=
            \<lparr>ev_fd = 3, ev_events = POLLIN, ev_revents = 0\<rparr>\<rparr>\<rparr>),
        poll_fds = [], epoll_fd = None\<rparr>,
      k_proc = (\<lambda>_. idle_proc)(7 := idle_proc\<lparr>proc_id := 7, blocked_qed := True, allocated_fds := [3]\<rparr>),
      k_kern = \<lparr>kern_hd = closed_heap, run_procs = [], blocked_procs = [7], kern_rc = 0, shutdown_requested = False,
                proc_pool = blank_pool, kern_iso = False\<rparr>,
      k_local = (\<lambda>_. idle_world), k_pool = blank_pool, k_prot = (\<lambda>_. PROT_NONE),
      k_kern_prot = PROT_NONE, k_errno = 0\<rparr>"

lemma waiting_kern_fd:
  "k_fd waiting_kern 3 = idle_fd\<lparr>fd_num := 3, fd_proc_id := 7, fd_allocated := True,
     dirty_qed := True, ioft_pre := (vk_io_future_init 0)\<lparr>ioft_event :=
       \<lparr>ev_fd = 3, ev_events = POLLIN, ev_revents = 0\<rparr>\<rparr>\<rparr>"
  "i \<noteq> 3 \<Longrightarrow> k_fd waiting_kern i = idle_fd"
  "dirty_fds (k_table waiting_kern) = [3]" "fresh_fds (k_table waiting_kern) = []"
  "table_size (k_table waiting_kern) = 16384" "vk_kern_pending waiting_kern"
  by (simp_all add: waiting_kern_def k_fd_def vk_kern_pending_def)

lemma waiting_kern_ok: "fds_ok waiting_kern" "to_poll (k_fd waiting_kern 3)"
proof -
  have "dirty_qed (k_fd waiting_kern i) = (i = 3)" "\<not> fresh_qed (k_fd waiting_kern i)" for i
    by (cases "i = 3"; simp add: waiting_kern_fd idle_fd_def)+
  then show "fds_ok waiting_kern" by (simp add: fds_ok_iff waiting_kern_fd)
  show "to_poll (k_fd waiting_kern 3)"
    by (simp add: waiting_kern_fd to_poll_def keeps_slot_def idle_fd_def vk_io_future_init_def POLLIN_def)
qed

theorem poll_driver_delivers_witness:
  "\<exists>k' p. vk_fd_table_poll [(0, Inr [POLLIN], 0)] waiting_kern = Some (Some 0, k') \<and>
     reported waiting_kern 3 k' p"
proof -
  let ?calls = "[(0, Inr [POLLIN], 0)] :: events wait_call list"
  have "named_slots waiting_kern"
    by (simp add: named_slots_def waiting_kern_fd vk_fd_table_get_def)
  moreover have "polled_count waiting_kern = 1"
    using waiting_kern_ok(2) by (simp add: polled_count_def waiting_kern_fd(3))
  ultimately show ?thesis
    using poll_driver_delivers [of waiting_kern ?calls] waiting_kern_ok waiting_kern_fd
    by (auto simp: answers_def VK_FD_MAX_def POLLIN_def)
qed

subsection \<open>Registration with epoll\<close>

definition wanted_epoll :: "events \<Rightarrow> 32 word" where
  "wanted_epoll want =
     (if want AND POLLIN \<noteq> 0 then EPOLLIN OR EPOLLONESHOT
      else if want AND POLLOUT \<noteq> 0 then EPOLLOUT OR EPOLLONESHOT else 0)"

text \<open>The system call a slot gives rise to, if any.\<close>

definition call_for :: "vk_poll_method \<Rightarrow> vk_fd \<Rightarrow> epoll_call option" where
  "call_for m slot =
     (if fd_closed slot then None
      else case m of
        VK_POLL_METHOD_EDGE_TRIGGERED \<Rightarrow>
          if fd_added slot then None
          else Some \<lparr>ep_op = EPOLL_CTL_ADD, ep_fd = fd_num slot,
                     ep_events = EPOLLIN OR EPOLLOUT OR EPOLLRDHUP OR EPOLLET\<rparr>
      | VK_POLL_METHOD_LEVEL_TRIGGERED_ONESHOT \<Rightarrow>
          Some \<lparr>ep_op = (if fd_added slot then EPOLL_CTL_MOD else EPOLL_CTL_ADD), ep_fd = fd_num slot,
                ep_events = wanted_epoll (ev_events (ioft_event (ioft_pre slot)))\<rparr>)"

lemma k_fd_upd_errno: "k_table (k\<lparr>k_errno := e\<rparr>) = k_table k" by simp

lemma register_fd_step:
  assumes ok: "fds_ok k" and reg: "register_fd ctl log i k = (rc, log', k')"
  shows "fds_ok k' \<and> poll_method (k_table k') = poll_method (k_table k) \<and>
    dirty_fds (k_table k') = dirty_fds (k_table k) \<and> (\<forall>j. j \<noteq> i \<longrightarrow> k_fd k' j = k_fd k j) \<and>
    fd_zombie (k_fd k' i) = fd_zombie (k_fd k i) \<and>
    (case call_for (poll_method (k_table k)) (k_fd k i) of
       None \<Rightarrow> rc = 0 \<and> log' = log \<and> fd_added (k_fd k' i) = fd_added (k_fd k i)
     | Some call \<Rightarrow> log' = log @ [call] \<and> rc = (if ctl log call = None then 0 else - 1) \<and>
         (rc = 0 \<longrightarrow> fd_added (k_fd k' i) \<and> ioft_post (k_fd k' i) = ioft_pre (k_fd k i)))"
proof -
  have ok': "fds_ok (k1\<lparr>k_errno := e\<rparr>) = fds_ok k1" for k1 e by (rule fds_ok_table) simp
  show ?thesis
  proof (cases "poll_method (k_table k)")
    case VK_POLL_METHOD_LEVEL_TRIGGERED_ONESHOT
    then show ?thesis using reg ok
      by (auto simp: register_fd_def register_oneshot_fd_def Let_def call_for_def ok' fds_ok_upd_fd wanted_epoll_def
          split: if_splits option.splits)
  next
    case VK_POLL_METHOD_EDGE_TRIGGERED
    then show ?thesis using reg ok
      by (auto simp: register_fd_def register_edge_fd_def Let_def call_for_def ok' fds_ok_upd_fd
          split: if_splits option.splits)
  qed
qed

lemma dequeue_dirty_ok:
  assumes "fds_ok k" "dirty_fds (k_table k) = i # q"
  shows "\<exists>k1. vk_fd_table_dequeue_dirty k = Some (i, k1) \<and> fds_ok k1 \<and> dirty_fds (k_table k1) = q \<and>
    poll_method (k_table k1) = poll_method (k_table k) \<and>
    (\<forall>j. j \<noteq> i \<longrightarrow> k_fd k1 j = k_fd k j) \<and> k_fd k1 i = (k_fd k i)\<lparr>dirty_qed := False\<rparr>"
  using assms
  by (auto simp: vk_fd_table_dequeue_dirty_def fds_ok_iff)

lemma call_for_qed [simp]: "call_for m (slot\<lparr>dirty_qed := b\<rparr>) = call_for m slot"
  by (cases m) (simp_all add: call_for_def)

lemma call_for_fd: "call_for m slot = Some call \<Longrightarrow> ep_fd call = fd_num slot"
  by (auto simp: call_for_def split: vk_poll_method.splits if_splits)

lemma wanted_epoll_in: "wanted_epoll POLLIN = EPOLLIN OR EPOLLONESHOT"
  by (simp add: wanted_epoll_def poll_defs)

lemma epoll_register_ok:
  assumes "fds_ok k" "epoll_register ctl log k = (rc, log', k')"
  shows "fds_ok k' \<and> poll_method (k_table k') = poll_method (k_table k) \<and>
    (rc = 0 \<longrightarrow> dirty_fds (k_table k') = [] \<and>
      log' = log @ List.map_filter (\<lambda>i. call_for (poll_method (k_table k)) (k_fd k i)) (dirty_fds (k_table k)) \<and>
      (\<forall>i. (i \<in> set (dirty_fds (k_table k)) \<and> \<not> fd_closed (k_fd k i) \<longrightarrow> fd_added (k_fd k' i)) \<and>
        (i \<in> set (dirty_fds (k_table k)) \<longrightarrow> call_for (poll_method (k_table k)) (k_fd k i) \<noteq> None \<longrightarrow>
          ioft_post (k_fd k' i) = ioft_pre (k_fd k i)) \<and>
        (i \<notin> set (dirty_fds (k_table k)) \<longrightarrow> k_fd k' i = k_fd k i))) \<and>
    (rc \<noteq> 0 \<longrightarrow> rc = - 1 \<and> (\<exists>i \<in> set (dirty_fds (k_table k)). \<exists>log call.
      call_for (poll_method (k_table k)) (k_fd k i) = Some call \<and> ctl log call \<noteq> None))"
  using assms
proof (induction "dirty_fds (k_table k)" arbitrary: k log)
  case Nil
  then have "vk_fd_table_dequeue_dirty k = None" by (simp add: vk_fd_table_dequeue_dirty_def)
  then show ?case using Nil by (simp add: epoll_register.simps [of ctl log k] List.map_filter_simps)
next
  case (Cons i q)
  note dq = Cons.hyps(2) [symmetric]
  obtain k1 where k1: "vk_fd_table_dequeue_dirty k = Some (i, k1)" "fds_ok k1" "dirty_fds (k_table k1) = q"
    "poll_method (k_table k1) = poll_method (k_table k)"
    "\<And>j. j \<noteq> i \<Longrightarrow> k_fd k1 j = k_fd k j" "k_fd k1 i = (k_fd k i)\<lparr>dirty_qed := False\<rparr>"
    using dequeue_dirty_ok [OF Cons.prems(1) dq] by blast
  obtain rc1 log1 k2 where reg: "register_fd ctl log i k1 = (rc1, log1, k2)" by (metis prod.exhaust)
  note st = register_fd_step [OF k1(2) reg, unfolded k1 call_for_qed]
  have i: "i \<notin> set q" using Cons.prems(1) dq by (simp add: fds_ok_iff)
  show ?case
  proof (cases "rc1 = - 1")
    case True
    then have res: "(rc, log', k') = (- 1, log1, k2)"
      using Cons.prems(2) k1(1) reg by (simp add: epoll_register.simps [of ctl log k])
    obtain call where call: "call_for (poll_method (k_table k)) (k_fd k i) = Some call" "ctl log call \<noteq> None"
      using st True by (auto split: option.splits if_splits)
    show ?thesis using res st call dq by auto
  next
    case False
    then have rest: "epoll_register ctl log1 k2 = (rc, log', k')"
      using Cons.prems(2) k1(1) reg by (simp add: epoll_register.simps [of ctl log k])
    have q: "q = dirty_fds (k_table k2)" and m: "poll_method (k_table k2) = poll_method (k_table k)"
      and ok2: "fds_ok k2" using st by auto
    note ih = Cons.hyps(1) [OF q ok2 rest, folded q, unfolded m]
    have same: "\<And>j. j \<in> set q \<Longrightarrow> k_fd k2 j = k_fd k j" using st k1(5) i by metis
    have flt: "List.map_filter (\<lambda>i. call_for (poll_method (k_table k)) (k_fd k2 i)) q =
        List.map_filter (\<lambda>i. call_for (poll_method (k_table k)) (k_fd k i)) q"
      using same by (auto simp: List.map_filter_def intro!: map_cong filter_cong)
    have log1: "log1 = log @ (case call_for (poll_method (k_table k)) (k_fd k i) of None \<Rightarrow> [] | Some c \<Rightarrow> [c])"
      using st by (auto split: option.splits)
    have ki: "rc = 0 \<Longrightarrow> k_fd k' i = k_fd k2 i" using ih i by blast
    have added: "\<not> fd_closed (k_fd k i) \<Longrightarrow> fd_added (k_fd k2 i)"
      using st False by (auto simp: call_for_def split: option.splits if_splits vk_poll_method.splits)
    have post: "call_for (poll_method (k_table k)) (k_fd k i) \<noteq> None \<Longrightarrow> ioft_post (k_fd k2 i) = ioft_pre (k_fd k i)"
      using st False by (auto split: option.splits if_splits)
    have mf: "List.map_filter (\<lambda>i. call_for (poll_method (k_table k)) (k_fd k i)) (i # q) =
        (case call_for (poll_method (k_table k)) (k_fd k i) of None \<Rightarrow> [] | Some c \<Rightarrow> [c]) @
        List.map_filter (\<lambda>i. call_for (poll_method (k_table k)) (k_fd k i)) q"
      by (simp add: List.map_filter_simps split: option.split)
    have "k_fd k' j = k_fd k j" if "rc = 0" "j \<notin> set (i # q)" for j
      using that ih st k1(5) by auto
    moreover have "(\<not> fd_closed (k_fd k j) \<longrightarrow> fd_added (k_fd k' j)) \<and>
        (call_for (poll_method (k_table k)) (k_fd k j) \<noteq> None \<longrightarrow> ioft_post (k_fd k' j) = ioft_pre (k_fd k j))"
      if "rc = 0" "j \<in> set (i # q)" for j
      using that ih same [of j] ki added post by (cases "j = i") auto
    moreover have "rc \<noteq> 0 \<Longrightarrow> rc = - 1 \<and> (\<exists>i \<in> set (i # q). \<exists>log call.
        call_for (poll_method (k_table k)) (k_fd k i) = Some call \<and> ctl log call \<noteq> None)"
      using ih same by (metis list.set_intros(2))
    ultimately show ?thesis unfolding dq mf using ih log1 flt by auto
  qed
qed

text \<open>C33: Registration with epoll drains the queue of slots and makes, in the order of the queue, exactly
  one system call for each slot that needs one: in one-shot mode every slot that is not closed,
  to be told once of the one direction it waits for; in edge-triggered mode a slot not added
  before. Afterwards every slot that is not closed is known to epoll. It fails only where a
  system call was refused.\<close>

theorem epoll_registers_all:
  assumes "fds_ok k" "epoll_register ctl [] k = (rc, log, k')"
  shows "if rc = 0
    then log = List.map_filter (\<lambda>i. call_for (poll_method (k_table k)) (k_fd k i)) (dirty_fds (k_table k)) \<and>
      dirty_fds (k_table k') = [] \<and> fds_ok k' \<and>
      (\<forall>i \<in> set (dirty_fds (k_table k)). \<not> fd_closed (k_fd k i) \<longrightarrow> fd_added (k_fd k' i))
    else rc = - 1 \<and> (\<exists>i \<in> set (dirty_fds (k_table k)). \<exists>log call.
      call_for (poll_method (k_table k)) (k_fd k i) = Some call \<and> ctl log call \<noteq> None)"
  using epoll_register_ok [OF assms] by auto

theorem epoll_registers_all_witness:
  "\<exists>k'. epoll_register (\<lambda>_ _. None) [] waiting_kern =
     (0, [\<lparr>ep_op = EPOLL_CTL_ADD, ep_fd = 3, ep_events = EPOLLIN OR EPOLLONESHOT\<rparr>], k') \<and>
     fd_added (k_fd k' 3)"
proof -
  obtain rc log k' where reg: "epoll_register (\<lambda>_ _. None) [] waiting_kern = (rc, log, k')"
    by (metis prod.exhaust)
  have call: "call_for (poll_method (k_table waiting_kern)) (k_fd waiting_kern 3) =
      Some \<lparr>ep_op = EPOLL_CTL_ADD, ep_fd = 3, ep_events = EPOLLIN OR EPOLLONESHOT\<rparr>"
    by (simp add: call_for_def waiting_kern_fd idle_fd_def) (simp add: waiting_kern_def wanted_epoll_in)
  from epoll_registers_all [OF waiting_kern_ok(1) reg] call reg show ?thesis
    by (auto simp: waiting_kern_fd(3) List.map_filter_simps split: if_splits)
      (simp add: waiting_kern_fd idle_fd_def)
qed

lemma epoll_refused:
  assumes "epoll_register ctl log k = (rc, log', k')" "i \<in> set (dirty_fds (k_table k))"
    "fds_ok k" "\<not> fd_closed (k_fd k i)" "fd_num (k_fd k i) = n"
    "poll_method (k_table k) = VK_POLL_METHOD_LEVEL_TRIGGERED_ONESHOT"
    "\<And>log call. ep_fd call = n \<Longrightarrow> ctl log call \<noteq> None"
  shows "rc = - 1"
  using assms
proof (induction "dirty_fds (k_table k)" arbitrary: k log)
  case Nil
  then show ?case by simp
next
  case (Cons j q)
  note dq = Cons.hyps(2) [symmetric]
  obtain k1 where k1: "vk_fd_table_dequeue_dirty k = Some (j, k1)" "fds_ok k1" "dirty_fds (k_table k1) = q"
    "poll_method (k_table k1) = poll_method (k_table k)"
    "\<And>l. l \<noteq> j \<Longrightarrow> k_fd k1 l = k_fd k l" "k_fd k1 j = (k_fd k j)\<lparr>dirty_qed := False\<rparr>"
    using dequeue_dirty_ok [OF Cons.prems(3) dq] by blast
  obtain rc1 log1 k2 where reg: "register_fd ctl log j k1 = (rc1, log1, k2)" by (metis prod.exhaust)
  note st = register_fd_step [OF k1(2) reg, unfolded k1 call_for_qed]
  show ?case
  proof (cases "rc1 = - 1")
    case True
    then show ?thesis using Cons.prems(1) k1(1) reg by (simp add: epoll_register.simps [of ctl log k])
  next
    case False
    then have rest: "epoll_register ctl log1 k2 = (rc, log', k')"
      using Cons.prems(1) k1(1) reg by (simp add: epoll_register.simps [of ctl log k])
    have "j \<noteq> i"
    proof
      assume j: "j = i"
      then obtain call where call: "call_for (poll_method (k_table k)) (k_fd k j) = Some call"
        using Cons.prems(4,6) by (simp add: call_for_def)
      then have "ctl log call \<noteq> None" using Cons.prems(5,7) call_for_fd [OF call] j by simp
      then show False using st False call by auto
    qed
    then show ?thesis
      using Cons.hyps(1) [OF _ rest] st k1(5) Cons.prems dq by auto
  qed
qed

lemma deallocate_fd_step:
  assumes "vk_proc_deallocate_fd p i k = Some k'" "fds_ok k"
  shows "fds_ok k' \<and> dirty_fds (k_table k') = dirty_fds (k_table k) \<and>
    poll_method (k_table k') = poll_method (k_table k) \<and> epoll_fd (k_table k') = epoll_fd (k_table k) \<and>
    (\<forall>j. fd_closed (k_fd k' j) = fd_closed (k_fd k j) \<and> fd_num (k_fd k' j) = fd_num (k_fd k j) \<and>
       fd_zombie (k_fd k' j) = fd_zombie (k_fd k j))"
proof -
  have sel: "epoll_fd (k_table (upd_fd i f k)) = epoll_fd (k_table k)" for f i k by (simp add: upd_fd_def)
  have ok: "fds_ok (upd_fd i (fd_allocated_update (\<lambda>_. False)) k)" using assms(2) by (simp add: fds_ok_upd_fd)
  have ok': "fds_ok (upd_proc p f k) = fds_ok k" for f k by (rule fds_ok_table) simp
  show ?thesis using assms ok
    by (auto simp: vk_proc_deallocate_fd_def ok' sel split: if_splits option.splits)
qed

lemma prepoll_zombie_step:
  assumes "prepoll_zombie_loop p is k = Some k'" "fds_ok k"
  shows "fds_ok k' \<and> set is \<union> set (dirty_fds (k_table k)) \<subseteq> set (dirty_fds (k_table k')) \<and>
    poll_method (k_table k') = poll_method (k_table k) \<and> epoll_fd (k_table k') = epoll_fd (k_table k) \<and>
    (\<forall>j. fd_closed (k_fd k' j) = fd_closed (k_fd k j) \<and> fd_num (k_fd k' j) = fd_num (k_fd k j) \<and>
       (fd_zombie (k_fd k j) \<or> j \<in> set is \<longrightarrow> fd_zombie (k_fd k' j)))"
  using assms
proof (induction "is" arbitrary: k)
  case Nil
  then show ?case by simp
next
  case (Cons i "is")
  define k1 where "k1 = upd_fd i (\<lambda>slot. slot\<lparr>ioft_pre := (ioft_pre slot)\<lparr>ioft_rx_closed := True,
    ioft_tx_closed := True\<rparr>, fd_zombie := True\<rparr>) k"
  have ok1: "fds_ok k1" using Cons.prems(2) by (simp add: k1_def fds_ok_upd_fd)
  have sel: "epoll_fd (k_table (upd_fd i f k)) = epoll_fd (k_table k)"
    "epoll_fd (k_table (vk_fd_table_enqueue_dirty i k)) = epoll_fd (k_table k)" for f i k
    by (simp_all add: upd_fd_def vk_fd_table_enqueue_dirty_def)
  note e = enqueue_dirty_ok [OF ok1, of i] and mono = dirty.enqueue_mono [of k1 i]
  obtain k2 where k2: "vk_proc_deallocate_fd p i (vk_fd_table_enqueue_dirty i k1) = Some k2"
    "prepoll_zombie_loop p is k2 = Some k'"
    using Cons.prems(1) by (auto simp: k1_def split: option.splits)
  have fields: "fd_closed (k_fd (vk_fd_table_enqueue_dirty i k1) j) = fd_closed (k_fd k1 j)"
    "fd_num (k_fd (vk_fd_table_enqueue_dirty i k1) j) = fd_num (k_fd k1 j)"
    "fd_zombie (k_fd (vk_fd_table_enqueue_dirty i k1) j) = fd_zombie (k_fd k1 j)" for j
    using e(2,5) by (cases "j = i"; auto simp: other_fds_def)+
  have f1: "fd_closed (k_fd k1 j) = fd_closed (k_fd k j)" "fd_num (k_fd k1 j) = fd_num (k_fd k j)"
    "fd_zombie (k_fd k1 j) = (fd_zombie (k_fd k j) \<or> j = i)" for j
    by (cases "j = i"; simp add: k1_def)+
  have t1: "poll_method (k_table (vk_fd_table_enqueue_dirty i k1)) = poll_method (k_table k)"
    "dirty_fds (k_table k1) = dirty_fds (k_table k)" "epoll_fd (k_table k1) = epoll_fd (k_table k)"
    using e(2) by (simp_all add: other_fds_def k1_def sel)
  note d = deallocate_fd_step [OF k2(1) e(1)]
  have mono': "set (dirty_fds (k_table k)) \<subseteq> set (dirty_fds (k_table (vk_fd_table_enqueue_dirty i k1)))"
    using mono t1(2) by simp
  have i: "insert i (set (dirty_fds (k_table k))) \<subseteq> set (dirty_fds (k_table k2))"
    using d e(3) mono' by simp
  have "fds_ok k2" using d by blast
  note ih = Cons.IH [OF k2(2) this]
  have sub: "set (i # is) \<union> set (dirty_fds (k_table k)) \<subseteq> set (dirty_fds (k_table k'))"
    using ih i by auto
  have tab: "poll_method (k_table k') = poll_method (k_table k)" "epoll_fd (k_table k') = epoll_fd (k_table k)"
    using ih d t1 sel by simp_all
  have "fd_closed (k_fd k' j) = fd_closed (k_fd k j) \<and> fd_num (k_fd k' j) = fd_num (k_fd k j) \<and>
      (fd_zombie (k_fd k j) \<or> j \<in> set (i # is) \<longrightarrow> fd_zombie (k_fd k' j))" for j
    using ih d fields [of j] f1 [of j] by auto
  then show ?case using ih sub tab by blast
qed

text \<open>When a process ends, the slots it leaves behind are still handed to epoll in one-shot mode:
  they are zombies, but not marked closed. If the system refuses the call, as it does for a
  descriptor the process had closed, the driver fails, and with it the kernel's loop.\<close>

theorem zombie_fd_stops_epoll:
  assumes "fds_ok k" "vk_fd_table_prepoll_zombie p k = Some k'"
    "i \<in> set (allocated_fds (k_proc k p))" "\<not> fd_closed (k_fd k i)"
    "poll_method (k_table k) = VK_POLL_METHOD_LEVEL_TRIGGERED_ONESHOT" "epoll_fd (k_table k) = Some efd"
    "\<And>log call. ep_fd call = fd_num (k_fd k i) \<Longrightarrow> ctl log call \<noteq> None"
  shows "\<exists>k2. vk_fd_table_epoll create ctl calls k' = Some (Some (- 1), k2)"
proof -
  note z = prepoll_zombie_step [OF assms(2) [unfolded vk_fd_table_prepoll_zombie_def] assms(1)]
  obtain rc log k1 where reg: "epoll_register ctl [] k' = (rc, log, k1)" by (metis prod.exhaust)
  have "rc = - 1" by (rule epoll_refused [OF reg, of i]) (use assms z in auto)
  then show ?thesis using reg z assms(6) by (simp add: vk_fd_table_epoll_def)
qed

theorem zombie_fd_stops_epoll_witness:
  "\<exists>k' k2. vk_fd_table_prepoll_zombie 7 (upd_table (epoll_fd_update (\<lambda>_. Some 9)) waiting_kern) = Some k' \<and>
     vk_fd_table_epoll (Inr 9) (\<lambda>log call. if ep_fd call = 3 then Some ENOENT else None) [] k' =
       Some (Some (- 1), k2)"
proof -
  let ?k = "upd_table (epoll_fd_update (\<lambda>_. Some 9)) waiting_kern"
    and ?ctl = "\<lambda>log call. if ep_fd call = 3 then Some ENOENT else None"
  have kfd: "k_fd ?k = k_fd waiting_kern" by (simp add: k_fd_def fun_eq_iff)
  have ok: "fds_ok ?k" using waiting_kern_ok(1) by (simp add: fds_ok_iff kfd)
  have fds: "allocated_fds (k_proc ?k 7) = [3]" "poll_method (k_table ?k) = VK_POLL_METHOD_LEVEL_TRIGGERED_ONESHOT"
    "epoll_fd (k_table ?k) = Some 9" "fd_num (k_fd ?k 3) = 3" "\<not> fd_closed (k_fd ?k 3)"
    "fd_allocated (k_fd ?k 3)"
    by (simp_all add: kfd waiting_kern_fd idle_fd_def) (simp_all add: waiting_kern_def)
  let ?k1 = "vk_fd_table_enqueue_dirty 3 (upd_fd 3 (\<lambda>slot. slot\<lparr>ioft_pre := (ioft_pre slot)\<lparr>ioft_rx_closed := True,
    ioft_tx_closed := True\<rparr>, fd_zombie := True\<rparr>) ?k)"
  have "allocated_fds (k_proc ?k1 7) = [3]" "fd_allocated (k_fd ?k1 3)"
    using fds by (simp_all add: vk_fd_table_enqueue_dirty_def)
  then have "\<exists>k'. vk_proc_deallocate_fd 7 3 ?k1 = Some k'"
    by (simp add: vk_proc_deallocate_fd_def q_remove_def)
  then obtain k' where "vk_fd_table_prepoll_zombie 7 ?k = Some k'"
    using fds(1) by (auto simp: vk_fd_table_prepoll_zombie_def)
  moreover from zombie_fd_stops_epoll [OF ok this, of 3 9 ?ctl "Inr 9" "[]"] fds
  have "\<exists>k2. vk_fd_table_epoll (Inr 9) ?ctl [] k' = Some (Some (- 1), k2)" by simp
  ultimately show ?thesis by blast
qed

end
