(* ===== verification/Proc.thy ===== *)
theory Proc
  imports Fd_Props
begin

text \<open>
  Processes of the virtual kernel (src/vk_proc.c): their allocation state, the hooks before and after
  polling that carry registrations and results between the sockets of a process and the
  table of descriptors, and the execution of a process with its heap open and, unless it is
  privileged, the kernel's heap closed.
\<close>

subsection \<open>Objects\<close>

definition vk_proc_clear :: "vk_proc \<Rightarrow> vk_proc" where
  "vk_proc_clear pr =
     \<lparr>proc_id = proc_id pr, proc_pool_entry_id = 0, proc_pooled = False, run_qed = False,
      blocked_qed = False, allocated_fds = [], has_local = False,
      proc_heap = \<lparr>mapping = \<lparr>map_retval = 0, map_addr = 0, map_len = 0, map_prot = 0, map_flags = 0,
                              map_fd = 0, map_offset = 0\<rparr>,
                   owned = False, prot_inside = 0, prot_outside = 0,
                   heap_stack = \<lparr>addr_start = 0, addr_cursor = 0, addr_stop = 0\<rparr>\<rparr>,
      privileged = False, isolated = False\<rparr>"

definition vk_proc_init :: "size_t \<Rightarrow> kern_world \<Rightarrow> kern_world" where
  "vk_proc_init p k =
     set_local p (upd_local vk_proc_local_init (k_local k p))
       (upd_proc p (\<lambda>pr. pr\<lparr>run_qed := False, blocked_qed := False\<rparr>) k)"

definition vk_proc_is_zombie :: "vk_proc \<Rightarrow> bool" where
  "vk_proc_is_zombie pr \<longleftrightarrow> \<not> (run_qed pr \<or> blocked_qed pr)"

subsection \<open>Before polling\<close>

text \<open>The link to the next slot is read before the slot is deallocated.\<close>

fun prepoll_closed_loop :: "size_t \<Rightarrow> size_t list \<Rightarrow> kern_world \<Rightarrow> kern_world option" where
  "prepoll_closed_loop p [] k = Some k"
| "prepoll_closed_loop p (i # is) k =
     (if fd_closed (k_fd k i)
      then (case vk_proc_deallocate_fd p i (vk_fd_table_enqueue_dirty i k) of
              None \<Rightarrow> None | Some k' \<Rightarrow> prepoll_closed_loop p is k')
      else prepoll_closed_loop p is k)"

definition prepoll_sockets :: "size_t \<Rightarrow> addr list \<Rightarrow> kern_world \<Rightarrow> kern_world" where
  "prepoll_sockets p ss k =
     fold (\<lambda>s k. vk_fd_table_prepoll_blocked_socket s (w_socket (k_local k p) s) p k) ss k"

definition vk_proc_prepoll :: "size_t \<Rightarrow> kern_world \<Rightarrow> kern_world option" where
  "vk_proc_prepoll p k =
     do { k1 \<leftarrow> prepoll_closed_loop p (allocated_fds (k_proc k p)) k;
          Some (prepoll_sockets p (blocked_q (w_local (k_local k1 p))) k1) }"

subsection \<open>After polling\<close>

text \<open>Only the event of the slot is handed to the socket's future.\<close>

definition apply_ret :: "kern_world \<Rightarrow> vk_io_future \<Rightarrow> vk_io_future \<Rightarrow> vk_io_future option" where
  "apply_ret k pre ret =
     (if ev_fd (ioft_event pre) = - 1 then Some ret
      else case vk_fd_table_get k (ev_fd (ioft_event pre)) of
        None \<Rightarrow> None
      | Some i \<Rightarrow> Some (ret\<lparr>ioft_event := ioft_event (ioft_ret (k_fd k i))\<rparr>))"

text \<open>\<open>Inl\<close> is the early return \<open>-1\<close>, with what was applied before it.\<close>

fun apply_results :: "kern_world \<Rightarrow> addr list \<Rightarrow> vk_world \<Rightarrow> vk_world + vk_world" where
  "apply_results k [] w = Inr w"
| "apply_results k (s # ss) w =
     (let b = so_block (w_socket w s)
      in case apply_ret k (ioft_rx_pre b) (ioft_rx_ret b) of
           None \<Rightarrow> Inl w
         | Some rx \<Rightarrow>
             (let w1 = upd_block s (ioft_rx_ret_update (\<lambda>_. rx)) w
              in case apply_ret k (ioft_tx_pre b) (ioft_tx_ret b) of
                   None \<Rightarrow> Inl w1
                 | Some tx \<Rightarrow> apply_results k ss (upd_block s (ioft_tx_ret_update (\<lambda>_. tx)) w1)))"

text \<open>
  The queue is walked by its links. Retrying a socket may add others at the head of the
  queue and removes the socket itself, whose own link stays as it was, so the walk visits
  the sockets that were on the queue. \<open>os j\<close> are the outcomes of the system calls of the
  \<open>j\<close>-th retry.
\<close>

fun retry_sockets :: "(nat \<Rightarrow> os_calls) \<Rightarrow> nat \<Rightarrow> addr list \<Rightarrow> vk_world \<Rightarrow> (int \<times> vk_world) option" where
  "retry_sockets os j [] w = Some (0, w)"
| "retry_sockets os j (s # ss) w =
     do { (rc, w1) \<leftarrow> vk_proc_local_retry_socket (os j) s w;
          if rc = - 1 then Some (- 1, w1) else retry_sockets os (Suc j) ss w1 }"

definition vk_proc_postpoll ::
  "(nat \<Rightarrow> os_calls) \<Rightarrow> size_t \<Rightarrow> kern_world \<Rightarrow> (int \<times> kern_world) option" where
  "vk_proc_postpoll os p k =
     (let w = k_local k p
      in case apply_results k (blocked_q (w_local w)) w of
           Inl w1 \<Rightarrow> Some (- 1, set_local p w1 k)
         | Inr w1 \<Rightarrow>
             do { (rc, w2) \<leftarrow> retry_sockets os 0 (blocked_q (w_local w1)) w1;
                  Some (rc, set_local p w2 k) })"

subsection \<open>Execution\<close>

text \<open>
  What execution depends on: the outcomes of the system calls of the retries and of the turns,
  the bodies of the coroutines, which run under a given protection of the kernel's heap, the
  isolate, the fuel, the place of the signal in the source, and the outcomes of the \<open>mprotect\<close> calls, by their
  order in the execution of the process.
\<close>

record app =
  app_retry :: "nat \<Rightarrow> os_calls"
  app_os :: "nat \<Rightarrow> os_calls"
  app_body :: "prot \<Rightarrow> bodies"
  app_isolate :: "(vk_world \<Rightarrow> vk_world option) \<Rightarrow> vk_world \<Rightarrow> vk_world option"
  app_fuel :: nat
  app_line :: size_t
  app_counter :: int
  app_mprotect :: "nat \<Rightarrow> errno + unit"

datatype kern_result = K_Returns int kern_world | K_Killed | K_Out_Of_Fuel

definition enter_proc_heap :: "(errno + unit) \<Rightarrow> size_t \<Rightarrow> kern_world \<Rightarrow> int \<times> kern_world" where
  "enter_proc_heap ret p k =
     (case vk_heap_enter (proc_heap (k_proc k p)) (k_prot k p) ret of
        (rc, pr, h) \<Rightarrow>
          (case rc of Inl _ \<Rightarrow> - 1 | Inr _ \<Rightarrow> 0,
           upd_proc p (proc_heap_update (\<lambda>_. h)) (k\<lparr>k_prot := (k_prot k)(p := pr)\<rparr>)))"

definition exit_proc_heap :: "(errno + unit) \<Rightarrow> size_t \<Rightarrow> kern_world \<Rightarrow> int \<times> kern_world" where
  "exit_proc_heap ret p k =
     (case vk_heap_exit (proc_heap (k_proc k p)) (k_prot k p) ret of
        (rc, pr, h) \<Rightarrow>
          (case rc of Inl _ \<Rightarrow> - 1 | Inr _ \<Rightarrow> 0,
           upd_proc p (proc_heap_update (\<lambda>_. h)) (k\<lparr>k_prot := (k_prot k)(p := pr)\<rparr>)))"

text \<open>The gates of the kernel work on a copy of its heap record that is visible outside of it.\<close>

definition run_proc :: "app \<Rightarrow> size_t \<Rightarrow> prot \<Rightarrow> kern_world \<Rightarrow> executed" where
  "run_proc a p pr k =
     (if isolated (k_proc k p) \<and> kern_iso (k_kern k)
      then vk_proc_local_execute_isolated (app_isolate a) (app_os a) (app_body a pr) (app_fuel a) (k_local k p)
      else vk_proc_local_execute (app_os a) (app_body a pr) (app_fuel a) (k_local k p))"

definition execute_protected :: "app \<Rightarrow> size_t \<Rightarrow> kern_world \<Rightarrow> executed \<times> kern_world" where
  "execute_protected a p k =
     (let k1 = snd (enter_proc_heap (app_mprotect a 0) p k)
      in if privileged (k_proc k p)
         then (run_proc a p (k_kern_prot k1) k1, k1)
         else case vk_heap_exit (kern_hd (k_kern k1)) (k_kern_prot k1) (app_mprotect a 1) of
           (_, pr, hd1) \<Rightarrow>
             (case vk_heap_enter hd1 pr (app_mprotect a 2) of
                (_, pr2, _) \<Rightarrow> (run_proc a p pr k1, k1\<lparr>k_kern_prot := pr2\<rparr>)))"

definition vk_proc_execute :: "app \<Rightarrow> size_t \<Rightarrow> kern_world \<Rightarrow> kern_result" where
  "vk_proc_execute a p k =
     (if \<not> has_local (k_proc k p) then K_Returns 0 k
      else case vk_proc_local_raise_signal (app_line a) (app_counter a) (k_local k p) of
        (raised, w) \<Rightarrow>
          (case (if raised then Some (0, set_local p w k) else vk_proc_postpoll (app_retry a) p k) of
             None \<Rightarrow> K_Killed
           | Some (rc, k1) \<Rightarrow>
               if rc = - 1 then K_Returns (- 1) k1
               else case execute_protected a p k1 of
                 (Killed, _) \<Rightarrow> K_Killed
               | (Out_Of_Fuel, _) \<Rightarrow> K_Out_Of_Fuel
               | (Returns rc w, k2) \<Rightarrow>
                   (let k3 = set_local p w k2
                    in if rc = - 1 then K_Returns (- 1) k3
                       else case vk_proc_prepoll p k3 of
                         None \<Rightarrow> K_Killed | Some k4 \<Rightarrow> K_Returns 0 k4)))"

end
