(* ===== verification/Kern.thy ===== *)
theory Kern
  imports Proc
begin

text \<open>
  The virtual kernel (src/vk_kern.c): its queues of runnable and blocked processes, the
  dispatch of a process, the hooks around polling and the main loop.
\<close>

subsection \<open>Queues of processes\<close>

definition vk_kern_enqueue_run :: "size_t \<Rightarrow> kern_world \<Rightarrow> kern_world" where
  "vk_kern_enqueue_run p k =
     (if \<not> run_qed (k_proc k p)
      then upd_kern (run_procs_update (\<lambda>q. p # q)) (upd_proc p (run_qed_update (\<lambda>_. True)) k)
      else k)"

definition vk_kern_enqueue_blocked :: "size_t \<Rightarrow> kern_world \<Rightarrow> kern_world" where
  "vk_kern_enqueue_blocked p k =
     (if \<not> blocked_qed (k_proc k p)
      then upd_kern (blocked_procs_update (\<lambda>q. p # q)) (upd_proc p (blocked_qed_update (\<lambda>_. True)) k)
      else k)"

definition vk_kern_drop_run :: "size_t \<Rightarrow> kern_world \<Rightarrow> kern_world option" where
  "vk_kern_drop_run p k =
     (if run_qed (k_proc k p)
      then (case q_remove p (run_procs (k_kern k)) of
              None \<Rightarrow> None
            | Some q \<Rightarrow> Some (upd_kern (run_procs_update (\<lambda>_. q)) (upd_proc p (run_qed_update (\<lambda>_. False)) k)))
      else Some k)"

definition vk_kern_drop_blocked :: "size_t \<Rightarrow> kern_world \<Rightarrow> kern_world option" where
  "vk_kern_drop_blocked p k =
     (if blocked_qed (k_proc k p)
      then (case q_remove p (blocked_procs (k_kern k)) of
              None \<Rightarrow> None
            | Some q \<Rightarrow> Some (upd_kern (blocked_procs_update (\<lambda>_. q))
                                (upd_proc p (blocked_qed_update (\<lambda>_. False)) k)))
      else Some k)"

definition vk_kern_dequeue_run :: "kern_world \<Rightarrow> (size_t \<times> kern_world) option" where
  "vk_kern_dequeue_run k =
     (case run_procs (k_kern k) of
        [] \<Rightarrow> None
      | p # q \<Rightarrow> Some (p, upd_proc p (run_qed_update (\<lambda>_. False)) (upd_kern (run_procs_update (\<lambda>_. q)) k)))"

definition vk_kern_dequeue_blocked :: "kern_world \<Rightarrow> (size_t \<times> kern_world) option" where
  "vk_kern_dequeue_blocked k =
     (case blocked_procs (k_kern k) of
        [] \<Rightarrow> None
      | p # q \<Rightarrow>
          Some (p, upd_proc p (blocked_qed_update (\<lambda>_. False)) (upd_kern (blocked_procs_update (\<lambda>_. q)) k)))"

interpretation krun: flagged_queue "\<lambda>k. run_procs (k_kern k)" "\<lambda>k p. run_qed (k_proc k p)" "\<lambda>_ _. True"
    "\<lambda>k p. vk_kern_enqueue_run p k" "\<lambda>k p. vk_kern_drop_run p k" vk_kern_dequeue_run
  by unfold_locales
    (auto simp: vk_kern_enqueue_run_def vk_kern_drop_run_def vk_kern_dequeue_run_def
      q_remove_def fun_eq_iff split: list.splits)

interpretation kblk: flagged_queue "\<lambda>k. blocked_procs (k_kern k)" "\<lambda>k p. blocked_qed (k_proc k p)"
    "\<lambda>_ _. True" "\<lambda>k p. vk_kern_enqueue_blocked p k" "\<lambda>k p. vk_kern_drop_blocked p k"
    vk_kern_dequeue_blocked
  by unfold_locales
    (auto simp: vk_kern_enqueue_blocked_def vk_kern_drop_blocked_def vk_kern_dequeue_blocked_def
      q_remove_def fun_eq_iff split: list.splits)

text \<open>The marks of a process without a local object are read through a null pointer.\<close>

definition vk_kern_flush_proc_queues :: "size_t \<Rightarrow> kern_world \<Rightarrow> kern_world option" where
  "vk_kern_flush_proc_queues p k =
     (if \<not> has_local (k_proc k p) then None
      else do {
        k1 \<leftarrow> (if pl_run (w_local (k_local k p)) then Some (vk_kern_enqueue_run p k)
               else vk_kern_drop_run p k);
        if pl_blocked (w_local (k_local k1 p)) then Some (vk_kern_enqueue_blocked p k1)
        else vk_kern_drop_blocked p k1 })"

subsection \<open>Shutdown\<close>

text \<open>One blocked socket of a process to interrupt; \<open>line\<close> and \<open>counter\<close> are the place of the
  raise in the source.\<close>

definition interrupt_socket :: "size_t \<Rightarrow> int \<Rightarrow> addr \<Rightarrow> vk_world \<Rightarrow> vk_world option" where
  "interrupt_socket line counter s w =
     (let that = blocked_vk (so_block (w_socket w s));
          w1 = upd_socket s (\<lambda>so. so\<lparr>so_rx := rx_blocked_update (\<lambda>_. False) (so_rx so),
                                      so_tx := tx_blocked_update (\<lambda>_. False) (so_tx so)\<rparr>) w
      in do { w2 \<leftarrow> vk_proc_local_drop_blocked s w1;
              let w3 = upd_block s (blocked_vk_update (\<lambda>_. 0)) w2;
              Some (if that \<noteq> 0 then vk_raise_at line counter that EINTR (vk_proc_local_enqueue_run that w3)
                    else w3) })"

fun interrupt_sockets :: "size_t \<Rightarrow> int \<Rightarrow> addr list \<Rightarrow> vk_world \<Rightarrow> vk_world option" where
  "interrupt_sockets line counter [] w = Some w"
| "interrupt_sockets line counter (s # ss) w =
     do { w1 \<leftarrow> interrupt_socket line counter s w; interrupt_sockets line counter ss w1 }"

definition interrupt_proc :: "size_t \<Rightarrow> int \<Rightarrow> size_t \<Rightarrow> kern_world \<Rightarrow> kern_world option" where
  "interrupt_proc line counter p k =
     (let k1 = upd_proc p (run_qed_update (\<lambda>_. True)) k
      in do { w \<leftarrow> interrupt_sockets line counter (blocked_q (w_local (k_local k1 p))) (k_local k1 p);
              vk_kern_flush_proc_queues p (set_local p w k1) })"

fun interrupt_procs :: "size_t \<Rightarrow> int \<Rightarrow> size_t list \<Rightarrow> kern_world \<Rightarrow> kern_world option" where
  "interrupt_procs line counter [] k = Some k"
| "interrupt_procs line counter (p # ps) k =
     do { k1 \<leftarrow> interrupt_proc line counter p k; interrupt_procs line counter ps k1 }"

definition vk_kern_prepoll :: "size_t \<Rightarrow> int \<Rightarrow> kern_world \<Rightarrow> kern_world option" where
  "vk_kern_prepoll line counter k =
     (if \<not> shutdown_requested (k_kern k) then Some k
      else interrupt_procs line counter (blocked_procs (k_kern k)) k)"

subsection \<open>Dispatch\<close>

definition vk_proc_execute_mainline :: "app \<Rightarrow> size_t \<Rightarrow> kern_world \<Rightarrow> kern_result" where
  "vk_proc_execute_mainline a p k =
     (case vk_proc_execute a p k of
        K_Returns rc k1 \<Rightarrow>
          (let k2 = (if rc = - 1 then upd_kern (kern_rc_update (\<lambda>_. - 1)) k1 else k1)
           in K_Returns 0 (upd_kern (kern_rc_update (\<lambda>_. 0)) k2))
      | res \<Rightarrow> res)"

text \<open>The jumper and the mainline are set just before \<open>vk_signal_setjmp\<close>, which then runs the mainline.\<close>

definition vk_kern_execute_proc :: "app \<Rightarrow> size_t \<Rightarrow> kern_world \<Rightarrow> kern_result" where
  "vk_kern_execute_proc a p k =
     (case vk_proc_execute_mainline a p k of
        K_Returns _ k1 \<Rightarrow> K_Returns (if kern_rc (k_kern k1) = - 1 then - 1 else 0) k1
      | res \<Rightarrow> res)"

text \<open>The object of a process is in the kernel's pool; freeing the entry clears it.\<close>

definition vk_kern_free_proc :: "size_t \<Rightarrow> kern_world \<Rightarrow> kern_world" where
  "vk_kern_free_proc p k =
     (let clear = (\<lambda>e procs. (Inr (), procs(of_nat e := vk_proc_clear (procs (of_nat e)))))
      in case vk_pool_free_entry (Some clear) (proc_pool (k_kern k)) (k_proc k)
                (vk_pool_get_entry (proc_pool (k_kern k)) (proc_id (k_proc k p))) of
           (_, pool, procs) \<Rightarrow> upd_kern (proc_pool_update (\<lambda>_. pool)) (k\<lparr>k_proc := procs\<rparr>))"

definition vk_proc_free_from_pool :: "size_t \<Rightarrow> kern_world \<Rightarrow> int \<times> kern_world" where
  "vk_proc_free_from_pool p k =
     (case vk_pool_get_entry (k_pool k) (proc_pool_entry_id (k_proc k p)) of
        None \<Rightarrow> (- 1, k)
      | Some e \<Rightarrow>
          (case vk_pool_free_entry None (k_pool k) () (Some e) of
             (rc, pool, _) \<Rightarrow> (case rc of Inl _ \<Rightarrow> - 1 | Inr _ \<Rightarrow> 0, k\<lparr>k_pool := pool\<rparr>)))"

definition vk_proc_free :: "(errno + unit) \<Rightarrow> size_t \<Rightarrow> kern_world \<Rightarrow> int" where
  "vk_proc_free ret p k = (case vk_heap_unmap (proc_heap (k_proc k p)) ret of Inl _ \<Rightarrow> - 1 | Inr _ \<Rightarrow> 0)"

text \<open>\<open>bury\<close> is what follows the execution of a process that has nothing left to run or to wait
  for; \<open>unmap\<close> is the outcome of \<open>munmap\<close>.\<close>

definition bury :: "(errno + unit) \<Rightarrow> (errno + unit) \<Rightarrow> size_t \<Rightarrow> kern_world \<Rightarrow> (int \<times> kern_world) option" where
  "bury unmap ret p k =
     do { k1 \<leftarrow> vk_fd_table_prepoll_zombie p k;
          if \<not> proc_pooled (k_proc k1 p)
          then (if vk_proc_free unmap p k1 = - 1 then Some (- 1, k1) else Some (0, vk_kern_free_proc p k1))
          else (case vk_proc_free_from_pool p k1 of
                  (rc, k2) \<Rightarrow>
                    if rc = - 1 then Some (- 1, k2)
                    else (case exit_proc_heap ret p k2 of
                            (rc, k3) \<Rightarrow>
                              if rc = - 1 then Some (- 1, k3) else Some (0, vk_kern_free_proc p k3))) }"

definition vk_kern_dispatch_proc ::
  "(errno + unit) \<Rightarrow> app \<Rightarrow> size_t \<Rightarrow> kern_world \<Rightarrow> kern_result" where
  "vk_kern_dispatch_proc unmap a p k =
     (case enter_proc_heap (app_mprotect a 3) p k of
        (rc, k1) \<Rightarrow>
          if rc = - 1 then K_Returns (- 1) k1
          else case vk_kern_execute_proc a p k1 of
            K_Killed \<Rightarrow> K_Killed
          | K_Out_Of_Fuel \<Rightarrow> K_Out_Of_Fuel
          | K_Returns rc k2 \<Rightarrow>
              if rc = - 1 then K_Returns (- 1) k2
              else case vk_kern_flush_proc_queues p k2 of
                None \<Rightarrow> K_Killed
              | Some k3 \<Rightarrow>
                  if vk_proc_is_zombie (k_proc k3 p)
                  then (case bury unmap (app_mprotect a 4) p k3 of
                          None \<Rightarrow> K_Killed | Some (rc, k4) \<Rightarrow> K_Returns rc k4)
                  else if isolated (k_proc k3 p)
                  then (case exit_proc_heap (app_mprotect a 4) p k3 of (rc, k4) \<Rightarrow> K_Returns rc k4)
                  else K_Returns 0 k3)"

subsection \<open>The loop\<close>

function dispatch_fresh :: "kern_world \<Rightarrow> kern_world option" where
  "dispatch_fresh k =
     (case vk_fd_table_dequeue_fresh k of
        None \<Rightarrow> Some k
      | Some (i, k1) \<Rightarrow>
          (case vk_pool_get_entry (proc_pool (k_kern k1)) (fd_proc_id (k_fd k1 i)) of
             None \<Rightarrow> None
           | Some e \<Rightarrow> dispatch_fresh (vk_kern_enqueue_run (of_nat e) k1)))"
  by pat_completeness auto
termination
  by (relation "measure (\<lambda>k. length (fresh_fds (k_table k)))")
    (auto simp: vk_fd_table_dequeue_fresh_def vk_kern_enqueue_run_def split: list.splits)

declare dispatch_fresh.simps [simp del]

text \<open>The environment of the \<open>n\<close>-th dispatch: the signals before and after it, the outcome of
  \<open>munmap\<close> and the application's world. Fuel bounds the dispatches of one hook.\<close>

record turn =
  t_before :: nat
  t_after :: nat
  t_unmap :: "errno + unit"
  t_app :: app

fun dispatch_run :: "(nat \<Rightarrow> turn) \<Rightarrow> nat \<Rightarrow> nat \<Rightarrow> kern_world \<Rightarrow> kern_result" where
  "dispatch_run env n 0 k = K_Out_Of_Fuel"
| "dispatch_run env n (Suc m) k =
     (case vk_kern_dequeue_run k of
        None \<Rightarrow> K_Returns 0 k
      | Some (p, k1) \<Rightarrow>
          (let k2 = vk_kern_receive_signal (t_before (env n)) (upd_proc p (run_qed_update (\<lambda>_. False)) k1)
           in case vk_kern_dispatch_proc (t_unmap (env n)) (t_app (env n)) p k2 of
                K_Returns rc k3 \<Rightarrow>
                  if rc = - 1 then K_Returns (- 1) k3
                  else dispatch_run env (Suc n) m (vk_kern_receive_signal (t_after (env n)) k3)
              | res \<Rightarrow> res))"

definition vk_kern_postpoll :: "(nat \<Rightarrow> turn) \<Rightarrow> nat \<Rightarrow> kern_world \<Rightarrow> kern_result" where
  "vk_kern_postpoll env fuel k =
     (case dispatch_fresh k of None \<Rightarrow> K_Killed | Some k1 \<Rightarrow> dispatch_run env 0 fuel k1)"

definition vk_kern_poll :: "poller \<Rightarrow> kern_world \<Rightarrow> kern_result" where
  "vk_kern_poll pl k =
     (case vk_fd_table_wait pl k of
        None \<Rightarrow> K_Killed
      | Some (None, k1) \<Rightarrow> K_Out_Of_Fuel
      | Some (Some rc, k1) \<Rightarrow> K_Returns rc k1)"

text \<open>The environment of the \<open>n\<close>-th round. Fuel bounds the rounds.\<close>

record kern_env =
  e_turns :: "nat \<Rightarrow> nat \<Rightarrow> turn"
  e_fuel :: nat
  e_poller :: "nat \<Rightarrow> poller"
  e_line :: size_t
  e_counter :: int

fun kern_rounds :: "kern_env \<Rightarrow> nat \<Rightarrow> nat \<Rightarrow> kern_world \<Rightarrow> kern_result" where
  "kern_rounds e n 0 k = K_Out_Of_Fuel"
| "kern_rounds e n (Suc m) k =
     (case vk_kern_prepoll (e_line e) (e_counter e) k of
        None \<Rightarrow> K_Killed
      | Some k1 \<Rightarrow>
          (case vk_kern_poll (e_poller e n) k1 of
             K_Returns rc k2 \<Rightarrow>
               if rc = - 1 then K_Returns (- 1) k2
               else (case vk_kern_postpoll (e_turns e n) (e_fuel e) k2 of
                       K_Returns rc k3 \<Rightarrow>
                         if rc = - 1 then K_Returns (- 1) k3
                         else if vk_kern_pending k3 then kern_rounds e (Suc n) m k3
                         else K_Returns 0 k3
                     | res \<Rightarrow> res)
           | res \<Rightarrow> res))"

definition vk_kern_loop :: "kern_env \<Rightarrow> nat \<Rightarrow> kern_world \<Rightarrow> kern_result" where
  "vk_kern_loop e fuel k =
     (case vk_kern_postpoll (e_turns e 0) (e_fuel e) k of
        K_Returns rc k1 \<Rightarrow>
          if rc = - 1 then K_Returns (- 1) k1 else kern_rounds e 1 fuel k1
      | res \<Rightarrow> res)"

end
