(* ===== verification/Socket_Props.thy ===== *)
theory Socket_Props
  imports Socket_Inv
begin

text \<open>
  What the socket handlers achieve: a socket that is left blocked on a descriptor is
  registered for polling; bytes pass between the sockets of two coroutines in order, and
  the coroutine on the other side is woken; and what happens to the error of a failed
  system call.
\<close>

subsection \<open>Registration for polling\<close>

definition rx_waits :: "vk_socket \<Rightarrow> bool" where
  "rx_waits so \<longleftrightarrow> vk_pipe_get_fd (so_rx_fd so) \<ge> 0 \<and> rx_blocked (so_rx so)"

definition tx_waits :: "vk_socket \<Rightarrow> bool" where
  "tx_waits so \<longleftrightarrow> vk_pipe_get_fd (so_tx_fd so) \<ge> 0 \<and> tx_blocked (so_tx so)"

definition polls_for :: "vk_socket \<Rightarrow> bool" where
  "polls_for so \<longleftrightarrow>
     ev_fd (ioft_event (ioft_rx_pre (so_block so))) = vk_pipe_get_fd (so_rx_fd so) \<and>
     ev_fd (ioft_event (ioft_tx_pre (so_block so))) = vk_pipe_get_fd (so_tx_fd so) \<and>
     ev_events (ioft_event (ioft_rx_pre (so_block so))) = (if rx_waits so then POLLIN else 0) \<and>
     ev_events (ioft_event (ioft_tx_pre (so_block so))) = (if tx_waits so then POLLOUT else 0) \<and>
     (rx_waits so \<or> tx_waits so \<longrightarrow> blocked_enq so)"

lemma enqueue_blocked_socket [simp]:
  "w_socket (vk_proc_local_enqueue_blocked s w) = (w_socket w)(s := (w_socket w s)\<lparr>blocked_enq := True\<rparr>)"
  by (auto simp: vk_proc_local_enqueue_blocked_def fun_eq_iff)

definition rx_polled :: "vk_socket \<Rightarrow> bool" where
  "rx_polled so \<longleftrightarrow>
     ev_events (ioft_event (ioft_rx_pre (so_block so))) = (if rx_waits so then POLLIN else 0) \<and>
     (rx_waits so \<longrightarrow> blocked_enq so)"

definition fds_set :: "vk_socket \<Rightarrow> bool" where
  "fds_set so \<longleftrightarrow>
     ev_fd (ioft_event (ioft_rx_pre (so_block so))) = vk_pipe_get_fd (so_rx_fd so) \<and>
     ev_fd (ioft_event (ioft_tx_pre (so_block so))) = vk_pipe_get_fd (so_tx_fd so)"

lemma get_fd_closed [simp]: "vk_pipe_get_fd (pipe_closed_update f p) = vk_pipe_get_fd p"
  by (simp add: vk_pipe_get_fd_def)

lemma fds_set_forward: "fds_set (w_socket w s) \<Longrightarrow> fds_set (w_socket (forward_closed s w) s)"
  by (simp add: forward_closed_def Let_def upd_block_def fds_set_def)

lemma fds_set_block_fds: "fds_set (w_socket (block_fds s w) s)"
  by (simp add: block_fds_def Let_def upd_block_def fds_set_def)

lemma block_rx_part:
  assumes "(if vk_pipe_get_fd (so_rx_fd (w_socket w1 s)) \<ge> 0 \<and> rx_blocked (so_rx (w_socket w1 s))
      then vk_socket_enqueue_blocked s (vk_socket_mark_read_block s w1)
      else Some (vk_socket_clear_read_block s w1)) = Some w2" "fds_set (w_socket w1 s)"
  shows "rx_polled (w_socket w2 s) \<and> fds_set (w_socket w2 s)"
  using assms
  by (auto simp: vk_socket_enqueue_blocked_def vk_socket_mark_read_block_def upd_block_def
      vk_socket_clear_read_block_def rx_polled_def rx_waits_def fds_set_def bind_eq_Some_conv
      split: if_splits)

lemma block_tx_part:
  assumes "(if vk_pipe_get_fd (so_tx_fd (w_socket w2 s)) \<ge> 0 \<and> tx_blocked (so_tx (w_socket w2 s))
      then vk_socket_enqueue_blocked s (vk_socket_mark_write_block s w2)
      else Some (vk_socket_clear_write_block s w2)) = Some w'"
    "rx_polled (w_socket w2 s)" "fds_set (w_socket w2 s)"
  shows "polls_for (w_socket w' s)"
  using assms
  by (auto simp: vk_socket_enqueue_blocked_def vk_socket_mark_write_block_def upd_block_def
      vk_socket_clear_write_block_def rx_polled_def rx_waits_def tx_waits_def fds_set_def
      polls_for_def bind_eq_Some_conv split: if_splits)

lemma handle_block_polls:
  assumes "vk_socket_handle_block s w = Some w'"
  shows "polls_for (w_socket w' s)"
proof -
  have "fds_set (w_socket (forward_closed s (block_fds s w)) s)"
    by (rule fds_set_forward [OF fds_set_block_fds])
  with assms block_rx_part block_tx_part show ?thesis
    unfolding vk_socket_handle_block_def Let_def bind_eq_Some_conv by blast
qed

lemma block_and_polls: "block_and s rc w = Some (rc', w') \<Longrightarrow> polls_for (w_socket w' s)"
  by (auto simp: block_and_def bind_eq_Some_conv dest: handle_block_polls)

lemma close_end_polls: "close_end s w = Some (rc', w') \<Longrightarrow> polls_for (w_socket w' s)"
  by (auto simp: close_end_def bind_eq_Some_conv vk_socket_enqueue_self_def dest: handle_block_polls)

lemma forward_write_polls:
  "forward_write guard os s w = Some (rc, w') \<Longrightarrow> rc \<noteq> - 1 \<Longrightarrow> polls_for (w_socket w' s)"
  unfolding forward_write_def
  by (auto simp: bind_eq_Some_conv dest!: block_and_polls split: vk_pipe_ref.splits if_splits)

lemma readhup_polls:
  assumes "vk_socket_handle_readhup s w = Some (rc, w')" "rc \<noteq> - 1"
  shows "polls_for (w_socket w' s)"
proof (cases "pipe_ref (so_rx_fd (w_socket w s))")
  case (VK_PIPE_VK_TX p)
  obtain rc t r where "vk_vectoring_forwardhup (so_tx (w_socket w p)) (so_rx (w_socket w s)) = (rc, t, r)"
    by (metis prod.exhaust)
  with VK_PIPE_VK_TX assms show ?thesis
    by (auto simp: vk_socket_handle_readhup_def bind_eq_Some_conv Let_def deref_def
        split: if_splits dest!: block_and_polls)
qed (use assms in \<open>auto simp: vk_socket_handle_readhup_def bind_eq_Some_conv dest!: block_and_polls\<close>)

lemma handlers_poll:
  "vk_socket_handle_read os s w = Some (rc, w') \<Longrightarrow> polls_for (w_socket w' s)"
  "vk_socket_handle_write os s w = Some (rc, w') \<Longrightarrow> polls_for (w_socket w' s)"
  "vk_socket_handle_forward os s w = Some (rc, w') \<Longrightarrow> rc \<noteq> - 1 \<Longrightarrow> polls_for (w_socket w' s)"
  "vk_socket_handle_hup s w = Some (rc, w') \<Longrightarrow> rc \<noteq> - 1 \<Longrightarrow> polls_for (w_socket w' s)"
  "vk_socket_handle_tx_close os s w = Some (rc, w') \<Longrightarrow> polls_for (w_socket w' s)"
  "vk_socket_handle_rx_close os s w = Some (rc, w') \<Longrightarrow> polls_for (w_socket w' s)"
  "vk_socket_handle_tx_shutdown os s w = Some (rc, w') \<Longrightarrow> polls_for (w_socket w' s)"
  "vk_socket_handle_rx_shutdown os s w = Some (rc, w') \<Longrightarrow> polls_for (w_socket w' s)"
  unfolding vk_socket_handle_read_def vk_socket_handle_write_def vk_socket_handle_forward_def
    vk_socket_handle_hup_def vk_socket_handle_tx_close_def
    vk_socket_handle_rx_close_def vk_socket_handle_tx_shutdown_def vk_socket_handle_rx_shutdown_def
  by (auto simp: bind_eq_Some_conv Let_def split: vk_pipe_ref.splits prod.splits
      dest!: block_and_polls close_end_polls forward_write_polls)

lemma handler_polls:
  assumes "vk_socket_handler os s w = Some (rc, w')" "rc \<noteq> - 1"
    "blk_op (so_block (w_socket w s)) \<notin> {VK_OP_NONE, VK_OP_READABLE, VK_OP_WRITABLE}"
  shows "polls_for (w_socket w' s)"
proof (cases "blk_op (so_block (w_socket w s)) = VK_OP_READ")
  case True
  with assms show ?thesis
    by (auto simp: vk_socket_handler_def bind_eq_Some_conv split: if_splits dest: handlers_poll(1,2))
next
  case False
  with assms show ?thesis unfolding vk_socket_handler_def
    by (cases "blk_op (so_block (w_socket w s))") (auto dest: handlers_poll readhup_polls)
qed

text \<open>C29: No lost wake-up: when a transfer, hangup or closing operation has been handled without error and
  the socket's ring is still blocked on a descriptor, the socket is on the blocked queue of
  its process and its future asks the poller for exactly the direction that is blocked, on
  the right descriptor; a direction that is not blocked is not polled for.\<close>

theorem socket_blocked_is_registered:
  assumes "linked w s" "queues_inv w" "rings_ok w" "vk_socket_handler os s w = Some (rc, w')" "rc \<noteq> - 1"
    "blk_op (so_block (w_socket w s)) \<notin> {VK_OP_NONE, VK_OP_READABLE, VK_OP_WRITABLE}"
  shows "let so = w_socket w' s; rx = ioft_event (ioft_rx_pre (so_block so));
      tx = ioft_event (ioft_tx_pre (so_block so)) in
    ev_fd rx = vk_pipe_get_fd (so_rx_fd so) \<and> ev_events rx = (if rx_waits so then POLLIN else 0) \<and>
    ev_fd tx = vk_pipe_get_fd (so_tx_fd so) \<and> ev_events tx = (if tx_waits so then POLLOUT else 0) \<and>
    (rx_waits so \<or> tx_waits so \<longrightarrow> s \<in> set (blocked_q (w_local w')))"
proof -
  have "queues_inv w'"
    using handler_yields [OF assms(1), of os] assms(2-4)
    by (auto simp: yields_rc_def frame_ok_def sound_def)
  then have "blocked_enq (w_socket w' s) \<longleftrightarrow> s \<in> set (blocked_q (w_local w'))"
    by (simp add: queues_inv_def blk_inv_def flag_inv_def)
  moreover have "polls_for (w_socket w' s)" by (rule handler_polls [OF assms(4-6)])
  ultimately show ?thesis by (simp add: polls_for_def)
qed

definition read_world :: vk_world where
  "read_world = upd_block 128 (blk_op_update (\<lambda>_. VK_OP_READ)) idle_world"

lemma read_world_sound: "linked read_world 128" "queues_inv read_world" "rings_ok read_world"
proof -
  have eq: "w_socket read_world x =
      (if x = 128 then idle_socket\<lparr>so_block := (so_block idle_socket)\<lparr>blk_op := VK_OP_READ\<rparr>\<rparr> else idle_socket)" for x
    by (simp add: read_world_def upd_block_def idle_world_def)
  show "linked read_world 128" "rings_ok read_world"
    by (simp_all add: linked_def has_vk_def pipe_linked_def rings_ok_def eq idle_socket_def os_pipe_def
        wrapped_ring_wf empty_ring_wf)
  show "queues_inv read_world"
    using idle_world_inv by (simp add: read_world_def upd_block_def queues_inv_upd_socket)
qed

theorem socket_blocked_is_registered_witness:
  "\<exists>rc w'. vk_socket_handler quiet_os 128 read_world = Some (rc, w') \<and>
    (rc \<noteq> - 1 \<longrightarrow> rx_waits (w_socket w' 128) \<longrightarrow> 128 \<in> set (blocked_q (w_local w')))"
proof -
  obtain rc w' where h: "vk_socket_handler quiet_os 128 read_world = Some (rc, w')"
    using handler_yields [OF read_world_sound(1), of quiet_os] by (auto simp: yields_rc_def)
  have "blk_op (so_block (w_socket read_world 128)) \<notin> {VK_OP_NONE, VK_OP_READABLE, VK_OP_WRITABLE}"
    by (simp add: read_world_def upd_block_def)
  from socket_blocked_is_registered [OF read_world_sound h _ this] h show ?thesis
    by (auto simp: Let_def)
qed

subsection \<open>What waking and blocking leave alone\<close>

definition calm_ring :: "vk_vectoring \<Rightarrow> vk_vectoring \<Rightarrow> bool" where
  "calm_ring r r' \<longleftrightarrow> same_ring r r' \<and> vec_error r' = vec_error r \<and> vec_eof r' = vec_eof r \<and>
     rx_blocked r' = rx_blocked r \<and> tx_blocked r' = tx_blocked r"

definition calm :: "vk_world \<Rightarrow> vk_world \<Rightarrow> bool" where
  "calm w w' \<longleftrightarrow> w_mem w' = w_mem w \<and> w_errno w' = w_errno w \<and>
     (\<forall>s. calm_ring (so_rx (w_socket w s)) (so_rx (w_socket w' s)) \<and>
          calm_ring (so_tx (w_socket w s)) (so_tx (w_socket w' s)) \<and>
          so_error (w_socket w' s) = so_error (w_socket w s)) \<and>
     set (run_q (w_local w)) \<subseteq> set (run_q (w_local w'))"

lemma same_ring_refl [simp]: "same_ring r r"
  by (simp add: same_ring_def)

lemma calm_ring_refl [simp]: "calm_ring r r"
  by (simp add: calm_ring_def)

lemma calm_ring_trans: "calm_ring r1 r2 \<Longrightarrow> calm_ring r2 r3 \<Longrightarrow> calm_ring r1 r3"
  by (simp add: calm_ring_def same_ring_def)

lemma calm_refl [simp]: "calm w w"
  by (simp add: calm_def)

lemma calm_trans [trans]: "calm w1 w2 \<Longrightarrow> calm w2 w3 \<Longrightarrow> calm w1 w3"
  by (simp add: calm_def) (blast intro: calm_ring_trans)

lemma calm_effect [simp]: "calm_ring r (snd (vk_vectoring_handle_effect r))"
  by (simp add: vk_vectoring_handle_effect_def calm_ring_def)

lemma calm_upd_socket:
  "(\<And>so. so_rx (f so) = so_rx so \<and> so_tx (f so) = so_tx so \<and> so_error (f so) = so_error so) \<Longrightarrow>
    calm w (upd_socket s f w)"
  by (simp add: calm_def)

lemma calm_upd_thread: "calm w (upd_thread t f w)"
  by (simp add: calm_def)

lemma calm_enqueue_run: "calm w (vk_proc_local_enqueue_run t w)"
  using run.enqueue_mono [of w t] by (simp add: calm_def)

lemma calm_enqueue_blocked: "calm w (vk_proc_local_enqueue_blocked s w)"
  by (simp add: calm_def)

lemma calm_rx_effect: "calm w (snd (vk_socket_handle_rx_effect s w))"
  using calm_effect [of "so_rx (w_socket w s)"]
  by (auto simp: vk_socket_handle_rx_effect_def calm_def simp del: calm_effect split: prod.split)

lemma calm_tx_effect: "calm w (snd (vk_socket_handle_tx_effect s w))"
  using calm_effect [of "so_tx (w_socket w s)"]
  by (auto simp: vk_socket_handle_tx_effect_def calm_def simp del: calm_effect split: prod.split)

lemma calm_enqueue_self: "vk_socket_enqueue_self s w = Some w' \<Longrightarrow> calm w w'"
  by (auto simp: vk_socket_enqueue_self_def bind_eq_Some_conv calm_upd_thread)

lemma calm_enqueue_other: "enqueue_other p w = Some w' \<Longrightarrow> calm w w'"
  by (auto simp: enqueue_other_def bind_eq_Some_conv intro: calm_trans [OF calm_enqueue_run calm_upd_thread])

lemma calm_enqueue_read: "vk_socket_enqueue_read s w = Some w' \<Longrightarrow> calm w w'"
  using calm_rx_effect [of w s]
  by (auto simp: vk_socket_enqueue_read_def split: prod.splits if_splits
      intro: calm_trans dest: calm_enqueue_self)

lemma calm_enqueue_write: "vk_socket_enqueue_write s w = Some w' \<Longrightarrow> calm w w'"
  using calm_tx_effect [of w s]
  by (auto simp: vk_socket_enqueue_write_def split: prod.splits if_splits
      intro: calm_trans dest: calm_enqueue_self)

lemma calm_block_fds: "calm w (block_fds s w)"
  unfolding block_fds_def Let_def upd_block_def
  by (rule calm_trans; rule calm_upd_socket; simp)

lemma calm_forward_closed: "calm w (forward_closed s w)"
proof -
  have st: "calm v (upd_socket s (so_rx_fd_update f) v)" "calm v (upd_socket s (so_tx_fd_update f) v)"
    "calm v (upd_block s g v)" for v f g
    unfolding upd_block_def by (rule calm_upd_socket, simp)+
  show ?thesis unfolding forward_closed_def Let_def
    by (auto intro!: st calm_trans [OF _ st(2)] calm_trans [OF _ st(3)])
qed

lemma calm_block_marks:
  "calm w (vk_socket_mark_read_block s w)" "calm w (vk_socket_clear_read_block s w)"
  "calm w (vk_socket_mark_write_block s w)" "calm w (vk_socket_clear_write_block s w)"
  unfolding vk_socket_mark_read_block_def vk_socket_clear_read_block_def
    vk_socket_mark_write_block_def vk_socket_clear_write_block_def upd_block_def
  by (rule calm_upd_socket, simp)+

lemma calm_block_enqueue: "vk_socket_enqueue_blocked s v = Some w' \<Longrightarrow> calm w v \<Longrightarrow> calm w w'"
  by (auto simp: vk_socket_enqueue_blocked_def bind_eq_Some_conv intro: calm_trans calm_enqueue_blocked)

lemma calm_handle_block:
  assumes "vk_socket_handle_block s w = Some w'"
  shows "calm w w'"
proof -
  let ?w1 = "forward_closed s (block_fds s w)"
  have f: "calm w ?w1" by (rule calm_trans [OF calm_block_fds calm_forward_closed])
  obtain w2 where
    a: "(if vk_pipe_get_fd (so_rx_fd (w_socket ?w1 s)) \<ge> 0 \<and> rx_blocked (so_rx (w_socket ?w1 s))
      then vk_socket_enqueue_blocked s (vk_socket_mark_read_block s ?w1)
      else Some (vk_socket_clear_read_block s ?w1)) = Some w2"
    and b: "(if vk_pipe_get_fd (so_tx_fd (w_socket w2 s)) \<ge> 0 \<and> tx_blocked (so_tx (w_socket w2 s))
      then vk_socket_enqueue_blocked s (vk_socket_mark_write_block s w2)
      else Some (vk_socket_clear_write_block s w2)) = Some w'"
    using assms unfolding vk_socket_handle_block_def Let_def bind_eq_Some_conv by blast
  have "calm ?w1 w2" using a calm_block_marks
    by (auto split: if_splits elim!: calm_block_enqueue)
  moreover have "calm w2 w'" using b calm_block_marks
    by (auto split: if_splits elim!: calm_block_enqueue)
  ultimately show ?thesis by (rule calm_trans [OF f calm_trans])
qed

lemma calm_block_and: "block_and s rc w = Some (rc', w') \<Longrightarrow> calm w w' \<and> rc' = rc"
  by (auto simp: block_and_def bind_eq_Some_conv dest: calm_handle_block)

text \<open>The error of a failed read is not recorded on the socket: the ring keeps it, but clears errno
  before the handler copies errno into the socket, so the socket's error is 0 after every
  failed read of a descriptor (the structure describes it as the errno of socket
  operations).\<close>

theorem socket_read_error_lost:
  assumes "pipe_ref (so_rx_fd (w_socket w s)) = VK_PIPE_OS_FD fd"
    "pipe_fd_type (so_rx_fd (w_socket w s)) \<noteq> VK_FD_TYPE_SOCKET_LISTEN"
    "os_readv os = Inl e" "vk_socket_handle_read os s w = Some (rc, w')"
  shows "vec_error (so_rx (w_socket w' s)) = e \<and> so_error (w_socket w' s) = 0 \<and> rc = 0"
proof -
  let ?w1 = "note_error s (sock_readv os s w)"
  obtain w2 where w2: "vk_socket_enqueue_read s ?w1 = Some w2" "block_and s 0 w2 = Some (rc, w')"
    using assms(1,2,4) by (auto simp: vk_socket_handle_read_def bind_eq_Some_conv)
  have "calm ?w1 w'" "rc = 0"
    using calm_trans [OF calm_enqueue_read [OF w2(1)]] calm_block_and [OF w2(2)] by simp_all
  moreover have "vec_error (so_rx (w_socket ?w1 s)) = e \<and> so_error (w_socket ?w1 s) = 0"
    using assms(3)
    by (auto simp: sock_readv_def vk_vectoring_read_def readv_def readv_errno_def Let_def put_rx_def
        vk_vectoring_signed_received_def note_error_def vk_socket_handle_error_def)
  ultimately show ?thesis by (simp add: calm_def calm_ring_def)
qed

theorem socket_read_error_lost_witness:
  "\<exists>rc w'. vk_socket_handle_read (quiet_os\<lparr>os_readv := Inl EPIPE\<rparr>) 128 read_world = Some (rc, w') \<and>
    vec_error (so_rx (w_socket w' 128)) = EPIPE \<and> so_error (w_socket w' 128) = 0"
proof -
  let ?os = "quiet_os\<lparr>os_readv := Inl EPIPE\<rparr>"
  obtain rc w' where h: "vk_socket_handle_read ?os 128 read_world = Some (rc, w')"
    using handle_read_yields [OF read_world_sound(1), of ?os] by (auto simp: yields_rc_def)
  have "pipe_ref (so_rx_fd (w_socket read_world 128)) = VK_PIPE_OS_FD 3"
    "pipe_fd_type (so_rx_fd (w_socket read_world 128)) \<noteq> VK_FD_TYPE_SOCKET_LISTEN"
    by (simp_all add: read_world_def upd_block_def idle_world_def idle_socket_def os_pipe_def)
  from socket_read_error_lost [OF this _ h] h show ?thesis by auto
qed

subsection \<open>Between two coroutines\<close>

lemma sock_splice_moves:
  assumes "rings_ok w" "0 \<le> vec_error (so_rx (w_socket w rx))" "0 \<le> vec_error (so_tx (w_socket w tx))"
    "no_overlap (buf_start (so_rx (w_socket w rx))) (unat (buf_len (so_rx (w_socket w rx))))
       (buf_start (so_tx (w_socket w tx))) (unat (buf_len (so_tx (w_socket w tx))))"
    "sock_splice os rx tx w = (rc, w')"
  shows "let n = splice_amount (so_rx (w_socket w rx)) (so_tx (w_socket w tx)) (- 1) in
    rc = int n \<and>
    ring_data (w_mem w') (so_rx (w_socket w' rx)) =
      ring_data (w_mem w) (so_rx (w_socket w rx)) @ take n (ring_data (w_mem w) (so_tx (w_socket w tx))) \<and>
    ring_data (w_mem w') (so_tx (w_socket w' tx)) = drop n (ring_data (w_mem w) (so_tx (w_socket w tx))) \<and>
    (0 < n \<longrightarrow> vec_effect (so_rx (w_socket w' rx)) \<and> vec_effect (so_tx (w_socket w' tx)))"
proof -
  obtain rc0 e0 m0 r0 t0 where
    sp: "vk_vectoring_recv_splice (lit_addr os) (w_errno w) (w_mem w) (so_rx (w_socket w rx))
      (so_tx (w_socket w tx)) (- 1) = (rc0, e0, m0, r0, t0)"
    by (metis prod.exhaust)
  note q = splice_queue [OF rings_okD(1) [OF assms(1)] assms(2) rings_okD(2) [OF assms(1)] assms(3,4) _ sp]
  obtain e1 r1 t1 where w': "rc = rc0" "w' = w\<lparr>w_errno := e1, w_mem := m0, w_socket := (w_socket w)
      (rx := so_rx_update (\<lambda>_. r1) (w_socket w rx),
       tx := so_tx_update (\<lambda>_. t1) (((w_socket w)(rx := so_rx_update (\<lambda>_. r1) (w_socket w rx))) tx))\<rparr>"
    and r1: "ring_data m0 r1 = ring_data m0 r0" "vec_effect r1 = vec_effect r0"
    and t1: "ring_data m0 t1 = ring_data m0 t0" "vec_effect t1 = vec_effect t0"
    using assms(5) by (auto simp: sock_splice_def vk_vectoring_splice_def sp put_rx_def put_tx_def
        upd_socket_def split: prod.splits)
  have w1: "w_mem w' = m0" "so_rx (w_socket w' rx) = r1" "so_tx (w_socket w' tx) = t1"
    unfolding w'(2) by simp_all
  show ?thesis using q unfolding w'(1) w1 Let_def r1 t1 by simp
qed

lemma calm_data:
  "calm w w' \<Longrightarrow> ring_data (w_mem w') (so_rx (w_socket w' s)) = ring_data (w_mem w) (so_rx (w_socket w s))"
  "calm w w' \<Longrightarrow> ring_data (w_mem w') (so_tx (w_socket w' s)) = ring_data (w_mem w) (so_tx (w_socket w s))"
  by (simp_all add: calm_def calm_ring_def same_ringD(4))

lemma note_error_ok: "rc \<noteq> - 1 \<Longrightarrow> note_error s (rc, w) = w"
  by (simp add: note_error_def)

lemma enqueue_read_tx: "vk_socket_enqueue_read s w = Some w' \<Longrightarrow> so_tx (w_socket w' p) = so_tx (w_socket w p)"
  by (auto simp: vk_socket_enqueue_read_def vk_socket_handle_rx_effect_def Let_def vk_socket_enqueue_self_def
      bind_eq_Some_conv split: prod.splits if_splits)

lemma enqueue_read_status:
  "vk_socket_enqueue_read s w = Some w' \<Longrightarrow>
    th_status (w_thread w' t) = VK_PROC_END \<longleftrightarrow> th_status (w_thread w t) = VK_PROC_END"
  by (auto simp: vk_socket_enqueue_read_def vk_socket_handle_rx_effect_def Let_def vk_socket_enqueue_self_def
      bind_eq_Some_conv split: prod.splits if_splits)

lemma sock_splice_threads: "w_thread (snd (sock_splice os rx tx w)) = w_thread w"
  by (simp add: sock_splice_def split: prod.split)

lemma readwriter_wakes:
  assumes "vk_socket_enqueue_readwriter s w = Some w'" "queues_inv w"
    "pipe_ref (so_rx_fd (w_socket w s)) = VK_PIPE_VK_TX p" "vec_effect (so_tx (w_socket w p))"
    "blocked_vk (so_block (w_socket w p)) = t" "th_status (w_thread w t) \<noteq> VK_PROC_END"
  shows "t \<in> set (run_q (w_local w'))"
proof -
  obtain b w1 where e: "vk_socket_handle_tx_effect p w = (b, w1)" by fastforce
  then have b: "b" and w1: "w1 = upd_socket p (so_tx_update (\<lambda>_. snd (vk_vectoring_handle_effect
      (so_tx (w_socket w p))))) w"
    using assms(4) by (auto simp: vk_socket_handle_tx_effect_def vk_vectoring_handle_effect_def Let_def
        split: if_splits)
  have peer: "vk_pipe_get_socket (so_rx_fd (w_socket w s)) = p" "vk_pipe_get_socket (so_rx_fd (w_socket w1 s)) = p"
    using assms(3) by (cases "s = p"; simp add: vk_pipe_get_socket_def w1)+
  have "deref p \<noteq> None" using assms(1) by (auto simp: vk_socket_enqueue_readwriter_def peer bind_eq_Some_conv)
  then have p: "deref p = Some p" by (auto simp: deref_def split: if_splits)
  obtain w2 where w2: "enqueue_other p w1 = Some w2" "vk_socket_enqueue_self s w2 = Some w'"
    using assms(1) b
    by (auto simp: vk_socket_enqueue_readwriter_def peer(1) p e bind_eq_Some_conv
        vk_socket_enqueue_otherwriter_def peer(2))
  have t: "blocked_vk (so_block (w_socket w1 p)) = t" using assms(5) by (simp add: w1)
  have "queues_inv w1" using assms(2) by (simp add: w1 queues_inv_upd_socket)
  then have "run.inv w1" using run_minv [of w1] by (simp add: queues_inv_def run.minv_def)
  moreover have "th_status (w_thread w1 t) \<noteq> VK_PROC_END" using assms(6) by (simp add: w1)
  ultimately have "t \<in> set (run_q (w_local (vk_proc_local_enqueue_run t w1)))"
    using run.enqueue_mem [of w1 t] by simp
  moreover have "w2 = upd_thread t vk_ready (vk_proc_local_enqueue_run t w1)"
    using w2(1) by (auto simp: enqueue_other_def p t bind_eq_Some_conv deref_def split: if_splits)
  ultimately have "t \<in> set (run_q (w_local w2))" by simp
  with calm_enqueue_self [OF w2(2)] show ?thesis by (auto simp: calm_def)
qed

lemma calm_otherwriter: "vk_socket_enqueue_otherwriter s w = Some w' \<Longrightarrow> calm w w'"
  by (auto simp: vk_socket_enqueue_otherwriter_def bind_eq_Some_conv dest: calm_enqueue_other)

lemma calm_readwriter:
  assumes "vk_socket_enqueue_readwriter s w = Some w'"
  shows "calm w w'"
proof -
  let ?p = "vk_pipe_get_socket (so_rx_fd (w_socket w s))"
  obtain b u where e: "vk_socket_handle_tx_effect ?p w = (b, u)" by fastforce
  then have "calm w u" using calm_tx_effect [of w ?p] by simp
  moreover have "calm u w'"
  proof (cases b)
    case True
    then obtain y where "vk_socket_enqueue_otherwriter s u = Some y" "vk_socket_enqueue_self s y = Some w'"
      using assms e
      by (auto simp: vk_socket_enqueue_readwriter_def bind_eq_Some_conv deref_def split: if_splits)
    then show ?thesis using calm_trans [OF calm_otherwriter calm_enqueue_self] by blast
  next
    case False
    then show ?thesis using assms e
      by (auto simp: vk_socket_enqueue_readwriter_def bind_eq_Some_conv deref_def split: if_splits)
  qed
  ultimately show ?thesis by (rule calm_trans)
qed

text \<open>C30: Reading from a virtual pipe transfers the peer's pending bytes: handling a read of socket s whose
  reader pipe is the sending side of socket p moves as many bytes as are there and fit from
  p's sending ring to the end of s's receiving ring, in order and without loss, and when
  it moved any, the coroutine of p that waits to send is on the run queue.\<close>

theorem socket_pipe_read_transfers:
  assumes "linked w s" "queues_inv w" "rings_ok w"
    "pipe_ref (so_rx_fd (w_socket w s)) = VK_PIPE_VK_TX p"
    "0 \<le> vec_error (so_rx (w_socket w s))" "0 \<le> vec_error (so_tx (w_socket w p))"
    "no_overlap (buf_start (so_rx (w_socket w s))) (unat (buf_len (so_rx (w_socket w s))))
       (buf_start (so_tx (w_socket w p))) (unat (buf_len (so_tx (w_socket w p))))"
    "vk_socket_handle_read os s w = Some (rc, w')"
  shows "let n = splice_amount (so_rx (w_socket w s)) (so_tx (w_socket w p)) (- 1);
      t = blocked_vk (so_block (w_socket w p)) in
    ring_data (w_mem w') (so_rx (w_socket w' s)) =
      ring_data (w_mem w) (so_rx (w_socket w s)) @ take n (ring_data (w_mem w) (so_tx (w_socket w p))) \<and>
    ring_data (w_mem w') (so_tx (w_socket w' p)) = drop n (ring_data (w_mem w) (so_tx (w_socket w p))) \<and>
    (0 < n \<and> th_status (w_thread w t) \<noteq> VK_PROC_END \<longrightarrow> t \<in> set (run_q (w_local w')))"
proof -
  let ?n = "splice_amount (so_rx (w_socket w s)) (so_tx (w_socket w p)) (- 1)"
  let ?t = "blocked_vk (so_block (w_socket w p))"
  obtain n w1 where sp: "sock_splice os s p w = (n, w1)" by fastforce
  note mv = sock_splice_moves [OF assms(3,5,6,7) sp, unfolded Let_def]
  have f1: "frame_ok w w1" using frame_sock_splice [of w os s p] by (simp add: sp)
  have "deref p = Some p" using linked_peer(1) [OF assms(1,4)] by (simp add: deref_vk)
  then obtain w2 w3 where
    w2: "vk_socket_enqueue_read s w1 = Some w2" and w3: "vk_socket_enqueue_readwriter s w2 = Some w3"
    and w4: "block_and s 0 w3 = Some (rc, w')"
    using assms(8) mv by (auto simp: vk_socket_handle_read_def assms(4) sp note_error_ok bind_eq_Some_conv)
  obtain v where "vk_socket_enqueue_read s w1 = Some v" "frame_ok w v"
    using yields_enqueue_read' [OF f1 assms(1)] by (auto simp: yields_def)
  then have f2: "frame_ok w w2" using w2 by simp
  have c3: "calm w2 w3" using calm_readwriter [OF w3] .
  have c: "calm w1 w'"
    using calm_trans [OF calm_enqueue_read [OF w2] calm_trans [OF c3]] calm_block_and [OF w4] by blast
  have "?t \<in> set (run_q (w_local w'))" if "0 < ?n" "th_status (w_thread w ?t) \<noteq> VK_PROC_END"
  proof -
    have "queues_inv w2" using f2 assms(2,3) by (simp add: frame_ok_def sound_def)
    moreover have "pipe_ref (so_rx_fd (w_socket w2 s)) = VK_PIPE_VK_TX p"
      using pipe_ref_frame(1) [OF f2, of s] assms(4) by simp
    moreover have "vec_effect (so_tx (w_socket w2 p))"
      using mv that(1) by (simp add: enqueue_read_tx [OF w2])
    moreover have "blocked_vk (so_block (w_socket w2 p)) = ?t"
      using f2 by (simp add: frame_ok_def same_links_def)
    moreover have "th_status (w_thread w2 ?t) \<noteq> VK_PROC_END"
      using that(2) sock_splice_threads [of os s p w] by (simp add: enqueue_read_status [OF w2] sp)
    ultimately have "?t \<in> set (run_q (w_local w3))" by (rule readwriter_wakes [OF w3])
    with calm_block_and [OF w4] show ?thesis by (auto simp: calm_def)
  qed
  with mv calm_data [OF c] show ?thesis by (simp add: Let_def)
qed

definition pipe_world :: vk_world where
  "pipe_world = upd_socket 128 (so_rx_fd_update (\<lambda>p. vk_pipe_init_tx p 256)) read_world"

lemma pipe_world_ok:
  "linked pipe_world 128" "queues_inv pipe_world" "rings_ok pipe_world"
  "pipe_ref (so_rx_fd (w_socket pipe_world 128)) = VK_PIPE_VK_TX 256"
  "so_rx (w_socket pipe_world s) = empty_ring" "so_tx (w_socket pipe_world s) = wrapped_ring"
  "blocked_vk (so_block (w_socket pipe_world s)) = 64" "w_thread pipe_world t = idle_thread"
  "w_mem pipe_world = (\<lambda>x. ucast x)"
proof -
  have eq: "w_socket pipe_world x =
      (if x = 128 then idle_socket\<lparr>so_block := (so_block idle_socket)\<lparr>blk_op := VK_OP_READ\<rparr>,
         so_rx_fd := vk_pipe_init_tx (os_pipe 3) 256\<rparr> else idle_socket)" for x
    by (simp add: pipe_world_def read_world_def upd_block_def idle_world_def idle_socket_def)
  show "linked pipe_world 128" "rings_ok pipe_world"
    "pipe_ref (so_rx_fd (w_socket pipe_world 128)) = VK_PIPE_VK_TX 256"
    "so_rx (w_socket pipe_world s) = empty_ring" "so_tx (w_socket pipe_world s) = wrapped_ring"
    "blocked_vk (so_block (w_socket pipe_world s)) = 64"
    by (simp_all add: linked_def has_vk_def pipe_linked_def rings_ok_def eq idle_socket_def os_pipe_def
        vk_pipe_init_tx_def wrapped_ring_wf empty_ring_wf)
  show "queues_inv pipe_world"
    using read_world_sound(2) by (simp add: pipe_world_def queues_inv_upd_socket)
  show "w_thread pipe_world t = idle_thread" "w_mem pipe_world = (\<lambda>x. ucast x)"
    by (simp_all add: pipe_world_def read_world_def upd_block_def idle_world_def)
qed

theorem socket_pipe_read_transfers_witness:
  "\<exists>rc w'. vk_socket_handle_read quiet_os 128 pipe_world = Some (rc, w') \<and>
    ring_data (w_mem w') (so_rx (w_socket w' 128)) = [102, 103, 100] \<and>
    ring_data (w_mem w') (so_tx (w_socket w' 256)) = [] \<and> 64 \<in> set (run_q (w_local w'))"
proof -
  obtain rc w' where h: "vk_socket_handle_read quiet_os 128 pipe_world = Some (rc, w')"
    using handle_read_yields [OF pipe_world_ok(1), of quiet_os] by (auto simp: yields_rc_def)
  note w = wrapped_ring_wf empty_ring_wf
  have sep: "no_overlap (buf_start empty_ring) (unat (buf_len empty_ring)) (buf_start wrapped_ring)
      (unat (buf_len wrapped_ring))"
    by (simp add: w no_overlap_def range_addrs_def upt_rec)
  have "unat (tx_len wrapped_ring) = 3" by (simp add: wrapped_ring_def)
  then have n: "splice_amount empty_ring wrapped_ring (- 1) = 3" by (simp add: splice_amount_def w)
  from socket_pipe_read_transfers [OF pipe_world_ok(1-4) _ _ _ h] h sep show ?thesis
    by (simp add: pipe_world_ok w n idle_thread_def Let_def)
qed

end
