(* ===== verification/Kern_Props.thy ===== *)
theory Kern_Props
  imports Kern Socket_Props
begin

text \<open>
  What the kernel guarantees of its queues, of the protection of its heap and of the results
  of polling: polled sockets wake their coroutines, the queues of processes follow the queues
  inside the processes, an unprivileged process runs with the kernel's heap closed.
\<close>

subsection \<open>What a handler does to the queues of its process\<close>

text \<open>Nobody leaves the run queue and nobody but the socket joins the blocked queue.\<close>

definition local_move :: "addr \<Rightarrow> vk_proc_local \<Rightarrow> vk_proc_local \<Rightarrow> bool" where
  "local_move s l l' \<longleftrightarrow> set (run_q l) \<subseteq> set (run_q l') \<and> set (blocked_q l') \<subseteq> insert s (set (blocked_q l))"

abbreviation queues_move :: "addr \<Rightarrow> vk_world \<Rightarrow> vk_world \<Rightarrow> bool" where
  "queues_move s w w' \<equiv> local_move s (w_local w) (w_local w')"

lemmas queues_move_def = local_move_def

lemma move_refl [simp]: "local_move s l l"
  by (auto simp: queues_move_def)

lemma move_trans: "local_move s l1 l2 \<Longrightarrow> local_move s l2 l3 \<Longrightarrow> local_move s l1 l3"
  by (auto simp: queues_move_def)

lemma move_local: "w_local w' = w_local w \<Longrightarrow> queues_move s w w'"
  by (auto simp: queues_move_def)

lemma move_from: "w_local w1 = w_local w \<Longrightarrow> queues_move s w1 w' \<Longrightarrow> queues_move s w w'"
  by (simp add: queues_move_def)

lemma enqueue_run_blocked [simp]:
  "blocked_q (w_local (vk_proc_local_enqueue_run t w)) = blocked_q (w_local w)"
  by (simp add: vk_proc_local_enqueue_run_def Let_def)

lemma move_enqueue_run [simp]: "queues_move s w (vk_proc_local_enqueue_run t w)"
  using run.enqueue_mono [of w t] by (auto simp: queues_move_def)

lemma upd_socket_local [simp]: "w_local (upd_socket s f w) = w_local w"
  by (simp add: upd_socket_def)

lemma upd_block_local [simp]: "w_local (upd_block s f w) = w_local w"
  by (simp add: upd_block_def)

lemma move_self: "vk_socket_enqueue_self x w = Some w' \<Longrightarrow> queues_move s w w'"
  by (auto simp: vk_socket_enqueue_self_def bind_eq_Some_conv intro: move_local)

lemma move_other: "enqueue_other p w = Some w' \<Longrightarrow> queues_move s w w'"
  by (auto simp: enqueue_other_def bind_eq_Some_conv)

lemma effect_local [simp]:
  "w_local (snd (vk_socket_handle_rx_effect s w)) = w_local w"
  "w_local (snd (vk_socket_handle_tx_effect s w)) = w_local w"
  by (simp_all add: vk_socket_handle_rx_effect_def vk_socket_handle_tx_effect_def split: prod.split)

lemma effect_local' :
  "vk_socket_handle_rx_effect x w = (b, w1) \<Longrightarrow> w_local w1 = w_local w"
  "vk_socket_handle_tx_effect x w = (b, w1) \<Longrightarrow> w_local w1 = w_local w"
  using effect_local [of x w] by simp_all

lemma move_enqueue_read: "vk_socket_enqueue_read x w = Some w' \<Longrightarrow> queues_move s w w'"
  by (auto simp: vk_socket_enqueue_read_def split: prod.splits if_splits dest!: effect_local'
      intro: move_local move_from move_self)

lemma move_enqueue_write: "vk_socket_enqueue_write x w = Some w' \<Longrightarrow> queues_move s w w'"
  by (auto simp: vk_socket_enqueue_write_def split: prod.splits if_splits dest!: effect_local'
      intro: move_local move_from move_self)

lemma move_readwriter:
  assumes "vk_socket_enqueue_readwriter x w = Some w'"
  shows "queues_move s w w'"
proof -
  obtain y where y: "deref (vk_pipe_get_socket (so_rx_fd (w_socket w x))) = Some y"
    using assms by (auto simp: vk_socket_enqueue_readwriter_def bind_eq_Some_conv)
  obtain b w1 where e: "vk_socket_handle_tx_effect y w = (b, w1)" by fastforce
  have l: "w_local w1 = w_local w" using effect_local' e by blast
  show ?thesis
  proof (cases b)
    case True
    then show ?thesis using assms y e
      by (auto simp: vk_socket_enqueue_readwriter_def vk_socket_enqueue_otherwriter_def bind_eq_Some_conv
          intro: move_from [OF l move_trans [OF move_other move_self]])
  next
    case False
    then show ?thesis using assms y e l by (auto simp: vk_socket_enqueue_readwriter_def intro: move_local)
  qed
qed

lemma move_writereader:
  assumes "vk_socket_enqueue_writereader x w = Some w'"
  shows "queues_move s w w'"
proof -
  obtain y where y: "deref (vk_pipe_get_socket (so_tx_fd (w_socket w x))) = Some y"
    using assms by (auto simp: vk_socket_enqueue_writereader_def bind_eq_Some_conv)
  obtain b w1 where e: "vk_socket_handle_rx_effect y w = (b, w1)" by fastforce
  have l: "w_local w1 = w_local w" using effect_local' e by blast
  show ?thesis
  proof (cases b)
    case True
    then show ?thesis using assms y e
      by (auto simp: vk_socket_enqueue_writereader_def vk_socket_enqueue_otherreader_def bind_eq_Some_conv
          intro: move_from [OF l move_trans [OF move_other move_self]])
  next
    case False
    then show ?thesis using assms y e l by (auto simp: vk_socket_enqueue_writereader_def intro: move_local)
  qed
qed

lemma move_enqueue_blocked: "vk_socket_enqueue_blocked s w = Some w' \<Longrightarrow> queues_move s w w'"
  by (auto simp: vk_socket_enqueue_blocked_def vk_proc_local_enqueue_blocked_def queues_move_def
      bind_eq_Some_conv split: if_splits)

lemma marks_local [simp]:
  "w_local (vk_socket_mark_read_block s w) = w_local w" "w_local (vk_socket_clear_read_block s w) = w_local w"
  "w_local (vk_socket_mark_write_block s w) = w_local w" "w_local (vk_socket_clear_write_block s w) = w_local w"
  "w_local (block_fds s w) = w_local w" "w_local (forward_closed s w) = w_local w"
  by (simp_all add: vk_socket_mark_read_block_def vk_socket_clear_read_block_def
      vk_socket_mark_write_block_def vk_socket_clear_write_block_def block_fds_def forward_closed_def Let_def)

lemma move_handle_block:
  assumes "vk_socket_handle_block s w = Some w'"
  shows "queues_move s w w'"
proof -
  let ?w1 = "forward_closed s (block_fds s w)"
  obtain w2 where
    a: "(if vk_pipe_get_fd (so_rx_fd (w_socket ?w1 s)) \<ge> 0 \<and> rx_blocked (so_rx (w_socket ?w1 s))
      then vk_socket_enqueue_blocked s (vk_socket_mark_read_block s ?w1)
      else Some (vk_socket_clear_read_block s ?w1)) = Some w2"
    and b: "(if vk_pipe_get_fd (so_tx_fd (w_socket w2 s)) \<ge> 0 \<and> tx_blocked (so_tx (w_socket w2 s))
      then vk_socket_enqueue_blocked s (vk_socket_mark_write_block s w2)
      else Some (vk_socket_clear_write_block s w2)) = Some w'"
    using assms unfolding vk_socket_handle_block_def Let_def bind_eq_Some_conv by blast
  have "queues_move s w w2" using a
    by (auto split: if_splits dest!: move_enqueue_blocked intro: move_from [rotated] move_local)
  moreover have "queues_move s w2 w'" using b
    by (auto split: if_splits dest!: move_enqueue_blocked intro: move_from [rotated] move_local)
  ultimately show ?thesis by (rule move_trans)
qed

lemma move_block_and: "block_and s rc w = Some (rc', w') \<Longrightarrow> queues_move s w w'"
  by (auto simp: block_and_def bind_eq_Some_conv dest: move_handle_block)

lemma move_close_end: "close_end s w = Some (rc, w') \<Longrightarrow> queues_move s w w'"
  by (auto simp: close_end_def bind_eq_Some_conv intro: move_trans [OF move_handle_block move_self])

lemma ring_local [simp]:
  "w_local (snd (put_rx s res w)) = w_local w" "w_local (snd (put_tx s res2 w)) = w_local w"
  "w_local (snd (put_rx_ring s res2 w)) = w_local w"
  "w_local (snd (sock_splice os x y w)) = w_local w" "w_local (snd (sock_readv os s w)) = w_local w"
  "w_local (snd (sock_accept os s w)) = w_local w" "w_local (snd (sock_writev os s w)) = w_local w"
  "w_local (note_error s res3) = w_local (snd res3)" "w_local (set_errno e w) = w_local w"
  "w_local (mark_rx_closed s w) = w_local w" "w_local (mark_tx_closed s w) = w_local w"
  by (auto simp: put_rx_def put_tx_def put_rx_ring_def sock_splice_def sock_readv_def sock_accept_def
      sock_writev_def note_error_def vk_socket_handle_error_def set_errno_def mark_rx_closed_def
      mark_tx_closed_def split: prod.split)

text \<open>Chaining the steps of a handler.\<close>

lemma move_after_run: "queues_move s (vk_proc_local_enqueue_run t w) w' \<Longrightarrow> queues_move s w w'"
  by (rule move_trans [OF move_enqueue_run])

lemmas moved = move_after_run move_enqueue_read [where s = s for s] move_enqueue_write [where s = s for s]
  move_readwriter [where s = s for s] move_writereader [where s = s for s] move_block_and move_close_end
  move_self [where s = s for s]

lemma move_handle_read:
  assumes "vk_socket_handle_read os s w = Some (rc, w')"
  shows "queues_move s w w'"
  using assms unfolding vk_socket_handle_read_def
  by (auto simp: bind_eq_Some_conv Let_def split: vk_pipe_ref.splits if_splits prod.splits
      dest!: moved [where s = s] intro: move_trans)

lemma move_handle_write:
  assumes "vk_socket_handle_write os s w = Some (rc, w')"
  shows "queues_move s w w'"
  using assms unfolding vk_socket_handle_write_def
  by (auto simp: bind_eq_Some_conv Let_def split: vk_pipe_ref.splits if_splits prod.splits
      dest!: moved [where s = s] intro: move_trans)

lemma move_forward_write:
  assumes "forward_write g os s w = Some (rc, w')"
  shows "queues_move s w w'"
  using assms unfolding forward_write_def
  by (auto simp: bind_eq_Some_conv Let_def split: vk_pipe_ref.splits if_splits prod.splits
      dest!: moved [where s = s] intro: move_trans)

lemma move_handle_forward:
  assumes "vk_socket_handle_forward os s w = Some (rc, w')"
  shows "queues_move s w w'"
  using assms unfolding vk_socket_handle_forward_def
  by (auto simp: bind_eq_Some_conv Let_def split: vk_pipe_ref.splits if_splits prod.splits
      dest!: moved [where s = s] move_forward_write intro: move_trans)

lemma move_handle_readhup:
  assumes "vk_socket_handle_readhup s w = Some (rc, w')"
  shows "queues_move s w w'"
proof (cases "pipe_ref (so_rx_fd (w_socket w s))")
  case (VK_PIPE_VK_TX x)
  obtain y where y: "deref x = Some y" using assms VK_PIPE_VK_TX
    by (auto simp: vk_socket_handle_readhup_def bind_eq_Some_conv)
  obtain n t r where f: "vk_vectoring_forwardhup (so_tx (w_socket w y)) (so_rx (w_socket w s)) = (n, t, r)"
    by (metis prod.exhaust)
  show ?thesis using assms VK_PIPE_VK_TX y f
    by (auto simp: vk_socket_handle_readhup_def bind_eq_Some_conv Let_def split: if_splits
        dest!: moved [where s = s] intro: move_trans)
qed (use assms in \<open>auto simp: vk_socket_handle_readhup_def bind_eq_Some_conv
      dest!: moved [where s = s] intro: move_trans\<close>)

lemma move_handle_hup:
  assumes "vk_socket_handle_hup s w = Some (rc, w')"
  shows "queues_move s w w'"
  using assms unfolding vk_socket_handle_hup_def
  by (auto simp: bind_eq_Some_conv Let_def split: vk_pipe_ref.splits if_splits prod.splits
      dest!: moved [where s = s] intro: move_trans)

lemma move_handle_tx_close:
  assumes "vk_socket_handle_tx_close os s w = Some (rc, w')"
  shows "queues_move s w w'"
  using assms unfolding vk_socket_handle_tx_close_def
  by (auto simp: bind_eq_Some_conv Let_def split: vk_pipe_ref.splits if_splits prod.splits
      dest!: moved [where s = s] intro: move_trans)

lemma move_handle_rx_close:
  assumes "vk_socket_handle_rx_close os s w = Some (rc, w')"
  shows "queues_move s w w'"
  using assms unfolding vk_socket_handle_rx_close_def
  by (auto simp: bind_eq_Some_conv Let_def split: vk_pipe_ref.splits if_splits prod.splits
      dest!: moved [where s = s] intro: move_trans)

lemma move_handle_tx_shutdown:
  assumes "vk_socket_handle_tx_shutdown os s w = Some (rc, w')"
  shows "queues_move s w w'"
  using assms unfolding vk_socket_handle_tx_shutdown_def
  by (auto simp: bind_eq_Some_conv Let_def split: vk_pipe_ref.splits if_splits prod.splits
      dest!: moved [where s = s] intro: move_trans)

lemma move_handle_rx_shutdown:
  assumes "vk_socket_handle_rx_shutdown os s w = Some (rc, w')"
  shows "queues_move s w w'"
  using assms unfolding vk_socket_handle_rx_shutdown_def
  by (auto simp: bind_eq_Some_conv Let_def split: vk_pipe_ref.splits if_splits prod.splits
      dest!: moved [where s = s] intro: move_trans)

lemma move_handler:
  assumes "vk_socket_handler os s w = Some (rc, w')"
  shows "queues_move s w w'"
proof (cases "blk_op (so_block (w_socket w s)) = VK_OP_READ")
  case True
  then show ?thesis using assms
    by (auto simp: vk_socket_handler_def bind_eq_Some_conv split: if_splits
        dest: move_handle_read move_handle_write intro: move_trans [OF move_handle_read move_handle_write])
next
  case False
  then show ?thesis using assms
    by (cases "blk_op (so_block (w_socket w s))")
      (auto simp: vk_socket_handler_def vk_socket_handle_readable_def vk_socket_handle_writable_def
        dest: move_handle_write move_handle_forward move_handle_hup move_handle_readhup move_handle_tx_close
          move_handle_rx_close move_handle_tx_shutdown move_handle_rx_shutdown)
qed

subsection \<open>Polling results wake every blocked coroutine\<close>

definition local_ok :: "vk_world \<Rightarrow> bool" where
  "local_ok w \<longleftrightarrow> sound w \<and> (\<forall>s \<in> set (blocked_q (w_local w)). linked w s)"

lemma frame_ret: "frame_ok w (upd_block s (ioft_rx_ret_update f) w)" "frame_ok w (upd_block s (ioft_tx_ret_update f) w)"
  by (rule frame_upd_block; simp)+

lemma apply_results_ok:
  "frame_ok w (case apply_results k ss w of Inl w' \<Rightarrow> w' | Inr w' \<Rightarrow> w') \<and>
   w_local (case apply_results k ss w of Inl w' \<Rightarrow> w' | Inr w' \<Rightarrow> w') = w_local w"
proof (induction ss arbitrary: w)
  case Nil
  then show ?case by simp
next
  case (Cons s ss)
  show ?case
  proof (cases "apply_ret k (ioft_rx_pre (so_block (w_socket w s))) (ioft_rx_ret (so_block (w_socket w s)))")
    case None
    then show ?thesis by simp
  next
    case rx: (Some rx)
    let ?w1 = "upd_block s (ioft_rx_ret_update (\<lambda>_. rx)) w"
    show ?thesis
    proof (cases "apply_ret k (ioft_tx_pre (so_block (w_socket w s))) (ioft_tx_ret (so_block (w_socket w s)))")
      case None
      then show ?thesis using rx frame_ret by simp
    next
      case (Some tx)
      let ?w2 = "upd_block s (ioft_tx_ret_update (\<lambda>_. tx)) ?w1"
      have "frame_ok w ?w2" by (rule frame_ok_trans [OF frame_ret(1) frame_ret(2)])
      then show ?thesis using rx Some Cons.IH [of ?w2] by (auto intro: frame_ok_trans)
    qed
  qed
qed

lemma retry_move:
  assumes "vk_proc_local_retry_socket os s w = Some (rc, w')"
  shows "queues_move s w w'"
proof -
  have u: "w_local (unblock_tx s (unblock_rx s w)) = w_local w" by (simp add: unblock_tx_def unblock_rx_def)
  obtain rc1 w1 where h: "vk_socket_handler os s (unblock_tx s (unblock_rx s w)) = Some (rc1, w1)"
    and rest: "if rc1 = - 1 then w' = w1 else \<exists>w2 t. vk_proc_local_drop_blocked s w1 = Some w2 \<and>
      w' = vk_proc_local_enqueue_run t w2"
    using assms by (auto simp: vk_proc_local_retry_socket_def Let_def bind_eq_Some_conv split: if_splits) blast
  have m: "queues_move s w w1" using move_handler [OF h] by (simp add: u)
  have d: "queues_move s w1 w2" if "vk_proc_local_drop_blocked s w1 = Some w2" for w2
    using that by (auto simp: vk_proc_local_drop_blocked_def queues_move_def q_remove_def
        split: if_splits option.splits dest: set_remove1_subset [THEN subsetD])
  show ?thesis using rest m d by (auto split: if_splits intro: move_trans move_enqueue_run)
qed

definition awake :: "vk_world \<Rightarrow> addr \<Rightarrow> bool" where
  "awake w t \<longleftrightarrow> th_status (w_thread w t) \<noteq> VK_PROC_END \<longrightarrow> t \<in> set (run_q (w_local w))"

lemma retry_sockets_ok:
  assumes "sound w" "\<forall>s \<in> set ss. linked w s"
  shows "\<exists>rc w'. retry_sockets os j ss w = Some (rc, w') \<and> frame_ok w w' \<and> (rc = - 1 \<or> rc = 0) \<and>
    set (run_q (w_local w)) \<subseteq> set (run_q (w_local w')) \<and>
    set (blocked_q (w_local w')) \<subseteq> set ss \<union> set (blocked_q (w_local w)) \<and>
    (rc = 0 \<longrightarrow> (\<forall>s \<in> set ss. awake w' (blocked_vk (so_block (w_socket w s)))))"
  using assms
proof (induction ss arbitrary: j w)
  case Nil
  then show ?case by simp
next
  case (Cons s ss)
  obtain rc w1 where r: "vk_proc_local_retry_socket (os j) s w = Some (rc, w1)"
    and wake: "rc = - 1 \<or> rc = 0 \<and> (th_status (w_thread w (blocked_vk (so_block (w_socket w s)))) \<noteq> VK_PROC_END \<longrightarrow>
      blocked_vk (so_block (w_socket w s)) \<in> set (run_q (w_local w1)))"
    using retry_socket_ok [of w s "os j"] Cons.prems by (auto simp: sound_def Let_def)
  have f: "frame_ok w w1" using retry_frame [OF _ r] Cons.prems(2) by simp
  note m = retry_move [OF r, unfolded queues_move_def]
  show ?case
  proof (cases "rc = - 1")
    case True
    then show ?thesis using r f m by auto
  next
    case False
    have s1: "sound w1" "\<forall>x \<in> set ss. linked w1 x"
      using sound_frame [OF f] linked_frame [OF f] Cons.prems by auto
    obtain rc' w' where ih: "retry_sockets os (Suc j) ss w1 = Some (rc', w')" "frame_ok w1 w'" "rc' = - 1 \<or> rc' = 0"
      "set (run_q (w_local w1)) \<subseteq> set (run_q (w_local w'))"
      "set (blocked_q (w_local w')) \<subseteq> set ss \<union> set (blocked_q (w_local w1))"
      "rc' = 0 \<Longrightarrow> \<forall>x \<in> set ss. awake w' (blocked_vk (so_block (w_socket w1 x)))"
      using Cons.IH [OF s1, of "Suc j"] by blast
    have vk: "blocked_vk (so_block (w_socket w1 x)) = blocked_vk (so_block (w_socket w x))" for x
      using f by (simp add: frame_ok_def same_links_def)
    have "awake w1 (blocked_vk (so_block (w_socket w s)))"
      using wake False f by (simp add: awake_def frame_ok_def same_links_def)
    then have "awake w' (blocked_vk (so_block (w_socket w s)))"
      using ih(2,4) by (auto simp: awake_def frame_ok_def same_links_def)
    then show ?thesis using r False ih m vk frame_ok_trans [OF f ih(2)] by auto
  qed
qed

lemma postpoll_ok:
  assumes "local_ok (k_local k p)"
  shows "\<exists>rc w'. vk_proc_postpoll os p k = Some (rc, set_local p w' k) \<and> local_ok w' \<and>
    (rc = - 1 \<or> rc = 0 \<and> (\<forall>s \<in> set (blocked_q (w_local (k_local k p))).
      let t = blocked_vk (so_block (w_socket (k_local k p) s)) in
      th_status (w_thread (k_local k p) t) \<noteq> VK_PROC_END \<longrightarrow> t \<in> set (run_q (w_local w'))))"
proof -
  let ?w = "k_local k p"
  let ?ss = "blocked_q (w_local ?w)"
  have lok: "sound ?w" "\<forall>s \<in> set ?ss. linked ?w s" using assms by (simp_all add: local_ok_def)
  note ar = apply_results_ok [of ?w k ?ss]
  have keep: "local_ok v" if "frame_ok ?w v" "set (blocked_q (w_local v)) \<subseteq> set ?ss" for v
    using that lok sound_frame [OF that(1)] linked_frame [OF that(1)] by (auto simp: local_ok_def)
  show ?thesis
  proof (cases "apply_results k ?ss ?w")
    case (Inl w1)
    then show ?thesis using ar keep by (auto simp: vk_proc_postpoll_def Let_def)
  next
    case (Inr w1)
    have f: "frame_ok ?w w1" "w_local w1 = w_local ?w" using ar Inr by auto
    have s1: "sound w1" "\<forall>s \<in> set ?ss. linked w1 s" using sound_frame [OF f(1)] linked_frame [OF f(1)] lok by auto
    obtain rc w' where r: "retry_sockets os 0 ?ss w1 = Some (rc, w')" "frame_ok w1 w'" "rc = - 1 \<or> rc = 0"
      "set (blocked_q (w_local w')) \<subseteq> set ?ss \<union> set (blocked_q (w_local w1))"
      "rc = 0 \<Longrightarrow> \<forall>s \<in> set ?ss. awake w' (blocked_vk (so_block (w_socket w1 s)))"
      using retry_sockets_ok [OF s1, of os 0] by blast
    have f': "frame_ok ?w w'" by (rule frame_ok_trans [OF f(1) r(2)])
    have "local_ok w'" using keep [OF f'] r(4) f(2) by simp
    moreover have "rc = 0 \<Longrightarrow> s \<in> set ?ss \<Longrightarrow>
        (let t = blocked_vk (so_block (w_socket ?w s)) in
         th_status (w_thread ?w t) \<noteq> VK_PROC_END \<longrightarrow> t \<in> set (run_q (w_local w')))" for s
      using r(5) f(1) f' by (auto simp: awake_def frame_ok_def same_links_def Let_def)
    ultimately show ?thesis using Inr r(1,3) f(2) by (auto simp: vk_proc_postpoll_def Let_def)
  qed
qed

text \<open>A socket's results can be delivered: the descriptors it registered have slots in the table, and
  its operation is not refused.\<close>

definition slot_known :: "kern_world \<Rightarrow> vk_io_future \<Rightarrow> bool" where
  "slot_known k ft \<longleftrightarrow> ev_fd (ioft_event ft) = - 1 \<or> vk_fd_table_get k (ev_fd (ioft_event ft)) \<noteq> None"

definition deliverable :: "kern_world \<Rightarrow> vk_socket \<Rightarrow> bool" where
  "deliverable k so \<longleftrightarrow> slot_known k (ioft_rx_pre (so_block so)) \<and> slot_known k (ioft_tx_pre (so_block so)) \<and>
     well_piped so"

text \<open>The future \<open>ret\<close> of a registration \<open>pre\<close> once the event of its slot has arrived.\<close>

definition polled :: "kern_world \<Rightarrow> vk_io_future \<Rightarrow> vk_io_future \<Rightarrow> vk_io_future" where
  "polled k pre ret =
     (if ev_fd (ioft_event pre) = - 1 then ret
      else ret\<lparr>ioft_event := ioft_event (ioft_ret (k_fd k (of_int (ev_fd (ioft_event pre)))))\<rparr>)"

lemma apply_ret_polled: "slot_known k pre \<Longrightarrow> apply_ret k pre ret = Some (polled k pre ret)"
  by (auto simp: slot_known_def apply_ret_def polled_def vk_fd_table_get_def split: if_splits)

lemma polled_twice: "polled k pre (polled k pre ret) = polled k pre ret"
  by (simp add: polled_def)

definition same_pre :: "vk_world \<Rightarrow> vk_world \<Rightarrow> bool" where
  "same_pre w w' \<longleftrightarrow> (\<forall>x. ioft_rx_pre (so_block (w_socket w' x)) = ioft_rx_pre (so_block (w_socket w x)) \<and>
     ioft_tx_pre (so_block (w_socket w' x)) = ioft_tx_pre (so_block (w_socket w x)))"

definition results_in :: "kern_world \<Rightarrow> vk_world \<Rightarrow> addr \<Rightarrow> vk_world \<Rightarrow> bool" where
  "results_in k w s w' \<longleftrightarrow> (let b = so_block (w_socket w s); b' = so_block (w_socket w' s) in
     ioft_rx_ret b' = polled k (ioft_rx_pre b) (ioft_rx_ret b) \<and>
     ioft_tx_ret b' = polled k (ioft_tx_pre b) (ioft_tx_ret b))"

lemma apply_results_Inr:
  assumes "\<forall>s \<in> set ss. slot_known k (ioft_rx_pre (so_block (w_socket w s))) \<and>
      slot_known k (ioft_tx_pre (so_block (w_socket w s)))"
  shows "\<exists>w1. apply_results k ss w = Inr w1 \<and> same_pre w w1 \<and>
    (\<forall>s. if s \<in> set ss then results_in k w s w1 else so_block (w_socket w1 s) = so_block (w_socket w s))"
  using assms
proof (induction ss arbitrary: w)
  case Nil
  then show ?case by (simp add: same_pre_def)
next
  case (Cons s ss)
  let ?b = "so_block (w_socket w s)"
  let ?rx = "polled k (ioft_rx_pre ?b) (ioft_rx_ret ?b)" and ?tx = "polled k (ioft_tx_pre ?b) (ioft_tx_ret ?b)"
  let ?w2 = "upd_block s (ioft_tx_ret_update (\<lambda>_. ?tx)) (upd_block s (ioft_rx_ret_update (\<lambda>_. ?rx)) w)"
  have pre: "same_pre w ?w2" by (simp add: same_pre_def upd_block_def)
  have blocks: "so_block (w_socket ?w2 x) =
      (if x = s then ?b\<lparr>ioft_rx_ret := ?rx, ioft_tx_ret := ?tx\<rparr> else so_block (w_socket w x))" for x
    by (simp add: upd_block_def)
  obtain w1 where w1: "apply_results k ss ?w2 = Inr w1" "same_pre ?w2 w1"
    "\<And>x. if x \<in> set ss then results_in k ?w2 x w1 else so_block (w_socket w1 x) = so_block (w_socket ?w2 x)"
    using Cons.IH [of ?w2] Cons.prems pre by (auto simp: same_pre_def)
  have "apply_results k (s # ss) w = Inr w1" using Cons.prems w1(1) by (simp add: apply_ret_polled Let_def)
  moreover have "same_pre w w1" using pre w1(2) by (simp add: same_pre_def)
  moreover have "if x \<in> set (s # ss) then results_in k w x w1
      else so_block (w_socket w1 x) = so_block (w_socket w x)" for x
    using w1(3) [of x] by (auto simp: results_in_def blocks polled_twice Let_def split: if_splits)
  ultimately show ?case by blast
qed

lemma retry_sockets_chain:
  assumes "sound w" "\<forall>s \<in> set ss. linked w s \<and> well_piped (w_socket w s)"
  shows "\<exists>ws. length ws = Suc (length ss) \<and> ws ! 0 = w \<and> retry_sockets os j ss w = Some (0, last ws) \<and>
    (\<forall>i < length ss. vk_proc_local_retry_socket (os (j + i)) (ss ! i) (ws ! i) = Some (0, ws ! Suc i))"
  using assms
proof (induction ss arbitrary: j w)
  case Nil
  show ?case by (rule exI [of _ "[w]"]) simp
next
  case (Cons s ss)
  obtain rc w1 where r: "vk_proc_local_retry_socket (os j) s w = Some (rc, w1)"
    using retry_socket_ok [of w s "os j"] Cons.prems by (auto simp: sound_def)
  have rc: "rc = 0" using retry_rc [OF _ _ r] Cons.prems(2) by simp
  have f: "frame_ok w w1" using retry_frame [OF _ r] Cons.prems(2) by simp
  have "sound w1" "\<forall>x \<in> set ss. linked w1 x \<and> well_piped (w_socket w1 x)"
    using sound_frame [OF f] linked_frame [OF f] well_piped_frame [OF f] Cons.prems by auto
  from Cons.IH [OF this, of "Suc j"] obtain ws where ws: "length ws = Suc (length ss)" "ws ! 0 = w1"
    "retry_sockets os (Suc j) ss w1 = Some (0, last ws)"
    "\<forall>i < length ss. vk_proc_local_retry_socket (os (Suc j + i)) (ss ! i) (ws ! i) = Some (0, ws ! Suc i)"
    by blast
  have "vk_proc_local_retry_socket (os (j + i)) ((s # ss) ! i) ((w # ws) ! i) = Some (0, (w # ws) ! Suc i)"
    if "i < length (s # ss)" for i
    using that ws(2,4) r rc by (cases i) auto
  moreover have "ws \<noteq> []" using ws(1) by auto
  ultimately show ?case using ws(1,3) r rc by (intro exI [of _ "w # ws"]) simp
qed

text \<open>C6: After polling, no blocked coroutine is forgotten. When the descriptors a process has registered
  are in the table and its pipes lead the right way, post-poll returns 0: it copies the event
  of every slot into the future of the socket that waits for it, then retries each blocked
  socket once, in the order of the queue - each retry handles the operation and succeeds -
  and in the end the coroutine of every socket that was blocked, if it has not ended, is on
  the run queue, with queues and rings sound. \<open>ws\<close> are the worlds between the retries.\<close>

theorem postpoll_wakes_all:
  assumes "local_ok (k_local k p)"
    "\<forall>s \<in> set (blocked_q (w_local (k_local k p))). deliverable k (w_socket (k_local k p) s)"
  shows "\<exists>ws. let w = k_local k p; ss = blocked_q (w_local w) in
    length ws = Suc (length ss) \<and>
    vk_proc_postpoll os p k = Some (0, set_local p (last ws) k) \<and> local_ok (last ws) \<and>
    (\<forall>s \<in> set ss. results_in k w s (ws ! 0)) \<and>
    (\<forall>j < length ss. vk_proc_local_retry_socket (os j) (ss ! j) (ws ! j) = Some (0, ws ! Suc j)) \<and>
    (\<forall>s \<in> set ss. let t = blocked_vk (so_block (w_socket w s)) in
      th_status (w_thread w t) \<noteq> VK_PROC_END \<longrightarrow> t \<in> set (run_q (w_local (last ws))))"
proof -
  let ?w = "k_local k p" let ?ss = "blocked_q (w_local ?w)"
  obtain w1 where w1: "apply_results k ?ss ?w = Inr w1" "\<forall>s \<in> set ?ss. results_in k ?w s w1"
    using apply_results_Inr [of ?ss k ?w] assms(2) unfolding deliverable_def by metis
  have f: "frame_ok ?w w1" "w_local w1 = w_local ?w" using apply_results_ok [of ?w k ?ss] w1(1) by simp_all
  have s1: "sound w1" "\<forall>s \<in> set ?ss. linked w1 s \<and> well_piped (w_socket w1 s)"
    using assms sound_frame [OF f(1)] linked_frame [OF f(1)] well_piped_frame [OF f(1)]
    by (auto simp: local_ok_def deliverable_def)
  from retry_sockets_chain [OF s1, of os 0] obtain ws where ws: "length ws = Suc (length ?ss)" "ws ! 0 = w1"
    "retry_sockets os 0 ?ss w1 = Some (0, last ws)"
    "\<forall>i < length ?ss. vk_proc_local_retry_socket (os i) (?ss ! i) (ws ! i) = Some (0, ws ! Suc i)"
    by auto
  have run: "vk_proc_postpoll os p k = Some (0, set_local p (last ws) k)"
    using w1(1) ws(3) f(2) by (simp add: vk_proc_postpoll_def Let_def)
  obtain w' where ok: "vk_proc_postpoll os p k = Some (0, set_local p w' k)" "local_ok w'"
    "\<forall>s \<in> set ?ss. let t = blocked_vk (so_block (w_socket ?w s)) in
      th_status (w_thread ?w t) \<noteq> VK_PROC_END \<longrightarrow> t \<in> set (run_q (w_local w'))"
    using postpoll_ok [OF assms(1), of os] run by auto
  have "set_local p w' k = set_local p (last ws) k" using run ok(1) by simp
  then have "k_local (set_local p w' k) p = k_local (set_local p (last ws) k) p" by simp
  then have "w' = last ws" by simp
  then show ?thesis
    using run ok(2,3) ws w1(2) by (intro exI [of _ ws]) (simp only: Let_def simp_thms ball_simps)
qed

subsection \<open>The queues of processes follow the queues inside them\<close>

definition kern_queues_ok :: "kern_world \<Rightarrow> bool" where
  "kern_queues_ok k \<longleftrightarrow> krun.inv k \<and> kblk.inv k"

lemma kern_queues_iff:
  "kern_queues_ok k \<longleftrightarrow> flag_inv (\<lambda>p. run_qed (k_proc k p)) (run_procs (k_kern k)) \<and>
     flag_inv (\<lambda>p. blocked_qed (k_proc k p)) (blocked_procs (k_kern k))"
  by (simp add: kern_queues_ok_def krun.inv_def kblk.inv_def)

lemma run_part:
  assumes "kern_queues_ok k"
  shows "\<exists>k1. (if b then Some (vk_kern_enqueue_run p k) else vk_kern_drop_run p k) = Some k1 \<and>
    kern_queues_ok k1 \<and> (p \<in> set (run_procs (k_kern k1)) \<longleftrightarrow> b) \<and>
    (\<forall>q. q \<noteq> p \<longrightarrow> (q \<in> set (run_procs (k_kern k1)) \<longleftrightarrow> q \<in> set (run_procs (k_kern k)))) \<and>
    blocked_procs (k_kern k1) = blocked_procs (k_kern k) \<and> k_local k1 = k_local k \<and> k_table k1 = k_table k \<and>
    (\<forall>q. \<exists>f. k_proc k1 q = (k_proc k q)\<lparr>run_qed := f\<rparr>)"
proof -
  have self: "\<exists>f. pr = pr\<lparr>run_qed := f\<rparr>" for pr :: vk_proc by (rule exI [of _ "run_qed pr"]) simp
  show ?thesis using assms self
    by (auto simp: vk_kern_enqueue_run_def vk_kern_drop_run_def q_remove_def kern_queues_iff flag_inv_def)
qed

lemma blocked_part:
  assumes "kern_queues_ok k"
  shows "\<exists>k1. (if b then Some (vk_kern_enqueue_blocked p k) else vk_kern_drop_blocked p k) = Some k1 \<and>
    kern_queues_ok k1 \<and> (p \<in> set (blocked_procs (k_kern k1)) \<longleftrightarrow> b) \<and>
    (\<forall>q. q \<noteq> p \<longrightarrow> (q \<in> set (blocked_procs (k_kern k1)) \<longleftrightarrow> q \<in> set (blocked_procs (k_kern k)))) \<and>
    run_procs (k_kern k1) = run_procs (k_kern k) \<and> k_local k1 = k_local k \<and> k_table k1 = k_table k \<and>
    (\<forall>q. \<exists>f. k_proc k1 q = (k_proc k q)\<lparr>blocked_qed := f\<rparr>)"
proof -
  have self: "\<exists>f. pr = pr\<lparr>blocked_qed := f\<rparr>" for pr :: vk_proc by (rule exI [of _ "blocked_qed pr"]) simp
  show ?thesis using assms self
    by (auto simp: vk_kern_enqueue_blocked_def vk_kern_drop_blocked_def q_remove_def kern_queues_iff flag_inv_def)
qed

lemma flush_ok:
  assumes "kern_queues_ok k" "has_local (k_proc k p)"
  shows "\<exists>k'. vk_kern_flush_proc_queues p k = Some k' \<and> kern_queues_ok k' \<and>
    (p \<in> set (run_procs (k_kern k')) \<longleftrightarrow> pl_run (w_local (k_local k p))) \<and>
    (p \<in> set (blocked_procs (k_kern k')) \<longleftrightarrow> pl_blocked (w_local (k_local k p))) \<and>
    (\<forall>q. q \<noteq> p \<longrightarrow> (q \<in> set (run_procs (k_kern k')) \<longleftrightarrow> q \<in> set (run_procs (k_kern k))) \<and>
      (q \<in> set (blocked_procs (k_kern k')) \<longleftrightarrow> q \<in> set (blocked_procs (k_kern k)))) \<and>
    k_local k' = k_local k \<and> k_table k' = k_table k \<and>
    (\<forall>q. \<exists>f g. k_proc k' q = (k_proc k q)\<lparr>run_qed := f, blocked_qed := g\<rparr>)"
proof -
  obtain k1 where k1: "(if pl_run (w_local (k_local k p)) then Some (vk_kern_enqueue_run p k)
      else vk_kern_drop_run p k) = Some k1" "kern_queues_ok k1"
    "p \<in> set (run_procs (k_kern k1)) \<longleftrightarrow> pl_run (w_local (k_local k p))"
    "\<And>q. q \<noteq> p \<Longrightarrow> q \<in> set (run_procs (k_kern k1)) \<longleftrightarrow> q \<in> set (run_procs (k_kern k))"
    "blocked_procs (k_kern k1) = blocked_procs (k_kern k)" "k_local k1 = k_local k" "k_table k1 = k_table k"
    "\<And>q. \<exists>f. k_proc k1 q = (k_proc k q)\<lparr>run_qed := f\<rparr>"
    using run_part [OF assms(1), of "pl_run (w_local (k_local k p))" p] by blast
  obtain k2 where k2: "(if pl_blocked (w_local (k_local k p)) then Some (vk_kern_enqueue_blocked p k1)
      else vk_kern_drop_blocked p k1) = Some k2" "kern_queues_ok k2"
    "p \<in> set (blocked_procs (k_kern k2)) \<longleftrightarrow> pl_blocked (w_local (k_local k p))"
    "\<And>q. q \<noteq> p \<Longrightarrow> q \<in> set (blocked_procs (k_kern k2)) \<longleftrightarrow> q \<in> set (blocked_procs (k_kern k1))"
    "run_procs (k_kern k2) = run_procs (k_kern k1)" "k_local k2 = k_local k1" "k_table k2 = k_table k1"
    "\<And>q. \<exists>f. k_proc k2 q = (k_proc k1 q)\<lparr>blocked_qed := f\<rparr>"
    using blocked_part [OF k1(2), of "pl_blocked (w_local (k_local k p))" p] by blast
  have "\<exists>f g. k_proc k2 q = (k_proc k q)\<lparr>run_qed := f, blocked_qed := g\<rparr>" for q
    using k1(8) [of q] k2(8) [of q] by auto blast
  moreover have "vk_kern_flush_proc_queues p k = Some k2"
    using k1(1,6) k2(1) assms(2) by (simp add: vk_kern_flush_proc_queues_def)
  ultimately show ?thesis using k1 k2 by auto
qed

text \<open>C21: Flushing a process puts it on the kernel's run queue exactly if it has runnable coroutines, and on
  the kernel's blocked queue exactly if it has blocked sockets, and touches no other process;
  from consistent queues it never removes an element that is not there.\<close>

theorem flush_proc_queues_exact:
  assumes "kern_queues_ok k" "has_local (k_proc k p)" "queues_inv (k_local k p)"
  shows "\<exists>k'. vk_kern_flush_proc_queues p k = Some k' \<and> kern_queues_ok k' \<and>
    (p \<in> set (run_procs (k_kern k')) \<longleftrightarrow> run_q (w_local (k_local k p)) \<noteq> []) \<and>
    (p \<in> set (blocked_procs (k_kern k')) \<longleftrightarrow> blocked_q (w_local (k_local k p)) \<noteq> []) \<and>
    (\<forall>q. q \<noteq> p \<longrightarrow> (q \<in> set (run_procs (k_kern k')) \<longleftrightarrow> q \<in> set (run_procs (k_kern k))) \<and>
      (q \<in> set (blocked_procs (k_kern k')) \<longleftrightarrow> q \<in> set (blocked_procs (k_kern k)))) \<and>
    (vk_proc_is_zombie (k_proc k' p) \<longleftrightarrow> vk_proc_local_is_zombie (w_local (k_local k p)))"
proof -
  have marks: "pl_run (w_local (k_local k p)) \<longleftrightarrow> run_q (w_local (k_local k p)) \<noteq> []"
    "pl_blocked (w_local (k_local k p)) \<longleftrightarrow> blocked_q (w_local (k_local k p)) \<noteq> []"
    using assms(3) by (simp_all add: queues_inv_def run_inv_def blk_inv_def)
  obtain k' where k': "vk_kern_flush_proc_queues p k = Some k'" "kern_queues_ok k'"
    "p \<in> set (run_procs (k_kern k')) \<longleftrightarrow> pl_run (w_local (k_local k p))"
    "p \<in> set (blocked_procs (k_kern k')) \<longleftrightarrow> pl_blocked (w_local (k_local k p))"
    "\<And>q. q \<noteq> p \<Longrightarrow> (q \<in> set (run_procs (k_kern k')) \<longleftrightarrow> q \<in> set (run_procs (k_kern k))) \<and>
      (q \<in> set (blocked_procs (k_kern k')) \<longleftrightarrow> q \<in> set (blocked_procs (k_kern k)))"
    using flush_ok [OF assms(1,2)] by blast
  have "run_qed (k_proc k' p) \<longleftrightarrow> p \<in> set (run_procs (k_kern k'))"
    "blocked_qed (k_proc k' p) \<longleftrightarrow> p \<in> set (blocked_procs (k_kern k'))"
    using k'(2) by (simp_all add: kern_queues_iff flag_inv_def)
  then show ?thesis using k' marks by (auto simp: vk_proc_is_zombie_def vk_proc_local_is_zombie_def)
qed

subsection \<open>A process is executed behind the kernel's gate\<close>

text \<open>C23: An unprivileged process runs with the kernel's heap closed, and the heap is open again
  afterwards: if the gates succeed, the result of the execution depends on the application only
  under the protection the kernel's heap has outside of its gate, and the pages end with the
  protection they have inside.\<close>

theorem kernel_closed_while_running:
  assumes "\<not> privileged (k_proc k p)" "heap_synced (kern_hd (k_kern k)) (k_kern_prot k)"
    "vk_heap_entered (kern_hd (k_kern k))" "app_mprotect a 1 = Inr ()" "app_mprotect a 2 = Inr ()"
    "execute_protected a p k = (res, k')"
  shows "res = run_proc a p (prot_outside (kern_hd (k_kern k))) (snd (enter_proc_heap (app_mprotect a 0) p k)) \<and>
    k_kern_prot k' = prot_inside (kern_hd (k_kern k)) \<and>
    (\<forall>body. body (prot_outside (kern_hd (k_kern k))) = app_body a (prot_outside (kern_hd (k_kern k))) \<longrightarrow>
      fst (execute_protected (a\<lparr>app_body := body\<rparr>) p k) = res)"
proof -
  let ?k1 = "snd (enter_proc_heap (app_mprotect a 0) p k)"
  have same: "k_kern ?k1 = k_kern k" "k_kern_prot ?k1 = k_kern_prot k"
    by (simp_all add: enter_proc_heap_def split: prod.split)
  obtain rc pr hd1 where x: "vk_heap_exit (kern_hd (k_kern k)) (k_kern_prot k) (Inr ()) = (rc, pr, hd1)"
    by (metis prod.exhaust)
  obtain rc2 pr2 hd2 where e: "vk_heap_enter hd1 pr (Inr ()) = (rc2, pr2, hd2)" by (metis prod.exhaust)
  have pr: "pr = prot_outside (kern_hd (k_kern k))" "prot_inside hd1 = prot_inside (kern_hd (k_kern k))"
    "map_prot (mapping hd1) = prot_outside (kern_hd (k_kern k))"
    using x assms(2) by (auto simp: vk_heap_exit_def set_prot_cases heap_synced_def split: if_splits)
  have pr2: "pr2 = prot_inside (kern_hd (k_kern k))"
    using e pr by (auto simp: vk_heap_enter_def set_prot_cases split: if_splits)
  have run: "run_proc (a\<lparr>app_body := body\<rparr>) p pr ?k1 = run_proc a p pr ?k1"
    if "body pr = app_body a pr" for body
    using that by (simp add: run_proc_def)
  show ?thesis
    using assms(1,4-6) x e pr pr2 same run by (auto simp: execute_protected_def Let_def)
qed

subsection \<open>A failed process is not noticed\<close>

text \<open>The kernel never learns that the execution of a process failed: whatever the execution returned,
  the mainline overwrites the code that reports it, and the dispatch goes on as after a
  success.\<close>

theorem process_failure_forgotten:
  assumes "vk_proc_execute a p k = K_Returns rc k1"
  shows "vk_kern_execute_proc a p k = K_Returns 0 (upd_kern (kern_rc_update (\<lambda>_. 0)) k1)"
proof -
  have "upd_kern (kern_rc_update (\<lambda>_. 0)) (upd_kern (kern_rc_update f) k1) = upd_kern (kern_rc_update (\<lambda>_. 0)) k1" for f
    by (simp add: upd_kern_def)
  then show ?thesis using assms by (simp add: vk_kern_execute_proc_def vk_proc_execute_mainline_def Let_def)
qed

subsection \<open>Shutdown\<close>

lemma interrupt_socket_ok:
  assumes "queues_inv w"
  shows "\<exists>w'. interrupt_socket line counter s w = Some w' \<and> queues_inv w' \<and>
    blocked_q (w_local w') = remove1 s (blocked_q (w_local w)) \<and>
    set (run_q (w_local w)) \<subseteq> set (run_q (w_local w')) \<and>
    (let t = blocked_vk (so_block (w_socket w s)) in
     t \<noteq> 0 \<longrightarrow> th_status (w_thread w t) \<noteq> VK_PROC_END \<longrightarrow> t \<in> set (run_q (w_local w')))"
proof -
  let ?t = "blocked_vk (so_block (w_socket w s))"
  define w1 where "w1 = upd_socket s (\<lambda>so. so\<lparr>so_rx := rx_blocked_update (\<lambda>_. False) (so_rx so),
                                      so_tx := tx_blocked_update (\<lambda>_. False) (so_tx so)\<rparr>) w"
  have q1: "queues_inv w1" using assms by (simp add: w1_def queues_inv_upd_socket)
  obtain w2 where w2: "vk_proc_local_drop_blocked s w1 = Some w2" "queues_inv w2"
    "blocked_q (w_local w2) = remove1 s (blocked_q (w_local w))"
    using queues_inv_drop_blocked [OF q1, of s] by (auto simp: w1_def)
  note keep = drop_blocked_keeps [OF w2(1)]
  define w3 where "w3 = upd_block s (blocked_vk_update (\<lambda>_. 0)) w2"
  have q3: "queues_inv w3" using w2(2) by (simp add: w3_def upd_block_def queues_inv_upd_socket)
  have l3: "w_local w3 = w_local w2" "w_thread w3 = w_thread w2"
    by (simp_all add: w3_def upd_block_def upd_socket_def)
  have th: "w_thread w2 = w_thread w" "run_q (w_local w2) = run_q (w_local w)"
    using keep by (simp_all add: w1_def)
  let ?w4 = "vk_proc_local_enqueue_run ?t w3" and ?w5 = "vk_raise_at line counter ?t EINTR (vk_proc_local_enqueue_run ?t w3)"
  have step: "interrupt_socket line counter s w = Some (if ?t \<noteq> 0 then ?w5 else w3)"
    using w2(1) by (simp add: interrupt_socket_def Let_def w1_def w3_def)
  have q5: "queues_inv ?w5" by (rule queues_inv_raise_at) (rule queues_inv_enqueue_run [OF q3])
  have rq: "set (run_q (w_local ?w4)) \<subseteq> set (run_q (w_local ?w5))"
    unfolding vk_raise_at_def using run.enqueue_mono [of "upd_thread ?t (\<lambda>th. th\<lparr>th_error := EINTR,
      th_error_line := line, th_error_counter := counter\<rparr>) ?w4" ?t] by simp
  have bq: "blocked_q (w_local ?w5) = blocked_q (w_local w3)" by (simp add: vk_raise_at_def)
  have mono: "set (run_q (w_local w3)) \<subseteq> set (run_q (w_local ?w4))" by (rule run.enqueue_mono)
  have mem: "?t \<in> set (run_q (w_local ?w4))" if "th_status (w_thread w ?t) \<noteq> VK_PROC_END"
  proof -
    have "run.inv w3" using q3 run_minv [of w3] by (simp add: queues_inv_def run.minv_def)
    then show ?thesis using run.enqueue_mem [of w3 ?t] that by (simp add: l3 th)
  qed
  show ?thesis
  proof (cases "?t = 0")
    case True
    then show ?thesis using step q3 w2(3) l3 th by simp
  next
    case False
    then show ?thesis using step q5 w2(3) l3 th bq mono rq mem by (auto simp: Let_def)
  qed
qed

lemma interrupt_sockets_ok:
  assumes "queues_inv w" "distinct ss"
  shows "\<exists>w'. interrupt_sockets line counter ss w = Some w' \<and> queues_inv w' \<and>
    set (blocked_q (w_local w')) = set (blocked_q (w_local w)) - set ss \<and>
    set (run_q (w_local w)) \<subseteq> set (run_q (w_local w')) \<and>
    (\<forall>s ss'. ss = s # ss' \<longrightarrow> (let t = blocked_vk (so_block (w_socket w s)) in
     t \<noteq> 0 \<longrightarrow> th_status (w_thread w t) \<noteq> VK_PROC_END \<longrightarrow> t \<in> set (run_q (w_local w'))))"
  using assms
proof (induction ss arbitrary: w)
  case Nil
  then show ?case by simp
next
  case (Cons s ss)
  obtain w1 where w1: "interrupt_socket line counter s w = Some w1" "queues_inv w1"
    "blocked_q (w_local w1) = remove1 s (blocked_q (w_local w))"
    "set (run_q (w_local w)) \<subseteq> set (run_q (w_local w1))"
    "let t = blocked_vk (so_block (w_socket w s)) in
     t \<noteq> 0 \<longrightarrow> th_status (w_thread w t) \<noteq> VK_PROC_END \<longrightarrow> t \<in> set (run_q (w_local w1))"
    using interrupt_socket_ok [OF Cons.prems(1)] by blast
  have d: "distinct (blocked_q (w_local w))"
    using Cons.prems(1) by (simp add: queues_inv_def blk_inv_def flag_inv_def)
  obtain w' where w': "interrupt_sockets line counter ss w1 = Some w'" "queues_inv w'"
    "set (blocked_q (w_local w')) = set (blocked_q (w_local w1)) - set ss"
    "set (run_q (w_local w1)) \<subseteq> set (run_q (w_local w'))"
    using Cons.IH [OF w1(2)] Cons.prems(2) by auto
  show ?case using w1 w' d by (auto simp: Let_def)
qed

definition interruptible :: "kern_world \<Rightarrow> size_t \<Rightarrow> bool" where
  "interruptible k p \<longleftrightarrow> has_local (k_proc k p) \<and> queues_inv (k_local k p) \<and> blocked_q (w_local (k_local k p)) \<noteq> [] \<and>
     (\<forall>s \<in> set (blocked_q (w_local (k_local k p))). let t = blocked_vk (so_block (w_socket (k_local k p) s)) in
        t \<noteq> 0 \<and> th_status (w_thread (k_local k p) t) \<noteq> VK_PROC_END)"

lemma interrupt_proc_ok:
  assumes "interruptible k p" "kblk.inv k" "p \<in> set (blocked_procs (k_kern k))"
  shows "\<exists>k'. interrupt_proc line counter p k = Some k' \<and> kblk.inv k' \<and>
    run_procs (k_kern k') = run_procs (k_kern k) \<and>
    blocked_procs (k_kern k') = remove1 p (blocked_procs (k_kern k)) \<and>
    pl_run (w_local (k_local k' p)) \<and> run_qed (k_proc k' p) \<and>
    (\<forall>q. q \<noteq> p \<longrightarrow> k_local k' q = k_local k q \<and> k_proc k' q = k_proc k q)"
proof -
  let ?w = "k_local k p"
  have w: "queues_inv ?w" "blocked_q (w_local ?w) \<noteq> []" "has_local (k_proc k p)"
    and d: "distinct (blocked_q (w_local ?w))"
    using assms(1) by (auto simp: interruptible_def queues_inv_def blk_inv_def flag_inv_def)
  obtain s ss where ss: "blocked_q (w_local ?w) = s # ss" using w(2) by (cases "blocked_q (w_local ?w)") auto
  obtain w' where w': "interrupt_sockets line counter (blocked_q (w_local ?w)) ?w = Some w'" "queues_inv w'"
    "set (blocked_q (w_local w')) = {}" "run_q (w_local w') \<noteq> []"
    using interrupt_sockets_ok [OF w(1) d, of line counter] assms(1) ss
    by (fastforce simp: interruptible_def Let_def)
  have marks: "pl_run (w_local w')" "\<not> pl_blocked (w_local w')"
    using w'(2-4) by (simp_all add: queues_inv_def run_inv_def blk_inv_def)
  have flag: "blocked_qed (k_proc k p)"
    using assms(2,3) by (simp add: kblk.inv_def flag_inv_def)
  let ?k2 = "set_local p w' (upd_proc p (run_qed_update (\<lambda>_. True)) k)"
  let ?k3 = "upd_kern (blocked_procs_update (\<lambda>_. remove1 p (blocked_procs (k_kern k))))
    (upd_proc p (blocked_qed_update (\<lambda>_. False)) ?k2)"
  have "vk_kern_flush_proc_queues p ?k2 = Some ?k3"
    using marks w(3) flag assms(3)
    by (simp add: vk_kern_flush_proc_queues_def vk_kern_enqueue_run_def vk_kern_drop_blocked_def q_remove_def)
  then have "interrupt_proc line counter p k = Some ?k3"
    using w'(1) by (simp add: interrupt_proc_def Let_def)
  moreover have "kblk.inv ?k3"
    using assms(2) by (auto simp: kblk.inv_def flag_inv_def)
  ultimately show ?thesis using marks by simp
qed

lemma interrupt_procs_ok:
  assumes "kblk.inv k" "distinct ps" "set ps \<subseteq> set (blocked_procs (k_kern k))" "\<forall>p \<in> set ps. interruptible k p"
  shows "\<exists>k'. interrupt_procs line counter ps k = Some k' \<and>
    run_procs (k_kern k') = run_procs (k_kern k) \<and>
    set (blocked_procs (k_kern k')) = set (blocked_procs (k_kern k)) - set ps \<and>
    (\<forall>p \<in> set ps. pl_run (w_local (k_local k' p)) \<and> run_qed (k_proc k' p)) \<and>
    (\<forall>q. q \<notin> set ps \<longrightarrow> k_local k' q = k_local k q \<and> k_proc k' q = k_proc k q)"
  using assms
proof (induction ps arbitrary: k)
  case Nil
  then show ?case by simp
next
  case (Cons p ps)
  obtain k1 where k1: "interrupt_proc line counter p k = Some k1" "kblk.inv k1"
    "run_procs (k_kern k1) = run_procs (k_kern k)" "blocked_procs (k_kern k1) = remove1 p (blocked_procs (k_kern k))"
    "pl_run (w_local (k_local k1 p))" "run_qed (k_proc k1 p)"
    "\<And>q. q \<noteq> p \<Longrightarrow> k_local k1 q = k_local k q \<and> k_proc k1 q = k_proc k q"
    using interrupt_proc_ok [of k p line counter] Cons.prems by auto
  have d: "distinct (blocked_procs (k_kern k))" using Cons.prems(1) by (simp add: kblk.inv_def flag_inv_def)
  have sub: "set ps \<subseteq> set (blocked_procs (k_kern k1))" using Cons.prems(2,3) d by (auto simp: k1(4))
  have int: "\<forall>q \<in> set ps. interruptible k1 q"
  proof
    fix q assume q: "q \<in> set ps"
    then have "q \<noteq> p" using Cons.prems(2) by auto
    then have "k_local k1 q = k_local k q" "k_proc k1 q = k_proc k q" using k1(7) by blast+
    then show "interruptible k1 q" using Cons.prems(4) q by (simp add: interruptible_def)
  qed
  obtain k' where k': "interrupt_procs line counter ps k1 = Some k'" "run_procs (k_kern k') = run_procs (k_kern k1)"
    "set (blocked_procs (k_kern k')) = set (blocked_procs (k_kern k1)) - set ps"
    "\<forall>p \<in> set ps. pl_run (w_local (k_local k' p)) \<and> run_qed (k_proc k' p)"
    "\<And>q. q \<notin> set ps \<Longrightarrow> k_local k' q = k_local k1 q \<and> k_proc k' q = k_proc k1 q"
    using Cons.IH [OF k1(2) _ sub int] Cons.prems(2) by auto
  show ?case using k1 k' Cons.prems(2) d by auto
qed

text \<open>C22: A shutdown strands the processes it interrupts: they are taken off the kernel's blocked queue and
  their coroutines are runnable, but no process joins the kernel's run queue, although each is
  marked as being on it. With no other process to run the kernel has nothing pending, and its
  loop ends without any of them having seen the interruption.\<close>

theorem shutdown_strands_processes:
  assumes "kern_queues_ok k" "shutdown_requested (k_kern k)"
    "\<forall>p \<in> set (blocked_procs (k_kern k)). interruptible k p"
  shows "\<exists>k'. vk_kern_prepoll line counter k = Some k' \<and>
    run_procs (k_kern k') = run_procs (k_kern k) \<and> blocked_procs (k_kern k') = [] \<and>
    (vk_kern_pending k' \<longleftrightarrow> run_procs (k_kern k) \<noteq> []) \<and>
    (\<forall>p \<in> set (blocked_procs (k_kern k)). pl_run (w_local (k_local k' p)) \<and> run_qed (k_proc k' p))"
proof -
  have inv: "kblk.inv k" "distinct (blocked_procs (k_kern k))"
    using assms(1) by (simp_all add: kern_queues_ok_def kblk.inv_def flag_inv_def)
  show ?thesis
    using interrupt_procs_ok [OF inv, of line counter] assms(2,3)
    by (auto simp: vk_kern_prepoll_def vk_kern_pending_def)
qed

subsection \<open>A kernel with one blocked process\<close>

definition blocked_world :: vk_world where
  "blocked_world = vk_proc_local_enqueue_blocked 128 read_world"

lemma blocked_world_ok:
  "local_ok blocked_world" "blocked_q (w_local blocked_world) = [128]" "queues_inv blocked_world"
proof -
  have f: "frame_ok read_world blocked_world" unfolding blocked_world_def by (rule frame_enqueue_blocked)
  have q: "blocked_q (w_local read_world) = []" by (simp add: read_world_def idle_world_def)
  have fl: "\<not> blocked_enq (w_socket read_world 128)"
    by (simp add: read_world_def upd_block_def idle_world_def idle_socket_def)
  show bq: "blocked_q (w_local blocked_world) = [128]"
    using q fl by (simp add: blocked_world_def vk_proc_local_enqueue_blocked_def)
  have sd: "sound blocked_world"
    using sound_frame [OF f] read_world_sound by (simp add: sound_def)
  then show "queues_inv blocked_world" by (simp add: sound_def)
  show "local_ok blocked_world"
    using sd linked_frame [OF f] read_world_sound(1) bq by (simp add: local_ok_def)
qed

definition woken_kern :: kern_world where
  "woken_kern = set_local 7 blocked_world waiting_kern"

lemma woken_kern_sel:
  "k_local woken_kern 7 = blocked_world" "k_kern woken_kern = k_kern waiting_kern"
  "k_proc woken_kern = k_proc waiting_kern" "k_table woken_kern = k_table waiting_kern"
  by (simp_all add: woken_kern_def)

lemma waiting_kern_procs:
  "run_procs (k_kern waiting_kern) = []" "blocked_procs (k_kern waiting_kern) = [7]"
  "has_local (k_proc waiting_kern 7)" "kern_queues_ok waiting_kern"
proof -
  show "run_procs (k_kern waiting_kern) = []" "blocked_procs (k_kern waiting_kern) = [7]"
    "has_local (k_proc waiting_kern 7)"
    by (simp_all add: waiting_kern_def idle_proc_def)
  have "\<not> run_qed (k_proc waiting_kern p)" "blocked_qed (k_proc waiting_kern p) \<longleftrightarrow> p = 7" for p
    by (simp_all add: waiting_kern_def idle_proc_def)
  then show "kern_queues_ok waiting_kern"
    by (simp add: kern_queues_iff flag_inv_def) (simp add: waiting_kern_def)
qed

lemma kern_queues_ok_cong:
  "k_kern k' = k_kern k \<Longrightarrow> k_proc k' = k_proc k \<Longrightarrow> kern_queues_ok k' = kern_queues_ok k"
  by (simp add: kern_queues_iff)

text \<open>The blocked socket waits for descriptor 3, which has become readable.\<close>

definition polled_kern :: kern_world where
  "polled_kern = set_local 7 (upd_block 128 (ioft_rx_pre_update (\<lambda>ft. ft\<lparr>ioft_event :=
       \<lparr>ev_fd = 3, ev_events = POLLIN, ev_revents = 0\<rparr>\<rparr>)) blocked_world)
     (upd_fd 3 (ioft_ret_update (\<lambda>ft. ft\<lparr>ioft_event := \<lparr>ev_fd = 3, ev_events = POLLIN, ev_revents = POLLIN\<rparr>\<rparr>))
       waiting_kern)"

theorem postpoll_wakes_all_witness:
  "\<exists>w'. vk_proc_postpoll (\<lambda>_. quiet_os) 7 polled_kern = Some (0, set_local 7 w' polled_kern) \<and>
     local_ok w' \<and> 64 \<in> set (run_q (w_local w'))"
proof -
  let ?v = "k_local polled_kern 7"
  have v: "?v = upd_block 128 (ioft_rx_pre_update (\<lambda>ft. ft\<lparr>ioft_event :=
      \<lparr>ev_fd = 3, ev_events = POLLIN, ev_revents = 0\<rparr>\<rparr>)) blocked_world"
    by (simp add: polled_kern_def)
  have fv: "frame_ok blocked_world ?v" unfolding v by (rule frame_upd_block; simp)
  have q: "blocked_q (w_local ?v) = [128]" using blocked_world_ok(2) by (simp add: v upd_block_def)
  have ok: "local_ok ?v"
    using blocked_world_ok(1) sound_frame [OF fv] linked_frame [OF fv] q blocked_world_ok(2)
    by (simp add: local_ok_def)
  have f: "frame_ok read_world blocked_world" unfolding blocked_world_def by (rule frame_enqueue_blocked)
  have "blocked_vk (so_block (w_socket ?v 128)) = 64" "th_status (w_thread ?v 64) \<noteq> VK_PROC_END"
    using frame_ok_trans [OF f fv] by (simp_all add: frame_ok_def same_links_def read_world_def upd_block_def
        idle_world_def idle_socket_def idle_thread_def)
  moreover have "deliverable polled_kern (w_socket ?v 128)"
  proof -
    have "well_piped (w_socket ?v 128)"
      using well_piped_frame [OF frame_ok_trans [OF f fv], of 128]
      by (simp add: well_piped_def read_world_def upd_block_def idle_world_def idle_socket_def os_pipe_def)
    moreover have "slot_known polled_kern (ioft_tx_pre (so_block (w_socket ?v 128)))"
      "slot_known polled_kern (ioft_rx_pre (so_block (w_socket ?v 128)))"
      by (simp_all add: slot_known_def v upd_block_def blocked_world_def vk_proc_local_enqueue_blocked_def
          read_world_def idle_world_def idle_socket_def vk_io_future_init_def vk_fd_table_get_def polled_kern_def
          waiting_kern_def)
    ultimately show ?thesis by (simp add: deliverable_def)
  qed
  ultimately show ?thesis
    using postpoll_wakes_all [OF ok, of "\<lambda>_. quiet_os"] by (auto simp: q Let_def)
qed

theorem flush_proc_queues_exact_witness:
  "\<exists>k'. vk_kern_flush_proc_queues 7 woken_kern = Some k' \<and> 7 \<in> set (blocked_procs (k_kern k')) \<and>
     \<not> vk_proc_is_zombie (k_proc k' 7)"
proof -
  have "kern_queues_ok woken_kern"
    using waiting_kern_procs(4) kern_queues_ok_cong [of woken_kern waiting_kern] by (simp add: woken_kern_sel)
  from flush_proc_queues_exact [OF this, of 7] show ?thesis
    by (auto simp: woken_kern_sel waiting_kern_procs blocked_world_ok vk_proc_local_is_zombie_def)
qed

theorem shutdown_strands_processes_witness:
  "\<exists>k'. vk_kern_prepoll 1 2 (upd_kern (shutdown_requested_update (\<lambda>_. True)) woken_kern) = Some k' \<and>
     \<not> vk_kern_pending k' \<and> pl_run (w_local (k_local k' 7))"
proof -
  let ?k = "upd_kern (shutdown_requested_update (\<lambda>_. True)) woken_kern"
  have q: "kern_queues_ok ?k"
    using waiting_kern_procs(4) by (simp add: kern_queues_iff woken_kern_sel)
  have f: "frame_ok read_world blocked_world" unfolding blocked_world_def by (rule frame_enqueue_blocked)
  have "blocked_vk (so_block (w_socket blocked_world 128)) = 64" "th_status (w_thread blocked_world 64) \<noteq> VK_PROC_END"
    using f by (simp_all add: frame_ok_def same_links_def read_world_def upd_block_def idle_world_def
        idle_socket_def idle_thread_def)
  then have "interruptible ?k 7"
    by (simp add: interruptible_def woken_kern_sel waiting_kern_procs blocked_world_ok)
  with shutdown_strands_processes [OF q, of 1 2] show ?thesis
    by (auto simp: woken_kern_sel waiting_kern_procs)
qed

definition quiet_app :: app where
  "quiet_app = \<lparr>app_retry = (\<lambda>_. quiet_os), app_os = (\<lambda>_. quiet_os), app_body = (\<lambda>_. ending_body),
     app_isolate = id, app_fuel = 9, app_line = 1, app_counter = 2, app_mprotect = (\<lambda>_. Inr ())\<rparr>"

text \<open>The blocked socket waits for a descriptor that is not in the table.\<close>

definition failing_kern :: kern_world where
  "failing_kern = set_local 7 (upd_block 128 (ioft_rx_pre_update (\<lambda>ft. ft\<lparr>ioft_event :=
     \<lparr>ev_fd = 20000, ev_events = POLLIN, ev_revents = 0\<rparr>\<rparr>)) blocked_world) waiting_kern"

theorem process_failure_forgotten_witness:
  "\<exists>k1 k2. vk_proc_execute quiet_app 7 failing_kern = K_Returns (- 1) k1 \<and>
     vk_kern_execute_proc quiet_app 7 failing_kern = K_Returns 0 k2"
proof -
  have r: "running_cr (w_local blocked_world) = 0" 
    by (simp add: blocked_world_def vk_proc_local_enqueue_blocked_def read_world_def idle_world_def)
  have "\<exists>k1. vk_proc_execute quiet_app 7 failing_kern = K_Returns (- 1) k1"
    using r waiting_kern_procs(3) blocked_world_ok(2)
    by (simp add: vk_proc_execute_def failing_kern_def vk_proc_local_raise_signal_def vk_proc_postpoll_def
        apply_ret_def vk_fd_table_get_def waiting_kern_fd upd_block_def Let_def)
  then obtain k1 where "vk_proc_execute quiet_app 7 failing_kern = K_Returns (- 1) k1" ..
  then show ?thesis using process_failure_forgotten by blast
qed

definition guarded_kern :: kern_world where
  "guarded_kern = upd_kern (kern_hd_update (\<lambda>_. closed_heap\<lparr>mapping := (mapping closed_heap)\<lparr>map_prot := 3\<rparr>\<rparr>))
     (upd_proc 7 (privileged_update (\<lambda>_. False)) (woken_kern\<lparr>k_kern_prot := 3\<rparr>))"

theorem kernel_closed_while_running_witness:
  "fst (execute_protected quiet_app 7 guarded_kern) =
     run_proc quiet_app 7 PROT_NONE (snd (enter_proc_heap (Inr ()) 7 guarded_kern)) \<and>
   k_kern_prot (snd (execute_protected quiet_app 7 guarded_kern)) = PROT_READ OR PROT_WRITE"
proof -
  obtain res k' where x: "execute_protected quiet_app 7 guarded_kern = (res, k')" by fastforce
  have "\<not> privileged (k_proc guarded_kern 7)" "k_kern_prot guarded_kern = 3"
    "heap_synced (kern_hd (k_kern guarded_kern)) (k_kern_prot guarded_kern)"
    "vk_heap_entered (kern_hd (k_kern guarded_kern))" "prot_outside (kern_hd (k_kern guarded_kern)) = PROT_NONE"
    "prot_inside (kern_hd (k_kern guarded_kern)) = PROT_READ OR PROT_WRITE"
    by (simp_all add: guarded_kern_def heap_synced_def vk_heap_entered_def closed_heap_def PROT_READ_def
        PROT_WRITE_def)
  with kernel_closed_while_running [OF _ _ _ _ _ x] x show ?thesis by (simp add: quiet_app_def)
qed

end
