(* ===== verification/Kern_Safe.thy ===== *)
theory Kern_Safe
  imports Kern_Props
begin

text \<open>
  The kernel as a whole (src/vk_kern.c, vk_proc.c, vk_fd_table.c): an invariant that ties
  slots, processes and queues together, kept by every step of the main loop with the poll
  driver, and from it that the loop never follows a null pointer or unlinks an element that
  is not there, as long as no shutdown is requested and the processes are not isolated.
\<close>

subsection \<open>Who owns a slot\<close>

definition alive :: "kern_world \<Rightarrow> size_t \<Rightarrow> bool" where
  "alive k p \<longleftrightarrow> has_local (k_proc k p) \<and> p < object_count (proc_pool (k_kern k))"

abbreviation owner :: "kern_world \<Rightarrow> size_t \<Rightarrow> size_t" where
  "owner k i \<equiv> fd_proc_id (k_fd k i)"

definition named :: "kern_world \<Rightarrow> size_t \<Rightarrow> bool" where
  "named k i \<longleftrightarrow> vk_fd_table_get k (ev_fd (asks k i)) = Some i"

definition fds_owned :: "kern_world \<Rightarrow> bool" where
  "fds_owned k \<longleftrightarrow>
     (\<forall>p. distinct (allocated_fds (k_proc k p)) \<and> (allocated_fds (k_proc k p) \<noteq> [] \<longrightarrow> alive k p)) \<and>
     (\<forall>p i. i \<in> set (allocated_fds (k_proc k p)) \<longleftrightarrow> fd_allocated (k_fd k i) \<and> owner k i = p)"

definition slots_ok :: "kern_world \<Rightarrow> bool" where
  "slots_ok k \<longleftrightarrow>
     (\<forall>i \<in> set (dirty_fds (k_table k)).
        fd_zombie (k_fd k i) \<or> fd_closed (k_fd k i) \<or> fd_allocated (k_fd k i)) \<and>
     (\<forall>i. ev_events (asks k i) \<noteq> 0 \<longrightarrow> named k i)"

definition tied :: "kern_world \<Rightarrow> bool" where
  "tied k \<longleftrightarrow> fds_ok k \<and> fds_owned k \<and> slots_ok k"

definition fresh_ok :: "kern_world \<Rightarrow> bool" where
  "fresh_ok k \<longleftrightarrow> (\<forall>i \<in> set (fresh_fds (k_table k)). alive k (owner k i))"

lemma allocated_alive: "fds_owned k \<Longrightarrow> fd_allocated (k_fd k i) \<Longrightarrow> alive k (owner k i)"
  unfolding fds_owned_def by (metis empty_iff list.set(1))

text \<open>What the poll driver does to the table between two dispatches.\<close>

definition table_step :: "kern_world \<Rightarrow> kern_world \<Rightarrow> bool" where
  "table_step k k' \<longleftrightarrow>
     (\<forall>j. fd_allocated (k_fd k' j) = fd_allocated (k_fd k j) \<and> owner k' j = owner k j \<and>
        fd_zombie (k_fd k' j) = fd_zombie (k_fd k j) \<and> (fd_closed (k_fd k j) \<longrightarrow> fd_closed (k_fd k' j)) \<and>
        ev_fd (asks k' j) = ev_fd (asks k j) \<and>
        (ev_events (asks k' j) \<noteq> 0 \<longrightarrow> ev_events (asks k j) \<noteq> 0 \<or> named k j)) \<and>
     set (dirty_fds (k_table k')) \<subseteq> set (dirty_fds (k_table k)) \<and>
     table_size (k_table k') = table_size (k_table k) \<and> poll_driver (k_table k') = poll_driver (k_table k) \<and>
     k_proc k' = k_proc k \<and> k_kern k' = k_kern k \<and> k_local k' = k_local k"

lemma named_step: "table_step k k' \<Longrightarrow> named k' j = named k j"
  by (simp add: table_step_def named_def vk_fd_table_get_def)

lemma table_step_refl [simp]: "table_step k k"
  by (simp add: table_step_def)

lemma table_step_trans:
  assumes "table_step k k1" "table_step k1 k2"
  shows "table_step k k2"
  using assms named_step [OF assms(1)] unfolding table_step_def by (simp add: subset_trans [of _ "set (dirty_fds (k_table k1))"]) blast

lemma owned_cong:
  assumes "\<And>p. allocated_fds (k_proc k' p) = allocated_fds (k_proc k p) \<and> has_local (k_proc k' p) = has_local (k_proc k p)"
    "object_count (proc_pool (k_kern k')) = object_count (proc_pool (k_kern k))"
    "\<And>i. fd_allocated (k_fd k' i) = fd_allocated (k_fd k i) \<and> owner k' i = owner k i"
  shows "fds_owned k' = fds_owned k"
  using assms by (simp add: fds_owned_def alive_def)

lemma tied_step:
  assumes "tied k" "table_step k k'" "fds_ok k'"
  shows "tied k'"
proof -
  have "fds_owned k' = fds_owned k" using assms(2) by (intro owned_cong) (simp_all add: table_step_def)
  moreover have "slots_ok k'"
    using assms(1,2) named_step [OF assms(2)] by (fastforce simp: tied_def slots_ok_def table_step_def)
  ultimately show ?thesis using assms(1,3) by (simp add: tied_def)
qed

lemma poll_driver_upd [simp]:
  "poll_driver (k_table (upd_fd i f k)) = poll_driver (k_table k)"
  by (simp add: upd_fd_def)

lemma step_upd_fd:
  assumes "\<And>s. fd_allocated (f s) = fd_allocated s \<and> fd_proc_id (f s) = fd_proc_id s \<and>
      fd_zombie (f s) = fd_zombie s \<and> (fd_closed s \<longrightarrow> fd_closed (f s))"
    "ev_fd (ioft_event (ioft_pre (f (k_fd k i)))) = ev_fd (asks k i)"
    "ev_events (ioft_event (ioft_pre (f (k_fd k i)))) = ev_events (asks k i) \<or> named k i"
  shows "table_step k (upd_fd i f k)"
  using assms by (auto simp: table_step_def)

lemma step_drop_dirty: "vk_fd_table_drop_dirty i k = Some k' \<Longrightarrow> table_step k k'"
  by (auto simp: vk_fd_table_drop_dirty_def table_step_def q_remove_def split: if_splits option.splits
      dest: set_remove1_subset [THEN subsetD])

lemma step_drop_fresh: "vk_fd_table_drop_fresh i k = Some k' \<Longrightarrow> table_step k k'"
  by (auto simp: vk_fd_table_drop_fresh_def table_step_def q_remove_def split: if_splits option.splits)

lemma step_enqueue_fresh: "table_step k (vk_fd_table_enqueue_fresh i k)"
  by (simp add: vk_fd_table_enqueue_fresh_def table_step_def)

lemma fresh_drop_dirty: "vk_fd_table_drop_dirty i k = Some k' \<Longrightarrow> fresh_fds (k_table k') = fresh_fds (k_table k)"
  by (auto simp: vk_fd_table_drop_dirty_def q_remove_def split: if_splits option.splits)

lemma fresh_drop_fresh:
  "vk_fd_table_drop_fresh i k = Some k' \<Longrightarrow> set (fresh_fds (k_table k')) \<subseteq> set (fresh_fds (k_table k))"
  by (auto simp: vk_fd_table_drop_fresh_def q_remove_def split: if_splits option.splits
      dest: set_remove1_subset [THEN subsetD])

lemma fresh_enqueue: "set (fresh_fds (k_table (vk_fd_table_enqueue_fresh i k))) \<subseteq> insert i (set (fresh_fds (k_table k)))"
  by (auto simp: vk_fd_table_enqueue_fresh_def)

lemma clean_fd_step:
  assumes "vk_fd_table_clean_fd i k = Some k'"
  shows "table_step k k'"
    "set (fresh_fds (k_table k')) \<subseteq>
       set (fresh_fds (k_table k)) \<union> (if \<not> fd_zombie (k_fd k i) \<and> \<not> fd_closed (k_fd k i) then {i} else {})"
proof -
  obtain k1 where k1: "(if fd_zombie (k_fd k i)
      then do { k' \<leftarrow> vk_fd_table_drop_dirty i k; vk_fd_table_drop_fresh i k' } else Some k) = Some k1"
    using assms by (cases "(if fd_zombie (k_fd k i)
      then do { k' \<leftarrow> vk_fd_table_drop_dirty i k; vk_fd_table_drop_fresh i k' } else Some k)")
      (simp_all add: vk_fd_table_clean_fd_def)
  have s1: "table_step k k1 \<and> set (fresh_fds (k_table k1)) \<subseteq> set (fresh_fds (k_table k))"
  proof (cases "fd_zombie (k_fd k i)")
    case True
    then obtain ka where ka: "vk_fd_table_drop_dirty i k = Some ka" "vk_fd_table_drop_fresh i ka = Some k1"
      using k1 by (auto simp: bind_eq_Some_conv)
    show ?thesis
      using table_step_trans [OF step_drop_dirty [OF ka(1)] step_drop_fresh [OF ka(2)]]
        fresh_drop_dirty [OF ka(1)] fresh_drop_fresh [OF ka(2)] by simp
  next
    case False
    then show ?thesis using k1 by simp
  qed
  have slot: "k_fd k1 i = k_fd k i \<or> fd_zombie (k_fd k i)" using k1 by (auto split: if_splits)
  define k2 where "k2 = upd_fd i (\<lambda>sl. sl\<lparr>fd_closed := True, ioft_post := mark_closed (ioft_post sl),
      ioft_ret := mark_closed (ioft_ret sl)\<rparr>) k1"
  have s2: "table_step k1 k2" unfolding k2_def by (rule step_upd_fd) simp_all
  have f2: "fresh_fds (k_table k2) = fresh_fds (k_table k1)" by (simp add: k2_def)
  have z: "fd_zombie (k_fd k1 i) = fd_zombie (k_fd k i)" using s1 by (simp add: table_step_def)
  have res: "k' = k1 \<or> (\<not> fd_closed (k_fd k1 i) \<and> (\<exists>k3. vk_fd_table_drop_dirty i k2 = Some k3 \<and>
      k' = (if \<not> fd_zombie (k_fd k i) then vk_fd_table_enqueue_fresh i k3 else k3)))"
  proof -
    have "vk_fd_table_clean_fd i k =
      (if \<not> fd_closed (k_fd k1 i) \<and>
          (fd_zombie (k_fd k1 i) \<or> ioft_rx_closed (ioft_pre (k_fd k1 i)) \<and> ioft_tx_closed (ioft_pre (k_fd k1 i)))
       then do { k3 \<leftarrow> vk_fd_table_drop_dirty i k2;
                 Some (if \<not> fd_zombie (k_fd k1 i) then vk_fd_table_enqueue_fresh i k3 else k3) }
       else Some k1)"
      unfolding vk_fd_table_clean_fd_def k1 k2_def by (simp only: Let_def Option.bind.bind_lunit)
    then show ?thesis using assms unfolding z by (cases "vk_fd_table_drop_dirty i k2") (simp_all split: if_splits)
  qed
  then show "table_step k k'"
  proof (elim disjE conjE exE)
    fix k3 assume k3: "vk_fd_table_drop_dirty i k2 = Some k3"
      "k' = (if \<not> fd_zombie (k_fd k i) then vk_fd_table_enqueue_fresh i k3 else k3)"
    have "table_step k k3"
      using table_step_trans [OF table_step_trans [OF conjunct1 [OF s1] s2] step_drop_dirty [OF k3(1)]] .
    then show ?thesis using table_step_trans [OF _ step_enqueue_fresh [of k3 i]] k3(2) by simp
  qed (use s1 in simp)
  from res show "set (fresh_fds (k_table k')) \<subseteq>
       set (fresh_fds (k_table k)) \<union> (if \<not> fd_zombie (k_fd k i) \<and> \<not> fd_closed (k_fd k i) then {i} else {})"
  proof (elim disjE conjE exE)
    fix k3 assume "\<not> fd_closed (k_fd k1 i)" "vk_fd_table_drop_dirty i k2 = Some k3"
      "k' = (if \<not> fd_zombie (k_fd k i) then vk_fd_table_enqueue_fresh i k3 else k3)"
    then show ?thesis
      using conjunct2 [OF s1] f2 slot fresh_drop_dirty [of i k2 k3] fresh_enqueue [of i k3] by auto
  qed (use s1 in auto)
qed

lemma process_fd_step:
  assumes "vk_fd_table_process_fd i k = Some k'" "named k i"
  shows "table_step k k'" "set (fresh_fds (k_table k')) \<subseteq> insert i (set (fresh_fds (k_table k)))"
proof -
  let ?rev = "ev_revents (ioft_event (ioft_post (k_fd k i)))"
  define post where "post = (ioft_post (k_fd k i))\<lparr>
    ioft_readable := (if ?rev AND POLLIN \<noteq> 0 then 1 else ioft_readable (ioft_post (k_fd k i))),
    ioft_writable := (if ?rev AND POLLOUT \<noteq> 0 then 1 else ioft_writable (ioft_post (k_fd k i))),
    ioft_rx_closed := (?rev AND POLLHUP \<noteq> 0 \<or> ?rev AND POLLERR \<noteq> 0 \<or> ioft_rx_closed (ioft_post (k_fd k i))),
    ioft_tx_closed := (?rev AND POLLRDHUP \<noteq> 0 \<or> ioft_tx_closed (ioft_post (k_fd k i)))\<rparr>"
  define k1 where "k1 = upd_fd i (\<lambda>slot. slot\<lparr>ioft_post := post, ioft_ret := post\<rparr>) k"
  define k2 where "k2 = (if ?rev \<noteq> 0 then vk_fd_table_enqueue_fresh i k1 else k1)"
  define left where "left = ev_events (asks k i) XOR (?rev AND ev_events (ioft_event (ioft_post (k_fd k i))))"
  define k3 where "k3 = upd_fd i (ioft_pre_update (\<lambda>_. (ioft_pre (k_fd k i))\<lparr>ioft_event := (asks k i)\<lparr>ev_events := left\<rparr>\<rparr>)) k2"
  have s1: "table_step k k1" unfolding k1_def by (rule step_upd_fd) simp_all
  have s2: "table_step k k2" using s1 step_enqueue_fresh by (auto simp: k2_def intro: table_step_trans)
  have pre: "asks k2 i = asks k i" by (simp add: k2_def k1_def vk_fd_table_enqueue_fresh_def)
  have s3: "table_step k2 k3" unfolding k3_def
    by (rule step_upd_fd) (use pre named_step [OF s2] assms(2) in simp_all)
  have f: "set (fresh_fds (k_table k2)) \<subseteq> insert i (set (fresh_fds (k_table k)))"
    "fresh_fds (k_table k3) = fresh_fds (k_table k2)"
    using fresh_enqueue [of i k1] by (auto simp: k2_def k3_def k1_def)
  have res: "k' = k2 \<or> k' = k3 \<or> vk_fd_table_drop_dirty i k3 = Some k'"
    using assms(1) unfolding vk_fd_table_process_fd_def Let_def post_def [symmetric] k1_def [symmetric]
      k2_def [symmetric] left_def [symmetric] k3_def [symmetric] by (auto split: if_splits)
  then show "table_step k k'"
    using s2 table_step_trans [OF s2 s3] step_drop_dirty by (auto intro: table_step_trans)
  show "set (fresh_fds (k_table k')) \<subseteq> insert i (set (fresh_fds (k_table k)))"
    using res f fresh_drop_dirty [of i k3 k'] by auto
qed

subsection \<open>A round of the poll driver\<close>

definition polled_ok :: "kern_world \<Rightarrow> bool" where
  "polled_ok k \<longleftrightarrow>
     (\<forall>p \<in> set (poll_fds (k_table k)).
        \<exists>i. vk_fd_table_get k (ev_fd p) = Some i \<and> fd_allocated (k_fd k i) \<and> named k i)"

definition polling :: "kern_world \<Rightarrow> bool" where
  "polling k \<longleftrightarrow> tied k \<and> fresh_ok k \<and> polled_ok k"

lemma get_step: "table_step k k' \<Longrightarrow> vk_fd_table_get k' fd = vk_fd_table_get k fd"
  by (simp add: table_step_def vk_fd_table_get_def)

lemma alive_step: "table_step k k' \<Longrightarrow> alive k' p = alive k p"
  by (simp add: table_step_def alive_def)

lemma fresh_ok_step:
  assumes "fresh_ok k" "table_step k k'" "set (fresh_fds (k_table k')) \<subseteq> set (fresh_fds (k_table k)) \<union> A"
    "\<And>i. i \<in> A \<Longrightarrow> alive k (owner k i)"
  shows "fresh_ok k'"
  using assms alive_step [OF assms(2)] by (auto simp: fresh_ok_def table_step_def)

lemma polled_ok_step:
  assumes "polled_ok k" "table_step k k'"
    "\<And>p. p \<in> set (poll_fds (k_table k')) \<Longrightarrow> p \<in> set (poll_fds (k_table k)) \<or>
      (\<exists>i. vk_fd_table_get k (ev_fd p) = Some i \<and> fd_allocated (k_fd k i) \<and> named k i)"
  shows "polled_ok k'"
  using assms get_step [OF assms(2)] named_step [OF assms(2)] unfolding polled_ok_def table_step_def by metis

definition known :: "kern_world \<Rightarrow> size_t \<Rightarrow> bool" where
  "known k i \<longleftrightarrow> fd_zombie (k_fd k i) \<or> fd_closed (k_fd k i) \<or> fd_allocated (k_fd k i)"

lemma known_step: "table_step k k' \<Longrightarrow> known k i \<Longrightarrow> known k' i"
  by (auto simp: known_def table_step_def)

lemma poll_register_fd_safe:
  assumes "polling k" "known k i"
  shows "\<exists>k'. poll_register_fd i k = Some k' \<and> polling k' \<and> table_step k k'"
proof -
  have t: "tied k" "fresh_ok k" "polled_ok k" using assms(1) by (simp_all add: polling_def)
  have ok: "fds_ok k" and ow: "fds_owned k" and sl: "slots_ok k" using t(1) by (simp_all add: tied_def)
  obtain k1 where k1: "vk_fd_table_clean_fd i k = Some k1" "fds_ok k1" "other_fds i k k1"
    "\<not> keeps_slot (k_fd k i) \<Longrightarrow> fd_closed (k_fd k1 i)"
    using clean_fd_ok [OF ok, of i] by blast
  note c = clean_fd_step [OF k1(1)]
  have t1: "tied k1" by (rule tied_step [OF t(1) c(1) k1(2)])
  have f1: "fresh_ok k1"
    by (rule fresh_ok_step [OF t(2) c]) (use assms(2) allocated_alive [OF ow] in \<open>auto simp: known_def split: if_splits\<close>)
  have p1: "polled_ok k1"
    by (rule polled_ok_step [OF t(3) c(1)]) (use k1(3) in \<open>simp add: other_fds_def\<close>)
  define k2 where "k2 = upd_fd i (ioft_post_update (\<lambda>_. ioft_pre (k_fd k1 i))) k1"
  define k' where "k' = upd_table (poll_fds_update (\<lambda>ps. ps @ [asks k1 i])) k2"
  have reg: "poll_register_fd i k = Some (if length (poll_fds (k_table k1)) < VK_FD_MAX \<and> \<not> fd_closed (k_fd k1 i) \<and>
      ev_events (asks k1 i) \<noteq> 0 then k' else k1)"
    by (simp add: poll_register_fd_def k1(1) Let_def k'_def k2_def)
  show ?thesis
  proof (cases "length (poll_fds (k_table k1)) < VK_FD_MAX \<and> \<not> fd_closed (k_fd k1 i) \<and> ev_events (asks k1 i) \<noteq> 0")
    case True
    have s2: "table_step k1 k2" unfolding k2_def by (rule step_upd_fd) simp_all
    have s: "table_step k1 k'" using s2 by (simp add: k'_def table_step_def named_def vk_fd_table_get_def)
    have fd: "k_fd k' = k_fd k2" "fresh_fds (k_table k') = fresh_fds (k_table k1)"
      "dirty_fds (k_table k') = dirty_fds (k_table k2)" "fresh_fds (k_table k') = fresh_fds (k_table k2)"
      by (simp_all add: k'_def k2_def)
    have "fds_ok k2" using k1(2) by (simp add: k2_def fds_ok_upd_fd)
    then have ok': "fds_ok k'" unfolding fds_ok_iff fd(1,3,4) .
    have alloc: "fd_allocated (k_fd k1 i)" and nm: "named k1 i"
    proof -
      have "\<not> fd_zombie (k_fd k i)" "\<not> fd_closed (k_fd k i)"
        using True k1(4) c(1) by (auto simp: keeps_slot_def table_step_def)
      then show "fd_allocated (k_fd k1 i)" using assms(2) c(1) by (simp add: known_def table_step_def)
      show "named k1 i" using t1 True by (simp add: tied_def slots_ok_def)
    qed
    have "tied k'" by (rule tied_step [OF t1 s ok'])
    moreover have "fresh_ok k'" by (rule fresh_ok_step [OF f1 s, of "{}"]) (simp_all add: fd(2))
    moreover have "polled_ok k'"
      by (rule polled_ok_step [OF p1 s]) (use alloc nm in \<open>auto simp: k'_def k2_def named_def\<close>)
    ultimately show ?thesis using reg True table_step_trans [OF c(1) s] by (simp add: polling_def)
  next
    case False
    then show ?thesis using t1 f1 p1 c(1) unfolding reg if_not_P [OF False] by (simp add: polling_def)
  qed
qed

lemma poll_register_safe:
  "polling k \<Longrightarrow> \<forall>i \<in> set is. known k i \<Longrightarrow>
   \<exists>k'. poll_register is k = Some k' \<and> polling k' \<and> table_step k k'"
proof (induction "is" arbitrary: k)
  case (Cons i "is")
  obtain k1 where k1: "poll_register_fd i k = Some k1" "polling k1" "table_step k k1"
    using poll_register_fd_safe [OF Cons.prems(1)] Cons.prems(2) by auto
  have "\<forall>j \<in> set is. known k1 j" using Cons.prems(2) known_step [OF k1(3)] by simp
  from Cons.IH [OF k1(2) this] show ?case using k1 table_step_trans [OF k1(3)] by auto
qed simp

lemma poll_process_safe:
  "polling k \<Longrightarrow> \<forall>p \<in> set ps. \<exists>i. vk_fd_table_get k (ev_fd p) = Some i \<and> fd_allocated (k_fd k i) \<and> named k i \<Longrightarrow>
   \<exists>k'. poll_process ps k = Some (0, k') \<and> tied k' \<and> fresh_ok k' \<and> table_step k k'"
proof (induction ps arbitrary: k)
  case Nil
  then show ?case by (simp add: polling_def)
next
  case (Cons p ps)
  obtain i where i: "vk_fd_table_get k (ev_fd p) = Some i" "fd_allocated (k_fd k i)" "named k i"
    using Cons.prems(2) by auto
  define k0 where "k0 = upd_fd i (ioft_post_update (ioft_event_update (\<lambda>_. p))) k"
  have s0: "table_step k k0" unfolding k0_def by (rule step_upd_fd) simp_all
  have t: "tied k" "fresh_ok k" "polled_ok k" using Cons.prems(1) by (simp_all add: polling_def)
  have ok0: "fds_ok k0" using t(1) by (simp add: k0_def fds_ok_upd_fd tied_def)
  obtain k1 where k1: "vk_fd_table_process_fd i k0 = Some k1" "fds_ok k1" "other_fds i k0 k1"
    using process_fd_ok [OF ok0, of i] by blast
  have n0: "named k0 i" using i(3) named_step [OF s0] by simp
  note p1 = process_fd_step [OF k1(1) n0]
  have s1: "table_step k k1" by (rule table_step_trans [OF s0 p1(1)])
  have "fresh_fds (k_table k0) = fresh_fds (k_table k)" by (simp add: k0_def)
  then have "fresh_ok k1"
    using p1(2) allocated_alive [of k i] t(1) i(2)
    by (intro fresh_ok_step [OF t(2) s1, of "{i}"]) (auto simp: tied_def)
  moreover have "polled_ok k1"
    by (rule polled_ok_step [OF t(3) s1]) (use k1(3) in \<open>simp add: other_fds_def k0_def\<close>)
  ultimately have pk: "polling k1" using tied_step [OF t(1) s1 k1(2)] by (simp add: polling_def)
  have "\<forall>q \<in> set ps. \<exists>j. vk_fd_table_get k1 (ev_fd q) = Some j \<and> fd_allocated (k_fd k1 j) \<and> named k1 j"
    using Cons.prems(2) get_step [OF s1] named_step [OF s1] s1 by (simp add: table_step_def)
  from Cons.IH [OF pk this] show ?case
    using i(1) k1(1) table_step_trans [OF s1] by (auto simp: k0_def)
qed

subsection \<open>The invariant of the kernel\<close>

definition kern_ok :: "kern_world \<Rightarrow> bool" where
  "kern_ok k \<longleftrightarrow> tied k \<and> kern_queues_ok k \<and>
     (\<forall>p. p \<in> set (run_procs (k_kern k)) \<or> p \<in> set (blocked_procs (k_kern k)) \<longrightarrow> alive k p) \<and>
     (\<forall>p. has_local (k_proc k p) \<longrightarrow> local_ok (k_local k p)) \<and>
     (\<forall>p < object_count (proc_pool (k_kern k)). proc_id (k_proc k p) = p) \<and>
     \<not> shutdown_requested (k_kern k) \<and> \<not> kern_iso (k_kern k) \<and>
     poll_driver (k_table k) = VK_POLL_DRIVER_POLL"

text \<open>Between two polls no slot waits for dispatch.\<close>

definition calm_kern :: "kern_world \<Rightarrow> bool" where
  "calm_kern k \<longleftrightarrow> kern_ok k \<and> fresh_fds (k_table k) = []"

lemma kern_ok_step: "kern_ok k \<Longrightarrow> table_step k k' \<Longrightarrow> tied k' \<Longrightarrow> kern_ok k'"
  by (simp add: kern_ok_def table_step_def alive_def kern_queues_iff)

lemma no_signal: "s \<noteq> SIGTERM \<Longrightarrow> vk_kern_receive_signal s k = k"
  by (simp add: vk_kern_receive_signal_def vk_kern_sync_signal_handler_def)

lemma wait_loop_idle:
  "\<forall>(s1, res, s2) \<in> set calls. s1 \<noteq> SIGTERM \<and> s2 \<noteq> SIGTERM \<Longrightarrow> wait_loop nothing calls k = (w, k') \<Longrightarrow>
   k' = k \<or> (\<exists>e. w = Wait_Error e)"
proof (induction calls arbitrary: k)
  case (Cons c calls)
  obtain s1 res s2 where c: "c = (s1, res, s2)" by (cases c)
  with Cons.prems(1) have "vk_kern_receive_signal s2 (vk_kern_receive_signal s1 k) = k"
    by (simp add: no_signal)
  then show ?case using Cons.IH [of k] Cons.prems c
    by (auto simp: Let_def split: sum.splits if_splits)
qed simp

definition calls_ok :: "'e wait_call list \<Rightarrow> bool" where
  "calls_ok calls \<longleftrightarrow> (\<forall>(s1, res, s2) \<in> set calls. s1 \<noteq> SIGTERM \<and> s2 \<noteq> SIGTERM)"

lemma poll_safe:
  assumes "calm_kern k" "calls_ok (p_poll pl)"
  shows "vk_kern_poll pl k \<noteq> K_Killed \<and>
    (\<forall>rc k'. vk_kern_poll pl k = K_Returns rc k' \<longrightarrow> rc = - 1 \<or> kern_ok k' \<and> fresh_ok k')"
proof -
  have ok: "kern_ok k" and drv: "poll_driver (k_table k) = VK_POLL_DRIVER_POLL"
    and t: "tied k" using assms(1) by (simp_all add: calm_kern_def kern_ok_def)
  let ?k0 = "upd_table (poll_fds_update (\<lambda>_. [])) k"
  have s0: "table_step k ?k0" by (simp add: table_step_def)
  have "fds_ok ?k0" using t by (simp add: fds_ok_iff tied_def)
  then have t0: "tied ?k0" by (rule tied_step [OF t s0])
  have p0: "polling ?k0" using t0 assms(1) by (simp add: polling_def fresh_ok_def polled_ok_def calm_kern_def)
  have "\<forall>i \<in> set (dirty_fds (k_table k)). known ?k0 i"
    using t by (auto simp: tied_def slots_ok_def known_def)
  then obtain k1 where k1: "poll_register (dirty_fds (k_table k)) ?k0 = Some k1" "polling k1" "table_step ?k0 k1"
    using poll_register_safe [OF p0] by blast
  have s1: "table_step k k1" by (rule table_step_trans [OF s0 k1(3)])
  have ok1: "kern_ok k1" using kern_ok_step [OF ok s1] k1(2) by (simp add: polling_def)
  obtain w k2 where w: "wait_loop (list_all (\<lambda>r. r = 0)) (p_poll pl) k1 = (w, k2)" by (metis prod.exhaust)
  have idle: "k2 = k1 \<or> (\<exists>e. w = Wait_Error e)"
    using wait_loop_idle [OF _ w] assms(2) by (simp add: calls_ok_def)
  have "\<exists>r. vk_fd_table_poll (p_poll pl) k = Some r \<and>
      (\<forall>rc. fst r = Some rc \<longrightarrow> rc = - 1 \<or> kern_ok (snd r) \<and> fresh_ok (snd r))"
  proof (cases "vk_kern_pending k1")
    case False
    then show ?thesis using k1(1,2) ok1 by (simp add: vk_fd_table_poll_def polling_def)
  next
    case True
    show ?thesis
    proof (cases w)
      case (Wait_Events rs)
      then have k2: "k2 = k1" using idle by simp
      let ?ps = "map2 (\<lambda>p r. p\<lparr>ev_revents := r\<rparr>) (poll_fds (k_table k1)) rs"
      let ?k3 = "upd_table (poll_fds_update (\<lambda>_. ?ps)) k1"
      have s3: "table_step k1 ?k3" by (simp add: table_step_def named_def vk_fd_table_get_def)
      have good: "\<exists>i. vk_fd_table_get k1 (ev_fd p) = Some i \<and> fd_allocated (k_fd k1 i) \<and> named k1 i"
        if "p \<in> set ?ps" for p
      proof -
        obtain q r where "q \<in> set (poll_fds (k_table k1))" "p = q\<lparr>ev_revents := r\<rparr>"
          using \<open>p \<in> set ?ps\<close> by (auto dest: set_zip_leftD)
        then show ?thesis using k1(2) by (simp add: polling_def polled_ok_def)
      qed
      have "fds_ok ?k3" using k1(2) by (simp add: fds_ok_iff polling_def tied_def)
      then have "tied ?k3" using k1(2) tied_step [OF _ s3] by (simp add: polling_def)
      moreover have "fresh_ok ?k3" using k1(2) by (simp add: polling_def fresh_ok_def alive_def)
      moreover have "polled_ok ?k3"
        by (rule polled_ok_step [OF _ s3]) (use k1(2) good in \<open>simp_all add: polling_def\<close>)
      ultimately have p3: "polling ?k3" by (simp add: polling_def)
      have "\<forall>p \<in> set ?ps. \<exists>i. vk_fd_table_get ?k3 (ev_fd p) = Some i \<and> fd_allocated (k_fd ?k3 i) \<and> named ?k3 i"
        using good get_step [OF s3] named_step [OF s3] by simp
      then obtain k4 where k4: "poll_process ?ps ?k3 = Some (0, k4)" "tied k4" "fresh_ok k4" "table_step ?k3 k4"
        using poll_process_safe [OF p3] by blast
      have "kern_ok k4" by (rule kern_ok_step [OF ok1 table_step_trans [OF s3 k4(4)] k4(2)])
      then show ?thesis using True k1(1) w Wait_Events k2 k4 by (simp add: vk_fd_table_poll_def Let_def)
    qed (use True k1(1) w in \<open>simp_all add: vk_fd_table_poll_def\<close>)
  qed
  then show ?thesis
    by (auto simp: vk_kern_poll_def vk_fd_table_wait_def drv split: option.splits)
qed

subsection \<open>Dispatching the slots with events\<close>

lemma tied_procs:
  assumes "k_table k' = k_table k"
    "\<And>p. allocated_fds (k_proc k' p) = allocated_fds (k_proc k p) \<and> has_local (k_proc k' p) = has_local (k_proc k p)"
    "object_count (proc_pool (k_kern k')) = object_count (proc_pool (k_kern k))"
  shows "tied k' = tied k"
proof -
  have fd: "k_fd k' = k_fd k" using assms(1) by (simp add: k_fd_def fun_eq_iff)
  have "fds_owned k' = fds_owned k" using assms fd by (intro owned_cong) simp_all
  moreover have "slots_ok k' = slots_ok k" by (simp add: slots_ok_def named_def vk_fd_table_get_def fd assms(1))
  ultimately show ?thesis by (simp add: tied_def fds_ok_table [OF assms(1)])
qed

lemma enqueue_run_kern:
  assumes "kern_ok k" "alive k p"
  shows "kern_ok (vk_kern_enqueue_run p k)" "k_table (vk_kern_enqueue_run p k) = k_table k"
    "alive (vk_kern_enqueue_run p k) q = alive k q"
proof -
  let ?k = "vk_kern_enqueue_run p k"
  show t: "k_table ?k = k_table k" by (simp add: vk_kern_enqueue_run_def)
  have al: "alive ?k q = alive k q" for q by (simp add: vk_kern_enqueue_run_def alive_def)
  then show "alive ?k q = alive k q" .
  have "tied ?k = tied k" by (rule tied_procs) (simp_all add: vk_kern_enqueue_run_def)
  moreover have "kern_queues_ok ?k" using assms(1)
    by (auto simp: kern_ok_def kern_queues_iff vk_kern_enqueue_run_def flag_inv_def)
  ultimately show "kern_ok ?k" using assms al
    unfolding kern_ok_def t by (auto simp: vk_kern_enqueue_run_def split: if_splits)
qed

lemma dequeue_fresh_kern:
  assumes "kern_ok k" "fresh_ok k" "vk_fd_table_dequeue_fresh k = Some (i, k1)"
  shows "kern_ok k1" "fresh_ok k1" "alive k1 (owner k1 i)" "k_kern k1 = k_kern k"
    "length (fresh_fds (k_table k1)) < length (fresh_fds (k_table k))"
proof -
  obtain q where q: "fresh_fds (k_table k) = i # q"
    and k1: "k1 = upd_fd i (fresh_qed_update (\<lambda>_. False)) (upd_table (fresh_fds_update (\<lambda>_. q)) k)"
    using assms(3) by (auto simp: vk_fd_table_dequeue_fresh_def split: list.splits)
  let ?k0 = "upd_table (fresh_fds_update (\<lambda>_. q)) k"
  have "table_step k ?k0" by (simp add: table_step_def named_def vk_fd_table_get_def)
  moreover have "table_step ?k0 k1" unfolding k1 by (rule step_upd_fd) simp_all
  ultimately have s: "table_step k k1" by (rule table_step_trans)
  have t: "tied k" using assms(1) by (simp add: kern_ok_def)
  have "fds_ok k1" using t q unfolding k1 tied_def fds_ok_iff by auto
  then have "tied k1" by (rule tied_step [OF t s])
  then show "kern_ok k1" by (rule kern_ok_step [OF assms(1) s])
  show "fresh_ok k1" by (rule fresh_ok_step [OF assms(2) s, of "{}"]) (auto simp: k1 q)
  have "alive k (owner k i)" using assms(2) q by (simp add: fresh_ok_def)
  then show "alive k1 (owner k1 i)" using s alive_step [OF s] by (simp add: table_step_def)
  show "k_kern k1 = k_kern k" "length (fresh_fds (k_table k1)) < length (fresh_fds (k_table k))"
    by (simp_all add: k1 q)
qed

lemma dispatch_fresh_safe:
  "kern_ok k \<Longrightarrow> fresh_ok k \<Longrightarrow> \<exists>k'. dispatch_fresh k = Some k' \<and> calm_kern k'"
proof (induction k rule: dispatch_fresh.induct)
  case (1 k)
  show ?case
  proof (cases "vk_fd_table_dequeue_fresh k")
    case None
    then show ?thesis using "1.prems"
      by (simp add: dispatch_fresh.simps [of k] calm_kern_def vk_fd_table_dequeue_fresh_def split: list.splits)
  next
    case (Some a)
    then obtain i k1 where d: "vk_fd_table_dequeue_fresh k = Some (i, k1)" by (cases a) simp
    note k1 = dequeue_fresh_kern [OF "1.prems" d]
    let ?p = "owner k1 i"
    have get: "vk_pool_get_entry (proc_pool (k_kern k1)) ?p = Some (unat ?p)"
      using k1(3) by (simp add: alive_def vk_pool_get_entry_def not_le)
    have p: "of_nat (unat ?p) = ?p" by simp
    note e = enqueue_run_kern [OF k1(1,3)]
    have fd: "k_fd (vk_kern_enqueue_run ?p k1) = k_fd k1" using e(2) by (simp add: k_fd_def fun_eq_iff)
    have "fresh_ok (vk_kern_enqueue_run ?p k1)"
      using k1(2) enqueue_run_kern(3) [OF k1(1,3)] by (simp add: fresh_ok_def e(2) fd)
    then show ?thesis
      using "1.IH" [OF d refl get] e(1) d get by (simp add: dispatch_fresh.simps [of k] p)
  qed
qed

subsection \<open>Executing a process\<close>

text \<open>What is asked of the functions of the coroutines: they return, keep what a process relies on, and
  wait only on attached sockets.\<close>

definition body_keeps :: "bodies \<Rightarrow> bool" where
  "body_keeps body \<longleftrightarrow> (\<forall>f t w. local_ok w \<longrightarrow>
     (\<exists>w'. body f t w = Some w' \<and> local_ok w' \<and>
       (th_status (w_thread w' t) = VK_PROC_WAIT \<longrightarrow> th_waiting_socket (w_thread w' t) \<noteq> 0 \<longrightarrow>
          linked w' (th_waiting_socket (w_thread w' t)))))"

lemma local_ok_frame:
  assumes "local_ok w" "frame_ok w w'"
    "\<And>s. s \<in> set (blocked_q (w_local w')) \<Longrightarrow> s \<in> set (blocked_q (w_local w)) \<or> linked w s"
  shows "local_ok w'"
  using assms sound_frame [OF assms(2)] linked_frame [OF assms(2)] by (auto simp: local_ok_def)

lemma blocked_pop_frame [simp]: "blocked_q (w_local (pop_frame w)) = blocked_q (w_local w)"
  by (simp add: pop_frame_def set_errno_def split: sum.split)

lemma blocked_deinit [simp]: "blocked_q (w_local (vk_deinit t w)) = blocked_q (w_local w)"
  by (simp add: vk_deinit_def)

lemma blocked_drop_run: "vk_proc_local_drop_run t w = Some w' \<Longrightarrow> blocked_q (w_local w') = blocked_q (w_local w)"
  by (auto simp: vk_proc_local_drop_run_def q_remove_def split: if_splits option.splits)

lemma blocked_dequeue_run:
  "vk_proc_local_dequeue_run w = Some (t, w') \<Longrightarrow> blocked_q (w_local w') = blocked_q (w_local w)"
  by (auto simp: vk_proc_local_dequeue_run_def Let_def split: list.splits)

lemma execute_call_keeps:
  assumes "local_ok w" "body_keeps body"
  shows "\<exists>rc w'. execute_call os body t w = Some (rc, w') \<and> local_ok w'"
proof -
  let ?w0 = "upd_local (running_cr_update (\<lambda>_. t)) w"
  have "local_ok ?w0" by (rule local_ok_frame [OF assms(1) frame_running]) simp
  then obtain w1 where w1: "body (th_func (w_thread w t)) t ?w0 = Some w1" "local_ok w1"
    and wt: "th_status (w_thread w1 t) = VK_PROC_WAIT \<Longrightarrow> th_waiting_socket (w_thread w1 t) \<noteq> 0 \<Longrightarrow>
      linked w1 (th_waiting_socket (w_thread w1 t))"
    using assms(2) unfolding body_keeps_def by blast
  let ?w2 = "upd_local (running_cr_update (\<lambda>_. 0)) w1"
  have f2: "frame_ok w1 ?w2" by (rule frame_running)
  have l2: "local_ok ?w2" by (rule local_ok_frame [OF w1(2) f2]) simp
  show ?thesis
  proof (cases "th_status (w_thread w1 t) = VK_PROC_END")
    case True
    obtain w3 where w3: "vk_proc_local_drop_blocked_for t ?w2 = Some w3"
      "set (blocked_q (w_local w3)) \<subseteq> set (blocked_q (w_local ?w2))"
      using queues_inv_drop_blocked_for [of ?w2 t] l2 by (auto simp: local_ok_def sound_def)
    have f3: "frame_ok ?w2 w3" using w3(1) frame_drop_blocked_loop by (simp add: vk_proc_local_drop_blocked_for_def)
    let ?w4 = "vk_deinit t w3"
    have f4: "frame_ok ?w2 ?w4" by (rule frame_ok_trans [OF f3 frame_deinit])
    have l4: "local_ok ?w4" by (rule local_ok_frame [OF l2 f4]) (use w3(2) in auto)
    obtain w5 where w5: "vk_proc_local_drop_run t ?w4 = Some w5"
      using queues_inv_drop_run [of ?w4 t] l4 by (auto simp: local_ok_def sound_def)
    have "local_ok w5" by (rule local_ok_frame [OF l4 frame_drop_run [OF w5]]) (simp add: blocked_drop_run [OF w5])
    then show ?thesis using True w1(1) w3(1) w5 l4 by (simp add: execute_call_def Let_def)
  next
    case False
    have "\<exists>rc w'. vk_unblock os t ?w2 = Some (rc, w') \<and> local_ok w'"
    proof (cases "th_status (w_thread w1 t) = VK_PROC_WAIT \<and> th_waiting_socket (w_thread w1 t) \<noteq> 0")
      case True
      let ?s = "th_waiting_socket (w_thread w1 t)"
      have lk: "linked ?w2 ?s" using wt True linked_frame [OF f2] by simp
      obtain rc w' where h: "vk_socket_handler os ?s ?w2 = Some (rc, w')" "frame_ok ?w2 w'"
        using handler_yields [OF lk, of os] by (auto simp: yields_rc_def)
      have "local_ok w'"
        by (rule local_ok_frame [OF l2 h(2)]) (use move_handler [OF h(1)] lk in \<open>auto simp: local_move_def\<close>)
      then show ?thesis using True h(1) by (simp add: vk_unblock_def)
    next
      case False
      have "local_ok (set_errno EINVAL ?w2)"
        by (rule local_ok_frame [OF l2]) (auto simp: frame_errno_mem(2) [unfolded set_errno_def] set_errno_def)
      then show ?thesis using False l2 by (auto simp: vk_unblock_def)
    qed
    then show ?thesis using False w1(1) by (simp add: execute_call_def Let_def)
  qed
qed

lemma execute_loop_keeps:
  "local_ok w \<Longrightarrow> body_keeps body \<Longrightarrow>
   (case execute_loop os body i n cur w of
      Killed \<Rightarrow> False | Out_Of_Fuel \<Rightarrow> True | Returns rc w' \<Rightarrow> local_ok w')"
proof (induction os body i n cur w rule: execute_loop.induct)
  case (1 os body i cur w)
  then show ?case by simp
next
  case (2 os body i n w)
  show ?case
  proof (cases "vk_proc_local_dequeue_run w")
    case None
    then show ?thesis using 2(2) by simp
  next
    case (Some p)
    then obtain t w' where p: "vk_proc_local_dequeue_run w = Some (t, w')" by (metis surj_pair)
    have "local_ok w'" by (rule local_ok_frame [OF 2(2) frame_dequeue_run [OF p]]) (simp add: blocked_dequeue_run [OF p])
    then show ?thesis using 2(1) [OF p] 2(3) p by simp
  qed
next
  case (3 os body i n t w)
  show ?case
  proof (cases "vk_is_ready (w_thread w t)")
    case True
    obtain rc w' where c: "execute_call (os i) body t w = Some (rc, w')" "local_ok w'"
      using execute_call_keeps [OF 3(3,4)] by blast
    then show ?thesis using 3(1) True 3(4) by auto
  next
    case False
    have "local_ok (if vk_is_yielding (w_thread w t) then upd_thread t vk_ready w else w)"
      by (rule local_ok_frame [OF 3(3) frame_yielding]) (auto split: if_splits)
    then show ?thesis using 3(2) False 3(4) by simp
  qed
qed

subsection \<open>Registering and retiring slots\<close>

lemma local_ok_sockets:
  assumes "local_ok w" "w_socket w' = w_socket w" "blocked_q (w_local w') = blocked_q (w_local w)" "queues_inv w'"
  shows "local_ok w'"
proof -
  have h: "has_vk w' = has_vk w" using assms(2) by (simp add: has_vk_def fun_eq_iff)
  have "linked w' = linked w" unfolding linked_def pipe_linked_def h assms(2) ..
  then show ?thesis using assms by (simp add: local_ok_def sound_def rings_ok_def)
qed

lemma raise_at_sel:
  "w_socket (vk_raise_at line counter t e w) = w_socket w"
  "blocked_q (w_local (vk_raise_at line counter t e w)) = blocked_q (w_local w)"
  "w_socket (vk_proc_local_enqueue_run t w) = w_socket w"
  by (simp_all add: vk_raise_at_def vk_proc_local_enqueue_run_def Let_def)

lemma raise_signal_keeps:
  assumes "local_ok w"
  shows "local_ok (snd (vk_proc_local_raise_signal line counter w))"
proof (rule local_ok_sockets [OF assms])
  show "queues_inv (snd (vk_proc_local_raise_signal line counter w))"
    using assms by (intro queues_inv_raise_signal) (simp add: local_ok_def sound_def)
qed (simp_all add: vk_proc_local_raise_signal_def Let_def raise_at_sel)

text \<open>What the registration of a process leaves alone.\<close>

definition proc_frame :: "kern_world \<Rightarrow> kern_world \<Rightarrow> bool" where
  "proc_frame k k' \<longleftrightarrow>
     k_kern k' = k_kern k \<and> k_local k' = k_local k \<and>
     (\<forall>q. \<exists>l. k_proc k' q = (k_proc k q)\<lparr>allocated_fds := l\<rparr>) \<and>
     poll_driver (k_table k') = poll_driver (k_table k) \<and> fresh_fds (k_table k') = fresh_fds (k_table k)"

lemma proc_self: "\<exists>l. pr = pr\<lparr>allocated_fds := l\<rparr>" for pr :: vk_proc
  by (rule exI [of _ "allocated_fds pr"]) simp

lemma proc_frame_refl [simp]: "proc_frame k k"
  by (simp add: proc_frame_def proc_self)

lemma proc_frame_trans: "proc_frame k k1 \<Longrightarrow> proc_frame k1 k2 \<Longrightarrow> proc_frame k k2"
  unfolding proc_frame_def by (auto, metis vk_proc.simps(7) vk_proc.surjective vk_proc.update_convs(6))

lemma proc_frame_sel:
  assumes "proc_frame k k'"
  shows "has_local (k_proc k' q) = has_local (k_proc k q)" "proc_id (k_proc k' q) = proc_id (k_proc k q)"
    "run_qed (k_proc k' q) = run_qed (k_proc k q)" "blocked_qed (k_proc k' q) = blocked_qed (k_proc k q)"
    "isolated (k_proc k' q) = isolated (k_proc k q)" "alive k' q = alive k q"
proof -
  obtain l where "k_proc k' q = (k_proc k q)\<lparr>allocated_fds := l\<rparr>" using assms by (auto simp: proc_frame_def)
  then show "has_local (k_proc k' q) = has_local (k_proc k q)" "proc_id (k_proc k' q) = proc_id (k_proc k q)"
    "run_qed (k_proc k' q) = run_qed (k_proc k q)" "blocked_qed (k_proc k' q) = blocked_qed (k_proc k q)"
    "isolated (k_proc k' q) = isolated (k_proc k q)" "alive k' q = alive k q"
    using assms by (simp_all add: alive_def proc_frame_def)
qed

lemma kern_ok_frame: "kern_ok k \<Longrightarrow> proc_frame k k' \<Longrightarrow> tied k' \<Longrightarrow> kern_ok k'"
  using proc_frame_sel [of k k'] by (simp add: kern_ok_def kern_queues_iff proc_frame_def)

lemma calm_frame: "calm_kern k \<Longrightarrow> proc_frame k k' \<Longrightarrow> tied k' \<Longrightarrow> calm_kern k'"
  using kern_ok_frame [of k k'] by (simp add: calm_kern_def proc_frame_def)

lemma retire_slot:
  assumes "tied k" "i \<in> set (allocated_fds (k_proc k p))"
    "\<And>s. dirty_qed (f s) = dirty_qed s \<and> fresh_qed (f s) = fresh_qed s \<and> fd_allocated (f s) = fd_allocated s \<and>
       fd_proc_id (f s) = fd_proc_id s \<and> ioft_event (ioft_pre (f s)) = ioft_event (ioft_pre s) \<and>
       (fd_closed s \<or> fd_zombie s \<longrightarrow> fd_closed (f s) \<or> fd_zombie (f s))"
    "fd_closed (f (k_fd k i)) \<or> fd_zombie (f (k_fd k i))"
  shows "\<exists>k'. vk_proc_deallocate_fd p i (vk_fd_table_enqueue_dirty i (upd_fd i f k)) = Some k' \<and> tied k' \<and>
    proc_frame k k' \<and> allocated_fds (k_proc k' p) = remove1 i (allocated_fds (k_proc k p)) \<and>
    (\<forall>j. j \<noteq> i \<longrightarrow> k_fd k' j = k_fd k j)"
proof -
  have ow: "fds_owned k" and sl: "slots_ok k" and ok: "fds_ok k" using assms(1) by (simp_all add: tied_def)
  have al: "fd_allocated (k_fd k i)" "owner k i = p" using ow assms(2) by (auto simp: fds_owned_def)
  define k1 where "k1 = upd_fd i f k"
  have ok1: "fds_ok k1" using ok assms(3) by (simp add: k1_def fds_ok_upd_fd)
  note e = enqueue_dirty_ok [OF ok1, of i]
  define k2 where "k2 = vk_fd_table_enqueue_dirty i k1"
  obtain b where b: "k_fd k2 i = (f (k_fd k i))\<lparr>dirty_qed := b\<rparr>" using e(5) by (auto simp: k2_def k1_def)
  have o: "\<And>j. j \<noteq> i \<Longrightarrow> k_fd k2 j = k_fd k j" "k_proc k2 = k_proc k" "k_kern k2 = k_kern k"
    "k_local k2 = k_local k" "table_size (k_table k2) = table_size (k_table k)"
    "\<And>j. j \<noteq> i \<Longrightarrow> j \<in> set (dirty_fds (k_table k2)) \<longleftrightarrow> j \<in> set (dirty_fds (k_table k))"
    using e(2) by (auto simp: other_fds_def k2_def k1_def)
  have drv: "poll_driver (k_table k2) = poll_driver (k_table k)" "fresh_fds (k_table k2) = fresh_fds (k_table k)"
    using e(4) by (simp_all add: k2_def k1_def vk_fd_table_enqueue_dirty_def)
  define k' where "k' = upd_proc p (allocated_fds_update (\<lambda>_. remove1 i (allocated_fds (k_proc k p))))
    (upd_fd i (fd_allocated_update (\<lambda>_. False)) k2)"
  have "vk_proc_deallocate_fd p i k2 = Some k'"
    using al(1) b assms(2,3) o(2) by (simp add: vk_proc_deallocate_fd_def k'_def q_remove_def)
  moreover have "tied k'"
  proof -
    have fd: "k_fd k' i = (f (k_fd k i))\<lparr>dirty_qed := b, fd_allocated := False\<rparr>" "j \<noteq> i \<Longrightarrow> k_fd k' j = k_fd k j" for j
      using b o(1) by (simp_all add: k'_def)
    have pr: "allocated_fds (k_proc k' p) = remove1 i (allocated_fds (k_proc k p))"
      "q \<noteq> p \<Longrightarrow> k_proc k' q = k_proc k q" "has_local (k_proc k' q) = has_local (k_proc k q)" for q
      using o(2) by (simp_all add: k'_def)
    have av: "alive k' q = alive k q" for q using pr(3) o(3) by (simp add: alive_def k'_def)
    have ok2: "fds_ok k2" using e(1) by (simp add: k2_def)
    have "fds_ok (upd_fd i (fd_allocated_update (\<lambda>_. False)) k2)" using ok2 by (simp add: fds_ok_upd_fd)
    then have okk: "fds_ok k'" unfolding k'_def by (subst fds_ok_table) simp_all
    have "distinct (allocated_fds (k_proc k' q)) \<and> (allocated_fds (k_proc k' q) \<noteq> [] \<longrightarrow> alive k' q)" for q
      using ow pr av allocated_alive [OF ow al(1)] al(2) by (cases "q = p") (auto simp: fds_owned_def)
    moreover have "j \<in> set (allocated_fds (k_proc k' q)) \<longleftrightarrow> fd_allocated (k_fd k' j) \<and> owner k' j = q" for q j
      using ow pr fd al assms(3) by (cases "q = p"; cases "j = i") (auto simp: fds_owned_def)
    ultimately have oww: "fds_owned k'" by (simp add: fds_owned_def)
    have nm: "named k' j = named k j" for j
      using fd assms(3) o(5) by (cases "j = i") (simp_all add: named_def vk_fd_table_get_def k'_def)
    have dirty: "dirty_fds (k_table k') = dirty_fds (k_table k2)" by (simp add: k'_def)
    have "slots_ok k'"
      unfolding slots_ok_def
    proof (intro conjI ballI allI impI)
      fix j assume "j \<in> set (dirty_fds (k_table k'))"
      then show "fd_zombie (k_fd k' j) \<or> fd_closed (k_fd k' j) \<or> fd_allocated (k_fd k' j)"
        using fd assms(4) sl o(6) dirty by (cases "j = i") (auto simp: slots_ok_def)
    next
      fix j assume "ev_events (asks k' j) \<noteq> 0"
      then show "named k' j" using fd assms(3) sl nm by (cases "j = i") (simp_all add: slots_ok_def)
    qed
    with okk oww show ?thesis by (simp add: tied_def)
  qed
  moreover have "proc_frame k k'"
    using o drv proc_self by (auto simp: proc_frame_def k'_def)
  moreover have "allocated_fds (k_proc k' p) = remove1 i (allocated_fds (k_proc k p))" "\<And>j. j \<noteq> i \<Longrightarrow> k_fd k' j = k_fd k j"
    using o by (simp_all add: k'_def)
  ultimately show ?thesis unfolding k2_def k1_def by blast
qed

lemma closed_loop_safe:
  "tied k \<Longrightarrow> distinct is \<Longrightarrow> set is \<subseteq> set (allocated_fds (k_proc k p)) \<Longrightarrow>
   \<exists>k'. prepoll_closed_loop p is k = Some k' \<and> tied k' \<and> proc_frame k k'"
proof (induction "is" arbitrary: k)
  case (Cons i "is")
  show ?case
  proof (cases "fd_closed (k_fd k i)")
    case True
    have self: "upd_fd i id k = k" by (rule upd_fd_idem) simp
    obtain k1 where k1: "vk_proc_deallocate_fd p i (vk_fd_table_enqueue_dirty i k) = Some k1" "tied k1" "proc_frame k k1"
      "allocated_fds (k_proc k1 p) = remove1 i (allocated_fds (k_proc k p))"
      using retire_slot [OF Cons.prems(1), of i p id] Cons.prems(3) True by (auto simp: self)
    have "distinct (allocated_fds (k_proc k p))" using Cons.prems(1) by (simp add: tied_def fds_owned_def)
    then have "set is \<subseteq> set (allocated_fds (k_proc k1 p))" using k1(4) Cons.prems(2,3) by auto
    from Cons.IH [OF k1(2) _ this] show ?thesis
      using True k1(1,3) Cons.prems(2) by (auto intro: proc_frame_trans)
  next
    case False
    then show ?thesis using Cons.IH [OF Cons.prems(1)] Cons.prems(2,3) by auto
  qed
qed simp

lemma zombie_loop_safe:
  "tied k \<Longrightarrow> is = allocated_fds (k_proc k p) \<Longrightarrow>
   \<exists>k'. prepoll_zombie_loop p is k = Some k' \<and> tied k' \<and> proc_frame k k' \<and> allocated_fds (k_proc k' p) = []"
proof (induction "is" arbitrary: k)
  case (Cons i "is")
  let ?f = "\<lambda>slot. slot\<lparr>ioft_pre := (ioft_pre slot)\<lparr>ioft_rx_closed := True, ioft_tx_closed := True\<rparr>, fd_zombie := True\<rparr>"
  obtain k1 where k1: "vk_proc_deallocate_fd p i (vk_fd_table_enqueue_dirty i (upd_fd i ?f k)) = Some k1"
    "tied k1" "proc_frame k k1" "allocated_fds (k_proc k1 p) = remove1 i (allocated_fds (k_proc k p))"
    using retire_slot [OF Cons.prems(1), of i p ?f] Cons.prems(2) [symmetric] by auto
  have "is = allocated_fds (k_proc k1 p)" using k1(4) Cons.prems(2) [symmetric] by simp
  from Cons.IH [OF k1(2) this] show ?case using k1(1,3) by (auto intro: proc_frame_trans)
qed simp

lemma allocate_safe:
  assumes "tied k" "alive k p" "proc_id (k_proc k p) = p" "\<not> fd_allocated (k_fd k i)"
  shows "tied (snd (vk_proc_allocate_fd p i fd k))" "proc_frame k (snd (vk_proc_allocate_fd p i fd k))"
    "fd_allocated (k_fd (snd (vk_proc_allocate_fd p i fd k)) i)"
    "table_size (k_table (snd (vk_proc_allocate_fd p i fd k))) = table_size (k_table k)"
proof -
  define f where "f = (\<lambda>slot :: vk_fd. slot\<lparr>fd_num := fd, fd_proc_id := p, fd_allocated := True, fd_closed := False,
    fd_added := False, fd_zombie := False\<rparr>)"
  define k' where "k' = upd_proc p (\<lambda>pr. pr\<lparr>allocated_fds := i # allocated_fds pr\<rparr>) (upd_fd i f k)"
  have "upd_fd i (\<lambda>_. f (k_fd k i)) k = upd_fd i f k" by (simp add: upd_fd_def k_fd_def)
  then have eq: "snd (vk_proc_allocate_fd p i fd k) = k'"
    using assms(3,4) by (simp add: vk_proc_allocate_fd_def vk_fd_allocate_def k'_def f_def Let_def)
  have ow: "fds_owned k" and sl: "slots_ok k" and ok: "fds_ok k" using assms(1) by (simp_all add: tied_def)
  have fd: "k_fd k' i = f (k_fd k i)" "j \<noteq> i \<Longrightarrow> k_fd k' j = k_fd k j" for j by (simp_all add: k'_def)
  have pr: "allocated_fds (k_proc k' p) = i # allocated_fds (k_proc k p)" "q \<noteq> p \<Longrightarrow> k_proc k' q = k_proc k q"
    "has_local (k_proc k' q) = has_local (k_proc k q)" for q by (simp_all add: k'_def)
  have av: "alive k' q = alive k q" for q using pr(3) by (simp add: alive_def k'_def)
  have nm: "named k' j = named k j" for j
    using fd by (cases "j = i") (simp_all add: named_def vk_fd_table_get_def k'_def f_def)
  have out: "i \<notin> set (allocated_fds (k_proc k q))" for q using ow assms(4) by (simp add: fds_owned_def)
  have "fds_ok (upd_fd i f k)" using ok by (simp add: fds_ok_upd_fd f_def)
  then have okk: "fds_ok k'" unfolding k'_def by (subst fds_ok_table) simp_all
  have "distinct (allocated_fds (k_proc k' q)) \<and> (allocated_fds (k_proc k' q) \<noteq> [] \<longrightarrow> alive k' q)" for q
    using ow pr av assms(2) out by (cases "q = p") (auto simp: fds_owned_def)
  moreover have "j \<in> set (allocated_fds (k_proc k' q)) \<longleftrightarrow> fd_allocated (k_fd k' j) \<and> owner k' j = q" for q j
    using ow pr fd out by (cases "q = p"; cases "j = i") (auto simp: fds_owned_def f_def)
  ultimately have oww: "fds_owned k'" by (simp add: fds_owned_def)
  have "slots_ok k'"
    unfolding slots_ok_def
  proof (intro conjI ballI allI impI)
    fix j assume "j \<in> set (dirty_fds (k_table k'))"
    then show "fd_zombie (k_fd k' j) \<or> fd_closed (k_fd k' j) \<or> fd_allocated (k_fd k' j)"
      using fd sl by (cases "j = i") (auto simp: slots_ok_def f_def k'_def)
  next
    fix j assume "ev_events (asks k' j) \<noteq> 0"
    then show "named k' j" using fd sl nm by (cases "j = i") (simp_all add: slots_ok_def f_def)
  qed
  with okk oww show "tied (snd (vk_proc_allocate_fd p i fd k))" by (simp add: tied_def eq)
  show "proc_frame k (snd (vk_proc_allocate_fd p i fd k))" using proc_self
    by (auto simp: eq proc_frame_def k'_def)
  show "fd_allocated (k_fd (snd (vk_proc_allocate_fd p i fd k)) i)"
    "table_size (k_table (snd (vk_proc_allocate_fd p i fd k))) = table_size (k_table k)"
    unfolding eq using fd by (simp_all add: f_def k'_def)
qed

lemma set_pre_safe:
  assumes "tied k" "vk_fd_table_get k (ev_fd (ioft_event pre)) = Some i"
  shows "tied (upd_fd i (ioft_pre_update (\<lambda>_. pre)) k)" "proc_frame k (upd_fd i (ioft_pre_update (\<lambda>_. pre)) k)"
proof -
  let ?k = "upd_fd i (ioft_pre_update (\<lambda>_. pre)) k"
  have "fds_owned ?k = fds_owned k" by (rule owned_cong) simp_all
  moreover have "named ?k j = (if j = i then True else named k j)" for j
    using assms(2) by (cases "j = i") (simp_all add: named_def vk_fd_table_get_def split: if_splits)
  then have "slots_ok ?k" using assms(1) by (auto simp: tied_def slots_ok_def)
  ultimately show "tied ?k" using assms(1) by (simp add: tied_def fds_ok_upd_fd)
  show "proc_frame k ?k" by (simp add: proc_frame_def proc_self)
qed

lemma enqueue_dirty_safe:
  assumes "tied k" "known k i"
  shows "tied (vk_fd_table_enqueue_dirty i k)" "proc_frame k (vk_fd_table_enqueue_dirty i k)"
proof -
  let ?k = "vk_fd_table_enqueue_dirty i k"
  have ok: "fds_ok k" using assms(1) by (simp add: tied_def)
  have slot: "fd_allocated (k_fd ?k j) = fd_allocated (k_fd k j)" "owner ?k j = owner k j"
    "asks ?k j = asks k j" "fd_zombie (k_fd ?k j) = fd_zombie (k_fd k j)" "fd_closed (k_fd ?k j) = fd_closed (k_fd k j)"
    "k_proc ?k = k_proc k" "k_kern ?k = k_kern k" "table_size (k_table ?k) = table_size (k_table k)" for j
    by (simp_all add: vk_fd_table_enqueue_dirty_def)
  have "fds_owned ?k = fds_owned k" by (rule owned_cong) (simp_all add: slot)
  moreover have "slots_ok ?k"
    using assms unfolding slots_ok_def tied_def named_def vk_fd_table_get_def known_def slot
    by (auto simp: vk_fd_table_enqueue_dirty_def split: if_splits)
  ultimately show "tied ?k" using assms(1) enqueue_dirty_ok(1) [OF ok] by (simp add: tied_def)
  show "proc_frame k ?k" by (auto simp: proc_frame_def proc_self vk_fd_table_enqueue_dirty_def)
qed

lemma blocked_fd_safe:
  assumes "tied k" "alive k p" "proc_id (k_proc k p) = p"
  shows "tied (vk_fd_table_prepoll_blocked_fd s ioft p k)" "proc_frame k (vk_fd_table_prepoll_blocked_fd s ioft p k)"
proof -
  have "tied (vk_fd_table_prepoll_blocked_fd s ioft p k) \<and> proc_frame k (vk_fd_table_prepoll_blocked_fd s ioft p k)"
  proof (cases "vk_fd_table_get k (ev_fd (ioft_event ioft))")
    case None
    then show ?thesis using assms(1) by (simp add: vk_fd_table_prepoll_blocked_fd_def)
  next
    case (Some i)
    define k1 where "k1 = (if \<not> fd_allocated (k_fd k i)
      then snd (vk_proc_allocate_fd p i (ev_fd (ioft_event ioft)) k) else k)"
    have k1: "tied k1" "proc_frame k k1" "fd_allocated (k_fd k1 i)" "table_size (k_table k1) = table_size (k_table k)"
      using allocate_safe [OF assms] assms(1) by (simp_all add: k1_def)
    define pre where "pre = (vk_io_future_init s)\<lparr>ioft_event := \<lparr>ev_fd = ev_fd (ioft_event ioft),
      ev_events = ev_events (ioft_event ioft), ev_revents = 0\<rparr>\<rparr>"
    have g: "vk_fd_table_get k1 (ev_fd (ioft_event pre)) = Some i"
      using Some k1(4) by (simp add: vk_fd_table_get_def pre_def)
    define k2 where "k2 = upd_fd i (ioft_pre_update (\<lambda>_. pre)) k1"
    have k2: "tied k2" "proc_frame k k2" "known k2 i"
      using set_pre_safe [OF k1(1) g] k1(2,3) by (auto simp: k2_def known_def intro: proc_frame_trans)
    have "vk_fd_table_prepoll_blocked_fd s ioft p k = k2 \<or>
        vk_fd_table_prepoll_blocked_fd s ioft p k = vk_fd_table_enqueue_dirty i k2"
      unfolding vk_fd_table_prepoll_blocked_fd_def Let_def k1_def k2_def pre_def using Some by simp
    then show ?thesis
      using k2 enqueue_dirty_safe [OF k2(1,3)] by (auto intro: proc_frame_trans)
  qed
  then show "tied (vk_fd_table_prepoll_blocked_fd s ioft p k)" "proc_frame k (vk_fd_table_prepoll_blocked_fd s ioft p k)"
    by blast+
qed

definition may_register :: "size_t \<Rightarrow> kern_world \<Rightarrow> bool" where
  "may_register p k \<longleftrightarrow> tied k \<and> alive k p \<and> proc_id (k_proc k p) = p"

lemma may_register_frame: "may_register p k \<Longrightarrow> proc_frame k k' \<Longrightarrow> tied k' \<Longrightarrow> may_register p k'"
  by (simp add: may_register_def proc_frame_sel)

lemma blocked_socket_safe:
  assumes "may_register p k"
  shows "may_register p (vk_fd_table_prepoll_blocked_socket s so p k)"
    "proc_frame k (vk_fd_table_prepoll_blocked_socket s so p k)"
proof -
  have one: "may_register p (vk_fd_table_prepoll_blocked_fd s ft p h) \<and> proc_frame h (vk_fd_table_prepoll_blocked_fd s ft p h)"
    if "may_register p h" for h ft
    using that blocked_fd_safe [of h p s ft] may_register_frame [OF that] by (simp add: may_register_def)
  have two: "proc_frame k (vk_fd_table_prepoll_blocked_fd s ft2 p (vk_fd_table_prepoll_blocked_fd s ft1 p k))" for ft1 ft2
    using one [OF assms, of ft1] one [of "vk_fd_table_prepoll_blocked_fd s ft1 p k" ft2]
    by (auto intro: proc_frame_trans)
  have "may_register p (vk_fd_table_prepoll_blocked_socket s so p k) \<and>
      proc_frame k (vk_fd_table_prepoll_blocked_socket s so p k)"
    using one assms two unfolding vk_fd_table_prepoll_blocked_socket_def Let_def by simp
  then show "may_register p (vk_fd_table_prepoll_blocked_socket s so p k)"
    "proc_frame k (vk_fd_table_prepoll_blocked_socket s so p k)" by blast+
qed

lemma sockets_safe:
  "may_register p k \<Longrightarrow> may_register p (prepoll_sockets p ss k) \<and> proc_frame k (prepoll_sockets p ss k)"
proof (induction ss arbitrary: k)
  case (Cons s ss)
  note b = blocked_socket_safe [OF Cons.prems, of s "w_socket (k_local k p) s"]
  show ?case using Cons.IH [OF b(1)] proc_frame_trans [OF b(2)] by (simp add: prepoll_sockets_def)
qed (simp add: prepoll_sockets_def)

lemma proc_prepoll_safe:
  assumes "may_register p k"
  shows "\<exists>k'. vk_proc_prepoll p k = Some k' \<and> tied k' \<and> proc_frame k k'"
proof -
  have t: "tied k" using assms by (simp add: may_register_def)
  then have "distinct (allocated_fds (k_proc k p))" by (simp add: tied_def fds_owned_def)
  then obtain k1 where k1: "prepoll_closed_loop p (allocated_fds (k_proc k p)) k = Some k1" "tied k1" "proc_frame k k1"
    using closed_loop_safe [OF t] by blast
  note m = sockets_safe [OF may_register_frame [OF assms k1(3,2)]]
  show ?thesis using k1 m proc_frame_trans [OF k1(3)] by (auto simp: vk_proc_prepoll_def may_register_def)
qed

subsection \<open>Executing and dispatching a process\<close>

text \<open>What the invariant reads of a kernel.\<close>

definition same_kern :: "kern_world \<Rightarrow> kern_world \<Rightarrow> bool" where
  "same_kern k k' \<longleftrightarrow> k_table k' = k_table k \<and>
     (\<forall>q. allocated_fds (k_proc k' q) = allocated_fds (k_proc k q) \<and> has_local (k_proc k' q) = has_local (k_proc k q) \<and>
        run_qed (k_proc k' q) = run_qed (k_proc k q) \<and> blocked_qed (k_proc k' q) = blocked_qed (k_proc k q) \<and>
        proc_id (k_proc k' q) = proc_id (k_proc k q)) \<and>
     run_procs (k_kern k') = run_procs (k_kern k) \<and> blocked_procs (k_kern k') = blocked_procs (k_kern k) \<and>
     object_count (proc_pool (k_kern k')) = object_count (proc_pool (k_kern k)) \<and>
     shutdown_requested (k_kern k') = shutdown_requested (k_kern k) \<and> kern_iso (k_kern k') = kern_iso (k_kern k)"

lemma same_kern_refl [simp]: "same_kern k k"
  by (simp add: same_kern_def)

lemma same_kern_trans: "same_kern k k1 \<Longrightarrow> same_kern k1 k2 \<Longrightarrow> same_kern k k2"
  by (simp add: same_kern_def)

lemma same_alive: "same_kern k k' \<Longrightarrow> alive k' q = alive k q"
  by (simp add: same_kern_def alive_def)

lemma calm_same:
  assumes "calm_kern k" "same_kern k k'" "\<And>q. has_local (k_proc k q) \<Longrightarrow> local_ok (k_local k' q)"
  shows "calm_kern k'"
proof -
  have "tied k' = tied k" using assms(2) by (intro tied_procs) (simp_all add: same_kern_def)
  then show ?thesis
    using assms same_alive [OF assms(2)] by (simp add: calm_kern_def kern_ok_def kern_queues_iff same_kern_def)
qed

lemma calm_same_local:
  assumes "calm_kern k" "same_kern k k'" "k_local k' = k_local k"
  shows "calm_kern k'"
  using assms by (intro calm_same [OF assms(1,2)]) (simp add: calm_kern_def kern_ok_def)

lemma calm_set_local:
  assumes "calm_kern k" "local_ok w"
  shows "calm_kern (set_local p w k)" "same_kern k (set_local p w k)"
proof -
  show s: "same_kern k (set_local p w k)" by (simp add: same_kern_def)
  show "calm_kern (set_local p w k)"
    using assms by (intro calm_same [OF assms(1) s]) (simp add: calm_kern_def kern_ok_def)
qed

lemma same_heap_gate:
  "same_kern k (snd (enter_proc_heap ret p k))" "k_local (snd (enter_proc_heap ret p k)) = k_local k"
  "same_kern k (snd (exit_proc_heap ret p k))" "k_local (snd (exit_proc_heap ret p k)) = k_local k"
  by (auto simp: enter_proc_heap_def exit_proc_heap_def same_kern_def upd_proc_def split: prod.split)

text \<open>An outcome that is safe: no crash, and on success the invariant with the same processes alive.\<close>

definition app_keeps :: "app \<Rightarrow> bool" where
  "app_keeps a \<longleftrightarrow> (\<forall>pr. body_keeps (app_body a pr))"

definition stays :: "size_t \<Rightarrow> kern_result \<Rightarrow> bool" where
  "stays p r \<longleftrightarrow> (case r of K_Killed \<Rightarrow> False | K_Out_Of_Fuel \<Rightarrow> True
     | K_Returns rc k' \<Rightarrow> calm_kern k' \<and> alive k' p)"

lemma execute_protected_safe:
  assumes "calm_kern k" "alive k p" "app_keeps a"
  shows "\<exists>r k'. execute_protected a p k = (r, k') \<and> same_kern k k' \<and> k_local k' = k_local k \<and>
    (case r of Killed \<Rightarrow> False | Out_Of_Fuel \<Rightarrow> True | Returns rc w \<Rightarrow> local_ok w)"
proof -
  let ?k1 = "snd (enter_proc_heap (app_mprotect a 0) p k)"
  note g = same_heap_gate(1,2) [where k = k and ret = "app_mprotect a 0" and p = p]
  have "kern_iso (k_kern ?k1) = kern_iso (k_kern k)" using g(1) by (simp add: same_kern_def)
  then have iso: "\<not> kern_iso (k_kern ?k1)" using assms(1) by (simp add: calm_kern_def kern_ok_def)
  have "local_ok (k_local k p)" using assms(1,2) by (simp add: calm_kern_def kern_ok_def alive_def)
  then have run: "case run_proc a p pr ?k1 of Killed \<Rightarrow> False | Out_Of_Fuel \<Rightarrow> True | Returns rc w \<Rightarrow> local_ok w" for pr
    using execute_loop_keeps [of "k_local k p" "app_body a pr"] assms(3) iso g(2)
    by (simp add: run_proc_def vk_proc_local_execute_def app_keeps_def)
  have prot: "same_kern k (?k1\<lparr>k_kern_prot := x\<rparr>)" for x using g(1) by (simp add: same_kern_def)
  show ?thesis
    using run prot g by (auto simp: execute_protected_def Let_def split: prod.split)
qed

lemma proc_execute_safe:
  assumes "calm_kern k" "alive k p" "app_keeps a"
  shows "stays p (vk_proc_execute a p k)"
proof -
  have lo: "local_ok (k_local k p)" and hl: "has_local (k_proc k p)"
    using assms(1,2) by (simp_all add: calm_kern_def kern_ok_def alive_def)
  obtain raised w where rs: "vk_proc_local_raise_signal (app_line a) (app_counter a) (k_local k p) = (raised, w)"
    by fastforce
  have "local_ok w" using raise_signal_keeps [OF lo, of "app_line a" "app_counter a"] rs by simp
  moreover obtain rc w' where pp: "vk_proc_postpoll (app_retry a) p k = Some (rc, set_local p w' k)" "local_ok w'"
    using postpoll_ok [OF lo, of "app_retry a"] by blast
  ultimately obtain rc0 w0 where
    start: "(if raised then Some (0, set_local p w k) else vk_proc_postpoll (app_retry a) p k) = Some (rc0, set_local p w0 k)"
    and w0: "local_ok w0" by (cases raised) auto
  let ?k1 = "set_local p w0 k"
  note c1 = calm_set_local [OF assms(1) w0, of p]
  have a1: "alive ?k1 p" using same_alive [OF c1(2)] assms(2) by simp
  show ?thesis
  proof (cases "rc0 = - 1")
    case True
    then show ?thesis using start c1(1) a1 hl rs by (simp add: vk_proc_execute_def stays_def)
  next
    case False
    obtain r k2 where r: "execute_protected a p ?k1 = (r, k2)" "same_kern ?k1 k2" "k_local k2 = k_local ?k1"
      "case r of Killed \<Rightarrow> False | Out_Of_Fuel \<Rightarrow> True | Returns rc w \<Rightarrow> local_ok w"
      using execute_protected_safe [OF c1(1) a1 assms(3)] by blast
    have c2: "calm_kern k2" by (rule calm_same_local [OF c1(1) r(2,3)])
    have a2: "alive k2 p" using same_alive [OF r(2)] a1 by simp
    show ?thesis
    proof (cases r)
      case (Returns rc v)
      let ?k3 = "set_local p v k2"
      have "local_ok v" using r(4) Returns by simp
      note c3 = calm_set_local [OF c2 this, of p]
      have a3: "alive ?k3 p" using same_alive [OF c3(2)] a2 by simp
      have "proc_id (k_proc ?k3 p) = p" using c3(1) a3 by (simp add: calm_kern_def kern_ok_def alive_def)
      then have "may_register p ?k3" using c3(1) a3 by (simp add: may_register_def calm_kern_def kern_ok_def)
      then obtain k4 where k4: "vk_proc_prepoll p ?k3 = Some k4" "tied k4" "proc_frame ?k3 k4"
        using proc_prepoll_safe by blast
      have "calm_kern k4" "alive k4 p"
        using calm_frame [OF c3(1) k4(3,2)] proc_frame_sel(6) [OF k4(3)] a3 by simp_all
      then show ?thesis using False start hl rs r(1) Returns c3(1) a3 k4(1)
        by (simp add: vk_proc_execute_def stays_def Let_def)
    qed (use False start hl rs r in \<open>simp_all add: vk_proc_execute_def stays_def\<close>)
  qed
qed

lemma execute_proc_safe:
  assumes "calm_kern k" "alive k p" "app_keeps a"
  shows "stays p (vk_kern_execute_proc a p k)"
proof -
  have st: "calm_kern (upd_kern (kern_rc_update f) h) = calm_kern h \<and> alive (upd_kern (kern_rc_update f) h) p = alive h p" for f h
  proof -
    have s: "same_kern h (upd_kern (kern_rc_update f) h)" "same_kern (upd_kern (kern_rc_update f) h) h"
      by (simp_all add: same_kern_def)
    then show ?thesis using calm_same_local [OF _ s(1)] calm_same_local [OF _ s(2)] same_alive [OF s(1)] by auto
  qed
  show ?thesis
    using proc_execute_safe [OF assms] st
    by (auto simp: vk_kern_execute_proc_def vk_proc_execute_mainline_def stays_def Let_def split: kern_result.splits)
qed

lemma flush_sel:
  "vk_kern_flush_proc_queues p k = Some k' \<Longrightarrow>
   proc_pool (k_kern k') = proc_pool (k_kern k) \<and> shutdown_requested (k_kern k') = shutdown_requested (k_kern k) \<and>
   kern_iso (k_kern k') = kern_iso (k_kern k)"
  by (auto simp: vk_kern_flush_proc_queues_def vk_kern_enqueue_run_def vk_kern_enqueue_blocked_def
      vk_kern_drop_run_def vk_kern_drop_blocked_def bind_eq_Some_conv split: if_splits option.splits)

lemma flush_safe:
  assumes "calm_kern k" "alive k p"
  shows "\<exists>k'. vk_kern_flush_proc_queues p k = Some k' \<and> calm_kern k' \<and> alive k' p"
proof -
  have ok: "kern_ok k" using assms(1) by (simp add: calm_kern_def)
  then have q: "kern_queues_ok k" by (simp add: kern_ok_def)
  have hl: "has_local (k_proc k p)" using assms(2) by (simp add: alive_def)
  obtain k' where k': "vk_kern_flush_proc_queues p k = Some k'" "kern_queues_ok k'"
    "\<And>q. q \<noteq> p \<Longrightarrow> (q \<in> set (run_procs (k_kern k')) \<longleftrightarrow> q \<in> set (run_procs (k_kern k))) \<and>
      (q \<in> set (blocked_procs (k_kern k')) \<longleftrightarrow> q \<in> set (blocked_procs (k_kern k)))"
    "k_local k' = k_local k" "k_table k' = k_table k"
    "\<And>q. \<exists>f g. k_proc k' q = (k_proc k q)\<lparr>run_qed := f, blocked_qed := g\<rparr>"
    using flush_ok [OF q hl] by blast
  note s = flush_sel [OF k'(1)]
  have pr: "allocated_fds (k_proc k' x) = allocated_fds (k_proc k x) \<and> has_local (k_proc k' x) = has_local (k_proc k x) \<and>
      proc_id (k_proc k' x) = proc_id (k_proc k x)" for x
    using k'(6) [of x] by auto
  have al: "alive k' x = alive k x" for x using pr s by (simp add: alive_def)
  have "tied k' = tied k" by (rule tied_procs [OF k'(5)]) (simp_all add: pr s)
  moreover have "alive k' x" if "x \<in> set (run_procs (k_kern k')) \<or> x \<in> set (blocked_procs (k_kern k'))" for x
    using that k'(3) ok al assms(2) by (cases "x = p") (auto simp: kern_ok_def)
  ultimately have "calm_kern k'"
    using assms(1) k'(2,4,5) pr s unfolding calm_kern_def kern_ok_def by simp
  then show ?thesis using k'(1) al assms(2) by blast
qed

lemma free_proc_safe:
  assumes "kern_ok k" "fresh_fds (k_table k) = []" "alive k p" "vk_proc_is_zombie (k_proc k p)"
    "allocated_fds (k_proc k p) = []"
  shows "calm_kern (vk_kern_free_proc p k)"
proof -
  let ?k = "vk_kern_free_proc p k"
  have id: "proc_id (k_proc k p) = p" using assms(1,3) by (simp add: kern_ok_def alive_def)
  then have get: "vk_pool_get_entry (proc_pool (k_kern k)) (proc_id (k_proc k p)) = Some (unat p)"
    using assms(3) by (simp add: alive_def vk_pool_get_entry_def not_le)
  obtain pool where k': "?k = upd_kern (proc_pool_update (\<lambda>_. pool)) (k\<lparr>k_proc := (k_proc k)(p := vk_proc_clear (k_proc k p))\<rparr>)"
    and cnt: "object_count pool = object_count (proc_pool (k_kern k))"
    using get by (cases "slist_insert_head (free_head (proc_pool (k_kern k))) (free_link (proc_pool (k_kern k))) (unat p)")
      (simp add: vk_kern_free_proc_def vk_pool_free_entry_def call_func_def Let_def)
  have nq: "p \<notin> set (run_procs (k_kern k))" "p \<notin> set (blocked_procs (k_kern k))" "\<not> run_qed (k_proc k p)"
    "\<not> blocked_qed (k_proc k p)"
    using assms(1,4) by (simp_all add: kern_ok_def kern_queues_iff flag_inv_def vk_proc_is_zombie_def)
  have pr: "q \<noteq> p \<Longrightarrow> k_proc ?k q = k_proc k q" "run_qed (k_proc ?k q) = run_qed (k_proc k q)"
    "blocked_qed (k_proc ?k q) = blocked_qed (k_proc k q)" "allocated_fds (k_proc ?k q) = allocated_fds (k_proc k q)"
    "proc_id (k_proc ?k q) = proc_id (k_proc k q)" "has_local (k_proc ?k q) \<Longrightarrow> has_local (k_proc k q)" for q
    using nq assms(5) by (simp_all add: k' vk_proc_clear_def split: if_splits)
  have t: "k_table ?k = k_table k" "k_local ?k = k_local k" "k_fd ?k = k_fd k" "run_procs (k_kern ?k) = run_procs (k_kern k)"
    "blocked_procs (k_kern ?k) = blocked_procs (k_kern k)" "object_count (proc_pool (k_kern ?k)) = object_count (proc_pool (k_kern k))"
    "shutdown_requested (k_kern ?k) = shutdown_requested (k_kern k)" "kern_iso (k_kern ?k) = kern_iso (k_kern k)"
    by (simp_all add: k' cnt)
  have al: "q \<noteq> p \<Longrightarrow> alive ?k q = alive k q" for q by (simp add: alive_def pr(1) t)
  have ti: "tied k" using assms(1) by (simp add: kern_ok_def)
  have "fds_owned ?k"
    using ti assms(5) al unfolding tied_def fds_owned_def t pr by metis
  moreover have "slots_ok ?k" using ti by (simp add: tied_def slots_ok_def named_def vk_fd_table_get_def t)
  ultimately have "tied ?k" using ti by (simp add: tied_def fds_ok_table [OF t(1)])
  moreover have "kern_queues_ok ?k" using assms(1) by (simp add: kern_ok_def kern_queues_iff t pr)
  moreover have "alive ?k q" if "q \<in> set (run_procs (k_kern ?k)) \<or> q \<in> set (blocked_procs (k_kern ?k))" for q
    using that nq al assms(1) by (cases "q = p") (auto simp: kern_ok_def t)
  ultimately show ?thesis
    using assms(1,2) pr(5,6) unfolding calm_kern_def kern_ok_def t by simp
qed

definition goes_on :: "kern_result \<Rightarrow> bool" where
  "goes_on r \<longleftrightarrow> (case r of K_Killed \<Rightarrow> False | K_Out_Of_Fuel \<Rightarrow> True
     | K_Returns rc k' \<Rightarrow> rc = - 1 \<or> calm_kern k')"

lemma bury_safe:
  assumes "calm_kern k" "alive k p" "vk_proc_is_zombie (k_proc k p)"
  shows "\<exists>rc k'. bury unmap ret p k = Some (rc, k') \<and> (rc = - 1 \<or> calm_kern k')"
proof -
  have t: "tied k" using assms(1) by (simp add: calm_kern_def kern_ok_def)
  obtain k1 where k1: "vk_fd_table_prepoll_zombie p k = Some k1" "tied k1" "proc_frame k k1"
    "allocated_fds (k_proc k1 p) = []"
    using zombie_loop_safe [OF t refl, of p] by (auto simp: vk_fd_table_prepoll_zombie_def)
  have c1: "calm_kern k1" by (rule calm_frame [OF assms(1) k1(3,2)])
  have p1: "alive k1 p" "vk_proc_is_zombie (k_proc k1 p)"
    using proc_frame_sel [OF k1(3)] assms(2,3) by (simp_all add: vk_proc_is_zombie_def)
  have free: "calm_kern (vk_kern_free_proc p h)" if "same_kern k1 h" "k_local h = k_local k1" for h
  proof (rule free_proc_safe)
    have c: "calm_kern h" by (rule calm_same_local [OF c1 that])
    then show "kern_ok h" "fresh_fds (k_table h) = []" by (simp_all add: calm_kern_def)
    show "alive h p" using same_alive [OF that(1)] p1 by simp
    show "vk_proc_is_zombie (k_proc h p)" "allocated_fds (k_proc h p) = []"
      using that(1) p1 k1(4) by (simp_all add: same_kern_def vk_proc_is_zombie_def)
  qed
  show ?thesis
  proof (cases "proc_pooled (k_proc k1 p)")
    case False
    then show ?thesis using k1(1) free by (auto simp: bury_def)
  next
    case True
    obtain rc k2 where k2: "vk_proc_free_from_pool p k1 = (rc, k2)" by fastforce
    obtain rc' k3 where k3: "exit_proc_heap ret p k2 = (rc', k3)" by fastforce
    have s2: "same_kern k1 k2" "k_local k2 = k_local k1"
      using k2 by (auto simp: vk_proc_free_from_pool_def same_kern_def split: option.splits prod.splits)
    have "same_kern k1 k3" "k_local k3 = k_local k1"
      using same_heap_gate(3,4) [where k = k2 and ret = ret and p = p] k3 s2 by (auto intro: same_kern_trans)
    then show ?thesis using True k1(1) k2 k3 free by (simp add: bury_def)
  qed
qed

lemma dispatch_proc_safe:
  assumes "calm_kern k" "alive k p" "app_keeps a"
  shows "goes_on (vk_kern_dispatch_proc unmap a p k)"
proof -
  obtain rc k1 where e: "enter_proc_heap (app_mprotect a 3) p k = (rc, k1)" by fastforce
  have s1: "same_kern k k1" "k_local k1 = k_local k"
    using same_heap_gate(1,2) [where k = k and ret = "app_mprotect a 3" and p = p] e by simp_all
  have c1: "calm_kern k1" "alive k1 p"
    using calm_same_local [OF assms(1) s1] same_alive [OF s1(1)] assms(2) by simp_all
  note x = execute_proc_safe [OF c1 assms(3)]
  show ?thesis
  proof (cases "vk_kern_execute_proc a p k1")
    case (K_Returns rc2 k2)
    then have c2: "calm_kern k2" "alive k2 p" using x by (simp_all add: stays_def)
    obtain k3 where k3: "vk_kern_flush_proc_queues p k2 = Some k3" "calm_kern k3" "alive k3 p"
      using flush_safe [OF c2] by blast
    obtain rc4 k4 where b: "vk_proc_is_zombie (k_proc k3 p) \<longrightarrow>
        bury unmap (app_mprotect a 4) p k3 = Some (rc4, k4) \<and> (rc4 = - 1 \<or> calm_kern k4)"
      using bury_safe [OF k3(2,3)] by metis
    obtain rc5 k5 where h: "exit_proc_heap (app_mprotect a 4) p k3 = (rc5, k5)" by fastforce
    have "calm_kern k5"
      using same_heap_gate(3,4) [where k = k3 and ret = "app_mprotect a 4" and p = p] h calm_same_local [OF k3(2), of k5]
      by simp
    then show ?thesis using e K_Returns k3 b h by (simp add: vk_kern_dispatch_proc_def goes_on_def)
  qed (use x e in \<open>simp_all add: vk_kern_dispatch_proc_def stays_def goes_on_def\<close>)
qed

subsection \<open>The loop\<close>

definition turn_ok :: "turn \<Rightarrow> bool" where
  "turn_ok t \<longleftrightarrow> t_before t \<noteq> SIGTERM \<and> t_after t \<noteq> SIGTERM \<and> app_keeps (t_app t)"

lemma dequeue_run_safe:
  assumes "calm_kern k" "vk_kern_dequeue_run k = Some (p, k1)"
  shows "calm_kern k1" "alive k1 p" "\<not> run_qed (k_proc k1 p)"
proof -
  obtain q where q: "run_procs (k_kern k) = p # q"
    and k1: "k1 = upd_proc p (run_qed_update (\<lambda>_. False)) (upd_kern (run_procs_update (\<lambda>_. q)) k)"
    using assms(2) by (auto simp: vk_kern_dequeue_run_def split: list.splits)
  have ok: "kern_ok k" using assms(1) by (simp add: calm_kern_def)
  have al: "alive k1 x = alive k x" for x by (simp add: k1 alive_def)
  have "tied k1 = tied k" by (rule tied_procs) (simp_all add: k1)
  moreover have "kern_queues_ok k1" using ok q unfolding kern_ok_def kern_queues_iff by (auto simp: k1 flag_inv_def)
  ultimately show "calm_kern k1" using assms(1) al q unfolding calm_kern_def kern_ok_def by (auto simp: k1)
  show "alive k1 p" using ok q al by (simp add: kern_ok_def)
  show "\<not> run_qed (k_proc k1 p)" by (simp add: k1)
qed

lemma dispatch_run_safe:
  "calm_kern k \<Longrightarrow> (\<And>i. turn_ok (env i)) \<Longrightarrow> goes_on (dispatch_run env n m k)"
proof (induction env n m k rule: dispatch_run.induct)
  case (2 env n m k)
  show ?case
  proof (cases "vk_kern_dequeue_run k")
    case None
    then show ?thesis using 2(2) by (simp add: goes_on_def)
  next
    case (Some a)
    then obtain p k1 where d: "vk_kern_dequeue_run k = Some (p, k1)" by (cases a) simp
    note k1 = dequeue_run_safe [OF 2(2) d]
    have "upd_proc p (run_qed_update (\<lambda>_. False)) k1 = k1"
      using k1(3) by (cases k1) (simp add: upd_proc_def fun_upd_idem)
    then have k2: "vk_kern_receive_signal (t_before (env n)) (upd_proc p (run_qed_update (\<lambda>_. False)) k1) = k1"
      using 2(3) by (simp add: no_signal turn_ok_def)
    have g: "goes_on (vk_kern_dispatch_proc (t_unmap (env n)) (t_app (env n)) p k1)"
      using dispatch_proc_safe [OF k1(1,2)] 2(3) by (simp add: turn_ok_def)
    show ?thesis
    proof (cases "vk_kern_dispatch_proc (t_unmap (env n)) (t_app (env n)) p k1")
      case (K_Returns rc k3)
      have "vk_kern_receive_signal (t_after (env n)) k3 = k3" using 2(3) by (simp add: no_signal turn_ok_def)
      then show ?thesis using 2(1) [OF d refl k2 [symmetric]] 2(3) K_Returns g d k2
        by (auto simp: goes_on_def [of "K_Returns _ _"] Let_def)
    qed (use g d k2 in \<open>simp_all add: goes_on_def\<close>)
  qed
qed (simp add: goes_on_def)

lemma postpoll_safe:
  assumes "kern_ok k" "fresh_ok k" "\<And>i. turn_ok (env i)"
  shows "goes_on (vk_kern_postpoll env fuel k)"
proof -
  obtain k1 where "dispatch_fresh k = Some k1" "calm_kern k1" using dispatch_fresh_safe [OF assms(1,2)] by blast
  then show ?thesis using dispatch_run_safe [OF _ assms(3)] by (simp add: vk_kern_postpoll_def)
qed

definition env_ok :: "kern_env \<Rightarrow> bool" where
  "env_ok e \<longleftrightarrow> (\<forall>n i. turn_ok (e_turns e n i)) \<and> (\<forall>n. calls_ok (p_poll (e_poller e n)))"

lemma rounds_safe: "calm_kern k \<Longrightarrow> env_ok e \<Longrightarrow> goes_on (kern_rounds e n m k)"
proof (induction e n m k rule: kern_rounds.induct)
  case (2 e n m k)
  have pre: "vk_kern_prepoll (e_line e) (e_counter e) k = Some k"
    using 2(2) by (simp add: vk_kern_prepoll_def calm_kern_def kern_ok_def)
  have po: "vk_kern_poll (e_poller e n) k \<noteq> K_Killed \<and>
      (\<forall>rc k'. vk_kern_poll (e_poller e n) k = K_Returns rc k' \<longrightarrow> rc = - 1 \<or> kern_ok k' \<and> fresh_ok k')"
    using 2(3) by (intro poll_safe [OF 2(2)]) (simp add: env_ok_def)
  show ?case
  proof (cases "vk_kern_poll (e_poller e n) k")
    case (K_Returns rc k2)
    show ?thesis
    proof (cases "rc = - 1")
      case False
      then have g: "goes_on (vk_kern_postpoll (e_turns e n) (e_fuel e) k2)"
        using po K_Returns 2(3) by (intro postpoll_safe) (simp_all add: env_ok_def)
      show ?thesis
      proof (cases "vk_kern_postpoll (e_turns e n) (e_fuel e) k2")
        case (K_Returns rc3 k3)
        then show ?thesis using 2(1) [OF pre \<open>vk_kern_poll (e_poller e n) k = K_Returns rc k2\<close> False K_Returns] 2(3) g
            pre \<open>vk_kern_poll (e_poller e n) k = K_Returns rc k2\<close> False
          by (auto simp: goes_on_def [of "K_Returns _ _"])
      qed (use g pre K_Returns False in \<open>simp_all add: goes_on_def\<close>)
    qed (use pre K_Returns in \<open>simp add: goes_on_def\<close>)
  qed (use pre po in \<open>simp_all add: goes_on_def\<close>)
qed (simp add: goes_on_def)

lemma rounds_end:
  "kern_rounds e n m k = K_Returns rc k' \<Longrightarrow> rc = - 1 \<or> rc = 0 \<and> \<not> vk_kern_pending k'"
  by (induction e n m k rule: kern_rounds.induct)
    (auto split: option.splits kern_result.splits if_splits)

lemma loop_goes_on:
  assumes "calm_kern k" "env_ok e"
  shows "case vk_kern_loop e fuel k of
      K_Killed \<Rightarrow> False
    | K_Out_Of_Fuel \<Rightarrow> True
    | K_Returns rc k' \<Rightarrow> rc = - 1 \<or> rc = 0 \<and> calm_kern k' \<and> \<not> vk_kern_pending k'"
proof -
  have g: "goes_on (vk_kern_postpoll (e_turns e 0) (e_fuel e) k)"
    using assms by (intro postpoll_safe) (simp_all add: calm_kern_def fresh_ok_def env_ok_def)
  show ?thesis
  proof (cases "vk_kern_postpoll (e_turns e 0) (e_fuel e) k")
    case (K_Returns rc k1)
    show ?thesis
    proof (cases "rc = - 1")
      case False
      then have "goes_on (kern_rounds e 1 fuel k1)" using g K_Returns rounds_safe [OF _ assms(2)] by (simp add: goes_on_def)
      then show ?thesis using K_Returns False rounds_end [of e 1 fuel k1]
        by (auto simp: vk_kern_loop_def goes_on_def split: kern_result.splits)
    qed (use K_Returns in \<open>simp add: vk_kern_loop_def\<close>)
  qed (use g in \<open>simp_all add: vk_kern_loop_def goes_on_def\<close>)
qed

text \<open>C1: The kernel's main loop never crashes. From a kernel whose slots, processes and queues are tied
  together, with the poll driver, without isolation and without a pending shutdown, and with coroutines that
  keep what their process relies on, no number of rounds follows a null pointer or removes an
  element that is not on its queue, whatever \<open>poll\<close>, \<open>mprotect\<close>, \<open>munmap\<close> and the system calls of
  the sockets answer; and unless it fails, the loop ends with nothing left to run or to wait for, in such
  a state again.\<close>

theorem kernel_loop_safe:
  assumes "calm_kern k" "env_ok e"
  shows "case vk_kern_loop e fuel k of
      K_Killed \<Rightarrow> False
    | K_Out_Of_Fuel \<Rightarrow> True
    | K_Returns rc k' \<Rightarrow> rc = - 1 \<or> rc = 0 \<and> calm_kern k' \<and> \<not> vk_kern_pending k'"
  using assms by (rule loop_goes_on)

text \<open>A kernel of the form the theorem asks for: process \<open>7\<close> waits for descriptor \<open>3\<close>, and its coroutine ends
  when it is called.\<close>

definition looping_kern :: kern_world where
  "looping_kern = upd_kern (proc_pool_update (object_count_update (\<lambda>_. 64)))
     (woken_kern\<lparr>k_proc := \<lambda>p. (k_proc woken_kern p)\<lparr>proc_id := p\<rparr>\<rparr>)"

definition ending_env :: kern_env where
  "ending_env = \<lparr>e_turns = (\<lambda>_ _. \<lparr>t_before = 0, t_after = 0, t_unmap = Inr (), t_app = quiet_app\<rparr>), e_fuel = 5,
     e_poller = (\<lambda>_. \<lparr>p_create = Inr 9, p_ctl = (\<lambda>_ _. None), p_epoll = [], p_poll = [(0, Inr [POLLIN], 0)]\<rparr>),
     e_line = 1, e_counter = 2\<rparr>"

lemma ending_body_keeps: "body_keeps ending_body"
proof -
  have "local_ok w \<Longrightarrow> local_ok (upd_thread t (\<lambda>th. th\<lparr>th_status := VK_PROC_END, th_counter := 0\<rparr>) w)" for t w
    by (rule local_ok_sockets) (simp_all add: local_ok_def sound_def queues_inv_upd_thread)
  then show ?thesis by (auto simp: body_keeps_def ending_body_def upd_thread_def)
qed

lemma looping_kern_sel:
  "k_table looping_kern = k_table waiting_kern" "k_fd looping_kern = k_fd waiting_kern"
  "k_proc looping_kern p = (if p = 7 then idle_proc\<lparr>proc_id := 7, blocked_qed := True, allocated_fds := [3]\<rparr>
     else idle_proc\<lparr>proc_id := p\<rparr>)"
  "object_count (proc_pool (k_kern looping_kern)) = 64" "run_procs (k_kern looping_kern) = []"
  "blocked_procs (k_kern looping_kern) = [7]" "\<not> shutdown_requested (k_kern looping_kern)"
  "\<not> kern_iso (k_kern looping_kern)" "poll_driver (k_table waiting_kern) = VK_POLL_DRIVER_POLL"
  "k_local looping_kern p = (if p = 7 then blocked_world else idle_world)"
  by (simp_all add: looping_kern_def woken_kern_def waiting_kern_def k_fd_def fun_eq_iff)

lemma looping_kern_calm: "calm_kern looping_kern"
proof -
  note l = looping_kern_sel
  have ev: "fd_allocated (k_fd waiting_kern i) \<longleftrightarrow> i = 3" "owner waiting_kern i = (if i = 3 then 7 else 0)"
    "ev_events (asks waiting_kern i) \<noteq> 0 \<Longrightarrow> i = 3" for i
    by (cases "i = 3"; simp add: waiting_kern_fd idle_fd_def vk_io_future_init_def)+
  have "fds_owned looping_kern" by (auto simp: fds_owned_def alive_def l ev idle_proc_def)
  moreover have "named looping_kern 3" by (simp add: named_def vk_fd_table_get_def l waiting_kern_fd(1,5))
  then have "slots_ok looping_kern" using ev(3) ev(1) [of 3] by (auto simp: slots_ok_def l waiting_kern_fd(3))
  moreover have "fds_ok looping_kern" using waiting_kern_ok(1) fds_ok_table [OF l(1)] by simp
  moreover have "kern_queues_ok looping_kern"
    by (auto simp: kern_queues_iff flag_inv_def l idle_proc_def)
  moreover have "local_ok idle_world" using idle_world_sound by (simp add: local_ok_def) (simp add: idle_world_def)
  ultimately show ?thesis
    using blocked_world_ok(1) by (auto simp: calm_kern_def kern_ok_def tied_def l alive_def idle_proc_def waiting_kern_fd)
qed

theorem kernel_loop_safe_witness: "vk_kern_loop ending_env 5 looping_kern \<noteq> K_Killed"
proof -
  have "env_ok ending_env"
    using ending_body_keeps
    by (simp add: env_ok_def ending_env_def turn_ok_def calls_ok_def app_keeps_def quiet_app_def SIGTERM_def)
  from kernel_loop_safe [OF looping_kern_calm this, of 5] show ?thesis by auto
qed

end
