(* ===== verification/C_String.thy ===== *)
theory C_String
  imports VK_Prelude "HOL-Library.List_Lexorder"
begin

text \<open>
  The C string functions the protocol code calls: a string is the list of its characters,
  which a NUL ends early, as in C. \<open>strcasecmp\<close> and \<open>strcmp\<close> are the loops of the C
  library in the "C" locale, and \<open>cs_key\<close> is what \<open>strcasecmp\<close> compares: the
  lower-case character codes up to the NUL.
\<close>

definition tolower_code :: "char \<Rightarrow> nat" where
  "tolower_code c = (let n = of_char c in if 65 \<le> n \<and> n \<le> 90 then n + 32 else n)"

fun first_code :: "(char \<Rightarrow> nat) \<Rightarrow> string \<Rightarrow> nat" where
  "first_code f [] = 0"
| "first_code f (c # cs) = f c"

function compare_by :: "(char \<Rightarrow> nat) \<Rightarrow> string \<Rightarrow> string \<Rightarrow> int" where
  "compare_by f s t =
     (let a = first_code f s; b = first_code f t
      in if a \<noteq> b \<or> a = 0 then int a - int b else compare_by f (tl s) (tl t))"
  by pat_completeness auto
termination
proof (relation "measure (\<lambda>(f, s, t). length s)")
  fix f :: "char \<Rightarrow> nat" and s t :: string and x y
  assume "x = first_code f s" "y = first_code f t" "\<not> (x \<noteq> y \<or> x = 0)"
  then show "((f, tl s, tl t), f, s, t) \<in> measure (\<lambda>(f, s, t). length s)"
    by (cases s) auto
qed simp

declare compare_by.simps [simp del]

definition strcmp :: "string \<Rightarrow> string \<Rightarrow> int" where
  "strcmp = compare_by of_char"

definition strcasecmp :: "string \<Rightarrow> string \<Rightarrow> int" where
  "strcasecmp = compare_by tolower_code"

subsection \<open>Numbers\<close>

fun skip_space :: "string \<Rightarrow> string" where
  "skip_space (c # cs) = (if c = CHR '' '' \<or> (9 :: nat) \<le> of_char c \<and> (of_char c :: nat) \<le> 13 then skip_space cs else c # cs)"
| "skip_space [] = []"

fun digits_value :: "nat \<Rightarrow> string \<Rightarrow> nat" where
  "digits_value n (c # cs) =
     (if (48 :: nat) \<le> of_char c \<and> (of_char c :: nat) \<le> 57 then digits_value (10 * n + (of_char c - 48)) cs else n)"
| "digits_value n [] = n"

text \<open>\<open>atoi\<close> is undefined when the number is not an \<open>int\<close>.\<close>

definition atoi :: "string \<Rightarrow> int option" where
  "atoi s =
     (let n = (case skip_space s of
                 [] \<Rightarrow> 0
               | c # cs \<Rightarrow>
                   if c = CHR ''-'' then - int (digits_value 0 cs)
                   else if c = CHR ''+'' then int (digits_value 0 cs)
                   else int (digits_value 0 (c # cs)))
      in if - (2 ^ 31) \<le> n \<and> n < 2 ^ 31 then Some n else None)"

text \<open>The conversion \<open>%d\<close> of a number that is not negative.\<close>

fun decimal :: "nat \<Rightarrow> string" where
  "decimal n = (if n < 10 then [char_of (48 + n)] else decimal (n div 10) @ [char_of (48 + n mod 10)])"

declare decimal.simps [simp del]

lemma digit_code [simp]: "n < 10 \<Longrightarrow> of_char (char_of (48 + n) :: char) = (48 + n :: nat)"
  by (simp add: of_char_of)

lemma decimal_digits: "c \<in> set (decimal n) \<Longrightarrow> 48 \<le> (of_char c :: nat) \<and> (of_char c :: nat) \<le> 57"
proof (induction n rule: decimal.induct)
  case (1 n)
  show ?case
  proof (cases "n < 10")
    case True
    then show ?thesis using "1.prems" by (auto simp: decimal.simps [of n])
  next
    case False
    then have "c \<in> set (decimal (n div 10)) \<or> c = char_of (48 + n mod 10)"
      using "1.prems" by (auto simp: decimal.simps [of n])
    then show ?thesis using "1.IH" [OF False] by auto
  qed
qed

lemma decimal_not_Nil [simp]: "decimal n \<noteq> []"
  by (simp add: decimal.simps [of n])

lemma digits_value_app:
  "(\<And>c. c \<in> set cs \<Longrightarrow> 48 \<le> (of_char c :: nat) \<and> (of_char c :: nat) \<le> 57) \<Longrightarrow>
   digits_value n (cs @ ds) = digits_value (digits_value n cs) ds"
  by (induction cs arbitrary: n) auto

lemma digits_value_decimal: "digits_value 0 (decimal n) = n"
proof (induction n rule: decimal.induct)
  case (1 n)
  show ?case
  proof (cases "n < 10")
    case True
    then show ?thesis by (simp add: decimal.simps [of n])
  next
    case False
    then show ?thesis using 1 digits_value_app [of "decimal (n div 10)"] decimal_digits
      by (simp add: decimal.simps [of n])
  qed
qed

text \<open>What \<open>%d\<close> prints, \<open>atoi\<close> reads back, up to the first character that is not a digit.\<close>

lemma atoi_decimal:
  assumes "n < 2 ^ 31" "\<not> (48 \<le> (of_char c :: nat) \<and> (of_char c :: nat) \<le> 57)"
  shows "atoi (decimal n @ c # cs) = Some (int n)"
proof -
  obtain d ds where d: "decimal n = d # ds" by (cases "decimal n") simp_all
  have b: "48 \<le> (of_char d :: nat)" "(of_char d :: nat) \<le> 57" using decimal_digits [of d n] d by simp_all
  then have "d \<noteq> CHR '' ''" "d \<noteq> CHR ''-''" "d \<noteq> CHR ''+''" by auto
  moreover have "digits_value 0 (decimal n @ c # cs) = n"
    using digits_value_app [of "decimal n" 0 "c # cs"] decimal_digits assms(2)
    by (auto simp: digits_value_decimal)
  ultimately show ?thesis using b d assms(1) by (simp add: atoi_def)
qed

subsection \<open>What the comparison decides\<close>

fun code_key :: "(char \<Rightarrow> nat) \<Rightarrow> string \<Rightarrow> nat list" where
  "code_key f [] = []"
| "code_key f (c # cs) = (if f c = 0 then [] else f c # code_key f cs)"

definition cs_key :: "string \<Rightarrow> nat list" where
  "cs_key = code_key tolower_code"

lemma code_key_unfold:
  "code_key f s = (if first_code f s = 0 then [] else first_code f s # code_key f (tl s))"
  by (cases s) auto

lemma nat_list_Cons_less: "(x :: nat) # xs < y # ys \<longleftrightarrow> x < y \<or> x = y \<and> xs < ys"
  by (simp add: Cons_less_Cons)

lemma compare_by_sign:
  "(compare_by f s t = 0 \<longleftrightarrow> code_key f s = code_key f t) \<and>
   (compare_by f s t < 0 \<longleftrightarrow> code_key f s < code_key f t)"
proof (induction f s t rule: compare_by.induct)
  case (1 f s t)
  let ?a = "first_code f s" and ?b = "first_code f t"
  show ?case
  proof (cases "?a \<noteq> ?b \<or> ?a = 0")
    case True
    then have "compare_by f s t = int ?a - int ?b" by (simp add: compare_by.simps [of f s t])
    moreover have "code_key f s = (if ?a = 0 then [] else ?a # code_key f (tl s))"
      "code_key f t = (if ?b = 0 then [] else ?b # code_key f (tl t))"
      by (rule code_key_unfold)+
    ultimately show ?thesis using True by (auto simp: nat_list_Cons_less)
  next
    case False
    then have "compare_by f s t = compare_by f (tl s) (tl t)" by (simp add: compare_by.simps [of f s t])
    moreover have "code_key f s = ?a # code_key f (tl s)" "code_key f t = ?a # code_key f (tl t)"
      using False code_key_unfold [of f s] code_key_unfold [of f t] by auto
    ultimately show ?thesis using "1.IH" [OF refl refl False] by (simp add: nat_list_Cons_less)
  qed
qed

lemma strcasecmp_zero: "strcasecmp s t = 0 \<longleftrightarrow> cs_key s = cs_key t"
  using compare_by_sign [of tolower_code s t] by (simp add: strcasecmp_def cs_key_def)

lemma strcasecmp_neg: "strcasecmp s t < 0 \<longleftrightarrow> cs_key s < cs_key t"
  using compare_by_sign [of tolower_code s t] by (simp add: strcasecmp_def cs_key_def)

end
