(* ===== verification/Http_Enum.thy ===== *)
theory Http_Enum
  imports C_String
begin

text \<open>
  The enumerations of the HTTP code and the lookups generated for them
  (src/vk_fetch_s.h, src/vk_enum.h, src/vk_fetch.c): a table of enumerators and names, the
  binary search from a name to its enumerator, the index from an enumerator to its name,
  and the check of the table's order. An enumerator is a constructor; \<open>code\<close> is its
  integer, the position in the list of enumerators.
\<close>

subsection \<open>Enumerations and tables\<close>

datatype HTTP_METHOD =
    CONNECT | DELETE | GET | HEAD | OPTIONS | PATCH | POST | PRI | PUT | TRACE | TRACK | NO_METHOD

definition HTTP_METHOD_enumerators :: "HTTP_METHOD list" where
  "HTTP_METHOD_enumerators =
    [CONNECT, DELETE, GET, HEAD, OPTIONS, PATCH, POST, PRI, PUT, TRACE, TRACK, NO_METHOD]"

datatype HTTP_VERSION =
    HTTP09 | HTTP10 | HTTP11 | HTTP20 | NO_VERSION

definition HTTP_VERSION_enumerators :: "HTTP_VERSION list" where
  "HTTP_VERSION_enumerators =
    [HTTP09, HTTP10, HTTP11, HTTP20, NO_VERSION]"

datatype HTTP_HEADER =
    ACCEPT_CHARSET | ACCEPT_ENCODING | ACCESS_CONTROL_REQUEST_HEADERS |
    ACCESS_CONTROL_REQUEST_METHOD | ORIGIN | AUTHORIZATION | CONNECTION | CONTENT_ENCODING |
    CONTENT_LANGUAGE | CONTENT_LENGTH | CONTENT_LOCATION | CONTENT_TYPE | COOKIE | COOKIE2 |
    DATE | DNT | EXPECT | HOST | KEEP_ALIVE | REFERER | RANGE | SETCOOKIE | SETCOOKIE2 | TE |
    TRAILER | TRANSFER_ENCODING | UPGRADE | VIA | PROXY | SEC | X_HTTP_METHOD |
    X_HTTP_METHOD_OVERRIDE | X_METHOD_OVERRIDE | HTTP_HEADER_COUNT

definition HTTP_HEADER_enumerators :: "HTTP_HEADER list" where
  "HTTP_HEADER_enumerators =
    [ACCEPT_CHARSET, ACCEPT_ENCODING, ACCESS_CONTROL_REQUEST_HEADERS,
     ACCESS_CONTROL_REQUEST_METHOD, ORIGIN, AUTHORIZATION, CONNECTION, CONTENT_ENCODING,
     CONTENT_LANGUAGE, CONTENT_LENGTH, CONTENT_LOCATION, CONTENT_TYPE, COOKIE, COOKIE2, DATE,
     DNT, EXPECT, HOST, KEEP_ALIVE, REFERER, RANGE, SETCOOKIE, SETCOOKIE2, TE, TRAILER,
     TRANSFER_ENCODING, UPGRADE, VIA, PROXY, SEC, X_HTTP_METHOD, X_HTTP_METHOD_OVERRIDE,
     X_METHOD_OVERRIDE, HTTP_HEADER_COUNT]"

datatype HTTP_TRAILER =
    POST_CONTENT_LENGTH | HTTP_TRAILER_COUNT

definition HTTP_TRAILER_enumerators :: "HTTP_TRAILER list" where
  "HTTP_TRAILER_enumerators =
    [POST_CONTENT_LENGTH, HTTP_TRAILER_COUNT]"

text \<open>The flags of the second half of a row.\<close>

definition HTTP_METHOD_LIST_CORS_SAFE :: int where "HTTP_METHOD_LIST_CORS_SAFE = 1"
definition HTTP_METHOD_LIST_FORBIDDEN :: int where "HTTP_METHOD_LIST_FORBIDDEN = 2"

definition HTTP_HEADER_NONWC :: int where "HTTP_HEADER_NONWC = 1"
definition HTTP_HEADER_NOCORS :: int where "HTTP_HEADER_NOCORS = 2"
definition HTTP_HEADER_CORS_SAFE :: int where "HTTP_HEADER_CORS_SAFE = 4"
definition HTTP_HEADER_NOCORS_SAFE :: int where "HTTP_HEADER_NOCORS_SAFE = 8"
definition HTTP_HEADER_FORBIDDEN :: int where "HTTP_HEADER_FORBIDDEN = 16"
definition HTTP_HEADER_CORS_FORBIDDEN :: int where "HTTP_HEADER_CORS_FORBIDDEN = 32"
definition HTTP_HEADER_COOKIE_FORBIDDEN :: int where "HTTP_HEADER_COOKIE_FORBIDDEN = 64"
definition HTTP_HEADER_COOKIE_RESPONSE_FORBIDDEN :: int where "HTTP_HEADER_COOKIE_RESPONSE_FORBIDDEN = 128"
definition HTTP_HEADER_REQUEST_BODY :: int where "HTTP_HEADER_REQUEST_BODY = 256"
definition HTTP_HEADER_METHOD_FORBIDDEN :: int where "HTTP_HEADER_METHOD_FORBIDDEN = 512"

definition methods :: "(HTTP_METHOD \<times> string \<times> int) list" where
  "methods =
    [(CONNECT, ''CONNECT'', HTTP_METHOD_LIST_FORBIDDEN), (DELETE, ''DELETE'', 0),
     (GET, ''GET'', HTTP_METHOD_LIST_CORS_SAFE), (HEAD, ''HEAD'', HTTP_METHOD_LIST_CORS_SAFE),
     (OPTIONS, ''OPTIONS'', 0), (PATCH, ''PATCH'', 0),
     (POST, ''POST'', HTTP_METHOD_LIST_CORS_SAFE), (PRI, ''PRI'', 0), (PUT, ''PUT'', 0),
     (TRACE, ''TRACE'', HTTP_METHOD_LIST_FORBIDDEN),
     (TRACK, ''TRACK'', HTTP_METHOD_LIST_FORBIDDEN)]"

definition versions :: "(HTTP_VERSION \<times> string) list" where
  "versions =
    [(HTTP09, ''HTTP/0.9''), (HTTP10, ''HTTP/1.0''), (HTTP11, ''HTTP/1.1''),
     (HTTP20, ''HTTP/2.0'')]"

definition http_headers :: "(HTTP_HEADER \<times> string \<times> int) list" where
  "http_headers =
    [(ACCEPT_CHARSET, ''Accept-Charset'', HTTP_HEADER_FORBIDDEN),
     (ACCEPT_ENCODING, ''Accept-Encoding'', HTTP_HEADER_FORBIDDEN),
     (ACCESS_CONTROL_REQUEST_HEADERS, ''Access-Control-Request-Headers'', HTTP_HEADER_CORS_FORBIDDEN),
     (ACCESS_CONTROL_REQUEST_METHOD, ''Access-Control-Request-Method'', HTTP_HEADER_CORS_FORBIDDEN),
     (AUTHORIZATION, ''Authorization'', HTTP_HEADER_NONWC),
     (CONNECTION, ''Connection'', HTTP_HEADER_FORBIDDEN),
     (CONTENT_ENCODING, ''Content-Encoding'', HTTP_HEADER_REQUEST_BODY),
     (CONTENT_LANGUAGE, ''Content-Language'', HTTP_HEADER_REQUEST_BODY),
     (CONTENT_LENGTH, ''Content-Length'', HTTP_HEADER_FORBIDDEN),
     (CONTENT_LOCATION, ''Content-Location'', HTTP_HEADER_REQUEST_BODY),
     (CONTENT_TYPE, ''Content-Type'', HTTP_HEADER_REQUEST_BODY),
     (COOKIE, ''Cookie'', HTTP_HEADER_COOKIE_FORBIDDEN),
     (COOKIE2, ''Cookie2'', HTTP_HEADER_COOKIE_FORBIDDEN),
     (DATE, ''Date'', HTTP_HEADER_FORBIDDEN), (DNT, ''DNT'', HTTP_HEADER_FORBIDDEN),
     (EXPECT, ''Expect'', HTTP_HEADER_FORBIDDEN), (HOST, ''Host'', HTTP_HEADER_FORBIDDEN),
     (KEEP_ALIVE, ''Keep-Alive'', HTTP_HEADER_FORBIDDEN),
     (PROXY, ''proxy-%'', HTTP_HEADER_FORBIDDEN), (RANGE, ''Range'', HTTP_HEADER_NOCORS),
     (REFERER, ''Referer'', HTTP_HEADER_FORBIDDEN), (SEC, ''sec-%'', HTTP_HEADER_FORBIDDEN),
     (SETCOOKIE, ''Set-Cookie'', HTTP_HEADER_COOKIE_FORBIDDEN OR HTTP_HEADER_COOKIE_RESPONSE_FORBIDDEN),
     (SETCOOKIE2, ''Set-Cookie2'', HTTP_HEADER_COOKIE_RESPONSE_FORBIDDEN),
     (TE, ''TE'', HTTP_HEADER_FORBIDDEN), (TRAILER, ''Trailer'', 0),
     (TRANSFER_ENCODING, ''Transfer-Encoding'', HTTP_HEADER_FORBIDDEN),
     (UPGRADE, ''Upgrade'', HTTP_HEADER_FORBIDDEN), (VIA, ''Via'', HTTP_HEADER_FORBIDDEN),
     (X_HTTP_METHOD, ''X-HTTP-Method'', HTTP_HEADER_METHOD_FORBIDDEN),
     (X_HTTP_METHOD_OVERRIDE, ''X-HTTP-Method-Override'', HTTP_HEADER_METHOD_FORBIDDEN),
     (X_METHOD_OVERRIDE, ''X-Method-Override'', HTTP_HEADER_METHOD_FORBIDDEN)]"

definition http_trailers :: "(HTTP_TRAILER \<times> string \<times> int) list" where
  "http_trailers =
    [(POST_CONTENT_LENGTH, ''Content-Length'', HTTP_HEADER_FORBIDDEN)]"

subsection \<open>The generated functions\<close>

text \<open>The generated code sees a table as integers and names.\<close>

definition enum_code :: "'e list \<Rightarrow> 'e \<Rightarrow> int" where
  "enum_code es e = int (length (takeWhile (\<lambda>x. x \<noteq> e) es))"

definition method_map :: "(int \<times> string) list" where
  "method_map = map (\<lambda>(e, r, l). (enum_code HTTP_METHOD_enumerators e, r)) methods"

definition version_map :: "(int \<times> string) list" where
  "version_map = map (\<lambda>(e, r). (enum_code HTTP_VERSION_enumerators e, r)) versions"

definition header_map :: "(int \<times> string) list" where
  "header_map = map (\<lambda>(e, r, l). (enum_code HTTP_HEADER_enumerators e, r)) http_headers"

definition trailer_map :: "(int \<times> string) list" where
  "trailer_map = map (\<lambda>(e, r, l). (enum_code HTTP_TRAILER_enumerators e, r)) http_trailers"

definition enum_to_string :: "(int \<times> string) list \<Rightarrow> int \<Rightarrow> string" where
  "enum_to_string m e = (if e \<ge> 0 \<and> e < int (length m) then snd (m ! nat e) else ''UNKNOWN'')"

function enum_search :: "(int \<times> string) list \<Rightarrow> string \<Rightarrow> int \<Rightarrow> int \<Rightarrow> int" where
  "enum_search m repr low high =
     (if low \<le> high
      then (let mid = low + (high - low) div 2;
                res = strcasecmp repr (snd (m ! nat mid))
            in if res = 0 then fst (m ! nat mid)
               else if res < 0 then enum_search m repr low (mid - 1)
               else enum_search m repr (mid + 1) high)
      else int (length m))"
  by pat_completeness auto
termination by (relation "measure (\<lambda>(m, repr, low, high). nat (high - low + 1))") auto

declare enum_search.simps [simp del]

definition string_to_enum :: "(int \<times> string) list \<Rightarrow> string \<Rightarrow> int" where
  "string_to_enum m repr = enum_search m repr 0 (int (length m) - 1)"

fun validate_enum_map :: "(int \<times> string) list \<Rightarrow> errno + unit" where
  "validate_enum_map (a # b # rest) =
     (if strcmp (snd a) (snd b) > 0 \<or> fst a \<ge> fst b then Inl EINVAL
      else validate_enum_map (b # rest))"
| "validate_enum_map rest = Inr ()"

definition string_to_HTTP_METHOD :: "string \<Rightarrow> HTTP_METHOD" where
  "string_to_HTTP_METHOD s = HTTP_METHOD_enumerators ! nat (string_to_enum method_map s)"

definition string_to_HTTP_VERSION :: "string \<Rightarrow> HTTP_VERSION" where
  "string_to_HTTP_VERSION s = HTTP_VERSION_enumerators ! nat (string_to_enum version_map s)"

definition string_to_HTTP_HEADER :: "string \<Rightarrow> HTTP_HEADER" where
  "string_to_HTTP_HEADER s = HTTP_HEADER_enumerators ! nat (string_to_enum header_map s)"

definition string_to_HTTP_TRAILER :: "string \<Rightarrow> HTTP_TRAILER" where
  "string_to_HTTP_TRAILER s = HTTP_TRAILER_enumerators ! nat (string_to_enum trailer_map s)"

definition HTTP_METHOD_to_string :: "HTTP_METHOD \<Rightarrow> string" where
  "HTTP_METHOD_to_string e = enum_to_string method_map (enum_code HTTP_METHOD_enumerators e)"

definition HTTP_VERSION_to_string :: "HTTP_VERSION \<Rightarrow> string" where
  "HTTP_VERSION_to_string e = enum_to_string version_map (enum_code HTTP_VERSION_enumerators e)"

definition HTTP_HEADER_to_string :: "HTTP_HEADER \<Rightarrow> string" where
  "HTTP_HEADER_to_string e = enum_to_string header_map (enum_code HTTP_HEADER_enumerators e)"

subsection \<open>The binary search finds what a linear search finds\<close>

definition enum_find :: "(int \<times> string) list \<Rightarrow> string \<Rightarrow> int" where
  "enum_find m repr =
     (case find (\<lambda>e. cs_key repr = cs_key (snd e)) m of
        Some e \<Rightarrow> fst e | None \<Rightarrow> int (length m))"

locale name_table =
  fixes m :: "(int \<times> string) list"
  assumes ordered: "sorted_wrt (\<lambda>a b. cs_key (snd a) < cs_key (snd b)) m"
begin

lemma key_mono: "i < j \<Longrightarrow> j < length m \<Longrightarrow> cs_key (snd (m ! i)) < cs_key (snd (m ! j))"
  using ordered by (simp add: sorted_wrt_iff_nth_less)

lemma key_inj:
  "i < length m \<Longrightarrow> j < length m \<Longrightarrow> cs_key (snd (m ! i)) = cs_key (snd (m ! j)) \<Longrightarrow> i = j"
  using key_mono [of i j] key_mono [of j i] by (metis less_irrefl linorder_neqE_nat)

lemma search_correct:
  assumes "0 \<le> low" "high < int (length m)"
    "\<forall>i < length m. int i < low \<longrightarrow> cs_key (snd (m ! i)) < cs_key s"
    "\<forall>i < length m. high < int i \<longrightarrow> cs_key s < cs_key (snd (m ! i))"
  shows "(\<exists>i < length m. cs_key s = cs_key (snd (m ! i)) \<and> enum_search m s low high = fst (m ! i)) \<or>
    (\<forall>i < length m. cs_key s \<noteq> cs_key (snd (m ! i))) \<and> enum_search m s low high = int (length m)"
  using assms
proof (induction "nat (high - low + 1)" arbitrary: low high rule: less_induct)
  case less
  show ?case
  proof (cases "low \<le> high")
    case False
    then have "enum_search m s low high = int (length m)" by (simp add: enum_search.simps)
    moreover have "cs_key s \<noteq> cs_key (snd (m ! i))" if "i < length m" for i
      using less.prems(3,4) that False by (cases "int i < low") (metis less_irrefl, metis less_irrefl not_le order_less_le_trans)
    ultimately show ?thesis by blast
  next
    case True
    define mid where "mid = low + (high - low) div 2"
    have mid: "low \<le> mid" "mid \<le> high" "nat mid < length m" "0 \<le> mid"
      using True less.prems(1,2) by (auto simp: mid_def)
    have eq: "enum_search m s low high =
      (if strcasecmp s (snd (m ! nat mid)) = 0 then fst (m ! nat mid)
       else if strcasecmp s (snd (m ! nat mid)) < 0 then enum_search m s low (mid - 1)
       else enum_search m s (mid + 1) high)"
      using True by (simp add: enum_search.simps [of m s low high] mid_def Let_def)
    consider (same) "cs_key s = cs_key (snd (m ! nat mid))"
      | (below) "cs_key s < cs_key (snd (m ! nat mid))"
      | (above) "cs_key (snd (m ! nat mid)) < cs_key s"
      using less_linear by blast
    then show ?thesis
    proof cases
      case same
      then show ?thesis using mid eq strcasecmp_zero by auto
    next
      case below
      have "\<forall>i < length m. mid - 1 < int i \<longrightarrow> cs_key s < cs_key (snd (m ! i))"
      proof (intro allI impI)
        fix i assume i: "i < length m" "mid - 1 < int i"
        show "cs_key s < cs_key (snd (m ! i))"
        proof (cases "i = nat mid")
          case True
          then show ?thesis using below by simp
        next
          case False
          then have "nat mid < i" using i mid by linarith
          from key_mono [OF this i(1)] below show ?thesis by (rule less_trans [rotated])
        qed
      qed
      then have "(\<exists>i < length m. cs_key s = cs_key (snd (m ! i)) \<and> enum_search m s low (mid - 1) = fst (m ! i)) \<or>
        (\<forall>i < length m. cs_key s \<noteq> cs_key (snd (m ! i))) \<and> enum_search m s low (mid - 1) = int (length m)"
        using less.prems mid by (intro less.hyps) auto
      moreover have "enum_search m s low high = enum_search m s low (mid - 1)"
        using eq below less_imp_neq [OF below] by (simp only: strcasecmp_zero strcasecmp_neg if_False if_True)
      ultimately show ?thesis by (simp only:)
    next
      case above
      have "\<forall>i < length m. int i < mid + 1 \<longrightarrow> cs_key (snd (m ! i)) < cs_key s"
      proof (intro allI impI)
        fix i assume i: "i < length m" "int i < mid + 1"
        show "cs_key (snd (m ! i)) < cs_key s"
        proof (cases "i = nat mid")
          case True
          then show ?thesis using above by simp
        next
          case False
          then have "i < nat mid" using i mid by linarith
          from key_mono [OF this mid(3)] above show ?thesis by (rule less_trans)
        qed
      qed
      then have "(\<exists>i < length m. cs_key s = cs_key (snd (m ! i)) \<and> enum_search m s (mid + 1) high = fst (m ! i)) \<or>
        (\<forall>i < length m. cs_key s \<noteq> cs_key (snd (m ! i))) \<and> enum_search m s (mid + 1) high = int (length m)"
        using less.prems mid by (intro less.hyps) auto
      moreover have "enum_search m s low high = enum_search m s (mid + 1) high"
        using eq less_imp_neq [OF above, symmetric] less_not_sym [OF above]
        by (simp only: strcasecmp_zero strcasecmp_neg if_False)
      ultimately show ?thesis by (simp only:)
    qed
  qed
qed

lemma search_is_find: "string_to_enum m s = enum_find m s"
proof -
  have "(\<exists>i < length m. cs_key s = cs_key (snd (m ! i)) \<and> string_to_enum m s = fst (m ! i)) \<or>
    (\<forall>i < length m. cs_key s \<noteq> cs_key (snd (m ! i))) \<and> string_to_enum m s = int (length m)"
    unfolding string_to_enum_def by (rule search_correct) auto
  then show ?thesis
  proof (elim disjE exE conjE)
    fix i assume i: "i < length m" "cs_key s = cs_key (snd (m ! i))" "string_to_enum m s = fst (m ! i)"
    then obtain e where e: "find (\<lambda>e. cs_key s = cs_key (snd e)) m = Some e"
      by (metis (mono_tags, lifting) find_None_iff nth_mem not_None_eq)
    then obtain j where "j < length m" "cs_key s = cs_key (snd (m ! j))" "e = m ! j"
      by (auto simp: find_Some_iff)
    then show ?thesis using key_inj [of i j] i e by (simp add: enum_find_def)
  next
    assume a: "\<forall>i < length m. cs_key s \<noteq> cs_key (snd (m ! i))" "string_to_enum m s = int (length m)"
    then have "find (\<lambda>e. cs_key s = cs_key (snd e)) m = None"
      by (auto simp: find_None_iff in_set_conv_nth)
    then show ?thesis using a by (simp add: enum_find_def)
  qed
qed

end

lemma ordered_by_keys:
  "sorted_wrt (\<lambda>a b. cs_key (snd a) < cs_key (snd b)) (m :: (int \<times> string) list) \<longleftrightarrow>
   sorted_wrt (<) (map (\<lambda>e. cs_key (snd e)) m)"
  by (simp add: sorted_wrt_map)

interpretation method_names: name_table method_map
  by unfold_locales (unfold ordered_by_keys, code_simp)

interpretation version_names: name_table version_map
  by unfold_locales (unfold ordered_by_keys, code_simp)

interpretation trailer_names: name_table trailer_map
  by unfold_locales (unfold ordered_by_keys, code_simp)

interpretation header_names: name_table header_map
  by unfold_locales (unfold ordered_by_keys, code_simp)

subsection \<open>The four lookups\<close>

text \<open>The code of an enumerator leads back to it.\<close>

lemma enum_of_code: "e \<in> set es \<Longrightarrow> es ! nat (enum_code es e) = e"
  by (induction es) (auto simp: enum_code_def)

lemma find_on_map: "find P (map f xs) = map_option f (find (\<lambda>x. P (f x)) xs)"
  by (induction xs) auto

lemma find_in: "find P xs = Some x \<Longrightarrow> x \<in> set xs"
  by (auto simp: find_Some_iff)

lemma enum_find_code:
  assumes "\<forall>r \<in> set t. entry r \<in> set es"
  shows "es ! nat (enum_find (map (\<lambda>r. (enum_code es (entry r), name r)) t) s) =
    (case find (\<lambda>r. cs_key s = cs_key (name r)) t of Some r \<Rightarrow> entry r | None \<Rightarrow> es ! length t)"
  using assms by (auto simp: enum_find_def find_on_map enum_of_code split: option.split
    dest!: find_in)

text \<open>C37: The generated binary searches are case-insensitive searches of their tables:
  a name of a row, in any case, gives the row's enumerator; any other name gives the
  enumerator after the last row, which is the "none" value of the methods and of the
  versions and the count of the trailers, but \<open>X_METHOD_OVERRIDE\<close> for the headers, whose
  table has a row less than the enumeration has headers.\<close>

theorem names_looked_up:
  "string_to_HTTP_METHOD s =
     (case find (\<lambda>(e, r, l). cs_key s = cs_key r) methods of Some (e, r, l) \<Rightarrow> e | None \<Rightarrow> NO_METHOD) \<and>
   string_to_HTTP_VERSION s =
     (case find (\<lambda>(e, r). cs_key s = cs_key r) versions of Some (e, r) \<Rightarrow> e | None \<Rightarrow> NO_VERSION) \<and>
   string_to_HTTP_HEADER s =
     (case find (\<lambda>(e, r, l). cs_key s = cs_key r) http_headers of
        Some (e, r, l) \<Rightarrow> e | None \<Rightarrow> X_METHOD_OVERRIDE) \<and>
   string_to_HTTP_TRAILER s =
     (case find (\<lambda>(e, r, l). cs_key s = cs_key r) http_trailers of
        Some (e, r, l) \<Rightarrow> e | None \<Rightarrow> HTTP_TRAILER_COUNT)"
proof -
  have m: "method_map = map (\<lambda>r. (enum_code HTTP_METHOD_enumerators (fst r), fst (snd r))) methods"
    "version_map = map (\<lambda>r. (enum_code HTTP_VERSION_enumerators (fst r), snd r)) versions"
    "header_map = map (\<lambda>r. (enum_code HTTP_HEADER_enumerators (fst r), fst (snd r))) http_headers"
    "trailer_map = map (\<lambda>r. (enum_code HTTP_TRAILER_enumerators (fst r), fst (snd r))) http_trailers"
    by (simp_all add: method_map_def version_map_def header_map_def trailer_map_def split_beta)
  have e: "e \<in> set HTTP_METHOD_enumerators" for e
    by (cases e) (simp_all add: HTTP_METHOD_enumerators_def)
  have v: "v \<in> set HTTP_VERSION_enumerators" for v
    by (cases v) (simp_all add: HTTP_VERSION_enumerators_def)
  have h: "h \<in> set HTTP_HEADER_enumerators" for h
    by (cases h) (simp_all add: HTTP_HEADER_enumerators_def)
  have t: "t \<in> set HTTP_TRAILER_enumerators" for t
    by (cases t) (simp_all add: HTTP_TRAILER_enumerators_def)
  have n: "HTTP_METHOD_enumerators ! length methods = NO_METHOD"
    "HTTP_VERSION_enumerators ! length versions = NO_VERSION"
    "HTTP_HEADER_enumerators ! length http_headers = X_METHOD_OVERRIDE"
    "HTTP_TRAILER_enumerators ! length http_trailers = HTTP_TRAILER_COUNT"
    by code_simp+
  show ?thesis
    unfolding string_to_HTTP_METHOD_def string_to_HTTP_VERSION_def string_to_HTTP_HEADER_def
      string_to_HTTP_TRAILER_def method_names.search_is_find version_names.search_is_find
      header_names.search_is_find trailer_names.search_is_find
    unfolding m enum_find_code [OF ballI, OF e] enum_find_code [OF ballI, OF v]
      enum_find_code [OF ballI, OF h] enum_find_code [OF ballI, OF t] n
    by (simp only: case_prod_unfold)
qed

text \<open>Writing an enumerator and reading the name back is the identity for methods and
  versions. For headers it is the identity only on the four headers before \<open>ORIGIN\<close>, which
  has no row, and on \<open>X_METHOD_OVERRIDE\<close>; every other header is written under the name of
  another one, and the generated check refuses that table and accepts the other three.\<close>

theorem header_names_shifted:
  "(\<forall>e. string_to_HTTP_METHOD (HTTP_METHOD_to_string e) = e) \<and>
   (\<forall>e. string_to_HTTP_VERSION (HTTP_VERSION_to_string e) = e) \<and>
   (\<forall>e. string_to_HTTP_HEADER (HTTP_HEADER_to_string e) = e \<longleftrightarrow>
      e \<in> {ACCEPT_CHARSET, ACCEPT_ENCODING, ACCESS_CONTROL_REQUEST_HEADERS,
           ACCESS_CONTROL_REQUEST_METHOD, X_METHOD_OVERRIDE}) \<and>
   HTTP_HEADER_to_string AUTHORIZATION = ''Connection'' \<and>
   map validate_enum_map [method_map, version_map, header_map, trailer_map] =
     [Inr (), Inr (), Inl EINVAL, Inr ()]"
proof (intro conjI allI)
  show "string_to_HTTP_METHOD (HTTP_METHOD_to_string e) = e" for e by (cases e; hypsubst; code_simp)
  show "string_to_HTTP_VERSION (HTTP_VERSION_to_string e) = e" for e by (cases e; hypsubst; code_simp)
  show "string_to_HTTP_HEADER (HTTP_HEADER_to_string e) = e \<longleftrightarrow>
      e \<in> {ACCEPT_CHARSET, ACCEPT_ENCODING, ACCESS_CONTROL_REQUEST_HEADERS,
           ACCESS_CONTROL_REQUEST_METHOD, X_METHOD_OVERRIDE}" for e
    by (cases e; hypsubst; code_simp)
qed code_simp+

end
