(* ===== verification/Huge.thy ===== *)
theory Huge
  imports Wrapguard C_String
begin

text \<open>
  The tracker that decides whether a mapping is worth asking huge pages for
  (src/vk_huge.c), in its Linux configuration: the mode, the cached number of free huge
  pages, and two cool-down periods on the monotonic clock. The clock and the lines of
  /proc/meminfo are arguments; \<open>None\<close> for the lines is a failed \<open>fopen\<close>. Times and sizes
  are 64-bit words, and every subtraction and rounding wraps as in the C.
\<close>

subsection \<open>State\<close>

datatype vk_huge_mode = VK_HUGE_NEVER | VK_HUGE_AUTO | VK_HUGE_ALWAYS

record vk_huge =
  hg_mode :: vk_huge_mode
  huge_page_bytes :: size_t
  free_pages_cached :: size_t
  last_refresh_ns :: "64 word"
  last_fail_ns :: "64 word"
  refresh_cooldown_ns :: "64 word"
  fail_cooldown_ns :: "64 word"
  hg_flags :: "32 word"

definition MAP_HUGETLB :: "32 word" where "MAP_HUGETLB = 0x40000"
definition MAP_HUGE_SHIFT :: nat where "MAP_HUGE_SHIFT = 26"
definition MAP_HUGE_2MB :: "32 word" where "MAP_HUGE_2MB = push_bit MAP_HUGE_SHIFT 21"

definition vk_huge_init :: vk_huge where
  "vk_huge_init =
     \<lparr>hg_mode = VK_HUGE_AUTO, huge_page_bytes = 2 * 1024 * 1024, free_pages_cached = 0,
      last_refresh_ns = 0, last_fail_ns = 0, refresh_cooldown_ns = 1000 * 1000 * 1000,
      fail_cooldown_ns = 2000 * 1000 * 1000, hg_flags = MAP_HUGETLB OR MAP_HUGE_2MB\<rparr>"

definition vk_huge_set_mode :: "vk_huge_mode \<Rightarrow> vk_huge \<Rightarrow> vk_huge" where
  "vk_huge_set_mode mode st = st\<lparr>hg_mode := mode\<rparr>"

subsection \<open>Reading /proc/meminfo\<close>

text \<open>\<open>strtoul\<close> in base 10: white space, a sign, digits; saturating, and negated after a
  minus sign.\<close>

definition strtoul10 :: "string \<Rightarrow> size_t" where
  "strtoul10 s =
     (case skip_space s of
        [] \<Rightarrow> 0
      | c # cs \<Rightarrow>
          (let magnitude = (\<lambda>t. if digits_value 0 t < 2 ^ 64 then of_nat (digits_value 0 t) else SIZE_MAX)
           in if c = CHR ''-'' then (if digits_value 0 cs < 2 ^ 64 then - magnitude cs else SIZE_MAX)
              else if c = CHR ''+'' then magnitude cs else magnitude (c # cs)))"

definition line_value :: "string \<Rightarrow> string \<Rightarrow> size_t" where
  "line_value key line = strtoul10 (dropWhile (\<lambda>c. c = CHR '' '' \<or> c = CHR 0x09) (drop (length key) line))"

definition starts_with :: "string \<Rightarrow> string \<Rightarrow> bool" where
  "starts_with key line \<longleftrightarrow> take (length key) line = key"

fun scan_meminfo :: "string list \<Rightarrow> size_t \<times> size_t \<Rightarrow> size_t \<times> size_t" where
  "scan_meminfo [] found = found"
| "scan_meminfo (line # rest) (huge_kb, free_pages) =
     (if huge_kb = 0 \<and> starts_with ''Hugepagesize:'' line
      then scan_meminfo rest (line_value ''Hugepagesize:'' line, free_pages)
      else if free_pages = 0 \<and> starts_with ''HugePages_Free:'' line
      then scan_meminfo rest (huge_kb, line_value ''HugePages_Free:'' line)
      else scan_meminfo rest (huge_kb, free_pages))"

definition refresh_from_proc :: "string list option \<Rightarrow> vk_huge \<Rightarrow> vk_huge" where
  "refresh_from_proc meminfo st =
     (case meminfo of
        None \<Rightarrow> st
      | Some lines \<Rightarrow>
          (let (huge_kb, free_pages) = scan_meminfo lines (0, 0);
               st1 = (if huge_kb > 0 then st\<lparr>huge_page_bytes := huge_kb * 1024\<rparr> else st)
           in st1\<lparr>free_pages_cached := (if free_pages > 0 then free_pages else 0)\<rparr>))"

definition vk_huge_refresh :: "64 word \<Rightarrow> string list option \<Rightarrow> vk_huge \<Rightarrow> vk_huge" where
  "vk_huge_refresh t meminfo st =
     (if t - last_refresh_ns st < refresh_cooldown_ns st then st
      else (refresh_from_proc meminfo st)\<lparr>last_refresh_ns := t\<rparr>)"

subsection \<open>The decision and its feedback\<close>

text \<open>Two readings of the clock: the decision's and the refresh's.\<close>

definition vk_huge_should_try ::
  "64 word \<Rightarrow> 64 word \<Rightarrow> string list option \<Rightarrow> size_t \<Rightarrow> vk_huge \<Rightarrow> bool \<times> vk_huge" where
  "vk_huge_should_try t t' meminfo len st =
     (if hg_mode st = VK_HUGE_NEVER then (False, st)
      else if hg_flags st = 0 then (False, st)
      else if last_fail_ns st \<noteq> 0 \<and> t - last_fail_ns st < fail_cooldown_ns st then (False, st)
      else if hg_mode st = VK_HUGE_ALWAYS then (True, st)
      else (let st' = vk_huge_refresh t' meminfo st;
                page = (if huge_page_bytes st' \<noteq> 0 then huge_page_bytes st' else 2 * 1024 * 1024);
                needed = (len + page - 1) div page
            in (free_pages_cached st' \<ge> needed, st')))"

definition vk_huge_on_success :: "size_t \<Rightarrow> vk_huge \<Rightarrow> vk_huge" where
  "vk_huge_on_success len st =
     (let st' = st\<lparr>last_fail_ns := 0\<rparr>
      in if free_pages_cached st' > 0 \<and> huge_page_bytes st' > 0
         then (let page = huge_page_bytes st'; used = (len + page - 1) div page
               in if used \<le> free_pages_cached st'
                  then st'\<lparr>free_pages_cached := free_pages_cached st' - used\<rparr>
                  else st'\<lparr>free_pages_cached := 0\<rparr>)
         else st')"

definition vk_huge_on_failure :: "64 word \<Rightarrow> vk_huge \<Rightarrow> vk_huge" where
  "vk_huge_on_failure t st = st\<lparr>last_fail_ns := t, free_pages_cached := 0\<rparr>"

text \<open>The tracker is not NULL: both callers of the length pass the address of one.\<close>

definition vk_huge_page_bytes :: "vk_huge \<Rightarrow> size_t" where
  "vk_huge_page_bytes st = (if huge_page_bytes st \<noteq> 0 then huge_page_bytes st else 2 * 1024 * 1024)"

definition vk_huge_aligned_len :: "vk_huge \<Rightarrow> size_t \<Rightarrow> size_t \<Rightarrow> errno + size_t" where
  "vk_huge_aligned_len st nmemb count =
     (let page = vk_huge_page_bytes st
      in if page = 0 then Inl EINVAL
         else case vk_safe_mult nmemb count of
           Inl e \<Rightarrow> Inl e
         | Inr len \<Rightarrow>
             (case (if len mod page \<noteq> 0 then vk_safe_add (len div page) 1 else Inr (len div page)) of
                Inl e \<Rightarrow> Inl e
              | Inr pages \<Rightarrow> vk_safe_mult pages page))"

subsection \<open>The aligned length is the least multiple that holds the objects\<close>

definition huge_pagelen :: "vk_huge \<Rightarrow> size_t \<Rightarrow> size_t \<Rightarrow> errno + size_t" where
  "huge_pagelen st nmemb count =
     (let page = vk_huge_page_bytes st
      in case vk_safe_mult nmemb count of
           Inl e \<Rightarrow> Inl e
         | Inr len \<Rightarrow> Inr (if len div page * page < len then len div page + 1 else len div page))"

lemma page_bytes_nonzero [simp]: "vk_huge_page_bytes st \<noteq> 0"
  by (simp add: vk_huge_page_bytes_def)

text \<open>The remainder test and the product test agree, and the increment never wraps.\<close>

lemma rounding_step:
  assumes "(page :: size_t) \<noteq> 0"
  shows "(if len mod page \<noteq> 0 then vk_safe_add (len div page) 1 else Inr (len div page)) =
    Inr (if len div page * page < len then len div page + 1 else len div page)"
proof -
  have pos: "0 < unat page" using assms by (simp add: unat_gt_0)
  have le: "unat (len div page) * unat page \<le> unat len" by (simp add: unat_div)
  then have mult: "unat (len div page * page) = unat len div unat page * unat page"
    using le_less_trans [OF le unat_lt_size] by (simp add: unat_mult_exact unat_div)
  have iff: "len mod page \<noteq> 0 \<longleftrightarrow> len div page * page < len"
    using div_mult_mod_eq [of "unat len" "unat page"]
    by (simp only: word_eq_unat word_less_nat_alt mult unat_mod unat_0) linarith
  have "unat (len div page) + 1 < 2 ^ 64" if "len div page * page < len"
  proof -
    have "unat len div unat page \<le> unat len div unat page * unat page" using pos by simp
    moreover have "unat len div unat page * unat page < unat len"
      using that by (simp only: word_less_nat_alt mult)
    ultimately show ?thesis using unat_lt64 [of len] by (simp only: unat_div)
  qed
  then show ?thesis unfolding iff by (auto simp: safe_add_eq)
qed

lemma huge_rounding: "page_rounding (vk_huge_page_bytes st) (huge_pagelen st) (vk_huge_aligned_len st)"
proof
  show "vk_huge_aligned_len st nmemb count =
    (case huge_pagelen st nmemb count of Inl e \<Rightarrow> Inl e | Inr n \<Rightarrow> vk_safe_mult n (vk_huge_page_bytes st))"
    for nmemb count
    by (simp add: vk_huge_aligned_len_def huge_pagelen_def Let_def rounding_step split: sum.split)
qed (simp_all add: huge_pagelen_def Let_def)

interpretation fresh_huge: page_rounding "vk_huge_page_bytes vk_huge_init" "huge_pagelen vk_huge_init"
  "vk_huge_aligned_len vk_huge_init"
  by (rule huge_rounding)

text \<open>C38: The huge-page length of \<open>nmemb\<close> objects of \<open>count\<close> bytes is the least multiple of the
  tracked huge page size that holds them, and \<open>ERANGE\<close> exactly when that does not fit
  in a \<open>size_t\<close>; a zero page size falls back on 2 MB, so no division by zero occurs.\<close>

theorem huge_aligned_len_correct:
  "vk_huge_aligned_len st nmemb count =
    (let r = round_up (unat (vk_huge_page_bytes st)) (unat nmemb * unat count)
     in if r < 2 ^ 64 then Inr (of_nat r) else Inl ERANGE) \<and>
   0 < unat (vk_huge_page_bytes st)"
  using page_rounding.alignedlen_correct [OF huge_rounding] page_rounding.unat_page_pos [OF huge_rounding]
  by blast

subsection \<open>The budget\<close>

lemma pages_needed:
  assumes "(page :: size_t) \<noteq> 0" "unat (len :: size_t) + unat page \<le> 2 ^ 64"
  shows "unat ((len + page - 1) div page) = pages_for (unat page) (unat len)"
proof -
  have one: "1 \<le> unat page" using assms(1) by (simp add: unat_gt_0 Suc_leI)
  have p: "unat (page - 1) = unat page - 1"
    using unat_sub_exact [of 1 page] one by (simp only: word_le_nat_alt unat_1)
  have "unat (len + (page - 1)) = unat len + unat (page - 1)"
    by (rule unat_add_exact) (use assms(2) one p in linarith)
  then have "unat (len + page - 1) = unat len + unat page - 1"
    using one p by (simp add: add_diff_eq)
  then show ?thesis by (simp add: unat_div pages_for_def)
qed

text \<open>When the tracker, in its automatic mode, lets a mapping try huge pages, the cached
  budget holds the pages the mapping needs, rounded up, and reporting success takes
  exactly that many off the budget, provided length and page size do not overflow
  together.\<close>

theorem huge_budget:
  assumes "vk_huge_should_try t t' meminfo len st = (True, st')" "hg_mode st = VK_HUGE_AUTO"
    "huge_page_bytes st' \<noteq> 0" "unat len + unat (huge_page_bytes st') \<le> 2 ^ 64"
  shows "pages_for (unat (huge_page_bytes st')) (unat len) \<le> unat (free_pages_cached st') \<and>
    unat (free_pages_cached (vk_huge_on_success len st')) =
      unat (free_pages_cached st') - pages_for (unat (huge_page_bytes st')) (unat len)"
proof -
  let ?needed = "(len + huge_page_bytes st' - 1) div huge_page_bytes st'"
  have fits: "?needed \<le> free_pages_cached st'"
    using assms(1-3) by (auto simp: vk_huge_should_try_def Let_def split: if_splits)
  have n: "unat ?needed = pages_for (unat (huge_page_bytes st')) (unat len)"
    using assms(3,4) by (rule pages_needed)
  have "unat (free_pages_cached (vk_huge_on_success len st')) = unat (free_pages_cached st') - unat ?needed"
    using fits assms(3) by (auto simp: vk_huge_on_success_def Let_def word_gt_0 unat_sub_exact)
  then show ?thesis using fits n by (simp add: word_le_nat_alt)
qed

definition stocked_huge :: vk_huge where
  "stocked_huge = vk_huge_init\<lparr>free_pages_cached := 5\<rparr>"

theorem huge_budget_witness:
  "unat (free_pages_cached (vk_huge_on_success 0x400001 stocked_huge)) = 2"
proof -
  have "vk_huge_should_try 1 1 None 0x400001 stocked_huge = (True, stocked_huge)" by code_simp
  moreover have "hg_mode stocked_huge = VK_HUGE_AUTO" "huge_page_bytes stocked_huge \<noteq> 0"
    "unat (0x400001 :: size_t) + unat (huge_page_bytes stocked_huge) \<le> 2 ^ 64"
    by (simp_all add: stocked_huge_def vk_huge_init_def)
  ultimately have "unat (free_pages_cached (vk_huge_on_success 0x400001 stocked_huge)) =
      unat (free_pages_cached stocked_huge) - pages_for (unat (huge_page_bytes stocked_huge)) (unat (0x400001 :: size_t))"
    by (rule huge_budget [THEN conjunct2])
  then show ?thesis by (simp add: stocked_huge_def vk_huge_init_def pages_for_def)
qed

text \<open>Beyond that bound the rounding wraps: with no free page at all, the largest length is
  let through.\<close>

theorem huge_length_wraps:
  "vk_huge_should_try 1 1 None (- 1) vk_huge_init = (True, vk_huge_init)"
  by code_simp

end
