(* ===== verification/Io_Queue.thy ===== *)
theory Io_Queue
  imports VK_Prelude
begin

text \<open>
  The queue of I/O operations (src/vk_io_queue.c), a tail queue of the BSD
  \<open>sys/queue.h\<close> at pointer level: the head holds the first element and the address of the
  slot that ends the list, and every element the link to its successor and the address of
  the slot that points to it. A slot is the head's \<open>tqh_first\<close> or an element's
  \<open>tqe_next\<close>. The lemmas relate the links to the sequence of the elements.
\<close>

subsection \<open>Pointers\<close>

datatype 'k slot = First_Slot | Next_Slot 'k

record 'k vk_io_queue =
  tqh_first :: "'k option"
  tqh_last :: "'k slot"

record 'k tailq_links =
  tqe_next :: "'k \<Rightarrow> 'k option"
  tqe_prev :: "'k \<Rightarrow> 'k slot"

type_synonym 'k tq = "'k vk_io_queue \<times> 'k tailq_links"

definition read_slot :: "'k tq \<Rightarrow> 'k slot \<Rightarrow> 'k option" where
  "read_slot = (\<lambda>(q, l) sl. case sl of First_Slot \<Rightarrow> tqh_first q | Next_Slot e \<Rightarrow> tqe_next l e)"

definition write_slot :: "'k slot \<Rightarrow> 'k option \<Rightarrow> 'k tq \<Rightarrow> 'k tq" where
  "write_slot sl v = (\<lambda>(q, l). case sl of
     First_Slot \<Rightarrow> (q\<lparr>tqh_first := v\<rparr>, l)
   | Next_Slot e \<Rightarrow> (q, l\<lparr>tqe_next := (tqe_next l)(e := v)\<rparr>))"

definition vk_io_queue_init :: "'k tailq_links \<Rightarrow> 'k tq" where
  "vk_io_queue_init l = (\<lparr>tqh_first = None, tqh_last = First_Slot\<rparr>, l)"

definition vk_io_queue_push :: "'k \<Rightarrow> 'k tq \<Rightarrow> 'k tq" where
  "vk_io_queue_push e = (\<lambda>(q, l).
     (let l1 = l\<lparr>tqe_next := (tqe_next l)(e := None), tqe_prev := (tqe_prev l)(e := tqh_last q)\<rparr>;
          (q2, l2) = write_slot (tqh_last q) (Some e) (q, l1)
      in (q2\<lparr>tqh_last := Next_Slot e\<rparr>, l2)))"

text \<open>\<open>TAILQ_REMOVE\<close>.\<close>

definition tailq_remove :: "'k \<Rightarrow> 'k tq \<Rightarrow> 'k tq" where
  "tailq_remove e = (\<lambda>(q, l).
     (let (q1, l1) = (case tqe_next l e of
            Some n \<Rightarrow> (q, l\<lparr>tqe_prev := (tqe_prev l)(n := tqe_prev l e)\<rparr>)
          | None \<Rightarrow> (q\<lparr>tqh_last := tqe_prev l e\<rparr>, l))
      in write_slot (tqe_prev l1 e) (tqe_next l1 e) (q1, l1)))"

definition vk_io_queue_pop :: "'k tq \<Rightarrow> 'k option \<times> 'k tq" where
  "vk_io_queue_pop s =
     (case tqh_first (fst s) of None \<Rightarrow> (None, s) | Some e \<Rightarrow> (Some e, tailq_remove e s))"

definition vk_io_queue_first :: "'k tq \<Rightarrow> 'k option" where
  "vk_io_queue_first s = tqh_first (fst s)"

definition vk_io_queue_next :: "'k tq \<Rightarrow> 'k option \<Rightarrow> 'k option" where
  "vk_io_queue_next s op = (case op of None \<Rightarrow> None | Some e \<Rightarrow> tqe_next (snd s) e)"

definition vk_io_queue_remove :: "'k option \<Rightarrow> 'k tq \<Rightarrow> 'k tq" where
  "vk_io_queue_remove op s = (case op of None \<Rightarrow> s | Some e \<Rightarrow> tailq_remove e s)"

definition vk_io_queue_empty :: "'k tq \<Rightarrow> bool" where
  "vk_io_queue_empty s \<longleftrightarrow> tqh_first (fst s) = None"

subsection \<open>The sequence of a tail queue\<close>

text \<open>From the slot \<open>sl\<close> on, the links spell out the elements, each with the slot
  before it in its \<open>tqe_prev\<close>, and the head's last slot ends them.\<close>

fun chain :: "'k tq \<Rightarrow> 'k slot \<Rightarrow> 'k list \<Rightarrow> bool" where
  "chain s sl [] \<longleftrightarrow> read_slot s sl = None \<and> tqh_last (fst s) = sl"
| "chain s sl (x # xs) \<longleftrightarrow>
     read_slot s sl = Some x \<and> tqe_prev (snd s) x = sl \<and> chain s (Next_Slot x) xs"

definition tailq :: "'k tq \<Rightarrow> 'k list \<Rightarrow> bool" where
  "tailq s xs \<longleftrightarrow> chain s First_Slot xs \<and> distinct xs"

lemma read_slot_simps [simp]:
  "read_slot s First_Slot = tqh_first (fst s)" "read_slot s (Next_Slot e) = tqe_next (snd s) e"
  by (simp_all add: read_slot_def split_beta)

lemma chain_cong:
  "read_slot s' sl = read_slot s sl \<Longrightarrow> tqh_last (fst s') = tqh_last (fst s) \<Longrightarrow>
   \<forall>y \<in> set xs. tqe_next (snd s') y = tqe_next (snd s) y \<and> tqe_prev (snd s') y = tqe_prev (snd s) y \<Longrightarrow>
   chain s' sl xs \<longleftrightarrow> chain s sl xs"
proof (induction xs arbitrary: sl)
  case (Cons x xs)
  have "chain s' (Next_Slot x) xs \<longleftrightarrow> chain s (Next_Slot x) xs"
    by (rule Cons.IH) (use Cons.prems in auto)
  then show ?case using Cons.prems(1) bspec [OF Cons.prems(3), of x] by simp
qed simp

lemma chain_last:
  "chain s sl xs \<Longrightarrow> tqh_last (fst s) = (if xs = [] then sl else Next_Slot (last xs))"
proof (induction xs arbitrary: sl)
  case (Cons x xs)
  then have "chain s (Next_Slot x) xs" by simp
  from Cons.IH [OF this] show ?case by (cases xs) simp_all
qed simp

lemma chain_at:
  "chain s sl (us @ e # vs) \<Longrightarrow>
   tqe_prev (snd s) e = (if us = [] then sl else Next_Slot (last us)) \<and>
   tqe_next (snd s) e = (case vs of [] \<Rightarrow> None | n # _ \<Rightarrow> Some n) \<and> chain s (Next_Slot e) vs"
proof (induction us arbitrary: sl)
  case Nil
  then show ?case by (cases vs) simp_all
next
  case (Cons u us)
  then have "chain s (Next_Slot u) (us @ e # vs)" by simp
  from Cons.IH [OF this] show ?case by (cases us) simp_all
qed

text \<open>What pushing changes: the slot that ended the list, and the links of the new
  element.\<close>

lemma push_links:
  "tqe_prev (snd (vk_io_queue_push e s)) = (tqe_prev (snd s))(e := tqh_last (fst s))"
  "tqh_last (fst (vk_io_queue_push e s)) = Next_Slot e"
  "tqh_last (fst s) \<noteq> Next_Slot e \<Longrightarrow> sl \<noteq> Next_Slot e \<Longrightarrow>
    read_slot (vk_io_queue_push e s) sl = (if sl = tqh_last (fst s) then Some e else read_slot s sl)"
  "tqh_last (fst s) \<noteq> Next_Slot e \<Longrightarrow> read_slot (vk_io_queue_push e s) (Next_Slot e) = None"
  by (cases s; cases "tqh_last (fst s)"; cases sl;
      auto simp: vk_io_queue_push_def write_slot_def Let_def)+

lemma push_chain:
  "chain s sl xs \<Longrightarrow> sl \<notin> Next_Slot ` set (e # xs) \<Longrightarrow> distinct (e # xs) \<Longrightarrow>
   chain (vk_io_queue_push e s) sl (xs @ [e])"
proof (induction xs arbitrary: sl)
  case Nil
  then show ?case
    using push_links(1,2) [of e s] push_links(3) [of s e sl] push_links(4) [of s e]
    by (auto simp del: read_slot_simps)
next
  case (Cons x xs)
  have last: "tqh_last (fst s) = Next_Slot (last (x # xs))"
    using chain_last [OF Cons.prems(1)] by simp
  then have "tqh_last (fst s) \<noteq> sl" "tqh_last (fst s) \<noteq> Next_Slot e"
    using Cons.prems(2,3) last_in_set [of "x # xs"] by auto
  then have "read_slot (vk_io_queue_push e s) sl = Some x"
    using Cons.prems push_links(3) [of s e sl] by auto
  moreover have "tqe_prev (snd (vk_io_queue_push e s)) x = sl"
    using Cons.prems by (auto simp: push_links)
  moreover have "chain (vk_io_queue_push e s) (Next_Slot x) (xs @ [e])"
    using Cons.prems by (intro Cons.IH) auto
  ultimately show ?case by simp
qed

lemma tailq_push: "tailq s xs \<Longrightarrow> e \<notin> set xs \<Longrightarrow> tailq (vk_io_queue_push e s) (xs @ [e])"
  using push_chain [of s First_Slot xs e] by (auto simp: tailq_def)

text \<open>What removing changes: the slot before the element and the \<open>tqe_prev\<close> of the element
  after it, or the end of the list.\<close>

lemma remove_links:
  assumes "tqe_prev (snd s) e = before" "tqe_next (snd s) e = after" "after \<noteq> Some e"
  shows "read_slot (tailq_remove e s) sl = (if sl = before then after else read_slot s sl)"
    "tqh_last (fst (tailq_remove e s)) = (if after = None then before else tqh_last (fst s))"
    "tqe_prev (snd (tailq_remove e s)) =
       (case after of None \<Rightarrow> tqe_prev (snd s) | Some n \<Rightarrow> (tqe_prev (snd s))(n := before))"
  using assms by (cases s; cases before; cases sl; cases after;
      auto simp: tailq_remove_def write_slot_def Let_def)+

lemma remove_chain:
  "chain s sl (us @ e # vs) \<Longrightarrow> sl \<notin> Next_Slot ` set (us @ e # vs) \<Longrightarrow> distinct (us @ e # vs) \<Longrightarrow>
   chain (tailq_remove e s) sl (us @ vs)"
proof (induction us arbitrary: sl)
  case Nil
  from chain_at [of s sl "[]" e vs] Nil.prems(1)
  have l: "tqe_prev (snd s) e = sl" "tqe_next (snd s) e = (case vs of [] \<Rightarrow> None | n # _ \<Rightarrow> Some n)"
    and rest: "chain s (Next_Slot e) vs" by auto
  have "(case vs of [] \<Rightarrow> None | n # _ \<Rightarrow> Some n) \<noteq> Some e" using Nil.prems(3) by (cases vs) auto
  note r = remove_links [OF l this]
  show ?case
  proof (cases vs)
    case Nil
    then show ?thesis using r(2,3) r(1) [of sl] by (simp del: read_slot_simps)
  next
    case (Cons n ns)
    have "chain (tailq_remove e s) (Next_Slot n) ns = chain s (Next_Slot n) ns"
    proof (rule chain_cong)
      show "\<forall>y \<in> set ns. tqe_next (snd (tailq_remove e s)) y = tqe_next (snd s) y \<and>
          tqe_prev (snd (tailq_remove e s)) y = tqe_prev (snd s) y"
      proof (intro ballI)
        fix y assume y: "y \<in> set ns"
        then have "Next_Slot y \<noteq> sl" "y \<noteq> n" using Cons Nil.prems(2,3) by auto
        then show "tqe_next (snd (tailq_remove e s)) y = tqe_next (snd s) y \<and>
          tqe_prev (snd (tailq_remove e s)) y = tqe_prev (snd s) y"
          using r(1) [of "Next_Slot y"] r(3) Cons by simp
      qed
    qed (use Cons Nil.prems r in \<open>auto simp del: read_slot_simps\<close>)
    then show ?thesis using Cons rest r(2,3) r(1) [of sl] by (auto simp del: read_slot_simps)
  qed
next
  case (Cons u us)
  from chain_at [of s sl "u # us" e vs] Cons.prems(1)
  have l: "tqe_prev (snd s) e = Next_Slot (last (u # us))"
      "tqe_next (snd s) e = (case vs of [] \<Rightarrow> None | n # _ \<Rightarrow> Some n)" by auto
  have "(case vs of [] \<Rightarrow> None | n # _ \<Rightarrow> Some n) \<noteq> Some e" using Cons.prems(3) by (cases vs) auto
  note r = remove_links [OF l this]
  have "sl \<noteq> Next_Slot (last (u # us))" using Cons.prems(2) last_in_set [of "u # us"] by auto
  then have "read_slot (tailq_remove e s) sl = Some u"
    using r(1) [of sl] Cons.prems(1) by auto
  moreover have "tqe_prev (snd (tailq_remove e s)) u = sl"
    using r(3) Cons.prems(1,3) by (cases vs) auto
  moreover have "chain (tailq_remove e s) (Next_Slot u) (us @ vs)"
    using Cons.prems by (intro Cons.IH) auto
  ultimately show ?case by simp
qed

lemma tailq_remove:
  assumes "tailq s xs" "e \<in> set xs"
  shows "tailq (tailq_remove e s) (remove1 e xs)"
proof -
  from assms(2) obtain us vs where xs: "xs = us @ e # vs" "e \<notin> set us" by (metis split_list_first)
  have "remove1 e xs = us @ vs" using xs by (simp add: remove1_append)
  then show ?thesis
    using assms(1) remove_chain [of s First_Slot us e vs] unfolding xs(1) by (auto simp: tailq_def)
qed

lemma tailq_first: "tailq s xs \<Longrightarrow> tqh_first (fst s) = (case xs of [] \<Rightarrow> None | x # _ \<Rightarrow> Some x)"
  by (cases xs) (auto simp: tailq_def)

lemma tailq_init: "tailq (vk_io_queue_init l) []"
  by (simp add: tailq_def vk_io_queue_init_def)

lemma tailq_pop: "tailq s (x # xs) \<Longrightarrow> \<exists>s'. vk_io_queue_pop s = (Some x, s') \<and> tailq s' xs"
  using tailq_first [of s "x # xs"] tailq_remove [of s "x # xs" x] by (simp add: vk_io_queue_pop_def)

lemma tailq_pop_empty: "tailq s [] \<Longrightarrow> vk_io_queue_pop s = (None, s)"
  using tailq_first [of s "[]"] by (simp add: vk_io_queue_pop_def)

lemma tailq_next:
  assumes "tailq s xs" "Suc i < length xs"
  shows "vk_io_queue_next s (Some (xs ! i)) = Some (xs ! Suc i)"
proof -
  have "xs = take i xs @ xs ! i # drop (Suc i) xs" using assms(2) by (simp add: id_take_nth_drop)
  then have "tqe_next (snd s) (xs ! i) = (case drop (Suc i) xs of [] \<Rightarrow> None | n # _ \<Rightarrow> Some n)"
    using assms(1) chain_at [of s First_Slot "take i xs" "xs ! i" "drop (Suc i) xs"]
    by (auto simp: tailq_def)
  moreover have "drop (Suc i) xs = xs ! Suc i # drop (Suc (Suc i)) xs"
    using assms(2) by (simp add: Cons_nth_drop_Suc)
  ultimately show ?thesis by (simp add: vk_io_queue_next_def)
qed

subsection \<open>First in, first out\<close>

datatype 'e queue_op = Push 'e | Pop

fun queue_run ::
  "('e \<Rightarrow> 'q \<Rightarrow> 'q) \<Rightarrow> ('q \<Rightarrow> 'e option \<times> 'q) \<Rightarrow> 'e queue_op list \<Rightarrow> 'q \<Rightarrow> 'e option list \<times> 'q" where
  "queue_run push pop [] q = ([], q)"
| "queue_run push pop (Push e # ops) q = queue_run push pop ops (push e q)"
| "queue_run push pop (Pop # ops) q =
     (let (x, q1) = pop q; (ys, q2) = queue_run push pop ops q1 in (x # ys, q2))"

fun pushed :: "'e queue_op list \<Rightarrow> 'e list" where
  "pushed [] = []"
| "pushed (Push e # ops) = e # pushed ops"
| "pushed (Pop # ops) = pushed ops"

locale fifo =
  fixes holds :: "'q \<Rightarrow> 'e list \<Rightarrow> bool"
    and push :: "'e \<Rightarrow> 'q \<Rightarrow> 'q"
    and pop :: "'q \<Rightarrow> 'e option \<times> 'q"
  assumes holds_push: "holds q xs \<Longrightarrow> e \<notin> set xs \<Longrightarrow> holds (push e q) (xs @ [e])"
    and holds_pop: "holds q (x # xs) \<Longrightarrow> \<exists>q'. pop q = (Some x, q') \<and> holds q' xs"
    and pop_empty: "holds q [] \<Longrightarrow> pop q = (None, q)"
begin

lemma run_fifo:
  assumes "holds q xs" "distinct (xs @ pushed ops)" "queue_run push pop ops q = (ys, q')"
  shows "\<exists>rest. holds q' rest \<and> map the (filter (\<lambda>y. y \<noteq> None) ys) @ rest = xs @ pushed ops"
  using assms
proof (induction ops arbitrary: q xs ys)
  case (Cons oper ops)
  show ?case
  proof (cases oper)
    case (Push e)
    then have "holds (push e q) (xs @ [e])" using Cons.prems by (intro holds_push) auto
    from Cons.IH [OF this] show ?thesis using Cons.prems Push by auto
  next
    case Pop
    obtain x q1 zs where step: "pop q = (x, q1)" "queue_run push pop ops q1 = (zs, q')" "ys = x # zs"
      using Cons.prems(3) Pop by (auto split: prod.splits)
    show ?thesis
    proof (cases xs)
      case Nil
      then have "x = None" "q1 = q" using pop_empty [of q] Cons.prems(1) step(1) by auto
      then show ?thesis using Cons.IH [of q "[]" zs] Cons.prems(1,2) step Nil Pop by auto
    next
      case (Cons z xs')
      then have "x = Some z" "holds q1 xs'" using holds_pop [of q z xs'] Cons.prems(1) step(1) by auto
      then show ?thesis using Cons.IH [of q1 xs' zs] Cons.prems(2) step Cons Pop by auto
    qed
  qed
qed simp

end

interpretation ioq: fifo tailq vk_io_queue_push vk_io_queue_pop
proof
  show "tailq q xs \<Longrightarrow> e \<notin> set xs \<Longrightarrow> tailq (vk_io_queue_push e q) (xs @ [e])" for q :: "'a tq" and xs e
    by (rule tailq_push)
  show "tailq q (x # xs) \<Longrightarrow> \<exists>q'. vk_io_queue_pop q = (Some x, q') \<and> tailq q' xs" for q :: "'a tq" and x xs
    by (rule tailq_pop)
  show "tailq q [] \<Longrightarrow> vk_io_queue_pop q = (None, q)" for q :: "'a tq"
    by (rule tailq_pop_empty)
qed

text \<open>C35: Whatever sequence of pushes and pops runs on an I/O queue, the pops give the
  operations in the order in which they were pushed, nothing is lost or repeated, the links
  always spell out what is left, and removing an operation from the middle unlinks exactly
  that one.\<close>

theorem io_queue_fifo:
  assumes "tailq s xs" "distinct (xs @ pushed ops)" "queue_run vk_io_queue_push vk_io_queue_pop ops s = (ys, s')"
  shows "\<exists>rest. tailq s' rest \<and> map the (filter (\<lambda>y. y \<noteq> None) ys) @ rest = xs @ pushed ops \<and>
    vk_io_queue_first s' = (case rest of [] \<Rightarrow> None | e # _ \<Rightarrow> Some e) \<and>
    (vk_io_queue_empty s' \<longleftrightarrow> rest = []) \<and>
    (\<forall>e \<in> set rest. tailq (vk_io_queue_remove (Some e) s') (remove1 e rest))"
proof -
  obtain rest where r: "tailq s' rest" "map the (filter (\<lambda>y. y \<noteq> None) ys) @ rest = xs @ pushed ops"
    using ioq.run_fifo [OF assms] by blast
  then show ?thesis
    using tailq_first [OF r(1)] tailq_remove [OF r(1)]
    by (intro exI [of _ rest]) (auto simp: vk_io_queue_first_def vk_io_queue_empty_def
      vk_io_queue_remove_def split: list.split)
qed

definition blank_links :: "nat tailq_links" where
  "blank_links = \<lparr>tqe_next = (\<lambda>_. None), tqe_prev = (\<lambda>_. First_Slot)\<rparr>"

theorem io_queue_fifo_witness:
  "\<exists>rest. fst (queue_run vk_io_queue_push vk_io_queue_pop [Push 7, Push 3, Pop, Push 5, Pop]
       (vk_io_queue_init blank_links)) = [Some 7, Some 3] \<and>
     map the [Some 7, Some 3] @ rest = [7, 3, 5 :: nat]"
proof -
  define r where "r = queue_run vk_io_queue_push vk_io_queue_pop [Push 7, Push 3, Pop, Push 5, Pop]
    (vk_io_queue_init blank_links)"
  have f: "fst r = [Some 7, Some 3]" unfolding r_def blank_links_def by code_simp
  have "queue_run vk_io_queue_push vk_io_queue_pop [Push 7, Push 3, Pop, Push 5, Pop]
    (vk_io_queue_init blank_links) = (fst r, snd r)" by (simp add: r_def)
  from io_queue_fifo [OF tailq_init _ this] show ?thesis using f by (auto simp: r_def)
qed

end
