(* ===== verification/Io_Batch.thy ===== *)
theory Io_Batch
  imports Io_Queue Vectoring_IO VK_State
begin

text \<open>
  I/O operations as values (src/vk_io_op.c), their execution (src/vk_io_exec.c) and the
  synchronous batch over several descriptors (src/vk_io_batch_sync.c). An operation holds a
  view of a ring: two vectors and their total length. The outcome of each system call is an
  argument, as for the ring's own reads and writes. The result \<open>res\<close> is an \<open>ssize_t\<close>,
  \<open>err\<close> an errno; processes and coroutines are addresses.
\<close>

subsection \<open>Operations\<close>

datatype VK_IO_OP_KIND = VK_IO_READ | VK_IO_WRITE | VK_IO_FORWARD | VK_IO_FLUSH | VK_IO_HUP

datatype VK_IO_OP_STATE =
    VK_IO_OP_PENDING | VK_IO_OP_STAGED | VK_IO_OP_SUBMITTED | VK_IO_OP_DONE | VK_IO_OP_EAGAIN |
    VK_IO_OP_NEEDS_POLL | VK_IO_OP_ERROR | VK_IO_OP_CANCELED

record vk_io_op =
  iop_fd :: int
  iop_proc :: addr
  iop_thread :: addr
  iop_kind :: VK_IO_OP_KIND
  iop_iov :: iovecs
  iop_len :: size_t
  iop_flags :: "32 word"
  iop_state :: VK_IO_OP_STATE
  iop_res :: int
  iop_err :: errno

definition vk_io_op_init :: vk_io_op where
  "vk_io_op_init =
     \<lparr>iop_fd = 0, iop_proc = 0, iop_thread = 0, iop_kind = VK_IO_READ,
      iop_iov = (\<lparr>iov_base = Base 0, iov_len = 0\<rparr>, \<lparr>iov_base = Base 0, iov_len = 0\<rparr>),
      iop_len = 0, iop_flags = 0, iop_state = VK_IO_OP_PENDING, iop_res = 0, iop_err = 0\<rparr>"

definition vk_io_op_set_iov2 :: "iovecs \<Rightarrow> size_t \<Rightarrow> vk_io_op \<Rightarrow> vk_io_op" where
  "vk_io_op_set_iov2 iov total_len op = op\<lparr>iop_iov := iov, iop_len := total_len\<rparr>"

text \<open>The buffer lengths pass through an \<open>int\<close> before they are sizes again.\<close>

definition through_int :: "size_t \<Rightarrow> size_t" where
  "through_int n = scast (ucast n :: 32 word)"

definition vk_vectoring_tx_buf1_len :: "vk_vectoring \<Rightarrow> size_t" where
  "vk_vectoring_tx_buf1_len r = through_int (iov_len (fst (vector_tx r)))"

definition vk_vectoring_tx_buf2_len :: "vk_vectoring \<Rightarrow> size_t" where
  "vk_vectoring_tx_buf2_len r = through_int (iov_len (snd (vector_tx r)))"

definition vk_vectoring_rx_buf1_len :: "vk_vectoring \<Rightarrow> size_t" where
  "vk_vectoring_rx_buf1_len r = through_int (iov_len (fst (vector_rx r)))"

definition vk_vectoring_rx_buf2_len :: "vk_vectoring \<Rightarrow> size_t" where
  "vk_vectoring_rx_buf2_len r = through_int (iov_len (snd (vector_rx r)))"

definition view_op ::
  "size_t \<Rightarrow> size_t \<Rightarrow> iov_base \<Rightarrow> iov_base \<Rightarrow> size_t \<Rightarrow> vk_io_op \<Rightarrow> errno + vk_io_op" where
  "view_op b1 b2 p1 p2 max_len op =
     (if b1 + b2 = 0 then Inl EAGAIN
      else (let need = (if max_len > 0 then max_len else b1 + b2);
                l1 = min b1 need;
                remaining = need - l1;
                l2 = (if remaining > 0 then min b2 remaining else 0)
            in Inr (op\<lparr>iop_iov := (\<lparr>iov_base = p1, iov_len = l1\<rparr>, \<lparr>iov_base = p2, iov_len = l2\<rparr>),
                       iop_len := l1 + l2\<rparr>)))"

definition vk_io_op_from_tx_ring :: "vk_vectoring \<Rightarrow> size_t \<Rightarrow> vk_io_op \<Rightarrow> errno + vk_io_op" where
  "vk_io_op_from_tx_ring r =
     view_op (vk_vectoring_tx_buf1_len r) (vk_vectoring_tx_buf2_len r)
       (iov_base (fst (vector_tx r))) (iov_base (snd (vector_tx r)))"

definition vk_io_op_from_rx_ring :: "vk_vectoring \<Rightarrow> size_t \<Rightarrow> vk_io_op \<Rightarrow> errno + vk_io_op" where
  "vk_io_op_from_rx_ring r =
     view_op (vk_vectoring_rx_buf1_len r) (vk_vectoring_rx_buf2_len r)
       (iov_base (fst (vector_rx r))) (iov_base (snd (vector_rx r)))"

subsection \<open>Execution\<close>

text \<open>With one vector the second is not passed to the system call.\<close>

definition passed_iov :: "vk_io_op \<Rightarrow> iovecs" where
  "passed_iov op =
     (if iov_len (snd (iop_iov op)) > 0 then iop_iov op
      else (fst (iop_iov op), \<lparr>iov_base = Empty_Literal, iov_len = 0\<rparr>))"

definition writev :: "mem \<Rightarrow> iovecs \<Rightarrow> errno + nat \<Rightarrow> int \<times> byte list" where
  "writev m vs out =
     (case out of
        Inl er \<Rightarrow> (- 1, [])
      | Inr n \<Rightarrow> (int (min n (iovs_room vs)), map m (take n (vec_addrs vs))))"

record io_answers =
  ans_readv :: "errno + byte list"
  ans_writev :: "errno + nat"

text \<open>What a result does to the operation; \<open>er\<close> is the errno of a failed call.\<close>

definition settle :: "int \<Rightarrow> errno \<Rightarrow> vk_io_op \<Rightarrow> vk_io_op" where
  "settle rc er op =
     (let op1 = op\<lparr>iop_res := rc\<rparr>
      in if rc \<ge> 0
         then (if of_int rc < iop_len op1
               then op1\<lparr>iop_err := EAGAIN, iop_state := VK_IO_OP_NEEDS_POLL\<rparr>
               else op1\<lparr>iop_err := 0, iop_state := VK_IO_OP_DONE\<rparr>)
         else if er = EAGAIN then op1\<lparr>iop_err := er, iop_state := VK_IO_OP_NEEDS_POLL\<rparr>
         else op1\<lparr>iop_err := er, iop_state := VK_IO_OP_ERROR\<rparr>)"

definition vk_io_exec_rw ::
  "io_answers \<Rightarrow> mem \<Rightarrow> vk_io_op \<Rightarrow> (errno + unit) \<times> mem \<times> byte list \<times> vk_io_op" where
  "vk_io_exec_rw ans m op =
     (case iop_kind op of
        VK_IO_READ \<Rightarrow>
          (let (rc, m') = readv m (passed_iov op) (ans_readv ans)
           in (Inr (), m', [], settle rc (readv_errno 0 (ans_readv ans)) op))
      | VK_IO_WRITE \<Rightarrow>
          (let (rc, wire) = writev m (passed_iov op) (ans_writev ans)
           in (Inr (), m, wire, settle rc (readv_errno 0 (ans_writev ans)) op))
      | _ \<Rightarrow> (Inl EINVAL, m, [], op))"

definition vk_io_apply_tx :: "errno \<Rightarrow> vk_vectoring \<Rightarrow> int \<Rightarrow> int \<times> errno \<times> vk_vectoring" where
  "vk_io_apply_tx = vk_vectoring_signed_sent"

definition vk_io_apply_rx :: "errno \<Rightarrow> vk_vectoring \<Rightarrow> int \<Rightarrow> int \<times> errno \<times> vk_vectoring" where
  "vk_io_apply_rx = vk_vectoring_signed_received"

subsection \<open>The batch\<close>

record io_world =
  io_ops :: "addr \<Rightarrow> vk_io_op"
  io_queues :: "addr \<Rightarrow> addr vk_io_queue"
  io_links :: "addr tailq_links"
  io_mem :: mem
  io_wire :: "int \<Rightarrow> byte list"

definition want_events_for_kind :: "VK_IO_OP_KIND \<Rightarrow> events" where
  "want_events_for_kind k = (case k of VK_IO_READ \<Rightarrow> POLLIN | VK_IO_WRITE \<Rightarrow> POLLOUT | _ \<Rightarrow> 0)"

definition io_pop :: "addr \<Rightarrow> io_world \<Rightarrow> addr option \<times> io_world" where
  "io_pop q w =
     (case vk_io_queue_pop (io_queues w q, io_links w) of
        (x, q', l') \<Rightarrow> (x, w\<lparr>io_queues := (io_queues w)(q := q'), io_links := l'\<rparr>))"

text \<open>One stream: the operation taken, if any, and the poll request it leaves. \<open>io_wire\<close> are the bytes written so far,
  by descriptor.\<close>

definition batch_stream ::
  "io_answers \<Rightarrow> addr option \<Rightarrow> io_world \<Rightarrow> (addr \<times> pollfd option) option \<times> io_world" where
  "batch_stream ans q w =
     (case q of
        None \<Rightarrow> (None, w)
      | Some q \<Rightarrow>
          (case io_pop q w of
             (None, w1) \<Rightarrow> (None, w1)
           | (Some e, w1) \<Rightarrow>
               (case vk_io_exec_rw ans (io_mem w1) (io_ops w1 e) of
                  (_, m', sent, op) \<Rightarrow>
                    (Some (e, if iop_state op = VK_IO_OP_NEEDS_POLL
                              then Some \<lparr>ev_fd = iop_fd op, ev_events = want_events_for_kind (iop_kind op),
                                         ev_revents = 0\<rparr>
                              else None),
                     w1\<lparr>io_mem := m', io_wire := (io_wire w1)(iop_fd op := io_wire w1 (iop_fd op) @ sent),
                        io_ops := (io_ops w1)(e := op)\<rparr>))))"

fun batch_loop ::
  "(nat \<Rightarrow> io_answers) \<Rightarrow> nat \<Rightarrow> addr option list \<Rightarrow> io_world \<Rightarrow> addr list \<times> pollfd list \<times> io_world" where
  "batch_loop ans i [] w = ([], [], w)"
| "batch_loop ans i (q # qs) w =
     (let (taken, w1) = batch_stream (ans i) q w;
          (completed, needs_poll, w2) = batch_loop ans (Suc i) qs w1
      in case taken of
           None \<Rightarrow> (completed, needs_poll, w2)
         | Some (e, None) \<Rightarrow> (e # completed, needs_poll, w2)
         | Some (e, Some p) \<Rightarrow> (e # completed, p # needs_poll, w2))"

definition vk_io_batch_sync_run ::
  "(nat \<Rightarrow> io_answers) \<Rightarrow> addr option list \<Rightarrow> io_world \<Rightarrow> nat \<times> addr list \<times> pollfd list \<times> io_world" where
  "vk_io_batch_sync_run ans streams w =
     (case batch_loop ans 0 streams w of
        (completed, needs_poll, w') \<Rightarrow> (length completed, completed, needs_poll, w'))"

subsection \<open>An operation is a view of its ring\<close>

lemma sint_small32: "unat (y :: 32 word) < 2 ^ 31 \<Longrightarrow> sint y = int (unat y)"
proof -
  assume "unat y < 2 ^ 31"
  then have "int (unat y) < 2 ^ 31" by (simp only: flip: of_nat_less_iff [where 'a = int]) simp
  moreover have "- (2 ^ 31) \<le> uint y" by (rule order_trans [OF _ uint_nonnegative]) simp
  ultimately show ?thesis
    unfolding sint_uint by (subst signed_take_bit_int_eq_self) simp_all
qed

lemma through_int_id:
  assumes "unat n < 2 ^ 31"
  shows "through_int n = n"
proof -
  have u: "unat (ucast n :: 32 word) = unat n"
    using assms by (simp add: unsigned_ucast_eq take_bit_nat_eq_self)
  have "through_int n = word_of_int (sint (ucast n :: 32 word))"
    by (simp add: through_int_def)
  also have "\<dots> = of_nat (unat n)"
    using sint_small32 [of "ucast n"] assms by (simp only: u of_int_of_nat_eq)
  finally show ?thesis by simp
qed

definition asked :: "size_t \<Rightarrow> nat \<Rightarrow> nat" where
  "asked max_len n = (if max_len > 0 then min (unat max_len) n else n)"

definition views :: "vk_io_op \<Rightarrow> iovecs \<Rightarrow> nat \<Rightarrow> bool" where
  "views op vs k \<longleftrightarrow>
     vec_addrs (passed_iov op) = take k (vec_addrs vs) \<and> iovs_room (passed_iov op) = k \<and>
     unat (iop_len op) = k"

lemma unat_min: "unat (min a b :: size_t) = min (unat a) (unat b)"
  by (simp add: min_def word_le_nat_alt)

lemma seg_addrs_prefix:
  "unat l \<le> unat (iov_len v) \<Longrightarrow> seg_addrs \<lparr>iov_base = iov_base v, iov_len = l\<rparr> = take (unat l) (seg_addrs v)"
  by (cases "iov_base v") (simp_all add: seg_addrs_def take_map min_absorb1)

lemma view_op_views:
  assumes ok: "vec_ok vs n" "n < 2 ^ 31" "0 < n"
  shows "\<exists>op'. view_op (through_int (iov_len (fst vs))) (through_int (iov_len (snd vs)))
      (iov_base (fst vs)) (iov_base (snd vs)) max_len op = Inr op' \<and>
    views op' vs (asked max_len n) \<and> iop_kind op' = iop_kind op"
proof -
  let ?b1 = "iov_len (fst vs)" and ?b2 = "iov_len (snd vs)"
  define need where "need = (if max_len > 0 then max_len else ?b1 + ?b2)"
  define l1 where "l1 = min ?b1 need"
  define l2 where "l2 = (if need - l1 > 0 then min ?b2 (need - l1) else 0)"
  have n: "unat ?b1 + unat ?b2 = n" using ok(1) by (simp add: vec_ok_def)
  have thru: "through_int ?b1 = ?b1" "through_int ?b2 = ?b2"
    using n ok(2) by (auto intro!: through_int_id)
  have sum: "unat (?b1 + ?b2) = n" using vec_ok_total [OF ok(1)] by (simp add: vk_iovec_len_def)
  have u1: "unat l1 = min (unat need) (unat ?b1)" by (simp add: l1_def unat_min min.commute)
  have rem: "unat (need - l1) = unat need - unat l1"
    by (rule unat_sub_exact) (simp add: l1_def)
  have u2: "unat l2 = min (unat need - unat l1) (unat ?b2)"
    using rem by (auto simp: l2_def unat_min min.commute word_gt_0 word_eq_unat)
  obtain r1 r2 where req: "vk_vectoring_request vs need = (r1, r2)" by (metis prod.exhaust)
  note ru = request_unat [OF ok(1) req]
  have same: "r1 = l1" "r2 = l2" using ru(1,2) u1 u2 by (simp_all add: word_eq_unat)
  have k: "min (unat need) n = asked max_len n" using sum by (auto simp: need_def asked_def)
  let ?iov = "(\<lparr>iov_base = iov_base (fst vs), iov_len = l1\<rparr>, \<lparr>iov_base = iov_base (snd vs), iov_len = l2\<rparr>)"
  let ?op = "op\<lparr>iop_iov := ?iov, iop_len := l1 + l2\<rparr>"
  have made: "view_op (through_int ?b1) (through_int ?b2) (iov_base (fst vs)) (iov_base (snd vs)) max_len op = Inr ?op"
    using sum ok(3) by (auto simp: view_op_def thru Let_def need_def l1_def l2_def word_eq_unat)
  have "vec_addrs ?iov = take (asked max_len n) (vec_addrs vs)"
    using take_vec_addrs [OF ok(1) req] u1 u2
    by (simp add: vec_addrs_def seg_addrs_prefix same k)
  moreover have "vec_addrs (passed_iov ?op) = vec_addrs ?iov" "iovs_room (passed_iov ?op) = unat l1 + unat l2"
    by (auto simp: passed_iov_def iovs_room_def vec_addrs_def word_gt_0 seg_addrs_def split: iov_base.splits)
  ultimately have "views ?op vs (asked max_len n)"
    using ru(3,4) by (simp add: views_def same k)
  with made show ?thesis by (intro exI [of _ ?op]) simp
qed

lemma view_op_nothing:
  assumes "vec_ok vs 0"
  shows "view_op (through_int (iov_len (fst vs))) (through_int (iov_len (snd vs))) p1 p2 max_len op = Inl EAGAIN"
proof -
  have "iov_len (fst vs) = 0" "iov_len (snd vs) = 0"
    using assms by (auto simp: vec_ok_def word_eq_unat)
  then show ?thesis by (simp add: view_op_def through_int_id)
qed

lemma view_op_Inr:
  assumes "vec_ok vs n" "n < 2 ^ 31"
    "view_op (through_int (iov_len (fst vs))) (through_int (iov_len (snd vs)))
      (iov_base (fst vs)) (iov_base (snd vs)) max_len op = Inr op'"
  shows "0 < n" "views op' vs (asked max_len n)" "iop_kind op' = iop_kind op"
proof -
  show n: "0 < n" using assms view_op_nothing [of vs] by (cases "n = 0") auto
  show "views op' vs (asked max_len n)" "iop_kind op' = iop_kind op"
    using view_op_views [OF assms(1,2) n, of max_len op] assms(3) by auto
qed

lemma settle_count:
  assumes "unat (iop_len op) = n" "k \<le> n"
  shows "iop_res (settle (int k) er op) = int k"
    "iop_state (settle (int k) er op) = (if k = n then VK_IO_OP_DONE else VK_IO_OP_NEEDS_POLL)"
    "iop_err (settle (int k) er op) = (if k = n then 0 else EAGAIN)"
proof -
  have "k < 2 ^ 64" using assms unat_lt64 [of "iop_len op"] by linarith
  then have "(of_int (int k) :: size_t) < iop_len op \<longleftrightarrow> k < n"
    using assms(1) by (simp add: word_less_nat_alt unat_of_nat_exact)
  then show "iop_res (settle (int k) er op) = int k"
    "iop_state (settle (int k) er op) = (if k = n then VK_IO_OP_DONE else VK_IO_OP_NEEDS_POLL)"
    "iop_err (settle (int k) er op) = (if k = n then 0 else EAGAIN)"
    using assms(2) by (auto simp: settle_def Let_def)
qed

lemma asked_le: "asked max_len n \<le> n"
  by (simp add: asked_def)

lemma small_length: "k \<le> n \<Longrightarrow> n < 2 ^ 31 \<Longrightarrow> unat (of_int (int k) :: size_t) = k"
  by (rule of_int_length) simp

text \<open>A write operation built from the filled part of a ring, executed, and applied to the ring
  sends exactly the oldest bytes, as many as the operating system took and no more than
  the operation asked for; the ring keeps the others in order, and the operation is done when
  all it asked for went out and waits for readiness otherwise.\<close>

theorem io_write_op_sends_prefix:
  assumes "ring_wf r" "unat (buf_len r) < 2 ^ 31"
    "vk_io_op_from_tx_ring r max_len op = Inr op1" "iop_kind op = VK_IO_WRITE" "ans_writev ans = Inr n"
    "vk_io_exec_rw ans m op1 = (res, m', wire, op2)" "vk_io_apply_tx e r (iop_res op2) = (rc, e', r')"
  shows "let k = min n (asked max_len (length (ring_data m r))) in
    wire = take k (ring_data m r) \<and> ring_data m' r' = drop k (ring_data m r) \<and> ring_wf r' \<and>
    rc = int k \<and> iop_state op2 =
      (if k = asked max_len (length (ring_data m r)) then VK_IO_OP_DONE else VK_IO_OP_NEEDS_POLL)"
proof -
  let ?N = "unat (tx_len r)" let ?a = "asked max_len ?N" let ?k = "min n ?a"
  have small: "?N < 2 ^ 31" using ring_wfD(4) [OF assms(1)] assms(2) by linarith
  note v = view_op_Inr [OF vec_ok_tx [OF assms(1)] small assms(3) [unfolded vk_io_op_from_tx_ring_def
      vk_vectoring_tx_buf1_len_def vk_vectoring_tx_buf2_len_def]]
  have "writev m (passed_iov op1) (Inr n) = (int ?k, map m (take n (take ?a (tx_addrs r))))"
    using v(2) by (simp add: writev_def views_def vec_addrs_tx [OF assms(1)])
  then have ex: "m' = m" "wire = take ?k (ring_data m r)" "op2 = settle (int ?k) 0 op1"
    using assms(4-6) v(3)
    by (auto simp: vk_io_exec_rw_def readv_errno_def ring_data_def take_map min.commute)
  have len: "unat (iop_len op1) = ?a" using v(2) by (simp add: views_def)
  note st = settle_count [OF len min.cobounded2, of n 0]
  have k: "unat (of_int (int ?k) :: size_t) = ?k"
    by (rule small_length [OF _ small]) (use asked_le [of max_len ?N] in linarith)
  then have le: "unat (of_int (int ?k) :: size_t) \<le> ?N" using asked_le [of max_len ?N] by linarith
  have "r' = vk_vectoring_mark_sent r (of_int (int ?k))" "rc = int ?k"
    using assms(7) ex(3) st(1) by (auto simp: vk_io_apply_tx_def vk_vectoring_signed_sent_def)
  then show ?thesis
    using mark_sent_ok(1) [OF assms(1) le] mark_sent_data [OF assms(1) le, of m] ex st(2) k
    by (simp add: Let_def)
qed

theorem io_write_op_sends_prefix_witness:
  "case vk_io_op_from_tx_ring wrapped_ring 2 (vk_io_op_init\<lparr>iop_kind := VK_IO_WRITE\<rparr>) of
     Inl _ \<Rightarrow> False
   | Inr op1 \<Rightarrow>
       (case vk_io_exec_rw \<lparr>ans_readv = Inr [], ans_writev = Inr 1\<rparr> (\<lambda>x. ucast x) op1 of
          (res, m', wire, op2) \<Rightarrow>
            wire = [102] \<and> iop_state op2 = VK_IO_OP_NEEDS_POLL \<and>
            ring_data m' (snd (snd (vk_io_apply_tx 0 wrapped_ring (iop_res op2)))) = [103, 100])"
proof -
  let ?op = "vk_io_op_init\<lparr>iop_kind := VK_IO_WRITE\<rparr>"
  let ?ans = "\<lparr>ans_readv = Inr [], ans_writev = Inr 1\<rparr> :: io_answers"
  have b: "unat (buf_len wrapped_ring) < 2 ^ 31" "unat (tx_len wrapped_ring) = 3"
    by (simp_all add: wrapped_ring_def)
  obtain op1 where o: "vk_io_op_from_tx_ring wrapped_ring 2 ?op = Inr op1"
    using view_op_views [OF vec_ok_tx [OF wrapped_ring_wf(1)], of 2 ?op] b(2)
    by (auto simp: vk_io_op_from_tx_ring_def vk_vectoring_tx_buf1_len_def vk_vectoring_tx_buf2_len_def)
  obtain res m' wire op2 where x: "vk_io_exec_rw ?ans (\<lambda>x. ucast x) op1 = (res, m', wire, op2)"
    by (metis prod.exhaust)
  obtain rc e' r' where y: "vk_io_apply_tx 0 wrapped_ring (iop_res op2) = (rc, e', r')"
    by (metis prod.exhaust)
  have "iop_kind ?op = VK_IO_WRITE" "ans_writev ?ans = Inr 1" by simp_all
  from io_write_op_sends_prefix [OF wrapped_ring_wf(1) b(1) o this x y]
  show ?thesis
    unfolding o sum.case x prod.case y snd_conv by (simp add: asked_def b(2) wrapped_ring_wf Let_def)
qed

text \<open>A read operation built from the free part of a ring, executed, and applied to the ring appends
  to it exactly the bytes that the operating system had to give, up to what the operation asked
  for.\<close>

theorem io_read_op_appends:
  assumes "ring_wf r" "unat (buf_len r) < 2 ^ 31"
    "vk_io_op_from_rx_ring r max_len op = Inr op1" "iop_kind op = VK_IO_READ" "ans_readv ans = Inr avail"
    "vk_io_exec_rw ans m op1 = (res, m', wire, op2)" "vk_io_apply_rx e r (iop_res op2) = (rc, e', r')"
  shows "let bs = take (asked max_len (ring_free r)) avail in
    ring_data m' r' = ring_data m r @ bs \<and> ring_wf r' \<and> rc = int (length bs) \<and>
    iop_state op2 =
      (if length bs = asked max_len (ring_free r) then VK_IO_OP_DONE else VK_IO_OP_NEEDS_POLL)"
proof -
  let ?a = "asked max_len (ring_free r)" let ?bs = "take ?a avail" let ?n = "of_int (int (length ?bs)) :: size_t"
  have small: "ring_free r < 2 ^ 31" using assms(2) by (simp add: ring_free_def)
  note v = view_op_Inr [OF vec_ok_rx [OF assms(1)] small assms(3) [unfolded vk_io_op_from_rx_ring_def
      vk_vectoring_rx_buf1_len_def vk_vectoring_rx_buf2_len_def]]
  have le: "length ?bs \<le> ?a" by simp
  have "readv m (passed_iov op1) (Inr avail) = (int (length ?bs), scatter m (take (length ?bs) (rx_addrs r)) ?bs)"
    using v(2) le by (simp add: readv_def views_def vec_addrs_rx [OF assms(1)] Let_def min_absorb1)
  then have ex: "m' = scatter m (take (length ?bs) (rx_addrs r)) ?bs" "op2 = settle (int (length ?bs)) 0 op1"
    using assms(4-6) v(3) by (auto simp: vk_io_exec_rw_def readv_errno_def)
  have len: "unat (iop_len op1) = ?a" using v(2) by (simp add: views_def)
  note st = settle_count [OF len le, of 0]
  have n: "unat ?n = length ?bs"
    by (rule small_length [OF _ small]) (use le asked_le [of max_len "ring_free r"] in linarith)
  then have fit: "unat ?n \<le> ring_free r" using le asked_le [of max_len "ring_free r"] by linarith
  have r': "r' = vk_vectoring_mark_received r ?n" "rc = int (length ?bs)"
    using assms(7) ex(2) st(1) by (auto simp: vk_io_apply_rx_def vk_vectoring_signed_received_def)
  have "ring_data m' r' = ring_data m r @ ?bs"
    using mark_received_data [OF assms(1) fit, of ?bs m] n by (simp only: ex(1) r'(1))
  then show ?thesis
    using mark_received_ok(1) [OF assms(1) fit] r' st(2) ex(2) by (simp only: Let_def)
qed

theorem io_read_op_appends_witness:
  "case vk_io_op_from_rx_ring wrapped_ring 0 vk_io_op_init of
     Inl _ \<Rightarrow> False
   | Inr op1 \<Rightarrow>
       (case vk_io_exec_rw \<lparr>ans_readv = Inr [7, 8], ans_writev = Inr 0\<rparr> (\<lambda>x. ucast x) op1 of
          (res, m', wire, op2) \<Rightarrow>
            iop_state op2 = VK_IO_OP_DONE \<and>
            ring_data m' (snd (snd (vk_io_apply_rx 0 wrapped_ring (iop_res op2)))) = [102, 103, 100, 7])"
proof -
  let ?ans = "\<lparr>ans_readv = Inr [7, 8], ans_writev = Inr 0\<rparr> :: io_answers"
  have b: "unat (buf_len wrapped_ring) < 2 ^ 31" "ring_free wrapped_ring = 1"
    by (simp_all add: wrapped_ring_def ring_free_def)
  obtain op1 where o: "vk_io_op_from_rx_ring wrapped_ring 0 vk_io_op_init = Inr op1"
    using view_op_views [OF vec_ok_rx [OF wrapped_ring_wf(1)], of 0 vk_io_op_init] b(2)
    by (auto simp: vk_io_op_from_rx_ring_def vk_vectoring_rx_buf1_len_def vk_vectoring_rx_buf2_len_def)
  obtain res m' wire op2 where x: "vk_io_exec_rw ?ans (\<lambda>x. ucast x) op1 = (res, m', wire, op2)"
    by (metis prod.exhaust)
  obtain rc e' r' where y: "vk_io_apply_rx 0 wrapped_ring (iop_res op2) = (rc, e', r')"
    by (metis prod.exhaust)
  have "iop_kind vk_io_op_init = VK_IO_READ" "ans_readv ?ans = Inr [7, 8]" by (simp_all add: vk_io_op_init_def)
  from io_read_op_appends [OF wrapped_ring_wf(1) b(1) o this x y]
  show ?thesis
    unfolding o sum.case x prod.case y snd_conv by (simp add: asked_def b(2) wrapped_ring_wf Let_def)
qed

subsection \<open>A batch takes the head of every queue\<close>

definition io_ok :: "addr set \<Rightarrow> io_world \<Rightarrow> (addr \<Rightarrow> addr list) \<Rightarrow> bool" where
  "io_ok Q w c \<longleftrightarrow>
     (\<forall>q \<in> Q. tailq (io_queues w q, io_links w) (c q)) \<and>
     (\<forall>q \<in> Q. \<forall>q' \<in> Q. q \<noteq> q' \<longrightarrow> set (c q) \<inter> set (c q') = {})"

lemma tailq_apart:
  assumes "tailq (q1, l) (e # es)" "tailq (q2, l) ys" "set (e # es) \<inter> set ys = {}"
    "tailq_remove e (q1, l) = (q1', l')"
  shows "tailq (q2, l') ys"
proof -
  from assms(1) have c: "chain (q1, l) First_Slot ([] @ e # es)" "distinct (e # es)"
    by (simp_all add: tailq_def)
  from chain_at [OF c(1)] have l: "tqe_prev (snd (q1, l)) e = First_Slot"
      "tqe_next (snd (q1, l)) e = (case es of [] \<Rightarrow> None | n # _ \<Rightarrow> Some n)" by simp_all
  have "(case es of [] \<Rightarrow> None | n # _ \<Rightarrow> Some n) \<noteq> Some e" using c(2) by (cases es) auto
  note r = remove_links [OF l this]
  have "tqe_next l' y = tqe_next l y \<and> tqe_prev l' y = tqe_prev l y" if "y \<in> set ys" for y
    using r(1) [of "Next_Slot y"] r(3) that assms(3,4) by (cases es) auto
  then have "chain (q2, l') First_Slot ys = chain (q2, l) First_Slot ys"
    by (intro chain_cong) simp_all
  then show ?thesis using assms(2) by (simp add: tailq_def)
qed

lemma io_pop_ok:
  assumes "io_ok Q w c" "q \<in> Q"
  shows "\<exists>w1. io_pop q w = ((case c q of [] \<Rightarrow> None | e # _ \<Rightarrow> Some e), w1) \<and>
    io_ok Q w1 (c(q := tl (c q))) \<and> io_ops w1 = io_ops w \<and> io_mem w1 = io_mem w \<and> io_wire w1 = io_wire w"
proof (cases "c q")
  case Nil
  then have "tailq (io_queues w q, io_links w) []" using assms by (auto simp: io_ok_def)
  then have "io_pop q w = (None, w)" by (simp add: io_pop_def tailq_pop_empty)
  moreover have "c(q := tl (c q)) = c" using Nil by auto
  ultimately show ?thesis using assms(1) Nil by simp
next
  case (Cons e es)
  have t: "tailq (io_queues w q, io_links w) (e # es)" using assms Cons by (auto simp: io_ok_def)
  obtain q' l' where rem: "tailq_remove e (io_queues w q, io_links w) = (q', l')" by (metis prod.exhaust)
  from tailq_pop [OF t] tailq_remove [OF t, of e] rem
  have pop: "vk_io_queue_pop (io_queues w q, io_links w) = (Some e, q', l')" "tailq (q', l') es"
    using tailq_first [OF t] by (simp_all add: vk_io_queue_pop_def)
  let ?w = "w\<lparr>io_queues := (io_queues w)(q := q'), io_links := l'\<rparr>"
  have other: "tailq (io_queues w p, l') (c p)" if "p \<in> Q" "p \<noteq> q" for p
  proof (rule tailq_apart [OF t _ _ rem])
    show "tailq (io_queues w p, io_links w) (c p)" "set (e # es) \<inter> set (c p) = {}"
      using assms that Cons unfolding io_ok_def by metis+
  qed
  have disj: "set (c a) \<inter> set (c b) = {}" if "a \<in> Q" "b \<in> Q" "a \<noteq> b" for a b
    using assms(1) that by (simp add: io_ok_def)
  have "set es \<inter> set (c b) = {}" "set (c b) \<inter> set es = {}" if "b \<in> Q" "b \<noteq> q" for b
    using disj [OF assms(2) that(1)] that(2) Cons by auto
  then have "io_ok Q ?w (c(q := es))"
    using pop(2) other disj by (simp add: io_ok_def)
  then show ?thesis by (simp add: io_pop_def pop(1) Cons)
qed

definition poll_request :: "vk_io_op \<Rightarrow> pollfd" where
  "poll_request op =
     \<lparr>ev_fd = iop_fd op, ev_events = want_events_for_kind (iop_kind op), ev_revents = 0\<rparr>"

lemma batch_stream_ok:
  assumes "io_ok Q w c" "q \<in> Q"
  shows "\<exists>w1. batch_stream ans (Some q) w =
      ((case c q of [] \<Rightarrow> None
        | e # _ \<Rightarrow> Some (e, if iop_state (io_ops w1 e) = VK_IO_OP_NEEDS_POLL
                         then Some (poll_request (io_ops w1 e)) else None)), w1) \<and>
    io_ok Q w1 (c(q := tl (c q))) \<and> (\<forall>e. e \<notin> set (take 1 (c q)) \<longrightarrow> io_ops w1 e = io_ops w e)"
proof -
  obtain w1 where p: "io_pop q w = ((case c q of [] \<Rightarrow> None | e # _ \<Rightarrow> Some e), w1)"
    "io_ok Q w1 (c(q := tl (c q)))" "io_ops w1 = io_ops w"
    using io_pop_ok [OF assms] by blast
  show ?thesis
  proof (cases "c q")
    case Nil
    then show ?thesis using p by (simp add: batch_stream_def)
  next
    case (Cons e es)
    obtain r m' wire op where x: "vk_io_exec_rw ans (io_mem w1) (io_ops w1 e) = (r, m', wire, op)"
      by (metis prod.exhaust)
    let ?w = "w1\<lparr>io_mem := m', io_wire := (io_wire w1)(iop_fd op := io_wire w1 (iop_fd op) @ wire), io_ops := (io_ops w1)(e := op)\<rparr>"
    have "io_ok Q ?w (c(q := tl (c q)))" using p(2) by (simp add: io_ok_def)
    then show ?thesis
      using p(1,3) Cons x by (intro exI [of _ ?w]) (simp add: batch_stream_def poll_request_def)
  qed
qed

definition stream_queues :: "addr option list \<Rightarrow> addr list" where
  "stream_queues streams = map the (filter (\<lambda>q. q \<noteq> None) streams)"

lemma batch_loop_ok:
  assumes "io_ok Q w c" "distinct (stream_queues streams)" "set (stream_queues streams) \<subseteq> Q"
    "batch_loop ans i streams w = (completed, needs, w')"
  shows "completed = map (\<lambda>q. hd (c q)) (filter (\<lambda>q. c q \<noteq> []) (stream_queues streams)) \<and>
    io_ok Q w' (\<lambda>q. if q \<in> set (stream_queues streams) then tl (c q) else c q) \<and>
    needs = map (\<lambda>e. poll_request (io_ops w' e))
      (filter (\<lambda>e. iop_state (io_ops w' e) = VK_IO_OP_NEEDS_POLL) completed) \<and>
    (\<forall>e. (\<forall>q \<in> set (stream_queues streams). e \<notin> set (take 1 (c q))) \<longrightarrow> io_ops w' e = io_ops w e)"
  using assms
proof (induction streams arbitrary: i w c completed needs w')
  case Nil
  then show ?case by (simp add: stream_queues_def)
next
  case (Cons s streams)
  show ?case
  proof (cases s)
    case None
    then have "batch_loop ans (Suc i) streams w = (completed, needs, w')"
      using Cons.prems(4) by (simp add: batch_stream_def split: prod.splits)
    from Cons.IH [OF Cons.prems(1) _ _ this] Cons.prems(2,3) show ?thesis
      using None by (simp add: stream_queues_def)
  next
    case (Some q)
    let ?sq = "stream_queues streams"
    have sq: "stream_queues (s # streams) = q # ?sq" by (simp add: stream_queues_def Some)
    have q: "q \<in> Q" "q \<notin> set ?sq" "distinct ?sq" "set ?sq \<subseteq> Q" using Cons.prems(2,3) sq by auto
    let ?c = "c(q := tl (c q))"
    obtain w1 where w1: "batch_stream (ans i) (Some q) w =
        ((case c q of [] \<Rightarrow> None
          | e # _ \<Rightarrow> Some (e, if iop_state (io_ops w1 e) = VK_IO_OP_NEEDS_POLL
                           then Some (poll_request (io_ops w1 e)) else None)), w1)"
      "io_ok Q w1 ?c" "\<forall>e. e \<notin> set (take 1 (c q)) \<longrightarrow> io_ops w1 e = io_ops w e"
      using batch_stream_ok [OF Cons.prems(1) q(1)] by blast
    obtain cs ns w2 where rest: "batch_loop ans (Suc i) streams w1 = (cs, ns, w2)"
      by (metis prod.exhaust)
    have c: "?c p = c p" if "p \<in> set ?sq" for p using that q(2) by auto
    have heads: "map (\<lambda>q. hd (?c q)) (filter (\<lambda>q. ?c q \<noteq> []) ?sq) = map (\<lambda>q. hd (c q)) (filter (\<lambda>q. c q \<noteq> []) ?sq)"
      using q(2) by (intro map_cong filter_cong) auto
    have left: "(\<lambda>p. if p \<in> set ?sq then tl (?c p) else ?c p) =
        (\<lambda>p. if p \<in> set (q # ?sq) then tl (c p) else c p)"
      using q(2) by auto
    note I = Cons.IH [OF w1(2) q(3,4) rest, unfolded heads left]
    then have ih: "cs = map (\<lambda>q. hd (c q)) (filter (\<lambda>q. c q \<noteq> []) ?sq)"
      "io_ok Q w2 (\<lambda>p. if p \<in> set (q # ?sq) then tl (c p) else c p)"
      "ns = map (\<lambda>e. poll_request (io_ops w2 e)) (filter (\<lambda>e. iop_state (io_ops w2 e) = VK_IO_OP_NEEDS_POLL) cs)"
      by blast+
    have ih4: "io_ops w2 e = io_ops w1 e" if "\<forall>p \<in> set ?sq. e \<notin> set (take 1 (c p))" for e
    proof -
      have "\<forall>p \<in> set ?sq. e \<notin> set (take 1 (?c p))" using that c by metis
      then show ?thesis using I by blast
    qed
    have kept: "io_ops w2 e = io_ops w1 e" if "e \<in> set (c q)" for e
    proof -
      have "e \<notin> set (take 1 (c p))" if "p \<in> set ?sq" for p
      proof -
        have "p \<in> Q" "q \<noteq> p" using q(2,4) that by auto
        then have "set (c q) \<inter> set (c p) = {}"
          using Cons.prems(1) q(1) unfolding io_ok_def by simp
        then show ?thesis using in_set_takeD [of e 1 "c p"] \<open>e \<in> set (c q)\<close> by blast
      qed
      then show ?thesis using ih4 by blast
    qed
    show ?thesis
    proof (cases "c q")
      case Nil
      then have "completed = cs \<and> w' = w2 \<and> needs = ns"
        using Cons.prems(4) Some w1(1) rest by auto
      moreover have "io_ops w2 x = io_ops w x" if "\<forall>p \<in> set (q # ?sq). x \<notin> set (take 1 (c p))" for x
        using that ih4 [of x] w1(3) by simp
      ultimately show ?thesis using Nil ih unfolding sq by simp
    next
      case (Cons e es)
      then have k: "io_ops w2 e = io_ops w1 e" by (intro kept) simp
      have o: "io_ops w2 x = io_ops w x" if "\<forall>p \<in> set (q # ?sq). x \<notin> set (take 1 (c p))" for x
        using that ih4 [of x] w1(3) by simp
      have "completed = e # cs \<and> w' = w2 \<and>
        needs = (if iop_state (io_ops w2 e) = VK_IO_OP_NEEDS_POLL then poll_request (io_ops w2 e) # ns else ns)"
        using Cons.prems(4) Some w1(1) rest Cons by (auto simp: k split: if_splits)
      then show ?thesis using Cons ih o unfolding sq by simp
    qed
  qed
qed

subsection \<open>What a batch does\<close>

text \<open>The outcome of the call for an operation: the error, or how many bytes were transferred.\<close>

definition transfer :: "io_answers \<Rightarrow> vk_io_op \<Rightarrow> errno + nat" where
  "transfer ans op =
     (if iop_kind op = VK_IO_READ then map_sum id (\<lambda>bs. min (length bs) (iovs_room (iop_iov op))) (ans_readv ans)
      else map_sum id (\<lambda>n. min n (iovs_room (iop_iov op))) (ans_writev ans))"

text \<open>The operation after it: finished if all of its length was transferred.\<close>

definition finished_op :: "io_answers \<Rightarrow> vk_io_op \<Rightarrow> vk_io_op" where
  "finished_op ans op =
     (if iop_kind op \<noteq> VK_IO_READ \<and> iop_kind op \<noteq> VK_IO_WRITE then op
      else case transfer ans op of
        Inl e \<Rightarrow> op\<lparr>iop_res := - 1, iop_err := e,
                   iop_state := if e = EAGAIN then VK_IO_OP_NEEDS_POLL else VK_IO_OP_ERROR\<rparr>
      | Inr k \<Rightarrow> if k < unat (iop_len op)
                 then op\<lparr>iop_res := int k, iop_err := EAGAIN, iop_state := VK_IO_OP_NEEDS_POLL\<rparr>
                 else op\<lparr>iop_res := int k, iop_err := 0, iop_state := VK_IO_OP_DONE\<rparr>)"

text \<open>Memory and wire after it: a read spreads its bytes over the view, a write appends those of the view.\<close>

definition moved :: "io_answers \<Rightarrow> vk_io_op \<Rightarrow> mem \<times> (int \<Rightarrow> byte list) \<Rightarrow> mem \<times> (int \<Rightarrow> byte list)" where
  "moved ans op = (\<lambda>(m, wire).
     case (iop_kind op, ans_readv ans, ans_writev ans) of
       (VK_IO_READ, Inr bs, _) \<Rightarrow> (scatter m (vec_addrs (iop_iov op)) (take (iovs_room (iop_iov op)) bs), wire)
     | (VK_IO_WRITE, _, Inr n) \<Rightarrow>
         (m, wire(iop_fd op := wire (iop_fd op) @ map m (take n (vec_addrs (iop_iov op)))))
     | _ \<Rightarrow> (m, wire))"

text \<open>Which stream has which operation executed.\<close>

fun io_plan :: "(addr \<Rightarrow> addr list) \<Rightarrow> nat \<Rightarrow> addr option list \<Rightarrow> (nat \<times> addr) list" where
  "io_plan c i [] = []"
| "io_plan c i (None # streams) = io_plan c (Suc i) streams"
| "io_plan c i (Some q # streams) =
     (if c q = [] then io_plan c (Suc i) streams else (i, hd (c q)) # io_plan c (Suc i) streams)"

lemma passed_same:
  "iovs_room (passed_iov op) = iovs_room (iop_iov op)" "vec_addrs (passed_iov op) = vec_addrs (iop_iov op)"
  by (auto simp: passed_iov_def iovs_room_def vec_addrs_def seg_addrs_def word_gt_0 split: iov_base.splits)

lemma scatter_take: "scatter m (take (length bs) as) bs = scatter m as bs"
proof -
  have "zip (take (length bs) as) bs = zip as bs"
    by (induction bs arbitrary: as) (simp, case_tac as, simp_all)
  then show ?thesis by (simp add: scatter_def)
qed

lemma exec_finishes:
  assumes "iovs_room (iop_iov op) < 2 ^ 63"
  shows "\<exists>rc m' sent. vk_io_exec_rw ans m op = (rc, m', sent, finished_op ans op) \<and>
    moved ans op (m, wire) = (m', wire(iop_fd op := wire (iop_fd op) @ sent))"
proof -
  have small: "(of_int (int k) :: size_t) < n \<longleftrightarrow> k < unat n" if "k \<le> iovs_room (iop_iov op)" for k n
    using assms that by (simp add: word_less_nat_alt unat_of_nat_exact)
  have set: "settle (int k) e op = (if k < unat (iop_len op)
      then op\<lparr>iop_res := int k, iop_err := EAGAIN, iop_state := VK_IO_OP_NEEDS_POLL\<rparr>
      else op\<lparr>iop_res := int k, iop_err := 0, iop_state := VK_IO_OP_DONE\<rparr>)" if "k \<le> iovs_room (iop_iov op)" for k e
    using small [OF that] by (simp add: settle_def Let_def)
  have failed: "settle (- 1) e op = op\<lparr>iop_res := - 1, iop_err := e,
      iop_state := if e = EAGAIN then VK_IO_OP_NEEDS_POLL else VK_IO_OP_ERROR\<rparr>" for e
    by (simp add: settle_def Let_def)
  show ?thesis
  proof (cases "iop_kind op")
    case VK_IO_READ
    then show ?thesis
      by (cases "ans_readv ans")
        (simp_all add: vk_io_exec_rw_def readv_def readv_errno_def moved_def finished_op_def transfer_def passed_same set
          scatter_take failed set [OF min.cobounded1] min.commute [of "length _"] Let_def)
  next
    case VK_IO_WRITE
    then show ?thesis
      by (cases "ans_writev ans")
        (simp_all add: vk_io_exec_rw_def writev_def readv_errno_def moved_def finished_op_def transfer_def passed_same set
          failed)
  qed (simp_all add: vk_io_exec_rw_def moved_def finished_op_def)
qed

lemma batch_stream_exec:
  assumes "io_ok Q w c" "q \<in> Q" "\<And>e. e \<in> set (c q) \<Longrightarrow> iovs_room (iop_iov (io_ops w e)) < 2 ^ 63"
    "batch_stream ans (Some q) w = (taken, w1)"
  shows "if c q = [] then io_ops w1 = io_ops w \<and> io_mem w1 = io_mem w \<and> io_wire w1 = io_wire w
    else io_ops w1 = (io_ops w)(hd (c q) := finished_op ans (io_ops w (hd (c q)))) \<and>
      (io_mem w1, io_wire w1) = moved ans (io_ops w (hd (c q))) (io_mem w, io_wire w)"
proof -
  obtain w2 where p: "io_pop q w = ((case c q of [] \<Rightarrow> None | e # _ \<Rightarrow> Some e), w2)"
    "io_ops w2 = io_ops w" "io_mem w2 = io_mem w" "io_wire w2 = io_wire w"
    using io_pop_ok [OF assms(1,2)] by blast
  show ?thesis
  proof (cases "c q")
    case Nil
    then show ?thesis using p assms(4) by (auto simp: batch_stream_def)
  next
    case (Cons e es)
    have fd: "iop_fd (finished_op ans op) = iop_fd op" for op
      by (auto simp: finished_op_def split: sum.splits)
    have "iovs_room (iop_iov (io_ops w e)) < 2 ^ 63" using assms(3) Cons by simp
    from exec_finishes [OF this, of ans "io_mem w" "io_wire w"] p Cons assms(4) show ?thesis
      by (auto simp: batch_stream_def fd)
  qed
qed

lemma plan_in_queues: "(j, e) \<in> set (io_plan c i streams) \<Longrightarrow> \<exists>q \<in> set (stream_queues streams). e \<in> set (c q)"
  by (induction c i streams rule: io_plan.induct) (auto simp: stream_queues_def split: if_splits)

lemma plan_heads:
  "map snd (io_plan c i streams) = map (\<lambda>q. hd (c q)) (filter (\<lambda>q. c q \<noteq> []) (stream_queues streams))"
  by (induction c i streams rule: io_plan.induct) (simp_all add: stream_queues_def)

lemma plan_cong: "(\<And>q. q \<in> set (stream_queues streams) \<Longrightarrow> c q = c' q) \<Longrightarrow> io_plan c i streams = io_plan c' i streams"
  by (induction c i streams rule: io_plan.induct) (auto simp: stream_queues_def)

definition within :: "addr set \<Rightarrow> (addr \<Rightarrow> addr list) \<Rightarrow> io_world \<Rightarrow> bool" where
  "within Q c w \<longleftrightarrow> (\<forall>q \<in> Q. \<forall>e \<in> set (c q). iovs_room (iop_iov (io_ops w e)) < 2 ^ 63)"

lemma batch_loop_exec:
  assumes "io_ok Q w c" "distinct (stream_queues streams)" "set (stream_queues streams) \<subseteq> Q" "within Q c w"
    "batch_loop ans i streams w = (completed, needs, w')"
  shows "(\<forall>(j, e) \<in> set (io_plan c i streams). io_ops w' e = finished_op (ans j) (io_ops w e)) \<and>
    (io_mem w', io_wire w') = fold (\<lambda>(j, e). moved (ans j) (io_ops w e)) (io_plan c i streams) (io_mem w, io_wire w)"
  using assms
proof (induction streams arbitrary: i w c completed needs w')
  case Nil
  then show ?case by simp
next
  case (Cons s streams)
  show ?case
  proof (cases s)
    case None
    then have "batch_loop ans (Suc i) streams w = (completed, needs, w')"
      using Cons.prems(5) by (simp add: batch_stream_def split: prod.splits)
    from Cons.IH [OF Cons.prems(1) _ _ Cons.prems(4) this] Cons.prems(2,3) show ?thesis
      using None by (simp add: stream_queues_def)
  next
    case (Some q)
    let ?sq = "stream_queues streams"
    have sq: "stream_queues (s # streams) = q # ?sq" by (simp add: stream_queues_def Some)
    have q: "q \<in> Q" "q \<notin> set ?sq" "distinct ?sq" "set ?sq \<subseteq> Q" using Cons.prems(2,3) sq by auto
    let ?c = "c(q := tl (c q))"
    obtain taken w1 where w1: "batch_stream (ans i) (Some q) w = (taken, w1)" by fastforce
    obtain cs ns where rest: "batch_loop ans (Suc i) streams w1 = (cs, ns, w')"
      using Cons.prems(5) w1 Some by (auto simp: split: prod.splits option.splits)
    have ok1: "io_ok Q w1 ?c" using batch_stream_ok [OF Cons.prems(1) q(1), of "ans i"] w1 by auto
    note x = batch_stream_exec [OF Cons.prems(1) q(1) _ w1]
    have room: "\<And>e. e \<in> set (c q) \<Longrightarrow> iovs_room (iop_iov (io_ops w e)) < 2 ^ 63"
      using Cons.prems(4) q(1) by (simp add: within_def)
    note x = x [OF this]
    have apart: "set (c q) \<inter> set (c p) = {}" if "p \<in> Q" "p \<noteq> q" for p
      using Cons.prems(1) q(1) that unfolding io_ok_def by metis
    have same: "io_ops w1 e = io_ops w e" if "e \<in> set (c p)" "p \<in> Q" "p \<noteq> q" for e p
      using x apart [OF that(2,3)] that(1) by (cases "c q") auto
    have iov: "iop_iov (finished_op a op) = iop_iov op" for a op
      by (auto simp: finished_op_def split: sum.splits)
    have views: "iop_iov (io_ops w1 e) = iop_iov (io_ops w e)" for e
      using x by (auto simp: iov split: if_splits)
    have within1: "within Q ?c w1"
    proof -
      have "set (tl (c q)) \<subseteq> set (c q)" by (cases "c q") auto
      then show ?thesis using views Cons.prems(4)
        by (auto simp: within_def)
    qed
    have plan: "io_plan ?c (Suc i) streams = io_plan c (Suc i) streams"
      using q(2) by (intro plan_cong) auto
    let ?plan = "io_plan c (Suc i) streams"
    note ih = Cons.IH [OF ok1 q(3,4) within1 rest, unfolded plan]
    have keep: "io_ops w1 e = io_ops w e" if "(j, e) \<in> set ?plan" for j e
      using plan_in_queues [OF that] q(2,4) same by blast
    then have ops: "\<forall>(j, e) \<in> set ?plan. io_ops w' e = finished_op (ans j) (io_ops w e)"
      using ih by (metis (mono_tags, lifting) case_prodD case_prodI2)
    have "fold (\<lambda>(j, e). moved (ans j) (io_ops w1 e)) ?plan z = fold (\<lambda>(j, e). moved (ans j) (io_ops w e)) ?plan z" for z
      by (rule fold_cong) (auto simp: keep)
    then have effect: "(io_mem w', io_wire w') = fold (\<lambda>(j, e). moved (ans j) (io_ops w e)) ?plan (io_mem w1, io_wire w1)"
      using ih by (metis (no_types))
    show ?thesis
    proof (cases "c q")
      case Nil
      then have "io_mem w1 = io_mem w" "io_wire w1 = io_wire w" using x by simp_all
      then show ?thesis using Nil Some ops effect by simp
    next
      case (Cons e es)
      have "io_ops w' e = io_ops w1 e"
      proof -
        have "e \<notin> set (take 1 (?c p))" if "p \<in> set ?sq" for p
          using apart [of p] q(2,4) that Cons in_set_takeD [of e 1 "c p"] by auto
        then show ?thesis using batch_loop_ok [OF ok1 q(3,4) rest] by blast
      qed
      then have "io_ops w' e = finished_op (ans i) (io_ops w e)" using x Cons by simp
      moreover have "(io_mem w1, io_wire w1) = moved (ans i) (io_ops w e) (io_mem w, io_wire w)" using x Cons by simp
      ultimately show ?thesis using Cons Some ops effect by simp
    qed
  qed
qed

text \<open>C36: One batch over several streams takes exactly the oldest operation of every stream that has one and none from
  the others, and executes them in the order of the streams. An operation whose call failed reports the error, and one
  whose call transferred bytes their number; it is finished exactly when that is its whole length. The bytes
  received are those in memory, spread over the vectors of their operation, and the bytes sent on a descriptor are
  those of the views of its operations at their turn. The batch asks for readiness of exactly the operations with a
  short transfer or a full socket; all the others stay queued in order and are not touched.\<close>

theorem io_batch_takes_heads:
  assumes "io_ok Q w c" "distinct (stream_queues streams)" "set (stream_queues streams) \<subseteq> Q" "within Q c w"
    "vk_io_batch_sync_run ans streams w = (n, completed, needs, w')"
  defines "plan \<equiv> io_plan c 0 streams"
  shows "completed = map snd plan \<and> n = length plan \<and>
    (\<forall>(i, e) \<in> set plan. io_ops w' e = finished_op (ans i) (io_ops w e)) \<and>
    (\<forall>e. e \<notin> set completed \<longrightarrow> io_ops w' e = io_ops w e) \<and>
    (io_mem w', io_wire w') = fold (\<lambda>(i, e). moved (ans i) (io_ops w e)) plan (io_mem w, io_wire w) \<and>
    needs = map poll_request (filter (\<lambda>op. iop_state op = VK_IO_OP_NEEDS_POLL) (map (io_ops w') completed)) \<and>
    io_ok Q w' (\<lambda>q. if q \<in> set (stream_queues streams) then tl (c q) else c q)"
proof -
  obtain cs ns w2 where b: "batch_loop ans 0 streams w = (cs, ns, w2)" by (metis prod.exhaust)
  then have eq: "cs = completed" "ns = needs" "w2 = w'" "n = length completed"
    using assms(5) by (auto simp: vk_io_batch_sync_run_def)
  note ok = batch_loop_ok [OF assms(1-3) b, unfolded eq(1-3)]
  have compl: "completed = map snd plan" using ok plan_heads [of c 0 streams] by (simp add: plan_def)
  then have n: "n = length plan" using eq(4) by simp
  have "e \<notin> set (take 1 (c q))" if "e \<notin> set completed" "q \<in> set (stream_queues streams)" for e q
  proof
    assume "e \<in> set (take 1 (c q))"
    then have "e = hd (c q)" "c q \<noteq> []" by (cases "c q"; simp)+
    then have "e \<in> set completed" using ok that(2) by auto
    then show False using that(1) by simp
  qed
  then have "\<forall>e. e \<notin> set completed \<longrightarrow> io_ops w' e = io_ops w e" using ok by blast
  moreover have "needs = map poll_request (filter (\<lambda>op. iop_state op = VK_IO_OP_NEEDS_POLL) (map (io_ops w') completed))"
    using ok by (simp add: filter_map comp_def)
  ultimately show ?thesis
    using batch_loop_exec [OF assms(1-4) b, unfolded eq(3)] ok compl n by (simp add: plan_def)
qed

text \<open>Two streams with one operation each, and one without a queue. The write has two vectors and is taken half, the
  read is answered in full.\<close>

definition two_streams :: io_world where
  "two_streams =
     \<lparr>io_ops = (\<lambda>e. if e = 10
         then vk_io_op_init\<lparr>iop_fd := 5, iop_len := 4, iop_kind := VK_IO_WRITE,
                iop_iov := (\<lparr>iov_base = Base 256, iov_len = 1\<rparr>, \<lparr>iov_base = Base 512, iov_len = 3\<rparr>)\<rparr>
         else vk_io_op_init\<lparr>iop_fd := 6, iop_len := 2,
                iop_iov := (\<lparr>iov_base = Base 768, iov_len = 2\<rparr>, \<lparr>iov_base = Base 0, iov_len = 0\<rparr>)\<rparr>),
      io_queues = (\<lambda>q. \<lparr>tqh_first = Some (q * 10), tqh_last = Next_Slot (q * 10)\<rparr>),
      io_links = \<lparr>tqe_next = (\<lambda>_. None), tqe_prev = (\<lambda>_. First_Slot)\<rparr>, io_mem = (\<lambda>a. ucast (a div 256)), io_wire = (\<lambda>_. [])\<rparr>"

definition two_answers :: "nat \<Rightarrow> io_answers" where
  "two_answers i = \<lparr>ans_readv = Inr [65, 66, 67], ans_writev = Inr 2\<rparr>"

theorem io_batch_takes_heads_witness:
  "case vk_io_batch_sync_run two_answers [Some 1, None, Some 2] two_streams of
     (n, completed, needs, w') \<Rightarrow>
       completed = [10, 20] \<and> n = 2 \<and> io_wire w' 5 = [1, 2] \<and> io_mem w' 769 = 66 \<and>
       iop_state (io_ops w' 20) = VK_IO_OP_DONE \<and> iop_res (io_ops w' 10) = 2 \<and>
       needs = [\<lparr>ev_fd = 5, ev_events = POLLOUT, ev_revents = 0\<rparr>] \<and> io_ok {1, 2} w' (\<lambda>_. [])"
proof -
  have ok: "io_ok {1, 2} two_streams (\<lambda>q. [q * 10])"
    by (simp add: io_ok_def two_streams_def tailq_def)
  let ?st = "[Some 1, None, Some 2] :: addr option list"
  obtain n completed needs w' where run: "vk_io_batch_sync_run two_answers ?st two_streams = (n, completed, needs, w')"
    by (metis prod.exhaust)
  have sq: "stream_queues ?st = [1, 2]" by (simp add: stream_queues_def)
  have st: "distinct (stream_queues ?st)" "set (stream_queues ?st) \<subseteq> {1, 2}" by (simp_all add: sq)
  have small: "within {1, 2} (\<lambda>q. [q * 10]) two_streams"
    by (simp add: within_def two_streams_def iovs_room_def vk_io_op_init_def)
  have plan: "io_plan (\<lambda>q :: addr. [q * 10]) 0 ?st = [(0, 10), (2, 20)]" by simp
  note r = io_batch_takes_heads [OF ok st small run, unfolded plan sq]
  have ops: "io_ops w' 10 = finished_op (two_answers 0) (io_ops two_streams 10)"
      "io_ops w' 20 = finished_op (two_answers 2) (io_ops two_streams 20)" using r by simp_all
  have fin: "finished_op (two_answers 0) (io_ops two_streams 10) =
      (io_ops two_streams 10)\<lparr>iop_res := 2, iop_err := EAGAIN, iop_state := VK_IO_OP_NEEDS_POLL\<rparr>"
      "finished_op (two_answers 2) (io_ops two_streams 20) =
      (io_ops two_streams 20)\<lparr>iop_res := 2, iop_err := 0, iop_state := VK_IO_OP_DONE\<rparr>"
    by (simp_all add: finished_op_def transfer_def two_answers_def two_streams_def iovs_room_def vk_io_op_init_def)
  have "(io_mem w', io_wire w') = moved (two_answers 2) (io_ops two_streams 20)
      (moved (two_answers 0) (io_ops two_streams 10) (io_mem two_streams, io_wire two_streams))" using r by simp
  then have "io_wire w' 5 = [1, 2]" "io_mem w' 769 = 66"
    by (simp_all add: moved_def two_answers_def two_streams_def vk_io_op_init_def iovs_room_def vec_addrs_def seg_addrs_def
        scatter_def upt_rec [of _ 2] upt_rec [of _ 3])
  moreover have "completed = [10, 20]" "n = 2" using r by simp_all
  moreover have "needs = [\<lparr>ev_fd = 5, ev_events = POLLOUT, ev_revents = 0\<rparr>]"
    using r by (simp add: ops fin poll_request_def want_events_for_kind_def) (simp add: two_streams_def)
  moreover have "io_ok {1, 2} w' (\<lambda>_. [])" using r by (simp add: io_ok_def)
  ultimately show ?thesis using run by (simp add: ops fin)
qed

end
