(* ===== verification/Stream_Task.thy ===== *)
theory Stream_Task
  imports C_String
begin

text \<open>
  The protocol coroutines see their sockets as streams: a socket delivers what its peer has
  written, in order, and ends with an end of file; what a coroutine writes is appended to
  its output. This is the view of the blocking macros of src/vk_thread_io.h that their
  comments promise, and that \<open>Thread_IO\<close> proves of reading; for lines it holds when every
  line has arrived in full by the time it is read, since \<open>vk_socket_readline\<close> looks at a byte
  too far otherwise (\<open>Thread_IO\<close>). A coroutine body is a task: a function of its
  stream that returns a value or a fault. Pipes between coroutines carry whole structures
  beside bytes; reading bytes where a structure was written, or the other way round, and
  writing beyond a buffer, are undefined.
\<close>

datatype 'q atom = Byte byte | Struct 'q | Hup

text \<open>\<open>c_in\<close> ends where the peer closes. \<open>c_late\<close> tells, for each call of \<open>vk_nodata\<close>, whether the end of
  file was not seen yet, which depends on the timing of the peer.\<close>

record 'q conn =
  c_in :: "'q atom list"
  c_out :: "'q atom list"
  c_closed :: bool
  c_late :: "bool list"

datatype fault = Raised errno | Undefined | Out_Of_Fuel

type_synonym ('q, 'a) task = "'q conn \<Rightarrow> (fault + 'a) \<times> 'q conn"

definition give :: "'a \<Rightarrow> ('q, 'a) task" where
  "give x = (\<lambda>c. (Inr x, c))"

definition fail :: "fault \<Rightarrow> ('q, 'a) task" where
  "fail f = (\<lambda>c. (Inl f, c))"

abbreviation vk_raise_task :: "errno \<Rightarrow> ('q, 'a) task" where
  "vk_raise_task e \<equiv> fail (Raised e)"

definition andThen :: "('q, 'a) task \<Rightarrow> ('a \<Rightarrow> ('q, 'b) task) \<Rightarrow> ('q, 'b) task" where
  "andThen m f = (\<lambda>c. case m c of (Inl e, c') \<Rightarrow> (Inl e, c') | (Inr x, c') \<Rightarrow> f x c')"

lemma give_step [simp]: "give x c = (Inr x, c)"
  by (simp add: give_def)

lemma fail_step [simp]: "fail f c = (Inl f, c)"
  by (simp add: fail_def)

lemma andThen_cases:
  "andThen m f c = (case m c of (Inl e, c') \<Rightarrow> (Inl e, c') | (Inr x, c') \<Rightarrow> f x c')"
  by (simp add: andThen_def)

text \<open>Running a body whose steps are known.\<close>

lemmas run_steps = andThen_cases prod.case sum.case Let_def option.case

subsection \<open>Reading\<close>

text \<open>At most \<open>n\<close> bytes, up to an end of file. The result is \<open>None\<close> at a structure.\<close>

fun take_bytes :: "nat \<Rightarrow> 'q atom list \<Rightarrow> (byte list \<times> 'q atom list) option" where
  "take_bytes (Suc n) (Byte b # xs) =
     (case take_bytes n xs of None \<Rightarrow> None | Some (bs, rest) \<Rightarrow> Some (b # bs, rest))"
| "take_bytes (Suc n) (Struct q # xs) = None"
| "take_bytes n xs = Some ([], xs)"

text \<open>The bytes up to and with the first newline, or up to an end of file.\<close>

fun take_line :: "'q atom list \<Rightarrow> (byte list \<times> 'q atom list) option" where
  "take_line (Byte b # xs) =
     (if b = 10 then Some ([b], xs)
      else case take_line xs of None \<Rightarrow> None | Some (bs, rest) \<Rightarrow> Some (b # bs, rest))"
| "take_line (Struct q # xs) = None"
| "take_line xs = Some ([], xs)"

text \<open>\<open>vk_read\<close> into a buffer of \<open>cap\<close> bytes.\<close>

definition vk_read_task :: "nat \<Rightarrow> size_t \<Rightarrow> ('q, byte list) task" where
  "vk_read_task cap n c =
     (case take_bytes (unat n) (c_in c) of
        None \<Rightarrow> (Inl Undefined, c)
      | Some (bs, rest) \<Rightarrow> if length bs > cap then (Inl Undefined, c) else (Inr bs, c\<lparr>c_in := rest\<rparr>))"

text \<open>\<open>vk_readline\<close> into a buffer with room for \<open>cap\<close> bytes. A longer line is undefined: the request for a
  line does not look at the length of the buffer (see \<open>Newline\<close>).\<close>

definition vk_readline_task :: "nat \<Rightarrow> ('q, byte list) task" where
  "vk_readline_task cap c =
     (case take_line (c_in c) of
        None \<Rightarrow> (Inl Undefined, c)
      | Some (bs, rest) \<Rightarrow> if length bs > cap then (Inl Undefined, c) else (Inr bs, c\<lparr>c_in := rest\<rparr>))"

text \<open>Reading one structure; \<open>None\<close> at an end of file.\<close>

definition vk_read_struct_task :: "('q, 'q option) task" where
  "vk_read_struct_task c =
     (case c_in c of
        Struct q # rest \<Rightarrow> (Inr (Some q), c\<lparr>c_in := rest\<rparr>)
      | Byte b # rest \<Rightarrow> (Inl Undefined, c)
      | _ \<Rightarrow> (Inr None, c))"

definition at_eof :: "'q conn \<Rightarrow> bool" where
  "at_eof c \<longleftrightarrow> (case c_in c of [] \<Rightarrow> True | Hup # rest \<Rightarrow> True | _ \<Rightarrow> False)"

definition vk_pollhup_task :: "('q, bool) task" where
  "vk_pollhup_task c = (Inr (at_eof c), c)"

definition vk_nodata_task :: "('q, bool) task" where
  "vk_nodata_task c =
     (case c_late c of
        [] \<Rightarrow> (Inr (at_eof c), c)
      | late # ls \<Rightarrow> (Inr (at_eof c \<and> \<not> late), c\<lparr>c_late := ls\<rparr>))"

text \<open>\<open>vk_readhup\<close> takes the end of file, if that is next.\<close>

definition vk_readhup_task :: "('q, unit) task" where
  "vk_readhup_task c =
     (case c_in c of
        [] \<Rightarrow> (Inr (), c)
      | Hup # rest \<Rightarrow> (Inr (), c\<lparr>c_in := rest\<rparr>)
      | _ \<Rightarrow> (Inl (Raised EAGAIN), c))"

subsection \<open>Writing\<close>

definition put :: "'q atom list \<Rightarrow> ('q, unit) task" where
  "put xs c = (if c_closed c then (Inl (Raised EPIPE), c) else (Inr (), c\<lparr>c_out := c_out c @ xs\<rparr>))"

definition vk_write_task :: "byte list \<Rightarrow> ('q, unit) task" where
  "vk_write_task bs = put (map Byte bs)"

definition vk_write_struct_task :: "'q \<Rightarrow> ('q, unit) task" where
  "vk_write_struct_task q = put [Struct q]"

definition vk_hup_task :: "('q, unit) task" where
  "vk_hup_task = put [Hup]"

definition vk_tx_close_task :: "('q, unit) task" where
  "vk_tx_close_task c = (Inr (), c\<lparr>c_closed := True\<rparr>)"

text \<open>\<open>vk_forward\<close>: at most \<open>n\<close> bytes from the input to the output; the result is their number.\<close>

definition vk_forward_task :: "size_t \<Rightarrow> ('q, nat) task" where
  "vk_forward_task n c =
     (case take_bytes (unat n) (c_in c) of
        None \<Rightarrow> (Inl Undefined, c)
      | Some (bs, rest) \<Rightarrow> (Inr (length bs), c\<lparr>c_in := rest, c_out := c_out c @ map Byte bs\<rparr>))"

subsection \<open>Text\<close>

definition bytes_of :: "string \<Rightarrow> byte list" where
  "bytes_of = map of_char"

definition chars_of :: "byte list \<Rightarrow> string" where
  "chars_of = map (\<lambda>b. char_of (unat b))"

text \<open>The C string at the start of a buffer.\<close>

definition c_str :: "byte list \<Rightarrow> byte list" where
  "c_str = takeWhile (\<lambda>b. b \<noteq> 0)"

lemma unat_of_char: "unat (of_char c :: byte) = of_char c"
proof -
  have "unat (of_nat (of_char c) :: byte) = (of_char c :: nat)"
    using nat_of_char_less_256 [of c] by (simp add: unat_of_nat)
  then show ?thesis by (simp only: of_nat_of_char)
qed

lemma chars_bytes [simp]: "chars_of (bytes_of s) = s"
  by (simp add: chars_of_def bytes_of_def comp_def unat_of_char)

lemma bytes_of_app [simp]: "bytes_of (s @ t) = bytes_of s @ bytes_of t"
  by (simp add: bytes_of_def)

lemma length_bytes_of [simp]: "length (bytes_of s) = length s"
  by (simp add: bytes_of_def)

subsection \<open>Lines and blocks on a stream\<close>

lemma take_bytes_exact: "take_bytes (length bs) (map Byte bs @ xs) = Some (bs, xs)"
proof (induction bs)
  case Nil
  then show ?case by (cases xs) simp_all
qed simp

lemma take_line_exact: "10 \<notin> set bs \<Longrightarrow> take_line (map Byte bs @ Byte 10 # xs) = Some (bs @ [10], xs)"
  by (induction bs) auto

lemma take_bytes_short:
  "take_bytes n xs = Some (bs, rest) \<Longrightarrow> length bs \<le> n \<and> xs = map Byte bs @ rest"
  by (induction n xs arbitrary: bs rest rule: take_bytes.induct) (auto split: option.splits)

lemma take_line_split:
  "take_line xs = Some (bs, rest) \<Longrightarrow> xs = map Byte bs @ rest"
  by (induction xs arbitrary: bs rest rule: take_line.induct) (auto split: option.splits if_splits)

lemma readline_exact:
  assumes "c_in c = map Byte bs @ Byte 10 # xs" "10 \<notin> set bs" "length bs < cap"
  shows "vk_readline_task cap c = (Inr (bs @ [10]), c\<lparr>c_in := xs\<rparr>)"
  using assms take_line_exact [of bs xs] by (simp add: vk_readline_task_def)

lemma read_exact:
  assumes "c_in c = map Byte bs @ xs" "unat n = length bs" "length bs \<le> cap"
  shows "vk_read_task cap n c = (Inr bs, c\<lparr>c_in := xs\<rparr>)"
  using assms take_bytes_exact [of bs xs] by (simp add: vk_read_task_def)

lemma at_eof_bytes: "c_in c = map Byte bs \<Longrightarrow> at_eof c \<longleftrightarrow> bs = []"
  by (cases bs) (simp_all add: at_eof_def)

lemma put_open: "\<not> c_closed c \<Longrightarrow> put xs c = (Inr (), c\<lparr>c_out := c_out c @ xs\<rparr>)"
  by (simp add: put_def)

subsection \<open>Tasks that need no fuel\<close>

text \<open>A steady task takes from its input, never puts back, and does not run out of fuel.\<close>

named_theorems steady_rules

definition steady :: "('q, 'a) task \<Rightarrow> bool" where
  "steady m \<longleftrightarrow> (\<forall>c. fst (m c) \<noteq> Inl Out_Of_Fuel \<and> length (c_in (snd (m c))) \<le> length (c_in c))"

lemma steady_give [steady_rules]: "steady (give x)"
  by (simp add: steady_def)

lemma steady_fail [steady_rules]: "f \<noteq> Out_Of_Fuel \<Longrightarrow> steady (fail f)"
  by (simp add: steady_def)

lemma steady_run:
  assumes "steady m" "m c = (r, c')"
  shows "r \<noteq> Inl Out_Of_Fuel" "length (c_in c') \<le> length (c_in c)"
  using assms unfolding steady_def by (metis fst_conv, metis snd_conv)

lemma steady_andThen [steady_rules]:
  assumes "steady m" "\<And>x. steady (f x)"
  shows "steady (andThen m f)"
  unfolding steady_def
proof
  fix c
  obtain r c' where m: "m c = (r, c')" by fastforce
  note s = steady_run [OF assms(1) m]
  show "fst (andThen m f c) \<noteq> Inl Out_Of_Fuel \<and> length (c_in (snd (andThen m f c))) \<le> length (c_in c)"
  proof (cases r)
    case (Inl e)
    then show ?thesis using m s by (simp add: andThen_cases)
  next
    case (Inr x)
    obtain r' c'' where f: "f x c' = (r', c'')" by fastforce
    show ?thesis using m s Inr f steady_run [OF assms(2) f] by (simp add: andThen_cases)
  qed
qed

lemma andThen_ends:
  "fst (m c) \<noteq> Inl Out_Of_Fuel \<Longrightarrow> (\<And>x. steady (f x)) \<Longrightarrow> fst (andThen m f c) \<noteq> Inl Out_Of_Fuel"
  unfolding steady_def by (cases "fst (m c)"; cases "m c") (auto simp: andThen_cases)

lemma take_bytes_length: "take_bytes n xs = Some (bs, rest) \<Longrightarrow> length rest + length bs = length xs"
  using take_bytes_short by fastforce

lemma take_line_length: "take_line xs = Some (bs, rest) \<Longrightarrow> length rest + length bs = length xs"
  using take_line_split by fastforce

lemma steady_io [steady_rules]:
  "steady (vk_read_task cap n)" "steady (vk_readline_task cap')" "steady vk_read_struct_task" "steady vk_pollhup_task"
  "steady vk_nodata_task" "steady vk_readhup_task" "steady (put xs)" "steady (vk_write_task bs)"
  "steady (vk_write_struct_task q)" "steady vk_hup_task" "steady vk_tx_close_task" "steady (vk_forward_task m)"
  by (auto simp: steady_def vk_read_task_def vk_readline_task_def vk_read_struct_task_def vk_pollhup_task_def
      vk_nodata_task_def vk_readhup_task_def put_def vk_write_task_def vk_write_struct_task_def vk_hup_task_def
      vk_tx_close_task_def vk_forward_task_def dest: take_bytes_length take_line_length
      split: option.split list.split atom.split)

lemma readline_consumes:
  assumes "vk_readline_task cap c = (Inr line, c')" "line \<noteq> []"
  shows "length (c_in c') < length (c_in c)"
  using assms by (cases line) (auto simp: vk_readline_task_def dest!: take_line_length split: option.splits if_splits)

lemma nodata_run:
  "vk_nodata_task c = (Inr (at_eof c \<and> \<not> (c_late c \<noteq> [] \<and> hd (c_late c))), c\<lparr>c_late := drop 1 (c_late c)\<rparr>)"
  by (cases "c_late c") (simp_all add: vk_nodata_task_def)

end
