(* ===== verification/Redis.thy ===== *)
theory Redis
  imports Stream_Task
begin

text \<open>
  The Redis server coroutines (src/vk_redis.c, vk_redis.h): the reader of RESP commands, which
  hands queries to the responder over a pipe, the responder, which executes them on an SQLite
  table and writes the replies, and the command line client that encodes
  commands. SQLite is a parameter.
\<close>

definition REDIS_MAX_ARGS :: nat where "REDIS_MAX_ARGS = 8"
definition REDIS_MAX_BULK :: nat where "REDIS_MAX_BULK = 64"

record redis_query =
  q_argc :: int
  q_close :: bool
  q_shutdown :: bool
  q_argv :: "byte list list"

type_synonym 'a redis = "(redis_query, 'a) task"

text \<open>\<open>argv[i]\<close> as a C string.\<close>

definition arg :: "redis_query \<Rightarrow> nat \<Rightarrow> byte list" where
  "arg q i = c_str (q_argv q ! i)"

definition command_is :: "redis_query \<Rightarrow> string \<Rightarrow> bool" where
  "command_is q name \<longleftrightarrow> strcasecmp (chars_of (q_argv q ! 0)) name = 0"

subsection \<open>The reader\<close>

text \<open>The length is passed to \<open>vk_read\<close> as a \<open>size_t\<close>.\<close>

definition read_arg :: "byte list \<Rightarrow> byte list redis" where
  "read_arg old =
     andThen (vk_readline_task 127) (\<lambda>line.
       if line = [] \<or> hd line \<noteq> of_char CHR ''$'' then vk_raise_task EPIPE
       else case atoi (chars_of (tl line)) of
         None \<Rightarrow> fail Undefined
       | Some n \<Rightarrow>
           (let len = (if n \<ge> int REDIS_MAX_BULK then int REDIS_MAX_BULK - 1 else n)
            in andThen (vk_read_task REDIS_MAX_BULK (of_int len)) (\<lambda>bs.
                 if int (length bs) \<noteq> len then vk_raise_task EPIPE
                 else andThen (vk_readline_task 127) (\<lambda>line.
                   if line = [] then vk_raise_task EPIPE
                   else give (bs @ [0] @ drop (length bs + 1) old)))))"

fun read_args :: "nat \<Rightarrow> nat \<Rightarrow> byte list list \<Rightarrow> byte list list redis" where
  "read_args 0 i argv = give argv"
| "read_args (Suc n) i argv =
     andThen (read_arg (argv ! i)) (\<lambda>a. read_args n (Suc i) (argv[i := a]))"

text \<open>The marks for the responder. \<open>SHUTDOWN\<close> is also a close.\<close>

definition mark_query :: "redis_query \<Rightarrow> redis_query" where
  "mark_query q =
     (let q0 = q\<lparr>q_shutdown := False, q_close := False\<rparr>
      in if command_is q0 ''SHUTDOWN'' then q0\<lparr>q_shutdown := True, q_close := True\<rparr>
         else if command_is q0 ''QUIT'' then q0\<lparr>q_close := True\<rparr> else q0)"

text \<open>One command; \<open>None\<close> at the end of the input.\<close>

definition request_once :: "redis_query \<Rightarrow> redis_query option redis" where
  "request_once q =
     andThen (vk_readline_task 127) (\<lambda>line.
       if line = [] then give None
       else if hd line \<noteq> of_char CHR ''*'' then vk_raise_task EINVAL
       else case atoi (chars_of (tl line)) of
         None \<Rightarrow> fail Undefined
       | Some argc \<Rightarrow>
           if argc \<le> 0 \<or> argc > int REDIS_MAX_ARGS then vk_raise_task EINVAL
           else andThen (read_args (nat argc) 0 (q_argv q)) (\<lambda>argv.
             (let q' = mark_query (q\<lparr>q_argc := argc, q_argv := argv\<rparr>)
              in andThen (vk_write_struct_task q') (\<lambda>_.
                   if q_close q' then andThen vk_tx_close_task (\<lambda>_. give (Some q'))
                   else give (Some q')))))"

text \<open>The loop; the result is the last query. Fuel bounds the commands.\<close>

fun request_loop :: "nat \<Rightarrow> redis_query \<Rightarrow> redis_query redis" where
  "request_loop 0 q = fail Out_Of_Fuel"
| "request_loop (Suc m) q =
     andThen (request_once (q\<lparr>q_close := False\<rparr>)) (\<lambda>r.
       case r of
         None \<Rightarrow> give (q\<lparr>q_close := False\<rparr>)
       | Some q' \<Rightarrow>
           andThen vk_nodata_task (\<lambda>nodata.
             if \<not> nodata \<and> \<not> q_close q' then request_loop m q' else give q'))"

definition zero_argv :: "byte list list" where
  "zero_argv = replicate REDIS_MAX_ARGS (replicate REDIS_MAX_BULK 0)"

definition closing_query :: redis_query where
  "closing_query = \<lparr>q_argc = 0, q_close = True, q_shutdown = False, q_argv = zero_argv\<rparr>"

text \<open>The coroutine up to its \<open>vk_finally\<close>; its memory is zeroed when it starts.\<close>

definition redis_request :: "nat \<Rightarrow> unit redis" where
  "redis_request fuel =
     andThen (request_loop fuel \<lparr>q_argc = 0, q_close = False, q_shutdown = False, q_argv = zero_argv\<rparr>) (\<lambda>q.
       if \<not> q_close q
       then andThen (vk_write_struct_task closing_query) (\<lambda>_. vk_hup_task)
       else give ())"

subsection \<open>The responder\<close>

text \<open>What is used of SQLite: whether the two statements can be prepared, the upsert, which tells whether
  it is done, and the selection of a value by key.\<close>

record 'd sqlite =
  sql_prepares :: "'d \<Rightarrow> bool"
  sql_upsert :: "byte list \<Rightarrow> byte list \<Rightarrow> 'd \<Rightarrow> bool \<times> 'd"
  sql_select :: "byte list \<Rightarrow> 'd \<Rightarrow> byte list option option"

text \<open>The reply of a \<open>GET\<close>: a bulk string, cut to the size of the reply buffer, or nil.\<close>

definition nil_reply :: string where
  "nil_reply = ''$-1'' @ [CHR 0x0D, CHR 0x0A]"

definition line_reply :: "string \<Rightarrow> string" where
  "line_reply s = s @ [CHR 0x0D, CHR 0x0A]"

definition bulk_reply :: "byte list \<Rightarrow> byte list" where
  "bulk_reply v =
     (let n = (if length v \<ge> REDIS_MAX_BULK then REDIS_MAX_BULK - 1 else length v)
      in bytes_of (''$'' @ decimal n @ [CHR 0x0D, CHR 0x0A]) @ take n v @ [13, 10])"

definition get_reply :: "'d sqlite \<Rightarrow> byte list \<Rightarrow> 'd \<Rightarrow> byte list" where
  "get_reply sql key d =
     (if \<not> sql_prepares sql d then bytes_of (line_reply ''-ERR sqlite'')
      else case sql_select sql key d of
        Some (Some v) \<Rightarrow> bulk_reply (c_str v)
      | _ \<Rightarrow> bytes_of nil_reply)"

definition set_reply :: "'d sqlite \<Rightarrow> byte list \<Rightarrow> byte list \<Rightarrow> 'd \<Rightarrow> byte list \<times> 'd" where
  "set_reply sql key v d =
     (if \<not> sql_prepares sql d then (bytes_of (line_reply ''-ERR sqlite''), d)
      else case sql_upsert sql key v d of
        (done, d') \<Rightarrow> (bytes_of (line_reply (if done then ''+OK'' else ''-ERR sqlite'')), d'))"

text \<open>One query. The state is the database and whether the kernel was asked to shut down; \<open>net\<close>: the
  service belongs to a kernel, so the connection is closed. The first component of the result tells
  whether the loop is left.\<close>

definition reply_and_go :: "byte list \<Rightarrow> 'd \<times> bool \<Rightarrow> (bool \<times> 'd \<times> bool) redis" where
  "reply_and_go bs st = andThen (vk_write_task bs) (\<lambda>_. give (False, st))"

definition answer :: "bool \<Rightarrow> 'd sqlite \<Rightarrow> redis_query \<Rightarrow> 'd \<times> bool \<Rightarrow> (bool \<times> 'd \<times> bool) redis" where
  "answer net sql q st =
     (case st of (d, shut) \<Rightarrow>
        if q_shutdown q
        then (if net then andThen vk_tx_close_task (\<lambda>_. give (True, d, True)) else give (True, st))
        else if q_close q
        then andThen (vk_write_task (bytes_of (line_reply ''+OK''))) (\<lambda>_.
               if net then andThen vk_tx_close_task (\<lambda>_. give (True, st)) else give (True, st))
        else if q_argc q > 0 \<and> command_is q ''PING'' then reply_and_go (bytes_of (line_reply ''+PONG'')) st
        else if q_argc q \<ge> 3 \<and> command_is q ''SET''
        then (case set_reply sql (arg q 1) (arg q 2) d of (bs, d') \<Rightarrow> reply_and_go bs (d', shut))
        else if q_argc q \<ge> 2 \<and> command_is q ''GET'' then reply_and_go (get_reply sql (arg q 1) d) st
        else reply_and_go (bytes_of (line_reply ''-ERR unknown command'')) st)"

fun response_loop :: "bool \<Rightarrow> 'd sqlite \<Rightarrow> nat \<Rightarrow> 'd \<times> bool \<Rightarrow> ('d \<times> bool) redis" where
  "response_loop net sql 0 st = fail Out_Of_Fuel"
| "response_loop net sql (Suc m) st =
     andThen vk_read_struct_task (\<lambda>r.
       case r of
         None \<Rightarrow> give st
       | Some q \<Rightarrow>
           andThen (answer net sql q st) (\<lambda>(leave, st').
             if leave then give st'
             else andThen vk_nodata_task (\<lambda>nodata.
               if \<not> nodata \<and> \<not> q_close q then response_loop net sql m st' else give st')))"

text \<open>The coroutine; \<open>opened\<close> is the result of \<open>sqlite3_open\<close>. An error closes the connection, too.\<close>

definition redis_response :: "bool \<Rightarrow> 'd sqlite \<Rightarrow> 'd option \<Rightarrow> nat \<Rightarrow> ('d \<times> bool) redis" where
  "redis_response net sql opened fuel c =
     (case andThen (case opened of None \<Rightarrow> vk_raise_task EFAULT | Some d \<Rightarrow> give d) (\<lambda>d.
             andThen (response_loop net sql fuel (d, False)) (\<lambda>st.
               if net then andThen vk_tx_close_task (\<lambda>_. give st) else give st)) c of
        (Inl (Raised e), c') \<Rightarrow> (Inl (Raised e), c'\<lparr>c_closed := True\<rparr>)
      | res \<Rightarrow> res)"

subsection \<open>The command line client\<close>

text \<open>\<open>strtok\<close> with the delimiters space, CR and LF.\<close>

fun tokens :: "byte list \<Rightarrow> byte list \<Rightarrow> byte list list" where
  "tokens [] word = (if word = [] then [] else [word])"
| "tokens (b # bs) word =
     (if b = 32 \<or> b = 13 \<or> b = 10 then (if word = [] then [] else [word]) @ tokens bs []
      else tokens bs (word @ [b]))"

definition encode_arg :: "byte list \<Rightarrow> byte list" where
  "encode_arg a = bytes_of (''$'' @ decimal (length a) @ [CHR 0x0D, CHR 0x0A]) @ a @ [13, 10]"

definition encode :: "byte list list \<Rightarrow> byte list" where
  "encode args = bytes_of (''*'' @ decimal (length args) @ [CHR 0x0D, CHR 0x0A]) @ concat (map encode_arg args)"

text \<open>One line of the user; the result tells whether to close, \<open>None\<close> at the end of the input.\<close>

definition client_once :: "bool option redis" where
  "client_once =
     andThen (vk_readline_task 255) (\<lambda>line.
       if line = [] then give None
       else (let args = map (take (REDIS_MAX_BULK - 1)) (take REDIS_MAX_ARGS (tokens (c_str line) []))
             in if args = [] then give (Some False)
                else andThen (vk_write_task (encode args)) (\<lambda>_.
                  give (Some (strcasecmp (chars_of (hd args)) ''SHUTDOWN'' = 0 \<or>
                              strcasecmp (chars_of (hd args)) ''QUIT'' = 0)))))"

fun client_loop :: "nat \<Rightarrow> unit redis" where
  "client_loop 0 = fail Out_Of_Fuel"
| "client_loop (Suc m) =
     andThen client_once (\<lambda>r.
       case r of
         None \<Rightarrow> give ()
       | Some close \<Rightarrow>
           andThen vk_nodata_task (\<lambda>nodata. if \<not> nodata \<and> \<not> close then client_loop m else give ()))"

definition redis_client_request :: "nat \<Rightarrow> unit redis" where
  "redis_client_request fuel = andThen (client_loop fuel) (\<lambda>_. vk_tx_close_task)"

text \<open>The printer of replies: what is shown for one header line, and for a bulk string its payload.\<close>

definition inner :: "nat \<Rightarrow> nat \<Rightarrow> byte list \<Rightarrow> byte list" where
  "inner skip trailer line = (if length line \<le> trailer then [] else take (length line - trailer) (drop skip line))"

definition print_once :: "bool redis" where
  "print_once =
     andThen (vk_readline_task 255) (\<lambda>line.
       if line = [] then give False
       else if hd line = of_char CHR ''+'' \<or> hd line = of_char CHR ''-'' \<or> hd line = of_char CHR '':''
       then andThen (vk_write_task (inner 1 3 line @ [10])) (\<lambda>_. give True)
       else if hd line = of_char CHR ''$''
       then (case atoi (chars_of (tl line)) of
           None \<Rightarrow> fail Undefined
         | Some n \<Rightarrow>
             if n < 0 then andThen (vk_write_task (bytes_of ''(nil)'' @ [10])) (\<lambda>_. give True)
             else (let len = (if n \<ge> int REDIS_MAX_BULK then REDIS_MAX_BULK - 1 else nat n)
                   in andThen (vk_read_task REDIS_MAX_BULK (of_nat len)) (\<lambda>bs.
                        if length bs \<noteq> len then vk_raise_task EPIPE
                        else andThen (vk_readline_task 255) (\<lambda>line.
                          if line = [] then vk_raise_task EPIPE
                          else andThen (vk_write_task (bs @ [10])) (\<lambda>_. give True)))))
       else if hd line = of_char CHR ''*''
       then (case atoi (chars_of (tl line)) of
           None \<Rightarrow> fail Undefined
         | Some n \<Rightarrow>
             andThen (vk_write_task (bytes_of (''(array) '' @ (if n < 0 then ''-'' else []) @ decimal (nat \<bar>n\<bar>)) @ [10]))
               (\<lambda>_. give True))
       else andThen (vk_write_task (inner 0 2 line @ [10])) (\<lambda>_. give True))"

fun print_loop :: "nat \<Rightarrow> unit redis" where
  "print_loop 0 = fail Out_Of_Fuel"
| "print_loop (Suc m) = andThen print_once (\<lambda>more. if more then print_loop m else give ())"

definition redis_client_response :: "nat \<Rightarrow> unit redis" where
  "redis_client_response fuel =
     andThen (print_loop fuel) (\<lambda>_. andThen vk_readhup_task (\<lambda>_. vk_tx_close_task))"

subsection \<open>Commands survive their encoding\<close>

lemma length_decimal: "length (decimal n) \<le> Suc n"
proof (induction n rule: decimal.induct)
  case (1 n)
  then show ?case using div_less_dividend [of 10 n] by (cases "n < 10") (auto simp: decimal.simps [of n])
qed

lemma head_line: "chars_of (tl (bytes_of (c # decimal n @ [CHR 0x0D]) @ [10])) = decimal n @ [CHR 0x0D, CHR 0x0A]"
proof -
  have "chars_of (tl (bytes_of (c # decimal n @ [CHR 0x0D]) @ [10])) = chars_of (bytes_of (decimal n @ [CHR 0x0D, CHR 0x0A]))"
    by (simp add: bytes_of_def)
  then show ?thesis by (simp only: chars_bytes)
qed

lemma head_atoi: "n < 2 ^ 31 \<Longrightarrow> atoi (chars_of (tl (bytes_of (c # decimal n @ [CHR 0x0D]) @ [10]))) = Some (int n)"
  unfolding head_line by (rule atoi_decimal) simp_all

lemma no_newline: "10 \<notin> set (bytes_of (c # decimal n @ [CHR 0x0D])) \<longleftrightarrow> c \<noteq> CHR 0x0A"
proof -
  have inj: "(of_char d :: byte) = 10 \<longleftrightarrow> d = CHR 0x0A" for d
  proof
    assume "(of_char d :: byte) = 10"
    then have "unat (of_char d :: byte) = 10" by simp
    then have "of_char d = (of_char (CHR 0x0A) :: nat)" by (simp add: unat_of_char)
    then show "d = CHR 0x0A" by (simp only: of_char_eq_iff)
  qed simp
  have "CHR 0x0A \<notin> set (decimal n)" using decimal_digits [of "CHR 0x0A" n] by auto
  then show ?thesis by (auto simp: bytes_of_def inj image_iff)
qed

lemma read_head:
  assumes "c_in conn = map Byte (bytes_of (c # decimal n @ [CHR 0x0D, CHR 0x0A])) @ xs" "c \<noteq> CHR 0x0A" "n < 100"
  shows "vk_readline_task 127 conn = (Inr (bytes_of (c # decimal n @ [CHR 0x0D]) @ [10]), conn\<lparr>c_in := xs\<rparr>)"
proof (rule readline_exact)
  show "c_in conn = map Byte (bytes_of (c # decimal n @ [CHR 0x0D])) @ Byte 10 # xs"
    using assms(1) by (simp add: bytes_of_def)
  show "10 \<notin> set (bytes_of (c # decimal n @ [CHR 0x0D]))" using assms(2) no_newline by blast
  show "length (bytes_of (c # decimal n @ [CHR 0x0D])) < 127" using length_decimal [of n] assms(3) by simp
qed

lemma head_hd: "hd (bytes_of (c # decimal n @ [CHR 0x0D]) @ [10]) = of_char c"
  "bytes_of (c # decimal n @ [CHR 0x0D]) @ [10] \<noteq> []"
  by (simp_all add: bytes_of_def)

lemma crlf_line: "c_in conn = Byte 13 # Byte 10 # xs \<Longrightarrow> vk_readline_task 127 conn = (Inr [13, 10], conn\<lparr>c_in := xs\<rparr>)"
  by (simp add: vk_readline_task_def)

lemma read_arg_encode:
  assumes "c_in c = map Byte (encode_arg a) @ xs" "length a < REDIS_MAX_BULK"
  shows "read_arg old c = (Inr (a @ [0] @ drop (length a + 1) old), c\<lparr>c_in := xs\<rparr>)"
proof -
  let ?line = "bytes_of (CHR ''$'' # decimal (length a) @ [CHR 0x0D]) @ [10]"
  let ?c1 = "c\<lparr>c_in := map Byte a @ Byte 13 # Byte 10 # xs\<rparr>"
  let ?c2 = "c\<lparr>c_in := Byte 13 # Byte 10 # xs\<rparr>"
  have n: "length a < 64" using assms(2) by (simp add: REDIS_MAX_BULK_def)
  have l1: "vk_readline_task 127 c = (Inr ?line, ?c1)"
    by (rule read_head) (use assms(1) n in \<open>simp_all add: encode_arg_def\<close>)
  have len: "unat (of_int (int (length a)) :: size_t) = length a" using n by (simp add: unat_of_nat)
  have l2: "vk_read_task REDIS_MAX_BULK (of_int (int (length a))) ?c1 = (Inr a, ?c2)"
    using read_exact [of ?c1 a "Byte 13 # Byte 10 # xs" "of_int (int (length a))" REDIS_MAX_BULK] len n
    by (simp add: REDIS_MAX_BULK_def)
  have l3: "vk_readline_task 127 ?c2 = (Inr [13, 10], c\<lparr>c_in := xs\<rparr>)"
    using crlf_line [of ?c2 xs] by simp
  have at: "atoi (chars_of (tl ?line)) = Some (int (length a))" by (rule head_atoi) (use n in simp)
  have hd: "hd ?line = of_char CHR ''$''" "?line \<noteq> []" using head_hd by blast+
  have small: "\<not> int (length a) \<ge> int REDIS_MAX_BULK" using n by (simp add: REDIS_MAX_BULK_def)
  show ?thesis
    by (simp only: read_arg_def run_steps l1 l2 l3 at hd small if_False simp_thms) simp
qed

text \<open>The C string in the buffer of an argument.\<close>

lemma c_str_buffer: "0 \<notin> set a \<Longrightarrow> c_str (a @ [0] @ rest) = a"
  unfolding c_str_def by (induction a) auto

lemma read_args_encode:
  "c_in c = map Byte (concat (map encode_arg as)) @ xs \<Longrightarrow> \<forall>a \<in> set as. length a < REDIS_MAX_BULK \<and> 0 \<notin> set a \<Longrightarrow>
   i + length as \<le> length argv \<Longrightarrow>
   \<exists>argv'. read_args (length as) i argv c = (Inr argv', c\<lparr>c_in := xs\<rparr>) \<and> length argv' = length argv \<and>
     (\<forall>j < i. argv' ! j = argv ! j) \<and> (\<forall>j < length as. c_str (argv' ! (i + j)) = as ! j)"
proof (induction as arbitrary: i argv c)
  case Nil
  then show ?case by simp
next
  case (Cons a as)
  let ?a = "a @ [0] @ drop (length a + 1) (argv ! i)" and ?xs = "map Byte (concat (map encode_arg as)) @ xs"
  have r: "read_arg (argv ! i) c = (Inr ?a, c\<lparr>c_in := ?xs\<rparr>)"
    by (rule read_arg_encode) (use Cons.prems in simp_all)
  obtain argv' where ih: "read_args (length as) (Suc i) (argv[i := ?a]) (c\<lparr>c_in := ?xs\<rparr>) = (Inr argv', c\<lparr>c_in := xs\<rparr>)"
    "length argv' = length argv" "\<And>j. j < Suc i \<Longrightarrow> argv' ! j = argv[i := ?a] ! j"
    "\<And>j. j < length as \<Longrightarrow> c_str (argv' ! (Suc i + j)) = as ! j"
    using Cons.IH [of "c\<lparr>c_in := ?xs\<rparr>" "Suc i" "argv[i := ?a]"] Cons.prems by auto
  have "c_str (argv' ! i) = a" using ih(3) [of i] c_str_buffer Cons.prems by simp
  then have "c_str (argv' ! (i + j)) = (a # as) ! j" if "j < length (a # as)" for j
    using that ih(4) [of "j - 1"] by (cases j) simp_all
  moreover have "argv' ! j = argv ! j" if "j < i" for j using ih(3) [of j] that by simp
  ultimately show ?case using ih(1,2) r by (auto simp: andThen_cases)
qed

text \<open>Names are compared up to the NUL.\<close>

lemma tolower_code_zero: "tolower_code (char_of (unat b)) = 0 \<longleftrightarrow> b = (0 :: byte)"
proof -
  have "unat b < 256" by (rule order_less_le_trans [OF unsigned_less]) simp
  then have "unat b mod 256 = unat b" by simp
  then show ?thesis by (auto simp: tolower_code_def Let_def of_char_of unat_eq_zero)
qed

lemma cs_key_c_str: "cs_key (chars_of (c_str b)) = cs_key (chars_of b)"
  by (induction b) (auto simp: c_str_def chars_of_def cs_key_def tolower_code_zero)

definition is_name :: "byte list \<Rightarrow> string \<Rightarrow> bool" where
  "is_name a name \<longleftrightarrow> cs_key (chars_of a) = cs_key name"

lemma command_is_name: "command_is q name \<longleftrightarrow> is_name (arg q 0) name"
  by (simp add: command_is_def is_name_def strcasecmp_zero arg_def cs_key_c_str)

definition command_ok :: "byte list list \<Rightarrow> bool" where
  "command_ok args \<longleftrightarrow> args \<noteq> [] \<and> length args \<le> REDIS_MAX_ARGS \<and>
     (\<forall>a \<in> set args. length a < REDIS_MAX_BULK \<and> 0 \<notin> set a)"

definition shuts_down :: "byte list list \<Rightarrow> bool" where
  "shuts_down args \<longleftrightarrow> is_name (hd args) ''SHUTDOWN''"

definition closes :: "byte list list \<Rightarrow> bool" where
  "closes args \<longleftrightarrow> shuts_down args \<or> is_name (hd args) ''QUIT''"

definition carries :: "redis_query \<Rightarrow> byte list list \<Rightarrow> bool" where
  "carries q args \<longleftrightarrow> q_argc q = int (length args) \<and> (\<forall>j < length args. arg q j = args ! j) \<and>
     q_close q = closes args \<and> q_shutdown q = shuts_down args \<and> length (q_argv q) = REDIS_MAX_ARGS"

lemma request_once_encode:
  assumes "c_in c = map Byte (encode args) @ xs" "command_ok args" "length (q_argv q) = REDIS_MAX_ARGS" "\<not> c_closed c"
  shows "\<exists>q'. request_once q c =
      (Inr (Some q'), c\<lparr>c_in := xs, c_out := c_out c @ [Struct q'], c_closed := closes args\<rparr>) \<and> carries q' args"
proof -
  let ?line = "bytes_of (CHR ''*'' # decimal (length args) @ [CHR 0x0D]) @ [10]"
  let ?xs = "map Byte (concat (map encode_arg args)) @ xs"
  have n: "length args \<le> 8" "args \<noteq> []" using assms(2) by (simp_all add: command_ok_def REDIS_MAX_ARGS_def)
  have l1: "vk_readline_task 127 c = (Inr ?line, c\<lparr>c_in := ?xs\<rparr>)"
    by (rule read_head) (use assms(1) n in \<open>simp_all add: encode_def\<close>)
  have at: "atoi (chars_of (tl ?line)) = Some (int (length args))" by (rule head_atoi) (use n in simp)
  have hd: "hd ?line = of_char CHR ''*''" "?line \<noteq> []" using head_hd by blast+
  have argc: "\<not> (int (length args) \<le> 0 \<or> int (length args) > int REDIS_MAX_ARGS)"
    using n by (simp add: REDIS_MAX_ARGS_def)
  obtain argv where r: "read_args (length args) 0 (q_argv q) (c\<lparr>c_in := ?xs\<rparr>) = (Inr argv, c\<lparr>c_in := xs\<rparr>)"
    "length argv = REDIS_MAX_ARGS" "\<And>j. j < length args \<Longrightarrow> c_str (argv ! j) = args ! j"
    using read_args_encode [of "c\<lparr>c_in := ?xs\<rparr>" args xs 0 "q_argv q"] assms(2,3) n
    by (auto simp: command_ok_def REDIS_MAX_ARGS_def)
  define q' where "q' = mark_query (q\<lparr>q_argc := int (length args), q_argv := argv\<rparr>)"
  have a: "q_argv q' = argv" "q_argc q' = int (length args)"
    by (simp_all add: q'_def mark_query_def Let_def)
  have first: "arg (q\<lparr>q_argc := x, q_argv := argv, q_shutdown := y, q_close := z\<rparr>) 0 = hd args" for x y z
    using r(3) [of 0] n by (simp add: arg_def hd_conv_nth)
  have "\<not> (is_name a ''SHUTDOWN'' \<and> is_name a ''QUIT'')" for a
    by (auto simp: is_name_def cs_key_def tolower_code_def)
  then have m: "q_close q' = closes args" "q_shutdown q' = shuts_down args"
    by (auto simp: q'_def mark_query_def command_is_name first closes_def shuts_down_def Let_def)
  have "carries q' args" using a m r(2,3) by (simp add: carries_def arg_def)
  moreover have "request_once q c =
      (Inr (Some q'), c\<lparr>c_in := xs, c_out := c_out c @ [Struct q'], c_closed := closes args\<rparr>)"
    using assms(4) m(1)
    by (simp only: request_once_def run_steps l1 at hd argc if_False simp_thms r(1) nat_int q'_def [symmetric])
      (simp add: andThen_cases vk_write_struct_task_def put_def vk_tx_close_task_def)
  ultimately show ?thesis by blast
qed

subsection \<open>The reader always comes to an end\<close>

lemma steady_args: "steady (read_arg old)" "steady (read_args n i argv)"
proof -
  show one: "steady (read_arg old)" for old
    unfolding read_arg_def Let_def by (auto intro!: steady_rules split: option.split)
  show "steady (read_args n i argv)"
  proof (induction n arbitrary: i argv)
    case 0
    then show ?case by (simp only: read_args.simps steady_give)
  next
    case (Suc n)
    then show ?case unfolding read_args.simps by (intro steady_andThen one)
  qed
qed

lemma request_tail_steady:
  "steady (if hd line \<noteq> x then vk_raise_task EINVAL
       else case atoi (chars_of (tl line)) of
         None \<Rightarrow> fail Undefined
       | Some argc \<Rightarrow>
           if argc \<le> 0 \<or> argc > int REDIS_MAX_ARGS then vk_raise_task EINVAL
           else andThen (read_args (nat argc) 0 (q_argv q)) (\<lambda>argv.
             (let q' = mark_query (q\<lparr>q_argc := argc, q_argv := argv\<rparr>)
              in andThen (vk_write_struct_task q') (\<lambda>_.
                   if q_close q' then andThen vk_tx_close_task (\<lambda>_. give (Some q'))
                   else give (Some q')))))"
  unfolding Let_def by (auto intro!: steady_rules steady_args split: option.split)

lemma request_once_consumes:
  assumes "request_once q c = (r, c')"
  shows "r \<noteq> Inl Out_Of_Fuel" "r = Inr (Some q') \<Longrightarrow> length (c_in c') < length (c_in c)"
proof -
  obtain rl c1 where l: "vk_readline_task 127 c = (rl, c1)" by fastforce
  note ls = steady_run [OF steady_io(2) l]
  have "r \<noteq> Inl Out_Of_Fuel \<and> (r = Inr (Some q') \<longrightarrow> length (c_in c') < length (c_in c))"
  proof (cases rl)
    case (Inl e)
    then show ?thesis using assms l ls by (simp add: request_once_def andThen_cases) auto
  next
    case (Inr line)
    show ?thesis
    proof (cases "line = []")
      case True
      then show ?thesis using assms l Inr by (simp add: request_once_def andThen_cases) auto
    next
      case False
      note c1 = readline_consumes [OF l [unfolded Inr] False]
      have run: "(if hd line \<noteq> of_char CHR ''*'' then vk_raise_task EINVAL
         else case atoi (chars_of (tl line)) of
           None \<Rightarrow> fail Undefined
         | Some argc \<Rightarrow>
             if argc \<le> 0 \<or> argc > int REDIS_MAX_ARGS then vk_raise_task EINVAL
             else andThen (read_args (nat argc) 0 (q_argv q)) (\<lambda>argv.
               (let q' = mark_query (q\<lparr>q_argc := argc, q_argv := argv\<rparr>)
                in andThen (vk_write_struct_task q') (\<lambda>_.
                     if q_close q' then andThen vk_tx_close_task (\<lambda>_. give (Some q'))
                     else give (Some q'))))) c1 = (r, c')"
        using assms unfolding request_once_def andThen_cases [of "vk_readline_task 127"] l Inr prod.case sum.case
          if_not_P [OF False] .
      show ?thesis using steady_run [OF request_tail_steady run] c1 by auto
    qed
  qed
  then show "r \<noteq> Inl Out_Of_Fuel" "r = Inr (Some q') \<Longrightarrow> length (c_in c') < length (c_in c)" by blast+
qed

lemma request_loop_ends: "length (c_in c) < fuel \<Longrightarrow> fst (request_loop fuel q c) \<noteq> Inl Out_Of_Fuel"
proof (induction fuel arbitrary: q c)
  case (Suc m)
  obtain r c1 where o: "request_once (q\<lparr>q_close := False\<rparr>) c = (r, c1)" by fastforce
  note once = request_once_consumes [OF o]
  show ?case
  proof (cases r)
    case (Inl e)
    then show ?thesis using o once(1) by (simp add: andThen_cases)
  next
    case (Inr q1)
    show ?thesis
    proof (cases q1)
      case None
      then show ?thesis using o Inr by (simp add: andThen_cases)
    next
      case (Some q')
      have less: "length (c_in c1) < length (c_in c)" using once(2) Inr Some by simp
      obtain nd c2 where n: "vk_nodata_task c1 = (Inr nd, c2)" "c_in c2 = c_in c1"
        using nodata_run [of c1] by fastforce
      show ?thesis using Suc.IH [of c2 q'] Suc.prems less n Inr Some o by (simp add: andThen_cases)
    qed
  qed
qed simp

subsection \<open>Pipelined commands\<close>

fun until_close :: "byte list list list \<Rightarrow> byte list list list" where
  "until_close [] = []"
| "until_close (args # cmds) = (if closes args then [args] else args # until_close cmds)"

abbreviation ends_session :: "byte list list list \<Rightarrow> bool" where
  "ends_session cmds \<equiv> (\<exists>args \<in> set cmds. closes args)"

lemma encode_not_Nil [simp]: "encode args \<noteq> []"
  by (simp add: encode_def bytes_of_def)

lemma request_loop_encode:
  "c_in c = map Byte (concat (map encode cmds)) \<Longrightarrow> \<forall>args \<in> set cmds. command_ok args \<Longrightarrow>
   length (q_argv q) = REDIS_MAX_ARGS \<Longrightarrow> \<not> c_closed c \<Longrightarrow> length cmds < fuel \<Longrightarrow>
   \<exists>qs q' c'. request_loop fuel q c = (Inr q', c') \<and> c_out c' = c_out c @ map Struct qs \<and>
     list_all2 carries qs (until_close cmds) \<and> (c_closed c' \<longleftrightarrow> ends_session cmds) \<and>
     (q_close q' \<longleftrightarrow> ends_session cmds)"
proof (induction cmds arbitrary: fuel q c)
  case Nil
  then obtain m where m: "fuel = Suc m" by (cases fuel) auto
  have "vk_readline_task 127 c = (Inr [], c)" using Nil.prems(1) by (simp add: vk_readline_task_def)
  then show ?case using Nil.prems m by (simp add: request_once_def andThen_cases)
next
  case (Cons args cmds)
  then obtain m where m: "fuel = Suc m" by (cases fuel) auto
  let ?xs = "map Byte (concat (map encode cmds))"
  obtain q1 where o: "request_once (q\<lparr>q_close := False\<rparr>) c =
      (Inr (Some q1), c\<lparr>c_in := ?xs, c_out := c_out c @ [Struct q1], c_closed := closes args\<rparr>)" "carries q1 args"
    using request_once_encode [of c args ?xs "q\<lparr>q_close := False\<rparr>"] Cons.prems by auto
  let ?c1 = "c\<lparr>c_in := ?xs, c_out := c_out c @ [Struct q1], c_closed := closes args\<rparr>"
  obtain nd c2 where n: "vk_nodata_task ?c1 = (Inr nd, c2)" "c2 = ?c1\<lparr>c_late := drop 1 (c_late ?c1)\<rparr>"
    "nd \<Longrightarrow> at_eof ?c1"
    using nodata_run [of ?c1] by blast
  have close: "q_close q1 = closes args" "length (q_argv q1) = REDIS_MAX_ARGS"
    using o(2) by (simp_all add: carries_def)
  have step: "request_loop fuel q c = (if \<not> nd \<and> \<not> closes args then request_loop m q1 c2 else (Inr q1, c2))"
    using m o(1) n(1) close by (simp add: andThen_cases)
  show ?case
  proof (cases "\<not> nd \<and> \<not> closes args")
    case True
    obtain qs q' c' where ih: "request_loop m q1 c2 = (Inr q', c')" "c_out c' = c_out c2 @ map Struct qs"
      "list_all2 carries qs (until_close cmds)" "c_closed c' \<longleftrightarrow> ends_session cmds" "q_close q' \<longleftrightarrow> ends_session cmds"
      using Cons.IH [of c2 q1 m] Cons.prems m n(2) close True by auto
    then show ?thesis using step True n(2) o(2) by (intro exI [of _ "q1 # qs"] exI [of _ q'] exI [of _ c']) simp
  next
    case False
    then have "closes args \<or> cmds = []"
      using n(3) at_eof_bytes [of ?c1 "concat (map encode cmds)"] by (cases cmds) auto
    then show ?thesis using step False n(2) o(2) close(1)
      by (intro exI [of _ "[q1]"] exI [of _ q1] exI [of _ c2]) auto
  qed
qed

subsection \<open>What the server computes\<close>

type_synonym store = "byte list \<Rightarrow> byte list option"

definition spec_answer :: "byte list list \<Rightarrow> store \<Rightarrow> byte list \<times> store" where
  "spec_answer args kv =
     (if is_name (hd args) ''PING'' then (bytes_of (line_reply ''+PONG''), kv)
      else if length args \<ge> 3 \<and> is_name (hd args) ''SET''
      then (bytes_of (line_reply ''+OK''), kv(args ! 1 := Some (args ! 2)))
      else if length args \<ge> 2 \<and> is_name (hd args) ''GET''
      then (case kv (args ! 1) of None \<Rightarrow> bytes_of nil_reply | Some v \<Rightarrow> bulk_reply (c_str v), kv)
      else (bytes_of (line_reply ''-ERR unknown command''), kv))"

fun spec_run :: "byte list list list \<Rightarrow> store \<Rightarrow> byte list \<times> store" where
  "spec_run [] kv = ([], kv)"
| "spec_run (args # cmds) kv =
     (case spec_answer args kv of (bs, kv1) \<Rightarrow> (case spec_run cmds kv1 of (bs', kv2) \<Rightarrow> (bs @ bs', kv2)))"

text \<open>What is relied on of SQLite: the table is a map from keys to values.\<close>

definition sqlite_ok :: "'d sqlite \<Rightarrow> ('d \<Rightarrow> store) \<Rightarrow> bool" where
  "sqlite_ok sql tab \<longleftrightarrow>
     (\<forall>d. sql_prepares sql d \<and>
        (\<forall>k v. fst (sql_upsert sql k v d) \<and> tab (snd (sql_upsert sql k v d)) = (tab d)(k := Some v)) \<and>
        (\<forall>k. sql_select sql k d = map_option Some (tab d k)))"

lemma answer_spec:
  assumes "sqlite_ok sql tab" "carries q args" "args \<noteq> []" "\<not> closes args" "\<not> c_closed c"
  shows "\<exists>d'. answer net sql q (d, shut) c =
      (Inr (False, d', shut), c\<lparr>c_out := c_out c @ map Byte (fst (spec_answer args (tab d)))\<rparr>) \<and>
    tab d' = snd (spec_answer args (tab d))"
proof -
  have q: "q_argc q = int (length args)" "\<not> q_close q" "\<not> q_shutdown q" "q_argc q > 0"
    and arg: "j < length args \<Longrightarrow> arg q j = args ! j" for j
    using assms(2-4) by (auto simp: carries_def closes_def)
  have name: "command_is q n \<longleftrightarrow> is_name (hd args) n" for n
    using arg [of 0] assms(3) by (simp add: command_is_name hd_conv_nth)
  have go: "reply_and_go bs st c = (Inr (False, st), c\<lparr>c_out := c_out c @ map Byte bs\<rparr>)" for bs and st :: "'d \<times> bool"
    using assms(5) by (simp add: reply_and_go_def andThen_cases vk_write_task_def put_def)
  obtain fin d' where up: "sql_upsert sql (arg q 1) (arg q 2) d = (fin, d')" by fastforce
  have sql: "sql_prepares sql d" "fin" "tab d' = (tab d)(arg q 1 := Some (arg q 2))"
    "sql_select sql k d = map_option Some (tab d k)" for k
    using assms(1) up unfolding sqlite_ok_def by (metis fst_conv snd_conv)+
  have set: "set_reply sql (arg q 1) (arg q 2) d = (bytes_of (line_reply ''+OK''), d')"
    using sql(1,2) up by (simp add: set_reply_def)
  have get: "get_reply sql k d = (case tab d k of None \<Rightarrow> bytes_of nil_reply | Some v \<Rightarrow> bulk_reply (c_str v))" for k
    using sql(1,4) by (simp add: get_reply_def split: option.split)
  have argc: "q_argc q \<ge> 3 \<longleftrightarrow> length args \<ge> 3" "q_argc q \<ge> 2 \<longleftrightarrow> length args \<ge> 2" using q(1) by auto
  show ?thesis
  proof (cases "\<not> is_name (hd args) ''PING'' \<and> length args \<ge> 3 \<and> is_name (hd args) ''SET''")
    case True
    have a: "arg q (Suc 0) = args ! Suc 0" "arg q 2 = args ! 2" using arg True by simp_all
    have "answer net sql q (d, shut) c =
        (Inr (False, d', shut), c\<lparr>c_out := c_out c @ map Byte (bytes_of (line_reply ''+OK''))\<rparr>)"
      using q set argc True by (simp add: answer_def name go)
    moreover have "spec_answer args (tab d) = (bytes_of (line_reply ''+OK''), tab d')"
      using True sql(3) a by (simp add: spec_answer_def)
    ultimately show ?thesis by simp
  next
    case False
    then show ?thesis using q arg [of 1] get argc
      by (intro exI [of _ d]) (auto simp: answer_def spec_answer_def name go)
  qed
qed

lemma response_loop_spec:
  "list_all2 carries qs cmds \<Longrightarrow> \<forall>args \<in> set cmds. args \<noteq> [] \<and> \<not> closes args \<Longrightarrow> sqlite_ok sql tab \<Longrightarrow>
   c_in c = map Struct qs @ Struct qc # xs \<Longrightarrow> \<not> c_closed c \<Longrightarrow>
   \<exists>d' late. tab d' = snd (spec_run cmds (tab d)) \<and>
     response_loop net sql (length cmds + m) (d, shut) c = response_loop net sql m (d', shut)
       (c\<lparr>c_in := Struct qc # xs, c_out := c_out c @ map Byte (fst (spec_run cmds (tab d))), c_late := late\<rparr>)"
proof (induction qs cmds arbitrary: d c rule: list_all2_induct)
  case Nil
  have "c\<lparr>c_in := Struct qc # xs, c_out := c_out c, c_late := c_late c\<rparr> = c" using Nil by simp
  then show ?case by (intro exI [of _ d] exI [of _ "c_late c"]) simp
next
  case (Cons q qs args cmds)
  let ?c1 = "c\<lparr>c_in := map Struct qs @ Struct qc # xs\<rparr>"
  have r: "vk_read_struct_task c = (Inr (Some q), ?c1)" using Cons.prems by (simp add: vk_read_struct_task_def)
  obtain d1 where a: "answer net sql q (d, shut) ?c1 = (Inr (False, d1, shut),
      ?c1\<lparr>c_out := c_out ?c1 @ map Byte (fst (spec_answer args (tab d)))\<rparr>)" "tab d1 = snd (spec_answer args (tab d))"
    using answer_spec [of sql tab q args ?c1 net d shut] Cons by auto
  let ?c2 = "?c1\<lparr>c_out := c_out ?c1 @ map Byte (fst (spec_answer args (tab d)))\<rparr>"
  have "\<not> at_eof ?c2" by (cases qs) (simp_all add: at_eof_def)
  then have n: "vk_nodata_task ?c2 = (Inr False, ?c2\<lparr>c_late := drop 1 (c_late ?c2)\<rparr>)" using nodata_run [of ?c2] by simp
  have qc: "\<not> q_close q" using Cons.hyps(1) Cons.prems(1) by (simp add: carries_def)
  let ?c3 = "?c2\<lparr>c_late := drop 1 (c_late ?c2)\<rparr>"
  have step: "response_loop net sql (length (args # cmds) + m) (d, shut) c =
      response_loop net sql (length cmds + m) (d1, shut) ?c3"
    using r a(1) n qc by (simp add: andThen_cases)
  obtain d' late where ih: "tab d' = snd (spec_run cmds (tab d1))"
    "response_loop net sql (length cmds + m) (d1, shut) ?c3 = response_loop net sql m (d', shut)
       (?c3\<lparr>c_in := Struct qc # xs, c_out := c_out ?c3 @ map Byte (fst (spec_run cmds (tab d1))), c_late := late\<rparr>)"
    using Cons.IH [of ?c3 d1] Cons.prems by auto
  show ?case using step ih a(2)
    by (intro exI [of _ d'] exI [of _ late]) (simp add: split_beta)
qed

subsection \<open>The server: the reader piped into the responder\<close>

text \<open>\<open>late1\<close> and \<open>late2\<close> are the timings of the two ends of file. Of a session in which the reader fails only the
  failure is given, as for HTTP.\<close>

definition redis_serve ::
  "bool \<Rightarrow> 'd sqlite \<Rightarrow> 'd option \<Rightarrow> nat \<Rightarrow> bool list \<Rightarrow> bool list \<Rightarrow> byte list \<Rightarrow> (fault + 'd \<times> bool) \<times> redis_query conn" where
  "redis_serve net sql opened fuel late1 late2 input =
     (case redis_request fuel \<lparr>c_in = map Byte input, c_out = [], c_closed = False, c_late = late1\<rparr> of
        (Inl e, c) \<Rightarrow> (Inl e, c\<lparr>c_out := []\<rparr>)
      | (Inr _, c) \<Rightarrow>
          redis_response net sql opened fuel \<lparr>c_in = c_out c, c_out = [], c_closed = False, c_late = late2\<rparr>)"

definition served :: "byte list list list \<Rightarrow> byte list list list" where
  "served = takeWhile (\<lambda>args. \<not> closes args)"

definition shutdown_asked :: "byte list list list \<Rightarrow> bool" where
  "shutdown_asked cmds \<longleftrightarrow> (case dropWhile (\<lambda>args. \<not> closes args) cmds of [] \<Rightarrow> False | args # _ \<Rightarrow> shuts_down args)"

lemma until_close_served:
  "until_close cmds = served cmds @ (if ends_session cmds then [hd (dropWhile (\<lambda>args. \<not> closes args) cmds)] else [])"
  by (induction cmds) (auto simp: served_def)

lemma last_served:
  assumes "ends_session cmds"
  shows "closes (hd (dropWhile (\<lambda>args. \<not> closes args) cmds))"
    "shutdown_asked cmds \<longleftrightarrow> shuts_down (hd (dropWhile (\<lambda>args. \<not> closes args) cmds))"
proof -
  have ne: "dropWhile (\<lambda>args. \<not> closes args) cmds \<noteq> []" using assms by (induction cmds) auto
  show "closes (hd (dropWhile (\<lambda>args. \<not> closes args) cmds))" using hd_dropWhile [OF ne] by simp
  show "shutdown_asked cmds \<longleftrightarrow> shuts_down (hd (dropWhile (\<lambda>args. \<not> closes args) cmds))"
    using ne by (cases "dropWhile (\<lambda>args. \<not> closes args) cmds") (simp_all add: shutdown_asked_def)
qed

lemma not_asked: "\<not> ends_session cmds \<Longrightarrow> \<not> shutdown_asked cmds"
proof -
  assume "\<not> ends_session cmds"
  then have "dropWhile (\<lambda>args. \<not> closes args) cmds = []" by simp
  then show "\<not> shutdown_asked cmds" by (simp only: shutdown_asked_def list.case simp_thms)
qed

text \<open>What the reader hands over: the commands, and last a query that closes.\<close>

lemma redis_request_queries:
  assumes "\<forall>args \<in> set cmds. command_ok args" "length cmds < fuel"
  shows "\<exists>qs q tail c'. redis_request fuel \<lparr>c_in = map Byte (concat (map encode cmds)), c_out = [], c_closed = False, c_late = late\<rparr>
        = (Inr (), c') \<and> c_out c' = map Struct qs @ Struct q # tail \<and> list_all2 carries qs (served cmds) \<and>
      q_close q \<and> (q_shutdown q \<longleftrightarrow> shutdown_asked cmds)"
proof -
  let ?c = "\<lparr>c_in = map Byte (concat (map encode cmds)), c_out = [], c_closed = False, c_late = late\<rparr> :: redis_query conn"
  let ?q = "\<lparr>q_argc = 0, q_close = False, q_shutdown = False, q_argv = zero_argv\<rparr>"
  obtain qs q' c' where l: "request_loop fuel ?q ?c = (Inr q', c')" "c_out c' = map Struct qs"
    "list_all2 carries qs (until_close cmds)" "c_closed c' \<longleftrightarrow> ends_session cmds" "q_close q' \<longleftrightarrow> ends_session cmds"
    using request_loop_encode [of ?c cmds ?q fuel] assms by (auto simp: zero_argv_def)
  show ?thesis
  proof (cases "ends_session cmds")
    case True
    then obtain qs0 q where q: "qs = qs0 @ [q]" "list_all2 carries qs0 (served cmds)"
        "carries q (hd (dropWhile (\<lambda>args. \<not> closes args) cmds))"
      using l(3) unfolding until_close_served by (auto simp: list_all2_append2 list_all2_Cons2)
    have "redis_request fuel ?c = (Inr (), c')" using l(1,5) True by (simp add: redis_request_def andThen_cases)
    then show ?thesis using q l(2) last_served [OF True]
      by (intro exI [of _ qs0] exI [of _ q] exI [of _ "[]"] exI [of _ c']) (simp add: carries_def)
  next
    case False
    have "redis_request fuel ?c = (Inr (), c'\<lparr>c_out := map Struct qs @ [Struct closing_query, Hup]\<rparr>)"
      using l(1,2,4,5) False
      by (simp add: redis_request_def andThen_cases vk_write_struct_task_def vk_hup_task_def put_def)
    then show ?thesis using l(3) False not_asked [OF False] unfolding until_close_served
      by (intro exI [of _ qs] exI [of _ closing_query] exI [of _ "[Hup]"]) (simp add: closing_query_def)
  qed
qed

lemma served_ok:
  "\<forall>args \<in> set cmds. command_ok args \<Longrightarrow> \<forall>args \<in> set (served cmds). args \<noteq> [] \<and> \<not> closes args"
  by (auto simp: served_def command_ok_def dest: set_takeWhileD)

lemma redis_response_answers:
  assumes "list_all2 carries qs cmds" "\<forall>args \<in> set cmds. args \<noteq> [] \<and> \<not> closes args" "sqlite_ok sql tab"
    and "c_in c = map Struct qs @ Struct q # xs" "\<not> c_closed c" "q_close q" "length cmds < fuel"
  shows "\<exists>d' c'. redis_response net sql (Some d) fuel c = (Inr (d', net \<and> q_shutdown q), c') \<and>
      tab d' = snd (spec_run cmds (tab d)) \<and> (c_closed c' \<longleftrightarrow> net) \<and>
      c_out c' = c_out c @ map Byte (fst (spec_run cmds (tab d)) @ (if q_shutdown q then [] else bytes_of (line_reply ''+OK'')))"
proof -
  obtain m where m: "fuel = length cmds + Suc m" using assms(7) less_iff_Suc_add by auto
  obtain d' late where l: "tab d' = snd (spec_run cmds (tab d))"
    "response_loop net sql fuel (d, False) c = response_loop net sql (Suc m) (d', False)
       (c\<lparr>c_in := Struct q # xs, c_out := c_out c @ map Byte (fst (spec_run cmds (tab d))), c_late := late\<rparr>)"
    using response_loop_spec [OF assms(1,2,3,4,5), of d net "Suc m" False] unfolding m by auto
  show ?thesis using assms(5,6) l
    by (intro exI [of _ d'])
      (auto simp: redis_response_def andThen_cases vk_read_struct_task_def answer_def vk_write_task_def put_def
        vk_tx_close_task_def)
qed

lemma redis_serve_run:
  assumes "\<forall>args \<in> set cmds. command_ok args" "sqlite_ok sql tab" "length cmds < fuel"
  shows "\<exists>d' c. redis_serve net sql (Some d) fuel late1 late2 (concat (map encode cmds)) =
        (Inr (d', net \<and> shutdown_asked cmds), c) \<and>
      tab d' = snd (spec_run (served cmds) (tab d)) \<and> (c_closed c \<longleftrightarrow> net) \<and>
      c_out c = map Byte (fst (spec_run (served cmds) (tab d)) @
        (if shutdown_asked cmds then [] else bytes_of (line_reply ''+OK'')))"
proof -
  obtain qs q tail c1 where r: "redis_request fuel
      \<lparr>c_in = map Byte (concat (map encode cmds)), c_out = [], c_closed = False, c_late = late1\<rparr> = (Inr (), c1)"
    "c_out c1 = map Struct qs @ Struct q # tail" "list_all2 carries qs (served cmds)" "q_close q"
    "q_shutdown q \<longleftrightarrow> shutdown_asked cmds"
    using redis_request_queries [OF assms(1,3), of late1] by auto
  have n: "length (served cmds) < fuel"
    using assms(3) length_takeWhile_le [of "\<lambda>args. \<not> closes args" cmds] by (simp add: served_def)
  show ?thesis
    using redis_response_answers [OF r(3) served_ok [OF assms(1)] assms(2) _ _ r(4) n,
        of "\<lparr>c_in = c_out c1, c_out = [], c_closed = False, c_late = late2\<rparr>" tail net d] r(1,2,5)
    by (simp add: redis_serve_def)
qed

end
