(* ===== verification/Redis_Props.thy ===== *)
theory Redis_Props
  imports Redis
begin

text \<open>
  What the Redis server and its command line client do: the server refines a key value map for
  every pipeline of commands, its reader ends on every input, the client only
  ever sends commands the server can read, and what happens to arguments whose length is wrong.
\<close>

subsection \<open>The server refines a map\<close>

text \<open>C5: The reader and the responder together refine a key value store: for every pipeline of well-formed
  commands, however the two ends of file are timed, the client receives exactly the replies of the
  abstract store to the commands before the first QUIT or SHUTDOWN, then +OK unless it was SHUTDOWN;
  the table then holds the store's contents, and the kernel is asked to stop exactly by SHUTDOWN.\<close>

theorem redis_serve_refines_store:
  assumes "\<forall>args \<in> set cmds. command_ok args" "sqlite_ok sql tab" "length cmds < fuel"
  shows "\<exists>d' c. redis_serve net sql (Some d) fuel late1 late2 (concat (map encode cmds)) =
        (Inr (d', net \<and> shutdown_asked cmds), c) \<and>
      tab d' = snd (spec_run (served cmds) (tab d)) \<and> (c_closed c \<longleftrightarrow> net) \<and>
      c_out c = map Byte (fst (spec_run (served cmds) (tab d)) @
        (if shutdown_asked cmds then [] else bytes_of (line_reply ''+OK'')))"
  using assms by (rule redis_serve_run)

definition map_sqlite :: "store sqlite" where
  "map_sqlite = \<lparr>sql_prepares = (\<lambda>d. True), sql_upsert = (\<lambda>k v d. (True, d(k := Some v))),
     sql_select = (\<lambda>k d. map_option Some (d k))\<rparr>"

lemma is_name_bytes: "is_name (bytes_of s) name \<longleftrightarrow> cs_key s = cs_key name"
  by (simp add: is_name_def)

lemma map_sqlite_ok: "sqlite_ok map_sqlite (\<lambda>d. d)"
  by (simp add: sqlite_ok_def map_sqlite_def)

theorem redis_serve_refines_store_witness:
  "\<exists>d' c. redis_serve True map_sqlite (Some (\<lambda>k. None)) 4 [] []
       (concat (map encode [[bytes_of ''SET'', bytes_of ''k'', bytes_of ''v''], [bytes_of ''get'', bytes_of ''k''], [bytes_of ''QUIT'']])) =
     (Inr (d', False), c) \<and> c_closed c \<and>
     c_out c = map Byte (bytes_of (line_reply ''+OK'') @ bulk_reply (bytes_of ''v'') @ bytes_of (line_reply ''+OK''))"
proof -
  let ?cmds = "[[bytes_of ''SET'', bytes_of ''k'', bytes_of ''v''], [bytes_of ''get'', bytes_of ''k''], [bytes_of ''QUIT'']]"
  have ok: "\<forall>args \<in> set ?cmds. command_ok args"
    by (simp add: command_ok_def REDIS_MAX_ARGS_def REDIS_MAX_BULK_def bytes_of_def)
  have keys: "\<not> closes [bytes_of ''SET'', bytes_of ''k'', bytes_of ''v'']" "\<not> closes [bytes_of ''get'', bytes_of ''k'']"
    "closes [bytes_of ''QUIT'']" "\<not> shuts_down [bytes_of ''QUIT'']"
    by (simp_all add: closes_def shuts_down_def is_name_bytes cs_key_def tolower_code_def)
  have served: "served ?cmds = [[bytes_of ''SET'', bytes_of ''k'', bytes_of ''v''], [bytes_of ''get'', bytes_of ''k'']]"
    "\<not> shutdown_asked ?cmds"
    using keys by (simp_all add: served_def shutdown_asked_def)
  have v: "c_str (bytes_of ''v'') = bytes_of ''v''" by (simp add: c_str_def bytes_of_def)
  have run: "fst (spec_run (served ?cmds) (\<lambda>k. None)) = bytes_of (line_reply ''+OK'') @ bulk_reply (bytes_of ''v'')"
    unfolding served by (simp add: spec_answer_def is_name_bytes cs_key_def tolower_code_def v)
  show ?thesis
    using redis_serve_refines_store [OF ok map_sqlite_ok, of 4 True "\<lambda>k. None" "[]" "[]"] served(2)
    unfolding run by simp blast
qed

subsection \<open>The reader ends\<close>

text \<open>C28: On every input, bytes or not, well-formed or not, the reader's loop leaves after at most one round per
  byte: with more fuel than input the coroutine never runs out of it.\<close>

theorem redis_request_terminates:
  "fst (redis_request (Suc (length (c_in c))) c) \<noteq> Inl Out_Of_Fuel"
proof -
  let ?q = "\<lparr>q_argc = 0, q_close = False, q_shutdown = False, q_argv = zero_argv\<rparr>"
  have "fst (request_loop (Suc (length (c_in c))) ?q c) \<noteq> Inl Out_Of_Fuel"
    using request_loop_ends [of c "Suc (length (c_in c))" ?q] by simp
  then show ?thesis unfolding redis_request_def
    by (rule andThen_ends) (auto intro!: steady_rules)
qed

subsection \<open>The client\<close>

lemma tokens_words:
  "0 \<notin> set word \<union> set bs \<Longrightarrow> \<forall>w \<in> set (tokens bs word). 0 \<notin> set w"
  by (induction bs word rule: tokens.induct) auto

lemma client_args_ok:
  assumes "args = map (take (REDIS_MAX_BULK - 1)) (take REDIS_MAX_ARGS (tokens (c_str line) []))" "args \<noteq> []"
  shows "command_ok args"
proof -
  have z: "0 \<notin> set (c_str line)" unfolding c_str_def by (auto dest: set_takeWhileD)
  have "\<forall>w \<in> set (take REDIS_MAX_ARGS (tokens (c_str line) [])). 0 \<notin> set (take n w)" for n
    using tokens_words [of "[]" "c_str line"] z by (auto dest!: in_set_takeD)
  then show ?thesis using assms by (auto simp: command_ok_def REDIS_MAX_BULK_def)
qed

definition sends_commands :: "redis_query conn \<Rightarrow> redis_query conn \<Rightarrow> bool" where
  "sends_commands c c' \<longleftrightarrow> (\<exists>cmds. c_out c' = c_out c @ map Byte (concat (map encode cmds)) \<and> (\<forall>args \<in> set cmds. command_ok args))"

lemma sends_nothing: "c_out c' = c_out c \<Longrightarrow> sends_commands c c'"
  unfolding sends_commands_def by (intro exI [of _ "[]"]) simp

lemma sends_then: "sends_commands c c1 \<Longrightarrow> sends_commands c1 c2 \<Longrightarrow> sends_commands c c2"
proof -
  assume "sends_commands c c1" "sends_commands c1 c2"
  then obtain xs ys where "c_out c1 = c_out c @ map Byte (concat (map encode xs))" "\<forall>args \<in> set xs. command_ok args"
    "c_out c2 = c_out c1 @ map Byte (concat (map encode ys))" "\<forall>args \<in> set ys. command_ok args"
    unfolding sends_commands_def by blast
  then show ?thesis unfolding sends_commands_def by (intro exI [of _ "xs @ ys"]) auto
qed

lemma client_once_sends:
  assumes "client_once c = (r, c')"
  shows "sends_commands c c'"
proof -
  obtain rl c1 where l: "vk_readline_task 255 c = (rl, c1)" by fastforce
  have out: "c_out c1 = c_out c"
    using l by (auto simp: vk_readline_task_def split: option.splits if_splits)
  show ?thesis
  proof (cases rl)
    case (Inl e)
    then show ?thesis using assms l out sends_nothing by (auto simp: client_once_def andThen_cases)
  next
    case (Inr line)
    define args where "args = map (take (REDIS_MAX_BULK - 1)) (take REDIS_MAX_ARGS (tokens (c_str line) []))"
    have run: "(if line = [] then give None
       else if args = [] then give (Some False)
       else andThen (vk_write_task (encode args)) (\<lambda>_.
         give (Some (strcasecmp (chars_of (hd args)) ''SHUTDOWN'' = 0 \<or> strcasecmp (chars_of (hd args)) ''QUIT'' = 0)))) c1 = (r, c')"
      using assms unfolding client_once_def andThen_cases [of "vk_readline_task 255"] l Inr prod.case sum.case
        Let_def args_def [symmetric] .
    show ?thesis
    proof (cases "line = [] \<or> args = [] \<or> c_closed c1")
      case True
      then show ?thesis using run out sends_nothing [of c' c]
        by (auto simp: andThen_cases vk_write_task_def put_def split: if_splits)
    next
      case False
      then have "c_out c' = c_out c @ map Byte (encode args)" using run out
        by (auto simp: andThen_cases vk_write_task_def put_def)
      then show ?thesis unfolding sends_commands_def
        using client_args_ok [OF args_def] False by (intro exI [of _ "[args]"]) simp
    qed
  qed
qed

lemma nodata_out: "vk_nodata_task c = (r, c') \<Longrightarrow> c_out c' = c_out c"
  using nodata_run [of c] by auto

lemma client_loop_sends: "client_loop fuel c = (r, c') \<Longrightarrow> sends_commands c c'"
proof (induction fuel arbitrary: c)
  case 0
  then show ?case using sends_nothing by auto
next
  case (Suc m)
  obtain r1 c1 where o: "client_once c = (r1, c1)" by fastforce
  obtain nd c2 where n: "vk_nodata_task c1 = (Inr nd, c2)" "c_out c2 = c_out c1" using nodata_run [of c1] by fastforce
  note s1 = client_once_sends [OF o]
  note s2 = sends_then [OF s1 sends_nothing [OF n(2)]]
  show ?case
  proof (cases "\<exists>close. r1 = Inr (Some close) \<and> \<not> nd \<and> \<not> close")
    case True
    then show ?thesis using Suc o n(1) sends_then [OF s2 Suc.IH] by (auto simp: andThen_cases)
  next
    case False
    then show ?thesis using Suc.prems o n(1) s1 s2
      by (auto simp: andThen_cases split: sum.splits option.splits if_splits)
  qed
qed

text \<open>C27: Whatever the user types, and however the end of file is timed, the command line client sends a
  sequence of commands the server's reader accepts: at most 8 arguments of at
  most 63 bytes each, in the framing the reader parses back.\<close>

theorem redis_client_sends_commands:
  "\<exists>cmds. c_out (snd (redis_client_request fuel c)) = c_out c @ map Byte (concat (map encode cmds)) \<and>
     list_all command_ok cmds"
proof -
  obtain r c' where l: "client_loop fuel c = (r, c')" by fastforce
  have "c_out (snd (redis_client_request fuel c)) = c_out c'"
    using l by (cases r) (simp_all add: redis_client_request_def andThen_cases vk_tx_close_task_def)
  then show ?thesis using client_loop_sends [OF l] by (simp add: sends_commands_def list_all_iff)
qed

subsection \<open>Arguments with a wrong length\<close>

lemma read_star_one:
  assumes "c_in c = map Byte (bytes_of (''*1'' @ [CHR 0x0D, CHR 0x0A])) @ xs"
  shows "vk_readline_task 127 c = (Inr [42, 49, 13, 10], c\<lparr>c_in := xs\<rparr>)"
  using assms by (simp add: vk_readline_task_def bytes_of_def)

lemma read_minus_one:
  assumes "c_in c = map Byte (bytes_of (''$-1'' @ [CHR 0x0D, CHR 0x0A])) @ xs"
  shows "vk_readline_task 127 c = (Inr [36, 45, 49, 13, 10], c\<lparr>c_in := xs\<rparr>)"
  using assms by (simp add: vk_readline_task_def bytes_of_def)

lemma take_bytes_all: "length bs \<le> n \<Longrightarrow> take_bytes n (map Byte bs) = Some (bs, [])"
proof (induction bs arbitrary: n)
  case Nil
  then show ?case by (cases n) simp_all
next
  case (Cons b bs)
  then show ?case by (cases n) simp_all
qed

lemma atoi_minus_one: "atoi (chars_of [45, 49, 13, 10]) = Some (- 1)" "atoi (chars_of [49, 13, 10]) = Some 1"
  by code_simp+

text \<open>An argument of length -1 is not refused: the length becomes the largest size_t, and more than 64 further
  bytes overflow the argument's buffer.\<close>

theorem redis_negative_bulk_overflows:
  assumes "REDIS_MAX_BULK < length bs" "length bs < 2 ^ 64"
  shows "fst (redis_request (Suc fuel) \<lparr>c_in = map Byte (bytes_of (''*1'' @ [CHR 0x0D, CHR 0x0A] @ ''$-1'' @ [CHR 0x0D, CHR 0x0A]) @ bs),
      c_out = [], c_closed = False, c_late = late\<rparr>) = Inl Undefined"
proof -
  let ?c0 = "\<lparr>c_in = map Byte (bytes_of (''*1'' @ [CHR 0x0D, CHR 0x0A] @ ''$-1'' @ [CHR 0x0D, CHR 0x0A]) @ bs),
      c_out = [], c_closed = False, c_late = late\<rparr> :: redis_query conn"
  let ?xs = "map Byte (bytes_of (''$-1'' @ [CHR 0x0D, CHR 0x0A]) @ bs)"
  let ?c1 = "?c0\<lparr>c_in := ?xs\<rparr>" and ?c2 = "?c0\<lparr>c_in := map Byte bs\<rparr>"
  have l1: "vk_readline_task 127 ?c0 = (Inr [42, 49, 13, 10], ?c1)" by (rule read_star_one) (simp add: bytes_of_def)
  have l2: "vk_readline_task 127 ?c1 = (Inr [36, 45, 49, 13, 10], ?c2)"
    using read_minus_one [of ?c1 "map Byte bs"] by simp
  have "unat (of_int (- 1) :: size_t) = 2 ^ 64 - 1" by (simp add: unsigned_minus_1_eq_mask mask_eq_exp_minus_1)
  moreover have "take_bytes (2 ^ 64 - 1) (c_in ?c2) = Some (bs, [])"
    using assms(2) take_bytes_all [of bs "2 ^ 64 - 1"] by simp
  ultimately have l3: "vk_read_task REDIS_MAX_BULK (of_int (- 1)) ?c2 = (Inl Undefined, ?c2)"
    using assms by (simp add: vk_read_task_def del: of_int_minus)
  have l4: "vk_read_task 64 (- 1) ?c2 = (Inl Undefined, ?c2)" using l3 by (simp add: REDIS_MAX_BULK_def)
  have arg: "read_arg old ?c1 = (Inl Undefined, ?c2)" for old
    using l4 unfolding read_arg_def run_steps l2 by (simp add: atoi_minus_one REDIS_MAX_BULK_def andThen_cases)
  have "request_once q ?c0 = (Inl Undefined, ?c2)" for q
    using arg unfolding request_once_def run_steps l1 by (simp add: atoi_minus_one REDIS_MAX_ARGS_def andThen_cases)
  then show ?thesis by (simp add: redis_request_def andThen_cases)
qed

theorem redis_negative_bulk_overflows_witness:
  "fst (redis_request 1 \<lparr>c_in = map Byte (bytes_of (''*1'' @ [CHR 0x0D, CHR 0x0A] @ ''$-1'' @ [CHR 0x0D, CHR 0x0A]) @ replicate 65 0),
      c_out = [], c_closed = False, c_late = []\<rparr>) = Inl Undefined"
  using redis_negative_bulk_overflows [of "replicate 65 0" 0 "[]"] by (simp add: REDIS_MAX_BULK_def)

text \<open>A bulk string that announces 64 bytes or more is cut at 63; the reader then skips only to the next
  newline, so whatever follows a newline inside the payload is read as the
  next argument or command.\<close>

theorem redis_long_bulk_injects:
  assumes "REDIS_MAX_BULK \<le> n" "n < 100" "length p = REDIS_MAX_BULK - 1" "10 \<notin> set mid" "length mid < 127"
    and "c_in c = map Byte (bytes_of (CHR ''$'' # decimal n @ [CHR 0x0D, CHR 0x0A]) @ p @ mid @ 10 # rest)"
  shows "read_arg old c = (Inr (p @ [0] @ drop REDIS_MAX_BULK old), c\<lparr>c_in := map Byte rest\<rparr>)"
proof -
  let ?line = "bytes_of (CHR ''$'' # decimal n @ [CHR 0x0D]) @ [10]"
  let ?c1 = "c\<lparr>c_in := map Byte (p @ mid @ 10 # rest)\<rparr>" and ?c2 = "c\<lparr>c_in := map Byte mid @ Byte 10 # map Byte rest\<rparr>"
  have l1: "vk_readline_task 127 c = (Inr ?line, ?c1)"
    by (rule read_head) (use assms in simp_all)
  have l2: "vk_read_task REDIS_MAX_BULK (of_int (int REDIS_MAX_BULK - 1)) ?c1 = (Inr p, ?c2)"
    using read_exact [of ?c1 p "map Byte mid @ Byte 10 # map Byte rest" "of_int (int REDIS_MAX_BULK - 1)" REDIS_MAX_BULK] assms(3)
    by (simp add: REDIS_MAX_BULK_def)
  have l3: "vk_readline_task 127 ?c2 = (Inr (mid @ [10]), c\<lparr>c_in := map Byte rest\<rparr>)"
    using readline_exact [of ?c2 mid "map Byte rest" 127] assms(4,5) by simp
  have at: "atoi (chars_of (tl ?line)) = Some (int n)" by (rule head_atoi) (use assms(2) in simp)
  have hd: "hd ?line = of_char CHR ''$''" "?line \<noteq> []" using head_hd by blast+
  have big: "int n \<ge> int REDIS_MAX_BULK" "int (length p) = int REDIS_MAX_BULK - 1"
    using assms(1,3) by (simp_all add: REDIS_MAX_BULK_def)
  show ?thesis
    by (simp only: read_arg_def run_steps l1 l2 l3 at hd big if_True if_False simp_thms)
      (simp add: assms(3) REDIS_MAX_BULK_def)
qed

theorem redis_long_bulk_injects_witness:
  "read_arg [] (\<lparr>c_in = map Byte (bytes_of (CHR ''$'' # decimal 81 @ [CHR 0x0D, CHR 0x0A]) @ replicate 63 65 @ [13] @ 10 #
       encode [bytes_of ''SHUTDOWN'']), c_out = [], c_closed = False, c_late = []\<rparr>) =
   (Inr (replicate 63 65 @ [0]), \<lparr>c_in = map Byte (encode [bytes_of ''SHUTDOWN'']), c_out = [], c_closed = False, c_late = []\<rparr>)"
  using redis_long_bulk_injects [of 81 "replicate 63 65" "[13]"
      "\<lparr>c_in = map Byte (bytes_of (CHR ''$'' # decimal 81 @ [CHR 0x0D, CHR 0x0A]) @ replicate 63 65 @ [13] @ 10 #
       encode [bytes_of ''SHUTDOWN'']), c_out = [], c_closed = False, c_late = []\<rparr>" "encode [bytes_of ''SHUTDOWN'']" "[]"]
  by (simp add: REDIS_MAX_BULK_def)

end
