(* ===== verification/Rfc_IO.thy ===== *)
theory Rfc_IO
  imports Rfc Stream_Task
begin

text \<open>
  The reading and writing macros of src/vk_rfc.h on streams, and the header line
  parser of src/vk_rfc.c: lines trimmed of CR LF, header lines split at the first separator,
  and the heads and tails of chunks. A buffer is the list of the bytes in use, and \<open>buf_of\<close> puts it
  into memory, followed by NULs.
\<close>

definition buf_of :: "byte list \<Rightarrow> buf" where
  "buf_of bs = (\<lambda>i. if i < length bs then bs ! i else 0)"

text \<open>\<open>strsep\<close>: the token, and the rest when there was a delimiter.\<close>

definition strsep :: "byte list \<Rightarrow> byte list \<Rightarrow> byte list \<times> byte list option" where
  "strsep delims s =
     (takeWhile (\<lambda>b. b \<notin> set delims) s,
      case dropWhile (\<lambda>b. b \<notin> set delims) s of [] \<Rightarrow> None | _ # rest \<Rightarrow> Some rest)"

text \<open>\<open>strncpy\<close> into a buffer of \<open>n\<close> bytes, the last of which is set to NUL.\<close>

definition copy_into :: "nat \<Rightarrow> byte list \<Rightarrow> byte list" where
  "copy_into n s = take (n - 1) s"

definition rtrim_line :: "byte list \<Rightarrow> byte list" where
  "rtrim_line line = (case rtrim (buf_of line) (int (length line)) of (buf, sz) \<Rightarrow> map buf [0..<nat sz])"

text \<open>\<open>below k\<close> is what lies \<open>k\<close> words below the size, which \<open>ltrim\<close> looks at (see \<open>Rfc\<close>).\<close>

definition ltrimlen :: "(nat \<Rightarrow> int) \<Rightarrow> byte list \<Rightarrow> byte list" where
  "ltrimlen below s =
     (case ltrim (Suc (length s)) (\<lambda>k. if k = 0 then int (length s) else below k) (buf_of s) of
        None \<Rightarrow> s | Some k \<Rightarrow> drop k s)"

text \<open>\<open>None\<close> is the end of the headers. The separators are colon, space and tab.\<close>

definition parse_header :: "(nat \<Rightarrow> int) \<Rightarrow> byte list \<Rightarrow> (byte list \<times> byte list) option" where
  "parse_header below line =
     (let line' = rtrim_line line
      in if line' = [] then None
         else case strsep [58, 32, 9] (c_str line') of
           (key, None) \<Rightarrow> None
         | (key, Some tok) \<Rightarrow> Some (key, ltrimlen below tok))"

subsection \<open>Lines and headers\<close>

text \<open>\<open>room\<close> is the size of the buffer.\<close>

definition vk_readrfcline_task :: "nat \<Rightarrow> ('q, byte list) task" where
  "vk_readrfcline_task room =
     andThen (vk_readline_task room) (\<lambda>line.
       if line = [] then vk_raise_task EPIPE else give (rtrim_line line))"

text \<open>The line is terminated in its buffer, where there must be room.\<close>

definition terminated :: "nat \<Rightarrow> byte list \<Rightarrow> ('q, byte list) task" where
  "terminated room line = (if length line < room then give line else fail Undefined)"

definition vk_readrfcheader_task :: "(nat \<Rightarrow> int) \<Rightarrow> nat \<Rightarrow> ('q, (byte list \<times> byte list) option) task" where
  "vk_readrfcheader_task below room =
     andThen (vk_readrfcline_task room) (\<lambda>line.
       andThen (terminated room (rtrim_line line)) (\<lambda>_. give (parse_header below line)))"

definition vk_writerfcheader_task :: "byte list \<Rightarrow> byte list \<Rightarrow> ('q, unit) task" where
  "vk_writerfcheader_task key val =
     andThen (vk_write_task key) (\<lambda>_. andThen (vk_write_task [58, 32]) (\<lambda>_.
       andThen (vk_write_task val) (\<lambda>_. vk_write_task [13, 10])))"

subsection \<open>Chunks\<close>

text \<open>The head of a chunk has 19 bytes, of which 18 are offered; the result is the size, and 0 ends the chunks.\<close>

definition vk_readrfcchunkheader_task :: "('q, size_t) task" where
  "vk_readrfcchunkheader_task =
     andThen (vk_readrfcline_task 19) (\<lambda>line.
       if line = [] \<or> length line > 18 - 1 then vk_raise_task EPROTO
       else give (ch_size (vk_rfcchunkhead_update_size \<lparr>ch_size = 0, ch_head = buf_of line, ch_tail = buf_of []\<rparr>)))"

definition vk_readrfcchunkfooter_task :: "size_t \<Rightarrow> ('q, unit) task" where
  "vk_readrfcchunkfooter_task sz =
     (if sz > 0
      then andThen (vk_read_task 3 2) (\<lambda>tail.
             if length tail \<noteq> 2 then vk_raise_task EPIPE
             else if tail ! 0 \<noteq> 13 \<or> tail ! 1 \<noteq> 10 then vk_raise_task EPROTO
             else give ())
      else give ())"

text \<open>The head is built in a cleared buffer.\<close>

definition chunk_head :: "size_t \<Rightarrow> byte list" where
  "chunk_head sz =
     (case vk_rfcchunkhead_update_head \<lparr>ch_size = sz, ch_head = buf_of [], ch_tail = buf_of []\<rparr> of
        (c, rc) \<Rightarrow> map (ch_head c) [0..<rc])"

definition vk_writerfcchunkheader_task :: "size_t \<Rightarrow> ('q, unit) task" where
  "vk_writerfcchunkheader_task sz = vk_write_task (chunk_head sz)"

definition vk_writerfcchunkfooter_task :: "('q, unit) task" where
  "vk_writerfcchunkfooter_task = vk_write_task [13, 10]"

definition vk_writerfcchunkend_task :: "('q, unit) task" where
  "vk_writerfcchunkend_task = vk_write_task (bytes_of [CHR ''0'', CHR 0x0D, CHR 0x0A, CHR 0x0D, CHR 0x0A])"

subsection \<open>Trimming\<close>

lemma buf_of_upd: "i < length bs \<Longrightarrow> (buf_of bs)(i := b) = buf_of (bs[i := b])"
  by (auto simp: buf_of_def fun_eq_iff nth_list_update)

lemma map_buf_of: "n \<le> length bs \<Longrightarrow> map (buf_of bs) [0..<n] = take n bs"
  by (rule nth_equalityI) (simp_all add: buf_of_def)

text \<open>What trimming a line means: one newline, then one carriage return.\<close>

definition chop :: "byte \<Rightarrow> byte list \<Rightarrow> byte list" where
  "chop b line = (if line \<noteq> [] \<and> last line = b then butlast line else line)"

lemma last_take: "0 < n \<Longrightarrow> n \<le> length bs \<Longrightarrow> last (take n bs) = bs ! (n - 1)"
proof -
  assume "0 < n" "n \<le> length bs"
  then have "take n bs = take (n - 1) bs @ [bs ! (n - 1)]" using take_Suc_conv_app_nth [of "n - 1" bs] by simp
  then show ?thesis by simp
qed

lemma rtrim_one_chop:
  "n \<le> length bs \<Longrightarrow> \<exists>bs' n'. rtrim_one b (buf_of bs) (int n) = (buf_of bs', int n') \<and> n' \<le> length bs' \<and>
     take n' bs' = chop b (take n bs)"
proof (cases "n > 0 \<and> bs ! (n - 1) = b")
  case True
  assume n: "n \<le> length bs"
  have "nat (int n - 1) = n - 1" by simp
  then have "rtrim_one b (buf_of bs) (int n) = (buf_of (bs[n - 1 := 0]), int (n - 1))"
    using True n buf_of_upd [of "n - 1" bs 0] by (auto simp: rtrim_one_def buf_of_def of_nat_diff)
  moreover have "take (n - 1) (bs[n - 1 := 0]) = chop b (take n bs)"
    using True n last_take [of n bs] by (auto simp: chop_def butlast_take)
  ultimately show ?thesis using n by (intro exI [of _ "bs[n - 1 := 0]"] exI [of _ "n - 1"]) simp
next
  case False
  assume n: "n \<le> length bs"
  have i: "nat (int n - 1) = n - 1" by simp
  have "rtrim_one b (buf_of bs) (int n) = (buf_of bs, int n)"
  proof (cases "n = 0")
    case False
    then have "bs ! (n - 1) \<noteq> b" "n - 1 < length bs" using \<open>\<not> (n > 0 \<and> bs ! (n - 1) = b)\<close> n by simp_all
    then show ?thesis using n False by (simp add: rtrim_one_def i buf_of_def)
  qed (simp add: rtrim_one_def)
  moreover have "take n bs = chop b (take n bs)" using False n last_take [of n bs] by (auto simp: chop_def)
  ultimately show ?thesis using n by (intro exI [of _ bs] exI [of _ n]) simp
qed

lemma rtrim_line_chop: "rtrim_line line = chop 13 (chop 10 line)"
proof -
  obtain b1 n1 where a: "rtrim_one 10 (buf_of line) (int (length line)) = (buf_of b1, int n1)" "n1 \<le> length b1"
    "take n1 b1 = chop 10 line" using rtrim_one_chop [of "length line" line 10] by auto
  obtain b2 n2 where b: "rtrim_one 13 (buf_of b1) (int n1) = (buf_of b2, int n2)" "n2 \<le> length b2"
    "take n2 b2 = chop 13 (chop 10 line)" using rtrim_one_chop [OF a(2), of 13] a(3) by auto
  show ?thesis using a(1) b by (simp add: rtrim_line_def rtrim_def map_buf_of)
qed

lemma chop_length: "length (chop b line) \<le> length line"
  by (simp add: chop_def)

lemma rtrim_line_length: "length (rtrim_line line) \<le> length line"
  using chop_length [of 13 "chop 10 line"] chop_length [of 10 line] by (simp add: rtrim_line_chop)

lemma rtrim_line_crlf: "rtrim_line (line @ [13, 10]) = line"
  by (simp add: rtrim_line_chop chop_def butlast_append)

lemma rtrim_line_plain: "line = [] \<or> last line \<noteq> 13 \<and> last line \<noteq> 10 \<Longrightarrow> rtrim_line line = line"
  by (auto simp: rtrim_line_chop chop_def)

lemma readrfcline_exact:
  assumes "c_in c = map Byte (line @ [13, 10]) @ xs" "10 \<notin> set line" "length line + 2 \<le> room"
  shows "vk_readrfcline_task room c = (Inr line, c\<lparr>c_in := xs\<rparr>)"
proof -
  have "vk_readline_task room c = (Inr ((line @ [13]) @ [10]), c\<lparr>c_in := xs\<rparr>)"
    by (rule readline_exact) (use assms in simp_all)
  then show ?thesis using rtrim_line_crlf [of line] by (simp add: vk_readrfcline_task_def andThen_cases)
qed

subsection \<open>A printed header parses back\<close>

definition header_ok :: "byte list \<times> byte list \<Rightarrow> bool" where
  "header_ok h \<longleftrightarrow> fst h \<noteq> [] \<and> set (fst h) \<inter> {0, 9, 10, 32, 58} = {} \<and> set (snd h) \<inter> {0, 10} = {} \<and>
     snd h \<noteq> [] \<and> hd (snd h) \<noteq> 32 \<and> last (snd h) \<noteq> 13 \<and> length (fst h) + length (snd h) + 4 \<le> 1024"

definition header_line :: "byte list \<times> byte list \<Rightarrow> byte list" where
  "header_line h = fst h @ [58, 32] @ snd h @ [13, 10]"

lemma writerfcheader_line:
  "\<not> c_closed c \<Longrightarrow> vk_writerfcheader_task key val c = (Inr (), c\<lparr>c_out := c_out c @ map Byte (header_line (key, val))\<rparr>)"
  by (simp add: vk_writerfcheader_task_def andThen_cases vk_write_task_def put_def header_line_def)

lemma ltrimlen_one: "s \<noteq> [] \<Longrightarrow> hd s \<noteq> 32 \<Longrightarrow> ltrimlen below (32 # s) = s"
  by (cases s) (simp_all add: ltrimlen_def ltrim_def buf_of_def)

lemma c_str_id: "0 \<notin> set s \<Longrightarrow> c_str s = s"
  unfolding c_str_def by (induction s) auto

lemma strsep_at:
  assumes "set s \<inter> set ds = {}" "d \<in> set ds"
  shows "strsep ds (s @ d # rest) = (s, Some rest)"
proof -
  have "\<forall>b \<in> set s. b \<notin> set ds" using assms(1) by auto
  then show ?thesis using assms(2) by (simp add: strsep_def takeWhile_append2 dropWhile_append2)
qed

lemma strsep_none:
  assumes "set s \<inter> set ds = {}"
  shows "strsep ds s = (s, None)"
proof -
  have "\<forall>b \<in> set s. b \<notin> set ds" using assms by auto
  then have "takeWhile (\<lambda>b. b \<notin> set ds) s = s" "dropWhile (\<lambda>b. b \<notin> set ds) s = []"
    by (simp_all add: takeWhile_eq_all_conv dropWhile_eq_Nil_conv)
  then show ?thesis by (simp only: strsep_def list.case)
qed

lemma parse_header_line:
  assumes "header_ok h"
  shows "parse_header below (fst h @ [58, 32] @ snd h) = Some h"
proof -
  let ?l = "fst h @ [58, 32] @ snd h"
  have "last (snd h) \<in> set (snd h)" using assms by (simp add: header_ok_def)
  then have "last (snd h) \<noteq> 10" using assms unfolding header_ok_def by (metis IntI empty_iff insert_iff)
  then have "rtrim_line ?l = ?l" using assms by (intro rtrim_line_plain) (auto simp: header_ok_def)
  moreover have "c_str ?l = ?l" using assms by (intro c_str_id) (auto simp: header_ok_def)
  moreover have "strsep [58, 32, 9] ?l = (fst h, Some (32 # snd h))"
    using strsep_at [of "fst h" "[58, 32, 9]" 58 "32 # snd h"] assms by (auto simp: header_ok_def)
  ultimately show ?thesis using assms by (simp add: parse_header_def ltrimlen_one header_ok_def)
qed

lemma readrfcheader_exact:
  assumes "c_in c = map Byte (header_line h) @ xs" "header_ok h"
  shows "vk_readrfcheader_task below 1024 c = (Inr (Some h), c\<lparr>c_in := xs\<rparr>)"
proof -
  let ?l = "fst h @ [58, 32] @ snd h"
  have "vk_readrfcline_task 1024 c = (Inr ?l, c\<lparr>c_in := xs\<rparr>)"
    by (rule readrfcline_exact) (use assms in \<open>auto simp: header_line_def header_ok_def\<close>)
  moreover have "length (rtrim_line ?l) < 1024"
    using rtrim_line_length [of ?l] assms(2) by (simp add: header_ok_def)
  ultimately show ?thesis using parse_header_line [OF assms(2)]
    by (simp add: vk_readrfcheader_task_def andThen_cases terminated_def)
qed

lemma readrfcheader_end:
  assumes "c_in c = map Byte [13, 10] @ xs"
  shows "vk_readrfcheader_task below 1024 c = (Inr None, c\<lparr>c_in := xs\<rparr>)"
proof -
  have "vk_readrfcline_task 1024 c = (Inr [], c\<lparr>c_in := xs\<rparr>)"
    by (rule readrfcline_exact) (use assms in auto)
  moreover have "rtrim_line [] = []" by (simp add: rtrim_line_chop chop_def)
  ultimately show ?thesis
    by (simp add: vk_readrfcheader_task_def andThen_cases terminated_def parse_header_def)
qed

subsection \<open>A written chunk reads back\<close>

lemma chunk_head_digits:
  assumes "0 < unat sz" "unat sz < 2 ^ 61"
  shows "\<exists>ds. chunk_head sz = ds @ [13, 10] \<and> ds \<noteq> [] \<and> length ds \<le> 16 \<and> 10 \<notin> set ds \<and> hex_size (buf_of ds) = sz"
proof -
  note b = flsh_bounds [OF assms]
  let ?k = "flsh sz"
  define ds :: "byte list" where "ds = map (\<lambda>t. ucast (VALHEX (hex_digit sz (16 - ?k + t)))) [0..<?k]"
  have "size_hex (buf_of []) 18 sz =
      ((\<lambda>t. if t < ?k then ucast (VALHEX (hex_digit sz (16 - ?k + t))) else buf_of [] t), ?k)"
    by (rule size_hex_digits [OF assms]) simp
  then have "chunk_head sz = ds @ [13, 10]"
    by (simp add: chunk_head_def vk_rfcchunkhead_update_head_def ds_def)
  moreover have "hex_size (buf_of ds) = sz"
  proof -
    have "take_bit (4 * ?k) (unat sz) = unat sz" using b(4) by (rule take_bit_nat_eq_self)
    then have "drop_bit (4 * ?k) sz = 0"
      by (simp add: word_eq_unat unat_drop_bit_eq flip: take_bit_eq_self_iff_drop_bit_eq_0)
    moreover have "hex_size_loop (buf_of ds) 0 (drop_bit (4 * (?k - 0)) sz) = sz"
      using b by (intro hex_size_loop_digits) (simp_all add: ds_def buf_of_def)
    ultimately show ?thesis by (simp add: hex_size_def)
  qed
  moreover have "10 \<notin> set ds"
  proof
    assume "10 \<in> set ds"
    then obtain t where t: "(10 :: byte) = ucast (VALHEX (hex_digit sz (16 - ?k + t)))" by (auto simp: ds_def)
    have "\<forall>i \<in> set [0..<16]. (ucast (VALHEX (of_nat i)) :: byte) \<noteq> 10" by code_simp
    let ?v = "hex_digit sz (16 - ?k + t)"
    have "unat ?v \<in> set [0..<16]" "of_nat (unat ?v) = ?v" using hex_digit_small [of sz "16 - ?k + t"] by simp_all
    with \<open>\<forall>i \<in> set [0..<16]. _\<close> have "(ucast (VALHEX ?v) :: byte) \<noteq> 10" by metis
    then show False using t by simp
  qed
  ultimately show ?thesis using b by (intro exI [of _ ds]) (simp add: ds_def)
qed

lemma readrfcchunkheader_exact:
  assumes "c_in c = map Byte (chunk_head sz) @ xs" "0 < unat sz" "unat sz < 2 ^ 61"
  shows "vk_readrfcchunkheader_task c = (Inr sz, c\<lparr>c_in := xs\<rparr>)"
proof -
  obtain ds where ds: "chunk_head sz = ds @ [13, 10]" "ds \<noteq> []" "length ds \<le> 16" "10 \<notin> set ds" "hex_size (buf_of ds) = sz"
    using chunk_head_digits [OF assms(2,3)] by blast
  have "vk_readrfcline_task 19 c = (Inr ds, c\<lparr>c_in := xs\<rparr>)"
    by (rule readrfcline_exact) (use assms(1) ds in simp_all)
  then show ?thesis using ds
    by (simp add: vk_readrfcchunkheader_task_def andThen_cases vk_rfcchunkhead_update_size_def)
qed

lemma readrfcchunkheader_end:
  assumes "c_in c = map Byte [48, 13, 10] @ xs"
  shows "vk_readrfcchunkheader_task c = (Inr 0, c\<lparr>c_in := xs\<rparr>)"
proof -
  have "vk_readrfcline_task 19 c = (Inr [48], c\<lparr>c_in := xs\<rparr>)"
    by (rule readrfcline_exact) (use assms in simp_all)
  moreover have "hex_size (buf_of [48]) = 0" by code_simp
  ultimately show ?thesis
    by (simp add: vk_readrfcchunkheader_task_def andThen_cases vk_rfcchunkhead_update_size_def)
qed

lemma readrfcchunkfooter_exact:
  assumes "c_in c = map Byte [13, 10] @ xs"
  shows "vk_readrfcchunkfooter_task sz c = (Inr (), if sz > 0 then c\<lparr>c_in := xs\<rparr> else c)"
proof -
  have "vk_read_task 3 2 c = (Inr [13, 10], c\<lparr>c_in := xs\<rparr>)"
    using read_exact [of c "[13, 10]" xs 2 3] assms by simp
  then show ?thesis by (simp add: vk_readrfcchunkfooter_task_def andThen_cases)
qed

subsection \<open>Fuel\<close>

lemma steady_rfc [steady_rules]:
  "steady (vk_readrfcline_task n)" "steady (terminated n line)" "steady (vk_readrfcheader_task below n)"
  "steady (vk_writerfcheader_task key val)" "steady vk_readrfcchunkheader_task" "steady (vk_readrfcchunkfooter_task sz)"
  "steady (vk_writerfcchunkheader_task sz)" "steady vk_writerfcchunkfooter_task" "steady vk_writerfcchunkend_task"
proof -
  show line: "steady (vk_readrfcline_task n)" for n
    unfolding vk_readrfcline_task_def by (auto intro!: steady_rules)
  show trm: "steady (terminated n line)" for n line unfolding terminated_def by (auto intro!: steady_rules)
  show "steady (vk_readrfcheader_task below n)"
    unfolding vk_readrfcheader_task_def by (intro steady_andThen line trm steady_give)
  show "steady vk_readrfcchunkheader_task"
    unfolding vk_readrfcchunkheader_task_def by (auto intro!: steady_rules line)
  show "steady (vk_readrfcchunkfooter_task sz)"
    unfolding vk_readrfcchunkfooter_task_def by (auto intro!: steady_rules)
qed (unfold vk_writerfcheader_task_def vk_writerfcchunkheader_task_def vk_writerfcchunkfooter_task_def
  vk_writerfcchunkend_task_def, (intro steady_rules)+)

lemma readrfcline_consumes:
  assumes "vk_readrfcline_task n c = (Inr line, c')"
  shows "length (c_in c') < length (c_in c)"
proof -
  obtain r c1 where l: "vk_readline_task n c = (r, c1)" by fastforce
  then show ?thesis using assms readline_consumes [of n c _ c1]
    by (cases r) (auto simp: vk_readrfcline_task_def andThen_cases split: if_splits)
qed

text \<open>A task whose first step takes from its input.\<close>

lemma andThen_consumes:
  assumes "andThen m f c = (Inr x, c')" "\<And>y c1. m c = (Inr y, c1) \<Longrightarrow> length (c_in c1) < length (c_in c)" "\<And>y. steady (f y)"
  shows "length (c_in c') < length (c_in c)"
proof -
  obtain r c1 where m: "m c = (r, c1)" by fastforce
  show ?thesis
  proof (cases r)
    case (Inl e)
    then show ?thesis using assms(1) m by (simp add: andThen_cases)
  next
    case (Inr y)
    then have "f y c1 = (Inr x, c')" using assms(1) m by (simp add: andThen_cases)
    then show ?thesis using assms(2) m Inr steady_run(2) [OF assms(3)] by (meson order_le_less_trans)
  qed
qed

lemma readrfcheader_consumes:
  assumes "vk_readrfcheader_task below n c = (Inr h, c')"
  shows "length (c_in c') < length (c_in c)"
  using assms unfolding vk_readrfcheader_task_def
  by (rule andThen_consumes) (auto intro!: steady_rules dest: readrfcline_consumes)

lemma readrfcchunkheader_consumes:
  assumes "vk_readrfcchunkheader_task c = (Inr sz, c')"
  shows "length (c_in c') < length (c_in c)"
  using assms unfolding vk_readrfcchunkheader_task_def
  by (rule andThen_consumes) (auto intro!: steady_rules dest: readrfcline_consumes)

end
