(* ===== verification/Http11.thy ===== *)
theory Http11
  imports Rfc_IO Http_Enum
begin

text \<open>
  The HTTP server coroutines (src/vk_http11.c): the reader of requests, which hands a request
  structure and then the entity to the responder over a pipe, and the responder, which greets a GET and
  echoes the entity of everything else.
\<close>

record request =
  rq_method :: HTTP_METHOD
  rq_uri :: "byte list"
  rq_version :: HTTP_VERSION
  rq_headers :: "(byte list \<times> byte list) list"
  rq_content_length :: size_t
  rq_chunked :: bool
  rq_close :: bool

type_synonym 'a http = "(request, 'a) task"

text \<open>What the coroutines take from their surroundings: the words below a stack variable of
  \<open>parse_header\<close>, the \<open>errno\<close> left by earlier calls, and the messages of \<open>strerror\<close>.\<close>

record c_env =
  env_below :: "nat \<Rightarrow> int"
  env_errno :: errno
  env_strerror :: "errno \<Rightarrow> string"

subsection \<open>The reader\<close>

text \<open>The arrays of a header are \<open>char key[32]\<close> and \<open>char val[96]\<close>; \<open>header_count\<close> is
  the length of the list.\<close>

definition store_header :: "byte list \<Rightarrow> byte list \<Rightarrow> request \<Rightarrow> request" where
  "store_header key val rq =
     (if length (rq_headers rq) \<ge> 15 then rq
      else rq\<lparr>rq_headers := rq_headers rq @ [(copy_into 32 key, copy_into 96 val)]\<rparr>)"

definition apply_header :: "byte list \<Rightarrow> byte list \<Rightarrow> request \<Rightarrow> request" where
  "apply_header key val rq =
     (case string_to_HTTP_HEADER (chars_of key) of
        TRANSFER_ENCODING \<Rightarrow> if strcasecmp (chars_of val) ''chunked'' = 0 then rq\<lparr>rq_chunked := True\<rparr> else rq
      | CONTENT_LENGTH \<Rightarrow> rq\<lparr>rq_content_length := dec_size (buf_of val)\<rparr>
      | CONNECTION \<Rightarrow> if strcasecmp (chars_of val) ''close'' = 0 then rq\<lparr>rq_close := True\<rparr> else rq
      | _ \<Rightarrow> rq)"

definition apply_trailer :: "byte list \<Rightarrow> byte list \<Rightarrow> request \<Rightarrow> request" where
  "apply_trailer key val rq =
     (case string_to_HTTP_TRAILER (chars_of key) of
        POST_CONTENT_LENGTH \<Rightarrow> rq\<lparr>rq_content_length := dec_size (buf_of val)\<rparr>
      | _ \<Rightarrow> rq)"

text \<open>Header lines or trailers up to the end of the headers.\<close>

fun header_loop :: "c_env \<Rightarrow> (byte list \<Rightarrow> byte list \<Rightarrow> request \<Rightarrow> request) \<Rightarrow> nat \<Rightarrow> request \<Rightarrow> request http" where
  "header_loop env act 0 rq = fail Out_Of_Fuel"
| "header_loop env act (Suc m) rq =
     andThen (vk_readrfcheader_task (env_below env) 1024) (\<lambda>h.
       case h of
         None \<Rightarrow> give rq
       | Some (key, val) \<Rightarrow> header_loop env act m (store_header key val (act key val rq)))"

definition closes_by_version :: "HTTP_VERSION \<Rightarrow> bool" where
  "closes_by_version v = (case v of HTTP11 \<Rightarrow> False | HTTP20 \<Rightarrow> False | _ \<Rightarrow> True)"

text \<open>The request line: a method, an URI and a version, separated by one space or tab each.\<close>

definition request_line :: "request http" where
  "request_line =
     andThen (vk_readrfcline_task 1024) (\<lambda>line.
       if line = [] then vk_raise_task EINVAL
       else andThen (terminated 1024 line) (\<lambda>line.
         case strsep [32, 9] (c_str line) of
           (method, None) \<Rightarrow> vk_raise_task EINVAL
         | (method, Some tok) \<Rightarrow>
             (case strsep [32, 9] tok of (uri, tok') \<Rightarrow>
                (let version = (case tok' of None \<Rightarrow> HTTP09
                                | Some t \<Rightarrow> string_to_HTTP_VERSION (chars_of (fst (strsep [32, 9] t))))
                 in give \<lparr>rq_method = string_to_HTTP_METHOD (chars_of method), rq_uri = copy_into 1024 uri,
                          rq_version = version, rq_headers = [], rq_content_length = 0, rq_chunked = False,
                          rq_close = closes_by_version version\<rparr>))))"

definition request_head :: "c_env \<Rightarrow> nat \<Rightarrow> request http" where
  "request_head env fuel =
     andThen request_line (\<lambda>rq.
       if rq_version rq \<noteq> HTTP09 then header_loop env apply_header fuel rq else give rq)"

text \<open>The chunks of an entity are forwarded without their heads.\<close>

fun chunk_loop :: "nat \<Rightarrow> unit http" where
  "chunk_loop 0 = fail Out_Of_Fuel"
| "chunk_loop (Suc m) =
     andThen vk_readrfcchunkheader_task (\<lambda>sz.
       if sz = 0 then give ()
       else andThen (vk_forward_task sz) (\<lambda>rc.
         if rc \<noteq> unat sz then vk_raise_task EPIPE
         else andThen (vk_readrfcchunkfooter_task sz) (\<lambda>_.
           if sz > 0 then chunk_loop m else give ())))"

text \<open>The connection preface of HTTP/2; the result tells whether the loop is left.\<close>

definition http2_preface :: "c_env \<Rightarrow> bool http" where
  "http2_preface env =
     andThen (vk_readline_task 1024) (\<lambda>line.
       if line = [] then give True
       else andThen (terminated 1024 (rtrim_line line)) (\<lambda>line.
         if line \<noteq> bytes_of ''SM'' then vk_raise_task EINVAL
         else andThen (vk_readline_task 1024) (\<lambda>line.
           if line \<noteq> [] then vk_raise_task (env_errno env) else give False)))"

definition request_entity :: "c_env \<Rightarrow> nat \<Rightarrow> request \<Rightarrow> bool http" where
  "request_entity env fuel rq =
     (if rq_content_length rq > 0
      then andThen (vk_forward_task (rq_content_length rq)) (\<lambda>rc.
             if rc \<noteq> unat (rq_content_length rq) then vk_raise_task EPIPE else give False)
      else if rq_chunked rq
      then andThen (chunk_loop fuel) (\<lambda>_. andThen vk_hup_task (\<lambda>_.
             andThen (header_loop env apply_trailer fuel rq) (\<lambda>_. give False)))
      else if rq_method rq = PRI \<and> rq_version rq = HTTP20 then http2_preface env
      else give False)"

text \<open>One request; the result is the request and whether the loop is left. The URI \<open>/crash\<close> divides by
  zero.\<close>

definition http_request_once :: "c_env \<Rightarrow> nat \<Rightarrow> (request \<times> bool) http" where
  "http_request_once env fuel =
     andThen (request_head env fuel) (\<lambda>rq.
       if take 6 (rq_uri rq) = bytes_of ''/crash'' then fail Undefined
       else andThen (vk_write_struct_task rq) (\<lambda>_.
         andThen (request_entity env fuel rq) (\<lambda>leave. give (rq, leave))))"

fun http_request_loop :: "c_env \<Rightarrow> nat \<Rightarrow> nat \<Rightarrow> unit http" where
  "http_request_loop env fuel 0 = fail Out_Of_Fuel"
| "http_request_loop env fuel (Suc m) =
     andThen (http_request_once env fuel) (\<lambda>(rq, leave).
       if leave then give ()
       else andThen vk_nodata_task (\<lambda>nodata.
         if \<not> nodata \<and> \<not> rq_close rq then http_request_loop env fuel m else give ()))"

text \<open>The coroutine up to its \<open>vk_finally\<close>. Every loop takes from the input, so one fuel serves all.\<close>

definition http11_request :: "c_env \<Rightarrow> nat \<Rightarrow> unit http" where
  "http11_request env fuel = http_request_loop env fuel fuel"

subsection \<open>The responder\<close>

definition crlf :: "string \<Rightarrow> byte list" where
  "crlf s = bytes_of (s @ [CHR 0x0D, CHR 0x0A])"

definition hello :: "byte list" where
  "hello = bytes_of (''Hello, World!'' @ [CHR 0x0A])"

definition http09_body :: "byte list" where
  "http09_body = bytes_of (concat (map (\<lambda>l. l @ [CHR 0x0A])
     [''<html>'', CHR 0x09 # ''<head>'', CHR 0x09 # CHR 0x09 # ''<title>HTTP/0.9 response</title>'', CHR 0x09 # ''</head>'',
      CHR 0x09 # ''<body>'', CHR 0x09 # CHR 0x09 # ''<h1>HTTP/0.9 response</h1>'',
      CHR 0x09 # CHR 0x09 # ''<p>This is an example response.</p>'', CHR 0x09 # ''</body>'', ''</html>'']))"

definition length_header :: "size_t \<Rightarrow> byte list" where
  "length_header n = crlf (''Content-Length: '' @ decimal (unat n))"

text \<open>\<open>vk_pollread\<close> waits for input and tells how many bytes have arrived: \<open>n\<close>, but at least one and
  no more than there are.\<close>

definition vk_pollread_task :: "nat \<Rightarrow> nat http" where
  "vk_pollread_task n c =
     (case c_in c of
        Byte b # rest \<Rightarrow> (Inr (max 1 (min n (length (takeWhile (\<lambda>a. case a of Byte b \<Rightarrow> True | _ \<Rightarrow> False) (c_in c))))), c)
      | Struct q # rest \<Rightarrow> (Inl Undefined, c)
      | _ \<Rightarrow> (Inr 0, c))"

text \<open>The entity is written in chunks, one for what has arrived; \<open>arrivals\<close> are the sizes, and the result is
  what is left of them.\<close>

fun echo_chunks :: "nat \<Rightarrow> nat list \<Rightarrow> nat list http" where
  "echo_chunks 0 arrivals = fail Out_Of_Fuel"
| "echo_chunks (Suc m) arrivals =
     andThen vk_pollhup_task (\<lambda>hup.
       if hup then give arrivals
       else andThen (vk_pollread_task (if arrivals = [] then 1 else hd arrivals)) (\<lambda>n.
         if n > 0
         then andThen (vk_writerfcchunkheader_task (of_nat n)) (\<lambda>_.
                andThen (vk_forward_task (of_nat n)) (\<lambda>rc.
                  if rc < n then vk_raise_task EPIPE
                  else andThen vk_writerfcchunkfooter_task (\<lambda>_. echo_chunks m (tl arrivals))))
         else echo_chunks m (tl arrivals)))"

definition echo_fixed :: "size_t \<Rightarrow> unit http" where
  "echo_fixed n =
     andThen (vk_forward_task n) (\<lambda>rc. if rc < unat n then vk_raise_task EPIPE else give ())"

definition respond_http10 :: "request \<Rightarrow> unit http" where
  "respond_http10 rq =
     andThen (vk_write_task (crlf ''HTTP/1.0 200 OK'' @ crlf ''Content-Type: text/plain'')) (\<lambda>_.
     andThen (vk_write_task (if rq_method rq = GET then length_header 14 else length_header (rq_content_length rq))) (\<lambda>_.
     andThen (vk_write_task (crlf [])) (\<lambda>_.
       if rq_method rq = GET then vk_write_task hello
       else if rq_content_length rq > 0 then echo_fixed (rq_content_length rq)
       else give ())))"

definition respond_http11 :: "nat \<Rightarrow> request \<Rightarrow> nat list \<Rightarrow> nat list http" where
  "respond_http11 fuel rq arrivals =
     andThen (vk_write_task (crlf ''HTTP/1.1 200 OK'' @ crlf ''Content-Type: text/plain'')) (\<lambda>_.
     andThen (if rq_chunked rq then vk_write_task (crlf ''Transfer-Encoding: chunked'') else give ()) (\<lambda>_.
     andThen (if rq_close rq then vk_write_task (crlf ''Connection: close'') else give ()) (\<lambda>_.
       if rq_method rq = GET
       then andThen (vk_write_task (if rq_chunked rq then crlf ''d'' @ crlf ''Hello, World!''
              else length_header 14 @ crlf [] @ hello)) (\<lambda>_. give arrivals)
       else if rq_chunked rq
       then andThen (vk_write_task (crlf [])) (\<lambda>_.
              andThen (echo_chunks fuel arrivals) (\<lambda>left.
                andThen vk_readhup_task (\<lambda>_. andThen vk_writerfcchunkend_task (\<lambda>_. give left))))
       else if rq_content_length rq > 0
       then andThen (vk_write_task (length_header (rq_content_length rq))) (\<lambda>_.
              andThen (vk_write_task (crlf [])) (\<lambda>_.
                andThen (echo_fixed (rq_content_length rq)) (\<lambda>_. give arrivals)))
       else give arrivals)))"

definition respond_once :: "nat \<Rightarrow> request \<Rightarrow> nat list \<Rightarrow> nat list http" where
  "respond_once fuel rq arrivals =
     (if rq_version rq = HTTP09 then andThen (vk_write_task http09_body) (\<lambda>_. give arrivals)
      else if rq_version rq = HTTP10 then andThen (respond_http10 rq) (\<lambda>_. give arrivals)
      else respond_http11 fuel rq arrivals)"

fun http_response_loop :: "nat \<Rightarrow> nat \<Rightarrow> nat list \<Rightarrow> unit http" where
  "http_response_loop fuel 0 arrivals = fail Out_Of_Fuel"
| "http_response_loop fuel (Suc m) arrivals =
     andThen vk_read_struct_task (\<lambda>r.
       case r of
         None \<Rightarrow> vk_raise_task EPIPE
       | Some rq \<Rightarrow>
           andThen (respond_once fuel rq arrivals) (\<lambda>left.
             if \<not> rq_close rq then http_response_loop fuel m left else give ()))"

definition error_page :: "c_env \<Rightarrow> errno \<Rightarrow> byte list" where
  "error_page env e =
     crlf (''HTTP/1.1 '' @ (if e = EINVAL then ''400 Bad Request'' else ''500 Internal Server Error'')) @
     crlf ''Content-Type: text/plain'' @
     crlf (''Content-Length: '' @ decimal (length (env_strerror env e) + 1)) @
     crlf ''Connection: close'' @ crlf [] @ bytes_of (env_strerror env e @ [CHR 0x0A])"

text \<open>The coroutine; after an error the page is written from a buffer of 1023 bytes.\<close>

definition http11_response :: "c_env \<Rightarrow> nat \<Rightarrow> nat list \<Rightarrow> unit http" where
  "http11_response env fuel arrivals c =
     (case andThen (http_response_loop fuel fuel arrivals) (\<lambda>_. vk_tx_close_task) c of
        (Inl (Raised e), c') \<Rightarrow>
          if e = 0 then (Inr (), c')
          else if length (error_page env e) \<ge> 1023 then (Inl Undefined, c')
          else andThen (vk_write_task (error_page env e)) (\<lambda>_. vk_tx_close_task) c'
      | res \<Rightarrow> res)"

text \<open>The reader piped into the responder. Of a session in which the reader fails only the failure is given: the code
  then still calls the responder on what was handed over, but without the end of file it may wait for ever.\<close>

definition http11_serve :: "c_env \<Rightarrow> nat \<Rightarrow> bool list \<Rightarrow> nat list \<Rightarrow> byte list \<Rightarrow> (fault + unit) \<times> request conn" where
  "http11_serve env fuel late arrivals input =
     (case http11_request env fuel \<lparr>c_in = map Byte input, c_out = [], c_closed = False, c_late = late\<rparr> of
        (Inl e, c) \<Rightarrow> (Inl e, c\<lparr>c_out := []\<rparr>)
      | (Inr _, c) \<Rightarrow> http11_response env fuel arrivals \<lparr>c_in = c_out c, c_out = [], c_closed = False, c_late = []\<rparr>)"

end
