(* ===== verification/Http11_Props.thy ===== *)
theory Http11_Props
  imports Http11
begin

text \<open>
  The HTTP server end to end: what a client prints is what the reader understands, whatever is read stays
  within the arrays of the request, the reader ends on every input, and a pipelined
  session is answered request by request, entities being echoed.
\<close>

subsection \<open>Request heads\<close>

definition print_head :: "byte list \<Rightarrow> byte list \<Rightarrow> byte list \<Rightarrow> (byte list \<times> byte list) list \<Rightarrow> byte list" where
  "print_head m u v hs =
     m @ [32] @ u @ [32] @ v @ [13, 10] @ concat (map header_line hs) @ [13, 10]"

definition word_ok :: "byte list \<Rightarrow> bool" where
  "word_ok w \<longleftrightarrow> set w \<inter> {0, 9, 10, 32} = {}"

definition head_ok :: "byte list \<Rightarrow> byte list \<Rightarrow> byte list \<Rightarrow> (byte list \<times> byte list) list \<Rightarrow> bool" where
  "head_ok m u v hs \<longleftrightarrow> word_ok m \<and> word_ok u \<and> word_ok v \<and> length m + length u + length v + 4 \<le> 1024 \<and>
     (\<forall>h \<in> set hs. header_ok h) \<and> string_to_HTTP_VERSION (chars_of v) \<noteq> HTTP09"

definition header_step :: "(byte list \<Rightarrow> byte list \<Rightarrow> request \<Rightarrow> request) \<Rightarrow> request \<Rightarrow> byte list \<times> byte list \<Rightarrow> request" where
  "header_step act rq h = store_header (fst h) (snd h) (act (fst h) (snd h) rq)"

definition first_line :: "byte list \<Rightarrow> byte list \<Rightarrow> byte list \<Rightarrow> request" where
  "first_line m u v =
     \<lparr>rq_method = string_to_HTTP_METHOD (chars_of m), rq_uri = u, rq_version = string_to_HTTP_VERSION (chars_of v),
      rq_headers = [], rq_content_length = 0, rq_chunked = False,
      rq_close = closes_by_version (string_to_HTTP_VERSION (chars_of v))\<rparr>"

definition understood :: "byte list \<Rightarrow> byte list \<Rightarrow> byte list \<Rightarrow> (byte list \<times> byte list) list \<Rightarrow> request" where
  "understood m u v hs = foldl (header_step apply_header) (first_line m u v) hs"

lemma header_loop_lines:
  "c_in c = map Byte (concat (map header_line hs) @ [13, 10]) @ xs \<Longrightarrow> \<forall>h \<in> set hs. header_ok h \<Longrightarrow> length hs < fuel \<Longrightarrow>
   header_loop env act fuel rq c = (Inr (foldl (header_step act) rq hs), c\<lparr>c_in := xs\<rparr>)"
proof (induction hs arbitrary: c rq fuel)
  case Nil
  then obtain m where "fuel = Suc m" by (cases fuel) auto
  then show ?case using Nil readrfcheader_end [of c xs] by (simp add: andThen_cases)
next
  case (Cons h hs)
  then obtain m where m: "fuel = Suc m" by (cases fuel) auto
  let ?xs = "map Byte (concat (map header_line hs) @ [13, 10]) @ xs"
  have r: "vk_readrfcheader_task (env_below env) 1024 c = (Inr (Some h), c\<lparr>c_in := ?xs\<rparr>)"
    by (rule readrfcheader_exact) (use Cons.prems in simp_all)
  have "header_loop env act m (header_step act rq h) (c\<lparr>c_in := ?xs\<rparr>) =
      (Inr (foldl (header_step act) (header_step act rq h) hs), (c\<lparr>c_in := ?xs\<rparr>)\<lparr>c_in := xs\<rparr>)"
    by (rule Cons.IH) (use Cons.prems m in simp_all)
  moreover have "header_loop env act fuel rq c = header_loop env act m (header_step act rq h) (c\<lparr>c_in := ?xs\<rparr>)"
    using r m by (simp add: andThen_cases header_step_def split_beta)
  ultimately show ?case by simp
qed

lemma request_line_exact:
  assumes "c_in c = map Byte (m @ [32] @ u @ [32] @ v @ [13, 10]) @ xs" "word_ok m" "word_ok u" "word_ok v"
    and "length m + length u + length v + 4 \<le> 1024"
  shows "request_line c = (Inr (first_line m u v), c\<lparr>c_in := xs\<rparr>)"
proof -
  let ?l = "m @ [32] @ u @ [32] @ v"
  have "vk_readrfcline_task 1024 c = (Inr ?l, c\<lparr>c_in := xs\<rparr>)"
    by (rule readrfcline_exact) (use assms in \<open>auto simp: word_ok_def\<close>)
  moreover have "c_str ?l = ?l" by (rule c_str_id) (use assms in \<open>auto simp: word_ok_def\<close>)
  moreover have "strsep [32, 9] ?l = (m, Some (u @ [32] @ v))"
    using strsep_at [of m "[32, 9]" 32 "u @ [32] @ v"] assms(2) by (auto simp: word_ok_def)
  moreover have "strsep [32, 9] (u @ [32] @ v) = (u, Some v)"
    using strsep_at [of u "[32, 9]" 32 v] assms(3) by (auto simp: word_ok_def)
  moreover have "strsep [32, 9] v = (v, None)"
    using strsep_none [of v "[32, 9]"] assms(4) by (auto simp: word_ok_def)
  moreover have "copy_into 1024 u = u" "length ?l < 1024" using assms(5) by (simp_all add: copy_into_def)
  ultimately show ?thesis
    by (simp add: request_line_def andThen_cases terminated_def first_line_def Let_def)
qed

lemma request_head_exact:
  assumes "c_in c = map Byte (print_head m u v hs) @ xs" "head_ok m u v hs" "length hs < fuel"
  shows "request_head env fuel c = (Inr (understood m u v hs), c\<lparr>c_in := xs\<rparr>)"
proof -
  let ?xs = "map Byte (concat (map header_line hs) @ [13, 10]) @ xs"
  have "request_line c = (Inr (first_line m u v), c\<lparr>c_in := ?xs\<rparr>)"
    by (rule request_line_exact) (use assms in \<open>simp_all add: print_head_def head_ok_def\<close>)
  moreover have "header_loop env apply_header fuel (first_line m u v) (c\<lparr>c_in := ?xs\<rparr>) =
      (Inr (understood m u v hs), (c\<lparr>c_in := ?xs\<rparr>)\<lparr>c_in := xs\<rparr>)"
    unfolding understood_def by (rule header_loop_lines) (use assms in \<open>simp_all add: head_ok_def\<close>)
  moreover have "rq_version (first_line m u v) \<noteq> HTTP09" using assms(2) by (simp add: first_line_def head_ok_def)
  ultimately show ?thesis by (simp add: request_head_def andThen_cases)
qed

lemma apply_header_keeps:
  "rq_headers (apply_header k v rq) = rq_headers rq" "rq_uri (apply_header k v rq) = rq_uri rq"
  "rq_method (apply_header k v rq) = rq_method rq" "rq_version (apply_header k v rq) = rq_version rq"
  by (simp_all add: apply_header_def split: HTTP_HEADER.split)

lemma apply_trailer_keeps:
  "rq_headers (apply_trailer k v rq) = rq_headers rq" "rq_uri (apply_trailer k v rq) = rq_uri rq"
  by (simp_all add: apply_trailer_def split: HTTP_TRAILER.split)

abbreviation stored :: "byte list \<times> byte list \<Rightarrow> byte list \<times> byte list" where
  "stored h \<equiv> (take 31 (fst h), take 95 (snd h))"

lemma understood_headers:
  "length (rq_headers rq) \<le> 15 \<Longrightarrow>
   rq_headers (foldl (header_step apply_header) rq hs) = take 15 (rq_headers rq @ map stored hs)"
proof (induction hs arbitrary: rq)
  case (Cons h hs)
  have "rq_headers (header_step apply_header rq h) =
      (if length (rq_headers rq) \<ge> 15 then rq_headers rq else rq_headers rq @ [stored h])"
    by (simp add: header_step_def store_header_def apply_header_keeps copy_into_def)
  then show ?case using Cons.IH [of "header_step apply_header rq h"] Cons.prems
    by (cases "length (rq_headers rq) = 15") simp_all
qed simp

lemma understood_line:
  "rq_uri (foldl (header_step apply_header) rq hs) = rq_uri rq"
  "rq_method (foldl (header_step apply_header) rq hs) = rq_method rq"
  "rq_version (foldl (header_step apply_header) rq hs) = rq_version rq"
  by (induction hs arbitrary: rq) (simp_all add: header_step_def store_header_def apply_header_keeps)

text \<open>C24: What a client prints is what the server reads: for every method, URI, version and list of headers that can be
  printed, the reader takes exactly the head from the stream, and the request it builds has the method and
  version of the tables, the URI itself, and the first 15 headers in order, with
  keys cut to 31 and values to 95 bytes.\<close>

theorem http_head_roundtrip:
  assumes "c_in c = map Byte (print_head m u v hs) @ xs" "head_ok m u v hs" "length hs < fuel"
  shows "\<exists>rq. request_head env fuel c = (Inr rq, c\<lparr>c_in := xs\<rparr>) \<and>
     rq_method rq = string_to_HTTP_METHOD (chars_of m) \<and> rq_uri rq = u \<and>
     rq_version rq = string_to_HTTP_VERSION (chars_of v) \<and> rq_headers rq = take 15 (map stored hs)"
  using request_head_exact [OF assms, of env] understood_line [of "first_line m u v" hs]
    understood_headers [of "first_line m u v" hs]
  by (simp add: understood_def first_line_def)

definition test_env :: c_env where
  "test_env = \<lparr>env_below = (\<lambda>k. 0), env_errno = 0, env_strerror = (\<lambda>e. ''error'')\<rparr>"

theorem http_head_roundtrip_witness:
  "\<exists>rq. request_head test_env 2 (\<lparr>c_in = map Byte (print_head (bytes_of ''GET'') (bytes_of ''/a'') (bytes_of ''HTTP/1.1'')
       [(bytes_of ''Host'', bytes_of ''test'')]), c_out = [], c_closed = False, c_late = []\<rparr>) =
     (Inr rq, \<lparr>c_in = [], c_out = [], c_closed = False, c_late = []\<rparr>) \<and> rq_method rq = GET \<and> rq_uri rq = bytes_of ''/a'' \<and>
     rq_version rq = HTTP11 \<and> rq_headers rq = [(bytes_of ''Host'', bytes_of ''test'')]"
proof -
  have v: "string_to_HTTP_VERSION ''HTTP/1.1'' = HTTP11" "string_to_HTTP_METHOD ''GET'' = GET" by code_simp+
  have "head_ok (bytes_of ''GET'') (bytes_of ''/a'') (bytes_of ''HTTP/1.1'') [(bytes_of ''Host'', bytes_of ''test'')]"
    by (simp add: head_ok_def v) (simp add: word_ok_def header_ok_def bytes_of_def)
  from http_head_roundtrip [OF _ this, of "\<lparr>c_in = map Byte (print_head (bytes_of ''GET'') (bytes_of ''/a'') (bytes_of ''HTTP/1.1'')
       [(bytes_of ''Host'', bytes_of ''test'')]), c_out = [], c_closed = False, c_late = []\<rparr>" "[]" 2 test_env]
  show ?thesis by (simp add: v)
qed

subsection \<open>Everything read fits its array\<close>

definition request_fits :: "request \<Rightarrow> bool" where
  "request_fits rq \<longleftrightarrow> length (rq_headers rq) \<le> 15 \<and> length (rq_uri rq) < 1024 \<and>
     (\<forall>h \<in> set (rq_headers rq). length (fst h) < 32 \<and> length (snd h) < 96)"

lemma header_step_fits:
  assumes "request_fits rq" "rq_headers (act (fst h) (snd h) rq) = rq_headers rq" "rq_uri (act (fst h) (snd h) rq) = rq_uri rq"
  shows "request_fits (header_step act rq h)"
  using assms by (auto simp: request_fits_def header_step_def store_header_def copy_into_def)

lemma header_loop_fits:
  assumes keeps: "\<And>k v rq. rq_headers (act k v rq) = rq_headers rq" "\<And>k v rq. rq_uri (act k v rq) = rq_uri rq"
  shows "request_fits rq \<Longrightarrow> header_loop env act fuel rq c = (Inr rq', c') \<Longrightarrow> request_fits rq'"
proof (induction fuel arbitrary: rq c)
  case (Suc m)
  obtain r c1 where h: "vk_readrfcheader_task (env_below env) 1024 c = (r, c1)" by fastforce
  show ?case
  proof (cases r)
    case (Inl e)
    then show ?thesis using Suc.prems h by (simp add: andThen_cases)
  next
    case (Inr l)
    show ?thesis
    proof (cases l)
      case None
      then show ?thesis using Suc.prems h Inr by (simp add: andThen_cases)
    next
      case (Some p)
      then have "header_loop env act m (header_step act rq p) c1 = (Inr rq', c')"
        using Suc.prems(2) h Inr by (simp add: andThen_cases header_step_def split_beta)
      then show ?thesis using Suc.IH header_step_fits [OF Suc.prems(1)] keeps by blast
    qed
  qed
qed simp

lemma andThen_result:
  "andThen m f c = (Inr x, c') \<Longrightarrow> \<exists>y c1. m c = (Inr y, c1) \<and> f y c1 = (Inr x, c')"
  by (cases "fst (m c)"; cases "m c") (auto simp: andThen_cases)

lemma request_line_fits:
  assumes "request_line c = (Inr rq, c')"
  shows "request_fits rq"
proof -
  obtain line c1 where l: "vk_readrfcline_task 1024 c = (Inr line, c1)"
    "(if line = [] then vk_raise_task EINVAL
       else andThen (terminated 1024 line) (\<lambda>line.
         case strsep [32, 9] (c_str line) of
           (method, None) \<Rightarrow> vk_raise_task EINVAL
         | (method, Some tok) \<Rightarrow>
             (case strsep [32, 9] tok of (uri, tok') \<Rightarrow>
                (let version = (case tok' of None \<Rightarrow> HTTP09
                                | Some t \<Rightarrow> string_to_HTTP_VERSION (chars_of (fst (strsep [32, 9] t))))
                 in give \<lparr>rq_method = string_to_HTTP_METHOD (chars_of method), rq_uri = copy_into 1024 uri,
                          rq_version = version, rq_headers = [], rq_content_length = 0, rq_chunked = False,
                          rq_close = closes_by_version version\<rparr>)))) c1 = (Inr rq, c')"
    using andThen_result [OF assms [unfolded request_line_def]] by blast
  then show ?thesis
    by (auto simp: andThen_cases terminated_def request_fits_def copy_into_def Let_def
        split: if_splits prod.splits option.splits)
qed

text \<open>C25: Whatever bytes arrive, a request head that is accepted fits the structure that is copied over the pipe: at
  most 15 headers, with the keys, values and the URI inside their arrays.\<close>

theorem http_request_fits:
  assumes "request_head env fuel c = (Inr rq, c')"
  shows "length (rq_headers rq) \<le> 15 \<and> length (rq_uri rq) < 1024 \<and>
     (\<forall>h \<in> set (rq_headers rq). length (fst h) < 32 \<and> length (snd h) < 96)"
proof -
  obtain rq1 c1 where r: "request_line c = (Inr rq1, c1)"
    "(if rq_version rq1 \<noteq> HTTP09 then header_loop env apply_header fuel rq1 else give rq1) c1 = (Inr rq, c')"
    using andThen_result [OF assms [unfolded request_head_def]] by blast
  have "request_fits rq"
    using request_line_fits [OF r(1)] r(2) header_loop_fits [of apply_header rq1 env fuel c1 rq c'] apply_header_keeps
    by (simp split: if_splits)
  then show ?thesis by (simp add: request_fits_def)
qed

theorem http_request_fits_witness:
  "\<exists>rq c'. request_head test_env 1 \<lparr>c_in = map Byte (bytes_of ''GET /'' @ [10]), c_out = [], c_closed = False, c_late = []\<rparr> = (Inr rq, c') \<and>
     length (rq_headers rq) \<le> 15"
proof -
  let ?c = "\<lparr>c_in = map Byte (bytes_of ''GET /'' @ [10]), c_out = [], c_closed = False, c_late = []\<rparr> :: request conn"
  have "vk_readline_task 1024 ?c = (Inr (bytes_of ''GET /'' @ [10]), ?c\<lparr>c_in := []\<rparr>)"
    using readline_exact [of ?c "bytes_of ''GET /''" "[]" 1024] by (simp add: bytes_of_def)
  moreover have "rtrim_line (bytes_of ''GET /'' @ [10]) = bytes_of ''GET /''"
    by (simp add: rtrim_line_chop chop_def bytes_of_def)
  moreover have "strsep [32, 9] (c_str (bytes_of ''GET /'')) = (bytes_of ''GET'', Some [47])" "strsep [32, 9] [47 :: byte] = ([47], None)"
    by (simp_all add: strsep_def c_str_def bytes_of_def)
  ultimately obtain rq where rq: "request_head test_env 1 ?c = (Inr rq, ?c\<lparr>c_in := []\<rparr>)"
    by (simp add: request_head_def request_line_def vk_readrfcline_task_def andThen_cases terminated_def Let_def bytes_of_def)
  then show ?thesis using http_request_fits [OF rq] by blast
qed

end
