(* ===== verification/Http11_Session.thy ===== *)
theory Http11_Session
  imports Http11_Props
begin

text \<open>
  Whole sessions of the HTTP server: the reader ends on every input, and the
  pipe from reader to responder carries a pipelined session so that each request is answered in order and its
  entity echoed.
\<close>

subsection \<open>Tasks that end within the length of their input\<close>

definition ends_within :: "nat \<Rightarrow> ('q, 'a) task \<Rightarrow> bool" where
  "ends_within n m \<longleftrightarrow>
     (\<forall>c. length (c_in c) < n \<longrightarrow> fst (m c) \<noteq> Inl Out_Of_Fuel \<and> length (c_in (snd (m c))) \<le> length (c_in c))"

definition consumes :: "('q, 'a) task \<Rightarrow> bool" where
  "consumes m \<longleftrightarrow> (\<forall>c x c'. m c = (Inr x, c') \<longrightarrow> length (c_in c') < length (c_in c))"

lemma ends_steady: "steady m \<Longrightarrow> ends_within n m"
  by (simp add: steady_def ends_within_def)

lemma ends_zero: "ends_within 0 m"
  by (simp add: ends_within_def)

lemma ends_run:
  assumes "ends_within n m" "m c = (r, c')" "length (c_in c) < n"
  shows "r \<noteq> Inl Out_Of_Fuel" "length (c_in c') \<le> length (c_in c)"
  using assms unfolding ends_within_def by (metis fst_conv, metis snd_conv)

lemma ends_andThen:
  assumes "ends_within n m" "\<And>x. ends_within n (f x)"
  shows "ends_within n (andThen m f)"
  unfolding ends_within_def
proof (intro allI impI)
  fix c :: "'a conn"
  assume n: "length (c_in c) < n"
  obtain r c1 where m: "m c = (r, c1)" by fastforce
  note e = ends_run [OF assms(1) m n]
  show "fst (andThen m f c) \<noteq> Inl Out_Of_Fuel \<and> length (c_in (snd (andThen m f c))) \<le> length (c_in c)"
  proof (cases r)
    case (Inl err)
    then show ?thesis using m e by (simp add: andThen_cases)
  next
    case (Inr x)
    obtain r2 c2 where f: "f x c1 = (r2, c2)" by fastforce
    have "length (c_in c1) < n" using e(2) n by simp
    note e2 = ends_run [OF assms(2) f this]
    show ?thesis using m Inr f e(2) e2 by (simp add: andThen_cases)
  qed
qed

text \<open>A round of a loop that takes from the input leaves one unit less to do.\<close>

lemma ends_round:
  assumes "ends_within (Suc n) m" "consumes m" "\<And>x. ends_within n (f x)"
  shows "ends_within (Suc n) (andThen m f)"
  unfolding ends_within_def
proof (intro allI impI)
  fix c :: "'a conn"
  assume n: "length (c_in c) < Suc n"
  obtain r c1 where m: "m c = (r, c1)" by fastforce
  note e = ends_run [OF assms(1) m n]
  show "fst (andThen m f c) \<noteq> Inl Out_Of_Fuel \<and> length (c_in (snd (andThen m f c))) \<le> length (c_in c)"
  proof (cases r)
    case (Inl err)
    then show ?thesis using m e by (simp add: andThen_cases)
  next
    case (Inr x)
    obtain r2 c2 where f: "f x c1 = (r2, c2)" by fastforce
    have l: "length (c_in c1) < length (c_in c)" using assms(2) m Inr unfolding consumes_def by blast
    then have "length (c_in c1) < n" using n by simp
    note e2 = ends_run [OF assms(3) f this]
    show ?thesis using m Inr f l e2 by (simp add: andThen_cases)
  qed
qed

lemma ends_mono: "ends_within n m \<Longrightarrow> k \<le> n \<Longrightarrow> ends_within k m"
  by (simp add: ends_within_def)

lemma consumes_rfc:
  "consumes (vk_readrfcline_task n)" "consumes (vk_readrfcheader_task below n)" "consumes vk_readrfcchunkheader_task"
  unfolding consumes_def by (blast dest: readrfcline_consumes readrfcheader_consumes readrfcchunkheader_consumes)+

lemma consumes_andThen: "consumes m \<Longrightarrow> (\<And>x. steady (f x)) \<Longrightarrow> consumes (andThen m f)"
  unfolding consumes_def by (blast intro: andThen_consumes)

lemmas ends_rules = ends_andThen ends_steady [OF steady_give] ends_steady [OF steady_fail]
  steady_io [THEN ends_steady] steady_rfc [THEN ends_steady]

subsection \<open>The reader ends\<close>

lemma header_loop_within: "ends_within m (header_loop env act m rq)"
proof (induction m arbitrary: rq)
  case (Suc m)
  show ?case unfolding header_loop.simps
    by (rule ends_round [OF ends_steady [OF steady_rfc(3)] consumes_rfc(2)])
      (auto intro!: ends_steady steady_give Suc.IH split: option.split)
qed (rule ends_zero)

lemma chunk_loop_within: "ends_within m (chunk_loop m)"
proof (induction m)
  case (Suc m)
  have "ends_within m (if sz = 0 then give ()
       else andThen (vk_forward_task sz) (\<lambda>rc.
         if rc \<noteq> unat sz then vk_raise_task EPIPE
         else andThen (vk_readrfcchunkfooter_task sz) (\<lambda>_. if sz > 0 then chunk_loop m else give ())))" for sz
    by (auto intro!: ends_rules Suc.IH)
  then show ?case unfolding chunk_loop.simps
    by (rule ends_round [OF ends_steady [OF steady_rfc(5)] consumes_rfc(3)])
qed (rule ends_zero)

lemma steady_request_line: "steady request_line"
  unfolding request_line_def Let_def
  by (auto intro!: steady_rules steady_rfc split: prod.split option.split)

lemma consumes_request_line: "consumes request_line"
  unfolding request_line_def Let_def
  by (rule consumes_andThen [OF consumes_rfc(1)]) (auto intro!: steady_rules steady_rfc split: prod.split option.split)

lemma request_entity_within: "ends_within m (request_entity env m rq)"
proof -
  have "steady (http2_preface env)"
    unfolding http2_preface_def by (auto intro!: steady_rules steady_rfc)
  then show ?thesis unfolding request_entity_def
    by (auto intro!: ends_rules chunk_loop_within header_loop_within ends_steady [of "http2_preface env"])
qed

lemma request_tail_within:
  "ends_within m (andThen (if rq_version rq \<noteq> HTTP09 then header_loop env apply_header m rq else give rq) (\<lambda>rq.
       if take 6 (rq_uri rq) = bytes_of ''/crash'' then fail Undefined
       else andThen (vk_write_struct_task rq) (\<lambda>_.
         andThen (request_entity env m rq) (\<lambda>leave. give (rq, leave)))))"
  by (auto intro!: ends_rules header_loop_within request_entity_within)

lemma andThen_assoc: "andThen (andThen m f) g = andThen m (\<lambda>x. andThen (f x) g)"
  by (auto simp: andThen_def fun_eq_iff split: prod.split sum.split)

lemma request_once_parts:
  "http_request_once env fuel = andThen request_line (\<lambda>rq.
     andThen (if rq_version rq \<noteq> HTTP09 then header_loop env apply_header fuel rq else give rq) (\<lambda>rq.
       if take 6 (rq_uri rq) = bytes_of ''/crash'' then fail Undefined
       else andThen (vk_write_struct_task rq) (\<lambda>_.
         andThen (request_entity env fuel rq) (\<lambda>leave. give (rq, leave)))))"
  unfolding http_request_once_def request_head_def andThen_assoc ..

lemma request_loop_within: "m \<le> fuel \<Longrightarrow> ends_within m (http_request_loop env fuel m)"
proof (induction m)
  case (Suc m)
  have tail: "ends_within m (andThen (andThen (if rq_version rq \<noteq> HTTP09 then header_loop env apply_header fuel rq else give rq) (\<lambda>rq.
       if take 6 (rq_uri rq) = bytes_of ''/crash'' then fail Undefined
       else andThen (vk_write_struct_task rq) (\<lambda>_.
         andThen (request_entity env fuel rq) (\<lambda>leave. give (rq, leave))))) (\<lambda>(rq, leave).
       if leave then give ()
       else andThen vk_nodata_task (\<lambda>nodata.
         if \<not> nodata \<and> \<not> rq_close rq then http_request_loop env fuel m else give ())))" for rq
  proof (rule ends_andThen)
    show "ends_within m (andThen (if rq_version rq \<noteq> HTTP09 then header_loop env apply_header fuel rq else give rq) (\<lambda>rq.
       if take 6 (rq_uri rq) = bytes_of ''/crash'' then fail Undefined
       else andThen (vk_write_struct_task rq) (\<lambda>_.
         andThen (request_entity env fuel rq) (\<lambda>leave. give (rq, leave)))))"
      by (rule ends_mono [OF request_tail_within]) (use Suc.prems in simp)
    show "ends_within m (case x of (rq, leave) \<Rightarrow>
       if leave then give ()
       else andThen vk_nodata_task (\<lambda>nodata.
         if \<not> nodata \<and> \<not> rq_close rq then http_request_loop env fuel m else give ()))" for x
      using Suc by (auto intro!: ends_rules split: prod.split)
  qed
  show ?case unfolding http_request_loop.simps request_once_parts andThen_assoc [of request_line]
    by (rule ends_round [OF ends_steady [OF steady_request_line] consumes_request_line tail])
qed (rule ends_zero)

text \<open>C26: The reader of HTTP requests ends on every input: with more fuel than bytes to read, no loop over headers,
  trailers, chunks or requests runs out of it.\<close>

theorem http11_request_terminates:
  "fst (http11_request env (Suc (length (c_in c))) c) \<noteq> Inl Out_Of_Fuel"
  using request_loop_within [of "Suc (length (c_in c))" "Suc (length (c_in c))" env]
  unfolding ends_within_def http11_request_def by simp

subsection \<open>Entities on the way to the responder\<close>

datatype entity = Nothing | Fixed "byte list" | Chunks "byte list list"

definition chunk_bytes :: "byte list \<Rightarrow> byte list" where
  "chunk_bytes b = chunk_head (of_nat (length b)) @ b @ [13, 10]"

definition chunk_ok :: "byte list \<Rightarrow> bool" where
  "chunk_ok b \<longleftrightarrow> 0 < length b \<and> length b < 2 ^ 61"

fun print_entity :: "entity \<Rightarrow> byte list" where
  "print_entity Nothing = []"
| "print_entity (Fixed b) = b"
| "print_entity (Chunks cs) = concat (map chunk_bytes cs) @ [48, 13, 10] @ [13, 10]"

fun piped :: "entity \<Rightarrow> request atom list" where
  "piped Nothing = []"
| "piped (Fixed b) = map Byte b"
| "piped (Chunks cs) = map Byte (concat cs) @ [Hup]"

text \<open>The headers tell what entity follows.\<close>

fun announces :: "request \<Rightarrow> entity \<Rightarrow> bool" where
  "announces rq Nothing \<longleftrightarrow> rq_content_length rq = 0 \<and> \<not> rq_chunked rq \<and> rq_method rq \<noteq> PRI"
| "announces rq (Fixed b) \<longleftrightarrow> unat (rq_content_length rq) = length b \<and> b \<noteq> [] \<and> \<not> rq_chunked rq"
| "announces rq (Chunks cs) \<longleftrightarrow> rq_content_length rq = 0 \<and> rq_chunked rq \<and> (\<forall>b \<in> set cs. chunk_ok b)"

lemma forward_exact:
  assumes "c_in c = map Byte bs @ xs" "unat n = length bs"
  shows "vk_forward_task n c = (Inr (length bs), c\<lparr>c_in := xs, c_out := c_out c @ map Byte bs\<rparr>)"
  using assms take_bytes_exact [of bs xs] by (simp add: vk_forward_task_def)

lemma chunk_ok_size:
  assumes "chunk_ok b"
  shows "unat (of_nat (length b) :: size_t) = length b" "0 < unat (of_nat (length b) :: size_t)"
    "unat (of_nat (length b) :: size_t) < 2 ^ 61" "(of_nat (length b) :: size_t) > 0"
proof -
  have "length b < 2 ^ 64" using assms by (simp add: chunk_ok_def)
  then show u: "unat (of_nat (length b) :: size_t) = length b" by (simp add: unat_of_nat)
  show "0 < unat (of_nat (length b) :: size_t)" "unat (of_nat (length b) :: size_t) < 2 ^ 61"
    using assms unfolding u chunk_ok_def by auto
  then show "(of_nat (length b) :: size_t) > 0" using word_less_nat_alt by force
qed

lemma chunk_loop_exact:
  "c_in c = map Byte (concat (map chunk_bytes cs) @ [48, 13, 10]) @ xs \<Longrightarrow> \<forall>b \<in> set cs. chunk_ok b \<Longrightarrow> length cs < m \<Longrightarrow>
   chunk_loop m c = (Inr (), c\<lparr>c_in := xs, c_out := c_out c @ map Byte (concat cs)\<rparr>)"
proof (induction cs arbitrary: c m)
  case Nil
  then obtain k where "m = Suc k" by (cases m) auto
  then show ?case using Nil readrfcchunkheader_end [of c xs] by (simp add: andThen_cases)
next
  case (Cons b cs)
  then obtain k where m: "m = Suc k" by (cases m) auto
  let ?sz = "of_nat (length b) :: size_t"
  let ?xs = "map Byte (concat (map chunk_bytes cs) @ [48, 13, 10]) @ xs"
  let ?c1 = "c\<lparr>c_in := map Byte b @ map Byte [13, 10] @ ?xs\<rparr>"
  let ?c2 = "c\<lparr>c_in := map Byte [13, 10] @ ?xs, c_out := c_out c @ map Byte b\<rparr>"
  let ?c3 = "c\<lparr>c_in := ?xs, c_out := c_out c @ map Byte b\<rparr>"
  have b: "chunk_ok b" using Cons.prems by simp
  note s = chunk_ok_size [OF b]
  have l1: "vk_readrfcchunkheader_task c = (Inr ?sz, ?c1)"
    by (rule readrfcchunkheader_exact) (use Cons.prems(1) s in \<open>simp_all add: chunk_bytes_def [of b]\<close>)
  have l2: "vk_forward_task ?sz ?c1 = (Inr (length b), ?c2)" using forward_exact [of ?c1 b _ ?sz] s by simp
  have l3: "vk_readrfcchunkfooter_task ?sz ?c2 = (Inr (), ?c3)" using readrfcchunkfooter_exact [of ?c2 ?xs ?sz] s by simp
  have nz: "?sz \<noteq> 0" using s(4) by auto
  have "chunk_loop m c = chunk_loop k ?c3"
    unfolding m chunk_loop.simps run_steps l1 if_not_P [OF nz] l2 using s l3 by simp
  also have "\<dots> = (Inr (), ?c3\<lparr>c_in := xs, c_out := c_out ?c3 @ map Byte (concat cs)\<rparr>)"
    by (rule Cons.IH) (use Cons.prems m in simp_all)
  finally show ?case by simp
qed

lemma request_entity_exact:
  assumes "c_in c = map Byte (print_entity e) @ xs" "announces rq e" "\<not> c_closed c" "length (print_entity e) < m"
  shows "request_entity env m rq c = (Inr False, c\<lparr>c_in := xs, c_out := c_out c @ piped e\<rparr>)"
proof (cases e)
  case Nothing
  then show ?thesis using assms by (simp add: request_entity_def)
next
  case (Fixed b)
  then have "rq_content_length rq > 0" using assms(2) by (auto simp: word_greater_zero_iff)
  then show ?thesis using Fixed assms forward_exact [of c b xs "rq_content_length rq"]
    by (simp add: request_entity_def andThen_cases)
next
  case (Chunks cs)
  let ?c1 = "c\<lparr>c_in := map Byte [13, 10] @ xs, c_out := c_out c @ map Byte (concat cs)\<rparr>"
  let ?c2 = "c\<lparr>c_in := map Byte [13, 10] @ xs, c_out := c_out c @ map Byte (concat cs) @ [Hup]\<rparr>"
  have "length cs \<le> length (concat (map chunk_bytes cs))"
    by (induction cs) (auto simp: chunk_bytes_def)
  then have l1: "chunk_loop m c = (Inr (), ?c1)"
    using chunk_loop_exact [of c cs "map Byte [13, 10] @ xs" m] assms Chunks by simp
  have l2: "vk_hup_task ?c1 = (Inr (), ?c2)" using assms(3) by (simp add: vk_hup_task_def put_def)
  have "header_loop env apply_trailer m rq ?c2 = (Inr rq, ?c2\<lparr>c_in := xs\<rparr>)"
    using header_loop_lines [of ?c2 "[]" xs m env apply_trailer rq] assms(4) by simp
  then show ?thesis using Chunks assms(2) l1 l2 by (simp add: request_entity_def andThen_cases)
qed

subsection \<open>A session through the reader\<close>

record exchange =
  ex_method :: "byte list"
  ex_uri :: "byte list"
  ex_version :: "byte list"
  ex_headers :: "(byte list \<times> byte list) list"
  ex_entity :: entity

definition ex_request :: "exchange \<Rightarrow> request" where
  "ex_request x = understood (ex_method x) (ex_uri x) (ex_version x) (ex_headers x)"

definition print_exchange :: "exchange \<Rightarrow> byte list" where
  "print_exchange x =
     print_head (ex_method x) (ex_uri x) (ex_version x) (ex_headers x) @ print_entity (ex_entity x)"

definition exchange_ok :: "exchange \<Rightarrow> bool" where
  "exchange_ok x \<longleftrightarrow> head_ok (ex_method x) (ex_uri x) (ex_version x) (ex_headers x) \<and>
     announces (ex_request x) (ex_entity x) \<and> take 6 (ex_uri x) \<noteq> bytes_of ''/crash''"

definition handed_over :: "exchange \<Rightarrow> request atom list" where
  "handed_over x = Struct (ex_request x) # piped (ex_entity x)"

lemma headers_bound: "length hs \<le> length (concat (map header_line hs))"
  by (induction hs) (auto simp: header_line_def)

lemma http_request_once_exact:
  assumes "c_in c = map Byte (print_exchange x) @ xs" "exchange_ok x" "\<not> c_closed c" "length (print_exchange x) < m"
  shows "http_request_once env m c = (Inr (ex_request x, False), c\<lparr>c_in := xs, c_out := c_out c @ handed_over x\<rparr>)"
proof -
  let ?xs = "map Byte (print_entity (ex_entity x)) @ xs"
  let ?c2 = "c\<lparr>c_in := ?xs, c_out := c_out c @ [Struct (ex_request x)]\<rparr>"
  have l1: "request_head env m c = (Inr (ex_request x), c\<lparr>c_in := ?xs\<rparr>)"
    unfolding ex_request_def
    by (rule request_head_exact)
      (use assms headers_bound [of "ex_headers x"] in \<open>simp_all add: print_exchange_def exchange_ok_def print_head_def\<close>)
  have l2: "vk_write_struct_task (ex_request x) (c\<lparr>c_in := ?xs\<rparr>) = (Inr (), ?c2)"
    using assms(3) by (simp add: vk_write_struct_task_def put_def)
  have l3: "request_entity env m (ex_request x) ?c2 = (Inr False, ?c2\<lparr>c_in := xs, c_out := c_out ?c2 @ piped (ex_entity x)\<rparr>)"
    by (rule request_entity_exact) (use assms in \<open>simp_all add: exchange_ok_def print_exchange_def\<close>)
  have "rq_uri (ex_request x) = ex_uri x"
    by (simp add: ex_request_def understood_def understood_line first_line_def)
  then have u: "take 6 (rq_uri (ex_request x)) \<noteq> bytes_of ''/crash''" using assms(2) by (simp add: exchange_ok_def)
  show ?thesis unfolding http_request_once_def run_steps l1 if_not_P [OF u] l2 l3
    by (simp add: handed_over_def)
qed

lemma print_exchange_not_Nil: "print_exchange x \<noteq> []"
  by (simp add: print_exchange_def print_head_def)

lemma http_request_loop_exact:
  "c_in c = map Byte (concat (map print_exchange xs) @ print_exchange x @ extra) \<Longrightarrow> \<forall>y \<in> set (xs @ [x]). exchange_ok y \<Longrightarrow>
   \<forall>y \<in> set xs. \<not> rq_close (ex_request y) \<Longrightarrow> rq_close (ex_request x) \<Longrightarrow> \<not> c_closed c \<Longrightarrow> length (c_in c) < fuel \<Longrightarrow>
   length xs < m \<Longrightarrow>
   \<exists>c'. http_request_loop env fuel m c = (Inr (), c') \<and> c_out c' = c_out c @ concat (map handed_over (xs @ [x]))"
proof (induction xs arbitrary: c m)
  case Nil
  then obtain k where m: "m = Suc k" by (cases m) auto
  let ?c1 = "c\<lparr>c_in := map Byte extra, c_out := c_out c @ handed_over x\<rparr>"
  have o: "http_request_once env fuel c = (Inr (ex_request x, False), ?c1)"
    by (rule http_request_once_exact) (use Nil.prems in simp_all)
  show ?case using o m Nil.prems(4) nodata_run [of ?c1] by (simp add: andThen_cases)
next
  case (Cons y xs)
  then obtain k where m: "m = Suc k" by (cases m) auto
  let ?xs = "map Byte (concat (map print_exchange xs) @ print_exchange x @ extra)"
  let ?c1 = "c\<lparr>c_in := ?xs, c_out := c_out c @ handed_over y\<rparr>"
  let ?c2 = "?c1\<lparr>c_late := drop 1 (c_late ?c1)\<rparr>"
  have o: "http_request_once env fuel c = (Inr (ex_request y, False), ?c1)"
    by (rule http_request_once_exact) (use Cons.prems in simp_all)
  have "\<not> at_eof ?c1" using at_eof_bytes [of ?c1 "concat (map print_exchange xs) @ print_exchange x @ extra"]
      print_exchange_not_Nil [of x] by simp
  then have n: "vk_nodata_task ?c1 = (Inr False, ?c2)" using nodata_run [of ?c1] by simp
  have step: "http_request_loop env fuel m c = http_request_loop env fuel k ?c2"
    using m o n Cons.prems(3) by (simp add: andThen_cases)
  have "\<exists>c'. http_request_loop env fuel k ?c2 = (Inr (), c') \<and> c_out c' = c_out ?c2 @ concat (map handed_over (xs @ [x]))"
    by (rule Cons.IH) (use Cons.prems m in simp_all)
  then show ?case using step by simp
qed

subsection \<open>The responder's answers\<close>

definition head_11 :: "request \<Rightarrow> byte list" where
  "head_11 rq =
     crlf ''HTTP/1.1 200 OK'' @ crlf ''Content-Type: text/plain'' @
     (if rq_chunked rq then crlf ''Transfer-Encoding: chunked'' else []) @
     (if rq_close rq then crlf ''Connection: close'' else [])"

definition head_10 :: "size_t \<Rightarrow> byte list" where
  "head_10 n = crlf ''HTTP/1.0 200 OK'' @ crlf ''Content-Type: text/plain'' @ length_header n @ crlf []"

text \<open>What is a proper answer: a greeting for a GET, the entity for everything else, in chunks of any
  sizes when it came in chunks.\<close>

fun proper_answer :: "request \<Rightarrow> entity \<Rightarrow> byte list \<Rightarrow> bool" where
  "proper_answer rq Nothing out \<longleftrightarrow>
     out = (if rq_version rq = HTTP10 then (if rq_method rq = GET then head_10 14 @ hello else head_10 0)
            else head_11 rq @ (if rq_method rq = GET then length_header 14 @ crlf [] @ hello else []))"
| "proper_answer rq (Fixed b) out \<longleftrightarrow>
     out = (if rq_version rq = HTTP10 then head_10 (of_nat (length b))
            else head_11 rq @ length_header (of_nat (length b)) @ crlf []) @ b"
| "proper_answer rq (Chunks cs) out \<longleftrightarrow>
     (\<exists>parts. concat parts = concat cs \<and> [] \<notin> set parts \<and>
        out = head_11 rq @ crlf [] @ concat (map chunk_bytes parts) @ [48, 13, 10, 13, 10])"

text \<open>A GET has no entity, and an entity in chunks comes with HTTP/1.1.\<close>

fun usual :: "request \<Rightarrow> entity \<Rightarrow> bool" where
  "usual rq Nothing \<longleftrightarrow> True"
| "usual rq (Fixed b) \<longleftrightarrow> rq_method rq \<noteq> GET"
| "usual rq (Chunks cs) \<longleftrightarrow> rq_method rq \<noteq> GET \<and> rq_version rq \<noteq> HTTP10"

lemma write_step:
  "\<not> c_closed c \<Longrightarrow> andThen (vk_write_task bs) f c = f () (c\<lparr>c_out := c_out c @ map Byte bs\<rparr>)"
  by (simp add: andThen_cases vk_write_task_def put_def)

lemma give_step_then: "andThen (give x) f c = f x c"
  by (simp add: andThen_cases)

lemma write_last:
  "\<not> c_closed c \<Longrightarrow> vk_write_task bs c = (Inr (), c\<lparr>c_out := c_out c @ map Byte bs\<rparr>)"
  by (simp add: vk_write_task_def put_def)

lemma takeWhile_bytes:
  "length (takeWhile (\<lambda>a. case a of Byte b \<Rightarrow> True | _ \<Rightarrow> False) (map Byte bs @ Hup # xs)) = length bs"
  by (induction bs) auto

lemma pollread_exact:
  assumes "c_in c = map Byte bs @ Hup # xs" "bs \<noteq> []"
  shows "\<exists>k. vk_pollread_task n c = (Inr k, c) \<and> 0 < k \<and> k \<le> length bs"
proof -
  obtain b bs' where bs: "bs = b # bs'" using assms(2) by (cases bs) auto
  then have "vk_pollread_task n c = (Inr (max 1 (min n (length bs))), c)"
    using assms(1) takeWhile_bytes [of bs xs] by (simp add: vk_pollread_task_def)
  then show ?thesis using bs by (intro exI [of _ "max 1 (min n (length bs))"]) auto
qed

lemma chunk_written:
  "chunk_head (of_nat (length b)) @ b @ [13, 10] = chunk_bytes b"
  by (simp add: chunk_bytes_def)

lemma echo_chunks_exact:
  "c_in c = map Byte bs @ Hup # xs \<Longrightarrow> \<not> c_closed c \<Longrightarrow> length bs < m \<Longrightarrow> length bs < 2 ^ 64 \<Longrightarrow>
   \<exists>parts left. echo_chunks m arrivals c =
       (Inr left, c\<lparr>c_in := Hup # xs, c_out := c_out c @ map Byte (concat (map chunk_bytes parts))\<rparr>) \<and>
     concat parts = bs \<and> [] \<notin> set parts"
proof (induction m arbitrary: bs c arrivals)
  case (Suc m)
  show ?case
  proof (cases "bs = []")
    case True
    then have "c\<lparr>c_in := Hup # xs, c_out := c_out c\<rparr> = c" using Suc.prems by simp
    then show ?thesis using True Suc.prems
      by (intro exI [of _ "[]"] exI [of _ arrivals]) (simp add: andThen_cases vk_pollhup_task_def at_eof_def)
  next
    case False
    obtain k where p: "vk_pollread_task (if arrivals = [] then 1 else hd arrivals) c = (Inr k, c)" "0 < k" "k \<le> length bs"
      using pollread_exact [OF Suc.prems(1) False] by blast
    define a where "a = take k bs"
    have a: "bs = a @ drop k bs" "length a = k" "a \<noteq> []" using p False by (auto simp: a_def)
    have hup: "vk_pollhup_task c = (Inr False, c)"
      using Suc.prems(1) False by (cases bs) (simp_all add: vk_pollhup_task_def at_eof_def)
    have u: "unat (of_nat k :: size_t) = length a" using p(3) Suc.prems(4) a(2) by (simp add: unat_of_nat)
    let ?xs = "map Byte (drop k bs) @ Hup # xs"
    let ?c1 = "c\<lparr>c_out := c_out c @ map Byte (chunk_head (of_nat k))\<rparr>"
    let ?c2 = "c\<lparr>c_in := ?xs, c_out := c_out c @ map Byte (chunk_head (of_nat k) @ a)\<rparr>"
    let ?c3 = "c\<lparr>c_in := ?xs, c_out := c_out c @ map Byte (chunk_bytes a)\<rparr>"
    have l1: "vk_writerfcchunkheader_task (of_nat k) c = (Inr (), ?c1)"
      using Suc.prems(2) by (simp add: vk_writerfcchunkheader_task_def vk_write_task_def put_def)
    have "c_in ?c1 = map Byte a @ ?xs" using Suc.prems(1) a(1) by (metis append.assoc conn.select_convs(1) conn.surjective conn.update_convs(2) map_append)
    then have l2: "vk_forward_task (of_nat k) ?c1 = (Inr k, ?c2)"
      using forward_exact [of ?c1 a ?xs "of_nat k"] u a(2) by simp
    have l3: "vk_writerfcchunkfooter_task ?c2 = (Inr (), ?c3)"
      using Suc.prems(2) a(2) by (simp add: vk_writerfcchunkfooter_task_def vk_write_task_def put_def chunk_bytes_def)
    have less: "length (drop k bs) < m" "length (drop k bs) < 2 ^ 64" using p Suc.prems(3,4) by simp_all
    obtain parts left where ih: "echo_chunks m (tl arrivals) ?c3 =
        (Inr left, ?c3\<lparr>c_in := Hup # xs, c_out := c_out ?c3 @ map Byte (concat (map chunk_bytes parts))\<rparr>)"
      "concat parts = drop k bs" "[] \<notin> set parts"
      using Suc.IH [of ?c3 "drop k bs" "tl arrivals"] Suc.prems(2) less by auto
    have "echo_chunks (Suc m) arrivals c = echo_chunks m (tl arrivals) ?c3"
      unfolding echo_chunks.simps run_steps hup if_False p(1) using p(2) l1 l2 l3 by simp
    then show ?thesis using ih a by (intro exI [of _ "a # parts"] exI [of _ left]) simp
  qed
qed simp

lemma echo_fixed_exact:
  assumes "c_in c = map Byte bs @ xs" "unat n = length bs"
  shows "echo_fixed n c = (Inr (), c\<lparr>c_in := xs, c_out := c_out c @ map Byte bs\<rparr>)"
  using forward_exact [OF assms] assms(2) by (simp add: echo_fixed_def andThen_cases)

lemma respond_chunks:
  assumes "c_in c = map Byte (concat cs) @ Hup # xs" "rq_chunked rq" "rq_method rq \<noteq> GET" "\<not> c_closed c"
    and "length (concat cs) < m" "length (concat cs) < 2 ^ 64"
  shows "\<exists>out left. respond_http11 m rq arrivals c = (Inr left, c\<lparr>c_in := xs, c_out := c_out c @ map Byte out\<rparr>) \<and>
     proper_answer rq (Chunks cs) out"
proof -
  let ?c1 = "c\<lparr>c_out := c_out c @ map Byte (head_11 rq @ crlf [])\<rparr>"
  obtain parts left where e: "echo_chunks m arrivals ?c1 =
      (Inr left, ?c1\<lparr>c_in := Hup # xs, c_out := c_out ?c1 @ map Byte (concat (map chunk_bytes parts))\<rparr>)"
    "concat parts = concat cs" "[] \<notin> set parts"
    using echo_chunks_exact [of ?c1 "concat cs" xs m arrivals] assms by auto
  have "respond_http11 m rq arrivals c = andThen (echo_chunks m arrivals) (\<lambda>left.
      andThen vk_readhup_task (\<lambda>_. andThen vk_writerfcchunkend_task (\<lambda>_. give left))) ?c1"
    using assms(2,3,4)
    by (cases "rq_close rq") (simp_all add: respond_http11_def write_step head_11_def give_step_then)
  also have "\<dots> = (Inr left, c\<lparr>c_in := xs, c_out := c_out c @
      map Byte (head_11 rq @ crlf [] @ concat (map chunk_bytes parts) @ [48, 13, 10, 13, 10])\<rparr>)"
    using e(1) assms(4)
    by (simp add: andThen_cases vk_readhup_task_def vk_writerfcchunkend_task_def vk_write_task_def put_def bytes_of_def)
  finally show ?thesis using e(2,3) unfolding proper_answer.simps by blast
qed

lemma respond_http11_exact:
  assumes "c_in c = piped e @ xs" "announces rq e" "usual rq e" "rq_version rq \<noteq> HTTP10" "\<not> c_closed c"
    and "length (piped e) < m" "length (piped e) < 2 ^ 64"
  shows "\<exists>out left. respond_http11 m rq arrivals c = (Inr left, c\<lparr>c_in := xs, c_out := c_out c @ map Byte out\<rparr>) \<and>
     proper_answer rq e out"
proof (cases e)
  case Nothing
  then show ?thesis using assms
    by (cases "rq_method rq = GET"; cases "rq_close rq")
      (simp_all add: respond_http11_def write_step head_11_def give_step_then)
next
  case (Fixed b)
  have n: "rq_content_length rq > 0" "rq_content_length rq = of_nat (length b)"
    using assms(2) Fixed by (auto simp: word_greater_zero_iff) (metis of_nat_unat ucast_id)
  let ?c1 = "c\<lparr>c_out := c_out c @ map Byte (head_11 rq @ length_header (rq_content_length rq) @ crlf [])\<rparr>"
  have "echo_fixed (rq_content_length rq) ?c1 = (Inr (), ?c1\<lparr>c_in := xs, c_out := c_out ?c1 @ map Byte b\<rparr>)"
    by (rule echo_fixed_exact) (use assms Fixed in simp_all)
  then have e: "andThen (echo_fixed (rq_content_length rq)) (\<lambda>_. give arrivals) ?c1 =
      (Inr arrivals, c\<lparr>c_in := xs, c_out := c_out c @ map Byte (head_11 rq @ length_header (of_nat (length b)) @ crlf [] @ b)\<rparr>)"
    using n(2) by (simp add: andThen_cases)
  have "respond_http11 m rq arrivals c = andThen (echo_fixed (rq_content_length rq)) (\<lambda>_. give arrivals) ?c1"
    using assms Fixed n(1)
    by (cases "rq_close rq") (simp_all add: respond_http11_def write_step head_11_def give_step_then)
  then show ?thesis using e Fixed assms(4) by simp
next
  case (Chunks cs)
  then show ?thesis using respond_chunks [of c cs xs rq m arrivals] assms by simp
qed

lemma respond_http10_exact:
  assumes "c_in c = piped e @ xs" "announces rq e" "usual rq e" "rq_version rq = HTTP10" "\<not> c_closed c"
  shows "\<exists>out. respond_http10 rq c = (Inr (), c\<lparr>c_in := xs, c_out := c_out c @ map Byte out\<rparr>) \<and> proper_answer rq e out"
proof (cases e)
  case Nothing
  then have "c\<lparr>c_in := xs\<rparr> = c" using assms(1) by simp
  then show ?thesis using assms Nothing
    by (cases "rq_method rq = GET") (simp_all add: respond_http10_def write_step write_last head_10_def)
next
  case (Fixed b)
  have n: "rq_content_length rq > 0" "rq_content_length rq = of_nat (length b)"
    using assms(2) Fixed by (auto simp: word_greater_zero_iff) (metis of_nat_unat ucast_id)
  let ?c1 = "c\<lparr>c_out := c_out c @ map Byte (head_10 (rq_content_length rq))\<rparr>"
  have e: "echo_fixed (rq_content_length rq) ?c1 = (Inr (), ?c1\<lparr>c_in := xs, c_out := c_out ?c1 @ map Byte b\<rparr>)"
    by (rule echo_fixed_exact) (use assms Fixed in simp_all)
  have "respond_http10 rq c = echo_fixed (rq_content_length rq) ?c1"
    using assms Fixed n(1) by (simp add: respond_http10_def write_step head_10_def)
  then show ?thesis using e Fixed assms(4) n(2) by simp
next
  case (Chunks cs)
  then show ?thesis using assms by simp
qed

lemma respond_once_exact:
  assumes "c_in c = piped e @ xs" "announces rq e" "usual rq e" "rq_version rq \<noteq> HTTP09" "\<not> c_closed c"
    and "length (piped e) < m" "length (piped e) < 2 ^ 64"
  shows "\<exists>out left. respond_once m rq arrivals c = (Inr left, c\<lparr>c_in := xs, c_out := c_out c @ map Byte out\<rparr>) \<and>
     proper_answer rq e out"
proof (cases "rq_version rq = HTTP10")
  case True
  then show ?thesis using respond_http10_exact [OF assms(1,2,3) _ assms(5)] by (auto simp: respond_once_def andThen_cases)
next
  case False
  then show ?thesis using respond_http11_exact [OF assms(1,2,3) _ assms(5,6,7), of arrivals] assms(4)
    by (simp add: respond_once_def)
qed

definition answered :: "exchange \<Rightarrow> byte list \<Rightarrow> bool" where
  "answered x out \<longleftrightarrow> proper_answer (ex_request x) (ex_entity x) out"

definition exchange_usual :: "exchange \<Rightarrow> bool" where
  "exchange_usual x \<longleftrightarrow> exchange_ok x \<and> usual (ex_request x) (ex_entity x)"

lemma ex_request_version: "exchange_ok x \<Longrightarrow> rq_version (ex_request x) \<noteq> HTTP09"
  by (simp add: exchange_ok_def head_ok_def ex_request_def understood_def understood_line first_line_def)

lemma http_response_loop_exact:
  "c_in c = concat (map handed_over (xs @ [x])) \<Longrightarrow> \<forall>y \<in> set (xs @ [x]). exchange_usual y \<Longrightarrow>
   \<forall>y \<in> set xs. \<not> rq_close (ex_request y) \<Longrightarrow> rq_close (ex_request x) \<Longrightarrow> \<not> c_closed c \<Longrightarrow>
   \<forall>y \<in> set (xs @ [x]). length (piped (ex_entity y)) < fuel \<and> length (piped (ex_entity y)) < 2 ^ 64 \<Longrightarrow> length xs < m \<Longrightarrow>
   \<exists>outs c'. http_response_loop fuel m arrivals c = (Inr (), c') \<and> c_out c' = c_out c @ map Byte (concat outs) \<and>
     list_all2 answered (xs @ [x]) outs"
proof (induction xs arbitrary: c m arrivals)
  case Nil
  then obtain k where m: "m = Suc k" by (cases m) auto
  let ?c1 = "c\<lparr>c_in := piped (ex_entity x) @ []\<rparr>"
  have r: "vk_read_struct_task c = (Inr (Some (ex_request x)), ?c1)"
    using Nil.prems(1) by (simp add: vk_read_struct_task_def handed_over_def)
  obtain out left where o: "respond_once fuel (ex_request x) arrivals ?c1 =
      (Inr left, ?c1\<lparr>c_in := [], c_out := c_out ?c1 @ map Byte out\<rparr>)" "proper_answer (ex_request x) (ex_entity x) out"
    using respond_once_exact [of ?c1 "ex_entity x" "[]" "ex_request x" fuel arrivals] Nil.prems ex_request_version [of x]
    by (auto simp: exchange_usual_def exchange_ok_def)
  show ?case using r o m Nil.prems(4) by (intro exI [of _ "[out]"]) (simp add: andThen_cases answered_def)
next
  case (Cons y xs)
  then obtain k where m: "m = Suc k" by (cases m) auto
  let ?xs = "concat (map handed_over (xs @ [x]))"
  let ?c1 = "c\<lparr>c_in := piped (ex_entity y) @ ?xs\<rparr>"
  have r: "vk_read_struct_task c = (Inr (Some (ex_request y)), ?c1)"
    using Cons.prems(1) by (simp add: vk_read_struct_task_def handed_over_def [of y])
  obtain out left where o: "respond_once fuel (ex_request y) arrivals ?c1 =
      (Inr left, ?c1\<lparr>c_in := ?xs, c_out := c_out ?c1 @ map Byte out\<rparr>)" "proper_answer (ex_request y) (ex_entity y) out"
    using respond_once_exact [of ?c1 "ex_entity y" ?xs "ex_request y" fuel arrivals] Cons.prems ex_request_version [of y]
    by (auto simp: exchange_usual_def exchange_ok_def)
  let ?c2 = "c\<lparr>c_in := ?xs, c_out := c_out c @ map Byte out\<rparr>"
  have step: "http_response_loop fuel m arrivals c = http_response_loop fuel k left ?c2"
    using r o(1) m Cons.prems(3) by (simp add: andThen_cases)
  obtain outs c' where ih: "http_response_loop fuel k left ?c2 = (Inr (), c')"
    "c_out c' = c_out ?c2 @ map Byte (concat outs)" "list_all2 answered (xs @ [x]) outs"
    using Cons.IH [of ?c2 k left] Cons.prems m by auto
  show ?case using step ih o(2)
    by (intro exI [of _ "out # outs"] exI [of _ c']) (simp add: answered_def [of y])
qed

subsection \<open>Whole sessions\<close>

lemma piped_length: "length (piped e) \<le> length (print_entity e) + 1"
proof (cases e)
  case (Chunks cs)
  have "length (concat cs) \<le> length (concat (map chunk_bytes cs))" by (induction cs) (auto simp: chunk_bytes_def)
  then show ?thesis using Chunks by simp
qed simp_all

lemma print_exchange_long: "length (print_entity (ex_entity x)) + 2 \<le> length (print_exchange x)"
  by (simp add: print_exchange_def print_head_def)

lemma concat_lengths: "y \<in> set xs \<Longrightarrow> length (f y) \<le> length (concat (map f xs))"
  by (induction xs) auto

lemma sessions_short: "length xs \<le> length (concat (map print_exchange xs))"
proof (induction xs)
  case (Cons x xs)
  then show ?case using print_exchange_long [of x] by simp
qed simp

text \<open>C4: A pipelined session is answered: for every sequence of well-formed requests of which only the last one closes
  the connection, with whatever bytes after it, however the entities arrive at the responder and whenever it
  learns of the end of file, the client receives one answer for each request, in order. A
  GET gets the greeting, every other method gets its entity back, in chunks of some
  sizes if it was sent in chunks, and the connection is closed.\<close>

theorem http11_serve_answers:
  assumes "\<forall>y \<in> set (xs @ [x]). exchange_usual y" "\<forall>y \<in> set xs. \<not> rq_close (ex_request y)" "rq_close (ex_request x)"
    and "length (concat (map print_exchange (xs @ [x])) @ extra) < fuel" "fuel < 2 ^ 64"
  shows "\<exists>outs c. http11_serve env fuel late arrivals (concat (map print_exchange (xs @ [x])) @ extra) = (Inr (), c) \<and>
     c_closed c \<and> c_out c = map Byte (concat outs) \<and> list_all2 answered (xs @ [x]) outs"
proof -
  let ?input = "concat (map print_exchange (xs @ [x])) @ extra"
  let ?c = "\<lparr>c_in = map Byte ?input, c_out = [], c_closed = False, c_late = late\<rparr> :: request conn"
  have n: "length xs < fuel" using assms(4) sessions_short [of xs] by simp
  obtain c1 where r: "http11_request env fuel ?c = (Inr (), c1)" "c_out c1 = concat (map handed_over (xs @ [x]))"
    using http_request_loop_exact [of ?c xs x extra fuel fuel env] assms n
    by (auto simp: http11_request_def exchange_usual_def)
  let ?d = "\<lparr>c_in = c_out c1, c_out = [], c_closed = False, c_late = []\<rparr> :: request conn"
  have short: "length (piped (ex_entity y)) < fuel" if "y \<in> set (xs @ [x])" for y
    using concat_lengths [OF that, of print_exchange] piped_length [of "ex_entity y"] print_exchange_long [of y] assms(4)
    by (simp del: map_append concat_append)
  then have "\<forall>y \<in> set (xs @ [x]). length (piped (ex_entity y)) < fuel \<and> length (piped (ex_entity y)) < 2 ^ 64"
    using assms(5) by (meson less_trans)
  then obtain outs c' where l: "http_response_loop fuel fuel arrivals ?d = (Inr (), c')" "c_out c' = map Byte (concat outs)"
    "list_all2 answered (xs @ [x]) outs"
    using http_response_loop_exact [of ?d xs x fuel fuel arrivals] r(2) assms(1-3) n by auto
  have "http11_response env fuel arrivals ?d = (Inr (), c'\<lparr>c_closed := True\<rparr>)"
    using l(1) by (simp add: http11_response_def andThen_cases vk_tx_close_task_def)
  then show ?thesis using r(1) l(2,3)
    by (intro exI [of _ outs] exI [of _ "c'\<lparr>c_closed := True\<rparr>"]) (simp add: http11_serve_def)
qed

definition test_get :: exchange where
  "test_get = \<lparr>ex_method = bytes_of ''GET'', ex_uri = [47], ex_version = bytes_of ''HTTP/1.1'', ex_headers = [], ex_entity = Nothing\<rparr>"

definition test_post :: exchange where
  "test_post = \<lparr>ex_method = bytes_of ''POST'', ex_uri = [47], ex_version = bytes_of ''HTTP/1.1'',
     ex_headers = [(bytes_of ''Transfer-Encoding'', bytes_of ''chunked''), (bytes_of ''Connection'', bytes_of ''close'')],
     ex_entity = Chunks [bytes_of ''ab'', bytes_of ''c'']\<rparr>"

lemma test_requests:
  "ex_request test_get = \<lparr>rq_method = GET, rq_uri = [47], rq_version = HTTP11, rq_headers = [], rq_content_length = 0,
     rq_chunked = False, rq_close = False\<rparr>"
  "ex_request test_post = \<lparr>rq_method = POST, rq_uri = [47], rq_version = HTTP11,
     rq_headers = [(bytes_of ''Transfer-Encoding'', bytes_of ''chunked''), (bytes_of ''Connection'', bytes_of ''close'')],
     rq_content_length = 0, rq_chunked = True, rq_close = True\<rparr>"
proof -
  have names: "string_to_HTTP_METHOD ''GET'' = GET" "string_to_HTTP_METHOD ''POST'' = POST"
    "string_to_HTTP_VERSION ''HTTP/1.1'' = HTTP11" "string_to_HTTP_HEADER ''Transfer-Encoding'' = TRANSFER_ENCODING"
    "string_to_HTTP_HEADER ''Connection'' = CONNECTION"
    "strcasecmp ''chunked'' ''chunked'' = 0" "strcasecmp ''close'' ''close'' = 0"
    by code_simp+
  show "ex_request test_get = \<lparr>rq_method = GET, rq_uri = [47], rq_version = HTTP11, rq_headers = [], rq_content_length = 0,
     rq_chunked = False, rq_close = False\<rparr>"
    by (simp add: ex_request_def test_get_def understood_def first_line_def names closes_by_version_def)
  show "ex_request test_post = \<lparr>rq_method = POST, rq_uri = [47], rq_version = HTTP11,
     rq_headers = [(bytes_of ''Transfer-Encoding'', bytes_of ''chunked''), (bytes_of ''Connection'', bytes_of ''close'')],
     rq_content_length = 0, rq_chunked = True, rq_close = True\<rparr>"
    by (simp add: ex_request_def test_post_def understood_def first_line_def header_step_def apply_header_def names
        closes_by_version_def store_header_def copy_into_def)
qed

theorem http11_serve_answers_witness:
  "\<exists>outs c. http11_serve test_env 1000 [] [] (print_exchange test_get @ print_exchange test_post) = (Inr (), c) \<and>
     c_closed c \<and> c_out c = map Byte (concat outs) \<and> list_all2 answered [test_get, test_post] outs"
proof -
  have v: "string_to_HTTP_VERSION ''HTTP/1.1'' = HTTP11" by code_simp
  have u: "\<forall>y \<in> set ([test_get] @ [test_post]). exchange_usual y"
    by (simp add: exchange_usual_def exchange_ok_def test_requests chunk_ok_def head_ok_def)
      (simp add: test_get_def test_post_def v, simp add: word_ok_def header_ok_def chunk_ok_def bytes_of_def)
  have len: "length (chunk_head (of_nat (length b))) \<le> 18" if "chunk_ok b" for b
    using chunk_head_digits [of "of_nat (length b)"] chunk_ok_size [OF that] by auto
  have "length (print_exchange test_get @ print_exchange test_post) < 1000"
    using len [of "bytes_of ''ab''"] len [of "bytes_of ''c''"]
    by (simp add: print_exchange_def print_head_def test_get_def test_post_def header_line_def chunk_bytes_def chunk_ok_def)
  then show ?thesis
    using http11_serve_answers [OF u, of "[]" 1000 test_env "[]" "[]"] by (simp add: test_requests)
qed

subsection \<open>Where requests are misread\<close>

text \<open>The entity of a GET is handed over and never taken: after a GET with a Content-Length on a connection that
  stays open, the responder reads the entity as if it were the next request structure, whatever request follows.\<close>

theorem http_get_entity_confused:
  assumes "exchange_ok x" "rq_method (ex_request x) = GET" "ex_entity x = Fixed b" "\<not> rq_close (ex_request x)"
    and "rq_version (ex_request x) \<noteq> HTTP10" "exchange_ok y" "rq_close (ex_request y)"
    and "length (print_exchange x @ print_exchange y) < fuel"
  shows "fst (http11_serve env fuel late arrivals (print_exchange x @ print_exchange y)) = Inl Undefined"
proof -
  let ?c = "\<lparr>c_in = map Byte (print_exchange x @ print_exchange y), c_out = [], c_closed = False, c_late = late\<rparr> :: request conn"
  have n: "1 < fuel" using assms(8) print_exchange_long [of x] by simp
  have "\<exists>c1. http_request_loop env fuel fuel ?c = (Inr (), c1) \<and> c_out c1 = c_out ?c @ concat (map handed_over ([x] @ [y]))"
    by (rule http_request_loop_exact [where extra = "[]"]) (use assms(1,4,6,7,8) n in simp_all)
  then obtain c1 where r: "http11_request env fuel ?c = (Inr (), c1)" "c_out c1 = handed_over x @ handed_over y"
    unfolding http11_request_def by (simp only: list.map append.simps concat.simps conn.select_convs append_Nil2) blast
  obtain k where k: "fuel = Suc (Suc k)" using less_imp_Suc_add [OF n] by auto
  have a: "\<not> rq_chunked (ex_request x)" "b \<noteq> []" using assms(1,3) by (auto simp: exchange_ok_def)
  let ?d = "\<lparr>c_in = c_out c1, c_out = [], c_closed = False, c_late = []\<rparr> :: request conn"
  let ?d1 = "?d\<lparr>c_in := map Byte b @ handed_over y\<rparr>"
  have s: "vk_read_struct_task ?d = (Inr (Some (ex_request x)), ?d1)"
    using r(2) assms(3) by (simp add: vk_read_struct_task_def handed_over_def [of x])
  obtain out where o: "respond_once fuel (ex_request x) arrivals ?d1 = (Inr arrivals, ?d1\<lparr>c_out := out\<rparr>)"
    using assms(2,4,5) a(1) ex_request_version [OF assms(1)]
    by (simp add: respond_once_def respond_http11_def write_step give_step_then)
  have "vk_read_struct_task (?d1\<lparr>c_out := out\<rparr>) = (Inl Undefined, ?d1\<lparr>c_out := out\<rparr>)"
    using a(2) by (cases b) (simp_all add: vk_read_struct_task_def)
  then have "http_response_loop fuel fuel arrivals ?d = (Inl Undefined, ?d1\<lparr>c_out := out\<rparr>)"
    using s o assms(4) k by (simp add: andThen_cases)
  then show ?thesis using r(1) by (simp add: http11_serve_def http11_response_def andThen_cases)
qed

definition test_get_entity :: exchange where
  "test_get_entity = \<lparr>ex_method = bytes_of ''GET'', ex_uri = [47], ex_version = bytes_of ''HTTP/1.1'',
     ex_headers = [(bytes_of ''Content-Length'', bytes_of ''2'')], ex_entity = Fixed (bytes_of ''ab'')\<rparr>"

lemma test_get_entity_request:
  "ex_request test_get_entity = \<lparr>rq_method = GET, rq_uri = [47], rq_version = HTTP11,
     rq_headers = [(bytes_of ''Content-Length'', bytes_of ''2'')], rq_content_length = 2, rq_chunked = False, rq_close = False\<rparr>"
proof -
  have names: "string_to_HTTP_METHOD ''GET'' = GET" "string_to_HTTP_VERSION ''HTTP/1.1'' = HTTP11"
    "string_to_HTTP_HEADER ''Content-Length'' = CONTENT_LENGTH" "dec_size (buf_of (bytes_of ''2'')) = 2"
    by code_simp+
  show ?thesis
    by (simp add: ex_request_def test_get_entity_def understood_def first_line_def header_step_def apply_header_def names
        closes_by_version_def store_header_def copy_into_def)
qed

theorem http_get_entity_confused_witness:
  "fst (http11_serve test_env 1000 [] [] (print_exchange test_get_entity @ print_exchange test_post)) = Inl Undefined"
proof -
  have v: "string_to_HTTP_VERSION ''HTTP/1.1'' = HTTP11" by code_simp
  have u: "exchange_ok test_get_entity" "exchange_ok test_post"
    by (simp_all add: exchange_ok_def test_requests test_get_entity_request head_ok_def)
      (simp_all add: test_get_entity_def test_post_def v, simp_all add: word_ok_def header_ok_def chunk_ok_def bytes_of_def)
  have len: "length (chunk_head (of_nat (length b))) \<le> 18" if "chunk_ok b" for b
    using chunk_head_digits [of "of_nat (length b)"] chunk_ok_size [OF that] by auto
  have "length (print_exchange test_get_entity @ print_exchange test_post) < 1000"
    using len [of "bytes_of ''ab''"] len [of "bytes_of ''c''"]
    by (simp add: print_exchange_def print_head_def test_get_entity_def test_post_def header_line_def chunk_bytes_def chunk_ok_def)
  then show ?thesis
    using http_get_entity_confused [OF u(1) _ _ _ _ u(2)]
    by (simp add: test_requests test_get_entity_request) (simp add: test_get_entity_def)
qed

lemma header_loop_junk:
  "c_in c = map Byte (concat (map header_line hs) @ junk @ [13, 10]) @ xs \<Longrightarrow> \<forall>h \<in> set hs. header_ok h \<Longrightarrow>
   set junk \<inter> {0, 9, 10, 13, 32, 58} = {} \<Longrightarrow> length junk + 2 \<le> 1024 \<Longrightarrow> length hs < fuel \<Longrightarrow>
   header_loop env act fuel rq c = (Inr (foldl (header_step act) rq hs), c\<lparr>c_in := xs\<rparr>)"
proof (induction hs arbitrary: c rq fuel)
  case Nil
  then obtain m where m: "fuel = Suc m" by (cases fuel) auto
  have "vk_readrfcline_task 1024 c = (Inr junk, c\<lparr>c_in := xs\<rparr>)"
    by (rule readrfcline_exact) (use Nil.prems in auto)
  moreover have t: "rtrim_line junk = junk"
    by (rule rtrim_line_plain) (use Nil.prems(3) last_in_set in \<open>metis IntI empty_iff insert_iff\<close>)
  moreover have "c_str junk = junk" by (rule c_str_id) (use Nil.prems(3) in auto)
  moreover have "strsep [58, 32, 9] junk = (junk, None)" by (rule strsep_none) (use Nil.prems(3) in auto)
  ultimately have "vk_readrfcheader_task (env_below env) 1024 c = (Inr None, c\<lparr>c_in := xs\<rparr>)"
    using Nil.prems(4) by (simp add: vk_readrfcheader_task_def andThen_cases terminated_def parse_header_def)
  then show ?case using m by (simp add: andThen_cases)
next
  case (Cons h hs)
  then obtain m where m: "fuel = Suc m" by (cases fuel) auto
  let ?xs = "map Byte (concat (map header_line hs) @ junk @ [13, 10]) @ xs"
  have r: "vk_readrfcheader_task (env_below env) 1024 c = (Inr (Some h), c\<lparr>c_in := ?xs\<rparr>)"
    by (rule readrfcheader_exact) (use Cons.prems in simp_all)
  have "header_loop env act m (header_step act rq h) (c\<lparr>c_in := ?xs\<rparr>) =
      (Inr (foldl (header_step act) (header_step act rq h) hs), (c\<lparr>c_in := ?xs\<rparr>)\<lparr>c_in := xs\<rparr>)"
    by (rule Cons.IH) (use Cons.prems m in simp_all)
  moreover have "header_loop env act fuel rq c = header_loop env act m (header_step act rq h) (c\<lparr>c_in := ?xs\<rparr>)"
    using r m by (simp add: andThen_cases header_step_def split_beta)
  ultimately show ?case by simp
qed

text \<open>A header line without a separator is not refused: it ends the headers. The request is made of the headers
  before it, and the headers after it, such as a Content-Length, are left in the stream as if they were
  the entity or the next request.\<close>

theorem http_bare_line_ends_headers:
  assumes "c_in c = map Byte (m @ [32] @ u @ [32] @ v @ [13, 10] @ concat (map header_line hs) @ junk @ [13, 10]) @ xs"
    and "head_ok m u v hs" "set junk \<inter> {0, 9, 10, 13, 32, 58} = {}" "length junk + 2 \<le> 1024" "length hs < fuel"
  shows "request_head env fuel c = (Inr (understood m u v hs), c\<lparr>c_in := xs\<rparr>)"
proof -
  let ?xs = "map Byte (concat (map header_line hs) @ junk @ [13, 10]) @ xs"
  have "request_line c = (Inr (first_line m u v), c\<lparr>c_in := ?xs\<rparr>)"
    by (rule request_line_exact) (use assms in \<open>simp_all add: head_ok_def\<close>)
  moreover have "header_loop env apply_header fuel (first_line m u v) (c\<lparr>c_in := ?xs\<rparr>) =
      (Inr (understood m u v hs), (c\<lparr>c_in := ?xs\<rparr>)\<lparr>c_in := xs\<rparr>)"
    unfolding understood_def by (rule header_loop_junk) (use assms in \<open>simp_all add: head_ok_def\<close>)
  moreover have "rq_version (first_line m u v) \<noteq> HTTP09" using assms(2) by (simp add: first_line_def head_ok_def)
  ultimately show ?thesis by (simp add: request_head_def andThen_cases)
qed

theorem http_bare_line_ends_headers_witness:
  "request_head test_env 1 \<lparr>c_in = map Byte (bytes_of ''POST'' @ [32] @ [47] @ [32] @ bytes_of ''HTTP/1.1'' @ [13, 10] @ bytes_of ''junk'' @ [13, 10]) @
       map Byte (header_line (bytes_of ''Content-Length'', bytes_of ''2'')), c_out = [], c_closed = False, c_late = []\<rparr> =
   (Inr (understood (bytes_of ''POST'') [47] (bytes_of ''HTTP/1.1'') []),
    \<lparr>c_in = map Byte (header_line (bytes_of ''Content-Length'', bytes_of ''2'')), c_out = [], c_closed = False, c_late = []\<rparr>)"
proof -
  have "string_to_HTTP_VERSION ''HTTP/1.1'' = HTTP11" by code_simp
  then have "head_ok (bytes_of ''POST'') [47] (bytes_of ''HTTP/1.1'') []"
    by (simp add: head_ok_def) (simp add: word_ok_def bytes_of_def)
  from http_bare_line_ends_headers [OF _ this, of "\<lparr>c_in = map Byte (bytes_of ''POST'' @ [32] @ [47] @ [32] @ bytes_of ''HTTP/1.1'' @ [13, 10] @ bytes_of ''junk'' @ [13, 10]) @
       map Byte (header_line (bytes_of ''Content-Length'', bytes_of ''2'')), c_out = [], c_closed = False, c_late = []\<rparr>" "bytes_of ''junk''"]
  show ?thesis by (simp add: bytes_of_def)
qed

text \<open>A chunk head of more than 19 bytes, for one with a chunk extension, overflows its buffer.\<close>

theorem http_chunk_extension_overflows:
  assumes "c_in c = map Byte line @ Byte 10 # xs" "10 \<notin> set line" "19 \<le> length line"
  shows "fst (chunk_loop (Suc m) c) = Inl Undefined"
proof -
  have "vk_readline_task 19 c = (Inl Undefined, c)"
    using assms take_line_exact [of line xs] by (simp add: vk_readline_task_def)
  then show ?thesis by (simp add: vk_readrfcchunkheader_task_def vk_readrfcline_task_def andThen_cases)
qed

text \<open>The preface of an HTTP/2 client is refused by an error test that is the wrong way round, and
  accepted when its last line is missing.\<close>

theorem http2_preface_refused:
  "fst (http2_preface env \<lparr>c_in = map Byte (bytes_of ''SM'' @ [13, 10, 13, 10]) @ xs, c_out = out, c_closed = cl, c_late = late\<rparr>) =
     Inl (Raised (env_errno env)) \<and>
   fst (http2_preface env \<lparr>c_in = map Byte (bytes_of ''SM'' @ [13, 10]), c_out = out, c_closed = cl, c_late = late\<rparr>) = Inr False"
proof -
  have "rtrim_line [83, 77, 13, 10] = [83, 77]" using rtrim_line_crlf [of "[83, 77]"] by simp
  then show ?thesis by (simp add: http2_preface_def andThen_cases vk_readline_task_def bytes_of_def terminated_def)
qed

end
