(* ===== verification/Proc_Alloc.thy ===== *)
theory Proc_Alloc
  imports Kern Huge
begin

text \<open>
  How the kernel and its processes come into being (src/vk_kern.c, src/vk_proc.c): the mapping of a heap with
  or without huge pages, the kernel object with its table of descriptors and its pool of
  processes, a process with a heap of its own or from a pool, and the first coroutine of a
  process.
\<close>

text \<open>What the system and the compiler contribute: the page size, the sizes of the structures, the outcome of
  \<open>mmap\<close> with and without the flags of huge pages, the clock, /proc/meminfo and the outcomes of
  \<open>mprotect\<close>.\<close>

record alloc_env =
  ae_page :: size_t
  ae_kern_size :: size_t
  ae_table_size :: size_t
  ae_entry_size :: size_t
  ae_proc_size :: size_t
  ae_local_size :: size_t
  ae_thread_size :: size_t
  ae_mmap :: "bool \<Rightarrow> errno + addr"
  ae_clock :: "64 word \<times> 64 word"
  ae_meminfo :: "string list option"
  ae_mprotect :: "nat \<Rightarrow> errno + unit"
  ae_signal_init :: "errno + unit"
  ae_isolate :: bool

definition VK_KERN_PROC_MAX :: size_t where "VK_KERN_PROC_MAX = 16384"
definition MAP_PRIVATE_ANON :: "32 word" where "MAP_PRIVATE_ANON = 0x22"

subsection \<open>Memory that is zero\<close>

definition zero_future :: vk_io_future where
  "zero_future = \<lparr>ioft_socket = 0, ioft_event = \<lparr>ev_fd = 0, ev_events = 0, ev_revents = 0\<rparr>, ioft_readable = 0,
     ioft_writable = 0, ioft_rx_closed = False, ioft_tx_closed = False\<rparr>"

definition zero_fd :: vk_fd where
  "zero_fd = \<lparr>fd_num = 0, fd_proc_id = 0, fd_closed = False, fd_zombie = False, fd_added = False, fd_allocated = False,
     dirty_qed = False, fresh_qed = False, ioft_post = zero_future, ioft_pre = zero_future, ioft_ret = zero_future\<rparr>"

definition zero_heap :: vk_heap where
  "zero_heap = \<lparr>mapping = \<lparr>map_retval = 0, map_addr = 0, map_len = 0, map_prot = 0, map_flags = 0, map_fd = 0, map_offset = 0\<rparr>,
     owned = False, prot_inside = 0, prot_outside = 0,
     heap_stack = \<lparr>addr_start = 0, addr_cursor = 0, addr_stop = 0\<rparr>\<rparr>"

definition zero_pool :: vk_pool where
  "zero_pool = \<lparr>pool_heap = zero_heap, free_head = None, free_link = (\<lambda>_. None),
     pool_entries = (\<lambda>_. \<lparr>entry_id = 0, entry_heap = zero_heap\<rparr>), object_size = 0, object_count = 0,
     pool_buf = None, pool_buf_len = 0\<rparr>"

definition zero_proc :: vk_proc where
  "zero_proc = \<lparr>proc_id = 0, proc_pool_entry_id = 0, proc_pooled = False, run_qed = False, blocked_qed = False,
     allocated_fds = [], has_local = False, proc_heap = zero_heap, privileged = False, isolated = False\<rparr>"

definition zero_local :: vk_proc_local where
  "zero_local = \<lparr>pl_proc_id = 0, pl_run = False, pl_blocked = False, run_q = [], blocked_q = [], running_cr = 0,
     supervisor_cr = 0, si_signo = 0, pl_stack = \<lparr>addr_start = 0, addr_cursor = 0, addr_stop = 0\<rparr>\<rparr>"

subsection \<open>Mapping, with huge pages if they are likely to be had\<close>

text \<open>A length whose low 32 bits are all ones would be taken for a failure.\<close>

definition map_error :: "errno + int \<Rightarrow> errno option" where
  "map_error rc = (case rc of Inl e \<Rightarrow> Some e | Inr n \<Rightarrow> if n = - 1 then Some 0 else None)"

text \<open>The tracker of huge pages is a local variable of the caller: what a success or a failure
  teaches it is lost on return, so that the feedback of \<open>Huge\<close> has no effect here.\<close>

definition huge_len :: "size_t \<Rightarrow> size_t" where
  "huge_len n = (case vk_huge_aligned_len vk_huge_init 1 n of Inl _ \<Rightarrow> n | Inr h \<Rightarrow> h)"

definition map_huge_first ::
  "alloc_env \<Rightarrow> vk_heap \<Rightarrow> addr \<Rightarrow> size_t \<Rightarrow> prot \<Rightarrow> 32 word \<Rightarrow> int \<Rightarrow> int \<Rightarrow> bool \<Rightarrow> (errno + int) \<times> vk_heap" where
  "map_huge_first env hp a len prot flags fd off entered =
     (case vk_huge_should_try (fst (ae_clock env)) (snd (ae_clock env)) (ae_meminfo env) (huge_len len) vk_huge_init of
        (attempt, st) \<Rightarrow>
          if attempt
          then (case vk_heap_map hp a (huge_len len) prot (flags OR hg_flags st) fd off entered (ae_mmap env True) of
                  (rc, hp1) \<Rightarrow>
                    (case map_error rc of
                       None \<Rightarrow> (rc, hp1)
                     | Some e \<Rightarrow>
                         if e \<in> {ENOMEM, EINVAL, EAGAIN, EPERM}
                         then vk_heap_map hp1 a len prot flags fd off entered (ae_mmap env False)
                         else (rc, hp1)))
          else vk_heap_map hp a len prot flags fd off entered (ae_mmap env False))"

subsection \<open>A process with a heap of its own\<close>

text \<open>The protection is the one the system holds for the pages of the new heap. \<open>left\<close> is what the memory of the
  heap holds: zeros in a fresh mapping, what its last user left in a pool. The process-local state is zero in
  both; the threads and sockets of \<open>left\<close> are no objects of the process until they are initialised.\<close>

definition install_local :: "vk_world \<Rightarrow> size_t \<Rightarrow> vk_stack \<Rightarrow> mem \<Rightarrow> kern_world \<Rightarrow> kern_world" where
  "install_local left p st m k =
     vk_proc_init p
       (set_local p (left\<lparr>w_mem := m, w_local := zero_local\<lparr>pl_proc_id := proc_id (k_proc k p), pl_stack := st\<rparr>\<rparr>)
         (upd_proc p (has_local_update (\<lambda>_. True)) k))"

definition keep_heap :: "size_t \<Rightarrow> vk_heap \<Rightarrow> prot \<Rightarrow> kern_world \<Rightarrow> kern_world" where
  "keep_heap p hp pr k = upd_proc p (proc_heap_update (\<lambda>_. hp)) (k\<lparr>k_prot := (k_prot k)(p := pr)\<rparr>)"

definition vk_proc_alloc ::
  "alloc_env \<Rightarrow> vk_world \<Rightarrow> addr \<Rightarrow> size_t \<Rightarrow> prot \<Rightarrow> 32 word \<Rightarrow> int \<Rightarrow> int \<Rightarrow> bool \<Rightarrow> size_t \<Rightarrow> kern_world \<Rightarrow>
   (errno + unit) \<times> kern_world" where
  "vk_proc_alloc env left a len prot flags fd off entered p k =
     (case vk_safe_alignedlen (ae_page env) 1 len of
        Inl e \<Rightarrow> (Inl e, k)
      | Inr alignedlen \<Rightarrow>
          (case map_huge_first env zero_heap a alignedlen prot flags fd off entered of
             (rc, hp) \<Rightarrow>
               (case map_error rc of
                  Some e \<Rightarrow> (Inl e, k)
                | None \<Rightarrow>
                    (case (if entered then (Inr (), map_prot (mapping hp), hp)
                           else vk_heap_enter hp (map_prot (mapping hp)) (ae_mprotect env 0)) of
                       (Inl e, pr, hp1) \<Rightarrow> (Inl e, k)
                     | (Inr _, pr, hp1) \<Rightarrow>
                         (case vk_stack_push (ae_page env) (\<lambda>_. 0) (heap_stack hp1) 1 (ae_local_size env) of
                            Inl e \<Rightarrow> (Inl e, upd_proc p (has_local_update (\<lambda>_. False)) k)
                          | Inr (l, m, st) \<Rightarrow>
                              (let hp2 = hp1\<lparr>heap_stack := st\<rparr>; k1 = install_local left p st m k
                               in if entered then (Inr (), keep_heap p hp2 pr k1)
                                  else case vk_heap_exit hp2 pr (ae_mprotect env 1) of
                                    (Inl e, pr2, hp3) \<Rightarrow> (Inl e, k1)
                                  | (Inr _, pr2, hp3) \<Rightarrow> (Inr (), keep_heap p hp3 pr2 k1)))))))"

definition VK_PROC_INIT_PUBLIC :: "alloc_env \<Rightarrow> vk_world \<Rightarrow> size_t \<Rightarrow> bool \<Rightarrow> size_t \<Rightarrow> kern_world \<Rightarrow> (errno + unit) \<times> kern_world" where
  "VK_PROC_INIT_PUBLIC env left len entered = vk_proc_alloc env left 0 len (PROT_READ OR PROT_WRITE) MAP_PRIVATE_ANON (- 1) 0 entered"

definition VK_PROC_INIT_PRIVATE :: "alloc_env \<Rightarrow> vk_world \<Rightarrow> size_t \<Rightarrow> bool \<Rightarrow> size_t \<Rightarrow> kern_world \<Rightarrow> (errno + unit) \<times> kern_world" where
  "VK_PROC_INIT_PRIVATE env left len entered = vk_proc_alloc env left 0 len PROT_NONE MAP_PRIVATE_ANON (- 1) 0 entered"

subsection \<open>A process from a pool\<close>

text \<open>The process gets a copy of the heap of the entry, and enters it; the entry keeps its own.\<close>

definition vk_proc_alloc_from_pool :: "alloc_env \<Rightarrow> vk_world \<Rightarrow> size_t \<Rightarrow> kern_world \<Rightarrow> (errno + unit) \<times> kern_world" where
  "vk_proc_alloc_from_pool env left p k =
     (case vk_pool_alloc_entry (k_pool k) of
        Inl e \<Rightarrow> (Inl e, k)
      | Inr (i, pool) \<Rightarrow>
          (let hp = entry_heap (pool_entries pool i); k0 = k\<lparr>k_pool := pool\<rparr>
           in case vk_heap_enter hp (map_prot (mapping hp)) (ae_mprotect env 0) of
                (_, pr, hp1) \<Rightarrow>
                  (case vk_stack_push (ae_page env) (w_mem left) (heap_stack hp1) 1 (ae_local_size env) of
                     Inl e \<Rightarrow>
                       (case vk_pool_free_entry None pool () (Some i) of
                          (_, pool1, _) \<Rightarrow>
                            (Inl e, upd_proc p (has_local_update (\<lambda>_. False)) (keep_heap p hp1 pr (k\<lparr>k_pool := pool1\<rparr>))))
                   | Inr (l, m, st) \<Rightarrow>
                       (Inr (),
                        install_local left p st m
                          (upd_proc p (\<lambda>pr. pr\<lparr>proc_pool_entry_id := entry_id (pool_entries pool i), proc_pooled := True\<rparr>)
                            (keep_heap p (hp1\<lparr>heap_stack := st\<rparr>) pr k0))))))"

subsection \<open>Coroutines of a process\<close>

definition vk_proc_alloc_thread :: "alloc_env \<Rightarrow> size_t \<Rightarrow> kern_world \<Rightarrow> addr option \<times> kern_world" where
  "vk_proc_alloc_thread env p k =
     (case vk_heap_enter (proc_heap (k_proc k p)) (k_prot k p) (ae_mprotect env 2) of
        (Inl e, pr, hp) \<Rightarrow> (None, keep_heap p hp pr k)
      | (Inr _, pr, hp) \<Rightarrow>
          (let k1 = keep_heap p hp pr k; w = k_local k1 p
           in case vk_stack_push (ae_page env) (w_mem w) (pl_stack (w_local w)) 1 (ae_thread_size env) of
                Inl e \<Rightarrow> (None, k1)
              | Inr (that, m, st) \<Rightarrow> (Some that, set_local p (upd_local (pl_stack_update (\<lambda>_. st)) (w\<lparr>w_mem := m\<rparr>)) k1)))"

definition vk_proc_free_thread :: "size_t \<Rightarrow> kern_world \<Rightarrow> (errno + unit) \<times> kern_world" where
  "vk_proc_free_thread p k =
     (let w = k_local k p
      in case vk_stack_pop (w_mem w) (pl_stack (w_local w)) of
           Inl e \<Rightarrow> (Inl e, k)
         | Inr st \<Rightarrow> (Inr (), set_local p (upd_local (pl_stack_update (\<lambda>_. st)) w) k))"

subsection \<open>The kernel\<close>

text \<open>The process object is the start of the stack of its pool entry, and is named by the index.\<close>

definition vk_kern_get_proc :: "kern_world \<Rightarrow> size_t \<Rightarrow> size_t option" where
  "vk_kern_get_proc k i = map_option of_nat (vk_pool_get_entry (proc_pool (k_kern k)) i)"

definition vk_kern_alloc_proc :: "kern_world \<Rightarrow> (size_t \<times> kern_world) option" where
  "vk_kern_alloc_proc k =
     (case vk_pool_alloc_entry (proc_pool (k_kern k)) of
        Inl e \<Rightarrow> None
      | Inr (i, pool) \<Rightarrow> Some (of_nat i, upd_kern (proc_pool_update (\<lambda>_. pool)) k))"

definition vk_kern_proc_init :: "nat \<Rightarrow> (size_t \<Rightarrow> vk_proc) \<Rightarrow> (errno + unit) \<times> (size_t \<Rightarrow> vk_proc)" where
  "vk_kern_proc_init e procs = (Inr (), procs)"

definition vk_kern_proc_free :: "nat \<Rightarrow> (size_t \<Rightarrow> vk_proc) \<Rightarrow> (errno + unit) \<times> (size_t \<Rightarrow> vk_proc)" where
  "vk_kern_proc_free e procs = (Inr (), procs(of_nat e := vk_proc_clear (procs (of_nat e))))"

text \<open>The kernel object, the table and the buffer of the pool lie behind each other in one mapping, which is zero. The
  heap kept in the kernel object is a copy made after the first of them was taken.\<close>

definition vk_kern_alloc :: "alloc_env \<Rightarrow> kern_world \<Rightarrow> (errno + addr) \<times> kern_world" where
  "vk_kern_alloc env k =
     (case vk_safe_alignedlen (ae_page env) 1 (ae_kern_size env) of
        Inl e \<Rightarrow> (Inl e, k)
      | Inr kern_len \<Rightarrow>
     (case vk_safe_alignedlen (ae_page env) 1 (ae_table_size env) of
        Inl e \<Rightarrow> (Inl e, k)
      | Inr fd_len \<Rightarrow>
     (case vk_pool_needed_buffer_size (ae_page env) (ae_entry_size env) (ae_proc_size env) VK_KERN_PROC_MAX of
        Inl e \<Rightarrow> (Inl e, k)
      | Inr (entry_len, object_len) \<Rightarrow>
     (case map_huge_first env zero_heap 0 (kern_len + fd_len + (entry_len + object_len)) 0 MAP_PRIVATE_ANON (- 1) 0 True of
        (rc, hp) \<Rightarrow>
     (case map_error rc of
        Some e \<Rightarrow> (Inl e, k)
      | None \<Rightarrow>
     (case vk_stack_push (ae_page env) (\<lambda>_. 0) (heap_stack hp) 1 kern_len of
        Inl e \<Rightarrow> (Inl e, k)
      | Inr (kern, m1, s1) \<Rightarrow>
     (case vk_stack_push (ae_page env) m1 s1 1 fd_len of
        Inl e \<Rightarrow> (Inl e, k)
      | Inr (table, m2, s2) \<Rightarrow>
     (case vk_stack_push (ae_page env) m2 s2 1 (entry_len + object_len) of
        Inl e \<Rightarrow> (Inl e, k)
      | Inr (buffer, m3, s3) \<Rightarrow>
     (case vk_pool_init (ae_page env) (ae_entry_size env) zero_pool (ae_proc_size env) VK_KERN_PROC_MAX (Some buffer)
             (entry_len + object_len) (\<lambda>_. Inl ENOMEM) True (Some vk_kern_proc_init) (Some vk_kern_proc_free) (\<lambda>_. zero_proc) of
        (Inl e, pool, procs) \<Rightarrow> (Inl e, k)
      | (Inr _, pool, procs) \<Rightarrow>
     (case ae_signal_init env of
        Inl e \<Rightarrow> (Inl e, k)
      | Inr _ \<Rightarrow>
          (Inr kern,
           k\<lparr>k_table := \<lparr>table_size = of_nat VK_FD_MAX, dirty_fds = [], fresh_fds = [], poll_driver = VK_POLL_DRIVER_POLL,
                poll_method = VK_POLL_METHOD_LEVEL_TRIGGERED_ONESHOT, table_fds = (\<lambda>_. zero_fd), poll_fds = [],
                epoll_fd = None\<rparr>,
             k_proc := (\<lambda>i. if i < VK_KERN_PROC_MAX then procs i\<lparr>proc_id := i\<rparr> else procs i),
             k_kern := \<lparr>kern_hd = hp\<lparr>heap_stack := s1\<rparr>, run_procs = [], blocked_procs = [], kern_rc = 0,
                shutdown_requested = False, proc_pool = pool, kern_iso = ae_isolate env\<rparr>,
             k_kern_prot := map_prot (mapping hp)\<rparr>)))))))))))"

end
