(* ===== verification/Net.thy ===== *)
theory Net
  imports VK_State C_String
begin

text \<open>
  Addresses and descriptors of connections (src/vk_accepted.c, src/vk_server.c): accepting, connecting and
  listening. The outcomes of the system calls are arguments; an address is its family, its port in the byte
  order of the network, and the text that \<open>inet_ntop\<close> gives for its bytes.
\<close>

record sockaddr =
  sa_family :: nat
  sa_port :: "16 word"
  sa_text :: string

definition AF_INET :: nat where "AF_INET = 2"
definition AF_INET6 :: nat where "AF_INET6 = 10"
definition INET_ADDRSTRLEN :: nat where "INET_ADDRSTRLEN = 16"
definition INET6_ADDRSTRLEN :: nat where "INET6_ADDRSTRLEN = 46"
definition ENOSPC :: errno where "ENOSPC = 28"
definition ENOTSUP :: errno where "ENOTSUP = 95"
definition EINPROGRESS :: errno where "EINPROGRESS = 115"

text \<open>\<open>inet_ntop\<close> fails when the text and its end do not fit; the texts of families other than these two are not made.\<close>

definition inet_ntop :: "sockaddr \<Rightarrow> nat \<Rightarrow> errno + string" where
  "inet_ntop a n = (if length (sa_text a) < n then Inr (sa_text a) else Inl ENOSPC)"

definition htons :: "16 word \<Rightarrow> 16 word" where
  "htons w = push_bit 8 (take_bit 8 w) OR drop_bit 8 w"

definition address_text :: "nat \<Rightarrow> sockaddr \<Rightarrow> errno + string" where
  "address_text n a =
     (if sa_family a = AF_INET \<or> sa_family a = AF_INET6 then inet_ntop a n else Inl ENOTSUP)"

text \<open>\<open>snprintf\<close> into six bytes; five digits always fit.\<close>

definition port_text :: "sockaddr \<Rightarrow> errno + string" where
  "port_text a =
     (if sa_family a = AF_INET \<or> sa_family a = AF_INET6 then Inr (take 5 (decimal (unat (htons (sa_port a)))))
      else Inl ENOTSUP)"

subsection \<open>Accepted connections\<close>

record vk_accepted =
  ac_fd :: int
  ac_address :: sockaddr
  ac_address_str :: string
  ac_port_str :: string

definition zero_accepted :: vk_accepted where
  "zero_accepted = \<lparr>ac_fd = 0, ac_address = \<lparr>sa_family = 0, sa_port = 0, sa_text = []\<rparr>, ac_address_str = [], ac_port_str = []\<rparr>"

definition vk_accepted_get_address_strlen :: nat where
  "vk_accepted_get_address_strlen = INET6_ADDRSTRLEN + 1"

definition vk_accepted_set_address_str :: "vk_accepted \<Rightarrow> (errno + string) \<times> vk_accepted" where
  "vk_accepted_set_address_str ac =
     (case address_text vk_accepted_get_address_strlen (ac_address ac) of
        Inl e \<Rightarrow> (Inl e, ac)
      | Inr s \<Rightarrow> (Inr s, ac\<lparr>ac_address_str := s\<rparr>))"

definition vk_accepted_set_port_str :: "vk_accepted \<Rightarrow> (errno + string) \<times> vk_accepted" where
  "vk_accepted_set_port_str ac =
     (case port_text (ac_address ac) of
        Inl e \<Rightarrow> (Inl e, ac)
      | Inr s \<Rightarrow> (Inr s, ac\<lparr>ac_port_str := s\<rparr>))"

definition name_peer :: "int \<Rightarrow> vk_accepted \<Rightarrow> (errno + int) \<times> vk_accepted" where
  "name_peer fd ac =
     (case vk_accepted_set_address_str ac of
        (Inl e, ac1) \<Rightarrow> (Inl e, ac1)
      | (Inr _, ac1) \<Rightarrow>
          (case vk_accepted_set_port_str ac1 of
             (Inl e, ac2) \<Rightarrow> (Inl e, ac2)
           | (Inr _, ac2) \<Rightarrow> (Inr fd, ac2\<lparr>ac_fd := fd\<rparr>)))"

text \<open>The outcomes of \<open>accept4\<close> and of \<open>setsockopt\<close>.\<close>

definition vk_accepted_accept :: "errno + (int \<times> sockaddr) \<Rightarrow> errno + unit \<Rightarrow> (errno + int) \<times> vk_accepted" where
  "vk_accepted_accept accept4 nodelay =
     (case accept4 of
        Inl e \<Rightarrow> (Inl e, zero_accepted)
      | Inr (fd, a) \<Rightarrow>
          (let ac = zero_accepted\<lparr>ac_address := a\<rparr>
           in case nodelay of Inl e \<Rightarrow> (Inl e, ac) | Inr _ \<Rightarrow> name_peer fd ac))"

text \<open>The outcomes of \<open>socket\<close>, \<open>setsockopt\<close> and \<open>connect\<close>. The address is not copied, so that the names are
  made of zeros.\<close>

definition vk_accepted_connect ::
  "errno + int \<Rightarrow> errno + unit \<Rightarrow> errno + unit \<Rightarrow> (errno + int) \<times> vk_accepted" where
  "vk_accepted_connect socket nodelay conn =
     (case socket of
        Inl e \<Rightarrow> (Inl e, zero_accepted)
      | Inr fd \<Rightarrow>
          (case nodelay of
             Inl e \<Rightarrow> (Inl e, zero_accepted)
           | Inr _ \<Rightarrow> (case conn of Inl e \<Rightarrow> (Inl e, zero_accepted) | Inr _ \<Rightarrow> name_peer fd zero_accepted)))"

text \<open>One of the addresses that \<open>getaddrinfo\<close> gave, with the outcomes of the calls on it. \<open>None\<close> is the end of the list.\<close>

record candidate =
  cd_address :: sockaddr
  cd_socket :: "errno + int"
  cd_nodelay :: "errno + unit"
  cd_connect :: "errno + unit"

fun try_candidates :: "candidate list \<Rightarrow> (errno + (int \<times> sockaddr)) option" where
  "try_candidates [] = None"
| "try_candidates (c # cs) =
     (case cd_socket c of
        Inl _ \<Rightarrow> try_candidates cs
      | Inr fd \<Rightarrow>
          (case cd_nodelay c of
             Inl e \<Rightarrow> Some (Inl e)
           | Inr _ \<Rightarrow> (case cd_connect c of Inr _ \<Rightarrow> Some (Inr (fd, cd_address c)) | Inl _ \<Rightarrow> try_candidates cs)))"

definition vk_accepted_connect_to :: "candidate list option \<Rightarrow> int option \<times> vk_accepted" where
  "vk_accepted_connect_to result =
     (case result of
        None \<Rightarrow> (None, zero_accepted)
      | Some cs \<Rightarrow>
          (case try_candidates cs of
             Some (Inr (fd, a)) \<Rightarrow> (Some fd, zero_accepted\<lparr>ac_address := a, ac_fd := fd\<rparr>)
           | _ \<Rightarrow> (None, zero_accepted)))"

subsection \<open>Servers\<close>

record vk_server =
  sv_address :: sockaddr
  sv_address_str :: string
  sv_port_str :: string
  sv_func :: nat
  sv_count :: size_t
  sv_page_count :: size_t
  sv_privileged :: bool
  sv_isolated :: bool
  sv_reuseport :: bool
  sv_ktls :: bool

definition vk_server_get_address_strlen :: nat where
  "vk_server_get_address_strlen = INET_ADDRSTRLEN + 1"

definition vk_server_set_address_str :: "vk_server \<Rightarrow> (errno + unit) \<times> vk_server" where
  "vk_server_set_address_str sv =
     (case address_text vk_server_get_address_strlen (sv_address sv) of
        Inl e \<Rightarrow> (Inl e, sv)
      | Inr s \<Rightarrow> (Inr (), sv\<lparr>sv_address_str := s\<rparr>))"

definition vk_server_set_port_str :: "vk_server \<Rightarrow> (errno + unit) \<times> vk_server" where
  "vk_server_set_port_str sv =
     (case port_text (sv_address sv) of
        Inl e \<Rightarrow> (Inl e, sv)
      | Inr s \<Rightarrow> (Inr (), sv\<lparr>sv_port_str := s\<rparr>))"

text \<open>The calls after \<open>socket\<close>, in order, and how far they got; a call that is not made has the outcome \<open>Inr\<close>.\<close>

record socket_calls =
  sc_socket :: "errno + int"
  sc_nonblock :: "errno + unit"
  sc_option :: "errno + unit"
  sc_reuseport :: "errno + unit"
  sc_ulp :: "errno + unit"
  sc_bind :: "errno + unit"
  sc_listen :: "errno + unit"
  sc_connect :: "bool \<Rightarrow> errno + unit"

fun in_order :: "(errno + unit) list \<Rightarrow> errno + unit" where
  "in_order [] = Inr ()"
| "in_order (r # rs) = (case r of Inl e \<Rightarrow> Inl e | Inr _ \<Rightarrow> in_order rs)"

definition name_server :: "errno + unit \<Rightarrow> vk_server \<Rightarrow> (errno + unit) \<times> vk_server" where
  "name_server r sv =
     (case r of
        Inl e \<Rightarrow> (Inl e, sv)
      | Inr _ \<Rightarrow>
          (case vk_server_set_address_str sv of
             (Inl e, sv1) \<Rightarrow> (Inl e, sv1)
           | (Inr _, sv1) \<Rightarrow> vk_server_set_port_str sv1))"

definition vk_server_socket_listen ::
  "socket_calls \<Rightarrow> vk_server \<Rightarrow> vk_pipe \<Rightarrow> (errno + unit) \<times> vk_server \<times> vk_pipe" where
  "vk_server_socket_listen sc sv rx =
     (case sc_socket sc of
        Inl e \<Rightarrow> (Inl e, sv, rx)
      | Inr fd \<Rightarrow>
          (case name_server (in_order [sc_nonblock sc, sc_option sc, if sv_ktls sv then sc_ulp sc else Inr (),
                   sc_bind sc, sc_listen sc]) sv of
             (r, sv1) \<Rightarrow> (r, sv1, vk_pipe_init_fd rx fd VK_FD_TYPE_SOCKET_LISTEN)))"

text \<open>\<open>sc_connect\<close> depends on whether the socket was set not to block.\<close>

definition vk_server_socket_connect ::
  "socket_calls \<Rightarrow> vk_server \<Rightarrow> vk_pipe \<Rightarrow> (errno + unit) \<times> vk_server \<times> vk_pipe" where
  "vk_server_socket_connect sc sv rx =
     (case sc_socket sc of
        Inl e \<Rightarrow> (Inl e, sv, rx)
      | Inr fd \<Rightarrow>
          (case name_server (in_order [sc_nonblock sc, sc_option sc, if sv_reuseport sv then sc_reuseport sc else Inr (),
                   if sv_ktls sv then sc_ulp sc else Inr (), sc_connect sc True]) sv of
             (r, sv1) \<Rightarrow> (r, sv1, vk_pipe_init_fd rx fd VK_FD_TYPE_SOCKET_STREAM)))"

subsection \<open>Properties\<close>

lemma decimal_length: "n < 10 ^ Suc m \<Longrightarrow> length (decimal n) \<le> Suc m"
proof (induction m arbitrary: n)
  case 0
  then show ?case by (simp add: decimal.simps [of n])
next
  case (Suc m)
  then have "n div 10 < 10 ^ Suc m" by (simp add: div_less_iff_less_mult)
  then have "length (decimal (n div 10)) \<le> Suc m" by (rule Suc.IH)
  then show ?case by (simp add: decimal.simps [of n])
qed

lemma port_digits: "take 5 (decimal (unat (w :: 16 word))) = decimal (unat w)"
proof -
  have "unat w < 2 ^ LENGTH(16)" by (rule unsigned_less)
  then have "unat w < 10 ^ Suc 4" by simp
  then have "length (decimal (unat w)) \<le> Suc 4" by (rule decimal_length)
  then show ?thesis by simp
qed

lemma port_text_value:
  "port_text a = Inr s \<Longrightarrow> digits_value 0 s = unat (htons (sa_port a))"
  by (auto simp: port_text_def port_digits digits_value_decimal split: if_splits)

text \<open>An accepted connection carries its descriptor, the text of its peer's address, and a port string that reads back
  as the port in the byte order of the host.\<close>

theorem accept_names_peer:
  assumes "vk_accepted_accept (Inr (fd, a)) nodelay = (Inr fd', ac)"
  shows "fd' = fd \<and> ac_fd ac = fd \<and> ac_address_str ac = sa_text a \<and> digits_value 0 (ac_port_str ac) = unat (htons (sa_port a))"
  using assms port_text_value [of a]
  by (auto simp: vk_accepted_accept_def name_peer_def vk_accepted_set_address_str_def vk_accepted_set_port_str_def
      address_text_def inet_ntop_def Let_def split: sum.splits if_splits)

theorem accept_names_peer_witness:
  "\<exists>ac. vk_accepted_accept (Inr (9, \<lparr>sa_family = AF_INET, sa_port = 0x901F, sa_text = ''127.0.0.1''\<rparr>)) (Inr ()) = (Inr 9, ac) \<and>
    digits_value 0 (ac_port_str ac) = 8080"
proof -
  let ?a = "\<lparr>sa_family = AF_INET, sa_port = 0x901F, sa_text = ''127.0.0.1''\<rparr>"
  obtain ac where r: "vk_accepted_accept (Inr (9, ?a)) (Inr ()) = (Inr 9, ac)"
    by (auto simp: vk_accepted_accept_def name_peer_def vk_accepted_set_address_str_def vk_accepted_set_port_str_def
      address_text_def inet_ntop_def Let_def port_text_def AF_INET_def vk_accepted_get_address_strlen_def INET6_ADDRSTRLEN_def)
  moreover have "unat (htons 0x901F) = 8080" by code_simp
  ultimately show ?thesis using accept_names_peer [OF r] by auto
qed

text \<open>The buffer for the address of a server has the size for IPv4: a server on an IPv6 address of more than 16
  characters listens, and then reports failure, whatever the system answers.\<close>

theorem listen_long_address_fails:
  assumes "16 < length (sa_text (sv_address sv))"
  shows "\<exists>e. fst (vk_server_socket_listen sc sv rx) = Inl e"
  using assms
  by (auto simp: vk_server_socket_listen_def name_server_def vk_server_set_address_str_def address_text_def inet_ntop_def
      vk_server_get_address_strlen_def INET_ADDRSTRLEN_def split: sum.splits prod.splits)

theorem listen_long_address_fails_witness:
  "\<exists>e sv'. vk_server_socket_listen
      \<lparr>sc_socket = Inr 5, sc_nonblock = Inr (), sc_option = Inr (), sc_reuseport = Inr (), sc_ulp = Inr (), sc_bind = Inr (),
       sc_listen = Inr (), sc_connect = (\<lambda>_. Inr ())\<rparr>
      \<lparr>sv_address = \<lparr>sa_family = AF_INET6, sa_port = 0, sa_text = ''2001:db8::1234:5678''\<rparr>, sv_address_str = [],
       sv_port_str = [], sv_func = 0, sv_count = 0, sv_page_count = 0, sv_privileged = False, sv_isolated = False,
       sv_reuseport = False, sv_ktls = False\<rparr> rx = (Inl e, sv', vk_pipe_init_fd rx 5 VK_FD_TYPE_SOCKET_LISTEN)"
  (is "\<exists>e sv'. vk_server_socket_listen ?sc ?sv rx = _")
proof -
  have "16 < length (sa_text (sv_address ?sv))" by simp
  from listen_long_address_fails [OF this, of ?sc rx] obtain e where "fst (vk_server_socket_listen ?sc ?sv rx) = Inl e" by blast
  then show ?thesis by (auto simp: vk_server_socket_listen_def split: prod.splits)
qed

text \<open>Connecting to an address always fails: the address is never copied into the cleared structure, whose family then
  has no text.\<close>

theorem accepted_connect_always_fails: "\<exists>e. fst (vk_accepted_connect socket nodelay conn) = Inl e"
  by (auto simp: vk_accepted_connect_def name_peer_def vk_accepted_set_address_str_def address_text_def zero_accepted_def
      AF_INET_def AF_INET6_def split: sum.splits)

end
