(* ===== verification/Service.thy ===== *)
theory Service
  imports Proc_Alloc Coroutine Net
begin

text \<open>
  Setting a program up and serving connections (src/vk_main.c, src/vk_server.c, src/vk_service.c, src/vk_main_local.c):
  a kernel with one process and one coroutine that runs until nothing is left, and the listener that gives
  each accepted connection a process of its own. \<open>lay\<close> are the sizes the compiler chose, \<open>line\<close> the place of the
  creation in the source.
\<close>

datatype 'a outcome = Done 'a kern_world | Failed kern_world | Crashed

text \<open>The argument lies outside of the heap of the process.\<close>

definition vk_copy_arg_in :: "addr \<Rightarrow> byte list \<Rightarrow> vk_world \<Rightarrow> int \<times> vk_world" where
  "vk_copy_arg_in that bs w =
     (let self = th_self (w_thread w that)
      in if unat (addr_stop (pl_stack (w_local w)) - self) < length bs then (- 1, set_errno ENOMEM w)
         else (0, w\<lparr>w_mem := scatter (w_mem w) (range_addrs self (length bs)) bs\<rparr>))"

text \<open>The first coroutine of a process, on two descriptors, queued to run.\<close>

definition start_coroutine ::
  "alloc_env \<Rightarrow> layout \<Rightarrow> size_t \<Rightarrow> nat \<Rightarrow> int \<Rightarrow> int \<Rightarrow> byte list \<Rightarrow> size_t \<Rightarrow> kern_world \<Rightarrow> size_t outcome" where
  "start_coroutine env lay p func rx tx arg line k =
     (case vk_proc_alloc_thread env p k of
        (None, k1) \<Rightarrow> Failed k1
      | (Some that, k1) \<Rightarrow>
          (case vk_init_fds lay that func rx VK_FD_TYPE_SOCKET_STREAM tx VK_FD_TYPE_SOCKET_STREAM line (k_local k1 p) of
             None \<Rightarrow> Crashed
           | Some w \<Rightarrow>
               (case vk_copy_arg_in that arg w of
                  (rc, w1) \<Rightarrow>
                    if rc = - 1 then Failed (set_local p w1 k1)
                    else (case vk_kern_flush_proc_queues p (set_local p (vk_proc_local_enqueue_run that w1) k1) of
                            None \<Rightarrow> Crashed | Some k2 \<Rightarrow> Done p k2))))"

definition set_rights :: "bool \<Rightarrow> bool \<Rightarrow> size_t \<Rightarrow> kern_world \<Rightarrow> kern_world" where
  "set_rights privd isol p = upd_proc p (\<lambda>pr. pr\<lparr>privileged := privd, isolated := isol\<rparr>)"

subsection \<open>The main process\<close>

definition spawn_main ::
  "alloc_env \<Rightarrow> layout \<Rightarrow> vk_world \<Rightarrow> size_t \<Rightarrow> bool \<Rightarrow> bool \<Rightarrow> nat \<Rightarrow> byte list \<Rightarrow> size_t \<Rightarrow> kern_world \<Rightarrow>
   size_t outcome" where
  "spawn_main env lay left len privd isol func arg line k =
     (case vk_kern_alloc_proc k of
        None \<Rightarrow> Failed k
      | Some (p, k1) \<Rightarrow>
          (case VK_PROC_INIT_PRIVATE env left len False p k1 of
             (Inl e, k2) \<Rightarrow> Failed k2
           | (Inr _, k2) \<Rightarrow> start_coroutine env lay p func 0 1 arg line (set_rights privd isol p k2)))"

text \<open>The environment variables; another value is ignored.\<close>

definition poll_options :: "(string \<Rightarrow> string option) \<Rightarrow> kern_world \<Rightarrow> kern_world" where
  "poll_options getenv k =
     (let k1 = (if getenv ''VK_POLL_DRIVER'' = Some ''OS''
                then upd_table (\<lambda>t. t\<lparr>poll_driver := VK_POLL_DRIVER_OS\<rparr>) k else k)
      in if getenv ''VK_POLL_METHOD'' = Some ''EDGE_TRIGGERED''
         then upd_table (\<lambda>t. t\<lparr>poll_method := VK_POLL_METHOD_EDGE_TRIGGERED\<rparr>) k1 else k1)"

definition loop_and_free :: "(errno + unit) \<Rightarrow> kern_env \<Rightarrow> nat \<Rightarrow> size_t \<Rightarrow> kern_world \<Rightarrow> kern_result" where
  "loop_and_free unmap e fuel p k =
     (case vk_kern_loop e fuel k of
        K_Returns rc k1 \<Rightarrow>
          if rc = - 1 then K_Returns (- 1) k1
          else if vk_proc_free unmap p k1 = - 1 then K_Returns (- 1) k1
          else K_Returns 0 (vk_kern_free_proc p k1)
      | res \<Rightarrow> res)"

definition vk_main_init ::
  "alloc_env \<Rightarrow> layout \<Rightarrow> vk_world \<Rightarrow> (string \<Rightarrow> string option) \<Rightarrow> kern_env \<Rightarrow> nat \<Rightarrow> (errno + unit) \<Rightarrow> size_t \<Rightarrow>
   nat \<Rightarrow> byte list \<Rightarrow> size_t \<Rightarrow> bool \<Rightarrow> bool \<Rightarrow> kern_world \<Rightarrow> kern_result" where
  "vk_main_init env lay left getenv e fuel unmap line main_vk arg page_count privd isol k =
     (case vk_kern_alloc env k of
        (Inl _, k1) \<Rightarrow> K_Returns (- 1) k1
      | (Inr _, k1) \<Rightarrow>
          (case spawn_main env lay left (4096 * page_count) privd isol main_vk arg line k1 of
             Crashed \<Rightarrow> K_Killed
           | Failed k2 \<Rightarrow> K_Returns (- 1) k2
           | Done p k2 \<Rightarrow> loop_and_free unmap e fuel p (poll_options getenv k2)))"

subsection \<open>The server\<close>

text \<open>The pool of the server maps each of its heaps on its own; \<open>mm\<close> are the outcomes. The first entry of the
  argument's structure is the server, so its bytes are where the listener looks for its service.\<close>

definition service_pool ::
  "alloc_env \<Rightarrow> (nat option \<Rightarrow> errno + addr) \<Rightarrow> vk_server \<Rightarrow> kern_world \<Rightarrow> (errno + unit) \<times> kern_world" where
  "service_pool env mm sv k =
     (if sv_count sv > 0
      then (case vk_pool_init (ae_page env) (ae_entry_size env) (k_pool k) (sv_page_count sv * ae_page env) (sv_count sv)
                   None 0 mm False None None () of
              (rc, pool, _) \<Rightarrow> (rc, k\<lparr>k_pool := pool\<rparr>))
      else (Inr (), k))"

definition vk_server_init ::
  "alloc_env \<Rightarrow> layout \<Rightarrow> vk_world \<Rightarrow> (nat option \<Rightarrow> errno + addr) \<Rightarrow> (string \<Rightarrow> string option) \<Rightarrow> kern_env \<Rightarrow> nat \<Rightarrow>
   (errno + unit) \<Rightarrow> size_t \<Rightarrow> nat \<Rightarrow> byte list \<Rightarrow> vk_server \<Rightarrow> kern_world \<Rightarrow> kern_result" where
  "vk_server_init env lay left mm getenv e fuel unmap line listener arg sv k =
     (case vk_kern_alloc env k of
        (Inl _, k1) \<Rightarrow> K_Returns (- 1) k1
      | (Inr _, k1) \<Rightarrow>
          (case service_pool env mm sv k1 of
             (Inl _, k2) \<Rightarrow> K_Returns (- 1) k2
           | (Inr _, k2) \<Rightarrow>
               (case spawn_main env lay left (4096 * 34) True (sv_isolated sv) listener arg line k2 of
                  Crashed \<Rightarrow> K_Killed
                | Failed k3 \<Rightarrow> K_Returns (- 1) k3
                | Done p k3 \<Rightarrow> loop_and_free unmap e fuel p (poll_options getenv k3))))"

subsection \<open>The listener\<close>

text \<open>An accepted connection, and what the system answers while it is served: \<open>ar_left\<close> is what the
  heap from the pool holds, \<open>ar_fresh\<close> what a fresh one holds.\<close>

record arrival =
  ar_fd :: int
  ar_env :: alloc_env
  ar_left :: vk_world
  ar_fresh :: vk_world
  ar_service :: "byte list"

definition service_heap :: "vk_server \<Rightarrow> arrival \<Rightarrow> size_t \<Rightarrow> kern_world \<Rightarrow> (errno + unit) \<times> kern_world" where
  "service_heap sv ar p k =
     (let own = VK_PROC_INIT_PRIVATE (ar_env ar) (ar_fresh ar) (ae_page (ar_env ar) * sv_page_count sv) True p
      in if sv_count sv > 0
         then (case vk_proc_alloc_from_pool (ar_env ar) (ar_left ar) p k of
                 (Inl e, k1) \<Rightarrow> if e = ENOMEM then own k1 else (Inl e, k1)
               | (Inr u, k1) \<Rightarrow> (Inr u, k1))
         else own k)"

text \<open>One round after \<open>vk_accept\<close>; \<open>Failed\<close> raises an error in the listener. The descriptor is compared with the
  size of the table as an unsigned number. Closing the heap at the end ignores the result.\<close>

definition serve_arrival :: "layout \<Rightarrow> size_t \<Rightarrow> vk_server \<Rightarrow> arrival \<Rightarrow> kern_world \<Rightarrow> size_t option outcome" where
  "serve_arrival lay line sv ar k =
     (if unat (table_size (k_table k)) < nat (ar_fd ar) then Done None k
      else case vk_kern_alloc_proc k of
        None \<Rightarrow> Failed k
      | Some (p, k1) \<Rightarrow>
          (case service_heap sv ar p k1 of
             (Inl e, k2) \<Rightarrow> Failed k2
           | (Inr _, k2) \<Rightarrow>
               (case start_coroutine (ar_env ar) lay p (sv_func sv) (ar_fd ar) (ar_fd ar) (ar_service ar) line
                       (set_rights (sv_privileged sv) (sv_isolated sv) p k2) of
                  Crashed \<Rightarrow> Crashed
                | Failed k3 \<Rightarrow> Failed k3
                | Done _ k3 \<Rightarrow> Done (Some p) (snd (exit_proc_heap (ae_mprotect (ar_env ar) 3) p k3)))))"

fun vk_service_listener :: "layout \<Rightarrow> size_t \<Rightarrow> vk_server \<Rightarrow> arrival list \<Rightarrow> kern_world \<Rightarrow> unit outcome" where
  "vk_service_listener lay line sv [] k = Done () k"
| "vk_service_listener lay line sv (ar # ars) k =
     (if shutdown_requested (k_kern k) then Done () k
      else case serve_arrival lay line sv ar k of
        Done _ k1 \<Rightarrow> vk_service_listener lay line sv ars k1
      | Failed k1 \<Rightarrow> Failed k1
      | Crashed \<Rightarrow> Crashed)"

subsection \<open>One process without a kernel\<close>

definition vk_main_local_init ::
  "alloc_env \<Rightarrow> layout \<Rightarrow> vk_world \<Rightarrow> (nat \<Rightarrow> os_calls) \<Rightarrow> bodies \<Rightarrow> nat \<Rightarrow> size_t \<Rightarrow> nat \<Rightarrow> byte list \<Rightarrow> size_t \<Rightarrow> executed" where
  "vk_main_local_init env lay left os body fuel line main_vk arg page_count =
     (case vk_heap_map zero_heap 0 (page_count * 4096) PROT_NONE MAP_PRIVATE_ANON (- 1) 0 True (ae_mmap env False) of
        (rc, hp) \<Rightarrow>
     (case map_error rc of
        Some e \<Rightarrow> Returns (- 1) left
      | None \<Rightarrow>
     (case vk_stack_push (ae_page env) (\<lambda>_. 0) (heap_stack hp) 1 (ae_local_size env) of
        Inl e \<Rightarrow> Returns (- 1) left
      | Inr (l, m1, s1) \<Rightarrow>
          (let w = left\<lparr>w_mem := m1, w_local := (vk_proc_local_init zero_local)\<lparr>pl_proc_id := 1, pl_stack := s1\<rparr>\<rparr>
           in case vk_stack_push (ae_page env) m1 s1 1 (ae_thread_size env) of
                Inl e \<Rightarrow> Returns (- 1) w
              | Inr (that, m2, s2) \<Rightarrow>
                  (case vk_init_fds lay that main_vk 0 VK_FD_TYPE_SOCKET_STREAM 1 VK_FD_TYPE_SOCKET_STREAM line
                          (upd_local (pl_stack_update (\<lambda>_. s2)) (w\<lparr>w_mem := m2\<rparr>)) of
                     None \<Rightarrow> Killed
                   | Some w1 \<Rightarrow>
                       (case vk_copy_arg_in that arg w1 of
                          (rc, w2) \<Rightarrow>
                            if rc = - 1 then Returns (- 1) w2
                            else (case vk_proc_local_execute os body fuel (vk_proc_local_enqueue_run that w2) of
                                    Returns _ w3 \<Rightarrow> Returns 0 w3
                                  | res \<Rightarrow> res)))))))"

end
