(* ===== verification/Proc_Alloc_Props.thy ===== *)
theory Proc_Alloc_Props
  imports Proc_Alloc Kern_Safe
begin

text \<open>
  What allocation establishes: a kernel with an empty table and all processes free, each on its own slice of the one
  mapping; no process is handed out twice or lost; a process is installed with empty queues
  on its own heap.
\<close>

subsection \<open>Sizes and addresses of a 64-bit system\<close>

definition fits32 :: "size_t \<Rightarrow> bool" where
  "fits32 n \<longleftrightarrow> 0 < unat n \<and> unat n < 2 ^ 32"

definition alloc_sane :: "alloc_env \<Rightarrow> bool" where
  "alloc_sane env \<longleftrightarrow>
     ae_page env \<noteq> 0 \<and> 4096 dvd unat (ae_page env) \<and> unat (ae_page env) \<le> 2 ^ 20 \<and>
     fits32 (ae_kern_size env) \<and> fits32 (ae_table_size env) \<and> fits32 (ae_entry_size env) \<and> fits32 (ae_proc_size env) \<and>
     (\<forall>h b. ae_mmap env h = Inr b \<longrightarrow> 0 < unat b \<and> unat b < 2 ^ 47)"

lemma aligned_small:
  assumes "pg \<noteq> 0" "4096 dvd unat pg" "unat pg \<le> 2 ^ 20" "unat n * unat c < 2 ^ 60"
  shows "\<exists>l. vk_safe_alignedlen pg n c = Inr l \<and> unat l = round_up (unat pg) (unat n * unat c) \<and>
    unat n * unat c \<le> unat l \<and> unat l < unat n * unat c + 2 ^ 20 \<and> 4096 dvd unat l \<and> unat pg dvd unat l"
proof -
  let ?r = "round_up (unat pg) (unat n * unat c)"
  have pos: "0 < unat pg" using assms(1) by (simp add: unat_gt_0)
  have r: "unat n * unat c \<le> ?r" "?r < unat n * unat c + 2 ^ 20" "unat pg dvd ?r"
    using round_up_ge [OF pos] round_up_less [OF pos, of "unat n * unat c"] assms(3) by (auto intro: round_up_dvd)
  then have "?r < 2 ^ 64" using assms(4) by simp
  then have "vk_safe_alignedlen pg n c = Inr (of_nat ?r)" "unat (of_nat ?r :: size_t) = ?r"
    using assms(1) by (simp_all add: alignedlen_correct Let_def unat_of_nat_exact)
  moreover have "4096 dvd ?r" using assms(2) r(3) by (rule dvd_trans)
  ultimately show ?thesis using r by (intro exI [of _ "of_nat ?r"]) simp
qed

lemma huge_len_bounds:
  assumes "unat n < 2 ^ 60"
  shows "unat n \<le> unat (huge_len n) \<and> unat (huge_len n) < unat n + 2 ^ 21 \<and> 4096 dvd unat (huge_len n)"
proof -
  have page: "unat (vk_huge_page_bytes vk_huge_init) = 2 ^ 21"
    by (simp add: vk_huge_page_bytes_def vk_huge_init_def)
  let ?r = "round_up (2 ^ 21) (unat n)"
  have r: "unat n \<le> ?r" "?r < unat n + 2 ^ 21" "(2 ^ 21 :: nat) dvd ?r"
    by (auto intro: round_up_ge round_up_less round_up_dvd)
  have lt: "?r < 2 ^ 64" using r assms by simp
  then have "vk_huge_aligned_len vk_huge_init 1 n = Inr (of_nat ?r)"
    using fresh_huge.alignedlen_correct [of 1 n] by (simp add: page Let_def)
  then have "unat (huge_len n) = ?r" using lt by (simp add: huge_len_def unat_of_nat_exact)
  moreover have "4096 dvd ?r" by (rule dvd_trans [OF _ r(3)]) simp
  ultimately show ?thesis using r by simp
qed

subsection \<open>Mapping\<close>

lemma map_error_None: "map_error rc = None \<longleftrightarrow> (\<exists>n. rc = Inr n \<and> n \<noteq> - 1)"
  by (auto simp: map_error_def split: sum.splits)

lemma heap_map_result:
  assumes "4096 dvd unat len"
  shows "case m of
      Inl e \<Rightarrow> fst (vk_heap_map hp a len prot fl fd off entered m) = Inl e
    | Inr b \<Rightarrow> map_error (fst (vk_heap_map hp a len prot fl fd off entered m)) = None"
    and "m = Inr b \<Longrightarrow> heap_stack (snd (vk_heap_map hp a len prot fl fd off entered m)) = vk_stack_init b len"
  using int_of_size_aligned [OF assms]
  by (auto simp: vk_heap_map_def Let_def map_error_def split: sum.splits)

text \<open>The attempt with huge pages or the plain one succeeded, or the last one failed.\<close>

lemma map_huge_first_result:
  assumes "4096 dvd unat len" "unat len < 2 ^ 60" "map_huge_first env hp a len prot fl fd off entered = (rc, hp')"
  shows "(\<exists>e. rc = Inl e \<and> map_error rc = Some e \<and> (\<exists>h. ae_mmap env h = Inl e)) \<or>
    map_error rc = None \<and> (\<exists>h b L. ae_mmap env h = Inr b \<and> heap_stack hp' = vk_stack_init b L \<and>
      unat len \<le> unat L \<and> unat L < unat len + 2 ^ 21)"
proof -
  note hl = huge_len_bounds [OF assms(2)]
  note plain = heap_map_result [OF assms(1), where a = a and prot = prot and fd = fd and off = off and entered = entered]
  note huge = heap_map_result [where len = "huge_len len" and a = a and prot = prot and fd = fd and off = off
      and entered = entered, OF hl [THEN conjunct2, THEN conjunct2]]
  obtain attempt st where tr: "vk_huge_should_try (fst (ae_clock env)) (snd (ae_clock env)) (ae_meminfo env) (huge_len len)
      vk_huge_init = (attempt, st)" by fastforce
  have plain': "(\<exists>e. rc = Inl e \<and> map_error rc = Some e \<and> (\<exists>h. ae_mmap env h = Inl e)) \<or>
    map_error rc = None \<and> (\<exists>h b L. ae_mmap env h = Inr b \<and> heap_stack hp' = vk_stack_init b L \<and>
      unat len \<le> unat L \<and> unat L < unat len + 2 ^ 21)"
    if r: "vk_heap_map hq a len prot fl' fd off entered (ae_mmap env h) = (rc, hp')" for hq fl' h
  proof (cases "ae_mmap env h")
    case (Inl e)
    then show ?thesis using plain(1) [where m = "Inl e" and hp = hq and fl = fl'] r by (auto simp: map_error_def)
  next
    case (Inr b)
    then have "map_error rc = None" "heap_stack hp' = vk_stack_init b len"
      using plain(1) [where m = "Inr b" and hp = hq and fl = fl'] plain(2) [where m = "Inr b" and hp = hq and fl = fl'] r by simp_all
    then show ?thesis using Inr by (intro disjI2 conjI exI [of _ h] exI [of _ b] exI [of _ len]) simp_all
  qed
  show ?thesis
  proof (cases attempt)
    case False
    then show ?thesis using assms(3) tr plain' [of hp fl False] by (simp add: map_huge_first_def)
  next
    case True
    obtain rc1 hp1 where m1: "vk_heap_map hp a (huge_len len) prot (fl OR hg_flags st) fd off entered (ae_mmap env True) = (rc1, hp1)"
      by fastforce
    show ?thesis
    proof (cases "ae_mmap env True")
      case (Inr b)
      then have "map_error rc1 = None" "heap_stack hp1 = vk_stack_init b (huge_len len)"
        using huge(1) [where m = "Inr b" and hp = hp and fl = "fl OR hg_flags st"] huge(2) [where m = "Inr b" and hp = hp and fl = "fl OR hg_flags st"] m1 by simp_all
      moreover have "rc = rc1" "hp' = hp1" using assms(3) tr m1 True \<open>map_error rc1 = None\<close> by (simp_all add: map_huge_first_def)
      ultimately show ?thesis using Inr hl by blast
    next
      case (Inl e)
      then have "rc1 = Inl e" using huge(1) [where m = "Inl e" and hp = hp and fl = "fl OR hg_flags st"] m1 by simp
      then show ?thesis using assms(3) tr m1 True Inl plain' [of hp1 fl False]
        by (auto simp: map_huge_first_def map_error_def split: if_splits)
    qed
  qed
qed

subsection \<open>The kernel\<close>

lemma pool_init_loop_state:
  assumes "\<And>e. snd (call_func ff e u) = u" "\<And>e. snd (call_func fi e u) = u"
  shows "snd (snd (vk_pool_init_loop ebs al mm entered fi ff n p u)) = u"
proof (induction n arbitrary: p)
  case (Suc n)
  have free: "snd (snd (vk_pool_free_entry ff q u e)) = u" for q e
    using assms(1) by (auto simp: vk_pool_free_entry_def Let_def split: option.splits prod.splits) (metis snd_conv)+
  have "snd (snd (vk_pool_init_entry ebs al mm entered fi ff n p u)) = u"
    using free assms(2) unfolding vk_pool_init_entry_def Let_def
    by (auto split: prod.splits sum.splits option.splits) (metis snd_conv)+
  then show ?case using Suc.IH by (auto split: prod.splits sum.splits)
qed simp

lemma pool_init_state:
  assumes "\<And>e. snd (call_func ff e u) = u" "\<And>e. snd (call_func fi e u) = u"
  shows "snd (snd (vk_pool_init pg esz p osz cnt buf len mm entered fi ff u)) = u"
  using pool_init_loop_state [OF assms] unfolding vk_pool_init_def Let_def
  by (auto split: prod.splits sum.splits option.splits)

text \<open>The table and the processes of a new kernel, and the places of the process objects: behind the kernel, the table
  and the index of the pool, one after the other, within the mapping.\<close>

definition kern_fresh :: "kern_world \<Rightarrow> bool" where
  "kern_fresh k \<longleftrightarrow>
     pool_free (proc_pool (k_kern k)) [0..<16384] \<and> object_count (proc_pool (k_kern k)) = VK_KERN_PROC_MAX \<and>
     (\<forall>p. k_proc k p = zero_proc\<lparr>proc_id := if p < VK_KERN_PROC_MAX then p else 0\<rparr>) \<and>
     run_procs (k_kern k) = [] \<and> blocked_procs (k_kern k) = [] \<and> \<not> shutdown_requested (k_kern k) \<and>
     dirty_fds (k_table k) = [] \<and> fresh_fds (k_table k) = [] \<and> (\<forall>i. k_fd k i = zero_fd) \<and>
     table_size (k_table k) = 16384 \<and> poll_driver (k_table k) = VK_POLL_DRIVER_POLL"

definition procs_placed :: "alloc_env \<Rightarrow> addr \<Rightarrow> kern_world \<Rightarrow> bool" where
  "procs_placed env kern k \<longleftrightarrow>
     (\<exists>first al. unat kern + unat (ae_kern_size env) + unat (ae_table_size env) + 16384 * unat (ae_entry_size env) \<le> first \<and>
        unat (ae_proc_size env) \<le> al \<and>
        first + 16384 * al \<le> unat (addr_stop (heap_stack (kern_hd (k_kern k)))) \<and>
        (\<forall>i < 16384. unat (addr_start (heap_stack (entry_heap (pool_entries (proc_pool (k_kern k)) i)))) = first + al * i))"

lemma proc_max: "unat VK_KERN_PROC_MAX = 16384"
  by (simp add: VK_KERN_PROC_MAX_def)

lemma push_whole:
  assumes "8 \<le> unat pg" "0 < unat l" "unat pg dvd unat l" "unat c + unat l \<le> unat stop"
  shows "\<exists>m'. vk_stack_push pg m \<lparr>addr_start = a, addr_cursor = c, addr_stop = stop\<rparr> 1 l =
      Inr (c, m', \<lparr>addr_start = a, addr_cursor = c + l, addr_stop = stop\<rparr>) \<and> unat (c + l) = unat c + unat l"
proof -
  have pos: "0 < unat pg" using assms(1) by linarith
  have r: "round_up (unat pg) (unat (1 :: size_t) * unat l) = unat l"
    using assms(3) pos by (simp add: round_up_eq)
  let ?s = "\<lparr>addr_start = a, addr_cursor = c, addr_stop = stop\<rparr>"
  have ok: "push_ok pg ?s 1 l" using assms r by (simp add: push_ok_def)
  show ?thesis using push_success(1,3) [OF ok] r by simp
qed

text \<open>The sizes a kernel is made of.\<close>

lemma kern_sizes:
  assumes "alloc_sane env"
  shows "\<exists>kl fl el ol al.
    vk_safe_alignedlen (ae_page env) 1 (ae_kern_size env) = Inr kl \<and> vk_safe_alignedlen (ae_page env) 1 (ae_table_size env) = Inr fl \<and>
    vk_pool_needed_buffer_size (ae_page env) (ae_entry_size env) (ae_proc_size env) VK_KERN_PROC_MAX = Inr (el, ol) \<and>
    vk_safe_alignedlen (ae_page env) 1 (ae_proc_size env) = Inr al \<and> unat ol = 16384 * unat al \<and>
    unat (ae_kern_size env) \<le> unat kl \<and> unat (ae_table_size env) \<le> unat fl \<and> 16384 * unat (ae_entry_size env) \<le> unat el \<and>
    unat (ae_proc_size env) \<le> unat al \<and> 0 < unat kl \<and> 0 < unat fl \<and> 0 < unat el \<and>
    unat kl < 2 ^ 33 \<and> unat fl < 2 ^ 33 \<and> unat el < 2 ^ 47 \<and> unat ol < 2 ^ 47 \<and>
    unat (ae_page env) dvd unat kl \<and> unat (ae_page env) dvd unat fl \<and> unat (ae_page env) dvd unat el \<and>
    unat (ae_page env) dvd unat ol"
proof -
  have pg: "ae_page env \<noteq> 0" "4096 dvd unat (ae_page env)" "unat (ae_page env) \<le> 2 ^ 20"
    and sz: "fits32 (ae_kern_size env)" "fits32 (ae_table_size env)" "fits32 (ae_entry_size env)" "fits32 (ae_proc_size env)"
    using assms by (simp_all add: alloc_sane_def)
  note sm = aligned_small [OF pg]
  obtain kl where kl: "vk_safe_alignedlen (ae_page env) 1 (ae_kern_size env) = Inr kl" "unat (ae_kern_size env) \<le> unat kl"
    "unat kl < unat (ae_kern_size env) + 2 ^ 20" "unat (ae_page env) dvd unat kl"
    using sm [of 1 "ae_kern_size env"] sz(1) by (auto simp: fits32_def)
  obtain fl where fl: "vk_safe_alignedlen (ae_page env) 1 (ae_table_size env) = Inr fl" "unat (ae_table_size env) \<le> unat fl"
    "unat fl < unat (ae_table_size env) + 2 ^ 20" "unat (ae_page env) dvd unat fl"
    using sm [of 1 "ae_table_size env"] sz(2) by (auto simp: fits32_def)
  obtain al where al: "vk_safe_alignedlen (ae_page env) 1 (ae_proc_size env) = Inr al" "unat (ae_proc_size env) \<le> unat al"
    "unat al < unat (ae_proc_size env) + 2 ^ 20" "unat (ae_page env) dvd unat al"
    using sm [of 1 "ae_proc_size env"] sz(4) by (auto simp: fits32_def)
  obtain el where el: "vk_safe_alignedlen (ae_page env) VK_KERN_PROC_MAX (ae_entry_size env) = Inr el"
    "16384 * unat (ae_entry_size env) \<le> unat el" "unat el < 16384 * unat (ae_entry_size env) + 2 ^ 20"
    "unat (ae_page env) dvd unat el"
    using sm [of VK_KERN_PROC_MAX "ae_entry_size env"] sz(3) by (auto simp: fits32_def proc_max)
  have ol: "vk_safe_mult al VK_KERN_PROC_MAX = Inr (al * VK_KERN_PROC_MAX)" "unat (al * VK_KERN_PROC_MAX) = 16384 * unat al"
    using al(3) sz(4) by (simp_all add: safe_mult_eq proc_max unat_mult_exact fits32_def)
  have n: "vk_pool_needed_buffer_size (ae_page env) (ae_entry_size env) (ae_proc_size env) VK_KERN_PROC_MAX
      = Inr (el, al * VK_KERN_PROC_MAX)"
    by (simp add: vk_pool_needed_buffer_size_def el(1) al(1) ol(1))
  show ?thesis
    by (rule exI [of _ kl], rule exI [of _ fl], rule exI [of _ el], rule exI [of _ "al * VK_KERN_PROC_MAX"], rule exI [of _ al])
      (use kl fl al el ol n sz in \<open>simp add: fits32_def dvd_mult\<close>)
qed

lemma kern_pool_callbacks:
  "fst (call_func (Some vk_kern_proc_free) e u) = Inr ()" "fst (call_func (Some vk_kern_proc_init) e u) = Inr ()"
  "snd (call_func (Some vk_kern_proc_free) e (\<lambda>_. zero_proc)) = (\<lambda>_. zero_proc)"
  "snd (call_func (Some vk_kern_proc_init) e (\<lambda>_. zero_proc)) = (\<lambda>_. zero_proc)"
  by (simp_all add: call_func_def vk_kern_proc_free_def vk_kern_proc_init_def vk_proc_clear_def zero_proc_def zero_heap_def
      fun_eq_iff)

lemma kern_alloc_cases:
  assumes "alloc_sane env"
  shows "case vk_kern_alloc env k of
      (Inl e, k') \<Rightarrow> k' = k \<and> ((\<exists>h. ae_mmap env h = Inl e) \<or> ae_signal_init env = Inl e)
    | (Inr kern, k') \<Rightarrow> kern_fresh k' \<and> kern \<noteq> 0 \<and> procs_placed env kern k' \<and> kern_iso (k_kern k') = ae_isolate env"
proof -
  let ?pg = "ae_page env"
  have pg: "?pg \<noteq> 0" "4096 dvd unat ?pg" using assms by (simp_all add: alloc_sane_def)
  obtain kl fl el ol al where sizes: "vk_safe_alignedlen ?pg 1 (ae_kern_size env) = Inr kl"
    "vk_safe_alignedlen ?pg 1 (ae_table_size env) = Inr fl"
    "vk_pool_needed_buffer_size ?pg (ae_entry_size env) (ae_proc_size env) VK_KERN_PROC_MAX = Inr (el, ol)"
    "vk_safe_alignedlen ?pg 1 (ae_proc_size env) = Inr al" "unat ol = 16384 * unat al"
    and least: "unat (ae_kern_size env) \<le> unat kl" "unat (ae_table_size env) \<le> unat fl"
      "16384 * unat (ae_entry_size env) \<le> unat el" "unat (ae_proc_size env) \<le> unat al" "0 < unat kl" "0 < unat fl" "0 < unat el"
    and bounds: "unat kl < 2 ^ 33" "unat fl < 2 ^ 33" "unat el < 2 ^ 47" "unat ol < 2 ^ 47"
    and dv: "unat ?pg dvd unat kl" "unat ?pg dvd unat fl" "unat ?pg dvd unat el" "unat ?pg dvd unat ol"
    using kern_sizes [OF assms] by blast
  have eo: "unat (el + ol) = unat el + unat ol" by (rule unat_add_exact) (use bounds in simp)
  have kf: "unat (kl + fl) = unat kl + unat fl" by (rule unat_add_exact) (use bounds in simp)
  define total where "total = kl + fl + (el + ol)"
  have total: "unat total = unat kl + unat fl + (unat el + unat ol)"
    unfolding total_def by (subst unat_add_exact) (use bounds eo kf in simp_all)
  have "unat ?pg dvd unat total" using dv by (simp add: total)
  then have tdvd: "4096 dvd unat total" using pg(2) dvd_trans by blast
  have tlt: "unat total < 2 ^ 60" using bounds total by simp
  obtain rc hp where m: "map_huge_first env zero_heap 0 total 0 MAP_PRIVATE_ANON (- 1) 0 True = (rc, hp)" by fastforce
  from map_huge_first_result [OF tdvd tlt m]
  show ?thesis
  proof (elim disjE conjE exE)
    fix e h
    assume "rc = Inl e" "map_error rc = Some e" "ae_mmap env h = Inl e"
    then show ?thesis using sizes(1-3) m by (auto simp: vk_kern_alloc_def total_def)
  next
    fix h b L
    assume ok: "map_error rc = None" and h: "ae_mmap env h = Inr b" and st: "heap_stack hp = vk_stack_init b L"
      and L: "unat total \<le> unat L" "unat L < unat total + 2 ^ 21"
    have b: "0 < unat b" "unat b < 2 ^ 47" using assms h by (auto simp: alloc_sane_def)
    have stop: "unat (b + L) = unat b + unat L" by (rule unat_add_exact) (use b L tlt in simp)
    have pg8: "8 \<le> unat ?pg" using pg by (meson dvd_imp_le le_trans numeral_le_iff semiring_norm unat_gt_0) 
    define stop where "stop = b + L"
    have room: "unat b + (unat kl + unat fl + (unat el + unat ol)) \<le> unat stop"
      using L(1) stop by (simp add: stop_def total)
    obtain m1 where p1: "vk_stack_push ?pg (\<lambda>_. 0) (heap_stack hp) 1 kl
        = Inr (b, m1, \<lparr>addr_start = b, addr_cursor = b + kl, addr_stop = stop\<rparr>)" and u1: "unat (b + kl) = unat b + unat kl"
      using push_whole [OF pg8 least(5) dv(1), of b stop] room by (auto simp: st vk_stack_init_def stop_def)
    obtain m2 where p2: "vk_stack_push ?pg m1 \<lparr>addr_start = b, addr_cursor = b + kl, addr_stop = stop\<rparr> 1 fl
        = Inr (b + kl, m2, \<lparr>addr_start = b, addr_cursor = b + kl + fl, addr_stop = stop\<rparr>)"
      and u2: "unat (b + kl + fl) = unat b + unat kl + unat fl"
      using push_whole [OF pg8 least(6) dv(2), of "b + kl" stop] room u1 by auto
    obtain m3 where p3: "vk_stack_push ?pg m2 \<lparr>addr_start = b, addr_cursor = b + kl + fl, addr_stop = stop\<rparr> 1 (el + ol)
        = Inr (b + kl + fl, m3, \<lparr>addr_start = b, addr_cursor = b + kl + fl + (el + ol), addr_stop = stop\<rparr>)"
      using push_whole [OF pg8 _ _, of "el + ol" "b + kl + fl" stop] room u2 eo least(7) dv(3,4) by auto
    have fits: "unat (b + kl + fl) + unat el + unat ol < 2 ^ 64" using b bounds u2 by simp
    have n: "unat VK_KERN_PROC_MAX < 2 ^ 31" by (simp add: proc_max)
    define res where "res = vk_pool_init ?pg (ae_entry_size env) zero_pool (ae_proc_size env) VK_KERN_PROC_MAX (Some (b + kl + fl))
      (el + ol) (\<lambda>_. Inl ENOMEM) True (Some vk_kern_proc_init) (Some vk_kern_proc_free) (\<lambda>_. zero_proc)"
    obtain pool u al' where init: "res = (Inr (), pool, u)" and al': "vk_safe_alignedlen ?pg 1 (ae_proc_size env) = Inr al'"
      and free: "pool_free pool [0..<unat VK_KERN_PROC_MAX]" and cnt: "object_count pool = VK_KERN_PROC_MAX"
      and place: "\<forall>i < unat VK_KERN_PROC_MAX. unat (addr_start (heap_stack (entry_heap (pool_entries pool i)))) =
         unat (b + kl + fl) + unat el + unat al' * i"
      using pool_init_ready [OF pg sizes(3) fits n kern_pool_callbacks(1,2), of zero_pool "\<lambda>_. Inl ENOMEM" True "\<lambda>_. zero_proc"]
      unfolding res_def by blast
    have u: "u = (\<lambda>_. zero_proc)"
      using pool_init_state [OF kern_pool_callbacks(3,4), of ?pg "ae_entry_size env" zero_pool "ae_proc_size env" VK_KERN_PROC_MAX
          "Some (b + kl + fl)" "el + ol" "\<lambda>_. Inl ENOMEM" True] init unfolding res_def by simp
    show ?thesis
    proof (cases "ae_signal_init env")
      case (Inl e)
      then show ?thesis using sizes(1-3) m ok p1 p2 p3 init by (simp add: vk_kern_alloc_def total_def res_def)
    next
      case (Inr x)
      define k' where "k' = snd (vk_kern_alloc env k)"
      have run: "vk_kern_alloc env k = (Inr b, k')" and k': "k_kern k' = \<lparr>kern_hd = hp\<lparr>heap_stack := \<lparr>addr_start = b,
          addr_cursor = b + kl, addr_stop = stop\<rparr>\<rparr>, run_procs = [], blocked_procs = [], kern_rc = 0,
          shutdown_requested = False, proc_pool = pool, kern_iso = ae_isolate env\<rparr>"
        "k_proc k' = (\<lambda>i. if i < VK_KERN_PROC_MAX then zero_proc\<lparr>proc_id := i\<rparr> else zero_proc)"
        "k_table k' = \<lparr>table_size = of_nat VK_FD_MAX, dirty_fds = [], fresh_fds = [], poll_driver = VK_POLL_DRIVER_POLL,
           poll_method = VK_POLL_METHOD_LEVEL_TRIGGERED_ONESHOT, table_fds = (\<lambda>_. zero_fd), poll_fds = [], epoll_fd = None\<rparr>"
        using sizes(1-3) m ok p1 p2 p3 init Inr by (simp_all add: vk_kern_alloc_def total_def res_def k'_def u)
      have "kern_fresh k'"
        using free cnt by (simp add: kern_fresh_def k' k_fd_def zero_proc_def proc_max VK_FD_MAX_def)
      moreover have "procs_placed env b k'"
        unfolding procs_placed_def
        by (rule exI [of _ "unat (b + kl + fl) + unat el"], rule exI [of _ "unat al"])
          (use u2 least room sizes(5) place al' sizes(4) in \<open>simp add: k' proc_max\<close>)
      ultimately show ?thesis using b by (auto simp: run k'(1))
    qed
  qed
qed

text \<open>C16: Allocating the kernel either fails with the error of \<open>mmap\<close> or of the signal set-up and changes nothing, or
  gives a kernel whose table is empty, whose queues are empty, and whose 16384 processes are all free in ascending
  order, each named by its index and cleared. The process objects lie one after the other behind the kernel,
  the table and the index of the pool, without overlap, and within the mapping, whether huge pages were
  used or not.\<close>

theorem kern_alloc_ready:
  assumes "alloc_sane env"
  shows "case vk_kern_alloc env k of
      (Inl e, k') \<Rightarrow> k' = k \<and> ((\<exists>h. ae_mmap env h = Inl e) \<or> ae_signal_init env = Inl e)
    | (Inr kern, k') \<Rightarrow> kern_fresh k' \<and> kern \<noteq> 0 \<and> procs_placed env kern k' \<and> kern_iso (k_kern k') = ae_isolate env"
  using assms by (rule kern_alloc_cases)

lemma fresh_calm:
  assumes "kern_fresh k" "\<not> kern_iso (k_kern k)"
  shows "calm_kern k"
proof -
  have fd: "k_fd k = (\<lambda>_. zero_fd)" using assms(1) by (simp add: kern_fresh_def fun_eq_iff)
  have pr: "k_proc k p = zero_proc\<lparr>proc_id := if p < VK_KERN_PROC_MAX then p else 0\<rparr>" for p
    using assms(1) by (simp add: kern_fresh_def)
  have "fds_ok k" using assms(1) by (simp add: fds_ok_iff fd kern_fresh_def zero_fd_def)
  moreover have "fds_owned k" by (simp add: fds_owned_def pr zero_proc_def fd zero_fd_def)
  moreover have "slots_ok k" using assms(1) by (simp add: slots_ok_def fd zero_fd_def zero_future_def kern_fresh_def)
  moreover have "kern_queues_ok k" using assms(1) by (simp add: kern_queues_iff flag_inv_def pr zero_proc_def kern_fresh_def)
  ultimately show ?thesis
    using assms by (simp add: calm_kern_def kern_ok_def tied_def kern_fresh_def) (simp add: pr zero_proc_def)
qed

subsection \<open>Handing out processes\<close>

text \<open>The processes that are in use, and the free ones, which are cleared.\<close>

definition cleared :: "kern_world \<Rightarrow> size_t \<Rightarrow> bool" where
  "cleared k p \<longleftrightarrow> k_proc k p = zero_proc\<lparr>proc_id := p\<rparr>"

definition procs_ok :: "kern_world \<Rightarrow> size_t set \<Rightarrow> bool" where
  "procs_ok k live \<longleftrightarrow>
     (\<exists>fs. pool_free (proc_pool (k_kern k)) fs \<and> (of_nat ` set fs) \<inter> live = {} \<and>
        (of_nat ` set fs) \<union> live = {p. p < VK_KERN_PROC_MAX}) \<and>
     object_count (proc_pool (k_kern k)) = VK_KERN_PROC_MAX \<and> (\<forall>p < VK_KERN_PROC_MAX. proc_id (k_proc k p) = p) \<and>
     (\<forall>p < VK_KERN_PROC_MAX. p \<notin> live \<longrightarrow> cleared k p)"

datatype slot_call = Alloc_Proc | Free_Proc size_t

fun slot_calls :: "slot_call list \<Rightarrow> kern_world \<times> size_t set \<Rightarrow> (kern_world \<times> size_t set) option" where
  "slot_calls [] s = Some s"
| "slot_calls (Alloc_Proc # cs) (k, live) =
     (case vk_kern_alloc_proc k of
        None \<Rightarrow> slot_calls cs (k, live)
      | Some (p, k') \<Rightarrow> if p \<in> live then None else slot_calls cs (k', insert p live))"
| "slot_calls (Free_Proc p # cs) (k, live) =
     (if p \<in> live then slot_calls cs (vk_kern_free_proc p k, live - {p}) else slot_calls cs (k, live))"

lemma below_max: "p < VK_KERN_PROC_MAX \<longleftrightarrow> unat p < 16384"
  by (simp add: word_less_nat_alt proc_max)

lemma unat_of_slot: "x < 16384 \<Longrightarrow> unat (of_nat x :: size_t) = x"
  by (rule unat_of_nat_exact) simp

lemma fresh_procs_ok: "kern_fresh k \<Longrightarrow> procs_ok k {}"
proof -
  assume f: "kern_fresh k"
  have "of_nat ` {0..<16384} = {p :: size_t. p < VK_KERN_PROC_MAX}"
  proof (intro equalityI subsetI)
    fix p :: size_t
    assume "p \<in> {p. p < VK_KERN_PROC_MAX}"
    then have "unat p \<in> {0..<16384}" "p = of_nat (unat p)" by (simp_all add: below_max)
    then show "p \<in> of_nat ` {0..<16384}" by blast
  qed (auto simp: below_max unat_of_nat_exact)
  then show ?thesis using f unfolding procs_ok_def
    by (intro conjI exI [of _ "[0..<16384]"]) (simp_all add: kern_fresh_def cleared_def)
qed

lemma procs_okI:
  "pool_free (proc_pool (k_kern k)) fs \<Longrightarrow> of_nat ` set fs \<inter> live = {} \<Longrightarrow>
    of_nat ` set fs \<union> live = {p. p < VK_KERN_PROC_MAX} \<Longrightarrow> object_count (proc_pool (k_kern k)) = VK_KERN_PROC_MAX \<Longrightarrow>
    (\<And>p. p < VK_KERN_PROC_MAX \<Longrightarrow> proc_id (k_proc k p) = p) \<Longrightarrow>
    (\<And>p. p < VK_KERN_PROC_MAX \<Longrightarrow> p \<notin> live \<Longrightarrow> cleared k p) \<Longrightarrow> procs_ok k live"
  unfolding procs_ok_def by blast

lemma alloc_proc_ok:
  assumes "procs_ok k live"
  shows "case vk_kern_alloc_proc k of
      None \<Rightarrow> live = {p. p < VK_KERN_PROC_MAX}
    | Some (p, k') \<Rightarrow> p \<notin> live \<and> p < VK_KERN_PROC_MAX \<and> procs_ok k' (insert p live) \<and>
        (\<exists>pool. k' = upd_kern (proc_pool_update (\<lambda>_. pool)) k \<and> object_count pool = VK_KERN_PROC_MAX)"
proof -
  obtain fs where fs: "pool_free (proc_pool (k_kern k)) fs" "of_nat ` set fs \<inter> live = {}"
    "of_nat ` set fs \<union> live = {p. p < VK_KERN_PROC_MAX}"
    and cnt: "object_count (proc_pool (k_kern k)) = VK_KERN_PROC_MAX" and ids: "\<forall>p < VK_KERN_PROC_MAX. proc_id (k_proc k p) = p"
    and cl: "\<forall>p < VK_KERN_PROC_MAX. p \<notin> live \<longrightarrow> cleared k p"
    using assms by (auto simp: procs_ok_def)
  show ?thesis
  proof (cases fs)
    case Nil
    then show ?thesis using fs pool_alloc_empty by (simp add: vk_kern_alloc_proc_def)
  next
    case (Cons e es)
    obtain pool where pool: "vk_pool_alloc_entry (proc_pool (k_kern k)) = Inr (e, pool)" "pool_free pool es"
      "object_count pool = VK_KERN_PROC_MAX"
      using pool_alloc_cons fs(1) cnt unfolding Cons by metis
    have d: "distinct fs" using fs(1) by (rule pool_free_distinct)
    have l: "\<forall>x \<in> set fs. x < 16384" using fs(1) cnt by (auto simp: pool_free_def proc_max)
    have "(of_nat e :: size_t) \<noteq> of_nat x" if "x \<in> set es" for x
    proof
      assume eq: "(of_nat e :: size_t) = of_nat x"
      have "e < 16384" "x < 16384" using l that unfolding Cons by simp_all
      then have "e = x" using arg_cong [OF eq, of unat] by (simp only: unat_of_slot)
      then show False using d that unfolding Cons by simp
    qed
    then have "(of_nat e :: size_t) \<notin> of_nat ` set es" by auto
    then have disj: "of_nat ` set es \<inter> insert (of_nat e) live = {}" using fs(2) unfolding Cons by auto
    have un: "of_nat ` set es \<union> insert (of_nat e) live = {p. p < VK_KERN_PROC_MAX}" using fs(3) unfolding Cons by auto
    have "procs_ok (upd_kern (proc_pool_update (\<lambda>_. pool)) k) (insert (of_nat e) live)"
      by (rule procs_okI [OF _ disj un]) (use cl in \<open>simp_all add: pool ids cleared_def\<close>)
    moreover have "of_nat e \<notin> live" "of_nat e < VK_KERN_PROC_MAX" using fs(2,3) unfolding Cons by auto
    ultimately show ?thesis using pool by (auto simp: vk_kern_alloc_proc_def)
  qed
qed

lemma free_proc_ok:
  assumes "procs_ok k live" "p \<in> live"
  shows "procs_ok (vk_kern_free_proc p k) (live - {p})"
proof -
  obtain fs where fs: "pool_free (proc_pool (k_kern k)) fs" "of_nat ` set fs \<inter> live = {}"
    "of_nat ` set fs \<union> live = {p. p < VK_KERN_PROC_MAX}"
    and cnt: "object_count (proc_pool (k_kern k)) = VK_KERN_PROC_MAX" and ids: "\<forall>p < VK_KERN_PROC_MAX. proc_id (k_proc k p) = p"
    and cl: "\<forall>p < VK_KERN_PROC_MAX. p \<notin> live \<longrightarrow> cleared k p"
    using assms(1) by (auto simp: procs_ok_def)
  have p: "p < VK_KERN_PROC_MAX" using fs(3) assms(2) by auto
  have notin: "unat p \<notin> set fs" using fs(2) assms(2) by force
  have get: "vk_pool_get_entry (proc_pool (k_kern k)) (proc_id (k_proc k p)) = Some (unat p)"
    using p cnt ids by (simp add: vk_pool_get_entry_def not_le)
  let ?clear = "\<lambda>e procs. (Inr (), procs(of_nat e := vk_proc_clear (procs (of_nat e))))"
  obtain rc pool procs where free: "vk_pool_free_entry (Some ?clear) (proc_pool (k_kern k)) (k_proc k) (Some (unat p)) = (rc, pool, procs)"
    by (rule prod_cases3)
  note push = pool_free_push [OF fs(1) notin _ free]
  have new: "vk_kern_free_proc p k = upd_kern (proc_pool_update (\<lambda>_. pool)) (k\<lparr>k_proc := procs\<rparr>)"
    using get free by (simp add: vk_kern_free_proc_def)
  have lt: "unat p < unat (object_count (proc_pool (k_kern k)))" using p by (simp add: cnt word_less_nat_alt)
  have procs: "procs = (k_proc k)(p := vk_proc_clear (k_proc k p))"
    using push [OF lt] by (simp add: call_func_def)
  have disj: "of_nat ` set (unat p # fs) \<inter> (live - {p}) = {}" using fs(2) by auto
  have un: "of_nat ` set (unat p # fs) \<union> (live - {p}) = {p. p < VK_KERN_PROC_MAX}" using fs(3) assms(2) by auto
  have "procs_ok (upd_kern (proc_pool_update (\<lambda>_. pool)) (k\<lparr>k_proc := procs\<rparr>)) (live - {p})"
    by (rule procs_okI [OF _ disj un]) (use push [OF lt] ids cnt cl p in \<open>auto simp: procs vk_proc_clear_def cleared_def zero_proc_def zero_heap_def\<close>)
  then show ?thesis by (simp add: new)
qed

lemma slot_calls_ok:
  "procs_ok k live \<Longrightarrow> \<exists>k' live'. slot_calls cs (k, live) = Some (k', live') \<and> procs_ok k' live'"
proof (induction cs "(k, live)" arbitrary: k live rule: slot_calls.induct)
  case (2 cs k live)
  show ?case
  proof (cases "vk_kern_alloc_proc k")
    case None
    then show ?thesis using 2 by simp
  next
    case (Some r)
    obtain p k' where r: "r = (p, k')" by (cases r)
    then have "p \<notin> live" "procs_ok k' (insert p live)" using alloc_proc_ok [OF "2.prems"] Some by simp_all
    then show ?thesis using 2(2) [OF Some r [symmetric]] by (simp add: Some r)
  qed
next
  case (3 p cs k live)
  then show ?case using free_proc_ok by simp
qed simp

text \<open>C15: No sequence of allocations and releases of processes, each released once for an allocation, hands out a
  process that is in use or loses one: every process is always either free or in use, it keeps its number, and is cleared
  while it is free, and an allocation fails exactly when all 16384 are in use.\<close>

theorem proc_slots_exclusive:
  assumes "kern_fresh k"
  shows "\<exists>k' live. slot_calls cs (k, {}) = Some (k', live) \<and> procs_ok k' live \<and>
    (vk_kern_alloc_proc k' = None \<longleftrightarrow> live = {p. p < VK_KERN_PROC_MAX})"
proof -
  obtain k' live where r: "slot_calls cs (k, {}) = Some (k', live)" "procs_ok k' live"
    using slot_calls_ok [OF fresh_procs_ok [OF assms]] by blast
  show ?thesis using r alloc_proc_ok [OF r(2)] by (auto split: option.splits)
qed

end
