(* ===== verification/Service_Props.thy ===== *)
theory Service_Props
  imports Service Proc_Alloc_Props
begin

text \<open>
  Setting up and serving keep the invariant of the kernel: the allocation of a process and of its first coroutine
  touch no other process and leave the kernel in a state its loop is safe from.
\<close>

subsection \<open>What memory may hold before it is initialised\<close>

text \<open>The threads and sockets that a heap's last user left are on no queue.\<close>

definition raw_ok :: "vk_world \<Rightarrow> bool" where
  "raw_ok w \<longleftrightarrow> (\<forall>t. \<not> run_enq (w_thread w t)) \<and> (\<forall>s. \<not> blocked_enq (w_socket w s)) \<and> rings_ok w"

definition idle_local :: "vk_world \<Rightarrow> bool" where
  "idle_local w \<longleftrightarrow> raw_ok w \<and> run_q (w_local w) = [] \<and> blocked_q (w_local w) = [] \<and>
     \<not> pl_run (w_local w) \<and> \<not> pl_blocked (w_local w)"

lemma idle_local_ok: "idle_local w \<Longrightarrow> local_ok w"
  by (simp add: idle_local_def raw_ok_def local_ok_def sound_def queues_inv_def run_inv_def blk_inv_def)

text \<open>What an operation on one process may change.\<close>

definition only_proc :: "size_t \<Rightarrow> kern_world \<Rightarrow> kern_world \<Rightarrow> bool" where
  "only_proc p k k' \<longleftrightarrow> k_table k' = k_table k \<and> proc_pool (k_kern k') = proc_pool (k_kern k) \<and>
     shutdown_requested (k_kern k') = shutdown_requested (k_kern k) \<and>
     (\<forall>q. q \<noteq> p \<longrightarrow> k_proc k' q = k_proc k q \<and> k_local k' q = k_local k q)"

lemma only_proc_refl [simp]: "only_proc p k k"
  by (simp add: only_proc_def)

lemma only_proc_trans: "only_proc p k k1 \<Longrightarrow> only_proc p k1 k2 \<Longrightarrow> only_proc p k k2"
  by (simp add: only_proc_def)

subsection \<open>Installing a process\<close>

definition unqueued :: "kern_world \<Rightarrow> size_t \<Rightarrow> bool" where
  "unqueued k p \<longleftrightarrow> \<not> run_qed (k_proc k p) \<and> \<not> blocked_qed (k_proc k p) \<and> \<not> has_local (k_proc k p)"

lemma cleared_unqueued: "cleared k p \<Longrightarrow> unqueued k p"
  by (simp add: cleared_def unqueued_def zero_proc_def)

lemma install_safe:
  assumes "calm_kern k" "unqueued k p" "p < object_count (proc_pool (k_kern k))" "raw_ok left"
  shows "calm_kern (install_local left p st m k)" "alive (install_local left p st m k) p"
    "only_proc p k (install_local left p st m k)" "idle_local (k_local (install_local left p st m k) p)"
    "pl_stack (w_local (k_local (install_local left p st m k) p)) = st"
proof -
  let ?k = "install_local left p st m k"
  have pr: "\<not> run_qed (k_proc k p)" "\<not> blocked_qed (k_proc k p)" using assms(2) by (simp_all add: unqueued_def)
  show alive: "alive ?k p" using assms(3) by (simp add: install_local_def vk_proc_init_def alive_def)
  show "only_proc p k ?k" by (simp add: install_local_def vk_proc_init_def only_proc_def)
  show idle: "idle_local (k_local ?k p)"
    using assms(4) by (simp add: install_local_def vk_proc_init_def idle_local_def raw_ok_def rings_ok_def vk_proc_local_init_def)
  show "pl_stack (w_local (k_local ?k p)) = st"
    by (simp add: install_local_def vk_proc_init_def vk_proc_local_init_def)
  have ok: "kern_ok k" and fr: "fresh_fds (k_table k) = []" using assms(1) by (simp_all add: calm_kern_def)
  have same: "k_table ?k = k_table k" "k_kern ?k = k_kern k" "k_fd ?k = k_fd k"
    "k_proc ?k = (k_proc k)(p := (k_proc k p)\<lparr>has_local := True, run_qed := False, blocked_qed := False\<rparr>)"
    by (simp_all add: install_local_def vk_proc_init_def)
  have al: "alive k q \<Longrightarrow> alive ?k q" for q by (simp add: alive_def same)
  have ow: "fds_owned k" using ok by (simp add: kern_ok_def tied_def)
  have "allocated_fds (k_proc ?k q) = allocated_fds (k_proc k q)" for q by (simp add: same(4))
  then have "fds_owned ?k" using ow al unfolding fds_owned_def same(3) by simp
  moreover have "fds_ok ?k" using ok fds_ok_table [OF same(1)] by (simp add: kern_ok_def tied_def)
  moreover have "slots_ok ?k"
    using ok by (simp add: kern_ok_def tied_def slots_ok_def same named_def vk_fd_table_get_def)
  moreover have "run_qed (k_proc ?k q) = run_qed (k_proc k q)" "blocked_qed (k_proc ?k q) = blocked_qed (k_proc k q)" for q
    by (simp_all add: same(4) pr)
  then have "kern_queues_ok ?k" using ok by (simp add: kern_ok_def kern_queues_iff same(2))
  ultimately show "calm_kern ?k"
    using ok fr al idle_local_ok [OF idle] unfolding calm_kern_def kern_ok_def tied_def
    by (auto simp: same install_local_def vk_proc_init_def)
qed

lemma keep_heap_safe [simp]:
  "same_kern k (keep_heap p hp pr k)" "k_local (keep_heap p hp pr k) = k_local k" "only_proc p k (keep_heap p hp pr k)"
  by (simp_all add: keep_heap_def same_kern_def only_proc_def upd_proc_def)

lemma set_rights_safe [simp]:
  "same_kern k (set_rights a b p k)" "k_local (set_rights a b p k) = k_local k" "only_proc p k (set_rights a b p k)"
  by (simp_all add: set_rights_def same_kern_def only_proc_def)

text \<open>A heap with room for the local state, a coroutine and its socket.\<close>

definition coroutine_room :: "alloc_env \<Rightarrow> layout \<Rightarrow> nat" where
  "coroutine_room env lay = round_up (unat (ae_page env)) (unat (ae_thread_size env)) +
     round_up (unat (ae_page env)) (unat (socket_size lay))"

definition heap_room :: "alloc_env \<Rightarrow> layout \<Rightarrow> vk_stack \<Rightarrow> bool" where
  "heap_room env lay st \<longleftrightarrow> 0 < unat (addr_cursor st) \<and>
     unat (addr_cursor st) + round_up (unat (ae_page env)) (unat (ae_local_size env)) + coroutine_room env lay \<le> unat (addr_stop st)"

definition sizes_ok :: "alloc_env \<Rightarrow> layout \<Rightarrow> bool" where
  "sizes_ok env lay \<longleftrightarrow> alloc_sane env \<and> 0 < unat (ae_local_size env) \<and> 0 < unat (ae_thread_size env) \<and>
     0 < unat (socket_size lay) \<and> page_size lay = ae_page env"

lemma page_8: "alloc_sane env \<Longrightarrow> 8 \<le> unat (ae_page env)"
proof -
  assume "alloc_sane env"
  then have "0 < unat (ae_page env)" "4096 dvd unat (ae_page env)" by (simp_all add: alloc_sane_def unat_gt_0)
  then have "4096 \<le> unat (ae_page env)" by (rule dvd_imp_le [rotated])
  then show ?thesis by simp
qed

lemma push_step:
  assumes "8 \<le> unat pg" "0 < unat n" "0 < unat (addr_cursor st)"
    "unat (addr_cursor st) + round_up (unat pg) (unat n) + rest \<le> unat (addr_stop st)"
  shows "\<exists>m' st'. vk_stack_push pg m st 1 n = Inr (addr_cursor st, m', st') \<and> addr_stop st' = addr_stop st \<and>
    unat (addr_cursor st) < unat (addr_cursor st') \<and> unat (addr_cursor st') + rest \<le> unat (addr_stop st')"
proof -
  have ok: "push_ok pg st 1 n" using assms by (simp add: push_ok_def)
  note p = push_success [OF ok]
  show ?thesis
    using p(1) [of m] p(2-4) assms(4) by simp
qed

text \<open>What a successful allocation leaves: a live process with empty queues, and room for a coroutine.\<close>

definition proc_started :: "alloc_env \<Rightarrow> layout \<Rightarrow> size_t \<Rightarrow> kern_world \<Rightarrow> bool" where
  "proc_started env lay p k \<longleftrightarrow> alive k p \<and> idle_local (k_local k p) \<and>
     (let st = pl_stack (w_local (k_local k p))
      in 0 < unat (addr_cursor st) \<and> unat (addr_cursor st) + coroutine_room env lay \<le> unat (addr_stop st))"

definition started :: "alloc_env \<Rightarrow> layout \<Rightarrow> size_t \<Rightarrow> kern_world \<Rightarrow> (errno + unit) \<times> kern_world \<Rightarrow> bool" where
  "started env lay p k r \<longleftrightarrow> calm_kern (snd r) \<and> only_proc p k (snd r) \<and>
     (case fst r of Inl _ \<Rightarrow> True | Inr _ \<Rightarrow> proc_started env lay p (snd r))"

lemma proc_started_same:
  assumes "same_kern k k'" "k_local k' = k_local k"
  shows "proc_started env lay p k' = proc_started env lay p k"
  using assms same_alive [OF assms(1)] by (simp add: proc_started_def)

lemma install_started:
  assumes "calm_kern k" "unqueued k p" "p < object_count (proc_pool (k_kern k))" "raw_ok left"
    "0 < unat (addr_cursor st)" "unat (addr_cursor st) + coroutine_room env lay \<le> unat (addr_stop st)"
  shows "started env lay p k (Inr (), keep_heap p hp pr (install_local left p st m k))"
proof -
  let ?k = "install_local left p st m k" and ?k' = "keep_heap p hp pr (install_local left p st m k)"
  note i = install_safe [OF assms(1-4), of st m]
  have "calm_kern ?k'" by (rule calm_same_local [OF i(1)]) simp_all
  moreover have "only_proc p k ?k'" using only_proc_trans [OF i(3)] by simp
  moreover have "proc_started env lay p ?k'"
    using i(2,4,5) assms(5,6) same_alive [of ?k ?k' p] by (simp add: proc_started_def)
  ultimately show ?thesis by (simp add: started_def)
qed

lemma forget_local_safe:
  assumes "calm_kern k" "unqueued k p"
  shows "calm_kern (upd_proc p (has_local_update (\<lambda>_. False)) k)" "only_proc p k (upd_proc p (has_local_update (\<lambda>_. False)) k)"
proof -
  have "same_kern k (upd_proc p (has_local_update (\<lambda>_. False)) k)" using assms(2) by (simp add: same_kern_def unqueued_def)
  then show "calm_kern (upd_proc p (has_local_update (\<lambda>_. False)) k)"
    by (rule calm_same_local [OF assms(1)]) simp
  show "only_proc p k (upd_proc p (has_local_update (\<lambda>_. False)) k)" by (simp add: only_proc_def)
qed

lemma enter_result:
  "vk_heap_enter hp pr ret = (r, pr', hp') \<Longrightarrow> heap_stack hp' = heap_stack hp"
  "vk_heap_exit hp pr ret = (r, pr', hp') \<Longrightarrow> heap_stack hp' = heap_stack hp"
  by (auto simp: vk_heap_enter_def vk_heap_exit_def set_prot_cases split: if_splits)

text \<open>A mapping of at least this many bytes holds the local state, a coroutine and its socket.\<close>

lemma proc_alloc_started:
  assumes "sizes_ok env lay" "calm_kern k" "unqueued k p" "p < object_count (proc_pool (k_kern k))" "raw_ok left"
    and len: "round_up (unat (ae_page env)) (unat (ae_local_size env)) + coroutine_room env lay \<le> unat len" "unat len < 2 ^ 59"
  shows "started env lay p k (vk_proc_alloc env left 0 len prot fl (- 1) 0 entered p k)"
proof -
  have sane: "alloc_sane env" and pos: "0 < unat (ae_local_size env)" using assms(1) by (simp_all add: sizes_ok_def)
  have pg: "ae_page env \<noteq> 0" "4096 dvd unat (ae_page env)" "unat (ae_page env) \<le> 2 ^ 20"
    using sane by (simp_all add: alloc_sane_def)
  obtain al where al: "vk_safe_alignedlen (ae_page env) 1 len = Inr al" "unat len \<le> unat al" "unat al < unat len + 2 ^ 20"
    "4096 dvd unat al"
    using aligned_small [OF pg, of 1 len] len(2) by auto
  have alt: "unat al < 2 ^ 60" using al(3) len(2) by simp
  have fail: "started env lay p k (Inl e, k)" for e using assms(2) by (simp add: started_def)
  obtain rc hp where m: "map_huge_first env zero_heap 0 al prot fl (- 1) 0 entered = (rc, hp)" by fastforce
  show ?thesis
  proof (cases "map_error rc")
    case (Some e)
    then show ?thesis using al(1) m fail by (simp add: vk_proc_alloc_def)
  next
    case None
    then obtain h b L where h: "ae_mmap env h = Inr b" and st: "heap_stack hp = vk_stack_init b L"
      and L: "unat al \<le> unat L" "unat L < unat al + 2 ^ 21"
      using map_huge_first_result [OF al(4) alt m] by fastforce
    have b: "0 < unat b" "unat b < 2 ^ 47" using sane h by (auto simp: alloc_sane_def)
    have stop: "unat (b + L) = unat b + unat L" by (rule unat_add_exact) (use b L alt in simp)
    obtain pr hp1 r where enter: "(if entered then (Inr (), map_prot (mapping hp), hp)
        else vk_heap_enter hp (map_prot (mapping hp)) (ae_mprotect env 0)) = (r, pr, hp1)" by (rule prod_cases3)
    have st1: "heap_stack hp1 = vk_stack_init b L"
      using enter enter_result(1) [of hp "map_prot (mapping hp)" "ae_mprotect env 0" r pr hp1] st by (auto split: if_splits)
    show ?thesis
    proof (cases r)
      case (Inl e)
      then show ?thesis using al(1) m None enter fail by (simp add: vk_proc_alloc_def)
    next
      case (Inr u)
      have room: "unat (addr_cursor (vk_stack_init b L)) + round_up (unat (ae_page env)) (unat (ae_local_size env)) +
          coroutine_room env lay \<le> unat (addr_stop (vk_stack_init b L))"
        using len(1) al(2) L(1) stop by (simp add: vk_stack_init_def)
      obtain m' st' where p: "vk_stack_push (ae_page env) (\<lambda>_. 0) (heap_stack hp1) 1 (ae_local_size env) = Inr (b, m', st')"
        "unat b < unat (addr_cursor st')" "unat (addr_cursor st') + coroutine_room env lay \<le> unat (addr_stop st')"
        using push_step [OF page_8 [OF sane] pos _ room, of "\<lambda>_. 0"] b st1 by (auto simp: vk_stack_init_def)
      define k1 where "k1 = install_local left p st' m' k"
      have c: "0 < unat (addr_cursor st')" using p(2) by simp
      note keep = install_started [OF assms(2-5) c p(3)]
      show ?thesis
      proof (cases entered)
        case True
        then show ?thesis using al(1) m None enter Inr p(1) keep by (simp add: vk_proc_alloc_def Let_def)
      next
        case False
        obtain r2 pr2 hp3 where exit: "vk_heap_exit (hp1\<lparr>heap_stack := st'\<rparr>) pr (ae_mprotect env 1) = (r2, pr2, hp3)"
          by (rule prod_cases3)
        have "started env lay p k (Inl e, k1)" for e
          using install_safe(1,3) [OF assms(2-5), of st' m'] by (simp add: started_def k1_def)
        then show ?thesis using al(1) m None enter Inr p(1) keep False exit
          by (cases r2) (simp_all add: vk_proc_alloc_def Let_def k1_def)
      qed
    qed
  qed
qed

lemma proc_alloc_pool [simp]: "k_pool (snd (vk_proc_alloc env left a len prot fl fd off entered p k)) = k_pool k"
  by (simp add: vk_proc_alloc_def Let_def install_local_def vk_proc_init_def keep_heap_def set_local_def
      split: sum.splits option.splits prod.splits)

text \<open>The heaps of a pool, each with room for a process.\<close>

definition heaps_ok :: "alloc_env \<Rightarrow> layout \<Rightarrow> vk_pool \<Rightarrow> bool" where
  "heaps_ok env lay pool \<longleftrightarrow> (\<exists>fs. pool_free pool fs) \<and>
     (\<forall>i < unat (object_count pool). heap_room env lay (heap_stack (entry_heap (pool_entries pool i))))"

lemma pool_step_safe:
  "calm_kern k \<Longrightarrow> calm_kern (k\<lparr>k_pool := pool\<rparr>)" "only_proc p k (k\<lparr>k_pool := pool\<rparr>)"
  "unqueued (k\<lparr>k_pool := pool\<rparr>) p = unqueued k p" "alive (k\<lparr>k_pool := pool\<rparr>) p = alive k p"
  by (rule calm_same_local) (simp_all add: same_kern_def only_proc_def unqueued_def alive_def)

lemma pool_proc_started:
  assumes "sizes_ok env lay" "calm_kern k" "unqueued k p" "p < object_count (proc_pool (k_kern k))" "raw_ok left"
    and pool: "heaps_ok env lay (k_pool k)"
  shows "started env lay p k (vk_proc_alloc_from_pool env left p k)"
    "heaps_ok env' lay' (k_pool k) \<Longrightarrow> heaps_ok env' lay' (k_pool (snd (vk_proc_alloc_from_pool env left p k)))"
    "fst (vk_proc_alloc_from_pool env left p k) = Inl e \<Longrightarrow> unqueued (snd (vk_proc_alloc_from_pool env left p k)) p"
proof -
  let ?r = "vk_proc_alloc_from_pool env left p k"
  have sane: "alloc_sane env" and pos: "0 < unat (ae_local_size env)" using assms(1) by (simp_all add: sizes_ok_def)
  obtain fs where fs: "pool_free (k_pool k) fs" using pool by (auto simp: heaps_ok_def)
  have "started env lay p k ?r \<and> (heaps_ok env' lay' (k_pool k) \<longrightarrow> heaps_ok env' lay' (k_pool (snd ?r))) \<and>
    (fst ?r = Inl e \<longrightarrow> unqueued (snd ?r) p)"
  proof (cases fs)
    case Nil
    then have "?r = (Inl ENOMEM, k)" using fs pool_alloc_empty by (simp add: vk_proc_alloc_from_pool_def)
    then show ?thesis using assms(2,3) by (simp add: started_def)
  next
    case (Cons i js)
    obtain pl where pl: "vk_pool_alloc_entry (k_pool k) = Inr (i, pl)" "pool_free pl js" "pool_entries pl = pool_entries (k_pool k)"
      "object_count pl = object_count (k_pool k)"
      using pool_alloc_cons fs unfolding Cons by metis
    have i: "i < unat (object_count (k_pool k))" using fs by (simp add: pool_free_def Cons)
    have pl_ok: "heaps_ok env' lay' pl" if "heaps_ok env' lay' (k_pool k)" using pl that by (auto simp: heaps_ok_def)
    define hp where "hp = entry_heap (pool_entries pl i)"
    have room: "heap_room env lay (heap_stack hp)" using i pool pl(3) by (simp add: heaps_ok_def hp_def)
    obtain r pr hp1 where enter: "vk_heap_enter hp (map_prot (mapping hp)) (ae_mprotect env 0) = (r, pr, hp1)" by (rule prod_cases3)
    have st: "heap_stack hp1 = heap_stack hp" by (rule enter_result(1) [OF enter])
    obtain l m' st' where push: "vk_stack_push (ae_page env) (w_mem left) (heap_stack hp1) 1 (ae_local_size env) = Inr (l, m', st')"
      and c: "0 < unat (addr_cursor st')" "unat (addr_cursor st') + coroutine_room env lay \<le> unat (addr_stop st')"
      using push_step [OF page_8 [OF sane] pos, of "heap_stack hp1" "coroutine_room env lay" "w_mem left"] room
      by (auto simp: heap_room_def st)
    let ?k1 = "upd_proc p (\<lambda>pr. pr\<lparr>proc_pool_entry_id := entry_id (pool_entries pl i), proc_pooled := True\<rparr>)
      (keep_heap p (hp1\<lparr>heap_stack := st'\<rparr>) pr (k\<lparr>k_pool := pl\<rparr>))"
    have run: "?r = (Inr (), install_local left p st' m' ?k1)"
      using pl(1) enter push by (simp add: vk_proc_alloc_from_pool_def Let_def hp_def)
    have same: "same_kern k ?k1" by (simp add: same_kern_def keep_heap_def)
    have k1: "calm_kern ?k1" by (rule calm_same_local [OF assms(2) same]) (simp add: keep_heap_def)
    have uq: "unqueued ?k1 p" using assms(3) by (simp add: unqueued_def keep_heap_def)
    have p: "p < object_count (proc_pool (k_kern ?k1))" using assms(4) by (simp add: keep_heap_def)
    have only: "only_proc p k ?k1" by (simp add: only_proc_def keep_heap_def)
    note ins = install_safe [OF k1 uq p assms(5), of st' m']
    have "started env lay p k ?r"
      using ins only_proc_trans [OF only ins(3)] c by (simp add: started_def run proc_started_def)
    moreover have "k_pool (snd ?r) = pl"
      by (simp add: run install_local_def vk_proc_init_def set_local_def keep_heap_def)
    ultimately show ?thesis using pl_ok by (simp add: run)
  qed
  then show "started env lay p k ?r" "heaps_ok env' lay' (k_pool k) \<Longrightarrow> heaps_ok env' lay' (k_pool (snd ?r))"
    "fst ?r = Inl e \<Longrightarrow> unqueued (snd ?r) p" by blast+
qed

subsection \<open>Starting a coroutine\<close>

text \<open>The process is queued to run one coroutine, from its start, on its two descriptors.\<close>

definition serving :: "size_t \<Rightarrow> nat \<Rightarrow> int \<Rightarrow> int \<Rightarrow> kern_world \<Rightarrow> bool" where
  "serving p func rx tx k \<longleftrightarrow> p \<in> set (run_procs (k_kern k)) \<and>
     (\<exists>t. run_q (w_local (k_local k p)) = [t] \<and>
        (let th = w_thread (k_local k p) t; so = w_socket (k_local k p) (th_socket th)
         in th_func th = func \<and> th_counter th = - 1 \<and> pipe_ref (so_rx_fd so) = VK_PIPE_OS_FD rx \<and>
            pipe_ref (so_tx_fd so) = VK_PIPE_OS_FD tx))"

lemma flush_only:
  "vk_kern_flush_proc_queues p k = Some k' \<Longrightarrow> only_proc p k k' \<and> k_pool k' = k_pool k \<and> k_local k' = k_local k"
  by (auto simp: vk_kern_flush_proc_queues_def vk_kern_enqueue_run_def vk_kern_enqueue_blocked_def
      vk_kern_drop_run_def vk_kern_drop_blocked_def only_proc_def split: if_splits option.splits Option.bind_splits)

lemma init_fds_shape:
  assumes "vk_init_fds lay that func a aty b bty line w = Some w'"
  shows "th_func (w_thread w' that) = func \<and> th_counter (w_thread w' that) = - 1 \<and> th_status (w_thread w' that) = VK_PROC_RUN \<and>
    pipe_ref (so_rx_fd (w_socket w' (th_socket (w_thread w' that)))) = VK_PIPE_OS_FD a \<and>
    pipe_ref (so_tx_fd (w_socket w' (th_socket (w_thread w' that)))) = VK_PIPE_OS_FD b \<and>
    run_q (w_local w') = run_q (w_local w) \<and> blocked_q (w_local w') = blocked_q (w_local w) \<and>
    pl_run (w_local w') = pl_run (w_local w) \<and> pl_blocked (w_local w') = pl_blocked (w_local w)"
  using assms by (auto simp: vk_init_fds_def vk_init_def VK_SOCKET_INIT_def split: sum.splits)

lemma init_fds_raw:
  assumes "vk_init_fds lay that func a aty b bty line w = Some w'" "raw_ok w"
  shows "raw_ok w'"
proof -
  obtain s m st th rx tx where w': "w' = upd_thread that (\<lambda>_. th) (upd_socket s (VK_SOCKET_INIT lay s that rx tx)
            (upd_local (pl_stack_update (\<lambda>_. st)) (w\<lparr>w_mem := m\<rparr>)))" and th: "run_enq th = False"
    using assms(1) unfolding vk_init_fds_def by (metis init_SomeD)
  have "\<not> blocked_enq (VK_SOCKET_INIT lay s that rx tx so)" for so by (simp add: VK_SOCKET_INIT_def)
  then show ?thesis using assms(2) th socket_init_rings by (simp add: w' raw_ok_def rings_ok_def)
qed

lemma copy_arg_same:
  "vk_copy_arg_in that bs w = (rc, w') \<Longrightarrow> w_local w' = w_local w \<and> w_thread w' = w_thread w \<and> w_socket w' = w_socket w"
  by (auto simp: vk_copy_arg_in_def Let_def set_errno_def split: if_splits)

lemma idle_local_cong:
  "w_local w' = w_local w \<Longrightarrow> w_thread w' = w_thread w \<Longrightarrow> w_socket w' = w_socket w \<Longrightarrow> idle_local w' = idle_local w"
  by (simp add: idle_local_def raw_ok_def rings_ok_def)

lemma enqueue_idle:
  assumes "idle_local w" "th_status (w_thread w t) = VK_PROC_RUN"
  shows "local_ok (vk_proc_local_enqueue_run t w)" "run_q (w_local (vk_proc_local_enqueue_run t w)) = [t]"
    "pl_run (w_local (vk_proc_local_enqueue_run t w))" "w_socket (vk_proc_local_enqueue_run t w) = w_socket w"
    "th_func (w_thread (vk_proc_local_enqueue_run t w) t) = th_func (w_thread w t)"
    "th_counter (w_thread (vk_proc_local_enqueue_run t w) t) = th_counter (w_thread w t)"
    "th_socket (w_thread (vk_proc_local_enqueue_run t w) t) = th_socket (w_thread w t)"
proof -
  let ?w = "vk_proc_local_enqueue_run t w"
  have ok: "local_ok w" using assms(1) by (rule idle_local_ok)
  show q: "run_q (w_local ?w) = [t]" "pl_run (w_local ?w)" "w_socket ?w = w_socket w"
    "th_func (w_thread ?w t) = th_func (w_thread w t)" "th_counter (w_thread ?w t) = th_counter (w_thread w t)"
    "th_socket (w_thread ?w t) = th_socket (w_thread w t)"
    using assms by (simp_all add: vk_proc_local_enqueue_run_def Let_def vk_ready_def vk_is_ready_def idle_local_def raw_ok_def)
  have b: "blocked_q (w_local ?w) = []"
    using assms by (simp add: vk_proc_local_enqueue_run_def Let_def vk_ready_def vk_is_ready_def idle_local_def raw_ok_def)
  show "local_ok ?w"
    using frame_enqueue_run [of w t] ok b by (simp add: local_ok_def frame_ok_def)
qed

definition coroutine_started :: "size_t \<Rightarrow> nat \<Rightarrow> int \<Rightarrow> int \<Rightarrow> kern_world \<Rightarrow> size_t outcome \<Rightarrow> bool" where
  "coroutine_started p func rx tx k r \<longleftrightarrow>
     (case r of
        Crashed \<Rightarrow> False
      | Failed k' \<Rightarrow> calm_kern k' \<and> only_proc p k k' \<and> k_pool k' = k_pool k
      | Done q k' \<Rightarrow> q = p \<and> calm_kern k' \<and> alive k' p \<and> only_proc p k k' \<and> k_pool k' = k_pool k \<and> serving p func rx tx k')"

lemma set_local_only [simp]: "only_proc p k (set_local p w k)" "k_pool (set_local p w k) = k_pool k"
  by (simp_all add: only_proc_def set_local_def)

lemma keep_heap_pool [simp]: "k_pool (keep_heap p hp pr k) = k_pool k"
  by (simp add: keep_heap_def)

lemma start_coroutine_safe:
  assumes "sizes_ok env lay" "calm_kern k" "proc_started env lay p k"
  shows "coroutine_started p func rx tx k (start_coroutine env lay p func rx tx arg line k)"
proof -
  have sane: "alloc_sane env" and pos: "0 < unat (ae_thread_size env)" "0 < unat (socket_size lay)" "page_size lay = ae_page env"
    using assms(1) by (simp_all add: sizes_ok_def)
  note pg = page_8 [OF sane]
  obtain r pr hp where enter: "vk_heap_enter (proc_heap (k_proc k p)) (k_prot k p) (ae_mprotect env 2) = (r, pr, hp)"
    by (rule prod_cases3)
  define k1 where "k1 = keep_heap p hp pr k"
  have k1: "calm_kern k1" unfolding k1_def by (rule calm_same_local [OF assms(2)]) simp_all
  have ps: "proc_started env lay p k1" using assms(3) proc_started_same [of k k1] by (simp add: k1_def)
  have only1: "only_proc p k k1" "k_pool k1 = k_pool k" by (simp_all add: k1_def)
  show ?thesis
  proof (cases r)
    case (Inl e)
    then have "start_coroutine env lay p func rx tx arg line k = Failed k1"
      using enter by (simp add: start_coroutine_def vk_proc_alloc_thread_def k1_def)
    then show ?thesis using k1 only1 by (simp add: coroutine_started_def)
  next
    case (Inr u)
    define w where "w = k_local k1 p"
    let ?st = "pl_stack (w_local w)"
    have al: "alive k1 p" and idle: "idle_local w" and c: "0 < unat (addr_cursor ?st)"
      and room: "unat (addr_cursor ?st) + coroutine_room env lay \<le> unat (addr_stop ?st)"
      using ps by (simp_all add: proc_started_def Let_def w_def)
    obtain m1 st1 where t: "vk_stack_push (ae_page env) (w_mem w) ?st 1 (ae_thread_size env) = Inr (addr_cursor ?st, m1, st1)"
      "0 < unat (addr_cursor st1)"
      "unat (addr_cursor st1) + round_up (unat (ae_page env)) (unat (socket_size lay)) \<le> unat (addr_stop st1)"
      using push_step [OF pg pos(1) c, of "round_up (unat (ae_page env)) (unat (socket_size lay))" "w_mem w"] room
      by (auto simp: coroutine_room_def)
    define that where "that = addr_cursor ?st"
    define w1 where "w1 = upd_local (pl_stack_update (\<lambda>_. st1)) (w\<lparr>w_mem := m1\<rparr>)"
    have alloc: "vk_proc_alloc_thread env p k = (Some that, set_local p w1 k1)"
      using enter Inr t(1) by (simp add: vk_proc_alloc_thread_def k1_def w_def w1_def that_def Let_def)
    have idle1: "idle_local w1" using idle by (simp add: w1_def idle_local_def raw_ok_def rings_ok_def)
    obtain s m2 st2 where so: "vk_stack_push (page_size lay) (w_mem w1) (pl_stack (w_local w1)) 1 (socket_size lay) = Inr (s, m2, st2)"
      using push_step [OF pg pos(2) t(2), of 0 "w_mem w1"] t(3) by (auto simp: w1_def pos(3))
    then obtain w2 where init: "vk_init_fds lay that func rx VK_FD_TYPE_SOCKET_STREAM tx VK_FD_TYPE_SOCKET_STREAM line w1 = Some w2"
      by (simp add: vk_init_fds_def vk_init_def)
    note sh = init_fds_shape [OF init]
    have idle2: "idle_local w2" using sh init_fds_raw [OF init] idle1 by (simp add: idle_local_def)
    obtain rc w3 where copy: "vk_copy_arg_in that arg w2 = (rc, w3)" by fastforce
    note same = copy_arg_same [OF copy]
    have idle3: "idle_local w3" using idle2 same idle_local_cong by blast
    show ?thesis
    proof (cases "rc = - 1")
      case True
      then have "start_coroutine env lay p func rx tx arg line k = Failed (set_local p w3 (set_local p w1 k1))"
        using alloc init copy by (simp add: start_coroutine_def)
      moreover have "calm_kern (set_local p w3 (set_local p w1 k1))"
        by (intro calm_set_local k1 idle_local_ok idle1 idle3)
      ultimately show ?thesis using only1 by (simp add: coroutine_started_def only_proc_def)
    next
      case False
      let ?w = "vk_proc_local_enqueue_run that w3"
      let ?k = "set_local p ?w (set_local p w1 k1)"
      have run: "th_status (w_thread w3 that) = VK_PROC_RUN" using sh same by simp
      note q = enqueue_idle [OF idle3 run]
      have calm: "calm_kern ?k" by (intro calm_set_local k1 idle_local_ok idle1 q(1))
      have alk: "alive ?k p" using al by (simp add: alive_def)
      obtain k2 where k2: "vk_kern_flush_proc_queues p ?k = Some k2" "calm_kern k2" "alive k2 p"
        using flush_safe [OF calm alk] by blast
      have "kern_queues_ok ?k" using calm by (simp add: calm_kern_def kern_ok_def)
      then have "p \<in> set (run_procs (k_kern k2))"
        using flush_ok [of ?k p] alk k2(1) q(3) by (auto simp: alive_def)
      moreover have "k_local k2 p = ?w" using flush_only [OF k2(1)] by simp
      ultimately have "serving p func rx tx k2"
        using q sh same by (simp add: serving_def Let_def)
      moreover have "start_coroutine env lay p func rx tx arg line k = Done p k2"
        using alloc init copy False k2(1) by (simp add: start_coroutine_def)
      moreover have "only_proc p k k2" "k_pool k2 = k_pool k"
        using flush_only [OF k2(1)] only1 by (simp_all add: only_proc_def set_local_def)
      ultimately show ?thesis using k2 by (simp add: coroutine_started_def)
    qed
  qed
qed

subsection \<open>Serving connections\<close>

definition arrival_ok :: "layout \<Rightarrow> vk_server \<Rightarrow> arrival \<Rightarrow> bool" where
  "arrival_ok lay sv ar \<longleftrightarrow> sizes_ok (ar_env ar) lay \<and> raw_ok (ar_left ar) \<and> raw_ok (ar_fresh ar) \<and>
     (let len = unat (ae_page (ar_env ar) * sv_page_count sv)
      in round_up (unat (ae_page (ar_env ar))) (unat (ae_local_size (ar_env ar))) + coroutine_room (ar_env ar) lay \<le> len \<and>
         len < 2 ^ 59)"

definition pool_serves :: "layout \<Rightarrow> vk_server \<Rightarrow> arrival \<Rightarrow> kern_world \<Rightarrow> bool" where
  "pool_serves lay sv ar k \<longleftrightarrow> (0 < sv_count sv \<longrightarrow> heaps_ok (ar_env ar) lay (k_pool k))"

lemma started_trans:
  "only_proc p k k1 \<Longrightarrow> started env lay p k1 r \<Longrightarrow> started env lay p k r"
  by (auto simp: started_def intro: only_proc_trans)

lemma service_heap_started:
  assumes "arrival_ok lay sv ar" "pool_serves lay sv ar k" "calm_kern k" "unqueued k p"
    "p < object_count (proc_pool (k_kern k))"
  shows "started (ar_env ar) lay p k (service_heap sv ar p k)"
    "pool_serves lay sv ar' k \<Longrightarrow> pool_serves lay sv ar' (snd (service_heap sv ar p k))"
proof -
  have sz: "sizes_ok (ar_env ar) lay" and raw: "raw_ok (ar_left ar)" "raw_ok (ar_fresh ar)"
    and len: "round_up (unat (ae_page (ar_env ar))) (unat (ae_local_size (ar_env ar))) + coroutine_room (ar_env ar) lay
        \<le> unat (ae_page (ar_env ar) * sv_page_count sv)" "unat (ae_page (ar_env ar) * sv_page_count sv) < 2 ^ 59"
    using assms(1) by (simp_all add: arrival_ok_def Let_def)
  define own where "own = VK_PROC_INIT_PRIVATE (ar_env ar) (ar_fresh ar) (ae_page (ar_env ar) * sv_page_count sv) True p"
  have own: "started (ar_env ar) lay p h (own h)" "k_pool (snd (own h)) = k_pool h"
    if "calm_kern h" "unqueued h p" "p < object_count (proc_pool (k_kern h))" for h
    using proc_alloc_started [OF sz that raw(2) len] by (simp_all add: own_def VK_PROC_INIT_PRIVATE_def)
  have "started (ar_env ar) lay p k (service_heap sv ar p k) \<and>
    (pool_serves lay sv ar' k \<longrightarrow> pool_serves lay sv ar' (snd (service_heap sv ar p k)))"
  proof (cases "0 < sv_count sv")
    case False
    then show ?thesis using own(1) [OF assms(3-5)] by (simp add: service_heap_def own_def Let_def pool_serves_def)
  next
    case True
    have pool: "heaps_ok (ar_env ar) lay (k_pool k)" using assms(2) True by (simp add: pool_serves_def)
    obtain r k1 where r: "vk_proc_alloc_from_pool (ar_env ar) (ar_left ar) p k = (r, k1)" by fastforce
    note fp = pool_proc_started [OF sz assms(3-5) raw(1) pool, unfolded r snd_conv fst_conv]
    have keeps: "pool_serves lay sv ar' k \<longrightarrow> pool_serves lay sv ar' k1"
      using fp(2) by (simp add: pool_serves_def)
    show ?thesis
    proof (cases "r = Inl ENOMEM")
      case False
      then have "service_heap sv ar p k = (r, k1)"
        using True r by (cases r) (simp_all add: service_heap_def Let_def)
      then show ?thesis using fp(1) keeps by simp
    next
      case enomem: True
      have eq: "service_heap sv ar p k = own k1" using True r enomem by (simp add: service_heap_def own_def Let_def)
      have only: "only_proc p k k1" and calm: "calm_kern k1" using fp(1) by (simp_all add: started_def)
      have uq: "unqueued k1 p" by (rule fp(3) [OF enomem])
      have cnt: "p < object_count (proc_pool (k_kern k1))" using only assms(5) by (simp add: only_proc_def)
      show ?thesis using started_trans [OF only own(1) [OF calm uq cnt]] own(2) [OF calm uq cnt] keeps
        by (simp add: eq pool_serves_def)
    qed
  qed
  then show "started (ar_env ar) lay p k (service_heap sv ar p k)"
    "pool_serves lay sv ar' k \<Longrightarrow> pool_serves lay sv ar' (snd (service_heap sv ar p k))" by blast+
qed

lemma procs_ok_only:
  assumes "procs_ok k live" "p \<in> live" "only_proc p k k'" "calm_kern k'"
  shows "procs_ok k' live"
proof -
  have pool: "proc_pool (k_kern k') = proc_pool (k_kern k)" using assms(3) by (simp add: only_proc_def)
  have "\<forall>q < VK_KERN_PROC_MAX. proc_id (k_proc k' q) = q"
    using assms(1,4) pool by (simp add: calm_kern_def kern_ok_def procs_ok_def)
  moreover have "cleared k' q" if "q < VK_KERN_PROC_MAX" "q \<notin> live" for q
  proof -
    have "q \<noteq> p" using that(2) assms(2) by blast
    then show ?thesis using assms(1,3) that by (simp add: procs_ok_def only_proc_def cleared_def)
  qed
  ultimately show ?thesis using assms(1) unfolding procs_ok_def pool by blast
qed

lemma heap_gate_only:
  "only_proc p k (snd (exit_proc_heap ret p k))" "k_pool (snd (exit_proc_heap ret p k)) = k_pool k"
  "k_kern (snd (exit_proc_heap ret p k)) = k_kern k"
  by (auto simp: exit_proc_heap_def only_proc_def split: prod.splits)

text \<open>A slot taken from the kernel, before its process is installed.\<close>

lemma taken_slot:
  assumes "calm_kern k" "procs_ok k live" "vk_kern_alloc_proc k = Some (p, k1)"
  shows "p \<notin> live" "procs_ok k1 (insert p live)" "calm_kern k1" "unqueued k1 p" "p < object_count (proc_pool (k_kern k1))"
    "k_proc k1 = k_proc k" "k_local k1 = k_local k" "k_table k1 = k_table k" "k_pool k1 = k_pool k"
proof -
  obtain pool where a: "p \<notin> live" "p < VK_KERN_PROC_MAX" "procs_ok k1 (insert p live)"
    and k1: "k1 = upd_kern (proc_pool_update (\<lambda>_. pool)) k" and cnt: "object_count pool = VK_KERN_PROC_MAX"
    using alloc_proc_ok [OF assms(2)] assms(3) by auto
  show "p \<notin> live" "procs_ok k1 (insert p live)" by fact+
  have "same_kern k k1" using assms(2) cnt by (simp add: same_kern_def k1 procs_ok_def)
  then show "calm_kern k1" by (rule calm_same_local [OF assms(1)]) (simp add: k1)
  have "cleared k p" using assms(2) a(1,2) by (simp add: procs_ok_def)
  then show "unqueued k1 p" by (simp add: unqueued_def k1 cleared_def zero_proc_def)
  show "p < object_count (proc_pool (k_kern k1))" using a(2) cnt by (simp add: k1)
  show "k_proc k1 = k_proc k" "k_local k1 = k_local k" "k_table k1 = k_table k" "k_pool k1 = k_pool k" by (simp_all add: k1)
qed

lemma serve_arrival_cases:
  assumes "calm_kern k" "procs_ok k live" "arrival_ok lay sv ar" "pool_serves lay sv ar k"
  shows "case serve_arrival lay line sv ar k of
      Crashed \<Rightarrow> False
    | Failed k' \<Rightarrow> calm_kern k' \<and> (\<exists>live'. procs_ok k' live') \<and>
        (\<forall>q \<in> live. k_proc k' q = k_proc k q \<and> k_local k' q = k_local k q)
    | Done None k' \<Rightarrow> k' = k \<and> unat (table_size (k_table k)) < nat (ar_fd ar)
    | Done (Some p) k' \<Rightarrow> p \<notin> live \<and> calm_kern k' \<and> procs_ok k' (insert p live) \<and>
        serving p (sv_func sv) (ar_fd ar) (ar_fd ar) k' \<and> k_table k' = k_table k \<and>
        (\<forall>q. q \<noteq> p \<longrightarrow> k_proc k' q = k_proc k q \<and> k_local k' q = k_local k q) \<and>
        (\<forall>ar'. pool_serves lay sv ar' k \<longrightarrow> pool_serves lay sv ar' k')"
proof (cases "unat (table_size (k_table k)) < nat (ar_fd ar)")
  case True
  then show ?thesis by (simp add: serve_arrival_def)
next
  case fd: False
  show ?thesis
  proof (cases "vk_kern_alloc_proc k")
    case None
    then show ?thesis using fd assms by (auto simp: serve_arrival_def)
  next
    case (Some r)
    then obtain p k1 where alloc: "vk_kern_alloc_proc k = Some (p, k1)" by (cases r) simp
    note t = taken_slot [OF assms(1,2) alloc]
    have ps: "pool_serves lay sv ar' k1 = pool_serves lay sv ar' k" for ar' using t(9) by (simp add: pool_serves_def)
    obtain rc k2 where heap: "service_heap sv ar p k1 = (rc, k2)" by fastforce
    note h = service_heap_started [OF assms(3) _ t(3-5), unfolded ps heap snd_conv, OF assms(4)]
    have calm2: "calm_kern k2" and only2: "only_proc p k1 k2" using h(1) by (simp_all add: started_def)
    have slots2: "procs_ok k2 (insert p live)" by (rule procs_ok_only [OF t(2) _ only2 calm2]) simp
    have others: "k_proc k' q = k_proc k q \<and> k_local k' q = k_local k q" if "only_proc p k1 k'" "q \<noteq> p" for k' q
      using that t(6,7) by (simp add: only_proc_def)
    have np: "q \<noteq> p" if "q \<in> live" for q using that t(1) by blast
    show ?thesis
    proof (cases rc)
      case (Inl e)
      then have "serve_arrival lay line sv ar k = Failed k2" using fd alloc heap by (simp add: serve_arrival_def)
      then show ?thesis using calm2 slots2 others [OF only2 np] by auto
    next
      case (Inr u)
      let ?k2 = "set_rights (sv_privileged sv) (sv_isolated sv) p k2"
      have calm2': "calm_kern ?k2" by (rule calm_same_local [OF calm2]) simp_all
      have "proc_started (ar_env ar) lay p k2" using h(1) Inr by (simp add: started_def)
      then have ps2: "proc_started (ar_env ar) lay p ?k2" using proc_started_same [of k2 ?k2] by simp
      have only2': "only_proc p k1 ?k2" by (rule only_proc_trans [OF only2]) simp
      have pool2: "k_pool ?k2 = k_pool k2" by (simp add: set_rights_def)
      let ?r = "start_coroutine (ar_env ar) lay p (sv_func sv) (ar_fd ar) (ar_fd ar) (ar_service ar) line ?k2"
      have "sizes_ok (ar_env ar) lay" using assms(3) by (simp add: arrival_ok_def)
      note st = start_coroutine_safe [OF this calm2' ps2, of "sv_func sv" "ar_fd ar" "ar_fd ar" "ar_service ar" line]
      have eq: "serve_arrival lay line sv ar k = (case ?r of Crashed \<Rightarrow> Crashed | Failed k3 \<Rightarrow> Failed k3
          | Done _ k3 \<Rightarrow> Done (Some p) (snd (exit_proc_heap (ae_mprotect (ar_env ar) 3) p k3)))"
        using fd alloc heap Inr by (simp add: serve_arrival_def)
      show ?thesis
      proof (cases ?r)
        case Crashed
        then show ?thesis using st by (simp add: coroutine_started_def)
      next
        case (Failed k3)
        then have k3: "calm_kern k3" "only_proc p ?k2 k3" using st by (simp_all add: coroutine_started_def)
        have only3: "only_proc p k1 k3" by (rule only_proc_trans [OF only2' k3(2)])
        have "procs_ok k3 (insert p live)" by (rule procs_ok_only [OF t(2) _ only3 k3(1)]) simp
        then show ?thesis using eq Failed k3(1) others [OF only3 np] by auto
      next
        case (Done q k3)
        then have k3: "calm_kern k3" "only_proc p ?k2 k3" "k_pool k3 = k_pool ?k2"
          "serving p (sv_func sv) (ar_fd ar) (ar_fd ar) k3" using st by (simp_all add: coroutine_started_def)
        let ?k' = "snd (exit_proc_heap (ae_mprotect (ar_env ar) 3) p k3)"
        have calm: "calm_kern ?k'" by (rule calm_same_local [OF k3(1)]) (rule same_heap_gate)+
        have only: "only_proc p k1 ?k'"
          by (rule only_proc_trans [OF only_proc_trans [OF only2' k3(2)] heap_gate_only(1)])
        have "procs_ok ?k' (insert p live)" by (rule procs_ok_only [OF t(2) _ only calm]) simp
        moreover have "serving p (sv_func sv) (ar_fd ar) (ar_fd ar) ?k'"
          using k3(4) same_heap_gate(4) heap_gate_only(3) by (simp add: serving_def)
        moreover have "k_table ?k' = k_table k" using only t(8) by (simp add: only_proc_def)
        moreover have "k_pool ?k' = k_pool k2" using k3(3) heap_gate_only(2) pool2 by simp
        ultimately show ?thesis using eq Done calm others [OF only] t(1) h(2) by (auto simp: pool_serves_def)
      qed
    qed
  qed
qed

lemma listener_runs:
  assumes "calm_kern k" "procs_ok k live" "\<forall>ar \<in> set ars. arrival_ok lay sv ar \<and> pool_serves lay sv ar k"
  shows "case vk_service_listener lay line sv ars k of
      Crashed \<Rightarrow> False
    | Failed k' \<Rightarrow> calm_kern k' \<and> (\<exists>live'. procs_ok k' live')
    | Done _ k' \<Rightarrow> calm_kern k' \<and> (\<exists>live'. live \<subseteq> live' \<and> procs_ok k' live')"
  using assms
proof (induction ars arbitrary: k live)
  case Nil
  then show ?case by auto
next
  case (Cons ar ars)
  have go: "\<not> shutdown_requested (k_kern k)" using Cons.prems(1) by (simp add: calm_kern_def kern_ok_def)
  have "arrival_ok lay sv ar" "pool_serves lay sv ar k" using Cons.prems(3) by simp_all
  note sa = serve_arrival_cases [OF Cons.prems(1,2) this, of line]
  show ?case
  proof (cases "serve_arrival lay line sv ar k")
    case (Done o' k1)
    show ?thesis
    proof (cases o')
      case None
      then have "k1 = k" using sa Done by simp
      then show ?thesis using Cons.IH [OF Cons.prems(1,2)] Cons.prems(3) go Done by simp
    next
      case (Some p)
      then have k1: "calm_kern k1" "procs_ok k1 (insert p live)" "\<And>ar'. pool_serves lay sv ar' k \<Longrightarrow> pool_serves lay sv ar' k1"
        using sa Done by simp_all
      have "\<forall>ar \<in> set ars. arrival_ok lay sv ar \<and> pool_serves lay sv ar k1" using Cons.prems(3) k1(3) by simp
      from Cons.IH [OF k1(1,2) this] show ?thesis using go Done by (auto split: outcome.splits)
    qed
  qed (use sa go in auto)
qed

text \<open>C7: Serving an accepted connection is isolated from the other processes and never crashes. On success the
  connection has a process that no one else uses, queued to run one coroutine, the function of the service, from its start and
  with both directions on the accepted descriptor; whether its heap came from the pool or, when the pool is
  empty, from the system. No other process and no slot of the table is touched, and the kernel is as its loop needs it;
  a failure leaves every process in use untouched as well.\<close>

theorem serve_arrival_sound:
  assumes "calm_kern k" "procs_ok k live" "arrival_ok lay sv ar" "pool_serves lay sv ar k"
  shows "case serve_arrival lay line sv ar k of
      Crashed \<Rightarrow> False
    | Failed k' \<Rightarrow> calm_kern k' \<and> (\<exists>live'. procs_ok k' live') \<and>
        (\<forall>q \<in> live. k_proc k' q = k_proc k q \<and> k_local k' q = k_local k q)
    | Done None k' \<Rightarrow> k' = k \<and> unat (table_size (k_table k)) < nat (ar_fd ar)
    | Done (Some p) k' \<Rightarrow> p \<notin> live \<and> calm_kern k' \<and> procs_ok k' (insert p live) \<and>
        serving p (sv_func sv) (ar_fd ar) (ar_fd ar) k' \<and> k_table k' = k_table k \<and>
        (\<forall>q. q \<noteq> p \<longrightarrow> k_proc k' q = k_proc k q \<and> k_local k' q = k_local k q) \<and>
        (\<forall>ar'. pool_serves lay sv ar' k \<longrightarrow> pool_serves lay sv ar' k')"
  using assms by (rule serve_arrival_cases)

text \<open>The listener never crashes the kernel, for any sequence of connections, and keeps what the loop needs.\<close>

theorem listener_keeps_kernel:
  assumes "calm_kern k" "procs_ok k live" "\<forall>ar \<in> set ars. arrival_ok lay sv ar \<and> pool_serves lay sv ar k"
  shows "case vk_service_listener lay line sv ars k of
      Crashed \<Rightarrow> False
    | Failed k' \<Rightarrow> calm_kern k' \<and> (\<exists>live'. procs_ok k' live')
    | Done _ k' \<Rightarrow> calm_kern k' \<and> (\<exists>live'. live \<subseteq> live' \<and> procs_ok k' live')"
  using assms by (rule listener_runs)

subsection \<open>From the start of the program to its end\<close>

lemma poll_options_calm:
  assumes "calm_kern k" "getenv ''VK_POLL_DRIVER'' \<noteq> Some ''OS''"
  shows "calm_kern (poll_options getenv k)"
proof -
  have fd: "k_fd (upd_table (\<lambda>t. t\<lparr>poll_method := m\<rparr>) k) = k_fd k" for m by (simp add: k_fd_def fun_eq_iff)
  have "calm_kern (upd_table (\<lambda>t. t\<lparr>poll_method := m\<rparr>) k)" for m
    using assms(1)
    by (simp add: calm_kern_def kern_ok_def tied_def fds_ok_iff fds_owned_def slots_ok_def named_def alive_def fd
        kern_queues_iff vk_fd_table_get_def)
  then show ?thesis using assms by (simp add: poll_options_def Let_def)
qed

text \<open>What is left when a program returns without a failure: the last thing done was to give the slot of the main
  process back to the kernel, and before that every queue was in order and nothing was pending.\<close>

definition over_after_free :: "size_t \<Rightarrow> kern_world \<Rightarrow> bool" where
  "over_after_free p k \<longleftrightarrow> (\<exists>k1 :: kern_world. calm_kern k1 \<and> \<not> vk_kern_pending k1 \<and> k = vk_kern_free_proc p k1)"

lemma loop_and_free_safe:
  assumes "calm_kern k" "env_ok e"
  shows "case loop_and_free unmap e fuel p k of
      K_Killed \<Rightarrow> False
    | K_Out_Of_Fuel \<Rightarrow> True
    | K_Returns rc k' \<Rightarrow> rc = - 1 \<or> rc = 0 \<and> over_after_free p k'"
  using loop_goes_on [OF assms, of fuel]
  by (auto simp: loop_and_free_def over_after_free_def split: kern_result.splits)

text \<open>If the loop has buried the main process, this is its second release. The slot then follows itself in the free
  list of the kernel, and every later allocation hands it out.\<close>

lemma second_free_cycles:
  fixes k :: kern_world
  assumes "p < object_count (proc_pool (k_kern k))" "proc_id (k_proc k p) = p"
  defines "pool \<equiv> proc_pool (k_kern (vk_kern_free_proc p (vk_kern_free_proc p k)))"
  shows "vk_pool_alloc_entry pool = Inr (unat p, pool)"
proof -
  have free: "\<exists>q::vk_pool. vk_kern_free_proc p h = upd_kern (proc_pool_update (\<lambda>_. q)) (h\<lparr>k_proc := (k_proc h)(p := vk_proc_clear (k_proc h p))\<rparr>) \<and>
      free_head q = Some (unat p) \<and> free_link q = (free_link (proc_pool (k_kern h)))(unat p := free_head (proc_pool (k_kern h))) \<and>
      object_count q = object_count (proc_pool (k_kern h))"
    if "p < object_count (proc_pool (k_kern h))" "proc_id (k_proc h p) = p" for h :: kern_world
  proof -
    have "vk_pool_get_entry (proc_pool (k_kern h)) (proc_id (k_proc h p)) = Some (unat p)"
      using that by (simp add: vk_pool_get_entry_def not_le)
    then show ?thesis
      by (simp add: vk_kern_free_proc_def vk_pool_free_entry_def call_func_def slist_insert_head_def Let_def)
        (rule exI, rule conjI, rule refl, simp)
  qed
  obtain q where q: "vk_kern_free_proc p k = upd_kern (proc_pool_update (\<lambda>_. q)) (k\<lparr>k_proc := (k_proc k)(p := vk_proc_clear (k_proc k p))\<rparr>)"
      "free_head q = Some (unat p)" "object_count q = object_count (proc_pool (k_kern k))"
    using free [OF assms(1,2)] by blast
  have "p < object_count (proc_pool (k_kern (vk_kern_free_proc p k)))" "proc_id (k_proc (vk_kern_free_proc p k) p) = p"
    using assms(1,2) q by (simp_all add: vk_proc_clear_def)
  from free [OF this] show ?thesis using q by (auto simp: pool_def vk_pool_alloc_entry_def)
qed

lemma spawn_main_safe:
  assumes "sizes_ok env lay" "raw_ok left" "calm_kern k" "procs_ok k live"
    and "round_up (unat (ae_page env)) (unat (ae_local_size env)) + coroutine_room env lay \<le> unat len" "unat len < 2 ^ 59"
  shows "case spawn_main env lay left len privd isol func arg line k of
    Crashed \<Rightarrow> False | Failed k' \<Rightarrow> calm_kern k' | Done p k' \<Rightarrow> calm_kern k' \<and> serving p func 0 1 k'"
proof (cases "vk_kern_alloc_proc k")
  case None
  then show ?thesis using assms(3) by (simp add: spawn_main_def)
next
  case (Some r)
  then obtain p k1 where alloc: "vk_kern_alloc_proc k = Some (p, k1)" by (cases r) simp
  note t = taken_slot [OF assms(3,4) alloc]
  obtain rc k2 where heap: "VK_PROC_INIT_PRIVATE env left len False p k1 = (rc, k2)" by fastforce
  then have h: "started env lay p k1 (rc, k2)"
    using proc_alloc_started [OF assms(1) t(3-5) assms(2,5,6), of PROT_NONE MAP_PRIVATE_ANON False]
    by (simp add: VK_PROC_INIT_PRIVATE_def)
  show ?thesis
  proof (cases rc)
    case (Inl e)
    then show ?thesis using alloc heap h by (simp add: spawn_main_def started_def)
  next
    case (Inr u)
    let ?k2 = "set_rights privd isol p k2"
    have "calm_kern k2" "proc_started env lay p k2" using h Inr by (simp_all add: started_def)
    then have "calm_kern ?k2" "proc_started env lay p ?k2"
      using calm_same_local [of k2 ?k2] proc_started_same [of k2 ?k2] by simp_all
    from start_coroutine_safe [OF assms(1) this, of func 0 1 arg line] show ?thesis
      using alloc heap Inr by (auto simp: spawn_main_def coroutine_started_def split: outcome.splits)
  qed
qed

lemma run_main_safe:
  assumes "sizes_ok env lay" "raw_ok left" "calm_kern k" "procs_ok k live" "env_ok e" "getenv ''VK_POLL_DRIVER'' \<noteq> Some ''OS''"
    and "round_up (unat (ae_page env)) (unat (ae_local_size env)) + coroutine_room env lay \<le> unat len" "unat len < 2 ^ 59"
  shows "case (case spawn_main env lay left len privd isol func arg line k of
        Crashed \<Rightarrow> K_Killed | Failed k2 \<Rightarrow> K_Returns (- 1) k2
      | Done p k2 \<Rightarrow> loop_and_free unmap e fuel p (poll_options getenv k2)) of
      K_Killed \<Rightarrow> False
    | K_Out_Of_Fuel \<Rightarrow> True
    | K_Returns rc k' \<Rightarrow> rc = - 1 \<or> rc = 0 \<and> (\<exists>p. over_after_free p k')"
proof (cases "spawn_main env lay left len privd isol func arg line k")
  case (Done p k2)
  then have "calm_kern k2"
    using spawn_main_safe [OF assms(1-4,7,8), where privd = privd and isol = isol and func = func and arg = arg and line = line] by simp
  from loop_and_free_safe [OF poll_options_calm [where getenv = getenv, OF this assms(6)] assms(5), where unmap = unmap and fuel = fuel and p = p] Done show ?thesis
    by (auto split: kern_result.splits)
qed (use spawn_main_safe [OF assms(1-4,7,8), where privd = privd and isol = isol and func = func and arg = arg and line = line] in auto)


text \<open>The same for a server, whose first process is privileged and whose heap is fixed.\<close>

theorem server_init_safe:
  assumes "sizes_ok env lay" "raw_ok left" "\<not> ae_isolate env" "env_ok e" "getenv ''VK_POLL_DRIVER'' \<noteq> Some ''OS''"
    and "round_up (unat (ae_page env)) (unat (ae_local_size env)) + coroutine_room env lay \<le> 4096 * 34"
  shows "case vk_server_init env lay left mm getenv e fuel unmap line listener arg sv k of
      K_Killed \<Rightarrow> False
    | K_Out_Of_Fuel \<Rightarrow> True
    | K_Returns rc k' \<Rightarrow> rc = - 1 \<or> rc = 0 \<and> (\<exists>p. over_after_free p k')"
proof -
  have "alloc_sane env" using assms(1) by (simp add: sizes_ok_def)
  note ka = kern_alloc_cases [OF this, of k]
  obtain r k1 where r: "vk_kern_alloc env k = (r, k1)" by fastforce
  obtain r2 k2 where p: "service_pool env mm sv k1 = (r2, k2)" by fastforce
  have k2: "\<exists>pool. k2 = k1\<lparr>k_pool := pool\<rparr>"
    using p by (auto simp: service_pool_def split: if_splits prod.splits intro: exI [of _ "k_pool k1"])
  have len: "round_up (unat (ae_page env)) (unat (ae_local_size env)) + coroutine_room env lay \<le> unat (4096 * 34 :: size_t)"
    "unat (4096 * 34 :: size_t) < 2 ^ 59" using assms(6) by simp_all
  show ?thesis
  proof (cases r)
    case (Inr b)
    then have "calm_kern k1" "procs_ok k1 {}" using ka r assms(3) fresh_calm fresh_procs_ok by auto
    then have "calm_kern k2" "procs_ok k2 {}" using k2 pool_step_safe(1) by (auto simp: procs_ok_def cleared_def)
    from run_main_safe [where getenv = getenv, OF assms(1,2) this assms(4,5) len, where privd = True and isol = "sv_isolated sv"
        and func = listener and arg = arg and line = line and unmap = unmap and fuel = fuel] show ?thesis
      using r Inr p by (cases r2) (simp_all add: vk_server_init_def)
  qed (use r in \<open>simp add: vk_server_init_def\<close>)
qed

subsection \<open>A concrete system\<close>

definition small_env :: alloc_env where
  "small_env = \<lparr>ae_page = 4096, ae_kern_size = 5000, ae_table_size = 9000, ae_entry_size = 200, ae_proc_size = 600,
     ae_local_size = 300, ae_thread_size = 400, ae_mmap = (\<lambda>huge. Inr (if huge then 0x200000 else 0x10000)), ae_clock = (0, 0),
     ae_meminfo = None, ae_mprotect = (\<lambda>_. Inr ()), ae_signal_init = Inr (), ae_isolate = False\<rparr>"

definition small_layout :: layout where
  "small_layout = \<lparr>page_size = 4096, socket_size = 40000, tx_offset = 20000\<rparr>"

definition small_server :: vk_server where
  "small_server = \<lparr>sv_address = \<lparr>sa_family = AF_INET, sa_port = 0x901F, sa_text = ''0.0.0.0''\<rparr>, sv_address_str = [],
     sv_port_str = [], sv_func = 5, sv_count = 0, sv_page_count = 25, sv_privileged = False, sv_isolated = True,
     sv_reuseport = False, sv_ktls = False\<rparr>"

definition small_arrival :: arrival where
  "small_arrival = \<lparr>ar_fd = 9, ar_env = small_env, ar_left = idle_world, ar_fresh = idle_world, ar_service = [1, 2, 3]\<rparr>"

lemma small_sizes: "alloc_sane small_env" "sizes_ok small_env small_layout"
  by (simp_all add: alloc_sane_def small_env_def fits32_def sizes_ok_def small_layout_def)

lemma small_room: "round_up (unat (ae_page small_env)) (unat (ae_local_size small_env)) + coroutine_room small_env small_layout = 49152"
  by (simp add: coroutine_room_def small_env_def small_layout_def round_up_def pages_for_def)

lemma small_raw: "raw_ok idle_world"
  using idle_world_linked(2) by (simp add: raw_ok_def) (simp add: idle_world_def idle_thread_def idle_socket_def)

lemma small_boots: "ae_mmap small_env h \<noteq> Inl e" "ae_signal_init small_env \<noteq> Inl e" "\<not> ae_isolate small_env"
  by (simp_all add: small_env_def)

lemma small_kernel:
  obtains kern k where "vk_kern_alloc small_env looping_kern = (Inr kern, k)" "kern_fresh k" "calm_kern k" "procs_ok k {}"
proof -
  obtain r k where r: "vk_kern_alloc small_env looping_kern = (r, k)" by fastforce
  note c = kern_alloc_cases [OF small_sizes(1), of looping_kern]
  obtain kern where "r = Inr kern" using c r small_boots by (cases r) auto
  then show ?thesis using that c r small_boots(3) fresh_calm fresh_procs_ok by auto
qed


theorem kern_alloc_ready_witness:
  "\<exists>kern k'. vk_kern_alloc small_env looping_kern = (Inr kern, k') \<and> kern_fresh k' \<and> procs_placed small_env kern k'"
proof -
  obtain kern k' where r: "vk_kern_alloc small_env looping_kern = (Inr kern, k')" by (rule small_kernel)
  then show ?thesis using kern_alloc_ready [OF small_sizes(1), of looping_kern] by auto
qed

theorem proc_slots_exclusive_witness:
  "\<exists>k k' live. kern_fresh k \<and> slot_calls [Alloc_Proc, Alloc_Proc, Free_Proc 1, Alloc_Proc] (k, {}) = Some (k', live) \<and> procs_ok k' live"
proof -
  obtain kern k where k: "kern_fresh k" by (rule small_kernel)
  from proc_slots_exclusive [OF k, of "[Alloc_Proc, Alloc_Proc, Free_Proc 1, Alloc_Proc]"] k show ?thesis by blast
qed

theorem serve_arrival_sound_witness:
  "\<exists>k. procs_ok k {} \<and> (case serve_arrival small_layout 1 small_server small_arrival k of
     Crashed \<Rightarrow> False | Failed k' \<Rightarrow> calm_kern k' | Done p k' \<Rightarrow> calm_kern k')"
proof -
  obtain kern k where k: "calm_kern k" "procs_ok k {}" by (rule small_kernel)
  have "unat (ae_page small_env * sv_page_count small_server) = 102400"
    by (simp add: small_env_def small_server_def)
  then have "arrival_ok small_layout small_server small_arrival"
    using small_sizes(2) small_raw small_room by (simp add: arrival_ok_def small_arrival_def Let_def)
  moreover have "pool_serves small_layout small_server small_arrival k"
    by (simp add: pool_serves_def small_server_def)
  ultimately have "case serve_arrival small_layout 1 small_server small_arrival k of
     Crashed \<Rightarrow> False | Failed k' \<Rightarrow> calm_kern k' | Done p k' \<Rightarrow> calm_kern k'"
    using serve_arrival_sound [OF k, of small_layout small_server small_arrival 1] k(1)
    by (auto split: outcome.splits option.splits)
  with k show ?thesis by blast
qed


end
