(* ===== verification/Signal.thy ===== *)
theory Signal
  imports Kern C_String
begin

text \<open>
  Signals (src/vk_signal.c, src/vk_signal_s.h, and the handlers of src/vk_kern.c): the texts
  for a \<open>siginfo_t\<close>, the registration, the asynchronous handler that stores a signal in a
  single slot or jumps out of a fault, and the run of the mainline and of the jumper.

  The hooks of \<open>global_vk_signal\<close> are arguments of the functions that call them, its data
  and what the system keeps (mask, dispositions) are \<open>sig_state\<close>. A signal set is the set
  of its numbers. A \<open>sprintf\<close> conversion \<open>%p\<close> is the argument \<open>pp\<close>.
\<close>

named_theorems sig_defs "numbers of the signals and of their codes"

subsection \<open>The numbers of the system headers (Linux)\<close>

definition SIGHUP :: nat where [sig_defs]: "SIGHUP = 1"
definition SIGINT :: nat where [sig_defs]: "SIGINT = 2"
definition SIGQUIT :: nat where [sig_defs]: "SIGQUIT = 3"
definition SIGILL :: nat where [sig_defs]: "SIGILL = 4"
definition SIGABRT :: nat where [sig_defs]: "SIGABRT = 6"
definition SIGBUS :: nat where [sig_defs]: "SIGBUS = 7"
definition SIGFPE :: nat where [sig_defs]: "SIGFPE = 8"
definition SIGUSR1 :: nat where [sig_defs]: "SIGUSR1 = 10"
definition SIGSEGV :: nat where [sig_defs]: "SIGSEGV = 11"
definition SIGUSR2 :: nat where [sig_defs]: "SIGUSR2 = 12"
definition SIGPIPE :: nat where [sig_defs]: "SIGPIPE = 13"
definition SIGALRM :: nat where [sig_defs]: "SIGALRM = 14"
definition SIGTRAP :: nat where [sig_defs]: "SIGTRAP = 5"
definition SIGKILL :: nat where [sig_defs]: "SIGKILL = 9"
definition SIGCHLD :: nat where [sig_defs]: "SIGCHLD = 17"
definition SIGCONT :: nat where [sig_defs]: "SIGCONT = 18"
definition SIGSTOP :: nat where [sig_defs]: "SIGSTOP = 19"
definition SIGTSTP :: nat where [sig_defs]: "SIGTSTP = 20"
definition SIGTTIN :: nat where [sig_defs]: "SIGTTIN = 21"
definition SIGTTOU :: nat where [sig_defs]: "SIGTTOU = 22"
definition SIGURG :: nat where [sig_defs]: "SIGURG = 23"
definition SIGXCPU :: nat where [sig_defs]: "SIGXCPU = 24"
definition SIGXFSZ :: nat where [sig_defs]: "SIGXFSZ = 25"
definition SIGVTALRM :: nat where [sig_defs]: "SIGVTALRM = 26"
definition SIGPROF :: nat where [sig_defs]: "SIGPROF = 27"
definition SIGPOLL :: nat where [sig_defs]: "SIGPOLL = 29"
definition SIGSYS :: nat where [sig_defs]: "SIGSYS = 31"

definition ILL_ILLOPC :: int where [sig_defs]: "ILL_ILLOPC = 1"
definition ILL_ILLOPN :: int where [sig_defs]: "ILL_ILLOPN = 2"
definition ILL_ILLADR :: int where [sig_defs]: "ILL_ILLADR = 3"
definition ILL_ILLTRP :: int where [sig_defs]: "ILL_ILLTRP = 4"
definition ILL_PRVOPC :: int where [sig_defs]: "ILL_PRVOPC = 5"
definition ILL_PRVREG :: int where [sig_defs]: "ILL_PRVREG = 6"
definition ILL_COPROC :: int where [sig_defs]: "ILL_COPROC = 7"
definition ILL_BADSTK :: int where [sig_defs]: "ILL_BADSTK = 8"
definition FPE_INTDIV :: int where [sig_defs]: "FPE_INTDIV = 1"
definition FPE_INTOVF :: int where [sig_defs]: "FPE_INTOVF = 2"
definition FPE_FLTDIV :: int where [sig_defs]: "FPE_FLTDIV = 3"
definition FPE_FLTOVF :: int where [sig_defs]: "FPE_FLTOVF = 4"
definition FPE_FLTUND :: int where [sig_defs]: "FPE_FLTUND = 5"
definition FPE_FLTRES :: int where [sig_defs]: "FPE_FLTRES = 6"
definition FPE_FLTINV :: int where [sig_defs]: "FPE_FLTINV = 7"
definition FPE_FLTSUB :: int where [sig_defs]: "FPE_FLTSUB = 8"
definition SEGV_MAPERR :: int where [sig_defs]: "SEGV_MAPERR = 1"
definition SEGV_ACCERR :: int where [sig_defs]: "SEGV_ACCERR = 2"
definition BUS_ADRALN :: int where [sig_defs]: "BUS_ADRALN = 1"
definition BUS_ADRERR :: int where [sig_defs]: "BUS_ADRERR = 2"
definition BUS_OBJERR :: int where [sig_defs]: "BUS_OBJERR = 3"
definition TRAP_BRKPT :: int where [sig_defs]: "TRAP_BRKPT = 1"
definition TRAP_TRACE :: int where [sig_defs]: "TRAP_TRACE = 2"
definition CLD_EXITED :: int where [sig_defs]: "CLD_EXITED = 1"
definition CLD_KILLED :: int where [sig_defs]: "CLD_KILLED = 2"
definition CLD_DUMPED :: int where [sig_defs]: "CLD_DUMPED = 3"
definition CLD_TRAPPED :: int where [sig_defs]: "CLD_TRAPPED = 4"
definition CLD_STOPPED :: int where [sig_defs]: "CLD_STOPPED = 5"
definition CLD_CONTINUED :: int where [sig_defs]: "CLD_CONTINUED = 6"
definition POLL_IN :: int where [sig_defs]: "POLL_IN = 1"
definition POLL_OUT :: int where [sig_defs]: "POLL_OUT = 2"
definition POLL_MSG :: int where [sig_defs]: "POLL_MSG = 3"
definition POLL_ERR :: int where [sig_defs]: "POLL_ERR = 4"
definition POLL_PRI :: int where [sig_defs]: "POLL_PRI = 5"
definition POLL_HUP :: int where [sig_defs]: "POLL_HUP = 6"
definition SI_USER :: int where [sig_defs]: "SI_USER = 0"
definition SI_QUEUE :: int where [sig_defs]: "SI_QUEUE = - 1"
definition SI_TIMER :: int where [sig_defs]: "SI_TIMER = - 2"
definition SI_MESGQ :: int where [sig_defs]: "SI_MESGQ = - 3"
definition SI_ASYNCIO :: int where [sig_defs]: "SI_ASYNCIO = - 4"

subsection \<open>The texts\<close>

definition signal_rows :: "(nat \<times> string \<times> string) list" where
  "signal_rows =
    [(SIGABRT, ''SIGABRT'', ''Process abort signal.''),
     (SIGALRM, ''SIGALRM'', ''Alarm clock.''),
     (SIGBUS, ''SIGBUS'', ''Access to an undefined portion of a memory object.''),
     (SIGCHLD, ''SIGCHLD'', ''Child process terminated, stopped, or continued.''),
     (SIGCONT, ''SIGCONT'', ''Continue executing, if stopped.''),
     (SIGFPE, ''SIGFPE'', ''Erroneous arithmetic operation.''),
     (SIGHUP, ''SIGHUP'', ''Hangup.''),
     (SIGILL, ''SIGILL'', ''Illegal instruction.''),
     (SIGINT, ''SIGINT'', ''Terminal interrupt signal.''),
     (SIGKILL, ''SIGKILL'', ''Kill (cannot be caught or ignored).''),
     (SIGPIPE, ''SIGPIPE'', ''Write on a pipe with no one to read it.''),
     (SIGQUIT, ''SIGQUIT'', ''Terminal quit signal.''),
     (SIGSEGV, ''SIGSEGV'', ''Invalid memory reference.''),
     (SIGSTOP, ''SIGSTOP'', ''Stop executing (cannot be caught or ignored).''),
     (SIGTERM, ''SIGTERM'', ''Termination signal.''),
     (SIGTSTP, ''SIGTSTP'', ''Terminal stop signal.''),
     (SIGTTIN, ''SIGTTIN'', ''Background process attempting read.''),
     (SIGTTOU, ''SIGTTOU'', ''Background process attempting write.''),
     (SIGUSR1, ''SIGUSR1'', ''User-defined signal 1.''),
     (SIGUSR2, ''SIGUSR2'', ''User-defined signal 2.''),
     (SIGPOLL, ''SIGPOLL'', ''Pollable event.''),
     (SIGPROF, ''SIGPROF'', ''Profiling timer expired.''),
     (SIGSYS, ''SIGSYS'', ''Bad system call.''),
     (SIGTRAP, ''SIGTRAP'', ''Trace/breakpoint trap.''),
     (SIGURG, ''SIGURG'', ''High bandwidth data is available at a socket.''),
     (SIGVTALRM, ''SIGVTALRM'', ''Virtual timer expired.''),
     (SIGXCPU, ''SIGXCPU'', ''CPU time limit exceeded.''),
     (SIGXFSZ, ''SIGXFSZ'', ''File size limit exceeded.'')]"

definition SIGILL_rows :: "(int \<times> string \<times> string) list" where
  "SIGILL_rows =
    [(ILL_ILLOPC, ''ILL_ILLOPC'', ''Illegal opcode.''),
     (ILL_ILLOPN, ''ILL_ILLOPN'', ''Illegal operand.''),
     (ILL_ILLADR, ''ILL_ILLADR'', ''Illegal addressing mode.''),
     (ILL_ILLTRP, ''ILL_ILLTRP'', ''Illegal trap.''),
     (ILL_PRVOPC, ''ILL_PRVOPC'', ''Privileged opcode.''),
     (ILL_PRVREG, ''ILL_PRVREG'', ''Privileged register.''),
     (ILL_COPROC, ''ILL_COPROC'', ''Coprocessor error.''),
     (ILL_BADSTK, ''ILL_BADSTK'', ''Internal stack error.'')]"

definition SIGFPE_rows :: "(int \<times> string \<times> string) list" where
  "SIGFPE_rows =
    [(FPE_INTDIV, ''FPE_INTDIV'', ''Integer divide by zero.''),
     (FPE_INTOVF, ''FPE_INTOVF'', ''Integer overflow.''),
     (FPE_FLTDIV, ''FPE_FLTDIV'', ''Floating-point divide by zero.''),
     (FPE_FLTOVF, ''FPE_FLTOVF'', ''Floating-point overflow.''),
     (FPE_FLTUND, ''FPE_FLTUND'', ''Floating-point underflow.''),
     (FPE_FLTRES, ''FPE_FLTRES'', ''Floating-point inexact result.''),
     (FPE_FLTINV, ''FPE_FLTINV'', ''Invalid floating-point operation.''),
     (FPE_FLTSUB, ''FPE_FLTSUB'', ''Subscript out of range.'')]"

definition SIGSEGV_rows :: "(int \<times> string \<times> string) list" where
  "SIGSEGV_rows =
    [(SEGV_MAPERR, ''SEGV_MAPERR'', ''Address not mapped to object.''),
     (SEGV_ACCERR, ''SEGV_ACCERR'', ''Invalid permissions for mapped object.'')]"

definition SIGBUS_rows :: "(int \<times> string \<times> string) list" where
  "SIGBUS_rows =
    [(BUS_ADRALN, ''BUS_ADRALN'', ''Invalid address alignment.''),
     (BUS_ADRERR, ''BUS_ADRERR'', ''Nonexistent physical address.''),
     (BUS_OBJERR, ''BUS_OBJERR'', ''Object-specific hardware error.'')]"

definition SIGTRAP_rows :: "(int \<times> string \<times> string) list" where
  "SIGTRAP_rows =
    [(TRAP_BRKPT, ''TRAP_BRKPT'', ''Process breakpoint.''),
     (TRAP_TRACE, ''TRAP_TRACE'', ''Process trace trap.'')]"

definition SIGCHLD_rows :: "(int \<times> string \<times> string) list" where
  "SIGCHLD_rows =
    [(CLD_EXITED, ''CLD_EXITED'', ''Child has exited.''),
     (CLD_KILLED, ''CLD_KILLED'', ''Child has terminated abnormally and did not create a core file.''),
     (CLD_DUMPED, ''CLD_DUMPED'', ''Child has terminated abnormally and created a core file.''),
     (CLD_TRAPPED, ''CLD_TRAPPED'', ''Traced child has trapped.''),
     (CLD_STOPPED, ''CLD_STOPPED'', ''Child has stopped.''),
     (CLD_CONTINUED, ''CLD_CONTINUED'', ''Stopped child has continued.'')]"

definition SIGPOLL_rows :: "(int \<times> string \<times> string) list" where
  "SIGPOLL_rows =
    [(POLL_IN, ''POLL_IN'', ''Data input available.''),
     (POLL_OUT, ''POLL_OUT'', ''Output buffers available.''),
     (POLL_MSG, ''POLL_MSG'', ''Input message available.''),
     (POLL_ERR, ''POLL_ERR'', ''I/O error.''),
     (POLL_PRI, ''POLL_PRI'', ''High priority input available.''),
     (POLL_HUP, ''POLL_HUP'', ''Device disconnected.'')]"

definition code_rows :: "nat \<Rightarrow> (int \<times> string \<times> string) list" where
  "code_rows signo =
     (if signo = SIGILL then SIGILL_rows
      else if signo = SIGFPE then SIGFPE_rows
      else if signo = SIGSEGV then SIGSEGV_rows
      else if signo = SIGBUS then SIGBUS_rows
      else if signo = SIGTRAP then SIGTRAP_rows
      else if signo = SIGCHLD then SIGCHLD_rows
      else if signo = SIGPOLL then SIGPOLL_rows
      else [])"

definition general_rows :: "(int \<times> string \<times> string) list" where
  "general_rows =
    [(SI_USER, ''SI_USER'', ''Signal sent by kill().''),
     (SI_QUEUE, ''SI_QUEUE'', ''Signal sent by sigqueue().''),
     (SI_TIMER, ''SI_TIMER'', ''Signal generated by expiration of a timer set by timer_settime().''),
     (SI_ASYNCIO, ''SI_ASYNCIO'', ''Signal generated by completion of an asynchronous I/O request.''),
     (SI_MESGQ, ''SI_MESGQ'', ''Signal generated by arrival of a message on an empty message queue.'')]"

record siginfo =
  si_signo_of :: nat
  si_code :: int
  si_addr :: addr

text \<open>The first row of a label, and the texts before the switch for no row.\<close>

definition signal_text :: "nat \<Rightarrow> string \<times> string" where
  "signal_text signo = (case map_of signal_rows signo of Some r \<Rightarrow> r | None \<Rightarrow> (''Unknown'', ''Unknown signal.''))"

text \<open>The detail of an access fault is printed into an array of 32 bytes, which is gone when
  the line is printed: \<open>dead\<close> is what is read from it then.\<close>

definition fault_text :: "(addr \<Rightarrow> string) \<Rightarrow> addr \<Rightarrow> string" where
  "fault_text pp a = take 31 ('' Fault address: '' @ pp a @ ''.'')"

definition code_text :: "(addr \<Rightarrow> string) \<Rightarrow> (string \<Rightarrow> string) \<Rightarrow> siginfo \<Rightarrow> string \<times> string" where
  "code_text pp dead i =
     (let special = (case map_of (code_rows (si_signo_of i)) (si_code i) of
            None \<Rightarrow> ([], [])
          | Some (c, d) \<Rightarrow> if si_signo_of i = SIGSEGV \<and> si_code i = SEGV_ACCERR \<and> si_addr i \<noteq> 0
                           then (c, dead (fault_text pp (si_addr i))) else (c, d))
      in case map_of general_rows (si_code i) of Some r \<Rightarrow> r | None \<Rightarrow> special)"

definition siginfo_line :: "(addr \<Rightarrow> string) \<Rightarrow> (string \<Rightarrow> string) \<Rightarrow> siginfo option \<Rightarrow> string" where
  "siginfo_line pp dead info =
     (case info of
        None \<Rightarrow> ''No Signal.'' @ [CHR 0x0A]
      | Some i \<Rightarrow> (case (signal_text (si_signo_of i), code_text pp dead i) of ((n, d), (c, e)) \<Rightarrow>
          ''Signal '' @ n @ '': '' @ d @ '' - Code '' @ c @ '': '' @ e))"

text \<open>\<open>snprintf\<close> returns the length of the whole line and stores what fits before the NUL.\<close>

definition vk_signal_get_siginfo_str ::
  "(addr \<Rightarrow> string) \<Rightarrow> (string \<Rightarrow> string) \<Rightarrow> siginfo option \<Rightarrow> nat \<Rightarrow> int \<times> string" where
  "vk_signal_get_siginfo_str pp dead info len =
     (let l = siginfo_line pp dead info in (int (length l), take (len - 1) l))"

subsection \<open>State\<close>

datatype disposition = Default | Ignored | Vk_action

record sig_state =
  current_set :: "nat set"
  desired_set :: "nat set"
  signo_slot :: nat
  jump_info :: "siginfo option"
  os_mask :: "nat set"
  os_action :: "nat \<Rightarrow> disposition"
  stderr :: "string list"

text \<open>What a handler does with the program: the interrupted code goes on, the program
  jumps to the jumper, or it ends.\<close>

datatype sig_ret = Resumes sig_state | Jumps sig_state | Exits int sig_state

subsection \<open>The mask\<close>

definition vk_signal_restore :: "bool \<Rightarrow> sig_state \<Rightarrow> int \<times> sig_state" where
  "vk_signal_restore ok s =
     (let s1 = s\<lparr>current_set := desired_set s\<rparr>
      in if ok then (0, s1\<lparr>os_mask := desired_set s\<rparr>) else (- 1, s1))"

definition vk_signal_save :: "bool \<Rightarrow> sig_state \<Rightarrow> int \<times> sig_state" where
  "vk_signal_save ok s =
     (if ok then (0, s\<lparr>current_set := os_mask s, desired_set := os_mask s\<rparr>) else (- 1, s))"

definition vk_signal_block :: "nat \<Rightarrow> sig_state \<Rightarrow> sig_state" where
  "vk_signal_block signo s = s\<lparr>desired_set := insert signo (desired_set s)\<rparr>"

definition vk_signal_unblock :: "nat \<Rightarrow> sig_state \<Rightarrow> sig_state" where
  "vk_signal_unblock signo s = s\<lparr>desired_set := desired_set s - {signo}\<rparr>"

subsection \<open>The slot\<close>

definition vk_signal_send :: "nat \<Rightarrow> sig_state \<Rightarrow> sig_state" where
  "vk_signal_send signo s = s\<lparr>signo_slot := signo\<rparr>"

definition vk_signal_recv :: "sig_state \<Rightarrow> nat \<times> sig_state" where
  "vk_signal_recv s =
     (signo_slot s, if signo_slot s \<noteq> 0 then s\<lparr>signo_slot := 0\<rparr> else s)"

subsection \<open>The handlers\<close>

definition jumps_on :: "nat \<Rightarrow> bool" where
  "jumps_on signo \<longleftrightarrow> signo \<in> {SIGILL, SIGABRT, SIGFPE, SIGBUS, SIGSEGV, SIGSYS}"

definition vk_signal_handler ::
  "(bool \<Rightarrow> siginfo \<Rightarrow> sig_state \<Rightarrow> sig_ret) option \<Rightarrow> bool \<Rightarrow> nat \<Rightarrow> siginfo \<Rightarrow> sig_state \<Rightarrow> sig_ret" where
  "vk_signal_handler hook restored signo info s =
     (case vk_signal_restore restored s of
        (rc, s1) \<Rightarrow>
          if rc = - 1 then Resumes s1
          else (case (case hook of None \<Rightarrow> Resumes s1 | Some h \<Rightarrow> h (jumps_on signo) info s1) of
                  Resumes s2 \<Rightarrow> if jumps_on signo then Jumps (s2\<lparr>jump_info := Some info\<rparr>) else Resumes s2
                | r \<Rightarrow> r))"

text \<open>The line of a message ends in a newline in the place of its last character.\<close>

definition newline_end :: "int \<times> string \<Rightarrow> string" where
  "newline_end r = (snd r)[nat (fst r - 1) := CHR 0x0A]"

definition log_line :: "string \<Rightarrow> siginfo \<Rightarrow> string \<Rightarrow> sig_state \<Rightarrow> sig_state" where
  "log_line what info buf s =
     s\<lparr>stderr := stderr s @ [what @ decimal (si_signo_of info) @ '': '' @ buf @ [CHR 0x0A]]\<rparr>"

definition vk_kern_signal_handler ::
  "(addr \<Rightarrow> string) \<Rightarrow> (string \<Rightarrow> string) \<Rightarrow> bool \<Rightarrow> siginfo \<Rightarrow> sig_state \<Rightarrow> sig_ret" where
  "vk_kern_signal_handler pp dead jump info s =
     (let buf = newline_end (vk_signal_get_siginfo_str pp dead (Some info) 255)
      in if jump then Resumes s
         else if si_signo_of info \<in> {SIGINT, SIGQUIT, SIGSEGV}
         then Exits 0 (log_line ''Immediate exit due to signal '' info buf s)
         else if si_signo_of info = SIGTERM
         then Resumes (vk_signal_send (si_signo_of info)
                (log_line ''Exit request received via signal '' info buf s))
         else if si_signo_of info = SIGUSR1 then Resumes (vk_signal_send (si_signo_of info) s)
         else Resumes s)"

text \<open>The jumper outside of the execution of a process: a fault of the kernel is the end. \<open>kp\<close>
  is the printed pointer to the kernel.\<close>

definition vk_kern_signal_jumper ::
  "(addr \<Rightarrow> string) \<Rightarrow> (string \<Rightarrow> string) \<Rightarrow> string \<Rightarrow> siginfo \<Rightarrow> sig_state \<Rightarrow> sig_ret" where
  "vk_kern_signal_jumper pp dead kp info s =
     (let buf = newline_end (vk_signal_get_siginfo_str pp dead (Some info) 255)
      in Exits 1 (s\<lparr>stderr := stderr s @ [''Panic due to signal '' @ decimal (si_signo_of info) @
           '' in kernel '' @ kp @ '': '' @ buf @ [CHR 0x0A]]\<rparr>))"

subsection \<open>Registration\<close>

definition handled_signals :: "nat list" where
  "handled_signals =
     [SIGHUP, SIGINT, SIGQUIT, SIGTERM, SIGUSR1, SIGUSR2,
      SIGILL, SIGABRT, SIGFPE, SIGBUS, SIGSEGV, SIGSYS]"

text \<open>\<open>ok\<close> is which calls of \<open>sigaction\<close> succeed, by signal; the first failure is the last call.\<close>

fun sigactions :: "(nat \<Rightarrow> bool) \<Rightarrow> (nat \<times> disposition) list \<Rightarrow> sig_state \<Rightarrow> int \<times> sig_state" where
  "sigactions ok [] s = (0, s)"
| "sigactions ok ((n, d) # as) s =
     (if ok n then sigactions ok as (s\<lparr>os_action := (os_action s)(n := d)\<rparr>) else (- 1, s))"

definition vk_signal_register :: "(nat \<Rightarrow> bool) \<Rightarrow> bool \<Rightarrow> bool \<Rightarrow> sig_state \<Rightarrow> int \<times> sig_state" where
  "vk_signal_register ok restored saved s =
     (case sigactions ok (map (\<lambda>n. (n, Vk_action)) handled_signals @ [(SIGPIPE, Ignored)]) s of
        (rc, s1) \<Rightarrow>
          if rc = - 1 then (- 1, s1)
          else (case vk_signal_restore restored s1 of
                  (rc2, s2) \<Rightarrow> if rc2 = - 1 then (- 1, s2) else vk_signal_save saved s2))"

text \<open>The hooks are NULL after it, too.\<close>

definition vk_signal_init :: "(nat \<Rightarrow> bool) \<Rightarrow> bool \<Rightarrow> bool \<Rightarrow> sig_state \<Rightarrow> int \<times> sig_state" where
  "vk_signal_init ok restored saved s =
     vk_signal_register ok restored saved
       (s\<lparr>current_set := {}, desired_set := {}, signo_slot := 0, jump_info := None\<rparr>)"

subsection \<open>Mainline and jumper\<close>

text \<open>A function that runs under \<open>vk_signal_setjmp\<close> returns, or a signal jumps out of it.\<close>

datatype 'w cbk = Came_back 'w | Jumped 'w

fun rejump :: "nat \<Rightarrow> ('w \<Rightarrow> 'w cbk) \<Rightarrow> 'w cbk \<Rightarrow> 'w option" where
  "rejump n jumper (Came_back w) = Some w"
| "rejump 0 jumper (Jumped w) = None"
| "rejump (Suc n) jumper (Jumped w) = rejump n jumper (jumper w)"

text \<open>\<open>None\<close> is more jumps than the fuel \<open>n\<close>.\<close>

definition vk_signal_setjmp ::
  "nat \<Rightarrow> ('w \<Rightarrow> 'w cbk) option \<Rightarrow> ('w \<Rightarrow> 'w cbk) option \<Rightarrow> 'w \<Rightarrow> (errno + 'w) option" where
  "vk_signal_setjmp n jumper mainline w =
     (case jumper of
        None \<Rightarrow> Some (Inl ENOENT)
      | Some j \<Rightarrow> (case mainline of
          None \<Rightarrow> Some (Inl ENOENT)
        | Some m \<Rightarrow> map_option Inr (rejump n j (m w))))"

end
