(* ===== verification/Signal_Props.thy ===== *)
theory Signal_Props
  imports Signal
begin

text \<open>
  What the signal code gives: a message always fits the buffers of its callers, faults jump
  and nothing else does, a request of the user reaches the kernel through the slot when no
  later one overwrites it, and the registration covers every signal of the switch.
\<close>

subsection \<open>The messages fit\<close>

lemma map_of_list_all: "map_of xs k = Some v \<Longrightarrow> list_all P xs \<Longrightarrow> P (k, v)"
  by (auto simp: list_all_iff dest: map_of_SomeD)

lemma row_lengths:
  "list_all (\<lambda>(_, n, d). length n + length d \<le> 60) signal_rows"
  "list_all (\<lambda>(_, c, d). length c \<le> 13 \<and> length c + length d \<le> 80) (code_rows signo)"
  "list_all (\<lambda>(_, c, d). length c + length d \<le> 80) general_rows"
  by (simp_all add: signal_rows_def code_rows_def general_rows_def SIGILL_rows_def SIGFPE_rows_def
      SIGSEGV_rows_def SIGBUS_rows_def SIGTRAP_rows_def SIGCHLD_rows_def SIGPOLL_rows_def)

lemma signal_text_length: "length (fst (signal_text signo)) + length (snd (signal_text signo)) \<le> 60"
  using map_of_list_all [OF _ row_lengths(1), of signo]
  by (force simp: signal_text_def split: option.splits)

text \<open>An access fault at an address is the one signal whose detail is printed from the array of the fault address,
  which is out of its scope by then.\<close>

definition reads_dead :: "siginfo \<Rightarrow> bool" where
  "reads_dead i \<longleftrightarrow> si_signo_of i = SIGSEGV \<and> si_code i = SEGV_ACCERR \<and> si_addr i \<noteq> 0"

lemma code_text_length:
  assumes "\<not> reads_dead i"
  shows "length (fst (code_text pp dead i)) + length (snd (code_text pp dead i)) \<le> 80"
proof (cases "map_of general_rows (si_code i)")
  case (Some r)
  with map_of_list_all [OF Some row_lengths(3)] show ?thesis by (simp add: code_text_def Let_def split_beta)
next
  case None
  show ?thesis
  proof (cases "map_of (code_rows (si_signo_of i)) (si_code i)")
    case r: (Some r)
    with None assms map_of_list_all [OF r row_lengths(2)] show ?thesis
      by (auto simp: code_text_def reads_dead_def split_beta)
  qed (simp add: None code_text_def)
qed

lemma siginfo_line_bounds:
  assumes "\<not> reads_dead i"
  shows "length (siginfo_line pp dead (Some i)) \<le> 159" "siginfo_line pp dead (Some i) \<noteq> []"
  using code_text_length [OF assms, of pp dead] signal_text_length [of "si_signo_of i"]
  by (simp_all add: siginfo_line_def split_beta)

text \<open>C14: A signal message fits: whatever the signal, its code and its address, with the exception of an access fault at
  an address, the line is shorter than the buffer, so nothing is cut off, and the index the callers write the newline
  to is that of the last character. The exception is the defect of \<open>dead_detail_overflows\<close>.\<close>

theorem siginfo_message_fits:
  assumes "\<not> reads_dead info"
  shows "case vk_signal_get_siginfo_str pp dead (Some info) 255 of
    (rc, buf) \<Rightarrow> buf = siginfo_line pp dead (Some info) \<and> rc = int (length buf) \<and> 0 < rc \<and> rc < 255 \<and>
      newline_end (rc, buf) = butlast buf @ [CHR 0x0A]"
proof -
  let ?l = "siginfo_line pp dead (Some info)"
  have b: "length ?l \<le> 159" "?l \<noteq> []" using siginfo_line_bounds [OF assms] by simp_all
  then have i: "nat (int (length ?l) - 1) = length ?l - 1" "0 < length ?l" by simp_all
  have "?l[length ?l - 1 := x] = butlast ?l @ [x]" for x
    using list_update_append [of "butlast ?l" "[last ?l]" "length ?l - 1" x] b(2) by simp
  with b i show ?thesis by (simp add: vk_signal_get_siginfo_str_def newline_end_def Let_def)
qed

lemma siginfo_message_fits_witness:
  "\<forall>dead. case vk_signal_get_siginfo_str (\<lambda>_. ''0x10'') dead (Some \<lparr>si_signo_of = 11, si_code = 1, si_addr = 16\<rparr>) 255 of
    (rc, buf) \<Rightarrow> buf = siginfo_line (\<lambda>_. ''0x10'') dead (Some \<lparr>si_signo_of = 11, si_code = 1, si_addr = 16\<rparr>) \<and>
      rc = int (length buf) \<and> 0 < rc \<and> rc < 255 \<and> newline_end (rc, buf) = butlast buf @ [CHR 0x0A]"
  by (intro allI siginfo_message_fits) (simp add: reads_dead_def sig_defs)

text \<open>What the message of an access fault holds is up to the memory that the array has left: if the string found there
  is long, the length returned is past the buffer of \<open>256\<close> bytes, and the callers write their newline behind its end.\<close>

theorem dead_detail_overflows:
  assumes "reads_dead info" "256 \<le> length (dead (fault_text pp (si_addr info)))"
  shows "256 < fst (vk_signal_get_siginfo_str pp dead (Some info) 255)"
proof -
  have "map_of general_rows (si_code info) = None" "map_of (code_rows (si_signo_of info)) (si_code info) \<noteq> None"
    using assms(1) by (simp_all add: reads_dead_def general_rows_def code_rows_def SIGSEGV_rows_def sig_defs)
  then have "snd (code_text pp dead info) = dead (fault_text pp (si_addr info))"
    using assms(1) by (auto simp: code_text_def reads_dead_def)
  then show ?thesis using assms(2) by (simp add: vk_signal_get_siginfo_str_def siginfo_line_def split_beta)
qed

lemma dead_detail_overflows_witness:
  "256 < fst (vk_signal_get_siginfo_str (\<lambda>_. ''0x10'') (\<lambda>_. replicate 300 CHR 0x41)
     (Some \<lparr>si_signo_of = 11, si_code = 2, si_addr = 16\<rparr>) 255)"
  by (rule dead_detail_overflows) (simp_all add: reads_dead_def sig_defs)

text \<open>The address of a fault replaces the description of the fault.\<close>

lemma fault_detail_replaced:
  "siginfo_line (\<lambda>_. ''0x10'') id (Some \<lparr>si_signo_of = 11, si_code = 2, si_addr = 16\<rparr>) =
    ''Signal SIGSEGV: Invalid memory reference. - Code SEGV_ACCERR:  Fault address: 0x10.''"
  by code_simp

text \<open>A code of the general switch hides the code of the signal.\<close>

lemma general_code_wins:
  "map_of general_rows (si_code i) = Some r \<Longrightarrow> code_text pp dead i = r"
  by (simp add: code_text_def)

subsection \<open>What a delivered signal does\<close>

text \<open>The signals that a program raises by its own error, from which the code cannot be resumed.\<close>

definition error_signals :: "nat set" where
  "error_signals = {4, 6, 7, 8, 11, 31}"

definition kern_hook :: "(addr \<Rightarrow> string) \<Rightarrow> (string \<Rightarrow> string) \<Rightarrow> (bool \<Rightarrow> siginfo \<Rightarrow> sig_state \<Rightarrow> sig_ret) option" where
  "kern_hook pp dead = Some (vk_kern_signal_handler pp dead)"

text \<open>C12: With the hook of the kernel installed, the outcome of every signal: the six error
  signals jump to the jumper with their information kept, \<open>SIGINT\<close> and \<open>SIGQUIT\<close> end the
  program, \<open>SIGTERM\<close> and \<open>SIGUSR1\<close> are left in the slot, and any other changes nothing but
  the mask. The slot is not touched by a fault.\<close>

theorem kernel_signal_outcome:
  assumes "si_signo_of info = signo"
  shows "case vk_signal_handler (kern_hook pp dead) True signo info s of
      Jumps s' \<Rightarrow> signo \<in> error_signals \<and> jump_info s' = Some info \<and> signo_slot s' = signo_slot s
    | Exits rc s' \<Rightarrow> rc = 0 \<and> signo \<in> {SIGINT, SIGQUIT}
    | Resumes s' \<Rightarrow> signo \<notin> error_signals \<and> signo \<notin> {SIGINT, SIGQUIT} \<and> jump_info s' = jump_info s \<and>
        os_mask s' = desired_set s \<and>
        signo_slot s' = (if signo \<in> {SIGTERM, SIGUSR1} then signo else signo_slot s)"
  using assms
  by (auto simp: vk_signal_handler_def vk_signal_restore_def kern_hook_def vk_kern_signal_handler_def Let_def
      jumps_on_def error_signals_def sig_defs SIGTERM_def vk_signal_send_def log_line_def)

definition calm_signals :: sig_state where
  "calm_signals = \<lparr>current_set = {}, desired_set = {}, signo_slot = 0, jump_info = None, os_mask = {},
     os_action = (\<lambda>_. Default), stderr = []\<rparr>"

lemma kernel_signal_outcome_witness:
  "case vk_signal_handler (kern_hook (\<lambda>_. []) id) True 11 \<lparr>si_signo_of = 11, si_code = 1, si_addr = 16\<rparr> calm_signals of
      Jumps s' \<Rightarrow> 11 \<in> error_signals \<and> jump_info s' = Some \<lparr>si_signo_of = 11, si_code = 1, si_addr = 16\<rparr> \<and>
        signo_slot s' = signo_slot calm_signals
    | Exits rc s' \<Rightarrow> rc = 0 \<and> 11 \<in> {SIGINT, SIGQUIT}
    | Resumes s' \<Rightarrow> 11 \<notin> error_signals \<and> 11 \<notin> {SIGINT, SIGQUIT} \<and> jump_info s' = jump_info calm_signals \<and>
        os_mask s' = desired_set calm_signals \<and>
        signo_slot s' = (if 11 \<in> {SIGTERM, SIGUSR1} then 11 else signo_slot calm_signals)"
  by (rule kernel_signal_outcome) simp

text \<open>The signals that arrive between two looks of the kernel at the slot.\<close>

fun arrivals :: "(addr \<Rightarrow> string) \<Rightarrow> (string \<Rightarrow> string) \<Rightarrow> siginfo list \<Rightarrow> sig_state \<Rightarrow> sig_ret" where
  "arrivals pp dead [] s = Resumes s"
| "arrivals pp dead (i # is) s =
     (case vk_signal_handler (kern_hook pp dead) True (si_signo_of i) i s of
        Resumes s' \<Rightarrow> arrivals pp dead is s' | r \<Rightarrow> r)"

definition slotted :: "siginfo \<Rightarrow> bool" where
  "slotted i \<longleftrightarrow> si_signo_of i \<in> {SIGTERM, SIGUSR1}"

definition passing :: "siginfo \<Rightarrow> bool" where
  "passing i \<longleftrightarrow> \<not> jumps_on (si_signo_of i) \<and> si_signo_of i \<notin> {SIGINT, SIGQUIT}"

lemma passing_resumes:
  assumes "passing i"
  shows "\<exists>s'. vk_signal_handler (kern_hook pp dead) True (si_signo_of i) i s = Resumes s' \<and>
    signo_slot s' = (if slotted i then si_signo_of i else signo_slot s)"
  using assms
  by (auto simp: vk_signal_handler_def vk_signal_restore_def kern_hook_def vk_kern_signal_handler_def Let_def
      jumps_on_def sig_defs SIGTERM_def vk_signal_send_def log_line_def passing_def slotted_def)

lemma arrivals_slot:
  "list_all passing is \<Longrightarrow> \<exists>s'. arrivals pp dead is s = Resumes s' \<and>
     signo_slot s' = last (signo_slot s # map si_signo_of (filter slotted is))"
proof (induction "is" arbitrary: s)
  case (Cons i "is")
  then have "passing i" by simp
  then obtain s1 where s1: "vk_signal_handler (kern_hook pp dead) True (si_signo_of i) i s = Resumes s1"
    "signo_slot s1 = (if slotted i then si_signo_of i else signo_slot s)"
    using passing_resumes by blast
  from Cons obtain s' where "arrivals pp dead is s1 = Resumes s'"
    "signo_slot s' = last (signo_slot s1 # map si_signo_of (filter slotted is))"
    by fastforce
  with s1 show ?case by simp
qed simp

text \<open>C13: A \<open>SIGTERM\<close> that arrives becomes a shutdown request at the kernel's next look
  exactly when no \<open>SIGUSR1\<close> has come after it: of all signals of a turn only the last is
  in the slot, the slot is empty afterwards, and a shutdown requested before stays so.\<close>

theorem arrivals_reach_kernel:
  assumes "list_all passing is" "signo_slot s = 0"
  shows "\<exists>s'. arrivals pp dead is s = Resumes s' \<and> signo_slot (snd (vk_signal_recv s')) = 0 \<and>
    (shutdown_requested (k_kern (vk_kern_receive_signal (fst (vk_signal_recv s')) k)) \<longleftrightarrow>
      shutdown_requested (k_kern k) \<or>
      filter slotted is \<noteq> [] \<and> si_signo_of (last (filter slotted is)) = SIGTERM)"
proof -
  obtain s' where s': "arrivals pp dead is s = Resumes s'"
    "signo_slot s' = last (signo_slot s # map si_signo_of (filter slotted is))"
    using arrivals_slot [OF assms(1)] by blast
  have "signo_slot s' = (if filter slotted is = [] then 0 else si_signo_of (last (filter slotted is)))"
    using s'(2) assms(2) by (simp add: last_map)
  with s'(1) show ?thesis
    by (auto simp: vk_signal_recv_def vk_kern_receive_signal_def vk_kern_sync_signal_handler_def SIGTERM_def
        upd_kern_def)
qed

lemma arrivals_reach_kernel_witness:
  "\<forall>k. \<exists>s'. arrivals (\<lambda>_. []) id [\<lparr>si_signo_of = 15, si_code = 0, si_addr = 0\<rparr>, \<lparr>si_signo_of = 10, si_code = 0, si_addr = 0\<rparr>]
      calm_signals = Resumes s' \<and> signo_slot (snd (vk_signal_recv s')) = 0 \<and>
    (shutdown_requested (k_kern (vk_kern_receive_signal (fst (vk_signal_recv s')) k)) \<longleftrightarrow> shutdown_requested (k_kern k))"
    (is "\<forall>k. ?P k")
proof (rule allI)
  show "?P k" for k
    using arrivals_reach_kernel [of "[\<lparr>si_signo_of = 15, si_code = 0, si_addr = 0\<rparr>, \<lparr>si_signo_of = 10, si_code = 0, si_addr = 0\<rparr>]"
      calm_signals "\<lambda>_. []" id k]
    by (simp add: passing_def jumps_on_def sig_defs calm_signals_def slotted_def SIGTERM_def)
qed

subsection \<open>Registration\<close>

lemma sigactions_rc: "fst (sigactions ok as s) = (if list_all (\<lambda>a. ok (fst a)) as then 0 else - 1)"
  by (induction ok as s rule: sigactions.induct) auto

lemma sigactions_sel:
  "os_mask (snd (sigactions ok as s)) = os_mask s" "desired_set (snd (sigactions ok as s)) = desired_set s"
  "signo_slot (snd (sigactions ok as s)) = signo_slot s"
  by (induction ok as s rule: sigactions.induct) auto

lemma sigactions_action:
  "list_all (\<lambda>a. ok (fst a)) as \<Longrightarrow>
   os_action (snd (sigactions ok as s)) n = (case map_of (rev as) n of Some d \<Rightarrow> d | None \<Rightarrow> os_action s n)"
  by (induction ok as s rule: sigactions.induct) (auto simp: map_add_def split: option.splits)

text \<open>After a successful start every signal the switch names is handled, \<open>SIGPIPE\<close> is ignored,
  the slot is empty, and no signal is blocked: also those are unblocked that the program
  was started with blocked, for the mask is set before it is saved for the first time.\<close>

lemma signal_init_ok:
  assumes "\<forall>n. ok n"
  shows "case vk_signal_init ok True True s of (rc, s') \<Rightarrow> rc = 0 \<and>
    (\<forall>n \<in> set handled_signals. os_action s' n = Vk_action) \<and> os_action s' SIGPIPE = Ignored \<and>
    signo_slot s' = 0 \<and> os_mask s' = {} \<and> desired_set s' = {}"
  using assms sigactions_rc [of ok] sigactions_action [of ok] sigactions_sel [of ok]
  by (auto simp: vk_signal_init_def vk_signal_register_def vk_signal_restore_def vk_signal_save_def
      list_all_iff split_beta handled_signals_def sig_defs SIGTERM_def)

text \<open>A failed registration is reported.\<close>

lemma signal_init_failure:
  "(\<exists>n \<in> insert SIGPIPE (set handled_signals). \<not> ok n) \<Longrightarrow> fst (vk_signal_init ok r sv s) = - 1"
  using sigactions_rc [of ok "map (\<lambda>n. (n, Vk_action)) handled_signals @ [(SIGPIPE, Ignored)]"]
  by (auto simp: vk_signal_init_def vk_signal_register_def list_all_iff split_beta)

subsection \<open>Jumps end\<close>

text \<open>When each jump lowers a measure, the mainline or the jumper comes back, after at most as
  many jumps as the measure at the first of them.\<close>

lemma rejump_ends:
  fixes m :: "'w \<Rightarrow> nat"
  assumes "\<And>w w'. jumper w = Jumped w' \<Longrightarrow> m w' < m w"
  shows "m w < n \<Longrightarrow> \<exists>w'. rejump n jumper (Jumped w) = Some w'"
proof (induction n arbitrary: w)
  case (Suc n)
  show ?case
  proof (cases "jumper w")
    case (Jumped w1)
    with Suc assms [OF Jumped] show ?thesis by simp
  qed simp
qed simp

lemma setjmp_ends:
  fixes m :: "'w \<Rightarrow> nat"
  assumes "\<And>w w'. jumper w = Jumped w' \<Longrightarrow> m w' < m w" "\<And>w'. mainline w = Jumped w' \<Longrightarrow> m w' < n"
  shows "\<exists>w'. vk_signal_setjmp n (Some jumper) (Some mainline) w = Some (Inr w')"
  using rejump_ends [OF assms(1)] assms(2)
  by (cases "mainline w") (force simp: vk_signal_setjmp_def)+

end
