(* ===== verification/Isolate.thy ===== *)
theory Isolate
  imports Heap Scheduler
begin

text \<open>
  The isolation of a coroutine's time slice (src/vk_isolate.c, src/vk_isolate_s.h). An
  instance masks the privileged regions, tells the system to trap system calls, runs the
  coroutine and opens the gate again: when the coroutine returns or yields, when one of its
  system calls traps, or when a fault jumped out of it.

  The thread the instance runs on is \<open>'w iso_thread\<close>: the three thread-local variables,
  the instance, the protections the system holds for its pages (4096 bytes each, as
  everywhere in the sources), what the system let through, and the world \<open>'w\<close> that the
  coroutine and the scheduler callback work on. The selector byte is on a page of the
  instance, \<open>sud_switch\<close> is \<open>None\<close> for the NULL pointer and the byte otherwise; \<open>dispatched\<close> is
  whether the system still consults the selector for this thread, which the coroutine can
  end with a system call of its own.
\<close>

subsection \<open>State\<close>

definition SYSCALL_DISPATCH_FILTER_BLOCK :: byte where "SYSCALL_DISPATCH_FILTER_BLOCK = 0"
definition SYSCALL_DISPATCH_FILTER_ALLOW :: byte where "SYSCALL_DISPATCH_FILTER_ALLOW = 1"

record vk_priv_region =
  region_addr :: addr
  region_len :: size_t
  prot_when_unmasked :: prot

record 'w vk_isolate =
  cb :: "(addr \<Rightarrow> 'w \<Rightarrow> 'w) option"
  user_state :: addr
  regions :: "vk_priv_region list"
  sud_supported :: bool
  sud_enabled :: bool
  sud_switch :: "byte option"
  sud_switch_page :: addr
  sud_switch_len :: size_t
  libc_start :: addr
  libc_size :: size_t
  altstack_sp :: addr
  altstack_size :: size_t
  have_altstack :: bool

record 'w iso_thread =
  t_in_isolated_window :: bool
  t_in_sigsys_handler :: bool
  t_current :: bool
  pages :: "nat \<Rightarrow> prot"
  dispatched :: bool
  accessed :: "addr list"
  called :: "addr list"
  iso :: "'w vk_isolate"
  iso_world :: 'w

text \<open>What the instance does to its thread, field by field.\<close>

definition upd_iso :: "('w vk_isolate \<Rightarrow> 'w vk_isolate) \<Rightarrow> 'w iso_thread \<Rightarrow> 'w iso_thread" where
  "upd_iso f s = s\<lparr>iso := f (iso s)\<rparr>"

subsection \<open>Masking the regions\<close>

definition page_of :: "addr \<Rightarrow> nat" where
  "page_of a = unat a div 4096"

definition in_region :: "vk_priv_region \<Rightarrow> nat \<Rightarrow> bool" where
  "in_region r p \<longleftrightarrow> unat (region_addr r) div 4096 \<le> p \<and>
     p < (unat (region_addr r) + unat (region_len r) + 4095) div 4096"

text \<open>\<open>mprotect\<close>, whose outcome the code does not look at: \<open>allowed r\<close> is whether the
  system grants changes of the region's pages. An address that is not the start of a page
  is always refused.\<close>

definition os_mprotect ::
  "(vk_priv_region \<Rightarrow> bool) \<Rightarrow> vk_priv_region \<Rightarrow> prot \<Rightarrow> (nat \<Rightarrow> prot) \<Rightarrow> nat \<Rightarrow> prot" where
  "os_mprotect allowed r p pg =
     (if unat (region_addr r) mod 4096 = 0 \<and> allowed r
      then (\<lambda>i. if in_region r i then p else pg i) else pg)"

text \<open>\<open>prot\<close> is \<open>None\<close> for the negative argument that selects the region's own protection.\<close>

definition mask_regions ::
  "(vk_priv_region \<Rightarrow> bool) \<Rightarrow> prot option \<Rightarrow> 'w iso_thread \<Rightarrow> 'w iso_thread" where
  "mask_regions allowed p s =
     s\<lparr>pages := fold (\<lambda>r. os_mprotect allowed r (case p of Some q \<Rightarrow> q | None \<Rightarrow> prot_when_unmasked r))
                  (regions (iso s)) (pages s)\<rparr>"

subsection \<open>The gate of the system calls\<close>

definition sud_set :: "byte \<Rightarrow> 'w iso_thread \<Rightarrow> 'w iso_thread" where
  "sud_set v = upd_iso (\<lambda>vk. if sud_enabled vk \<and> sud_switch vk \<noteq> None then vk\<lparr>sud_switch := Some v\<rparr> else vk)"

definition sud_block_syscalls :: "'w iso_thread \<Rightarrow> 'w iso_thread" where
  "sud_block_syscalls = sud_set SYSCALL_DISPATCH_FILTER_BLOCK"

definition sud_allow_syscalls :: "'w iso_thread \<Rightarrow> 'w iso_thread" where
  "sud_allow_syscalls = sud_set SYSCALL_DISPATCH_FILTER_ALLOW"

definition run_cb :: "'w iso_thread \<Rightarrow> 'w iso_thread" where
  "run_cb s = (case cb (iso s) of None \<Rightarrow> s | Some f \<Rightarrow> s\<lparr>iso_world := f (user_state (iso s)) (iso_world s)\<rparr>)"

text \<open>The steps that every way out of the window shares, in the order of the code.\<close>

definition open_gate :: "(vk_priv_region \<Rightarrow> bool) \<Rightarrow> 'w iso_thread \<Rightarrow> 'w iso_thread" where
  "open_gate allowed s =
     (mask_regions allowed None (sud_allow_syscalls s))\<lparr>t_in_isolated_window := False\<rparr>"

definition vk_sigsys_handler :: "(vk_priv_region \<Rightarrow> bool) \<Rightarrow> 'w iso_thread \<Rightarrow> 'w iso_thread" where
  "vk_sigsys_handler allowed s =
     (if \<not> t_current s \<or> t_in_sigsys_handler s then s
      else (run_cb (open_gate allowed (s\<lparr>t_in_sigsys_handler := True\<rparr>)))\<lparr>t_in_sigsys_handler := False\<rparr>)"

definition vk_isolate_on_signal :: "(vk_priv_region \<Rightarrow> bool) \<Rightarrow> 'w iso_thread \<Rightarrow> 'w iso_thread" where
  "vk_isolate_on_signal = open_gate"

definition vk_isolate_yield :: "(vk_priv_region \<Rightarrow> bool) \<Rightarrow> 'w iso_thread \<Rightarrow> 'w iso_thread" where
  "vk_isolate_yield allowed s =
     (if \<not> t_in_isolated_window s then run_cb s else run_cb (open_gate allowed s))"

subsection \<open>The coroutine in the window\<close>

text \<open>
  The code of the coroutine is not the isolation's. What it does while it runs is the
  sequence of its computations, of its accesses to addresses, of its system call
  instructions (named by their address) and of its calls of \<open>vk_isolate_yield\<close>. The system
  decides at each one: an access to a page without protection bits faults, a system call
  outside of the allowed range traps when the selector says so. A system call that is let
  through does what it is for, also to the isolation: \<open>mprotect\<close> changes the protections of
  pages, \<open>prctl\<close> ends the dispatch to the selector. A computation is \<open>None\<close> when it does not
  return.
\<close>

type_synonym syscall_effect = "(nat \<Rightarrow> prot) \<times> bool \<Rightarrow> (nat \<Rightarrow> prot) \<times> bool"

datatype 'w act = Compute "'w \<Rightarrow> 'w option" | Access addr | Syscall addr syscall_effect | Yield

definition os_call :: "syscall_effect \<Rightarrow> 'w iso_thread \<Rightarrow> 'w iso_thread" where
  "os_call e s = (case e (pages s, dispatched s) of (pg, d) \<Rightarrow> s\<lparr>pages := pg, dispatched := d\<rparr>)"

datatype 'w ran = Back "'w iso_thread" | Faulted "'w iso_thread" | Lost

definition traps :: "addr \<Rightarrow> 'w iso_thread \<Rightarrow> bool" where
  "traps pc s \<longleftrightarrow> dispatched s \<and> sud_enabled (iso s) \<and>
     sud_switch (iso s) = Some SYSCALL_DISPATCH_FILTER_BLOCK \<and> \<not> pc - libc_start (iso s) < libc_size (iso s)"

fun run_actor :: "(vk_priv_region \<Rightarrow> bool) \<Rightarrow> 'w act list \<Rightarrow> 'w iso_thread \<Rightarrow> 'w ran" where
  "run_actor allowed [] s = Back s"
| "run_actor allowed (Compute f # as) s =
     (case f (iso_world s) of None \<Rightarrow> Lost | Some w \<Rightarrow> run_actor allowed as (s\<lparr>iso_world := w\<rparr>))"
| "run_actor allowed (Access a # as) s =
     (if pages s (page_of a) = PROT_NONE then Faulted s
      else run_actor allowed as (s\<lparr>accessed := accessed s @ [a]\<rparr>))"
| "run_actor allowed (Syscall pc e # as) s =
     (if traps pc s then run_actor allowed as (vk_sigsys_handler allowed s)
      else run_actor allowed as (os_call e (s\<lparr>called := called s @ [pc]\<rparr>)))"
| "run_actor allowed (Yield # as) s = run_actor allowed as (vk_isolate_yield allowed s)"

definition enter_window :: "(vk_priv_region \<Rightarrow> bool) \<Rightarrow> 'w iso_thread \<Rightarrow> 'w iso_thread" where
  "enter_window allowed s =
     (sud_block_syscalls (mask_regions allowed (Some PROT_NONE) (s\<lparr>t_current := True\<rparr>)))
       \<lparr>t_in_isolated_window := True\<rparr>"

text \<open>\<open>actor\<close> is \<open>None\<close> for a NULL function. A fault jumps out of the call, to the
  jumper, which opens the gate with \<open>vk_isolate_on_signal\<close>.\<close>

definition vk_isolate_continue ::
  "(vk_priv_region \<Rightarrow> bool) \<Rightarrow> 'w act list option \<Rightarrow> 'w iso_thread \<Rightarrow> 'w ran" where
  "vk_isolate_continue allowed actor s =
     (case actor of
        None \<Rightarrow> Back s
      | Some as \<Rightarrow>
          (case run_actor allowed as (enter_window allowed s) of
             Back s1 \<Rightarrow> Back (if t_in_isolated_window s1 then vk_isolate_yield allowed s1 else s1)
           | r \<Rightarrow> r))"

subsection \<open>Finding the C library\<close>

text \<open>What the dynamic linker reports of an object: its name (\<open>None\<close> for NULL), its base,
  and of each program header whether it is \<open>PT_LOAD\<close>, its address and its size.\<close>

record phdr =
  pt_load :: bool
  p_vaddr :: addr
  p_memsz :: size_t

record dl_phdr_info =
  dlpi_name :: "string option"
  dlpi_addr :: addr
  dlpi_phdr :: "phdr list"

fun strstr :: "string \<Rightarrow> string \<Rightarrow> bool" where
  "strstr [] n = (n = [])"
| "strstr (c # cs) n = (take (length n) (c # cs) = n \<or> strstr cs n)"

definition seg_bounds :: "addr \<Rightarrow> phdr \<Rightarrow> addr \<times> addr \<Rightarrow> addr \<times> addr" where
  "seg_bounds base ph b =
     (if pt_load ph
      then (let start = base + p_vaddr ph; e = start + p_memsz ph
            in (if start < fst b then start else fst b, if e > snd b then e else snd b))
      else b)"

text \<open>\<open>None\<close> goes on to the next object, \<open>Some\<close> stops with the start and the size.\<close>

definition phdr_cb :: "dl_phdr_info \<Rightarrow> (addr \<times> size_t) option" where
  "phdr_cb info =
     (case dlpi_name info of
        None \<Rightarrow> None
      | Some n \<Rightarrow>
          if n = [] \<or> \<not> strstr n ''libc'' then None
          else (let b = fold (seg_bounds (dlpi_addr info)) (dlpi_phdr info) (- 1, 0)
                in if fst b < snd b then Some (fst b, snd b - fst b) else None))"

fun dl_iterate_phdr :: "dl_phdr_info list \<Rightarrow> addr \<times> size_t" where
  "dl_iterate_phdr [] = (0, 0)"
| "dl_iterate_phdr (i # is) = (case phdr_cb i of Some r \<Rightarrow> r | None \<Rightarrow> dl_iterate_phdr is)"

definition detect_libc_range :: "dl_phdr_info list \<Rightarrow> 'w vk_isolate \<Rightarrow> 'w vk_isolate" where
  "detect_libc_range objs vk =
     vk\<lparr>libc_start := fst (dl_iterate_phdr objs), libc_size := snd (dl_iterate_phdr objs)\<rparr>"

subsection \<open>Creating, configuring and destroying an instance\<close>

text \<open>What the system answers while an instance is made.\<close>

record create_os =
  calloc_ok :: bool
  stack_map :: "addr option"
  sigaltstack_ok :: bool
  env_sud :: "string option"
  env_mode :: "string option"
  loaded :: "dl_phdr_info list"
  page_size :: size_t
  page_map :: "addr option"
  prctl_rc :: int

definition fresh_isolate :: "'w vk_isolate" where
  "fresh_isolate =
     \<lparr>cb = None, user_state = 0, regions = [], sud_supported = False, sud_enabled = False,
      sud_switch = None, sud_switch_page = 0, sud_switch_len = 0, libc_start = 0, libc_size = 0,
      altstack_sp = 0, altstack_size = 0, have_altstack = False\<rparr>"

definition install_sigsys_handler :: "create_os \<Rightarrow> 'w vk_isolate \<Rightarrow> 'w vk_isolate" where
  "install_sigsys_handler os vk =
     (case stack_map os of
        None \<Rightarrow> vk
      | Some stk \<Rightarrow> vk\<lparr>altstack_sp := stk, altstack_size := 65536,
                       have_altstack := have_altstack vk \<or> sigaltstack_ok os\<rparr>)"

definition sud_user_disable :: "create_os \<Rightarrow> bool" where
  "sud_user_disable os \<longleftrightarrow>
     (case env_sud os of Some (c # _) \<Rightarrow> c \<in> {CHR ''0'', CHR ''n'', CHR ''N''} | _ \<Rightarrow> False) \<or>
     (case env_mode os of Some (c # _) \<Rightarrow> c \<in> {CHR ''m'', CHR ''M''} | _ \<Rightarrow> False)"

definition vk_isolate_create :: "create_os \<Rightarrow> 'w vk_isolate option" where
  "vk_isolate_create os =
     (if \<not> calloc_ok os then None
      else (let vk = detect_libc_range (loaded os) (install_sigsys_handler os fresh_isolate);
                mapped = \<not> sud_user_disable os \<and> page_map os \<noteq> None;
                vk1 = (if mapped
                       then vk\<lparr>sud_switch_page := the (page_map os), sud_switch_len := page_size os,
                               sud_switch := Some SYSCALL_DISPATCH_FILTER_ALLOW\<rparr>
                       else vk);
                rc = (if mapped then prctl_rc os else - 1)
            in Some (if rc = 0
                     then vk1\<lparr>sud_supported := True, sud_enabled := True,
                              sud_switch := Some SYSCALL_DISPATCH_FILTER_ALLOW\<rparr>
                     else vk1\<lparr>sud_supported := False, sud_enabled := False\<rparr>)))"

text \<open>The mappings that the destruction of an instance gives back.\<close>

definition vk_isolate_destroy :: "'w vk_isolate option \<Rightarrow> (addr \<times> size_t) list" where
  "vk_isolate_destroy v =
     (case v of
        None \<Rightarrow> []
      | Some vk \<Rightarrow>
          (if have_altstack vk then [(altstack_sp vk, altstack_size vk)] else []) @
          (if sud_switch_page vk \<noteq> 0 then [(sud_switch_page vk, sud_switch_len vk)] else []))"

definition vk_isolate_set_scheduler ::
  "(addr \<Rightarrow> 'w \<Rightarrow> 'w) option \<Rightarrow> addr \<Rightarrow> 'w vk_isolate option \<Rightarrow> int \<times> 'w vk_isolate option" where
  "vk_isolate_set_scheduler f ud v =
     (case v of None \<Rightarrow> (- 1, None) | Some vk \<Rightarrow> (0, Some (vk\<lparr>cb := f, user_state := ud\<rparr>)))"

definition vk_isolate_set_regions ::
  "bool \<Rightarrow> vk_priv_region list \<Rightarrow> 'w vk_isolate option \<Rightarrow> int \<times> 'w vk_isolate option" where
  "vk_isolate_set_regions granted rs v =
     (case v of
        None \<Rightarrow> (- 1, None)
      | Some vk \<Rightarrow> if rs = [] then (0, Some (vk\<lparr>regions := []\<rparr>))
                  else if granted then (0, Some (vk\<lparr>regions := rs\<rparr>))
                  else (- 1, Some (vk\<lparr>regions := []\<rparr>)))"

definition vk_isolate_syscall_trap_active :: "'w vk_isolate option \<Rightarrow> bool" where
  "vk_isolate_syscall_trap_active v \<longleftrightarrow> (case v of None \<Rightarrow> False | Some vk \<Rightarrow> sud_enabled vk)"

subsection \<open>The callback of the kernel\<close>

text \<open>The world is that of the process that runs; \<open>ud\<close> is NULL or its \<open>vk_proc_local\<close>
  (src/vk_kern.c). Only a coroutine that yields is put back into the run queue.\<close>

definition vk_isolate_scheduler_cb :: "addr \<Rightarrow> vk_world \<Rightarrow> vk_world" where
  "vk_isolate_scheduler_cb ud w =
     (let that = running_cr (w_local w)
      in if ud = 0 \<or> that = 0 then w
         else if vk_is_yielding (w_thread w that) then vk_proc_local_enqueue_run that w else w)"

definition vk_kern_set_isolate_user_state ::
  "addr \<Rightarrow> vk_world vk_isolate option \<Rightarrow> vk_world vk_isolate option" where
  "vk_kern_set_isolate_user_state pl v =
     (case v of None \<Rightarrow> None
      | Some _ \<Rightarrow> snd (vk_isolate_set_scheduler (Some vk_isolate_scheduler_cb) pl v))"

end
