(* ===== verification/Kern_Fault.thy ===== *)
theory Kern_Fault
  imports Signal Isolate Kern_Safe
begin

text \<open>
  A fault inside a process (src/vk_kern.c): the jumper that \<open>vk_kern_execute_proc\<close> installs
  opens the kernel's heap and the gate of the isolation, opens the heap of the process,
  stores the signal in it and executes the process again, which raises the signal in the
  coroutine that ran. The gates of the kernel work on the copy \<open>kh\<close> of its heap record.
\<close>

definition vk_kern_get_isolate :: "'w vk_isolate option option \<Rightarrow> 'w vk_isolate option" where
  "vk_kern_get_isolate kern = (case kern of None \<Rightarrow> None | Some v \<Rightarrow> v)"

text \<open>The world and the instance as the jumper leaves them to the mainline; \<open>rets\<close> are the
  outcomes of its two changes of protection.\<close>

definition jumper_world ::
  "(nat \<Rightarrow> errno + unit) \<Rightarrow> vk_heap \<Rightarrow> size_t \<Rightarrow> siginfo \<Rightarrow> kern_world \<Rightarrow> kern_world" where
  "jumper_world rets kh p info k =
     (case vk_heap_enter kh (k_kern_prot k) (rets 0) of
        (_, pr, _) \<Rightarrow>
          (let k1 = snd (enter_proc_heap (rets 1) p (k\<lparr>k_kern_prot := pr\<rparr>))
           in set_local p (upd_local (\<lambda>l. l\<lparr>si_signo := int (si_signo_of info)\<rparr>) (k_local k1 p)) k1))"

definition vk_proc_execute_jumper ::
  "app \<Rightarrow> (vk_priv_region \<Rightarrow> bool) \<Rightarrow> (nat \<Rightarrow> errno + unit) \<Rightarrow> vk_heap \<Rightarrow> size_t \<Rightarrow> siginfo \<Rightarrow>
   'w iso_thread option \<Rightarrow> kern_world \<Rightarrow> 'w iso_thread option \<times> kern_result" where
  "vk_proc_execute_jumper a allowed rets kh p info it k =
     (map_option (vk_isolate_on_signal allowed) it,
      vk_proc_execute_mainline a p (jumper_world rets kh p info k))"

subsection \<open>The process is executed with the signal raised\<close>

definition catcher :: "vk_proc_local \<Rightarrow> addr" where
  "catcher l = (if supervisor_cr l \<noteq> 0 then supervisor_cr l else running_cr l)"

lemma raise_signal_eq:
  "running_cr (w_local w) \<noteq> 0 \<Longrightarrow> vk_proc_local_raise_signal l c w =
     (True, vk_raise_at l c (catcher (w_local w)) EFAULT (vk_proc_local_enqueue_run (catcher (w_local w)) w))"
  by (simp add: vk_proc_local_raise_signal_def catcher_def Let_def)

lemma jumper_world_sel:
  "k_local (jumper_world rets kh p info k) q =
     (if q = p then upd_local (\<lambda>l. l\<lparr>si_signo := int (si_signo_of info)\<rparr>) (k_local k p) else k_local k q)"
  "has_local (k_proc (jumper_world rets kh p info k) q) = has_local (k_proc k q)"
  "k_table (jumper_world rets kh p info k) = k_table k"
  by (auto simp: jumper_world_def enter_proc_heap_def set_local_def split_beta Let_def)

text \<open>The heap record and the world of the process as the fault leaves them to the execution. The coroutine that
  catches the fault is in the error state with \<open>EFAULT\<close>, and put on the run queue if it was not there and has not
  ended; the signal is stored for it.\<close>

definition opened :: "vk_heap \<Rightarrow> vk_heap" where
  "opened hp = hp\<lparr>mapping := (mapping hp)\<lparr>map_prot := prot_inside hp\<rparr>\<rparr>"

definition caught :: "size_t \<Rightarrow> int \<Rightarrow> int \<Rightarrow> vk_world \<Rightarrow> vk_world" where
  "caught line counter sig w =
     (let t = catcher (w_local w);
          th = w_thread w t;
          new = th_status th \<noteq> VK_PROC_END \<and> \<not> run_enq th
      in w\<lparr>w_thread := (w_thread w)(t := th\<lparr>th_status := VK_PROC_ERR, th_error := EFAULT, th_error_line := line,
             th_error_counter := counter, run_enq := run_enq th \<or> new\<rparr>),
           w_local := (w_local w)\<lparr>si_signo := sig,
             pl_run := pl_run (w_local w) \<or> new \<and> run_q (w_local w) = [],
             run_q := (if new then t # run_q (w_local w) else run_q (w_local w))\<rparr>\<rparr>)"

definition faulted :: "size_t \<Rightarrow> int \<Rightarrow> vk_heap \<Rightarrow> size_t \<Rightarrow> siginfo \<Rightarrow> kern_world \<Rightarrow> kern_world" where
  "faulted line counter kh p info k =
     k\<lparr>k_kern_prot := prot_inside kh,
       k_prot := (k_prot k)(p := prot_inside (proc_heap (k_proc k p))),
       k_proc := (k_proc k)(p := (k_proc k p)\<lparr>proc_heap := opened (proc_heap (k_proc k p))\<rparr>),
       k_local := (k_local k)(p := caught line counter (int (si_signo_of info)) (k_local k p))\<rparr>"

lemma enqueue_run_effect:
  "vk_proc_local_enqueue_run t w =
     (let th = w_thread w t; new = th_status th \<noteq> VK_PROC_END \<and> \<not> run_enq th
      in w\<lparr>w_thread := (w_thread w)(t := (vk_ready th)\<lparr>run_enq := run_enq th \<or> new\<rparr>),
           w_local := (w_local w)\<lparr>pl_run := pl_run (w_local w) \<or> new \<and> run_q (w_local w) = [],
             run_q := (if new then t # run_q (w_local w) else run_q (w_local w))\<rparr>\<rparr>)"
proof -
  have ready: "vk_is_ready (vk_ready th) \<longleftrightarrow> th_status th \<noteq> VK_PROC_END" "run_enq (vk_ready th) = run_enq th" for th
    by (simp_all add: vk_is_ready_def vk_ready_def)
  have same: "run_enq th = b \<Longrightarrow> vk_ready th\<lparr>run_enq := b\<rparr> = vk_ready th" for th b
    by (auto intro!: vk_thread.equality simp: ready)
  show ?thesis
    by (cases "th_status (w_thread w t) = VK_PROC_END"; cases "run_enq (w_thread w t)")
      (simp_all add: vk_proc_local_enqueue_run_def upd_thread_def upd_local_def ready same Let_def)
qed

lemma raise_caught:
  "vk_raise_at line counter (catcher (w_local w)) EFAULT (vk_proc_local_enqueue_run (catcher (w_local w))
      (upd_local (\<lambda>l. l\<lparr>si_signo := sig\<rparr>) w)) = caught line counter sig w"
proof -
  define t where "t = catcher (w_local w)"
  show ?thesis
  proof (rule vk_world.equality)
  qed (auto simp: t_def [symmetric] vk_raise_at_def caught_def enqueue_run_effect upd_thread_def upd_local_def vk_ready_def Let_def
        intro!: vk_thread.equality vk_proc_local.equality ext)
qed

lemma heap_opened:
  assumes "heap_synced hp pr"
  shows "\<exists>rc. vk_heap_enter hp pr (Inr ()) = (rc, prot_inside hp, opened hp)"
  using assms by (cases hp, cases "mapping hp") (auto simp: vk_heap_enter_def set_prot_cases heap_synced_def opened_def)

lemma jumper_world_opened:
  assumes "heap_synced kh (k_kern_prot k)" "heap_synced (proc_heap (k_proc k p)) (k_prot k p)"
    "rets 0 = Inr ()" "rets 1 = Inr ()" "running_cr (w_local (k_local k p)) \<noteq> 0"
  shows "set_local p (snd (vk_proc_local_raise_signal line counter (k_local (jumper_world rets kh p info k) p)))
      (jumper_world rets kh p info k) = faulted line counter kh p info k" (is ?same)
    and "fst (vk_proc_local_raise_signal line counter (k_local (jumper_world rets kh p info k) p))" (is ?raised)
proof -
  let ?u = "upd_local (\<lambda>l. l\<lparr>si_signo := int (si_signo_of info)\<rparr>) (k_local k p)"
  have run: "running_cr (w_local ?u) \<noteq> 0" "catcher (w_local ?u) = catcher (w_local (k_local k p))"
    using assms(5) by (simp_all add: upd_local_def catcher_def)
  have raise: "vk_proc_local_raise_signal line counter ?u =
      (True, caught line counter (int (si_signo_of info)) (k_local k p))"
    using raise_signal_eq [OF run(1)] run(2) raise_caught by simp
  obtain rc1 rc2 where "vk_heap_enter kh (k_kern_prot k) (rets 0) = (rc1, prot_inside kh, opened kh)"
      "vk_heap_enter (proc_heap (k_proc k p)) (k_prot k p) (rets 1) =
         (rc2, prot_inside (proc_heap (k_proc k p)), opened (proc_heap (k_proc k p)))"
    using heap_opened [OF assms(1)] heap_opened [OF assms(2)] assms(3,4) by metis
  then have "jumper_world rets kh p info k = set_local p ?u (k\<lparr>k_kern_prot := prot_inside kh,
      k_prot := (k_prot k)(p := prot_inside (proc_heap (k_proc k p))),
      k_proc := (k_proc k)(p := (k_proc k p)\<lparr>proc_heap := opened (proc_heap (k_proc k p))\<rparr>)\<rparr>)"
    by (simp add: jumper_world_def enter_proc_heap_def set_local_def upd_proc_def Let_def)
  with raise show ?same ?raised by (simp_all add: set_local_def faulted_def)
qed

text \<open>C11: A fault of a process comes back to it as a raised error and to nobody else. The jumper opens the gate of the
  isolation and executes the process again: the delivery of polled results is skipped, and what is dispatched is
  exactly the world before the fault with four changes. The heap of the kernel and the heap of the process are open;
  the signal is stored in the process; and the supervisor, or without one the coroutine that faulted, is in the error
  state with \<open>EFAULT\<close> and runnable. Every other coroutine, the sockets, memory and blocked queue of the process, every
  other process, the table of descriptors and the queues of the kernel are as they were. An error of that execution
  is not reported.\<close>

theorem fault_is_raised:
  assumes "has_local (k_proc k p)" "running_cr (w_local (k_local k p)) \<noteq> 0"
    "heap_synced kh (k_kern_prot k)" "heap_synced (proc_heap (k_proc k p)) (k_prot k p)"
    "rets 0 = Inr ()" "rets 1 = Inr ()"
  shows "vk_proc_execute_jumper a allowed rets kh p info it k =
    (map_option (vk_isolate_on_signal allowed) it,
     case execute_protected a p (faulted (app_line a) (app_counter a) kh p info k) of
       (Killed, _) \<Rightarrow> K_Killed
     | (Out_Of_Fuel, _) \<Rightarrow> K_Out_Of_Fuel
     | (Returns rc w, k2) \<Rightarrow>
         if rc = - 1 then K_Returns 0 (upd_kern (kern_rc_update (\<lambda>_. 0)) (set_local p w k2))
         else case vk_proc_prepoll p (set_local p w k2) of
           None \<Rightarrow> K_Killed | Some k4 \<Rightarrow> K_Returns 0 (upd_kern (kern_rc_update (\<lambda>_. 0)) k4))"
proof -
  let ?j = "jumper_world rets kh p info k"
  obtain w where raise: "vk_proc_local_raise_signal (app_line a) (app_counter a) (k_local ?j p) = (True, w)"
      "set_local p w ?j = faulted (app_line a) (app_counter a) kh p info k"
    using jumper_world_opened [OF assms(3-6,2), where line = "app_line a" and counter = "app_counter a" and info = info]
    by (cases "vk_proc_local_raise_signal (app_line a) (app_counter a) (k_local ?j p)") simp
  have "has_local (k_proc ?j p)" using assms(1) by (simp add: jumper_world_sel)
  with raise show ?thesis
    by (auto simp: vk_proc_execute_jumper_def vk_proc_execute_mainline_def vk_proc_execute_def upd_kern_def Let_def
        split: executed.split prod.split option.split)
qed

definition faulted_kern :: kern_world where
  "faulted_kern = set_local 7 (upd_local (running_cr_update (\<lambda>_. 8)) idle_world)
     (upd_proc 7 (\<lambda>p. p\<lparr>has_local := True, proc_heap := closed_heap, allocated_fds := []\<rparr>)
        (waiting_kern\<lparr>k_kern_prot := PROT_NONE, k_prot := (\<lambda>_. PROT_NONE)\<rparr>))"

lemma faulted_kern_sel:
  "has_local (k_proc faulted_kern 7)" "running_cr (w_local (k_local faulted_kern 7)) \<noteq> 0"
  "heap_synced closed_heap (k_kern_prot faulted_kern)"
  "heap_synced (proc_heap (k_proc faulted_kern 7)) (k_prot faulted_kern 7)"
  by (simp_all add: faulted_kern_def set_local_def upd_proc_def upd_local_def heap_synced_def closed_heap_def
      idle_world_def PROT_NONE_def PROT_READ_def PROT_WRITE_def)

text \<open>A coroutine that keeps the error it was resumed with and then listens.\<close>

definition reporting_body :: bodies where
  "reporting_body f t w =
     Some (upd_thread t (th_status_update (\<lambda>_. VK_PROC_LISTEN)) (w\<lparr>w_errno := th_error (w_thread w t)\<rparr>))"

definition reporting_app :: app where
  "reporting_app = quiet_app\<lparr>app_body := \<lambda>_. reporting_body\<rparr>"

lemma reporting_app_sel:
  "app_os reporting_app = (\<lambda>_. quiet_os)" "app_body reporting_app = (\<lambda>_. reporting_body)" "app_fuel reporting_app = 9"
  "app_mprotect reporting_app = (\<lambda>_. Inr ())"
  by (simp_all add: reporting_app_def quiet_app_def)

lemma caught_runs:
  "\<exists>w :: vk_world. vk_proc_local_execute (\<lambda>_. quiet_os) reporting_body 9
      (caught line counter 11 (upd_local (running_cr_update (\<lambda>_. 8)) idle_world)) = Returns 0 w \<and>
    w_errno w = EFAULT \<and> run_q (w_local w) = [] \<and> blocked_q (w_local w) = []"
  by (simp add: vk_proc_local_execute_def eval_nat_numeral vk_proc_local_dequeue_run_def caught_def catcher_def upd_local_def
      upd_thread_def idle_world_def idle_thread_def vk_is_ready_def execute_call_def reporting_body_def vk_unblock_def
      vk_is_yielding_def Let_def)

lemma fault_is_raised_witness:
  "\<exists>k' :: kern_world. snd (vk_proc_execute_jumper reporting_app (\<lambda>_. True) (\<lambda>_. Inr ()) closed_heap 7
      \<lparr>si_signo_of = 11, si_code = 1, si_addr = 16\<rparr> (None :: unit iso_thread option) faulted_kern) = K_Returns 0 k' \<and>
    w_errno (k_local k' 7) = EFAULT \<and> run_q (w_local (k_local k' 7)) = []"
proof -
  let ?i = "\<lparr>si_signo_of = 11, si_code = 1, si_addr = 16\<rparr>"
  let ?k = "faulted (app_line reporting_app) (app_counter reporting_app) closed_heap 7 ?i faulted_kern"
  obtain w :: vk_world where w: "vk_proc_local_execute (\<lambda>_. quiet_os) reporting_body 9 (k_local ?k 7) = Returns 0 w"
      "w_errno w = EFAULT" "run_q (w_local w) = []" "blocked_q (w_local w) = []"
    using caught_runs by (auto simp: faulted_def faulted_kern_def set_local_def)
  have "privileged (k_proc ?k 7)" "allocated_fds (k_proc ?k 7) = []" "\<not> isolated (k_proc ?k 7)"
    by (simp_all add: faulted_def faulted_kern_def set_local_def upd_proc_def waiting_kern_def idle_proc_def)
  then obtain k2 :: kern_world where "execute_protected reporting_app 7 ?k = (Returns 0 w, k2)" "allocated_fds (k_proc k2 7) = []"
    using w(1) by (auto simp: execute_protected_def run_proc_def reporting_app_sel enter_proc_heap_def upd_proc_def split_beta Let_def)
  with fault_is_raised [OF faulted_kern_sel refl refl, of reporting_app "\<lambda>_. True" ?i "None :: unit iso_thread option"] w
  show ?thesis by (simp add: vk_proc_prepoll_def prepoll_sockets_def set_local_def upd_kern_def)
qed

subsection \<open>The coroutine takes the fault\<close>

definition vk_get_signal :: "vk_world \<Rightarrow> int" where
  "vk_get_signal w = si_signo (w_local w)"

definition vk_proc_local_clear_signal :: "vk_proc_local \<Rightarrow> vk_proc_local" where
  "vk_proc_local_clear_signal l = l\<lparr>si_signo := 0\<rparr>"

text \<open>The macro prints the description of the fault, and leaves its length \<open>len\<close> in the variable
  \<open>rc\<close> of the coroutine.\<close>

definition vk_sigerror :: "int \<Rightarrow> int \<times> vk_world \<Rightarrow> int \<times> vk_world" where
  "vk_sigerror len = (\<lambda>(rc, w).
     if w_errno w = EFAULT \<and> vk_get_signal w \<noteq> 0
     then (len, upd_local vk_proc_local_clear_signal w) else (rc, w))"

lemma get_signal_clear: "vk_get_signal (upd_local vk_proc_local_clear_signal w) = 0"
  by (simp add: vk_get_signal_def vk_proc_local_clear_signal_def upd_local_def)

text \<open>A fault is taken once: a second report finds none, and touches neither \<open>rc\<close> nor the
  process. A coroutine that does not report its fault leaves it for the next one whose
  system call fails with \<open>EFAULT\<close>.\<close>

theorem sigerror_takes_once: "vk_sigerror len' (vk_sigerror len r) = vk_sigerror len r"
  by (cases r) (simp add: vk_sigerror_def get_signal_clear)

end
