(* ===== verification/Kqueue.thy ===== *)
theory Kqueue
  imports Fd_Table
begin

text \<open>
  The system driver of the BSD builds (src/vk_fd_table.c under \<open>VK_USE_KQUEUE\<close>): dirty
  slots are turned into changes, which are batched and submitted with the call that waits
  for events. The constants are those of the system's \<open>sys/event.h\<close> (FreeBSD, macOS). The
  driver's own part of the table is \<open>kq_state\<close>; \<open>kq_submitted\<close> records the change lists of
  the calls that succeeded. The fields of a change that the code never writes are left out.
\<close>

subsection \<open>Changes and events\<close>

definition VK_EV_MAX :: nat where "VK_EV_MAX = 32"

definition EVFILT_READ :: "16 word" where "EVFILT_READ = - 1"
definition EVFILT_WRITE :: "16 word" where "EVFILT_WRITE = - 2"

definition EV_ADD :: "16 word" where "EV_ADD = 0x1"
definition EV_ENABLE :: "16 word" where "EV_ENABLE = 0x4"
definition EV_ONESHOT :: "16 word" where "EV_ONESHOT = 0x10"
definition EV_DISPATCH :: "16 word" where "EV_DISPATCH = 0x80"

record kevent =
  kev_ident :: int
  kev_filter :: "16 word"
  kev_flags :: "16 word"
  kev_udata :: int
  kev_data :: int

record kq_state =
  kq_fd :: "int option"
  kq_changelist :: "kevent list"
  kq_submitted :: "kevent list list"

subsection \<open>Waiting\<close>

text \<open>The loop returns the outcomes that are left, for the driver may wait more than once.\<close>

fun kevent_loop ::
  "bool \<Rightarrow> kevent wait_call list \<Rightarrow> kern_world \<Rightarrow> kevent waited \<times> kevent wait_call list \<times> kern_world" where
  "kevent_loop block [] k = (Still_Waiting, [], k)"
| "kevent_loop block ((s1, res, s2) # calls) k =
     (let k' = vk_kern_receive_signal s2 (vk_kern_receive_signal s1 k)
      in case res of
           Inr es \<Rightarrow> if block \<and> es = [] then kevent_loop block calls k' else (Wait_Events es, calls, k')
         | Inl e \<Rightarrow> if e = EINTR \<or> e = EAGAIN then kevent_loop block calls k'
                    else (Wait_Error e, calls, k'\<lparr>k_errno := e\<rparr>))"

definition reflect_event :: "kevent \<Rightarrow> vk_io_future \<Rightarrow> vk_io_future" where
  "reflect_event ev post =
     (let p1 = (if kev_filter ev AND EVFILT_READ \<noteq> 0
                then post\<lparr>ioft_event := (ioft_event post)
                            \<lparr>ev_events := ev_events (ioft_event post) AND NOT POLLIN,
                             ev_revents := ev_revents (ioft_event post) OR POLLIN\<rparr>,
                          ioft_readable := of_int (kev_data ev)\<rparr>
                else post)
      in if kev_filter ev AND EVFILT_WRITE \<noteq> 0
         then p1\<lparr>ioft_event := (ioft_event p1)
                   \<lparr>ev_events := ev_events (ioft_event p1) AND NOT POLLOUT,
                    ev_revents := ev_revents (ioft_event p1) OR POLLOUT\<rparr>,
                 ioft_writable := of_int (kev_data ev)\<rparr>
         else p1)"

fun kqueue_process :: "kevent list \<Rightarrow> kern_world \<Rightarrow> int \<times> kern_world" where
  "kqueue_process [] k = (0, k)"
| "kqueue_process (ev # evs) k =
     (case vk_fd_table_get k (kev_udata ev) of
        None \<Rightarrow> (- 1, k)
      | Some i \<Rightarrow>
          (let post = reflect_event ev (ioft_post (k_fd k i))
           in kqueue_process evs (vk_fd_table_enqueue_fresh i
                (upd_fd i (\<lambda>sl. sl\<lparr>ioft_post := post, ioft_ret := post\<rparr>) k))))"

type_synonym kq_run = "int option \<times> kevent wait_call list \<times> kq_state \<times> kern_world"

definition vk_fd_table_kqueue_kevent ::
  "bool \<Rightarrow> kevent wait_call list \<Rightarrow> kq_state \<Rightarrow> kern_world \<Rightarrow> kq_run" where
  "vk_fd_table_kqueue_kevent block calls q k =
     (case kevent_loop block calls k of
        (Still_Waiting, rest, k1) \<Rightarrow> (None, rest, q, k1)
      | (Wait_Error e, rest, k1) \<Rightarrow> (Some (- 1), rest, q, k1)
      | (Wait_Events es, rest, k1) \<Rightarrow>
          (let q1 = q\<lparr>kq_changelist := [], kq_submitted := kq_submitted q @ [kq_changelist q]\<rparr>
           in case kqueue_process es k1 of (rc, k2) \<Rightarrow> (Some rc, rest, q1, k2)))"

subsection \<open>Batching registrations\<close>

text \<open>One direction of a slot; \<open>None\<close> when the list is full. In the edge-triggered mode the slot
  is marked as added.\<close>

definition kqueue_change :: "16 word \<Rightarrow> bool \<Rightarrow> vk_fd \<Rightarrow> kevent" where
  "kqueue_change filt edge slot =
     \<lparr>kev_ident = fd_num slot, kev_filter = filt,
      kev_flags = (if edge
                   then (if fd_added slot then EV_ENABLE OR EV_DISPATCH
                         else EV_ADD OR EV_ENABLE OR EV_DISPATCH)
                   else EV_ADD OR EV_ONESHOT),
      kev_udata = fd_num slot, kev_data = 0\<rparr>"

definition kqueue_add :: "16 word \<Rightarrow> size_t \<Rightarrow> kq_state \<Rightarrow> kern_world \<Rightarrow> (kq_state \<times> kern_world) option" where
  "kqueue_add filt i q k =
     (let edge = poll_method (k_table k) = VK_POLL_METHOD_EDGE_TRIGGERED
      in if length (kq_changelist q) = VK_EV_MAX then None
         else Some (q\<lparr>kq_changelist := kq_changelist q @ [kqueue_change filt edge (k_fd k i)]\<rparr>,
                    if edge then upd_fd i (fd_added_update (\<lambda>_. True)) k else k))"

definition registers :: "events \<Rightarrow> vk_fd \<Rightarrow> bool" where
  "registers ev slot \<longleftrightarrow> ev_events (ioft_event (ioft_pre slot)) AND ev \<noteq> 0 \<and>
     ev_events (ioft_event (ioft_post slot)) AND ev = 0"

definition vk_fd_table_kqueue_set :: "size_t \<Rightarrow> kq_state \<Rightarrow> kern_world \<Rightarrow> int \<times> kq_state \<times> kern_world" where
  "vk_fd_table_kqueue_set i q k =
     (if fd_closed (k_fd k i) then (0, q, k)
      else (let register_read = registers POLLIN (k_fd k i); register_write = registers POLLOUT (k_fd k i)
            in case (if register_read then kqueue_add EVFILT_READ i q k else Some (q, k)) of
                 None \<Rightarrow> (- 1, q, k\<lparr>k_errno := ENOBUFS\<rparr>)
               | Some (q1, k1) \<Rightarrow>
                   (case (if register_write then kqueue_add EVFILT_WRITE i q1 k1 else Some (q1, k1)) of
                      None \<Rightarrow> (- 1, if register_read then q1\<lparr>kq_changelist := butlast (kq_changelist q1)\<rparr> else q1,
                              k1\<lparr>k_errno := ENOBUFS\<rparr>)
                    | Some (q2, k2) \<Rightarrow> (0, q2, upd_fd i (\<lambda>sl. sl\<lparr>ioft_post := ioft_pre sl\<rparr>) k2))))"

definition vk_fd_table_kqueue_full :: "kq_state \<Rightarrow> bool" where
  "vk_fd_table_kqueue_full q \<longleftrightarrow> length (kq_changelist q) = VK_EV_MAX"

subsection \<open>The driver\<close>

lemma receive_signal_table [simp]:
  "k_table (vk_kern_receive_signal s k) = k_table k"
  by (simp add: vk_kern_receive_signal_def vk_kern_sync_signal_handler_def upd_kern_def)

lemma kevent_loop_table: "kevent_loop b calls k = (r, rest, k') \<Longrightarrow> k_table k' = k_table k"
  by (induction b calls k rule: kevent_loop.induct) (auto simp: Let_def split: sum.splits if_splits)

lemma kqueue_process_dirty: "dirty_fds (k_table (snd (kqueue_process evs k))) = dirty_fds (k_table k)"
  by (induction evs k rule: kqueue_process.induct)
    (auto simp: vk_fd_table_enqueue_fresh_def Let_def split: option.splits)

lemma kqueue_kevent_dirty:
  "vk_fd_table_kqueue_kevent b calls q k = (rc, rest, q', k') \<Longrightarrow>
   dirty_fds (k_table k') = dirty_fds (k_table k)"
proof -
  assume a: "vk_fd_table_kqueue_kevent b calls q k = (rc, rest, q', k')"
  obtain r rest1 k1 where l: "kevent_loop b calls k = (r, rest1, k1)" by (rule prod_cases3)
  show ?thesis
  proof (cases r)
    case (Wait_Events es)
    with a l kevent_loop_table [OF l] kqueue_process_dirty [of es k1] show ?thesis
      by (auto simp: vk_fd_table_kqueue_kevent_def Let_def split: prod.splits)
  qed (use a l kevent_loop_table [OF l] in \<open>auto simp: vk_fd_table_kqueue_kevent_def\<close>)
qed

lemma kqueue_set_dirty:
  "dirty_fds (k_table (snd (snd (vk_fd_table_kqueue_set i q k)))) = dirty_fds (k_table k)"
  by (auto simp: vk_fd_table_kqueue_set_def kqueue_add_def Let_def split: option.splits if_splits)

text \<open>A registration that finds the list full submits it, without waiting, and is tried once more.\<close>

definition kqueue_register_fd ::
  "size_t \<Rightarrow> kevent wait_call list \<Rightarrow> kq_state \<Rightarrow> kern_world \<Rightarrow> kq_run" where
  "kqueue_register_fd i calls q k =
     (case vk_fd_table_kqueue_set i q k of (rc, q1, k1) \<Rightarrow>
        if rc = - 1 \<and> k_errno k1 = ENOBUFS
        then (case vk_fd_table_kqueue_kevent False calls q1 k1 of
                (rc1, rest, q2, k2) \<Rightarrow>
                  if rc1 = Some 0
                  then (case vk_fd_table_kqueue_set i q2 k2 of (rc2, q3, k3) \<Rightarrow> (Some rc2, rest, q3, k3))
                  else (rc1, rest, q2, k2))
        else (Some 0, calls, q1, k1))"

lemma kqueue_register_dirty:
  "kqueue_register_fd i calls q k = (rc, rest, q', k') \<Longrightarrow> dirty_fds (k_table k') = dirty_fds (k_table k)"
proof -
  obtain rc1 q1 k1 where s: "vk_fd_table_kqueue_set i q k = (rc1, q1, k1)" by (rule prod_cases3)
  obtain rc2 rest2 q2 k2 where e: "vk_fd_table_kqueue_kevent False calls q1 k1 = (rc2, rest2, q2, k2)"
    by (rule prod_cases4)
  have "dirty_fds (k_table k2) = dirty_fds (k_table k)"
    using kqueue_kevent_dirty [OF e] kqueue_set_dirty [of i q k] s by simp
  moreover assume "kqueue_register_fd i calls q k = (rc, rest, q', k')"
  ultimately show ?thesis
    using kqueue_set_dirty [of i q k] kqueue_set_dirty [of i q2 k2] s e
    by (auto simp: kqueue_register_fd_def split: prod.splits if_splits)
qed

function kqueue_register ::
  "kevent wait_call list \<Rightarrow> kq_state \<Rightarrow> kern_world \<Rightarrow> kq_run" where
  "kqueue_register calls q k =
     (case vk_fd_table_dequeue_dirty k of
        None \<Rightarrow> (Some 0, calls, q, k)
      | Some (i, k1) \<Rightarrow>
          (case kqueue_register_fd i calls q k1 of (rc, rest, q2, k2) \<Rightarrow>
             if rc = Some 0 then kqueue_register rest q2 k2 else (rc, rest, q2, k2)))"
  by pat_completeness auto
termination
  by (relation "measure (\<lambda>(calls, q, k). length (dirty_fds (k_table k)))")
    (auto simp: vk_fd_table_dequeue_dirty_def split: list.splits dest!: kqueue_register_dirty [OF sym])

declare kqueue_register.simps [simp del]

definition vk_fd_table_kqueue ::
  "errno + int \<Rightarrow> kevent wait_call list \<Rightarrow> kq_state \<Rightarrow> kern_world \<Rightarrow> kq_run" where
  "vk_fd_table_kqueue create calls q k =
     (case (case kq_fd q of Some _ \<Rightarrow> Inr q
            | None \<Rightarrow> (case create of Inl e \<Rightarrow> Inl e | Inr fd \<Rightarrow> Inr (q\<lparr>kq_fd := Some fd\<rparr>))) of
        Inl e \<Rightarrow> (Some (- 1), calls, q, k\<lparr>k_errno := e\<rparr>)
      | Inr q0 \<Rightarrow>
          (case kqueue_register calls q0 k of (rc, rest, q1, k1) \<Rightarrow>
             if rc = Some 0 then vk_fd_table_kqueue_kevent True rest q1 k1 else (rc, rest, q1, k1)))"

end
