(* ===== verification/Kqueue_Props.thy ===== *)
theory Kqueue_Props
  imports Kqueue Fd_Props
begin

text \<open>
  The batching of the kqueue driver: the change list never outgrows its array, a full list
  is submitted and the registration then succeeds, and three ways in which what is
  registered or reported is not what was meant.
\<close>

subsection \<open>One registration\<close>

text \<open>The changes a slot asks for, in the order of the code.\<close>

definition wanted_changes :: "bool \<Rightarrow> vk_fd \<Rightarrow> kevent list" where
  "wanted_changes edge slot =
     (if fd_closed slot then []
      else (if registers POLLIN slot then [kqueue_change EVFILT_READ edge slot] else []) @
           (if registers POLLOUT slot
            then [kqueue_change EVFILT_WRITE edge
                    (if edge \<and> registers POLLIN slot then slot\<lparr>fd_added := True\<rparr> else slot)]
            else []))"

definition edge_triggered :: "kern_world \<Rightarrow> bool" where
  "edge_triggered k \<longleftrightarrow> poll_method (k_table k) = VK_POLL_METHOD_EDGE_TRIGGERED"

lemma kqueue_set_cases:
  assumes "vk_fd_table_kqueue_set i q k = (rc, q', k')" "length (kq_changelist q) \<le> VK_EV_MAX"
  shows "kq_submitted q' = kq_submitted q"
    "rc = 0 \<longleftrightarrow> length (kq_changelist q) + length (wanted_changes (edge_triggered k) (k_fd k i)) \<le> VK_EV_MAX"
    "rc = 0 \<Longrightarrow> kq_changelist q' = kq_changelist q @ wanted_changes (edge_triggered k) (k_fd k i)"
    "rc \<noteq> 0 \<Longrightarrow> rc = - 1 \<and> k_errno k' = ENOBUFS \<and> kq_changelist q' = kq_changelist q"
  using assms
  by (auto simp: vk_fd_table_kqueue_set_def kqueue_add_def wanted_changes_def edge_triggered_def Let_def
      VK_EV_MAX_def split: if_splits)

text \<open>Registering a slot with the kqueue driver either appends exactly the changes the slot
  asks for, read before write and none for a closed slot or a direction that is already
  registered, or, when the array has no room for all of them, fails with \<open>ENOBUFS\<close> and
  leaves the list as it was; the list never outgrows the array.\<close>

theorem kqueue_set_batches:
  assumes "length (kq_changelist q) \<le> VK_EV_MAX"
  shows "case vk_fd_table_kqueue_set i q k of (rc, q', k') \<Rightarrow>
    length (kq_changelist q') \<le> VK_EV_MAX \<and>
    (if length (kq_changelist q) + length (wanted_changes (edge_triggered k) (k_fd k i)) \<le> VK_EV_MAX
     then rc = 0 \<and> kq_changelist q' = kq_changelist q @ wanted_changes (edge_triggered k) (k_fd k i)
     else rc = - 1 \<and> k_errno k' = ENOBUFS \<and> kq_changelist q' = kq_changelist q)"
proof -
  obtain rc q' k' where s: "vk_fd_table_kqueue_set i q k = (rc, q', k')" by (rule prod_cases3)
  show ?thesis
  proof (cases "rc = 0")
    case True
    then show ?thesis using kqueue_set_cases [OF s assms] by (simp add: s)
  next
    case False
    then show ?thesis using kqueue_set_cases [OF s assms] assms by (simp add: s)
  qed
qed

lemma kqueue_set_batches_witness:
  "case vk_fd_table_kqueue_set 3 \<lparr>kq_fd = Some 5, kq_changelist = [], kq_submitted = []\<rparr> waiting_kern of (rc, q', k') \<Rightarrow>
    length (kq_changelist q') \<le> VK_EV_MAX \<and>
    (if length (kq_changelist \<lparr>kq_fd = Some 5, kq_changelist = [], kq_submitted = []\<rparr>) +
        length (wanted_changes (edge_triggered waiting_kern) (k_fd waiting_kern 3)) \<le> VK_EV_MAX
     then rc = 0 \<and> kq_changelist q' = kq_changelist \<lparr>kq_fd = Some 5, kq_changelist = [], kq_submitted = []\<rparr> @
       wanted_changes (edge_triggered waiting_kern) (k_fd waiting_kern 3)
     else rc = - 1 \<and> k_errno k' = ENOBUFS \<and>
       kq_changelist q' = kq_changelist \<lparr>kq_fd = Some 5, kq_changelist = [], kq_submitted = []\<rparr>)"
  by (rule kqueue_set_batches) simp

lemma wanted_changes_two: "length (wanted_changes e slot) \<le> 2"
  by (simp add: wanted_changes_def)

subsection \<open>The whole driver\<close>

definition kq_ok :: "kq_state \<Rightarrow> bool" where
  "kq_ok q \<longleftrightarrow> length (kq_changelist q) \<le> VK_EV_MAX \<and> (\<forall>l \<in> set (kq_submitted q). length l \<le> VK_EV_MAX)"

lemma kqueue_set_ok: "vk_fd_table_kqueue_set i q k = (rc, q', k') \<Longrightarrow> kq_ok q \<Longrightarrow> kq_ok q'"
  using kqueue_set_cases [of i q k rc q' k'] by (cases "rc = 0") (auto simp: kq_ok_def)

lemma kqueue_kevent_ok:
  "vk_fd_table_kqueue_kevent b calls q k = (rc, rest, q', k') \<Longrightarrow> kq_ok q \<Longrightarrow> kq_ok q'"
  by (auto simp: vk_fd_table_kqueue_kevent_def kq_ok_def Let_def split: prod.splits waited.splits)

lemma kqueue_kevent_flushes:
  "vk_fd_table_kqueue_kevent b calls q k = (Some 0, rest, q', k') \<Longrightarrow> kq_changelist q' = []"
  by (auto simp: vk_fd_table_kqueue_kevent_def Let_def split: prod.splits waited.splits)

lemma kqueue_register_fd_ok:
  assumes "kqueue_register_fd i calls q k = (rc, rest, q', k')" "kq_ok q"
  shows "kq_ok q'"
proof -
  obtain rc1 q1 k1 where s: "vk_fd_table_kqueue_set i q k = (rc1, q1, k1)" by (rule prod_cases3)
  obtain rc2 rest2 q2 k2 where e: "vk_fd_table_kqueue_kevent False calls q1 k1 = (rc2, rest2, q2, k2)"
    by (rule prod_cases4)
  have "kq_ok q1" "kq_ok q2" using kqueue_set_ok [OF s assms(2)] kqueue_kevent_ok [OF e] by simp_all
  with assms(1) s e show ?thesis
    by (auto simp: kqueue_register_fd_def split: prod.splits if_splits dest: kqueue_set_ok)
qed

text \<open>After the flush there is room, so the retry cannot fail.\<close>

lemma kqueue_retry_succeeds:
  assumes "kqueue_register_fd i calls q k = (rc, rest, q', k')" "kq_ok q"
  shows "rc = Some 0 \<or>
    (\<exists>q1 k1 rest1. vk_fd_table_kqueue_kevent False calls q1 k1 = (rc, rest1, q', k') \<and> rc \<noteq> Some 0)"
proof -
  obtain rc1 q1 k1 where s: "vk_fd_table_kqueue_set i q k = (rc1, q1, k1)" by (rule prod_cases3)
  obtain rc2 rest2 q2 k2 where e: "vk_fd_table_kqueue_kevent False calls q1 k1 = (rc2, rest2, q2, k2)"
    by (rule prod_cases4)
  obtain rc3 q3 k3 where t: "vk_fd_table_kqueue_set i q2 k2 = (rc3, q3, k3)" by (rule prod_cases3)
  have "rc3 = 0" if "rc2 = Some 0"
  proof -
    from that e have "kq_changelist q2 = []" by (auto dest: kqueue_kevent_flushes)
    with kqueue_set_cases(2) [OF t] wanted_changes_two [of "edge_triggered k2" "k_fd k2 i"] show ?thesis
      by (simp add: VK_EV_MAX_def)
  qed
  with assms(1) s e t show ?thesis
    by (auto simp: kqueue_register_fd_def split: if_splits)
qed

lemma kqueue_register_ok:
  "kqueue_register calls q k = (rc, rest, q', k') \<Longrightarrow> kq_ok q \<Longrightarrow> kq_ok q'"
proof (induction calls q k rule: kqueue_register.induct)
  case (1 calls q k)
  show ?case
  proof (cases "vk_fd_table_dequeue_dirty k")
    case None
    with 1 show ?thesis by (simp add: kqueue_register.simps [of calls])
  next
    case (Some p)
    obtain i k1 where p: "p = (i, k1)" by fastforce
    obtain rc1 rest1 q1 k2 where r: "kqueue_register_fd i calls q k1 = (rc1, rest1, q1, k2)" by (rule prod_cases4)
    have ok: "kq_ok q1" by (rule kqueue_register_fd_ok [OF r "1.prems"(2)])
    show ?thesis
    proof (cases "rc1 = Some 0")
      case True
      with 1 Some p r ok show ?thesis by (simp add: kqueue_register.simps [of calls q k])
    next
      case False
      with 1 Some p r ok show ?thesis by (simp add: kqueue_register.simps [of calls q k])
    qed
  qed
qed

text \<open>A whole turn of the kqueue driver, whatever slots are dirty and whatever the system
  answers, keeps every batch of changes within the array of the table.\<close>

theorem kqueue_batches_bounded:
  assumes "kq_ok q"
  shows "case vk_fd_table_kqueue create calls q k of (rc, rest, q', k') \<Rightarrow> kq_ok q'"
proof -
  have "kq_ok q0 \<Longrightarrow>
      case (case kqueue_register calls q0 k of (rc, rest, q1, k1) \<Rightarrow>
              if rc = Some 0 then vk_fd_table_kqueue_kevent True rest q1 k1 else (rc, rest, q1, k1)) of
        (rc, rest, q', k') \<Rightarrow> kq_ok q'" for q0
    by (auto split: prod.splits if_splits dest: kqueue_register_ok kqueue_kevent_ok)
  moreover have "kq_ok (q\<lparr>kq_fd := f\<rparr>)" for f using assms by (simp add: kq_ok_def)
  ultimately show ?thesis
    using assms by (auto simp: vk_fd_table_kqueue_def split: option.split sum.split)
qed

lemma kqueue_batches_bounded_witness:
  "case vk_fd_table_kqueue (Inr 5) [] \<lparr>kq_fd = None, kq_changelist = [], kq_submitted = []\<rparr> waiting_kern of
     (rc, rest, q', k') \<Rightarrow> kq_ok q'"
  by (rule kqueue_batches_bounded) (simp add: kq_ok_def)

subsection \<open>What goes wrong\<close>

text \<open>The filters are small negative numbers, not bits: an event of either direction is
  reported as both.\<close>

theorem kqueue_event_is_both:
  assumes "kev_filter ev = EVFILT_READ \<or> kev_filter ev = EVFILT_WRITE"
  shows "ev_revents (ioft_event (reflect_event ev post)) = ev_revents (ioft_event post) OR POLLIN OR POLLOUT"
    "ev_events (ioft_event (reflect_event ev post)) = ev_events (ioft_event post) AND NOT POLLIN AND NOT POLLOUT"
    "ioft_readable (reflect_event ev post) = of_int (kev_data ev)"
    "ioft_writable (reflect_event ev post) = of_int (kev_data ev)"
  using assms by (auto simp: reflect_event_def Let_def EVFILT_READ_def EVFILT_WRITE_def or.assoc and.assoc)

text \<open>A slot that waits for both directions for the first time, edge-triggered: the read change
  marks it as added, so the write change lacks \<open>EV_ADD\<close> and enables a filter that is not there.\<close>

theorem kqueue_write_not_added:
  assumes "\<not> fd_closed slot" "\<not> fd_added slot" "registers POLLIN slot" "registers POLLOUT slot"
  shows "map kev_flags (wanted_changes True slot) = [EV_ADD OR EV_ENABLE OR EV_DISPATCH, EV_ENABLE OR EV_DISPATCH]"
  using assms by (simp add: wanted_changes_def kqueue_change_def)

text \<open>A rolled back read change leaves the slot marked: the retry adds neither direction.\<close>

theorem kqueue_rollback_keeps_mark:
  assumes "edge_triggered k" "\<not> fd_closed (k_fd k i)" "registers POLLIN (k_fd k i)" "registers POLLOUT (k_fd k i)"
    "length (kq_changelist q) = VK_EV_MAX - 1"
  shows "\<exists>q' k'. vk_fd_table_kqueue_set i q k = (- 1, q', k') \<and> kq_changelist q' = kq_changelist q \<and>
    map kev_flags (wanted_changes True (k_fd k' i)) = [EV_ENABLE OR EV_DISPATCH, EV_ENABLE OR EV_DISPATCH]"
proof -
  let ?q = "q\<lparr>kq_changelist := kq_changelist q\<rparr>"
  let ?k = "(upd_fd i (fd_added_update (\<lambda>_. True)) k)\<lparr>k_errno := ENOBUFS\<rparr>"
  have "k_fd ?k = k_fd (upd_fd i (fd_added_update (\<lambda>_. True)) k)" by (simp add: k_fd_def fun_eq_iff)
  then have fd: "k_fd ?k i = (k_fd k i)\<lparr>fd_added := True\<rparr>" by simp
  have "poll_method (k_table k) = VK_POLL_METHOD_EDGE_TRIGGERED" using assms(1) by (simp add: edge_triggered_def)
  then have "vk_fd_table_kqueue_set i q k = (- 1, ?q, ?k)"
    using assms(2-5) by (simp add: vk_fd_table_kqueue_set_def kqueue_add_def VK_EV_MAX_def Let_def)
  moreover have "map kev_flags (wanted_changes True (k_fd ?k i)) = [EV_ENABLE OR EV_DISPATCH, EV_ENABLE OR EV_DISPATCH]"
    unfolding fd using assms(2-4) by (simp add: wanted_changes_def kqueue_change_def registers_def)
  ultimately show ?thesis by (intro exI [of _ ?q] exI [of _ ?k]) simp
qed

end
