(* ===== verification/Aio.thy ===== *)
theory Aio
  imports Fd_Props
begin

text \<open>
  The \<open>io_getevents\<close> driver (src/vk_fd_table.c under \<open>VK_USE_GETEVENTS\<close>): every dirty slot
  becomes a poll request; the requests are submitted, in parts when the system takes only
  some of them, and the events of one blocking call are dispatched. A request is its
  descriptor and events, an event its descriptor and result. \<open>subs\<close> and \<open>gets\<close> are the
  outcomes of the calls of \<open>io_submit\<close> and \<open>io_getevents\<close>, in their order and with the
  signals received around them; when they run out the driver is still waiting.
\<close>

type_synonym aio_request = "int \<times> events"
type_synonym submit_call = "nat \<times> (errno + nat) \<times> nat"
type_synonym aio_get = "(int \<times> events) wait_call"

subsection \<open>Requests\<close>

lemma q_remove_length: "q_remove x q = Some q' \<Longrightarrow> length q' \<le> length q"
  by (auto simp: q_remove_def length_remove1 split: if_splits)

lemma drop_dirty_length:
  "vk_fd_table_drop_dirty i k = Some k' \<Longrightarrow> length (dirty_fds (k_table k')) \<le> length (dirty_fds (k_table k))"
  by (auto simp: vk_fd_table_drop_dirty_def split: if_splits option.splits dest: q_remove_length)

lemma drop_fresh_dirty:
  "vk_fd_table_drop_fresh i k = Some k' \<Longrightarrow> dirty_fds (k_table k') = dirty_fds (k_table k)"
  by (auto simp: vk_fd_table_drop_fresh_def split: if_splits option.splits)

lemma enqueue_fresh_dirty: "dirty_fds (k_table (vk_fd_table_enqueue_fresh i k)) = dirty_fds (k_table k)"
  by (simp add: vk_fd_table_enqueue_fresh_def)

lemma clean_fd_dirty:
  assumes "vk_fd_table_clean_fd i k = Some k'"
  shows "length (dirty_fds (k_table k')) \<le> length (dirty_fds (k_table k))"
proof -
  obtain k1 where k1: "(if fd_zombie (k_fd k i)
      then do { k' \<leftarrow> vk_fd_table_drop_dirty i k; vk_fd_table_drop_fresh i k' } else Some k) = Some k1"
    using assms by (auto simp: vk_fd_table_clean_fd_def split: bind_splits)
  have l1: "length (dirty_fds (k_table k1)) \<le> length (dirty_fds (k_table k))"
    using k1 by (auto split: if_splits bind_splits dest!: drop_dirty_length drop_fresh_dirty)
  let ?u = "upd_fd i (\<lambda>sl. sl\<lparr>fd_closed := True, ioft_post := mark_closed (ioft_post sl),
    ioft_ret := mark_closed (ioft_ret sl)\<rparr>) k1"
  have "length (dirty_fds (k_table k')) \<le> length (dirty_fds (k_table k1))"
    using assms k1 drop_dirty_length [of i ?u]
    by (auto simp: vk_fd_table_clean_fd_def Let_def enqueue_fresh_dirty split: if_splits bind_splits)
  with l1 show ?thesis by simp
qed

text \<open>A slot that is dequeued when the array is full is not put back.\<close>

function aio_register :: "aio_request list \<Rightarrow> kern_world \<Rightarrow> (aio_request list \<times> kern_world) option" where
  "aio_register reqs k =
     (case vk_fd_table_dequeue_dirty k of
        None \<Rightarrow> Some (reqs, k)
      | Some (i, k1) \<Rightarrow>
          if length reqs \<ge> VK_FD_MAX then Some (reqs, k1)
          else (case vk_fd_table_clean_fd i k1 of
                  None \<Rightarrow> None
                | Some k2 \<Rightarrow>
                    (let slot = k_fd k2 i
                     in if fd_closed slot \<or> ev_events (ioft_event (ioft_pre slot)) = 0
                        then aio_register reqs k2
                        else aio_register (reqs @ [(fd_num slot, ev_events (ioft_event (ioft_pre slot)))])
                               (upd_fd i (\<lambda>sl. sl\<lparr>ioft_post := ioft_pre sl\<rparr>) k2))))"
  by pat_completeness auto
termination
  by (relation "measure (\<lambda>(reqs, k). length (dirty_fds (k_table k)))")
    (auto simp: vk_fd_table_dequeue_dirty_def split: list.splits dest!: clean_fd_dirty)

declare aio_register.simps [simp del]

subsection \<open>Submission\<close>

definition signals :: "nat \<Rightarrow> nat \<Rightarrow> kern_world \<Rightarrow> kern_world" where
  "signals s1 s2 k = vk_kern_receive_signal s2 (vk_kern_receive_signal s1 k)"

text \<open>\<open>None\<close> is still waiting, \<open>Some (Inl e)\<close> an error, \<open>Some (Inr gets)\<close> the end of the
  submission with the outcomes that are left.\<close>

fun aio_submit_rest ::
  "nat \<Rightarrow> nat \<Rightarrow> submit_call list \<Rightarrow> aio_get list \<Rightarrow> kern_world \<Rightarrow> (errno + aio_get list) option \<times> kern_world" where
  "aio_submit_rest cursor n subs [] k = (if cursor < n then (None, k) else (Some (Inr []), k))"
| "aio_submit_rest cursor n subs ((s1, res, s2) # gets) k =
     (if \<not> cursor < n then (Some (Inr ((s1, res, s2) # gets)), k)
      else (let k1 = signals s1 s2 k
            in case res of
                 Inl e \<Rightarrow> if e = EINTR then aio_submit_rest cursor n subs gets k1
                          else (Some (Inl e), k1\<lparr>k_errno := e\<rparr>)
               | Inr [] \<Rightarrow> (Some (Inr gets), k1)
               | Inr (_ # _) \<Rightarrow>
                   (case subs of
                      [] \<Rightarrow> (None, k1)
                    | (t1, sub, t2) # subs' \<Rightarrow>
                        (let k2 = signals t1 t2 k1
                         in case sub of
                              Inr m \<Rightarrow> aio_submit_rest (cursor + m) n subs' gets k2
                            | Inl e \<Rightarrow> if e = EAGAIN then aio_submit_rest cursor n subs' gets (k2\<lparr>k_errno := 0\<rparr>)
                                       else if e = EINTR then aio_submit_rest cursor n subs' gets k2
                                       else (Some (Inl e), k2\<lparr>k_errno := e\<rparr>)))))"

definition aio_submit ::
  "nat \<Rightarrow> submit_call list \<Rightarrow> aio_get list \<Rightarrow> kern_world \<Rightarrow> (errno + aio_get list) option \<times> kern_world" where
  "aio_submit n subs gets k =
     (case subs of
        [] \<Rightarrow> (None, k)
      | (t1, sub, t2) # subs' \<Rightarrow>
          (let k1 = signals t1 t2 k
           in case sub of
                Inr m \<Rightarrow> aio_submit_rest m n subs' gets k1
              | Inl e \<Rightarrow> if e = EAGAIN then aio_submit_rest 0 n subs' gets (k1\<lparr>k_errno := 0\<rparr>)
                         else (Some (Inl e), k1\<lparr>k_errno := e\<rparr>)))"

subsection \<open>Dispatch\<close>

fun aio_process :: "(int \<times> events) list \<Rightarrow> kern_world \<Rightarrow> (int \<times> kern_world) option" where
  "aio_process [] k = Some (0, k)"
| "aio_process ((fd, res) # evs) k =
     (case vk_fd_table_get k fd of
        None \<Rightarrow> Some (- 1, k)
      | Some i \<Rightarrow>
          do { k1 \<leftarrow> vk_fd_table_process_fd i
                 (upd_fd i (\<lambda>sl. sl\<lparr>ioft_post := (ioft_post sl)
                    \<lparr>ioft_event := (ioft_event (ioft_pre sl))\<lparr>ev_revents := res\<rparr>\<rparr>\<rparr>) k);
               k2 \<leftarrow> vk_fd_table_clean_fd i k1;
               aio_process evs k2 })"

text \<open>One blocking call, not repeated: after \<open>EINTR\<close> or no event the turn is over.\<close>

definition aio_drain :: "aio_get list \<Rightarrow> kern_world \<Rightarrow> driven" where
  "aio_drain gets k =
     (case gets of
        [] \<Rightarrow> Some (None, k)
      | (s1, res, s2) # _ \<Rightarrow>
          (let k1 = signals s1 s2 k
           in case res of
                Inl e \<Rightarrow> if e = EINTR then Some (Some 0, k1\<lparr>k_errno := 0\<rparr>) else Some (Some (- 1), k1\<lparr>k_errno := e\<rparr>)
              | Inr es \<Rightarrow> map_option (\<lambda>(rc, k2). (Some rc, k2)) (aio_process es k1)))"

subsection \<open>The driver\<close>

text \<open>\<open>setup\<close> is the outcome of \<open>io_setup\<close>, \<open>ctx\<close> whether the context was made before.\<close>

definition vk_fd_table_aio_setup :: "errno option \<Rightarrow> kern_world \<Rightarrow> int \<times> kern_world" where
  "vk_fd_table_aio_setup setup k =
     (case setup of None \<Rightarrow> (0, k) | Some e \<Rightarrow> (- 1, k\<lparr>k_errno := e\<rparr>))"

definition vk_fd_table_aio ::
  "bool \<Rightarrow> errno option \<Rightarrow> submit_call list \<Rightarrow> aio_get list \<Rightarrow> kern_world \<Rightarrow> driven" where
  "vk_fd_table_aio ctx setup subs gets k =
     (case (if ctx then (0, k) else vk_fd_table_aio_setup setup k) of
        (rc, k0) \<Rightarrow>
          if rc = - 1 then Some (Some (- 1), k0)
          else (case aio_register [] k0 of
                  None \<Rightarrow> None
                | Some (reqs, k1) \<Rightarrow>
                    if \<not> vk_kern_pending k1 then Some (Some 0, k1)
                    else (case aio_submit (length reqs) subs gets k1 of
                            (None, k2) \<Rightarrow> Some (None, k2)
                          | (Some (Inl e), k2) \<Rightarrow> Some (Some (- 1), k2)
                          | (Some (Inr gets'), k2) \<Rightarrow> aio_drain gets' k2)))"

subsection \<open>Properties\<close>

text \<open>Every request is for a slot that was open and waiting when it was registered.\<close>

lemma aio_register_requests:
  "aio_register reqs k = Some (reqs', k') \<Longrightarrow> length reqs \<le> VK_FD_MAX \<Longrightarrow>
   length reqs' \<le> VK_FD_MAX \<and> (\<exists>new. reqs' = reqs @ new \<and> (\<forall>(fd, ev) \<in> set new. ev \<noteq> 0))"
proof (induction reqs k arbitrary: reqs' k' rule: aio_register.induct)
  case (1 reqs k)
  show ?case
  proof (cases "vk_fd_table_dequeue_dirty k")
    case None
    with 1 show ?thesis by (simp add: aio_register.simps [of reqs k])
  next
    case (Some p)
    obtain i k1 where p: "p = (i, k1)" by fastforce
    show ?thesis
    proof (cases "length reqs \<ge> VK_FD_MAX")
      case True
      with 1 Some p show ?thesis by (simp add: aio_register.simps [of reqs k])
    next
      case False
      then obtain k2 where k2: "vk_fd_table_clean_fd i k1 = Some k2"
        using 1 Some p by (auto simp: aio_register.simps [of reqs k] split: option.splits)
      show ?thesis
      proof (cases "fd_closed (k_fd k2 i) \<or> ev_events (ioft_event (ioft_pre (k_fd k2 i))) = 0")
        case True
        then have "aio_register reqs k2 = Some (reqs', k')"
          using 1 Some p False k2 by (simp add: aio_register.simps [of reqs k] Let_def)
        with 1(1) [OF Some p [symmetric] False k2 refl True] 1 show ?thesis by blast
      next
        case c: False
        let ?r = "(fd_num (k_fd k2 i), ev_events (ioft_event (ioft_pre (k_fd k2 i))))"
        have "aio_register (reqs @ [?r]) (upd_fd i (\<lambda>sl. sl\<lparr>ioft_post := ioft_pre sl\<rparr>) k2) = Some (reqs', k')"
          using 1 Some p False k2 c by (simp add: aio_register.simps [of reqs k] Let_def)
        with 1(2) [OF Some p [symmetric] False k2 refl c] False c show ?thesis by fastforce
      qed
    qed
  qed
qed

text \<open>When the system takes only a part of the requests, the events of the call that makes
  room for the rest are thrown away: the turn is the same whatever they are.\<close>

lemma aio_submit_ignores_events:
  assumes "m < n"
  shows "aio_submit n ((t1, Inr m, t2) # subs) ((s1, Inr (e # es), s2) # gets) k =
    aio_submit n ((t1, Inr m, t2) # subs) ((s1, Inr (e' # es'), s2) # gets) k"
  using assms by (simp add: aio_submit_def Let_def)

theorem aio_discards_events:
  assumes "\<And>reqs k1. aio_register [] k = Some (reqs, k1) \<Longrightarrow> m < length reqs"
  shows "vk_fd_table_aio True setup ((t1, Inr m, t2) # subs) ((s1, Inr (e # es), s2) # gets) k =
    vk_fd_table_aio True setup ((t1, Inr m, t2) # subs) ((s1, Inr (e' # es'), s2) # gets) k"
proof (cases "aio_register [] k")
  case (Some p)
  obtain reqs k1 where p: "p = (reqs, k1)" by fastforce
  have "m < length reqs" using assms Some p by simp
  from aio_submit_ignores_events [OF this, of t1 t2 subs s1 e es s2 gets k1 e' es'] Some p
  show ?thesis by (simp add: vk_fd_table_aio_def)
qed (simp add: vk_fd_table_aio_def)

end
