(* ===== verification/Isolate_Props.thy ===== *)
theory Isolate_Props
  imports Isolate
begin

text \<open>
  What the isolation gives and what it does not: every way out of the window leaves the gate
  open and the regions with their own protection, a coroutine that neither yields nor traps
  reaches no privileged page, and running a process isolated is running it plainly, except
  for a coroutine that pauses.
\<close>

subsection \<open>The protections after masking\<close>

definition grants :: "(vk_priv_region \<Rightarrow> bool) \<Rightarrow> vk_priv_region list \<Rightarrow> bool" where
  "grants allowed rs \<longleftrightarrow> (\<forall>r \<in> set rs. unat (region_addr r) mod 4096 = 0 \<and> allowed r)"

text \<open>A page of two regions has one protection to go back to.\<close>

definition agree :: "vk_priv_region list \<Rightarrow> bool" where
  "agree rs \<longleftrightarrow> (\<forall>r \<in> set rs. \<forall>r' \<in> set rs. \<forall>p. in_region r p \<longrightarrow> in_region r' p \<longrightarrow>
     prot_when_unmasked r = prot_when_unmasked r')"

definition privileged_page :: "vk_priv_region list \<Rightarrow> nat \<Rightarrow> bool" where
  "privileged_page rs p \<longleftrightarrow> (\<exists>r \<in> set rs. in_region r p)"

lemma fold_mprotect_outside:
  "\<not> privileged_page rs p \<Longrightarrow> fold (\<lambda>r. os_mprotect allowed r (q r)) rs pg p = pg p"
  by (induction rs arbitrary: pg) (auto simp: privileged_page_def os_mprotect_def)

lemma os_mprotect_in:
  "grants allowed (r # rs) \<Longrightarrow> in_region r p \<Longrightarrow> os_mprotect allowed r v pg p = v"
  by (simp add: grants_def os_mprotect_def)

lemma fold_mprotect_inside:
  assumes "grants allowed rs" "privileged_page rs p" "\<forall>r \<in> set rs. in_region r p \<longrightarrow> q r = v"
  shows "fold (\<lambda>r. os_mprotect allowed r (q r)) rs pg p = v"
  using assms
proof (induction rs arbitrary: pg)
  case Nil
  then show ?case by (simp add: privileged_page_def)
next
  case (Cons r rs)
  show ?case
  proof (cases "privileged_page rs p")
    case True
    with Cons show ?thesis by (simp add: grants_def)
  next
    case False
    then have "in_region r p" using Cons.prems(2) by (simp add: privileged_page_def)
    with Cons.prems False show ?thesis by (simp add: fold_mprotect_outside os_mprotect_in)
  qed
qed

lemma mask_regions_sel [simp]:
  "iso (mask_regions al p s) = iso s" "t_in_isolated_window (mask_regions al p s) = t_in_isolated_window s"
  "t_in_sigsys_handler (mask_regions al p s) = t_in_sigsys_handler s" "t_current (mask_regions al p s) = t_current s"
  "dispatched (mask_regions al p s) = dispatched s" "accessed (mask_regions al p s) = accessed s" "called (mask_regions al p s) = called s"
  "iso_world (mask_regions al p s) = iso_world s"
  by (simp_all add: mask_regions_def)

lemma sud_set_sel [simp]:
  "pages (sud_set v s) = pages s" "t_in_isolated_window (sud_set v s) = t_in_isolated_window s"
  "t_in_sigsys_handler (sud_set v s) = t_in_sigsys_handler s" "t_current (sud_set v s) = t_current s"
  "dispatched (sud_set v s) = dispatched s" "accessed (sud_set v s) = accessed s" "called (sud_set v s) = called s"
  "iso_world (sud_set v s) = iso_world s" "regions (iso (sud_set v s)) = regions (iso s)"
  "cb (iso (sud_set v s)) = cb (iso s)" "user_state (iso (sud_set v s)) = user_state (iso s)"
  "sud_enabled (iso (sud_set v s)) = sud_enabled (iso s)"
  "sud_switch (iso (sud_set v s)) = None \<longleftrightarrow> sud_switch (iso s) = None"
  "libc_start (iso (sud_set v s)) = libc_start (iso s)" "libc_size (iso (sud_set v s)) = libc_size (iso s)"
  by (simp_all add: sud_set_def upd_iso_def)

lemma run_cb_sel [simp]:
  "iso (run_cb s) = iso s" "pages (run_cb s) = pages s" "t_in_isolated_window (run_cb s) = t_in_isolated_window s"
  "t_in_sigsys_handler (run_cb s) = t_in_sigsys_handler s" "t_current (run_cb s) = t_current s"
  "dispatched (run_cb s) = dispatched s" "accessed (run_cb s) = accessed s" "called (run_cb s) = called s"
  by (simp_all add: run_cb_def split: option.splits)

lemma os_call_sel [simp]:
  "iso (os_call e s) = iso s" "t_in_isolated_window (os_call e s) = t_in_isolated_window s"
  "t_in_sigsys_handler (os_call e s) = t_in_sigsys_handler s" "t_current (os_call e s) = t_current s"
  "accessed (os_call e s) = accessed s" "called (os_call e s) = called s" "iso_world (os_call e s) = iso_world s"
  "pages (os_call e s) = fst (e (pages s, dispatched s))"
  by (simp_all add: os_call_def split_beta)

text \<open>A system call that leaves the privileged pages alone.\<close>

definition spares :: "vk_priv_region list \<Rightarrow> syscall_effect \<Rightarrow> bool" where
  "spares rs e \<longleftrightarrow> (\<forall>st p. privileged_page rs p \<longrightarrow> fst (e st) p = fst st p)"

subsection \<open>The two states of the gate\<close>

text \<open>An instance that traps has its selector.\<close>

definition has_switch :: "'w vk_isolate \<Rightarrow> bool" where
  "has_switch vk \<longleftrightarrow> (sud_enabled vk \<longrightarrow> sud_switch vk \<noteq> None)"

definition gate_open :: "'w iso_thread \<Rightarrow> bool" where
  "gate_open s \<longleftrightarrow> \<not> t_in_isolated_window s \<and>
     (sud_enabled (iso s) \<longrightarrow> sud_switch (iso s) = Some SYSCALL_DISPATCH_FILTER_ALLOW) \<and>
     (\<forall>r \<in> set (regions (iso s)). \<forall>p. in_region r p \<longrightarrow> pages s p = prot_when_unmasked r)"

definition gate_shut :: "'w iso_thread \<Rightarrow> bool" where
  "gate_shut s \<longleftrightarrow> t_in_isolated_window s \<and> t_current s \<and>
     (sud_enabled (iso s) \<longrightarrow> sud_switch (iso s) = Some SYSCALL_DISPATCH_FILTER_BLOCK) \<and>
     (\<forall>p. privileged_page (regions (iso s)) p \<longrightarrow> pages s p = PROT_NONE)"

definition gated :: "(vk_priv_region \<Rightarrow> bool) \<Rightarrow> 'w iso_thread \<Rightarrow> bool" where
  "gated allowed s \<longleftrightarrow> has_switch (iso s) \<and> grants allowed (regions (iso s)) \<and> agree (regions (iso s))"

lemma gated_frame:
  "iso s' = iso s \<Longrightarrow> gated al s \<Longrightarrow> gated al s'"
  by (simp add: gated_def)

lemma gated_sud [simp]: "gated al (sud_set v s) \<longleftrightarrow> gated al s"
  by (simp add: gated_def has_switch_def)

lemma open_gate_opens:
  assumes "gated al s"
  shows "gate_open (open_gate al s)" "gated al (open_gate al s)"
proof -
  have "pages (open_gate al s) p = prot_when_unmasked r"
    if "r \<in> set (regions (iso s))" "in_region r p" for r p
  proof -
    have q: "\<forall>r' \<in> set (regions (iso s)). in_region r' p \<longrightarrow> prot_when_unmasked r' = prot_when_unmasked r"
      using assms that unfolding gated_def agree_def by blast
    have "privileged_page (regions (iso s)) p" using that by (auto simp: privileged_page_def)
    moreover have "grants al (regions (iso s))" using assms by (simp add: gated_def)
    ultimately have "fold (\<lambda>r. os_mprotect al r (prot_when_unmasked r)) (regions (iso s)) (pages s) p =
        prot_when_unmasked r"
      using q by (intro fold_mprotect_inside)
    then show ?thesis by (simp add: open_gate_def mask_regions_def sud_allow_syscalls_def)
  qed
  moreover have "sud_switch (iso (open_gate al s)) = Some SYSCALL_DISPATCH_FILTER_ALLOW" if "sud_enabled (iso s)"
    using assms that
    by (auto simp: open_gate_def sud_allow_syscalls_def sud_set_def upd_iso_def gated_def has_switch_def)
  moreover have "sud_enabled (iso (open_gate al s)) = sud_enabled (iso s)"
    "regions (iso (open_gate al s)) = regions (iso s)" "\<not> t_in_isolated_window (open_gate al s)"
    by (simp_all add: open_gate_def sud_allow_syscalls_def)
  ultimately show "gate_open (open_gate al s)" by (simp add: gate_open_def)
  show "gated al (open_gate al s)"
    by (rule gated_frame [of _ "sud_allow_syscalls s"])
      (simp_all add: open_gate_def sud_allow_syscalls_def assms)
qed

lemma gate_open_frame:
  "iso s' = iso s \<Longrightarrow> pages s' = pages s \<Longrightarrow> t_in_isolated_window s' = t_in_isolated_window s \<Longrightarrow>
   gate_open s \<Longrightarrow> gate_open s'"
  by (simp add: gate_open_def)

lemma gate_shut_frame:
  "iso s' = iso s \<Longrightarrow> pages s' = pages s \<Longrightarrow> t_in_isolated_window s' = t_in_isolated_window s \<Longrightarrow>
   t_current s' = t_current s \<Longrightarrow> gate_shut s \<Longrightarrow> gate_shut s'"
  by (simp add: gate_shut_def)

lemma enter_window_shuts:
  assumes "gated al s"
  shows "gate_shut (enter_window al s)" "gated al (enter_window al s)"
proof -
  let ?m = "mask_regions al (Some PROT_NONE) (s\<lparr>t_current := True\<rparr>)"
  have g: "gated al ?m" by (rule gated_frame [OF _ assms]) simp
  have "pages ?m p = PROT_NONE" if "privileged_page (regions (iso s)) p" for p
    using assms that by (simp add: mask_regions_def gated_def fold_mprotect_inside [where q = "\<lambda>_. PROT_NONE"])
  moreover have "sud_switch (iso (sud_block_syscalls ?m)) = Some SYSCALL_DISPATCH_FILTER_BLOCK"
    if "sud_enabled (iso s)"
    using g that by (auto simp: sud_block_syscalls_def sud_set_def upd_iso_def gated_def has_switch_def)
  ultimately show "gate_shut (enter_window al s)"
    by (simp add: gate_shut_def enter_window_def sud_block_syscalls_def)
  show "gated al (enter_window al s)"
    by (rule gated_frame [of _ "sud_block_syscalls ?m"])
      (simp_all add: enter_window_def sud_block_syscalls_def g)
qed

subsection \<open>Running the coroutine\<close>

lemma run_cb_open: "gate_open s \<Longrightarrow> gate_open (run_cb s)"
  by (rule gate_open_frame [of _ s]) simp_all

lemma run_cb_gated: "gated al s \<Longrightarrow> gated al (run_cb s)"
  by (rule gated_frame [of _ s]) simp_all

lemma yield_opens:
  assumes "gated al s" "gate_open s \<or> gate_shut s"
  shows "gate_open (vk_isolate_yield al s)" "gated al (vk_isolate_yield al s)"
  using assms open_gate_opens [OF assms(1)]
  by (auto simp: vk_isolate_yield_def run_cb_open run_cb_gated gate_shut_def)

lemma sigsys_opens:
  assumes "gated al s" "t_current s" "\<not> t_in_sigsys_handler s"
  shows "gate_open (vk_sigsys_handler al s)" "gated al (vk_sigsys_handler al s)"
proof -
  let ?s = "s\<lparr>t_in_sigsys_handler := True\<rparr>"
  have g: "gated al ?s" by (rule gated_frame [OF _ assms(1)]) simp
  have eq: "vk_sigsys_handler al s = (run_cb (open_gate al ?s))\<lparr>t_in_sigsys_handler := False\<rparr>"
    using assms by (simp add: vk_sigsys_handler_def)
  show "gate_open (vk_sigsys_handler al s)"
    unfolding eq by (rule gate_open_frame [OF _ _ _ run_cb_open [OF open_gate_opens(1) [OF g]]]) simp_all
  show "gated al (vk_sigsys_handler al s)"
    unfolding eq by (rule gated_frame [OF _ run_cb_gated [OF open_gate_opens(2) [OF g]]]) simp
qed

lemma open_gate_sel [simp]:
  "t_in_sigsys_handler (open_gate al s) = t_in_sigsys_handler s" "t_current (open_gate al s) = t_current s"
  "accessed (open_gate al s) = accessed s" "called (open_gate al s) = called s"
  "iso_world (open_gate al s) = iso_world s"
  by (simp_all add: open_gate_def sud_allow_syscalls_def)

lemma yield_sel [simp]:
  "t_in_sigsys_handler (vk_isolate_yield al s) = t_in_sigsys_handler s"
  "accessed (vk_isolate_yield al s) = accessed s" "called (vk_isolate_yield al s) = called s"
  by (simp_all add: vk_isolate_yield_def)

lemma enter_window_sel [simp]:
  "accessed (enter_window al s) = accessed s" "regions (iso (enter_window al s)) = regions (iso s)"
  "sud_enabled (iso (enter_window al s)) = sud_enabled (iso s)"
  "libc_start (iso (enter_window al s)) = libc_start (iso s)"
  "libc_size (iso (enter_window al s)) = libc_size (iso s)"
  "dispatched (enter_window al s) = dispatched s" "called (enter_window al s) = called s" "iso_world (enter_window al s) = iso_world s"
  "cb (iso (enter_window al s)) = cb (iso s)" "user_state (iso (enter_window al s)) = user_state (iso s)"
  "t_in_isolated_window (enter_window al s)" "t_current (enter_window al s)"
  "t_in_sigsys_handler (enter_window al s) = t_in_sigsys_handler s"
  by (simp_all add: enter_window_def sud_block_syscalls_def)

text \<open>Between two actions of the coroutine either the gate is open or the window is. In the window the
  coroutine may change any protection it can; with the gate open its system calls have to
  leave the privileged pages alone, since nothing puts them back later.\<close>

definition lawful :: "vk_priv_region list \<Rightarrow> 'w act list \<Rightarrow> bool" where
  "lawful rs = list_all (\<lambda>a. case a of Syscall _ e \<Rightarrow> spares rs e | _ \<Rightarrow> True)"

text \<open>What is left to do when the gate may have opened for the first time.\<close>

fun once_open :: "'w vk_isolate \<Rightarrow> 'w act list \<Rightarrow> 'w act list" where
  "once_open vk [] = []"
| "once_open vk (Yield # as) = as"
| "once_open vk (Syscall pc e # as) =
     (if sud_enabled vk \<and> \<not> pc - libc_start vk < libc_size vk then as else once_open vk as)"
| "once_open vk (a # as) = once_open vk as"

lemma once_open_cong:
  "sud_enabled v = sud_enabled u \<Longrightarrow> libc_start v = libc_start u \<Longrightarrow> libc_size v = libc_size u \<Longrightarrow>
    once_open v as = once_open u as"
  by (induction u as rule: once_open.induct) simp_all

definition settled :: "(vk_priv_region \<Rightarrow> bool) \<Rightarrow> 'w act list \<Rightarrow> 'w iso_thread \<Rightarrow> bool" where
  "settled al as s \<longleftrightarrow> gated al s \<and> \<not> t_in_sigsys_handler s \<and>
     (gate_open s \<and> lawful (regions (iso s)) as \<or>
      t_in_isolated_window s \<and> t_current s \<and> lawful (regions (iso s)) (once_open (iso s) as))"

definition ran_ok :: "('w iso_thread \<Rightarrow> bool) \<Rightarrow> 'w ran \<Rightarrow> bool" where
  "ran_ok P r \<longleftrightarrow> (case r of Back s \<Rightarrow> P s | Faulted s \<Rightarrow> P s | Lost \<Rightarrow> True)"

lemma ran_ok_simps [simp]:
  "ran_ok P (Back s) = P s" "ran_ok P (Faulted s) = P s" "ran_ok P Lost"
  by (simp_all add: ran_ok_def)

lemma settled_frame:
  assumes "settled al as s" "iso s' = iso s" "pages s' = pages s"
    "t_in_isolated_window s' = t_in_isolated_window s" "t_current s' = t_current s"
    "t_in_sigsys_handler s' = t_in_sigsys_handler s"
  shows "settled al as s'"
  using assms gated_frame [OF assms(2)] gate_open_frame [OF assms(2-4)] by (auto simp: settled_def)

lemma settled_rest: "settled al as s \<Longrightarrow> settled al [] s"
  by (auto simp: settled_def lawful_def)

lemma settled_compute: "settled al (Compute f # as) s \<Longrightarrow> settled al as s"
  and settled_access: "settled al (Access a # as) s \<Longrightarrow> settled al as s"
  by (auto simp: settled_def lawful_def)

lemma settled_call:
  assumes "settled al (Syscall pc e # as) s"
  shows "settled al as (os_call e s)"
proof -
  let ?rs = "regions (iso s)"
  have g: "gated al (os_call e s)" by (rule gated_frame [of _ s]) (use assms in \<open>simp_all add: settled_def\<close>)
  show ?thesis
  proof (cases "gate_open s \<and> lawful ?rs (Syscall pc e # as)")
    case True
    then have sp: "spares ?rs e" by (simp add: lawful_def)
    have same: "fst (e (pages s, dispatched s)) p = pages s p" if "privileged_page ?rs p" for p
      using sp that unfolding spares_def by (metis fst_conv)
    have "fst (e (pages s, dispatched s)) p = prot_when_unmasked r" if "r \<in> set ?rs" "in_region r p" for r p
    proof -
      have "privileged_page ?rs p" using that by (auto simp: privileged_page_def)
      then show ?thesis using same True that by (simp add: gate_open_def)
    qed
    then have "gate_open (os_call e s)" using True by (simp add: gate_open_def)
    then show ?thesis using g True assms by (simp add: settled_def lawful_def)
  next
    case False
    then have w: "t_in_isolated_window s" "t_current s" "lawful ?rs (once_open (iso s) (Syscall pc e # as))"
      using assms by (auto simp: settled_def)
    have "lawful ?rs as \<Longrightarrow> lawful ?rs (once_open (iso s) as)"
      by (induction "iso s" as rule: once_open.induct) (auto simp: lawful_def)
    then have "lawful ?rs (once_open (iso s) as)" using w(3) by (auto split: if_splits)
    then show ?thesis using g w assms by (simp add: settled_def)
  qed
qed

lemma opened_iso:
  "regions (iso (vk_isolate_yield al s)) = regions (iso s)" "regions (iso (vk_sigsys_handler al s)) = regions (iso s)"
  by (simp_all add: vk_isolate_yield_def vk_sigsys_handler_def open_gate_def sud_allow_syscalls_def)

lemma settled_trap:
  assumes "settled al (Syscall pc e # as) s" "traps pc s"
  shows "settled al as (vk_sigsys_handler al s)"
proof -
  have "\<not> gate_open s"
    using assms(2) by (simp add: gate_open_def traps_def SYSCALL_DISPATCH_FILTER_BLOCK_def SYSCALL_DISPATCH_FILTER_ALLOW_def)
  then have s: "t_current s" "lawful (regions (iso s)) as" "gated al s" "\<not> t_in_sigsys_handler s"
    using assms by (auto simp: settled_def traps_def)
  moreover have "\<not> t_in_sigsys_handler (vk_sigsys_handler al s)" using s by (simp add: vk_sigsys_handler_def)
  ultimately show ?thesis using sigsys_opens [OF s(3,1,4)] by (simp add: settled_def opened_iso)
qed

lemma yield_opens_any:
  assumes "gated al s" "gate_open s \<or> t_in_isolated_window s"
  shows "gate_open (vk_isolate_yield al s)" "gated al (vk_isolate_yield al s)"
  using assms open_gate_opens [OF assms(1)]
  by (auto simp: vk_isolate_yield_def run_cb_open run_cb_gated)

lemma run_actor_settled: "settled al as s \<Longrightarrow> ran_ok (settled al []) (run_actor al as s)"
proof (induction al as s rule: run_actor.induct)
  case (1 al s)
  then show ?case by simp
next
  case (2 al f as s)
  show ?case
  proof (cases "f (iso_world s)")
    case (Some w)
    have "settled al as (s\<lparr>iso_world := w\<rparr>)"
      by (rule settled_frame [OF settled_compute [OF "2.prems"]]) simp_all
    with 2 Some show ?thesis by simp
  qed simp
next
  case (3 al a as s)
  have "settled al as (s\<lparr>accessed := accessed s @ [a]\<rparr>)"
    by (rule settled_frame [OF settled_access [OF "3.prems"]]) simp_all
  with 3 settled_rest [OF "3.prems"] show ?case by simp
next
  case (4 al pc e as s)
  have "settled al (Syscall pc e # as) (s\<lparr>called := called s @ [pc]\<rparr>)"
    by (rule settled_frame [OF "4.prems"]) simp_all
  from settled_call [OF this] settled_trap [OF "4.prems"] 4(1,2) show ?case by simp
next
  case (5 al as s)
  have "\<not> t_in_sigsys_handler s" "lawful (regions (iso s)) as" "gate_open s \<or> t_in_isolated_window s" "gated al s"
    using "5.prems" by (auto simp: settled_def lawful_def)
  then have "settled al as (vk_isolate_yield al s)"
    using yield_opens_any [of al s] by (simp add: settled_def opened_iso)
  with 5 show ?case by simp
qed

text \<open>C8: Whatever a coroutine does in its isolated time slice - returning, yielding, making
  system calls that trap or are let through, changing the protection of any page while it is
  in the window, or faulting - the scheduler gets back a thread outside of the window, with
  system calls allowed and every privileged region at its own protection again; after a fault
  this is the work of \<open>vk_isolate_on_signal\<close>, which the jumper calls. Only a coroutine that
  changes the protections of privileged pages itself after the gate was opened, by a yield or
  a trap, is left with what it did.\<close>

theorem isolate_gate_reopens:
  assumes "has_switch (iso s)" "grants allowed (regions (iso s))" "agree (regions (iso s))"
    "\<not> t_in_sigsys_handler s" "lawful (regions (iso s)) (once_open (iso s) as)"
  shows "case vk_isolate_continue allowed (Some as) s of
      Back s' \<Rightarrow> gate_open s'
    | Faulted s' \<Rightarrow> gate_open (vk_isolate_on_signal allowed s')
    | Lost \<Rightarrow> True"
proof -
  let ?e = "enter_window allowed s"
  have "gated allowed s" using assms by (simp add: gated_def)
  from enter_window_shuts [OF this] have "gate_shut ?e" "gated allowed ?e" .
  moreover have "once_open (iso ?e) as = once_open (iso s) as" by (rule once_open_cong) simp_all
  ultimately have "settled allowed as ?e" using assms(4,5) by (simp add: settled_def gate_shut_def)
  then have r: "ran_ok (settled allowed []) (run_actor allowed as ?e)" by (rule run_actor_settled)
  show ?thesis
  proof (cases "run_actor allowed as ?e")
    case (Back s1)
    with r show ?thesis using yield_opens_any [of allowed s1]
      by (auto simp: vk_isolate_continue_def settled_def)
  next
    case (Faulted s1)
    with r show ?thesis using open_gate_opens [of allowed s1]
      by (simp add: vk_isolate_continue_def vk_isolate_on_signal_def settled_def)
  qed (simp add: vk_isolate_continue_def)
qed

text \<open>Two regions of a page each, one readable and one writable, and a traced thread.\<close>

definition traced_thread :: "nat iso_thread" where
  "traced_thread =
     \<lparr>t_in_isolated_window = False, t_in_sigsys_handler = False, t_current = False,
      pages = (\<lambda>_. PROT_READ OR PROT_WRITE), dispatched = True, accessed = [], called = [],
      iso = fresh_isolate\<lparr>cb := Some (\<lambda>_ n. n + 1), sud_supported := True, sud_enabled := True,
              sud_switch := Some SYSCALL_DISPATCH_FILTER_ALLOW, libc_start := 0x10000, libc_size := 0x1000,
              regions := [\<lparr>region_addr = 0x2000, region_len = 0x1000, prot_when_unmasked = PROT_READ\<rparr>,
                          \<lparr>region_addr = 0x3000, region_len = 0x1000, prot_when_unmasked = PROT_WRITE\<rparr>]\<rparr>,
      iso_world = 0\<rparr>"

lemma traced_thread_gated: "has_switch (iso traced_thread)" "grants (\<lambda>_. True) (regions (iso traced_thread))"
  "agree (regions (iso traced_thread))" "\<not> t_in_sigsys_handler traced_thread"
  by (auto simp: traced_thread_def fresh_isolate_def has_switch_def grants_def agree_def in_region_def)

text \<open>An \<open>mprotect\<close> that makes everything readable and writable.\<close>

definition unmask_all :: syscall_effect where
  "unmask_all st = ((\<lambda>_. PROT_READ OR PROT_WRITE), snd st)"

lemma isolate_gate_reopens_witness:
  "case vk_isolate_continue (\<lambda>_. True) (Some [Access 0x5000, Syscall 0x10020 unmask_all, Access 0x3000, Syscall 0x400 id, Access 0x2000])
      traced_thread of
      Back s' \<Rightarrow> gate_open s'
    | Faulted s' \<Rightarrow> gate_open (vk_isolate_on_signal (\<lambda>_. True) s')
    | Lost \<Rightarrow> True"
  by (rule isolate_gate_reopens [OF traced_thread_gated]) (simp add: lawful_def spares_def traced_thread_def fresh_isolate_def)

subsection \<open>What a coroutine can reach\<close>

text \<open>It does not yield, its system calls are those of the C library when they are trapped, and they
  leave the privileged pages alone.\<close>

definition quiet :: "'w vk_isolate \<Rightarrow> 'w act list \<Rightarrow> bool" where
  "quiet vk = list_all (\<lambda>a. case a of Yield \<Rightarrow> False
     | Syscall pc e \<Rightarrow> (\<not> sud_enabled vk \<or> pc - libc_start vk < libc_size vk) \<and> spares (regions vk) e
     | _ \<Rightarrow> True)"

definition reaches :: "('w iso_thread \<Rightarrow> 'w iso_thread \<Rightarrow> bool)" where
  "reaches s s' \<longleftrightarrow> (\<exists>bs. accessed s' = accessed s @ bs \<and>
     (\<forall>a \<in> set bs. \<not> privileged_page (regions (iso s)) (page_of a)))"

lemma run_actor_confined:
  "gate_shut s \<Longrightarrow> quiet (iso s) as \<Longrightarrow> ran_ok (reaches s) (run_actor al as s)"
proof (induction al as s rule: run_actor.induct)
  case (1 al s)
  then show ?case by (simp add: reaches_def)
next
  case (2 al f as s)
  then show ?case
    by (auto simp: quiet_def gate_shut_def reaches_def split: option.split)
next
  case (3 al a as s)
  show ?case
  proof (cases "pages s (page_of a) = PROT_NONE")
    case True
    then show ?thesis by (simp add: reaches_def)
  next
    case False
    let ?s = "s\<lparr>accessed := accessed s @ [a]\<rparr>"
    have shut: "gate_shut ?s" by (rule gate_shut_frame [OF _ _ _ _ "3.prems"(1)]) simp_all
    have "quiet (iso ?s) as" using "3.prems"(2) by (simp add: quiet_def)
    with 3 False shut have r: "ran_ok (reaches ?s) (run_actor al as ?s)" by blast
    have "\<not> privileged_page (regions (iso s)) (page_of a)" using "3.prems"(1) False by (auto simp: gate_shut_def)
    then have "reaches ?s s' \<Longrightarrow> reaches s s'" for s' by (auto simp: reaches_def)
    with r False show ?thesis by (auto simp: ran_ok_def split: ran.splits)
  qed
next
  case (4 al pc e as s)
  have n: "\<not> traps pc s" using "4.prems" by (auto simp: quiet_def traps_def)
  let ?s = "os_call e (s\<lparr>called := called s @ [pc]\<rparr>)"
  have "spares (regions (iso s)) e" using "4.prems"(2) by (simp add: quiet_def)
  then have shut: "gate_shut ?s" using "4.prems"(1) by (simp add: gate_shut_def spares_def)
  have "quiet (iso ?s) as" using "4.prems"(2) by (simp add: quiet_def)
  with 4 n shut have "ran_ok (reaches ?s) (run_actor al as ?s)" by blast
  moreover have "reaches ?s = reaches s" by (simp add: reaches_def fun_eq_iff)
  ultimately show ?case using n by simp
next
  case (5 al as s)
  then show ?case by (simp add: quiet_def)
qed

text \<open>C9: As long as the coroutine does not yield, its system calls stay in the range of the C
  library and none of them changes the protection of a privileged page, no page of a
  privileged region is reached in its time slice, also not after a system call that was let
  through: the accesses the system granted are all outside of the regions, and the first
  access inside of one is a fault. The condition on the system calls is the coroutine's to
  keep: the isolation lets the C library's own \<open>mprotect\<close> through, and
  \<open>let_through_mprotect_escapes\<close> below says what follows.\<close>

theorem isolate_confines_actor:
  assumes "has_switch (iso s)" "grants allowed (regions (iso s))" "agree (regions (iso s))"
    "quiet (iso s) as"
  shows "case vk_isolate_continue allowed (Some as) s of
      Back s' \<Rightarrow> reaches s s' | Faulted s' \<Rightarrow> reaches s s' | Lost \<Rightarrow> True"
proof -
  let ?e = "enter_window allowed s"
  have "gate_shut ?e" using assms by (intro enter_window_shuts) (simp add: gated_def)
  moreover have "quiet (iso ?e) as" using assms(4) by (simp only: quiet_def enter_window_sel)
  ultimately have r: "ran_ok (reaches ?e) (run_actor allowed as ?e)" by (rule run_actor_confined)
  have "reaches ?e = reaches s" by (simp add: reaches_def fun_eq_iff)
  with r have "ran_ok (reaches s) (run_actor allowed as ?e)" by simp
  moreover have "reaches s (vk_isolate_yield allowed s1) \<longleftrightarrow> reaches s s1" for s1 by (simp add: reaches_def)
  ultimately show ?thesis by (auto simp: vk_isolate_continue_def ran_ok_def split: ran.splits)
qed

lemma isolate_confines_actor_witness:
  "\<exists>s'. vk_isolate_continue (\<lambda>_. True) (Some [Access 0x5000, Syscall 0x10010 (\<lambda>st. (fst st, False)), Access 0x2000])
      traced_thread = Faulted s' \<and> reaches traced_thread s' \<and> accessed s' = [0x5000]"
proof -
  let ?as = "[Access 0x5000, Syscall 0x10010 (\<lambda>st. (fst st, False)), Access 0x2000]"
  have "quiet (iso traced_thread) ?as" by (simp add: quiet_def spares_def traced_thread_def fresh_isolate_def)
  note r = isolate_confines_actor [OF traced_thread_gated(1-3) this]
  have "\<exists>s'. vk_isolate_continue (\<lambda>_. True) (Some ?as) traced_thread = Faulted s' \<and> accessed s' = [0x5000]"
    by (simp add: vk_isolate_continue_def enter_window_def mask_regions_def sud_block_syscalls_def sud_set_def upd_iso_def
        os_mprotect_def in_region_def page_of_def traps_def os_call_def traced_thread_def fresh_isolate_def
        PROT_NONE_def PROT_READ_def PROT_WRITE_def)
  then show ?thesis using r by auto
qed

text \<open>The C library's own calls are all let through, \<open>mprotect\<close> among them: a coroutine that calls it
  is granted any page it asks for, still in the window, and the scheduler notices nothing.\<close>

theorem let_through_mprotect_escapes:
  assumes "has_switch (iso s)" "grants allowed (regions (iso s))" "agree (regions (iso s))" "\<not> t_in_sigsys_handler s"
    "pc - libc_start (iso s) < libc_size (iso s)" "\<And>st. fst (e st) (page_of a) \<noteq> PROT_NONE"
  shows "\<exists>s'. vk_isolate_continue allowed (Some [Syscall pc e, Access a]) s = Back s' \<and>
    accessed s' = accessed s @ [a] \<and> gate_open s'"
proof -
  let ?e = "enter_window allowed s"
  let ?u = "os_call e (?e\<lparr>called := called s @ [pc]\<rparr>)"
  let ?s1 = "?u\<lparr>accessed := accessed s @ [a]\<rparr>"
  have "\<not> traps pc ?e" using assms(5) by (simp add: traps_def)
  moreover have "pages ?u (page_of a) \<noteq> PROT_NONE" using assms(6) by simp
  ultimately have "run_actor allowed [Syscall pc e, Access a] ?e = Back ?s1" by simp
  then have r: "vk_isolate_continue allowed (Some [Syscall pc e, Access a]) s = Back (vk_isolate_yield allowed ?s1)"
    by (simp add: vk_isolate_continue_def)
  have "gated allowed ?e" by (rule enter_window_shuts(2)) (simp add: gated_def assms(1-3))
  then have "gated allowed ?s1" by (rule gated_frame [rotated]) simp
  then have "gate_open (vk_isolate_yield allowed ?s1)" by (rule yield_opens_any) simp
  then show ?thesis using r by simp
qed

lemma let_through_mprotect_escapes_witness:
  "\<exists>s'. vk_isolate_continue (\<lambda>_. True) (Some [Syscall 0x10020 unmask_all, Access 0x2000]) traced_thread = Back s' \<and>
    accessed s' = [0x2000] \<and> gate_open s'"
  using let_through_mprotect_escapes [OF traced_thread_gated, of "0x10020" unmask_all "0x2000"]
  by (auto simp: traced_thread_def fresh_isolate_def unmask_all_def PROT_NONE_def PROT_READ_def PROT_WRITE_def)

text \<open>A trapped system call ends the isolation of the rest of the time slice: the handler
  opens the gate and returns into the coroutine, whose later accesses to privileged pages
  are all granted.\<close>

theorem trapped_syscall_ends_isolation:
  assumes "has_switch (iso s)" "grants allowed (regions (iso s))" "agree (regions (iso s))"
    "sud_enabled (iso s)" "dispatched s" "\<not> pc - libc_start (iso s) < libc_size (iso s)" "\<not> t_in_sigsys_handler s"
    "\<forall>a \<in> set xs. \<exists>r \<in> set (regions (iso s)). in_region r (page_of a) \<and> prot_when_unmasked r \<noteq> PROT_NONE"
  shows "\<exists>s'. vk_isolate_continue allowed (Some (Syscall pc e # map Access xs)) s = Back s' \<and>
    accessed s' = accessed s @ xs"
proof -
  let ?e = "enter_window allowed s"
  let ?h = "vk_sigsys_handler allowed ?e"
  have g: "gated allowed s" using assms by (simp add: gated_def)
  have t: "traps pc ?e" using enter_window_shuts(1) [OF g] assms by (simp add: gate_shut_def traps_def)
  have o: "gate_open ?h" by (rule sigsys_opens) (use enter_window_shuts [OF g] assms in \<open>simp_all\<close>)
  have rh: "regions (iso ?h) = regions (iso s)" and ah: "accessed ?h = accessed s"
    by (auto simp: vk_sigsys_handler_def open_gate_def sud_allow_syscalls_def)
  have run: "run_actor allowed (map Access ys) s1 = Back (s1\<lparr>accessed := accessed s1 @ ys\<rparr>)"
    if "\<forall>a \<in> set ys. pages s1 (page_of a) \<noteq> PROT_NONE" for ys s1
    using that by (induction ys arbitrary: s1) simp_all
  have "\<forall>a \<in> set xs. pages ?h (page_of a) \<noteq> PROT_NONE"
    using assms(8) o rh unfolding gate_open_def by fastforce
  from run [OF this] t
  have "run_actor allowed (Syscall pc e # map Access xs) ?e = Back (?h\<lparr>accessed := accessed s @ xs\<rparr>)"
    by (simp add: ah)
  then show ?thesis by (auto simp: vk_isolate_continue_def)
qed

lemma trapped_syscall_ends_isolation_witness:
  "\<exists>s'. vk_isolate_continue (\<lambda>_. True) (Some (Syscall 0x400 id # map Access [0x2000, 0x3ff8])) traced_thread = Back s' \<and>
    accessed s' = [0x2000, 0x3ff8]"
  using trapped_syscall_ends_isolation [OF traced_thread_gated(1-3), of "0x400" "[0x2000, 0x3ff8]"]
  by (auto simp: traced_thread_def fresh_isolate_def in_region_def page_of_def PROT_READ_def PROT_WRITE_def PROT_NONE_def)

subsection \<open>Running a process isolated\<close>

text \<open>The call \<open>func(that)\<close> of the dispatch loop in the window, for an instance and a thread
  at rest \<open>s\<close>; the world is that of the process.\<close>

definition isolated_call ::
  "(vk_priv_region \<Rightarrow> bool) \<Rightarrow> vk_world iso_thread \<Rightarrow>
   (vk_world \<Rightarrow> vk_world option) \<Rightarrow> vk_world \<Rightarrow> vk_world option" where
  "isolated_call allowed s f w =
     (case vk_isolate_continue allowed (Some [Compute f]) (s\<lparr>iso_world := w\<rparr>) of
        Back s' \<Rightarrow> Some (iso_world s') | _ \<Rightarrow> None)"

definition kernel_isolate :: "vk_world iso_thread \<Rightarrow> bool" where
  "kernel_isolate s \<longleftrightarrow> cb (iso s) = Some vk_isolate_scheduler_cb"

lemma isolated_call_eq:
  assumes "kernel_isolate s"
  shows "isolated_call allowed s f w = map_option (vk_isolate_scheduler_cb (user_state (iso s))) (f w)"
proof (cases "f w")
  case (Some w')
  let ?e = "enter_window allowed (s\<lparr>iso_world := w\<rparr>)"
  have "iso_world (run_cb (open_gate allowed (?e\<lparr>iso_world := w'\<rparr>))) =
      vk_isolate_scheduler_cb (user_state (iso s)) w'"
    using assms by (simp add: run_cb_def kernel_isolate_def open_gate_def sud_allow_syscalls_def)
  with Some show ?thesis
    by (simp add: isolated_call_def vk_isolate_continue_def vk_isolate_yield_def)
qed (simp add: isolated_call_def vk_isolate_continue_def)

text \<open>The callback of the kernel matters only to a coroutine that pauses.\<close>

definition never_pauses :: "bodies \<Rightarrow> bool" where
  "never_pauses body \<longleftrightarrow> (\<forall>f t w w'. body f t w = Some w' \<longrightarrow>
     \<not> vk_is_yielding (w_thread w' (running_cr (w_local w'))))"

text \<open>The dispatch loop relies on this of whatever wraps its calls: the call is made once, in the
  world of the loop, and only something of the caller's own is done to a world it returns.\<close>

locale call_wrapper =
  fixes wrap :: "(vk_world \<Rightarrow> vk_world option) \<Rightarrow> vk_world \<Rightarrow> vk_world option"
    and after :: "vk_world \<Rightarrow> vk_world"
  assumes wrap_call: "wrap f w = map_option after (f w)"
begin

lemma call_same:
  assumes "\<And>f t w w'. body f t w = Some w' \<Longrightarrow> after w' = w'"
  shows "execute_call_isolated wrap os body t w = execute_call os body t w"
proof -
  have "wrap (vk_iso_tramp body t) v = body (th_func (w_thread v t)) t v" for v
    using assms [of "th_func (w_thread v t)" t v]
    by (cases "body (th_func (w_thread v t)) t v") (simp_all add: wrap_call vk_iso_tramp_def)
  then show ?thesis by (simp add: execute_call_isolated_def execute_call_def)
qed

lemma loop_same:
  assumes "\<And>f t w w'. body f t w = Some w' \<Longrightarrow> after w' = w'"
  shows "execute_loop_isolated wrap os body i n cur w = execute_loop os body i n cur w"
  using assms
proof (induction os body i n cur w rule: execute_loop.induct)
  case (2 os body i n w)
  then show ?case by (simp split: option.split prod.split)
next
  case (3 os body i n t w)
  then show ?case by (simp add: call_same [OF "3.prems"] split: option.split prod.split)
qed simp

lemma execution_same:
  assumes "\<And>f t w w'. body f t w = Some w' \<Longrightarrow> after w' = w'"
  shows "vk_proc_local_execute_isolated wrap os body fuel w = vk_proc_local_execute os body fuel w"
  using loop_same [OF assms] by (simp add: vk_proc_local_execute_isolated_def vk_proc_local_execute_def)

end

lemma isolated_wrapper:
  "kernel_isolate s \<Longrightarrow> call_wrapper (isolated_call allowed s) (vk_isolate_scheduler_cb (user_state (iso s)))"
  by unfold_locales (rule isolated_call_eq)

lemma scheduler_cb_idle:
  "never_pauses body \<Longrightarrow> body f t w = Some w' \<Longrightarrow> vk_isolate_scheduler_cb ud w' = w'"
  by (simp add: vk_isolate_scheduler_cb_def never_pauses_def Let_def)

lemma isolated_same:
  "kernel_isolate s \<Longrightarrow> never_pauses body \<Longrightarrow>
    vk_proc_local_execute_isolated (isolated_call allowed s) os body fuel w = vk_proc_local_execute os body fuel w"
  by (rule call_wrapper.execution_same [OF isolated_wrapper scheduler_cb_idle])

text \<open>C10: Running a process through the isolation is running it plainly: the isolated dispatch
  loop, written out a second time in the source, with the callback of the kernel installed,
  returns what the plain loop returns, for every fuel, every outcome of the system calls and
  all coroutines that do not pause.\<close>

theorem isolated_execution_equal:
  assumes "kernel_isolate s" "never_pauses body"
  shows "vk_proc_local_execute_isolated (isolated_call allowed s) os body fuel w =
    vk_proc_local_execute os body fuel w"
  using assms by (rule isolated_same)

definition kernel_thread :: "addr \<Rightarrow> vk_world iso_thread" where
  "kernel_thread pl =
     \<lparr>t_in_isolated_window = False, t_in_sigsys_handler = False, t_current = False,
      pages = (\<lambda>_. PROT_READ OR PROT_WRITE), dispatched = False, accessed = [], called = [],
      iso = the (vk_kern_set_isolate_user_state pl (Some fresh_isolate)), iso_world = idle_world\<rparr>"

lemma kernel_thread_isolate: "kernel_isolate (kernel_thread pl)" "user_state (iso (kernel_thread pl)) = pl"
  by (simp_all add: kernel_isolate_def kernel_thread_def vk_kern_set_isolate_user_state_def
      vk_isolate_set_scheduler_def)

interpretation kernel_calls: call_wrapper "isolated_call (\<lambda>_. True) (kernel_thread pl)" "vk_isolate_scheduler_cb pl"
  for pl
  using isolated_wrapper [OF kernel_thread_isolate(1), of "\<lambda>_. True" pl] by (simp add: kernel_thread_isolate(2))

lemma isolated_execution_equal_witness:
  "\<forall>os. vk_proc_local_execute_isolated (isolated_call (\<lambda>_. True) (kernel_thread 0x1000)) os
     (\<lambda>f t w. Some (upd_thread (running_cr (w_local w)) (th_status_update (\<lambda>_. VK_PROC_END)) w)) 9 idle_world =
   vk_proc_local_execute os
     (\<lambda>f t w. Some (upd_thread (running_cr (w_local w)) (th_status_update (\<lambda>_. VK_PROC_END)) w)) 9 idle_world"
  by (rule allI, rule isolated_execution_equal [OF kernel_thread_isolate(1)])
    (simp add: never_pauses_def upd_thread_def vk_is_yielding_def)

text \<open>A pausing coroutine is different: the plain loop leaves it paused and goes on with the
  next coroutine of the queue, but in the isolated loop the callback has made it ready
  again, so the loop calls the same coroutine once more.\<close>

theorem isolated_pause_spins:
  assumes "kernel_isolate s" "user_state (iso s) \<noteq> 0" "t \<noteq> 0"
    "body (th_func (w_thread w t)) t (upd_local (running_cr_update (\<lambda>_. t)) w) = Some w1"
    "running_cr (w_local w1) = t" "vk_is_yielding (w_thread w1 t)"
  shows "\<exists>w2 w3.
    execute_call os body t w = Some (0, w2) \<and> vk_is_yielding (w_thread w2 t) \<and>
    execute_call_isolated (isolated_call allowed s) os body t w = Some (0, w3) \<and> vk_is_ready (w_thread w3 t)"
proof -
  let ?w2 = "upd_local (running_cr_update (\<lambda>_. 0)) w1"
  let ?w3 = "upd_local (running_cr_update (\<lambda>_. 0)) (vk_proc_local_enqueue_run t w1)"
  have y: "th_status (w_thread w1 t) = VK_PROC_YIELD" using assms(6) by (simp add: vk_is_yielding_def)
  have r: "th_status (w_thread (vk_proc_local_enqueue_run t w1) t) = VK_PROC_RUN"
    using y by (simp add: vk_proc_local_enqueue_run_def vk_ready_def upd_thread_def upd_local_def Let_def)
  have "isolated_call allowed s (vk_iso_tramp body t) (upd_local (running_cr_update (\<lambda>_. t)) w) =
      Some (vk_proc_local_enqueue_run t w1)"
    using assms by (simp add: isolated_call_eq vk_iso_tramp_def vk_isolate_scheduler_cb_def Let_def)
  with r have "execute_call_isolated (isolated_call allowed s) os body t w = Some (0, ?w3)"
    "vk_is_ready (w_thread ?w3 t)"
    by (simp_all add: execute_call_isolated_def vk_unblock_def vk_is_ready_def Let_def)
  moreover from y assms have "execute_call os body t w = Some (0, ?w2)" "vk_is_yielding (w_thread ?w2 t)"
    by (simp_all add: execute_call_def vk_unblock_def vk_is_yielding_def Let_def)
  ultimately show ?thesis by blast
qed

lemma isolated_pause_spins_witness:
  "\<forall>os. \<exists>w2 w3.
    execute_call os (\<lambda>f t w. Some (upd_thread t (th_status_update (\<lambda>_. VK_PROC_YIELD)) w)) 8 idle_world = Some (0, w2) \<and>
    vk_is_yielding (w_thread w2 8) \<and>
    execute_call_isolated (isolated_call (\<lambda>_. True) (kernel_thread 0x1000)) os
      (\<lambda>f t w. Some (upd_thread t (th_status_update (\<lambda>_. VK_PROC_YIELD)) w)) 8 idle_world = Some (0, w3) \<and>
    vk_is_ready (w_thread w3 8)"
  by (rule allI, rule isolated_pause_spins [of "kernel_thread 0x1000" 8
        "\<lambda>f t w. Some (upd_thread t (th_status_update (\<lambda>_. VK_PROC_YIELD)) w)" idle_world
        "upd_thread 8 (th_status_update (\<lambda>_. VK_PROC_YIELD)) (upd_local (running_cr_update (\<lambda>_. 8)) idle_world)",
        OF kernel_thread_isolate(1)])
    (simp_all add: kernel_thread_isolate(2) upd_thread_def upd_local_def vk_is_yielding_def)

subsection \<open>Making an instance\<close>

text \<open>A made instance traps only when the environment does not forbid it, the page of the
  selector was mapped and the system took the request; then system calls are allowed.\<close>

lemma create_gate:
  assumes "vk_isolate_create os = Some vk"
  shows "has_switch vk" "regions vk = []"
    "vk_isolate_syscall_trap_active (Some vk) \<longleftrightarrow>
      \<not> sud_user_disable os \<and> page_map os \<noteq> None \<and> prctl_rc os = 0"
    "sud_enabled vk \<Longrightarrow> sud_switch vk = Some SYSCALL_DISPATCH_FILTER_ALLOW"
  using assms
  by (auto simp: vk_isolate_create_def Let_def has_switch_def detect_libc_range_def install_sigsys_handler_def
      fresh_isolate_def vk_isolate_syscall_trap_active_def split: if_splits option.splits)

text \<open>Any object whose name contains the letters \<open>libc\<close> is taken for the C library, the first
  of them wins: system calls of \<open>libcrypto\<close> are allowed and those of the C library trapped.\<close>

lemma libcrypto_taken_for_libc:
  "dl_iterate_phdr [\<lparr>dlpi_name = Some ''/lib/libcrypto.so.3'', dlpi_addr = 0x10000,
                     dlpi_phdr = [\<lparr>pt_load = True, p_vaddr = 0, p_memsz = 0x1000\<rparr>]\<rparr>,
                    \<lparr>dlpi_name = Some ''/lib/libc.so.6'', dlpi_addr = 0x90000,
                     dlpi_phdr = [\<lparr>pt_load = True, p_vaddr = 0, p_memsz = 0x2000\<rparr>]\<rparr>] = (0x10000, 0x1000)"
  by code_simp

text \<open>The range holds every loaded segment of the object whose end does not wrap.\<close>

lemma fold_seg_bounds:
  "fst (fold (seg_bounds base) phs b) \<le> fst b" "snd b \<le> snd (fold (seg_bounds base) phs b)"
proof (induction phs arbitrary: b)
  case (Cons ph phs)
  { case 1 show ?case using Cons(1) [of "seg_bounds base ph b"]
      by (auto simp: seg_bounds_def Let_def split: if_splits) next
    case 2 show ?case using Cons(2) [of "seg_bounds base ph b"]
      by (auto simp: seg_bounds_def Let_def split: if_splits) }
qed simp_all

lemma phdr_cb_covers:
  assumes "phdr_cb info = Some (start, len)" "ph \<in> set (dlpi_phdr info)" "pt_load ph"
  shows "start \<le> dlpi_addr info + p_vaddr ph" "dlpi_addr info + p_vaddr ph + p_memsz ph \<le> start + len"
proof -
  let ?f = "seg_bounds (dlpi_addr info)"
  let ?b = "fold ?f (dlpi_phdr info) (- 1, 0)"
  have eq: "start = fst ?b" "start + len = snd ?b"
    using assms(1) by (auto simp: phdr_cb_def Let_def split: option.splits if_splits)
  obtain xs ys where "dlpi_phdr info = xs @ ph # ys" using assms(2) by (meson split_list)
  then have b: "?b = fold ?f ys (?f ph (fold ?f xs (- 1, 0)))" by simp
  let ?c = "?f ph (fold ?f xs (- 1, 0))"
  have "fst ?c \<le> dlpi_addr info + p_vaddr ph" "dlpi_addr info + p_vaddr ph + p_memsz ph \<le> snd ?c"
    using assms(3) by (auto simp: seg_bounds_def Let_def)
  moreover have "fst ?b \<le> fst ?c" "snd ?c \<le> snd ?b" unfolding b by (rule fold_seg_bounds)+
  ultimately have "fst ?b \<le> dlpi_addr info + p_vaddr ph" "dlpi_addr info + p_vaddr ph + p_memsz ph \<le> snd ?b"
    by (meson order_trans)+
  then show "start \<le> dlpi_addr info + p_vaddr ph" "dlpi_addr info + p_vaddr ph + p_memsz ph \<le> start + len"
    using eq(1) eq(2) by metis+
qed

end
