(* ===== verification/App.thy ===== *)
theory App
  imports Service Rfc_IO Isolate_Props
begin

text \<open>
  The small applications: the echo server (src/vk_echo.c) and the sender of fetch requests
  (src/vk_fetch.c) as tasks on streams, the client program with its two coroutines on one
  connection (src/vk_client.c, src/vk_connection.c), and the program that runs one process
  isolated and without a kernel (src/vk_main_local_isolate.c).
\<close>

subsection \<open>The echo server\<close>

text \<open>\<open>snprintf\<close> into a buffer of 8191 bytes; the line is read as a C string.\<close>

definition echo_line :: "size_t \<Rightarrow> byte list \<Rightarrow> byte list" where
  "echo_line i line =
     take 8190 (bytes_of (''Line '' @ decimal (unat i) @ '': '') @ c_str line)"

text \<open>\<open>vk_eof\<close> after a line: the flag of the ring is set once the end of file has been read, which is
  \<open>vk_nodata\<close> on a stream. \<open>room\<close> is whether the process has room for the two buffers.\<close>

fun vk_echo :: "bool \<Rightarrow> nat \<Rightarrow> size_t \<Rightarrow> (unit, unit) task" where
  "vk_echo room 0 i = fail Out_Of_Fuel"
| "vk_echo room (Suc n) i =
     (if \<not> room then vk_raise_task ENOMEM
      else andThen (vk_readline_task 8191) (\<lambda>line.
        if line = [] then give ()
        else andThen vk_nodata_task (\<lambda>eof.
          if eof then give ()
          else andThen (vk_write_task (echo_line i line)) (\<lambda>_. vk_echo room n (i + 1)))))"

definition plain_line :: "byte list \<Rightarrow> bool" where
  "plain_line l \<longleftrightarrow> 10 \<notin> set l \<and> 0 \<notin> set l \<and> length l < 8000"

fun echoed :: "size_t \<Rightarrow> byte list list \<Rightarrow> byte list" where
  "echoed i [] = []"
| "echoed i (l # ls) = echo_line i (l @ [10]) @ echoed (i + 1) ls"

definition lines_of :: "byte list list \<Rightarrow> byte list" where
  "lines_of ls = concat (map (\<lambda>l. l @ [10]) ls)"

text \<open>Every line that has arrived whole before the end of file was seen is answered.\<close>

theorem echo_answers_lines:
  assumes "list_all plain_line ls" "length ls < n"
    "c_in c = map Byte (lines_of ls)" "c_late c = replicate (length ls) True" "\<not> c_closed c"
  shows "\<exists>c'. vk_echo True n i c = (Inr (), c') \<and> c_out c' = c_out c @ map Byte (echoed i ls) \<and> c_in c' = []"
  using assms
proof (induction ls arbitrary: n i c)
  case Nil
  then obtain m where "n = Suc m" by (cases n) auto
  with Nil show ?case by (simp add: andThen_cases vk_readline_task_def lines_of_def)
next
  case (Cons l ls)
  then obtain m where n: "n = Suc m" "length ls < m" by (cases n) auto
  let ?c = "c\<lparr>c_in := map Byte (lines_of ls)\<rparr>"
  have "c_in c = map Byte l @ Byte 10 # map Byte (lines_of ls)" using Cons.prems by (simp add: lines_of_def)
  then have r: "vk_readline_task 8191 c = (Inr (l @ [10]), ?c)"
    by (rule readline_exact) (use Cons.prems in \<open>simp_all add: plain_line_def\<close>)
  let ?d = "?c\<lparr>c_late := drop 1 (c_late ?c)\<rparr>"
  have e: "vk_nodata_task ?c = (Inr False, ?d)" using Cons.prems by (simp add: nodata_run)
  let ?e = "?d\<lparr>c_out := c_out c @ map Byte (echo_line i (l @ [10]))\<rparr>"
  have w: "vk_write_task (echo_line i (l @ [10])) ?d = (Inr (), ?e)"
    using Cons.prems by (simp add: vk_write_task_def put_def)
  have "\<exists>c'. vk_echo True m (i + 1) ?e = (Inr (), c') \<and>
      c_out c' = c_out ?e @ map Byte (echoed (i + 1) ls) \<and> c_in c' = []"
    by (rule Cons.IH) (use Cons.prems n in simp_all)
  with r e w n show ?case by (simp add: andThen_cases)
qed

definition two_lines :: "unit conn" where
  "two_lines = \<lparr>c_in = map Byte (lines_of [[65], [66]]), c_out = [], c_closed = False, c_late = [True, True]\<rparr>"

theorem echo_answers_lines_witness:
  "\<exists>c'. vk_echo True 3 0 two_lines = (Inr (), c') \<and>
    c_out c' = c_out two_lines @ map Byte (echoed 0 [[65], [66]]) \<and> c_in c' = []"
  by (rule echo_answers_lines) (simp_all add: plain_line_def two_lines_def)

text \<open>A last line without a newline is read together with the end of file and not answered.\<close>

lemma echo_drops_last_line:
  assumes "10 \<notin> set l" "length l \<le> 8191" "c_in c = map Byte l" "c_late c = []"
  shows "\<exists>c'. vk_echo True (Suc n) i c = (Inr (), c') \<and> c_out c' = c_out c"
proof -
  have "take_line (map Byte l :: unit atom list) = Some (l, [])" using assms(1) by (induction l) auto
  then have r: "vk_readline_task 8191 c = (Inr l, c\<lparr>c_in := []\<rparr>)"
    using assms by (simp add: vk_readline_task_def)
  show ?thesis
  proof (cases "l = []")
    case False
    then show ?thesis using r assms(4) by (simp add: andThen_cases nodata_run at_eof_def)
  qed (use r in \<open>simp add: andThen_cases\<close>)
qed

subsection \<open>Sending fetch requests\<close>

record vk_fetch =
  ft_method :: "byte list"
  ft_url :: "byte list"
  ft_headers :: "(byte list \<times> byte list) list"
  ft_close :: bool

type_synonym 'a fetch = "(vk_fetch, 'a) task"

text \<open>\<open>vk_writef\<close>: a text that does not fit the buffer of \<open>room\<close> bytes is an error.\<close>

definition vk_writef_task :: "nat \<Rightarrow> byte list \<Rightarrow> ('q, unit) task" where
  "vk_writef_task room text = (if length text \<ge> room then vk_raise_task ENOBUFS else vk_write_task text)"

fun fetch_headers :: "(byte list \<times> byte list) list \<Rightarrow> unit fetch" where
  "fetch_headers [] = vk_write_task [13, 10]"
| "fetch_headers ((k, v) # hs) = andThen (vk_writerfcheader_task k v) (\<lambda>_. fetch_headers hs)"

fun fetch_chunks :: "nat \<Rightarrow> unit fetch" where
  "fetch_chunks 0 = fail Out_Of_Fuel"
| "fetch_chunks (Suc n) =
     andThen vk_pollhup_task (\<lambda>hup.
       if hup then give ()
       else andThen (vk_read_task 4096 4095) (\<lambda>bs.
         andThen (if bs \<noteq> []
                  then andThen (vk_writerfcchunkheader_task (of_nat (length bs))) (\<lambda>_.
                         andThen (vk_write_task bs) (\<lambda>_. vk_writerfcchunkfooter_task))
                  else give ()) (\<lambda>_. fetch_chunks n)))"

definition fetch_once :: "nat \<Rightarrow> bool fetch" where
  "fetch_once n =
     andThen vk_read_struct_task (\<lambda>q.
       case q of
         None \<Rightarrow> vk_raise_task EPIPE
       | Some f \<Rightarrow>
           andThen (vk_writef_task 1024 (ft_method f @ [32] @ ft_url f @ [32] @
                      bytes_of (''HTTP/1.1'' @ [CHR 0x0D, CHR 0x0A]))) (\<lambda>_.
           andThen (fetch_headers (ft_headers f)) (\<lambda>_.
           andThen (fetch_chunks n) (\<lambda>_.
           andThen vk_readhup_task (\<lambda>_. give (ft_close f))))))"

text \<open>The request loop; the coroutine starts the reader of responses before it.\<close>

fun vk_fetch_request :: "nat \<Rightarrow> nat \<Rightarrow> unit fetch" where
  "vk_fetch_request 0 m = fail Out_Of_Fuel"
| "vk_fetch_request (Suc n) m =
     andThen (fetch_once m) (\<lambda>close. if close then give () else vk_fetch_request n m)"

text \<open>The reader of responses has an empty loop over a flag of its own, cleared structure.\<close>

fun vk_fetch_response :: "nat \<Rightarrow> bool \<Rightarrow> unit fetch" where
  "vk_fetch_response 0 close = fail Out_Of_Fuel"
| "vk_fetch_response (Suc n) close = (if close then give () else vk_fetch_response n close)"

theorem fetch_response_never_returns: "vk_fetch_response n False c = (Inl Out_Of_Fuel, c)"
  by (induction n) simp_all

text \<open>Nothing is written after the last chunk of a request, whose headers announce no chunks.\<close>

lemma fetch_chunks_one:
  assumes "c_in c = map Byte bs @ [Hup]" "bs \<noteq> []" "length bs \<le> 4095" "\<not> c_closed c"
  shows "fetch_chunks (Suc (Suc n)) c =
    (Inr (), c\<lparr>c_in := [Hup], c_out := c_out c @ map Byte (chunk_head (of_nat (length bs)) @ bs @ [13, 10])\<rparr>)"
proof -
  have t: "take_bytes m (map Byte bs @ [Hup] :: vk_fetch atom list) = Some (bs, [Hup])" if "length bs \<le> m" for m
    using that
  proof (induction bs arbitrary: m)
    case Nil
    then show ?case by (cases m) simp_all
  next
    case (Cons b bs)
    then show ?case by (cases m) auto
  qed
  have "vk_read_task 4096 4095 c = (Inr bs, c\<lparr>c_in := [Hup]\<rparr>)"
    using assms t [of 4095] by (simp add: vk_read_task_def)
  moreover have "\<not> at_eof c" using assms by (cases bs) (simp_all add: at_eof_def)
  moreover have "at_eof (c\<lparr>c_in := [Hup], c_out := x\<rparr>)" for x by (simp add: at_eof_def)
  ultimately show ?thesis using assms
    by (simp add: andThen_cases vk_pollhup_task_def vk_writerfcchunkheader_task_def vk_writerfcchunkfooter_task_def
        vk_write_task_def put_def)
qed

subsection \<open>The client program\<close>

text \<open>It runs \<open>vk_connection_client\<close> in the one process of a kernel with the default poller.\<close>

definition vk_client_init ::
  "alloc_env \<Rightarrow> layout \<Rightarrow> vk_world \<Rightarrow> kern_env \<Rightarrow> nat \<Rightarrow> (errno + unit) \<Rightarrow> size_t \<Rightarrow>
   nat \<Rightarrow> byte list \<Rightarrow> size_t \<Rightarrow> bool \<Rightarrow> bool \<Rightarrow> kern_world \<Rightarrow> kern_result" where
  "vk_client_init env lay left e fuel unmap line connection arg page_count privd isol k =
     (case vk_kern_alloc env k of
        (Inl _, k1) \<Rightarrow> K_Returns (- 1) k1
      | (Inr _, k1) \<Rightarrow>
          (case spawn_main env lay left (4096 * page_count) privd isol connection arg line k1 of
             Crashed \<Rightarrow> K_Killed
           | Failed k2 \<Rightarrow> K_Returns (- 1) k2
           | Done p k2 \<Rightarrow> loop_and_free unmap e fuel p k2))"

text \<open>So it is the main program without environment variables, and what is proved of that one holds of it.\<close>

theorem client_init_is_main:
  "vk_client_init env lay left e fuel unmap line connection arg page_count privd isol k =
   vk_main_init env lay left (\<lambda>_. None) e fuel unmap line connection arg page_count privd isol k"
proof -
  have "poll_options (\<lambda>_. None) k2 = k2" for k2 by (simp add: poll_options_def)
  then show ?thesis by (simp only: vk_client_init_def vk_main_init_def)
qed

text \<open>One of the two coroutines on the connection. \<open>Inl\<close>: the allocation raised an error; \<open>None\<close> is a fault.\<close>

definition connection_end ::
  "layout \<Rightarrow> size_t \<Rightarrow> int \<Rightarrow> size_t \<Rightarrow> addr \<Rightarrow> nat \<Rightarrow> int \<Rightarrow> int \<Rightarrow> vk_world \<Rightarrow> (vk_world + addr \<times> vk_world) option" where
  "connection_end lay line c thread_size that func rx tx w =
     (case vk_calloc_size lay line c that 1 thread_size w of
        Inl w1 \<Rightarrow> Some (Inl w1)
      | Inr (t, w1) \<Rightarrow>
          map_option (\<lambda>w2. Inr (t, w2))
            (vk_init_fds lay t func rx VK_FD_TYPE_SOCKET_STREAM tx VK_FD_TYPE_SOCKET_STREAM line w1))"

text \<open>The loop at the end: it is entered again whenever the coroutine is dispatched.\<close>

definition connection_wait :: "size_t \<Rightarrow> int \<Rightarrow> addr \<Rightarrow> addr \<Rightarrow> addr \<Rightarrow> vk_world \<Rightarrow> vk_world" where
  "connection_wait line c that sender receiver w =
     (if vk_is_completed (w_thread w sender) \<and> vk_is_completed (w_thread w receiver)
      then upd_thread that (vk_end line c) (vk_finally that w)
      else vk_pause line c that w)"

definition vk_connection_client ::
  "layout \<Rightarrow> size_t \<Rightarrow> int \<Rightarrow> size_t \<Rightarrow> addr \<Rightarrow> nat \<Rightarrow> nat \<Rightarrow> (errno + int) \<Rightarrow> vk_world \<Rightarrow> vk_world option" where
  "vk_connection_client lay line c thread_size that req_func resp_func connected w =
     (case connected of
        Inl e \<Rightarrow> Some (vk_raise line c that e (set_errno e w))
      | Inr fd \<Rightarrow>
          (case connection_end lay line c thread_size that req_func 0 fd w of
             None \<Rightarrow> None
           | Some (Inl w1) \<Rightarrow> Some w1
           | Some (Inr (sender, w1)) \<Rightarrow>
               (case connection_end lay line c thread_size that resp_func fd 1 w1 of
                  None \<Rightarrow> None
                | Some (Inl w2) \<Rightarrow> Some w2
                | Some (Inr (receiver, w2)) \<Rightarrow>
                    Some (connection_wait line c that sender receiver
                            (vk_play sender (vk_play receiver w2))))))"

text \<open>The pause at the end does not queue the coroutine: nobody plays it again, so it is not
  there to see its children complete.\<close>

lemma connection_wait_not_queued:
  assumes "\<not> (vk_is_completed (w_thread w sender) \<and> vk_is_completed (w_thread w receiver))"
  shows "run_q (w_local (connection_wait line c that sender receiver w)) = run_q (w_local w)"
    "vk_is_yielding (w_thread (connection_wait line c that sender receiver w) that)"
  using assms
  by (auto simp: connection_wait_def vk_pause_def upd_thread_def vk_yield_def vk_is_yielding_def)

subsection \<open>One process, isolated, without a kernel\<close>

definition vk_main_local_isolate_init ::
  "((vk_world \<Rightarrow> vk_world option) \<Rightarrow> vk_world \<Rightarrow> vk_world option) \<Rightarrow> alloc_env \<Rightarrow> layout \<Rightarrow> vk_world \<Rightarrow>
   (nat \<Rightarrow> os_calls) \<Rightarrow> bodies \<Rightarrow> nat \<Rightarrow> size_t \<Rightarrow> nat \<Rightarrow> byte list \<Rightarrow> size_t \<Rightarrow> executed" where
  "vk_main_local_isolate_init isolate env lay left os body fuel line main_vk arg page_count =
     (case vk_heap_map zero_heap 0 (page_count * 4096) PROT_NONE MAP_PRIVATE_ANON (- 1) 0 True (ae_mmap env False) of
        (rc, hp) \<Rightarrow>
     (case map_error rc of
        Some e \<Rightarrow> Returns (- 1) left
      | None \<Rightarrow>
     (case vk_stack_push (ae_page env) (\<lambda>_. 0) (heap_stack hp) 1 (ae_local_size env) of
        Inl e \<Rightarrow> Returns (- 1) left
      | Inr (l, m1, s1) \<Rightarrow>
          (let w = left\<lparr>w_mem := m1, w_local := (vk_proc_local_init zero_local)\<lparr>pl_proc_id := 1, pl_stack := s1\<rparr>\<rparr>
           in case vk_stack_push (ae_page env) m1 s1 1 (ae_thread_size env) of
                Inl e \<Rightarrow> Returns (- 1) w
              | Inr (that, m2, s2) \<Rightarrow>
                  (case vk_init_fds lay that main_vk 0 VK_FD_TYPE_SOCKET_STREAM 1 VK_FD_TYPE_SOCKET_STREAM line
                          (upd_local (pl_stack_update (\<lambda>_. s2)) (w\<lparr>w_mem := m2\<rparr>)) of
                     None \<Rightarrow> Killed
                   | Some w1 \<Rightarrow>
                       (case vk_copy_arg_in that arg w1 of
                          (rc, w2) \<Rightarrow>
                            if rc = - 1 then Returns (- 1) w2
                            else vk_proc_local_execute_isolated isolate os body fuel
                                   (vk_proc_local_enqueue_run that w2)))))))"

text \<open>The isolated program ends in the world the plain one ends in; only it reports a failed execution.\<close>

theorem local_isolate_same:
  assumes "kernel_isolate s" "never_pauses body"
  shows "case vk_main_local_isolate_init (isolated_call allowed s) env lay left os body fuel line main_vk arg page_count of
      Returns rc w \<Rightarrow> \<exists>rc'. vk_main_local_init env lay left os body fuel line main_vk arg page_count = Returns rc' w
    | r \<Rightarrow> vk_main_local_init env lay left os body fuel line main_vk arg page_count = r"
  using assms
  by (auto simp: vk_main_local_isolate_init_def vk_main_local_init_def isolated_same Let_def split: prod.splits sum.splits option.splits executed.splits)

end
