(* ===== verification/Spec2Isabelle.thy ===== *)
theory Spec2Isabelle
  imports Wrapguard Vectoring_Copy Rfc Thread_IO Kern_Safe Http_Enum Huge Io_Batch Redis_Props Http11_Session
    Service_Props Signal_Props Kern_Fault Kqueue_Props Aio App
begin

text \<open>
  A verification development for mnvkd, a C library of stackless coroutines that run on
  sockets in a virtual kernel, with the protocol servers written on it. The theories are
  translations of the sources under src/; this header says what is where.

  \<^bold>\<open>The program.\<close> A program (vk_main.c) maps one heap for a kernel (vk_kern.c), which holds a
  pool of processes (vk_proc.c, vk_pool.c) and a table of descriptors (vk_fd_table.c). A
  process has a micro-heap of its own (vk_heap.c, vk_stack.c), and in it coroutines
  (vk_thread.c, the macros of vk_thread_*.h) and their sockets (vk_socket.c): two rings
  (vk_vectoring.c) with pipes to a descriptor or to a ring of another coroutine. A coroutine
  that needs input or room stores a blocking operation in its socket and returns to the
  scheduler of its process (vk_proc_local.c), whose run and blocked queues decide who runs
  next. After a dispatch the kernel moves what is blocked on descriptors into the table,
  waits with poll, epoll, kqueue or io_getevents, hands the events back to the processes
  and dispatches them. Signals reach the kernel through a slot, or jump out of a fault
  (vk_signal.c); an unprivileged process can run with the kernel's heap masked and its system
  calls trapped (vk_isolate.c). On top are a listener that gives each connection a process
  (vk_service.c, vk_server.c), a Redis server on SQLite, an HTTP server, a fetch client, and
  an echo server.

  \<^bold>\<open>Conventions.\<close> A struct is a \<open>record\<close> with the field names of the C, an enum a
  \<open>datatype\<close>; \<open>size_t\<close> and addresses are 64-bit words, so that every overflow is in the
  model; an \<open>int\<close> or \<open>ssize_t\<close> result is an \<open>int\<close>, or a word where its width matters.
  A function keeps the name of the C function. One that sets \<open>errno\<close> and fails returns \<open>Inl errno\<close>;
  \<open>None\<close>, \<open>K_Killed\<close> or \<open>Crashed\<close> is a null pointer followed or an element
  unlinked from a list it is not on. What the compiler, the linker or the operating system decides (the
  outcome of a system call, the layout of structures, the clock, the text of /proc/meminfo) is an
  argument, and the theorems hold for all its values unless a hypothesis names what is
  relied on.

  \<^bold>\<open>Foundations.\<close>
  \<^item> \<open>VK_Prelude\<close>: C types, errno values, byte memory, and the shared lemmas.
  \<^item> \<open>C_String\<close>: \<open>strcasecmp\<close> and the other string functions called.
  \<^item> \<open>Wrapguard\<close> (vk_wrapguard.c): overflow guards and page rounding; the locale
    \<open>page_rounding\<close> is its contract, interpreted on 4 KiB and on huge pages.
  \<^item> \<open>Slist\<close> (vk_queue.h): the linked lists at pointer level and as sequences;
    \<open>flagged_queue\<close> and \<open>marked_queue\<close> are the contract of a queue with a
    membership flag, interpreted on every such queue of the program.

  \<^bold>\<open>Memory.\<close>
  \<^item> \<open>Stack\<close>, \<open>Heap\<close> (vk_stack.c, vk_heap.c): allocation in a micro-heap, its
    mapping and its protection; pop undoes push.
  \<^item> \<open>Pool\<close> (vk_pool.c): the free list of entries at pointer level.
  \<^item> \<open>Huge\<close> (vk_huge.c): when huge pages are asked for, and how lengths are rounded.

  \<^bold>\<open>Bytes.\<close>
  \<^item> \<open>Vectoring\<close>, \<open>Vectoring_Copy\<close>, \<open>Vectoring_IO\<close>, \<open>Newline\<close>,
    \<open>Ring_Inv\<close> (vk_vectoring.c): the ring over byte memory refines a bounded byte queue;
    splicing, descriptors, the vectorised search for a newline; every operation keeps a ring well-formed.
  \<^item> \<open>Rfc\<close>, \<open>Rfc_IO\<close> (vk_rfc.c, vk_rfc.h): trimming, number conversion, header lines, chunks.
  \<^item> \<open>Io_Queue\<close>, \<open>Io_Batch\<close> (vk_io_*.c): operations as values, their tail queue, their
    execution and the synchronous batch; \<open>fifo\<close> is the contract of the queue.

  \<^bold>\<open>One process.\<close>
  \<^item> \<open>VK_State\<close>: threads, sockets, pipes and futures by address; a \<open>vk_world\<close> is
    everything one process can reach.
  \<^item> \<open>Socket\<close>, \<open>Socket_Props\<close>, \<open>Socket_Inv\<close> (vk_socket.c, vk_pipe.c): the handler
    of each blocking operation; every handler returns and keeps queues, rings and links, and
    what is left blocked is registered for polling.
  \<^item> \<open>Coroutine\<close> (vk_thread_*.h, vk_future.c), \<open>Proc_Local\<close>, \<open>Scheduler\<close>
    (vk_proc_local.c, vk_thread.c): life of a coroutine, futures, errors, the run and blocked
    queues, and the execution of a process.
  \<^item> \<open>Thread_IO\<close> (vk_thread_io.h): the loops of the blocking macros; a read delivers the
    stream in order across suspensions.

  \<^bold>\<open>The kernel.\<close>
  \<^item> \<open>Kern_State\<close>, \<open>Fd_Table\<close>, \<open>Proc\<close>, \<open>Kern\<close>: slots, processes, the
    poll and epoll drivers, the hooks around polling and the main loop.
  \<^item> \<open>Fd_Props\<close>, \<open>Kern_Props\<close>, \<open>Kern_Safe\<close>: no event and no registration is lost,
    a polled socket wakes its coroutine, the kernel is closed while an unprivileged process
    runs, and an invariant that ties slots, processes and queues together, kept by every
    step, from which the loop is safe.
  \<^item> \<open>Kqueue\<close>, \<open>Kqueue_Props\<close>, \<open>Aio\<close>: the kqueue and io_getevents drivers.
  \<^item> \<open>Proc_Alloc\<close>, \<open>Proc_Alloc_Props\<close>: how kernel, processes and coroutines are
    allocated; slots are disjoint, never handed out twice and never lost.
  \<^item> \<open>Signal\<close>, \<open>Signal_Props\<close> (vk_signal.c), \<open>Kern_Fault\<close>: texts, mask, registration,
    the asynchronous handler, and the way of a fault into the coroutine that ran.
  \<^item> \<open>Isolate\<close>, \<open>Isolate_Props\<close> (vk_isolate.c): every way into and out of the window;
    the gate reopens, the coroutine reaches no privileged page unless it has the C library
    change its protection, which is let through, and the isolated dispatch loop, a copy of the
    plain one, returns what that returns. \<open>call_wrapper\<close> is the contract
    between the isolation and the kernel's dispatch.

  \<^bold>\<open>Programs.\<close>
  \<^item> \<open>Net\<close>, \<open>Service\<close>, \<open>Service_Props\<close> (vk_accepted.c, vk_server.c, vk_service.c,
    vk_main.c): a program that is set up starts in the invariant of the kernel, so
    it is safe up to the end of the main loop, after which the main process is released a second
    time; a connection gets a process of its own.
  \<^item> \<open>Stream_Task\<close>: a coroutine as a task on the streams of its sockets.
  \<^item> \<open>Redis\<close>, \<open>Redis_Props\<close> (vk_redis.c): reader and responder refine a key value map.
  \<^item> \<open>Http_Enum\<close>, \<open>Http11\<close>, \<open>Http11_Props\<close>, \<open>Http11_Session\<close> (vk_fetch_s.h,
    vk_http11.c): tables and their binary searches, request heads, sessions.
  \<^item> \<open>App\<close> (vk_echo.c, vk_fetch.c, vk_client.c, vk_connection.c,
    vk_main_local_isolate.c): the small applications.

  \<^bold>\<open>Loops and fuel.\<close> A loop over a list or a counter is structural recursion or has a
  measure. The loops that may run for ever take fuel, and running out is a value
  of its own (\<open>K_Out_Of_Fuel\<close>, \<open>Out_Of_Fuel\<close>). The readers of the protocols are given one
  more than the bytes left to read; the theorems on their termination show that this always
  suffices, because every round takes a byte. Whether a process returns to the kernel is up to its
  coroutines, which may loop, and the main loop serves until nothing is pending, which
  depends on the peers; so their safety is stated for every fuel: it rules out the crash
  and describes the state in which the loop returns.

  \<^bold>\<open>Not modelled, and why.\<close>
  \<^item> Printing only: the loggers, debug and dump functions, and \<open>perror\<close>. Plain getters and
    setters are the fields of the records.
  \<^item> \<open>madvise\<close> and the C library's formatting of pointers.
  \<^item> The context switch of \<open>setjmp\<close> and \<open>longjmp\<close>: a jump is an outcome of the
    function that runs under it. In the main loop a crash ends the run as
    \<open>K_Killed\<close>; what the installed jumper does after a fault is \<open>Kern_Fault\<close>.
  \<^item> SQLite is a parameter of the Redis responder.
  \<^item> The protocol coroutines are not run as coroutines on rings but on streams; \<open>Thread_IO\<close>
    shows of reading that this is what the macros give, and where lines differ.
  \<^item> The error reply of the reader of fetch responses, which its endless loop never
    reaches.
  \<^item> The page faults that follow when the kernel's heap cannot be opened again after a process has
    run: \<open>execute_protected\<close> keeps the protection it has then, and goes on.
  \<^item> What the responder of a session writes after its reader has failed: \<open>http11_serve\<close> and
    \<open>redis_serve\<close> give the failure only.
  \<^item> The instance of the isolation is kept beside the world of the process, not in its
    memory.
  \<^item> The test programs and samples (vk_test_*.c, io_submit_test.c).
\<close>

end
